(* ===== verification/Prelude.thy ===== *)
theory Prelude
  imports Complex_Main "HOL-Library.Word"
begin

text \<open>
  The vocabulary the component theories share.

  Conventions of the whole development:
  \<^item> an instant (\<open>time.Time\<close>) and a \<open>time.Duration\<close> are integers counting nanoseconds; an
    operation that reads the clock takes the instant it read as its argument \<open>now\<close>;
  \<^item> a \<open>float64\<close> is a real number: sums, products and comparisons are exact, the rounding of the
    hardware is not modelled;
  \<^item> a Go string is its bytes, a \<open>char list\<close>;
  \<^item> a method that holds the component's mutex from its first to its last access is one state
    transformer; code that works with atomics or releases its lock half way is cut into steps;
  \<^item> a pointer receiver that the code compares with \<open>nil\<close> is an \<open>option\<close>;
  \<^item> a callback is an event in the operation's result.
\<close>

section \<open>Types\<close>

type_synonym nanos = int
type_synonym usd = real

abbreviation second :: nanos where "second \<equiv> 1000000000"
abbreviation minute :: nanos where "minute \<equiv> 60 * second"
abbreviation hour :: nanos where "hour \<equiv> 60 * minute"

section \<open>Collections\<close>

text \<open>
  \<open>inv_intros\<close> collects the preservation lemmas of the components' invariants,
  \<open>op_defs\<close> the definitions that a proof about one operation unfolds.
\<close>

named_theorems inv_intros
named_theorems op_defs

section \<open>Integer division of Go\<close>

text \<open>Go truncates towards zero; Isabelle's \<open>div\<close> rounds down.\<close>

definition go_div :: "int \<Rightarrow> int \<Rightarrow> int" where
  "go_div a b = sgn a * sgn b * (\<bar>a\<bar> div \<bar>b\<bar>)"

lemma go_div_nonneg [simp]: "0 \<le> a \<Longrightarrow> 0 < b \<Longrightarrow> go_div a b = a div b"
  by (cases "a = 0") (auto simp: go_div_def sgn_if)

section \<open>Lists\<close>

text \<open>On a sorted list, cutting the prefix below a bound is filtering it away.\<close>

lemma dropWhile_sorted_filter:
  assumes "sorted (map f xs)"
  shows "dropWhile (\<lambda>x. f x < c) xs = filter (\<lambda>x. \<not> f x < (c::'b::linorder)) xs"
  using assms
proof (induction xs)
  case Nil
  then show ?case by simp
next
  case (Cons x xs)
  show ?case
  proof (cases "f x < c")
    case True
    with Cons show ?thesis by simp
  next
    case False
    with Cons.prems have "\<forall>y\<in>set xs. \<not> f y < c" by auto
    then have "filter (\<lambda>x. \<not> f x < c) xs = xs" by (simp add: filter_id_conv)
    with False show ?thesis by simp
  qed
qed

lemma sorted_map_filter: "sorted (map f xs) \<Longrightarrow> sorted (map f (filter P xs))"
  by (induction xs) auto

lemma sum_list_filter_le:
  fixes f :: "'a \<Rightarrow> real"
  assumes "\<forall>x\<in>set xs. 0 \<le> f x"
  shows "sum_list (map f (filter P xs)) \<le> sum_list (map f xs)"
  using assms by (induction xs) auto

lemma sum_list_filter_mono:
  fixes f :: "'a \<Rightarrow> real"
  assumes "\<forall>x\<in>set xs. 0 \<le> f x" "\<forall>x\<in>set xs. P x \<longrightarrow> Q x"
  shows "sum_list (map f (filter P xs)) \<le> sum_list (map f (filter Q xs))"
  using assms by (induction xs) auto

lemma sum_list_nonneg_real: "\<forall>x\<in>set xs. 0 \<le> f x \<Longrightarrow> 0 \<le> sum_list (map f xs :: real list)"
  by (induction xs) auto

text \<open>Removing the element at an index, as Go's \<open>append(s[:i], s[i+1:]...)\<close>.\<close>

definition remove_at :: "nat \<Rightarrow> 'a list \<Rightarrow> 'a list" where
  "remove_at i xs = take i xs @ drop (Suc i) xs"

section \<open>Maps\<close>

lemma card_dom_upd:
  "finite (dom m) \<Longrightarrow> card (dom (m(k \<mapsto> v))) = (if k \<in> dom m then card (dom m) else Suc (card (dom m)))"
  by (simp add: card_insert_if)

lemma card_dom_upd_le:
  "finite (dom m) \<Longrightarrow> card (dom (m(k \<mapsto> v))) \<le> Suc (card (dom m))"
  by (simp add: card_insert_if)

lemma dom_fun_upd_None [simp]: "dom (m(k := None)) = dom m - {k}"
  by auto

lemma card_dom_del:
  "finite (dom m) \<Longrightarrow> k \<in> dom m \<Longrightarrow> Suc (card (dom (m(k := None)))) = card (dom m)"
  by (simp only: dom_fun_upd_None card_Suc_Diff1)

section \<open>Binary search\<close>

text \<open>
  \<open>sort.Search\<close> of Go's library: the interval \<open>[i, j)\<close> shrinks until it is empty. The probe is
  \<open>(i + j) / 2\<close>.
\<close>

function go_search_loop :: "(nat \<Rightarrow> bool) \<Rightarrow> nat \<Rightarrow> nat \<Rightarrow> nat" where
  "go_search_loop f i j =
     (if i < j then
        let h = (i + j) div 2 in
        if \<not> f h then go_search_loop f (h + 1) j else go_search_loop f i h
      else i)"
  by pat_completeness auto
termination
  by (relation "measure (\<lambda>(f, i, j). j - i)") auto

declare go_search_loop.simps [simp del]

definition go_search :: "nat \<Rightarrow> (nat \<Rightarrow> bool) \<Rightarrow> nat" where
  "go_search n f = go_search_loop f 0 n"

text \<open>On a predicate that never turns false again, the search finds where it turns true.\<close>

definition stays_true :: "(nat \<Rightarrow> bool) \<Rightarrow> nat \<Rightarrow> bool" where
  "stays_true f n \<longleftrightarrow> (\<forall>a b. a \<le> b \<and> b < n \<and> f a \<longrightarrow> f b)"

definition splits_at :: "(nat \<Rightarrow> bool) \<Rightarrow> nat \<Rightarrow> nat \<Rightarrow> bool" where
  "splits_at f n k \<longleftrightarrow> k \<le> n \<and> (\<forall>a<k. \<not> f a) \<and> (\<forall>a. k \<le> a \<and> a < n \<longrightarrow> f a)"

lemma go_search_loop_spec:
  assumes "stays_true f n" "i \<le> j" "j \<le> n" "\<forall>k<i. \<not> f k" "\<forall>k. j \<le> k \<and> k < n \<longrightarrow> f k"
  shows "splits_at f n (go_search_loop f i j)"
  using assms
proof (induction f i j rule: go_search_loop.induct)
  case (1 f i j)
  show ?case
  proof (cases "i < j")
    case False
    then have "go_search_loop f i j = i" by (simp add: go_search_loop.simps [of f i j])
    with False "1.prems"(2-5) show ?thesis by (auto simp: splits_at_def)
  next
    case ij: True
    let ?h = "(i + j) div 2"
    have h: "i \<le> ?h" "?h < j" using ij by auto
    show ?thesis
    proof (cases "f ?h")
      case True
      have hs: "\<forall>k. ?h \<le> k \<and> k < n \<longrightarrow> f k"
        using "1.prems"(1) True unfolding stays_true_def by blast
      have "?h \<le> n" using h "1.prems"(3) by simp
      with "1.IH"(2) [OF ij refl] True "1.prems"(1,4) h(1) hs
      have "splits_at f n (go_search_loop f i ?h)" by blast
      with ij True show ?thesis by (simp add: go_search_loop.simps [of f i j] Let_def)
    next
      case False
      have hs: "\<forall>k<?h + 1. \<not> f k"
      proof (intro allI impI notI)
        fix k assume "k < ?h + 1" "f k"
        then have "k \<le> ?h" "?h < n" using "1.prems"(3) h by simp_all
        with \<open>f k\<close> "1.prems"(1) False show False unfolding stays_true_def by blast
      qed
      have "?h + 1 \<le> j" using h by simp
      with "1.IH"(1) [OF ij refl] False "1.prems"(1,3,5) hs
      have "splits_at f n (go_search_loop f (?h + 1) j)" by blast
      with ij False show ?thesis by (simp add: go_search_loop.simps [of f i j] Let_def)
    qed
  qed
qed

lemma go_search_spec: "stays_true f n \<Longrightarrow> splits_at f n (go_search n f)"
  unfolding go_search_def by (rule go_search_loop_spec) auto

text \<open>Cutting a sorted list at the found index is filtering it.\<close>

lemma drop_split_filter:
  assumes "splits_at (\<lambda>i. P (xs ! i)) (length xs) k"
  shows "drop k xs = filter P xs"
proof -
  from assms have "\<forall>x\<in>set (take k xs). \<not> P x"
    by (auto simp: splits_at_def in_set_conv_nth)
  moreover from assms have "\<forall>x\<in>set (drop k xs). P x"
    by (auto simp: splits_at_def in_set_conv_nth)
  ultimately have "filter P (take k xs @ drop k xs) = drop k xs"
    by (simp only: filter_append) (simp add: filter_empty_conv filter_id_conv)
  then show ?thesis by simp
qed

lemma drop_search_sorted:
  fixes f :: "'a \<Rightarrow> 'b::linorder"
  assumes "sorted (map f xs)"
  shows "drop (go_search (length xs) (\<lambda>i. \<not> f (xs ! i) < c)) xs = filter (\<lambda>x. \<not> f x < c) xs"
proof (rule drop_split_filter, rule go_search_spec)
  show "stays_true (\<lambda>i. \<not> f (xs ! i) < c) (length xs)"
    unfolding stays_true_def
  proof (intro allI impI)
    fix a b assume ab: "a \<le> b \<and> b < length xs \<and> \<not> f (xs ! a) < c"
    with sorted_nth_mono [OF assms, of a b] show "\<not> f (xs ! b) < c" by auto
  qed
qed

text \<open>Narrow counters.\<close>

lemma sint_of_nat_32: "n < 2 ^ 31 \<Longrightarrow> sint (of_nat n :: 32 word) = int n"
proof -
  assume "n < 2 ^ 31"
  then have "signed_take_bit 31 (int n) = int n"
    by (simp add: signed_take_bit_int_eq_self)
  then show ?thesis by (simp add: signed_of_nat)
qed

text \<open>The value of an \<open>int64\<close> after an operation whose exact result is \<open>n\<close>.\<close>

definition wrap64 :: "int \<Rightarrow> int" where
  "wrap64 n = sint (word_of_int n :: 64 word)"

lemma wrap64_id: "- (2 ^ 63) \<le> n \<Longrightarrow> n < 2 ^ 63 \<Longrightarrow> wrap64 n = n"
  by (simp add: wrap64_def sint_sbintrunc' signed_take_bit_int_eq_self)

end
