(* ===== verification/Circuit.thy ===== *)
theory Circuit
  imports Prelude
begin

text \<open>
  \<open>internal/circuit/cooldown.go\<close>: the local-route cooldown that the cascade arms when the local
  model fails. One atomic word holds the instant of the last failure; zero means none. The whole
  type is lock-free, but each method touches the word once, so each is one step.
\<close>

section \<open>State and operations\<close>

text \<open>\<open>onFailure\<close> is modelled by whether an observer is installed; a firing is in the result.\<close>

record cooldown =
  cd_Duration :: nanos
  cd_failedAt :: int
  cd_onFailure :: bool

definition NewCooldown :: "nanos \<Rightarrow> cooldown" where
  "NewCooldown d = \<lparr>cd_Duration = d, cd_failedAt = 0, cd_onFailure = False\<rparr>"

definition RecordFailure :: "cooldown option \<Rightarrow> nanos \<Rightarrow> cooldown option \<times> bool" where
  "RecordFailure c now =
     (case c of
        None \<Rightarrow> (None, False)
      | Some k \<Rightarrow>
          if cd_Duration k \<le> 0 then (Some k, False)
          else (Some (k\<lparr>cd_failedAt := now\<rparr>), cd_onFailure k))"

definition SetFailureObserver :: "cooldown option \<Rightarrow> bool \<Rightarrow> cooldown option" where
  "SetFailureObserver c fn =
     (case c of None \<Rightarrow> None | Some k \<Rightarrow> Some (k\<lparr>cd_onFailure := fn\<rparr>))"

definition Active :: "cooldown option \<Rightarrow> nanos \<Rightarrow> bool" where
  "Active c now =
     (case c of
        None \<Rightarrow> False
      | Some k \<Rightarrow>
          if cd_Duration k \<le> 0 then False
          else let ts = cd_failedAt k in
            if ts = 0 then False
            else now - ts < cd_Duration k)"

text \<open>The zero \<open>time.Time\<close> of the code is \<open>None\<close>.\<close>

definition ExpiresAt :: "cooldown option \<Rightarrow> nanos option" where
  "ExpiresAt c =
     (case c of
        None \<Rightarrow> None
      | Some k \<Rightarrow>
          if cd_Duration k \<le> 0 then None
          else let ts = cd_failedAt k in
            if ts = 0 then None
            else Some (ts + cd_Duration k))"

lemmas cooldown_defs [op_defs] =
  NewCooldown_def RecordFailure_def SetFailureObserver_def Active_def ExpiresAt_def

section \<open>The trip interface\<close>

text \<open>
  What the chat handler relies on, of this circuit and of the embedder's breaker alike: a tripped
  guard blocks until a deadline and not afterwards, unless something trips it again. \<open>trip\<close> reports
  a failure at an instant, \<open>blocked\<close> reads the guard, \<open>armed\<close> says that a failure at this state
  trips it, \<open>window\<close> is how long.
\<close>

locale trip_guard =
  fixes trip :: "'g \<Rightarrow> nanos \<Rightarrow> 'g"
    and blocked :: "'g \<Rightarrow> nanos \<Rightarrow> bool"
    and armed :: "'g \<Rightarrow> nanos \<Rightarrow> bool"
    and window :: "'g \<Rightarrow> nanos"
  assumes trip_blocks: "armed g t \<Longrightarrow> u - t < window g \<Longrightarrow> blocked (trip g t) u"
    and trip_expires: "armed g t \<Longrightarrow> window g < u - t \<Longrightarrow> \<not> blocked (trip g t) u"
    and window_trip: "window (trip g t) = window g"
begin

lemma blocked_at_once: "armed g t \<Longrightarrow> 0 < window g \<Longrightarrow> blocked (trip g t) t"
  using trip_blocks [of g t t] by simp

lemma blocked_extended:
  assumes "armed (trip g t) t'" "t \<le> t'" "u - t' < window g"
  shows "blocked (trip (trip g t) t') u"
  using assms trip_blocks [of "trip g t" t' u] by (simp add: window_trip)

lemma blocked_downward:
  assumes "armed g t" "blocked (trip g t) u" "v < u"
  shows "blocked (trip g t) v"
proof -
  from assms(1,2) have "u - t \<le> window g" using trip_expires [of g t u] by linarith
  with assms(3) have "v - t < window g" by simp
  with assms(1) show ?thesis by (rule trip_blocks)
qed

end

definition cd_trip :: "cooldown option \<Rightarrow> nanos \<Rightarrow> cooldown option" where
  "cd_trip c t = fst (RecordFailure c t)"

definition cd_armed :: "cooldown option \<Rightarrow> nanos \<Rightarrow> bool" where
  "cd_armed c t \<longleftrightarrow> (case c of None \<Rightarrow> False | Some k \<Rightarrow> 0 < cd_Duration k \<and> t \<noteq> 0)"

definition cd_window :: "cooldown option \<Rightarrow> nanos" where
  "cd_window c = (case c of None \<Rightarrow> 0 | Some k \<Rightarrow> cd_Duration k)"

interpretation cd: trip_guard cd_trip Active cd_armed cd_window
  by unfold_locales
    (auto simp: cd_trip_def cd_armed_def cd_window_def cooldown_defs Let_def split: option.splits)

section \<open>Correctness\<close>

lemma Active_iff_ExpiresAt:
  "Active c now \<longleftrightarrow> (\<exists>e. ExpiresAt c = Some e \<and> now < e)"
  by (auto simp: cooldown_defs Let_def split: option.splits)

lemma RecordFailure_disabled:
  "cd_Duration k \<le> 0 \<Longrightarrow> RecordFailure (Some k) now = (Some k, False)"
  by (simp add: RecordFailure_def)

section \<open>Properties\<close>

text \<open>
  The local cooldown is exact. With a positive duration, after a failure recorded at \<open>t\<close> the
  circuit is active at \<open>u\<close> precisely while fewer than \<open>Duration\<close> nanoseconds have passed, which is
  precisely before the instant \<open>ExpiresAt\<close> reports.
\<close>

theorem cooldown_window_exact:
  assumes "0 < cd_Duration k" "t \<noteq> 0"
  shows "(Active (fst (RecordFailure (Some k) t)) u \<longleftrightarrow> u - t < cd_Duration k) \<and>
         ExpiresAt (fst (RecordFailure (Some k) t)) = Some (t + cd_Duration k)"
  using assms by (simp_all add: cooldown_defs Let_def)

theorem cooldown_window_exact_witness:
  "Active (fst (RecordFailure (Some (NewCooldown 10)) 5)) 14 \<and>
   \<not> Active (fst (RecordFailure (Some (NewCooldown 10)) 5)) 15"
proof -
  have d: "0 < cd_Duration (NewCooldown 10)" "(5::int) \<noteq> 0" by (simp_all add: NewCooldown_def)
  show ?thesis
    using cooldown_window_exact [OF d, of 14] cooldown_window_exact [OF d, of 15]
    by (simp add: NewCooldown_def)
qed

end
