(* ===== verification/Breaker.thy ===== *)
theory Breaker
  imports Circuit
begin

text \<open>
  \<open>internal/health/breaker.go\<close>: the three-state breaker of the embedders. Its fields are atomics
  without a lock, so there are two models: the methods as they run undisturbed, and the same
  methods cut into their single loads, stores and compare-and-swaps, interleaved by any scheduler.
  The second refines to the first for one thread, and shows what interference adds.
\<close>

section \<open>State\<close>

text \<open>
  \<open>state\<close> is an \<open>int32\<close> of which only three values are ever stored; the failure counter is an
  \<open>int32\<close> that wraps; the configured threshold is an \<open>int\<close> that the comparison narrows to 32 bits.
\<close>

definition breakerStateClosed :: int where "breakerStateClosed = 0"
definition breakerStateHalfOpen :: int where "breakerStateHalfOpen = 1"
definition breakerStateOpen :: int where "breakerStateOpen = 2"

lemmas breaker_codes = breakerStateClosed_def breakerStateHalfOpen_def breakerStateOpen_def

record breaker =
  br_Threshold :: int
  br_Cooldown :: nanos
  br_tripKind :: string
  br_TripCallback :: bool
  br_state :: int
  br_failureCount :: "32 word"
  br_cooldownUntil :: int

definition SetTripCallback :: "breaker \<Rightarrow> string \<Rightarrow> bool \<Rightarrow> breaker" where
  "SetTripCallback b kind cb = b\<lparr>br_tripKind := kind, br_TripCallback := cb\<rparr>"

definition narrow32 :: "int \<Rightarrow> int" where
  "narrow32 n = sint (word_of_int n :: 32 word)"

definition breaker_wf :: "breaker \<Rightarrow> bool" where
  "breaker_wf b \<longleftrightarrow> br_state b \<in> {breakerStateClosed, breakerStateHalfOpen, breakerStateOpen}"

section \<open>The methods, undisturbed\<close>

text \<open>
  The loop of \<open>IsOpen\<close> repeats only when its compare-and-swap fails, which needs another thread.
\<close>

definition IsOpen :: "breaker \<Rightarrow> nanos \<Rightarrow> breaker \<times> bool" where
  "IsOpen b now =
     (if br_Threshold b = 0 then (b, False)
      else if br_state b = breakerStateClosed then (b, False)
      else if br_state b = breakerStateHalfOpen then (b, True)
      else if br_state b = breakerStateOpen then
        (let deadline = br_cooldownUntil b in
         if deadline = 0 \<or> now < deadline then (b, True)
         else (b\<lparr>br_state := breakerStateHalfOpen, br_failureCount := 0, br_cooldownUntil := 0\<rparr>, False))
      else (b, True))"

text \<open>The list holds the trip callbacks that ran, with the kind they were given.\<close>

definition BreakerRecordFailure :: "breaker \<Rightarrow> nanos \<Rightarrow> breaker \<times> string list" where
  "BreakerRecordFailure b now =
     (if br_Threshold b = 0 then (b, [])
      else
        let count = br_failureCount b + 1; b1 = b\<lparr>br_failureCount := count\<rparr> in
        if br_state b1 = breakerStateHalfOpen \<or> narrow32 (br_Threshold b) \<le> sint count then
          (let prevState = br_state b1;
               b2 = b1\<lparr>br_cooldownUntil := now + br_Cooldown b + 1, br_state := breakerStateOpen\<rparr>
           in (b2, if prevState \<noteq> breakerStateOpen \<and> br_TripCallback b then [br_tripKind b] else []))
        else (b1, []))"

definition RecordSuccess :: "breaker \<Rightarrow> breaker" where
  "RecordSuccess b =
     (if br_Threshold b = 0 then b
      else b\<lparr>br_failureCount := 0, br_cooldownUntil := 0, br_state := breakerStateClosed\<rparr>)"

lemmas breaker_op_defs [op_defs] = IsOpen_def BreakerRecordFailure_def RecordSuccess_def

section \<open>Registry\<close>

text \<open>
  The package variable \<open>breakers\<close> and its snapshot. The map holds pointers; here it holds the
  breakers' current values.
\<close>

definition RegisterBreaker :: "(string \<rightharpoonup> breaker) \<Rightarrow> string \<Rightarrow> breaker \<Rightarrow> (string \<rightharpoonup> breaker)" where
  "RegisterBreaker bs kind brk = bs(kind \<mapsto> brk)"

definition GetBreakerStates :: "(string \<rightharpoonup> breaker) \<Rightarrow> (string \<rightharpoonup> int \<times> 32 word)" where
  "GetBreakerStates bs = (\<lambda>kind. map_option (\<lambda>brk. (br_state brk, br_failureCount brk)) (bs kind))"

section \<open>Correctness of the undisturbed methods\<close>

lemma wf_IsOpen [inv_intros]: "breaker_wf b \<Longrightarrow> breaker_wf (fst (IsOpen b now))"
  by (auto simp: breaker_wf_def IsOpen_def Let_def)

lemma wf_RecordFailure [inv_intros]: "breaker_wf b \<Longrightarrow> breaker_wf (fst (BreakerRecordFailure b now))"
  by (auto simp: breaker_wf_def BreakerRecordFailure_def Let_def)

lemma wf_RecordSuccess [inv_intros]: "breaker_wf b \<Longrightarrow> breaker_wf (RecordSuccess b)"
  by (auto simp: breaker_wf_def RecordSuccess_def)

text \<open>The interface of \<open>Circuit\<close>: the next failure opens the breaker when \<open>br_armed\<close> holds.\<close>

definition br_trip :: "breaker \<Rightarrow> nanos \<Rightarrow> breaker" where
  "br_trip b t = fst (BreakerRecordFailure b t)"

definition br_blocked :: "breaker \<Rightarrow> nanos \<Rightarrow> bool" where
  "br_blocked b u = snd (IsOpen b u)"

definition br_armed :: "breaker \<Rightarrow> nanos \<Rightarrow> bool" where
  "br_armed b t \<longleftrightarrow> br_Threshold b \<noteq> 0 \<and> t + br_Cooldown b + 1 \<noteq> 0 \<and>
     (br_state b = breakerStateHalfOpen \<or> narrow32 (br_Threshold b) \<le> sint (br_failureCount b + 1))"

interpretation br: trip_guard br_trip br_blocked br_armed br_Cooldown
  by unfold_locales
    (auto simp: br_trip_def br_blocked_def br_armed_def breaker_op_defs breaker_codes Let_def)

text \<open>Consecutive failures without a success in between.\<close>

fun fail_times :: "breaker \<Rightarrow> nanos list \<Rightarrow> breaker" where
  "fail_times b [] = b"
| "fail_times b (t # ts) = fail_times (fst (BreakerRecordFailure b t)) ts"

lemma RecordFailure_below:
  assumes "br_state b = breakerStateClosed" "br_Threshold b \<noteq> 0"
    and "sint (br_failureCount b + 1) < narrow32 (br_Threshold b)"
  shows "BreakerRecordFailure b t = (b\<lparr>br_failureCount := br_failureCount b + 1\<rparr>, [])"
  using assms by (simp add: BreakerRecordFailure_def Let_def breaker_codes)

lemma fail_times_below:
  assumes "br_state b = breakerStateClosed" "0 < br_Threshold b" "br_Threshold b < 2 ^ 31"
    and "br_failureCount b = of_nat k" "int (k + length ts) < br_Threshold b"
  shows "fail_times b ts = b\<lparr>br_failureCount := of_nat (k + length ts)\<rparr>"
  using assms
proof (induction ts arbitrary: b k)
  case Nil
  then show ?case by simp
next
  case (Cons t ts)
  have nar: "narrow32 (br_Threshold b) = br_Threshold b"
    using Cons.prems(2,3) sint_of_nat_32 [of "nat (br_Threshold b)"]
    by (simp add: narrow32_def)
  have "sint (of_nat (Suc k) :: 32 word) = int (Suc k)"
    using Cons.prems by (intro sint_of_nat_32) simp
  then have "sint (br_failureCount b + 1) < narrow32 (br_Threshold b)"
    using Cons.prems nar by (simp add: add.commute)
  with Cons.prems have "fst (BreakerRecordFailure b t) = b\<lparr>br_failureCount := of_nat (Suc k)\<rparr>"
    by (simp add: RecordFailure_below add.commute)
  with Cons.IH [of "b\<lparr>br_failureCount := of_nat (Suc k)\<rparr>" "Suc k"] Cons.prems show ?case
    by simp
qed

section \<open>The methods as interleaved steps\<close>

text \<open>
  One constructor per point between two atomic accesses of a method: \<open>Io\<close> for \<open>IsOpen\<close>, \<open>Rf\<close> for
  \<open>RecordFailure\<close>, \<open>Rs\<close> for \<open>RecordSuccess\<close>. What a thread has loaded travels in the constructor.
\<close>

datatype pc =
    Idle
  | IoLoad | IoDeadline | IoClock int | IoCas | IoZeroCount | IoZeroUntil
  | RfAdd | RfTest "32 word" | RfPrev | RfClock int | RfUntil int int | RfOpen int
  | RsCount | RsUntil | RsClosed
  | Done "bool option"

text \<open>One atomic access of a thread, at the instant \<open>now\<close>.\<close>

fun tstep :: "nanos \<Rightarrow> breaker \<Rightarrow> pc \<Rightarrow> breaker \<times> pc" where
  "tstep now b IoLoad =
     (b, if br_state b = breakerStateClosed then Done (Some False)
         else if br_state b = breakerStateHalfOpen then Done (Some True)
         else if br_state b = breakerStateOpen then IoDeadline
         else Done (Some True))"
| "tstep now b IoDeadline = (b, if br_cooldownUntil b = 0 then Done (Some True) else IoClock (br_cooldownUntil b))"
| "tstep now b (IoClock deadline) = (b, if now < deadline then Done (Some True) else IoCas)"
| "tstep now b IoCas =
     (if br_state b = breakerStateOpen then (b\<lparr>br_state := breakerStateHalfOpen\<rparr>, IoZeroCount) else (b, IoLoad))"
| "tstep now b IoZeroCount = (b\<lparr>br_failureCount := 0\<rparr>, IoZeroUntil)"
| "tstep now b IoZeroUntil = (b\<lparr>br_cooldownUntil := 0\<rparr>, Done (Some False))"
| "tstep now b RfAdd = (b\<lparr>br_failureCount := br_failureCount b + 1\<rparr>, RfTest (br_failureCount b + 1))"
| "tstep now b (RfTest count) =
     (b, if br_state b = breakerStateHalfOpen \<or> narrow32 (br_Threshold b) \<le> sint count then RfPrev else Done None)"
| "tstep now b RfPrev = (b, RfClock (br_state b))"
| "tstep now b (RfClock prev) = (b, RfUntil prev (now + br_Cooldown b + 1))"
| "tstep now b (RfUntil prev deadline) = (b\<lparr>br_cooldownUntil := deadline\<rparr>, RfOpen prev)"
| "tstep now b (RfOpen prev) = (b\<lparr>br_state := breakerStateOpen\<rparr>, Done None)"
| "tstep now b RsCount = (b\<lparr>br_failureCount := 0\<rparr>, RsUntil)"
| "tstep now b RsUntil = (b\<lparr>br_cooldownUntil := 0\<rparr>, RsClosed)"
| "tstep now b RsClosed = (b\<lparr>br_state := breakerStateClosed\<rparr>, Done None)"
| "tstep now b Idle = (b, Idle)"
| "tstep now b (Done r) = (b, Done r)"

text \<open>\<open>n\<close> accesses of one thread with nobody else running and the clock standing still.\<close>

fun alone :: "nat \<Rightarrow> nanos \<Rightarrow> breaker \<Rightarrow> pc \<Rightarrow> breaker \<times> pc" where
  "alone 0 now b p = (b, p)"
| "alone (Suc n) now b p = (case tstep now b p of (b', p') \<Rightarrow> alone n now b' p')"

lemma alone_IsOpen:
  assumes "br_Threshold b \<noteq> 0"
  shows "alone 6 now b IoLoad = (fst (IsOpen b now), Done (Some (snd (IsOpen b now))))"
  using assms by (simp add: IsOpen_def eval_nat_numeral breaker_codes Let_def)

lemma alone_RecordFailure:
  assumes "br_Threshold b \<noteq> 0"
  shows "alone 6 now b RfAdd = (fst (BreakerRecordFailure b now), Done None)"
  using assms by (simp add: BreakerRecordFailure_def eval_nat_numeral breaker_codes Let_def)

lemma alone_RecordSuccess:
  assumes "br_Threshold b \<noteq> 0"
  shows "alone 3 now b RsCount = (RecordSuccess b, Done None)"
  using assms by (simp add: RecordSuccess_def eval_nat_numeral)

section \<open>Any number of threads\<close>

record bsys =
  bs_clock :: nanos
  bs_brk :: breaker
  bs_pc :: "nat \<Rightarrow> pc"

text \<open>A thread that is between two calls may enter one of the three methods.\<close>

inductive bstep :: "bsys \<Rightarrow> bsys \<Rightarrow> bool" where
  tick: "bs_clock s \<le> t \<Longrightarrow> bstep s (s\<lparr>bs_clock := t\<rparr>)"
| enter: "bs_pc s i = Idle \<Longrightarrow> p \<in> {IoLoad, RfAdd, RsCount} \<Longrightarrow> br_Threshold (bs_brk s) \<noteq> 0 \<Longrightarrow>
     bstep s (s\<lparr>bs_pc := (bs_pc s)(i := p)\<rparr>)"
| access: "tstep (bs_clock s) (bs_brk s) (bs_pc s i) = (b', p') \<Longrightarrow>
     bstep s (s\<lparr>bs_brk := b', bs_pc := (bs_pc s)(i := p')\<rparr>)"
| leave: "bs_pc s i = Done r \<Longrightarrow> bstep s (s\<lparr>bs_pc := (bs_pc s)(i := Idle)\<rparr>)"

inductive breach :: "bsys \<Rightarrow> bsys \<Rightarrow> bool" where
  here: "breach s s"
| further: "breach s t \<Longrightarrow> bstep t u \<Longrightarrow> breach s u"

inductive_cases bstepE: "bstep s t"

lemma wf_tstep [inv_intros]: "breaker_wf b \<Longrightarrow> breaker_wf (fst (tstep now b p))"
  by (cases p) (auto simp: breaker_wf_def)

lemma wf_bstep: "bstep s t \<Longrightarrow> breaker_wf (bs_brk s) \<Longrightarrow> breaker_wf (bs_brk t)"
proof (induction rule: bstep.induct)
  case (access s i b' p')
  then show ?case using wf_tstep [of "bs_brk s" "bs_clock s" "bs_pc s i"] by simp
qed simp_all

lemma wf_breach: "breach s t \<Longrightarrow> breaker_wf (bs_brk s) \<Longrightarrow> breaker_wf (bs_brk t)"
  by (induction rule: breach.induct) (auto intro: wf_bstep)

text \<open>A schedule as data, so that a concrete interleaving can be run.\<close>

datatype move = Tick nanos | Enter nat pc | Access nat | Leave nat

fun do_move :: "bsys \<Rightarrow> move \<Rightarrow> bsys" where
  "do_move s (Tick d) = s\<lparr>bs_clock := bs_clock s + \<bar>d\<bar>\<rparr>"
| "do_move s (Enter i p) =
     (if bs_pc s i = Idle \<and> p \<in> {IoLoad, RfAdd, RsCount} \<and> br_Threshold (bs_brk s) \<noteq> 0
      then s\<lparr>bs_pc := (bs_pc s)(i := p)\<rparr> else s)"
| "do_move s (Access i) =
     (case tstep (bs_clock s) (bs_brk s) (bs_pc s i) of
        (b', p') \<Rightarrow> s\<lparr>bs_brk := b', bs_pc := (bs_pc s)(i := p')\<rparr>)"
| "do_move s (Leave i) =
     (case bs_pc s i of Done r \<Rightarrow> s\<lparr>bs_pc := (bs_pc s)(i := Idle)\<rparr> | _ \<Rightarrow> s)"

fun do_moves :: "bsys \<Rightarrow> move list \<Rightarrow> bsys" where
  "do_moves s [] = s"
| "do_moves s (m # ms) = do_moves (do_move s m) ms"

lemma breach_step: "breach t u \<Longrightarrow> bstep s t \<Longrightarrow> breach s u"
  by (induction rule: breach.induct) (auto intro: breach.intros)

lemma do_move_bstep: "bstep s (do_move s m) \<or> do_move s m = s"
proof (cases m)
  case (Tick d)
  have "bstep s (s\<lparr>bs_clock := bs_clock s + \<bar>d\<bar>\<rparr>)" by (rule bstep.tick) simp
  with Tick show ?thesis by simp
next
  case (Enter i p)
  then show ?thesis by (auto intro: bstep.enter)
next
  case (Access i)
  then show ?thesis by (auto split: prod.splits intro: bstep.access)
next
  case (Leave i)
  then show ?thesis by (auto split: pc.splits intro: bstep.leave)
qed

lemma do_moves_breach: "breach s (do_moves s ms)"
proof (induction ms arbitrary: s)
  case Nil
  show ?case by (simp add: breach.here)
next
  case (Cons m ms)
  from do_move_bstep [of s m] show ?case
  proof
    assume "bstep s (do_move s m)"
    with Cons [of "do_move s m"] show ?thesis by (simp add: breach_step)
  next
    assume "do_move s m = s"
    with Cons [of s] show ?thesis by simp
  qed
qed

text \<open>
  A breaker that stands open with no deadline: the comparison \<open>deadline == 0\<close> then keeps it open at
  every instant, and \<open>IsOpen\<close> alone never leaves this state.
\<close>

definition stuck_open :: "breaker \<Rightarrow> bool" where
  "stuck_open b \<longleftrightarrow> br_Threshold b \<noteq> 0 \<and> br_state b = breakerStateOpen \<and> br_cooldownUntil b = 0"

lemma stuck_open_forever: "stuck_open b \<Longrightarrow> IsOpen b now = (b, True)"
  by (simp add: stuck_open_def IsOpen_def breaker_codes)

text \<open>
  The interleaving that reaches it: thread 0 wins the compare-and-swap after the cooldown; before it
  clears the deadline, thread 1, a request admitted earlier, reports its failure and opens the
  breaker again; thread 0 then clears the deadline thread 1 has just set.
\<close>

definition late_failure :: "move list" where
  "late_failure =
     [Enter 2 RfAdd, Access 2, Access 2, Access 2, Access 2, Access 2, Access 2, Tick (2 * second),
      Enter 0 IoLoad, Access 0, Access 0, Access 0, Access 0,
      Enter 1 RfAdd, Access 1, Access 1, Access 1, Access 1, Access 1, Access 1,
      Access 0, Access 0, Leave 0, Leave 1, Leave 2]"

definition fresh_breaker :: "int \<Rightarrow> nanos \<Rightarrow> breaker" where
  "fresh_breaker threshold cooldown =
     \<lparr>br_Threshold = threshold, br_Cooldown = cooldown, br_tripKind = '''', br_TripCallback = False,
      br_state = breakerStateClosed, br_failureCount = 0, br_cooldownUntil = 0\<rparr>"

definition idle_bsys :: "breaker \<Rightarrow> bsys" where
  "idle_bsys b = \<lparr>bs_clock = 1, bs_brk = b, bs_pc = (\<lambda>_. Idle)\<rparr>"

lemma late_failure_result:
  "stuck_open (bs_brk (do_moves (idle_bsys (fresh_breaker 1 second)) late_failure)) \<and>
   bs_pc (do_moves (idle_bsys (fresh_breaker 1 second)) late_failure) = (\<lambda>_. Idle)"
  by (simp add: late_failure_def idle_bsys_def fresh_breaker_def stuck_open_def breaker_codes narrow32_def
      fun_eq_iff)

section \<open>Properties\<close>

text \<open>
  The breaker trips at the threshold and not before. A closed breaker with a fresh counter stays
  closed through fewer than \<open>Threshold\<close> consecutive failures; the failure that reaches the threshold
  opens it, runs the trip callback once, and every call of \<open>IsOpen\<close> up to the cooldown's end
  answers true, the first one after it answers false and leaves the breaker half-open.
\<close>

theorem breaker_trips_at_threshold:
  assumes closed: "br_state b = breakerStateClosed" "br_failureCount b = 0"
    and thr: "0 < br_Threshold b" "br_Threshold b < 2 ^ 31"
    and len: "int (length ts) = br_Threshold b - 1"
    and nz: "t + br_Cooldown b + 1 \<noteq> 0"
  shows "br_state (fail_times b ts) = breakerStateClosed \<and>
    br_state (fst (BreakerRecordFailure (fail_times b ts) t)) = breakerStateOpen \<and>
    snd (BreakerRecordFailure (fail_times b ts) t) = (if br_TripCallback b then [br_tripKind b] else []) \<and>
    (br_blocked (fst (BreakerRecordFailure (fail_times b ts) t)) u \<longleftrightarrow> u - t \<le> br_Cooldown b) \<and>
    (br_Cooldown b < u - t \<longrightarrow>
       br_state (fst (IsOpen (fst (BreakerRecordFailure (fail_times b ts) t)) u)) = breakerStateHalfOpen)"
proof -
  have ft: "fail_times b ts = b\<lparr>br_failureCount := of_nat (length ts)\<rparr>"
    using fail_times_below [of b 0 ts] closed thr len by simp
  have n: "narrow32 (br_Threshold b) = br_Threshold b"
    using thr sint_of_nat_32 [of "nat (br_Threshold b)"] by (simp add: narrow32_def)
  have "sint (of_nat (Suc (length ts)) :: 32 word) = br_Threshold b"
    using thr len by (subst sint_of_nat_32) simp_all
  then have c: "sint (of_nat (length ts) + 1 :: 32 word) = br_Threshold b"
    by (simp add: add.commute)
  show ?thesis
    using ft n c closed thr nz
    by (auto simp: breaker_op_defs br_blocked_def Let_def breaker_codes)
qed

theorem breaker_trips_at_threshold_witness:
  "br_state (fail_times (fresh_breaker 3 second) [1, 2]) = breakerStateClosed \<and>
   br_state (fst (BreakerRecordFailure (fail_times (fresh_breaker 3 second) [1, 2]) 3)) = breakerStateOpen"
  using breaker_trips_at_threshold [of "fresh_breaker 3 second" "[1, 2]" 3]
  by (simp add: fresh_breaker_def)

text \<open>
  The methods cut into single atomic accesses are the methods: a thread that no other thread
  disturbs goes through \<open>IsOpen\<close>, \<open>RecordFailure\<close> and \<open>RecordSuccess\<close> with the result and the final
  state of the sequential definitions.
\<close>

theorem breaker_steps_refine_methods:
  assumes "br_Threshold b \<noteq> 0"
  shows "alone 6 now b IoLoad = (fst (IsOpen b now), Done (Some (snd (IsOpen b now)))) \<and>
    alone 6 now b RfAdd = (fst (BreakerRecordFailure b now), Done None) \<and>
    alone 3 now b RsCount = (RecordSuccess b, Done None)"
  using assms by (auto intro: alone_IsOpen alone_RecordFailure alone_RecordSuccess)

theorem breaker_steps_refine_methods_witness:
  "alone 6 7 (fresh_breaker 1 second) RfAdd =
     (fst (BreakerRecordFailure (fresh_breaker 1 second) 7), Done None)"
  using breaker_steps_refine_methods [of "fresh_breaker 1 second" 7] by (simp add: fresh_breaker_def)

text \<open>
  The breaker can be left open for good. Three threads, starting from a fresh breaker with
  threshold 1, reach through their single accesses a state in which every thread is outside the
  methods, the breaker is open and its deadline is zero; in that state \<open>IsOpen\<close> answers true at
  every instant and changes nothing, so no probe is ever admitted again.
\<close>

theorem breaker_race_sticks_open:
  "\<exists>s. breach (idle_bsys (fresh_breaker 1 second)) s \<and> bs_pc s = (\<lambda>_. Idle) \<and>
       br_state (bs_brk s) = breakerStateOpen \<and> (\<forall>now. IsOpen (bs_brk s) now = (bs_brk s, True))"
proof (intro exI conjI allI)
  let ?s = "do_moves (idle_bsys (fresh_breaker 1 second)) late_failure"
  show "breach (idle_bsys (fresh_breaker 1 second)) ?s" by (rule do_moves_breach)
  show "bs_pc ?s = (\<lambda>_. Idle)" and "br_state (bs_brk ?s) = breakerStateOpen"
    using late_failure_result by (simp_all add: stuck_open_def)
  show "IsOpen (bs_brk ?s) now = (bs_brk ?s, True)" for now
    using late_failure_result by (intro stuck_open_forever) simp
qed

end
