(* ===== verification/BudgetGuard.thy ===== *)
theory BudgetGuard
  imports Prelude
begin

text \<open>
  \<open>internal/budget/budget.go\<close> and \<open>alerter.go\<close>: the rolling 24-hour spend guard and its Prometheus
  alerter. Every method of the guard holds its mutex, so each is one state transformer; the clock
  reads of one critical section are one instant.
\<close>

section \<open>State\<close>

abbreviation Window :: nanos where "Window \<equiv> 24 * hour"

record bentry =
  be_At :: nanos
  be_Cost :: usd
  be_Source :: string

record bstate =
  st_Spent :: usd
  st_Limit :: usd
  st_Remaining :: usd
  st_Exhausted :: bool
  st_NextReset :: nanos

text \<open>The alerter is an interface value; the guard only knows whether it is there.\<close>

record guard =
  gd_limit :: usd
  gd_window :: "bentry list"
  gd_alerter :: bool
  gd_approachingSent :: bool

datatype alert = OnExceed bstate | OnSpend bstate usd string | OnApproaching bstate

section \<open>Operations\<close>

definition limitLimit :: "usd \<Rightarrow> usd" where
  "limitLimit limitUSD = (if limitUSD \<le> 0 then 0 else limitUSD)"

definition NewGuard :: "usd \<Rightarrow> guard" where
  "NewGuard limitUSD =
     \<lparr>gd_limit = limitLimit limitUSD, gd_window = [], gd_alerter = False, gd_approachingSent = False\<rparr>"

definition SetAlerter :: "guard \<Rightarrow> bool \<Rightarrow> guard" where
  "SetAlerter g a = g\<lparr>gd_alerter := a\<rparr>"

definition evictLocked :: "guard \<Rightarrow> nanos \<Rightarrow> guard" where
  "evictLocked g now =
     (if gd_window g = [] then g
      else
        let cutoff = now - Window;
            i = go_search (length (gd_window g)) (\<lambda>i. \<not> be_At (gd_window g ! i) < cutoff)
        in if 0 < i then g\<lparr>gd_window := drop i (gd_window g)\<rparr> else g)"

definition currentSpentLocked :: "guard \<Rightarrow> usd" where
  "currentSpentLocked g = sum_list (map be_Cost (gd_window g))"

definition copyStateLocked :: "guard \<Rightarrow> nanos \<Rightarrow> bstate" where
  "copyStateLocked g now =
     \<lparr>st_Spent = currentSpentLocked g,
      st_Limit = gd_limit g,
      st_Remaining = gd_limit g - currentSpentLocked g,
      st_Exhausted = (0 < gd_limit g \<and> gd_limit g \<le> currentSpentLocked g),
      st_NextReset = (case gd_window g of e # _ \<Rightarrow> be_At e + Window | [] \<Rightarrow> now + Window)\<rparr>"

definition Check :: "guard \<Rightarrow> nanos \<Rightarrow> usd \<Rightarrow> guard \<times> bool \<times> alert list" where
  "Check g now cost =
     (let g = evictLocked g now in
      if gd_limit g \<le> 0 then (g, False, [])
      else
        let over = gd_limit g < currentSpentLocked g + cost in
        (g, over, if over \<and> gd_alerter g then [OnExceed (copyStateLocked g now)] else []))"

definition Record :: "guard \<Rightarrow> nanos \<Rightarrow> usd \<Rightarrow> string \<Rightarrow> guard \<times> alert list" where
  "Record g now cost source =
     (if cost \<le> 0 then (g, [])
      else if gd_limit g \<le> 0 then (g, [])
      else
        let g = evictLocked g now;
            g = g\<lparr>gd_window := gd_window g @ [\<lparr>be_At = now, be_Cost = cost, be_Source = source\<rparr>]\<rparr>;
            state = copyStateLocked g now
        in (g, if gd_alerter g then [OnSpend state cost source] else []))"

definition CheckApproaching :: "guard \<Rightarrow> nanos \<Rightarrow> guard \<times> bool \<times> alert list" where
  "CheckApproaching g now =
     (let g = evictLocked g now in
      if gd_limit g \<le> 0 then (g, False, [])
      else
        let spent = currentSpentLocked g; threshold = gd_limit g * 0.8 in
        if threshold \<le> spent \<and> \<not> gd_approachingSent g then
          (g\<lparr>gd_approachingSent := True\<rparr>, True,
           if gd_alerter g then [OnApproaching (copyStateLocked g now)] else [])
        else if spent < threshold then (g\<lparr>gd_approachingSent := False\<rparr>, False, [])
        else (g, False, []))"

definition GuardState :: "guard \<Rightarrow> nanos \<Rightarrow> guard \<times> bstate" where
  "GuardState g now = (let g = evictLocked g now in (g, copyStateLocked g now))"

definition Remaining :: "guard \<Rightarrow> nanos \<Rightarrow> guard \<times> usd" where
  "Remaining g now =
     (let g = evictLocked g now; remaining = gd_limit g - currentSpentLocked g
      in (g, if remaining < 0 then 0 else remaining))"

definition WouldExceed :: "guard \<Rightarrow> nanos \<Rightarrow> usd \<Rightarrow> guard \<times> bool" where
  "WouldExceed g now estimatedCost =
     (let g = evictLocked g now in
      if gd_limit g \<le> 0 then (g, False)
      else (g, gd_limit g < currentSpentLocked g + estimatedCost))"

definition Limit :: "guard \<Rightarrow> usd" where
  "Limit g = gd_limit g"

definition SetLimit :: "guard \<Rightarrow> usd \<Rightarrow> guard" where
  "SetLimit g limitUSD = g\<lparr>gd_limit := limitLimit limitUSD, gd_approachingSent := False\<rparr>"

lemmas guard_defs [op_defs] =
  Check_def Record_def CheckApproaching_def GuardState_def Remaining_def WouldExceed_def

section \<open>The Prometheus alerter\<close>

text \<open>Its counters are atomics of 64 bits; the spend is kept as the float's bits, here the
  amount. The zero \<open>State{}\<close> it starts with is \<open>None\<close>.\<close>

record alerter =
  al_ExceedCount :: "64 word"
  al_ApproachingCount :: "64 word"
  al_LastSpent :: usd
  al_lastSource :: string
  al_LastState :: "bstate option"

definition NewPrometheusAlerter :: "alerter" where
  "NewPrometheusAlerter =
     \<lparr>al_ExceedCount = 0, al_ApproachingCount = 0, al_LastSpent = 0, al_lastSource = '''', al_LastState = None\<rparr>"

fun alert_step :: "alerter \<Rightarrow> alert \<Rightarrow> alerter" where
  "alert_step a (OnExceed s) =
     a\<lparr>al_ExceedCount := al_ExceedCount a + 1, al_LastState := Some s\<rparr>"
| "alert_step a (OnSpend s amount source) =
     a\<lparr>al_LastSpent := amount, al_lastSource := source, al_LastState := Some s\<rparr>"
| "alert_step a (OnApproaching s) =
     a\<lparr>al_ApproachingCount := al_ApproachingCount a + 1, al_LastState := Some s\<rparr>"

section \<open>The window\<close>

definition guard_inv :: "nanos \<Rightarrow> guard \<Rightarrow> bool" where
  "guard_inv t g \<longleftrightarrow> sorted (map be_At (gd_window g)) \<and> (\<forall>e\<in>set (gd_window g). be_At e \<le> t \<and> 0 < be_Cost e)
     \<and> 0 \<le> gd_limit g"

text \<open>The specification of the window: the costs of the entries not older than 24 hours.\<close>

definition rolling :: "guard \<Rightarrow> nanos \<Rightarrow> usd" where
  "rolling g now = sum_list (map be_Cost (filter (\<lambda>e. now - Window \<le> be_At e) (gd_window g)))"

lemma evictLocked_filter:
  assumes "guard_inv t g"
  shows "evictLocked g now = g\<lparr>gd_window := filter (\<lambda>e. now - Window \<le> be_At e) (gd_window g)\<rparr>"
proof -
  have "drop (go_search (length (gd_window g)) (\<lambda>i. \<not> be_At (gd_window g ! i) < now - Window)) (gd_window g)
      = filter (\<lambda>e. now - Window \<le> be_At e) (gd_window g)"
    using assms by (subst drop_search_sorted) (auto simp: guard_inv_def not_less)
  then show ?thesis by (cases g) (auto simp: evictLocked_def Let_def)
qed

lemma evict_fields [simp]:
  "gd_limit (evictLocked g now) = gd_limit g"
  "gd_alerter (evictLocked g now) = gd_alerter g"
  "gd_approachingSent (evictLocked g now) = gd_approachingSent g"
  by (simp_all add: evictLocked_def Let_def)

lemma spent_evict: "guard_inv t g \<Longrightarrow> currentSpentLocked (evictLocked g now) = rolling g now"
  by (simp add: evictLocked_filter currentSpentLocked_def rolling_def)

lemma rolling_mono:
  assumes "guard_inv t g" "u \<le> v"
  shows "rolling g v \<le> rolling g u"
  unfolding rolling_def
  by (rule sum_list_filter_mono) (use assms in \<open>auto simp: guard_inv_def less_imp_le\<close>)

lemma rolling_evict: "guard_inv t g \<Longrightarrow> u \<le> v \<Longrightarrow> rolling (evictLocked g u) v = rolling g v"
  by (auto simp: evictLocked_filter rolling_def intro!: arg_cong [of _ _ sum_list] arg_cong [of _ _ "map be_Cost"] filter_cong)

lemma inv_evict [inv_intros]: "guard_inv t g \<Longrightarrow> t \<le> u \<Longrightarrow> guard_inv u (evictLocked g now)"
  using evictLocked_filter [of t g now] by (auto simp: guard_inv_def intro: sorted_map_filter)

lemma inv_Check [inv_intros]: "guard_inv t g \<Longrightarrow> t \<le> u \<Longrightarrow> guard_inv u (fst (Check g u c))"
  by (simp add: Check_def Let_def inv_evict)

lemma inv_Record [inv_intros]: "guard_inv t g \<Longrightarrow> t \<le> u \<Longrightarrow> guard_inv u (fst (Record g u c s))"
  using inv_evict [of t g u u]
  by (auto simp: Record_def Let_def guard_inv_def sorted_append)

lemma inv_NewGuard [inv_intros]: "guard_inv t (NewGuard l)"
  by (simp add: guard_inv_def NewGuard_def limitLimit_def)

section \<open>The budget interface of the router\<close>

text \<open>
  \<open>router.BudgetChecker\<close>: what the planner calls. \<open>peek\<close> is \<open>WouldExceed\<close>, \<open>left\<close> is \<open>Remaining\<close>,
  \<open>ok\<close> the provider's invariant at an instant. The contract the planner's comment relies on: the
  answer is monotone in the estimate, a question changes no later answer, and an estimate is only
  refused when it is more than what is left.
\<close>

locale budget_checker =
  fixes peek :: "'g \<Rightarrow> nanos \<Rightarrow> usd \<Rightarrow> 'g \<times> bool"
    and left :: "'g \<Rightarrow> nanos \<Rightarrow> 'g \<times> usd"
    and ok :: "nanos \<Rightarrow> 'g \<Rightarrow> bool"
  assumes peek_ok: "ok t g \<Longrightarrow> t \<le> u \<Longrightarrow> ok u (fst (peek g u c))"
    and peek_mono: "ok t g \<Longrightarrow> c \<le> d \<Longrightarrow> snd (peek g u c) \<Longrightarrow> snd (peek g u d)"
    and peek_again: "ok t g \<Longrightarrow> t \<le> u \<Longrightarrow> u \<le> v \<Longrightarrow> snd (peek (fst (peek g u c)) v d) = snd (peek g v d)"
    and refused_exceeds: "ok t g \<Longrightarrow> 0 \<le> c \<Longrightarrow> snd (peek g u c) \<Longrightarrow> snd (left g u) < c \<or> snd (left g u) = 0"
begin

lemma free_never_refused_then_costly:
  assumes "ok t g" "\<not> snd (peek g u d)" "c \<le> d"
  shows "\<not> snd (peek g u c)"
  using assms peek_mono by blast

lemma asking_twice:
  assumes "ok t g" "t \<le> u"
  shows "snd (peek (fst (peek g u c)) u c) = snd (peek g u c)"
  using assms peek_again by simp

end

lemma WouldExceed_iff:
  "guard_inv t g \<Longrightarrow>
   snd (WouldExceed g u c) \<longleftrightarrow> 0 < gd_limit g \<and> gd_limit g < rolling g u + c"
  by (simp add: WouldExceed_def Let_def spent_evict not_le)

lemma rolling_nonneg: "guard_inv t g \<Longrightarrow> 0 \<le> rolling g u"
  unfolding rolling_def by (rule sum_list_nonneg_real) (auto simp: guard_inv_def less_imp_le)

interpretation bg: budget_checker WouldExceed Remaining guard_inv
proof
  fix t u v :: nanos and g c d
  show "guard_inv t g \<Longrightarrow> t \<le> u \<Longrightarrow> guard_inv u (fst (WouldExceed g u c))"
    by (simp add: WouldExceed_def Let_def inv_evict)
  show "guard_inv t g \<Longrightarrow> c \<le> d \<Longrightarrow> snd (WouldExceed g u c) \<Longrightarrow> snd (WouldExceed g u d)"
    by (simp add: WouldExceed_iff)
  show "guard_inv t g \<Longrightarrow> t \<le> u \<Longrightarrow> u \<le> v \<Longrightarrow>
      snd (WouldExceed (fst (WouldExceed g u c)) v d) = snd (WouldExceed g v d)"
  proof -
    assume a: "guard_inv t g" "t \<le> u" "u \<le> v"
    have e: "fst (WouldExceed g u c) = evictLocked g u" by (simp add: WouldExceed_def Let_def)
    from a inv_evict [of t g u u] have "guard_inv u (evictLocked g u)" by simp
    with a show ?thesis by (simp add: e WouldExceed_iff rolling_evict)
  qed
  show "guard_inv t g \<Longrightarrow> 0 \<le> c \<Longrightarrow> snd (WouldExceed g u c) \<Longrightarrow>
      snd (Remaining g u) < c \<or> snd (Remaining g u) = 0"
    by (simp add: WouldExceed_iff Remaining_def Let_def spent_evict)
qed

section \<open>Requests in flight\<close>

text \<open>
  The handler asks \<open>Check\<close> before it dispatches and calls \<open>Record\<close> when the response has come: two
  critical sections with other requests in between. The state is the guard, the clock and the costs
  of the requests that were admitted and have not been recorded; at most \<open>n\<close> are in flight, none
  dearer than \<open>cmax\<close>.
\<close>

inductive gstep :: "nat \<Rightarrow> usd \<Rightarrow> guard \<times> nanos \<times> usd list \<Rightarrow> guard \<times> nanos \<times> usd list \<Rightarrow> bool"
  for n cmax where
  admit: "t \<le> u \<Longrightarrow> 0 < c \<Longrightarrow> c \<le> cmax \<Longrightarrow> length p < n \<Longrightarrow> Check g u c = (g', False, al) \<Longrightarrow>
     gstep n cmax (g, t, p) (g', u, c # p)"
| reject: "t \<le> u \<Longrightarrow> Check g u c = (g', True, al) \<Longrightarrow> gstep n cmax (g, t, p) (g', u, p)"
| settle: "t \<le> u \<Longrightarrow> c \<in> set p \<Longrightarrow> Record g u c s = (g', al) \<Longrightarrow> gstep n cmax (g, t, p) (g', u, remove1 c p)"

inductive greach :: "nat \<Rightarrow> usd \<Rightarrow> guard \<times> nanos \<times> usd list \<Rightarrow> guard \<times> nanos \<times> usd list \<Rightarrow> bool"
  for n cmax where
  here: "greach n cmax s s"
| further: "greach n cmax s t \<Longrightarrow> gstep n cmax t u \<Longrightarrow> greach n cmax s u"

inductive_simps gstep_simps: "gstep n cmax (g, t, p) s'"

definition flight_inv :: "nat \<Rightarrow> usd \<Rightarrow> usd \<Rightarrow> guard \<times> nanos \<times> usd list \<Rightarrow> bool" where
  "flight_inv n cmax l s = (case s of (g, t, p) \<Rightarrow>
     guard_inv t g \<and> gd_limit g = l \<and> length p \<le> n \<and> (\<forall>c\<in>set p. 0 < c \<and> c \<le> cmax) \<and>
     rolling g t + sum_list p \<le> l + real (n - 1) * cmax)"

lemma sum_list_le_length: "\<forall>c\<in>set p. c \<le> m \<Longrightarrow> sum_list p \<le> real (length p) * (m::real)"
  by (induction p) (auto simp: algebra_simps)

lemma rolling_Record:
  assumes "guard_inv t g" "t \<le> u" "0 < c" "0 < gd_limit g"
  shows "rolling (fst (Record g u c s)) u = rolling g u + c"
  using assms rolling_evict [of t g u u]
  by (simp add: Record_def Let_def rolling_def)

lemma sum_list_remove1_real: "c \<in> set p \<Longrightarrow> sum_list (remove1 c p) = sum_list p - (c::real)"
  by (induction p) auto

lemma flight_step:
  assumes "gstep n cmax s s'" "flight_inv n cmax l s" "0 < l"
  shows "flight_inv n cmax l s'"
  using assms
proof (induction rule: gstep.induct)
  case (admit t u c p g g' al)
  then have inv: "guard_inv t g" and l: "gd_limit g = l" by (simp_all add: flight_inv_def)
  from admit.hyps(5) inv l \<open>0 < l\<close> have g': "g' = evictLocked g u" and le: "rolling g u + c \<le> l"
    by (auto simp: Check_def Let_def spent_evict)
  have r: "rolling g' u = rolling g u" using inv g' by (simp add: rolling_evict)
  have "sum_list p \<le> real (length p) * cmax"
    using admit.prems(1) by (intro sum_list_le_length) (simp add: flight_inv_def)
  also have "\<dots> \<le> real (n - 1) * cmax"
    using admit.hyps(2-4) by (intro mult_right_mono) auto
  finally show ?case
    using admit le r g' inv_evict [OF inv, of u u] l by (simp add: flight_inv_def)
next
  case (reject t u g c g' al p)
  then have inv: "guard_inv t g" by (simp add: flight_inv_def)
  have g': "g' = evictLocked g u" using reject.hyps(2) by (auto simp: Check_def Let_def split: if_splits)
  have "rolling g' u \<le> rolling g t" using inv g' reject.hyps(1) by (simp add: rolling_evict rolling_mono)
  with reject g' inv_evict [OF inv, of u u] show ?case by (simp add: flight_inv_def)
next
  case (settle t u c p g s g' al)
  then have inv: "guard_inv t g" and l: "gd_limit g = l" and c: "0 < c"
    by (auto simp: flight_inv_def)
  have g': "g' = fst (Record g u c s)" using settle.hyps(3) by simp
  have "rolling g' u = rolling g u + c"
    using rolling_Record [OF inv settle.hyps(1) c] l g' \<open>0 < l\<close> by simp
  moreover have "rolling g u \<le> rolling g t" using inv settle.hyps(1) by (rule rolling_mono)
  moreover have "gd_limit g' = l" using g' l by (simp add: Record_def Let_def)
  moreover have "guard_inv u g'" using g' inv_Record [OF inv settle.hyps(1)] by simp
  moreover have "set (remove1 c p) \<subseteq> set p" by (rule set_remove1_subset)
  ultimately show ?case
    using settle by (auto simp: flight_inv_def sum_list_remove1_real length_remove1)
qed

lemma flight_reach:
  "greach n cmax s s' \<Longrightarrow> flight_inv n cmax l s \<Longrightarrow> 0 < l \<Longrightarrow> flight_inv n cmax l s'"
  by (induction rule: greach.induct) (auto intro: flight_step)

lemma flight_start:
  "0 < l \<Longrightarrow> 0 \<le> cmax \<Longrightarrow> flight_inv n cmax l (NewGuard l, t, [])"
  by (auto simp: flight_inv_def guard_inv_def NewGuard_def limitLimit_def rolling_def)

section \<open>Properties\<close>

text \<open>
  The guard refuses exactly the requests that do not fit. On a guard whose entries are sorted and
  not from the future, \<open>Check\<close> answers true precisely when a limit is set and the cost of the entries
  of the last 24 hours plus the request exceeds it; the binary-search eviction is that filter.
\<close>

theorem guard_check_exact:
  assumes "guard_inv t g" "t \<le> now"
  shows "(fst (snd (Check g now cost)) \<longleftrightarrow>
            0 < gd_limit g \<and> gd_limit g < sum_list (map be_Cost (filter (\<lambda>e. now - Window \<le> be_At e) (gd_window g))) + cost)
    \<and> gd_window (fst (Check g now cost)) = filter (\<lambda>e. now - Window \<le> be_At e) (gd_window g)
    \<and> guard_inv now (fst (Check g now cost))"
  using assms inv_Check [OF assms]
  by (auto simp: Check_def Let_def currentSpentLocked_def evictLocked_filter)

theorem guard_check_exact_witness:
  "fst (snd (Check (fst (Record (NewGuard 10) 5 8 ''frontier'')) 6 3))"
proof -
  have i: "guard_inv 5 (fst (Record (NewGuard 10) 5 8 ''frontier''))"
    by (rule inv_Record [OF inv_NewGuard [of 0]]) simp
  show ?thesis
    using guard_check_exact [OF i, of 6 3]
    by (simp add: Record_def NewGuard_def limitLimit_def evictLocked_def Let_def)
qed



text \<open>
  The approaching alert is a rising-edge detector. With a limit set, \<open>CheckApproaching\<close> answers
  true exactly when the spend is at 80 percent or more and the previous call saw less, and it leaves
  the flag telling which side this call saw; \<open>Check\<close>, \<open>Record\<close>, \<open>State\<close>, \<open>Remaining\<close> and
  \<open>WouldExceed\<close> do not touch the flag, \<open>SetLimit\<close> clears it.
\<close>

theorem approaching_rising_edge:
  assumes "guard_inv t g" "0 < gd_limit g"
  shows "(fst (snd (CheckApproaching g now)) \<longleftrightarrow> gd_limit g * 0.8 \<le> rolling g now \<and> \<not> gd_approachingSent g)
    \<and> gd_approachingSent (fst (CheckApproaching g now)) = (gd_limit g * 0.8 \<le> rolling g now)
    \<and> gd_approachingSent (fst (Check g now c)) = gd_approachingSent g
    \<and> gd_approachingSent (fst (Record g now c s)) = gd_approachingSent g
    \<and> gd_approachingSent (fst (GuardState g now)) = gd_approachingSent g
    \<and> gd_approachingSent (fst (Remaining g now)) = gd_approachingSent g
    \<and> gd_approachingSent (fst (WouldExceed g now c)) = gd_approachingSent g
    \<and> \<not> gd_approachingSent (SetLimit g l)"
  using assms by (auto simp: guard_defs Let_def spent_evict SetLimit_def)

theorem approaching_rising_edge_witness:
  "fst (snd (CheckApproaching (fst (Record (NewGuard 10) 5 8 [])) 6))"
proof -
  have i: "guard_inv 5 (fst (Record (NewGuard 10) 5 8 []))"
    by (rule inv_Record [OF inv_NewGuard [of 0]]) simp
  have l: "0 < gd_limit (fst (Record (NewGuard 10) 5 8 []))"
    by (simp add: Record_def NewGuard_def limitLimit_def Let_def)
  show ?thesis
    using approaching_rising_edge [OF i l, of 6 0 "[]" 0]
    by (simp add: Record_def NewGuard_def limitLimit_def evictLocked_def Let_def rolling_def)
qed

end
