(* ===== verification/SpendTracker.thy ===== *)
theory SpendTracker
  imports Prelude
begin

text \<open>
  \<open>internal/budget/tracker.go\<close>: the second spend window of the package, kept in one-minute buckets.
  A nil tracker (no budget) is \<open>None\<close>. Dereferencing a bucket the map does not hold would panic: the
  operations return \<open>None\<close> there, and the invariant shows it never happens.
\<close>

section \<open>State\<close>

record tentry =
  te_at :: nanos
  te_amount :: usd

record tbucket =
  tb_entries :: "tentry list"
  tb_sum :: usd
  tb_oldestAt :: nanos

record tracker =
  tk_window :: nanos
  tk_budget :: usd
  tk_observer :: bool
  tk_buckets :: "int \<rightharpoonup> tbucket"
  tk_sortedKeys :: "int list"
  tk_total :: usd

datatype observation = ObsSpent usd | ObsExceeded usd

section \<open>Operations\<close>

definition NewSpendTracker :: "usd \<Rightarrow> tracker option" where
  "NewSpendTracker dailyBudgetUSD =
     (if dailyBudgetUSD \<le> 0 then None
      else Some \<lparr>tk_window = 24 * hour, tk_budget = dailyBudgetUSD, tk_observer = False,
                 tk_buckets = Map.empty, tk_sortedKeys = [], tk_total = 0\<rparr>)"

definition SetObserver :: "tracker option \<Rightarrow> bool \<Rightarrow> tracker option" where
  "SetObserver st observer = map_option (\<lambda>s. s\<lparr>tk_observer := observer\<rparr>) st"

text \<open>\<open>t.Unix()\<close> counts whole seconds; Go divides towards zero.\<close>

definition bucketKey :: "nanos \<Rightarrow> int" where
  "bucketKey t = go_div (t div second) 60"

text \<open>
  The loop of \<open>pruneLocked\<close> over the sorted keys: the keys left, the map and the totalal.
\<close>

fun prune_loop :: "nanos \<Rightarrow> int list \<Rightarrow> (int \<rightharpoonup> tbucket) \<Rightarrow> usd \<Rightarrow> (int list \<times> (int \<rightharpoonup> tbucket) \<times> usd) option" where
  "prune_loop cutoff [] bs tot = Some ([], bs, tot)"
| "prune_loop cutoff (bk # ks) bs tot =
     (case bs bk of
        None \<Rightarrow> None
      | Some b \<Rightarrow>
          if tb_oldestAt b < cutoff then prune_loop cutoff ks (bs(bk := None)) (tot - tb_sum b)
          else
            let expired = takeWhile (\<lambda>e. te_at e < cutoff) (tb_entries b) in
            if expired \<noteq> [] then
              let tot' = foldl (\<lambda>t e. t - te_amount e) tot expired;
                  es = drop (length expired) (tb_entries b);
                  b' = b\<lparr>tb_entries := es,
                         tb_oldestAt := (case es of e # _ \<Rightarrow> te_at e | [] \<Rightarrow> tb_oldestAt b),
                         tb_sum := sum_list (map te_amount es)\<rparr>
              in if es = [] then Some (ks, bs(bk := None), tot')
                 else Some (bk # ks, bs(bk \<mapsto> b'), tot')
            else Some (bk # ks, bs, tot))"

definition pruneLocked :: "tracker \<Rightarrow> nanos \<Rightarrow> tracker option" where
  "pruneLocked st now =
     (if dom (tk_buckets st) = {} then Some st
      else map_option (\<lambda>(ks, bs, tot). st\<lparr>tk_sortedKeys := ks, tk_buckets := bs, tk_total := tot\<rparr>)
             (prune_loop (now - tk_window st) (tk_sortedKeys st) (tk_buckets st) (tk_total st)))"

definition TrackerWouldExceed :: "tracker option \<Rightarrow> nanos \<Rightarrow> usd \<Rightarrow> (tracker option \<times> bool \<times> observation list) option" where
  "TrackerWouldExceed st now amount =
     (case st of
        None \<Rightarrow> Some (None, False, [])
      | Some s \<Rightarrow>
          if amount \<le> 0 then Some (Some s, False, [])
          else map_option (\<lambda>s.
                 let over = tk_budget s < tk_total s + amount
                 in (Some s, over, if over \<and> tk_observer s then [ObsExceeded amount] else []))
               (pruneLocked s now))"

definition insert_entry :: "tracker \<Rightarrow> nanos \<Rightarrow> usd \<Rightarrow> tracker" where
  "insert_entry s now amount =
     (let bk = bucketKey now;
          found = tk_buckets s bk;
          b = (case found of Some b \<Rightarrow> b | None \<Rightarrow> \<lparr>tb_entries = [], tb_sum = 0, tb_oldestAt = now\<rparr>);
          ks = (case found of Some _ \<Rightarrow> tk_sortedKeys s | None \<Rightarrow> sort (tk_sortedKeys s @ [bk]));
          b' = b\<lparr>tb_entries := tb_entries b @ [\<lparr>te_at = now, te_amount = amount\<rparr>], tb_sum := tb_sum b + amount\<rparr>
      in s\<lparr>tk_buckets := (tk_buckets s)(bk \<mapsto> b'), tk_sortedKeys := ks, tk_total := tk_total s + amount\<rparr>)"

definition TrackerRecord :: "tracker option \<Rightarrow> nanos \<Rightarrow> usd \<Rightarrow> (tracker option \<times> observation list) option" where
  "TrackerRecord st now amount =
     (case st of
        None \<Rightarrow> Some (None, [])
      | Some s \<Rightarrow>
          if amount \<le> 0 then Some (Some s, [])
          else map_option (\<lambda>s. (Some (insert_entry s now amount), if tk_observer s then [ObsSpent amount] else []))
                 (pruneLocked s now))"

definition CurrentSpend :: "tracker option \<Rightarrow> nanos \<Rightarrow> (tracker option \<times> usd) option" where
  "CurrentSpend st now =
     (case st of
        None \<Rightarrow> Some (None, 0)
      | Some s \<Rightarrow> map_option (\<lambda>s. (Some s, tk_total s)) (pruneLocked s now))"

definition RunningTotal :: "tracker option \<Rightarrow> nanos \<Rightarrow> (tracker option \<times> usd) option" where
  "RunningTotal st now = CurrentSpend st now"

definition Budget :: "tracker option \<Rightarrow> usd" where
  "Budget st = (case st of None \<Rightarrow> 0 | Some s \<Rightarrow> tk_budget s)"

definition RetryAfter :: "tracker option \<Rightarrow> nanos \<Rightarrow> (tracker option \<times> nanos) option" where
  "RetryAfter st now =
     (case st of
        None \<Rightarrow> Some (None, 0)
      | Some s \<Rightarrow>
          (case pruneLocked s now of
             None \<Rightarrow> None
           | Some s \<Rightarrow>
               (case tk_sortedKeys s of
                  [] \<Rightarrow> Some (Some s, 0)
                | k # _ \<Rightarrow>
                    (case tk_buckets s k of
                       None \<Rightarrow> None
                     | Some b \<Rightarrow> let d = tb_oldestAt b + tk_window s - now in Some (Some s, if d < 0 then 0 else d)))))"

section \<open>Invariant\<close>

definition bucket_ok :: "int \<Rightarrow> tbucket \<Rightarrow> bool" where
  "bucket_ok k b \<longleftrightarrow> tb_entries b \<noteq> [] \<and> sorted (map te_at (tb_entries b)) \<and>
     tb_oldestAt b = te_at (hd (tb_entries b)) \<and> tb_sum b = sum_list (map te_amount (tb_entries b)) \<and>
     (\<forall>e\<in>set (tb_entries b). bucketKey (te_at e) = k \<and> 0 \<le> te_at e \<and> 0 < te_amount e)"

definition keys_ok :: "int list \<Rightarrow> (int \<rightharpoonup> tbucket) \<Rightarrow> bool" where
  "keys_ok ks bs \<longleftrightarrow> sorted ks \<and> distinct ks \<and> (\<forall>k\<in>set ks. \<exists>b. bs k = Some b \<and> bucket_ok k b)"

definition flat :: "int list \<Rightarrow> (int \<rightharpoonup> tbucket) \<Rightarrow> tentry list" where
  "flat ks bs = concat (map (\<lambda>k. case bs k of None \<Rightarrow> [] | Some b \<Rightarrow> tb_entries b) ks)"

definition tracker_inv :: "nanos \<Rightarrow> tracker \<Rightarrow> bool" where
  "tracker_inv t s \<longleftrightarrow> keys_ok (tk_sortedKeys s) (tk_buckets s) \<and> dom (tk_buckets s) = set (tk_sortedKeys s) \<and>
     tk_total s = sum_list (map te_amount (flat (tk_sortedKeys s) (tk_buckets s))) \<and>
     (\<forall>e\<in>set (flat (tk_sortedKeys s) (tk_buckets s)). te_at e \<le> t) \<and> tk_window s = 24 * hour"

definition old :: "(int \<rightharpoonup> tbucket) \<Rightarrow> nanos \<Rightarrow> int \<Rightarrow> bool" where
  "old bs cutoff k \<longleftrightarrow> (case bs k of None \<Rightarrow> False | Some b \<Rightarrow> tb_oldestAt b < cutoff)"

lemma flat_simps [simp]:
  "flat [] bs = []"
  "bs k = Some b \<Longrightarrow> flat (k # ks) bs = tb_entries b @ flat ks bs"
  "flat (ks @ ls) bs = flat ks bs @ flat ls bs"
  by (simp_all add: flat_def)

lemma in_flat: "e \<in> set (flat ks bs) \<longleftrightarrow> (\<exists>k\<in>set ks. \<exists>b. bs k = Some b \<and> e \<in> set (tb_entries b))"
  by (force simp: flat_def split: option.splits)

lemma flat_cong: "(\<And>k. k \<in> set ks \<Longrightarrow> bs k = bs' k) \<Longrightarrow> flat ks bs = flat ks bs'"
  by (simp add: flat_def cong: map_cong)

text \<open>
  On buckets in order the second half of the loop's body never finds an expired entry: the bucket's
  oldest entry is not expired. The loop drops whole buckets.
\<close>

lemma no_expired: "bucket_ok k b \<Longrightarrow> \<not> tb_oldestAt b < c \<Longrightarrow> takeWhile (\<lambda>e. te_at e < c) (tb_entries b) = []"
  by (cases "tb_entries b") (auto simp: bucket_ok_def)

lemma prune_loop_eq:
  assumes "keys_ok ks bs"
  shows "\<exists>bs'. prune_loop c ks bs tot =
           Some (dropWhile (old bs c) ks, bs', tot - sum_list (map te_amount (flat (takeWhile (old bs c) ks) bs)))
         \<and> (\<forall>k. bs' k = (if k \<in> set (takeWhile (old bs c) ks) then None else bs k))"
  using assms
proof (induction ks arbitrary: bs tot)
  case Nil
  then show ?case by simp
next
  case (Cons k ks)
  then obtain b where b: "bs k = Some b" "bucket_ok k b" by (auto simp: keys_ok_def)
  show ?case
  proof (cases "tb_oldestAt b < c")
    case False
    with b show ?thesis by (simp add: old_def no_expired)
  next
    case True
    have k: "k \<notin> set ks" using Cons.prems by (simp add: keys_ok_def)
    have same: "old (bs(k := None)) c j = old bs c j" if "j \<in> set ks" for j
      using that k by (auto simp: old_def)
    have tw: "takeWhile (old (bs(k := None)) c) ks = takeWhile (old bs c) ks"
      by (rule takeWhile_cong) (auto simp: same)
    have dw: "dropWhile (old (bs(k := None)) c) ks = dropWhile (old bs c) ks"
      by (rule dropWhile_cong) (auto simp: same)
    have fl: "flat (takeWhile (old bs c) ks) (bs(k := None)) = flat (takeWhile (old bs c) ks) bs"
      by (rule flat_cong) (use k in \<open>auto dest: set_takeWhileD\<close>)
    have "keys_ok ks (bs(k := None))" using Cons.prems k by (auto simp: keys_ok_def)
    from Cons.IH [OF this, of "tot - tb_sum b", unfolded tw dw fl] obtain bs' where
      l: "prune_loop c ks (bs(k := None)) (tot - tb_sum b) =
            Some (dropWhile (old bs c) ks, bs', tot - tb_sum b - sum_list (map te_amount (flat (takeWhile (old bs c) ks) bs)))"
      and bs': "\<forall>j. bs' j = (if j \<in> set (takeWhile (old bs c) ks) then None else (bs(k := None)) j)"
      by blast
    have o: "old bs c k" using True b by (simp add: old_def)
    have "tb_sum b = sum_list (map te_amount (tb_entries b))" using b by (simp add: bucket_ok_def)
    with l b True o have "prune_loop c (k # ks) bs tot =
       Some (dropWhile (old bs c) (k # ks), bs', tot - sum_list (map te_amount (flat (takeWhile (old bs c) (k # ks)) bs)))"
      by simp
    with bs' o show ?thesis by auto
  qed
qed

lemma keys_ok_dropWhile: "keys_ok ks bs \<Longrightarrow> keys_ok (dropWhile P ks) bs"
  by (auto simp: keys_ok_def sorted_dropWhile dest: set_dropWhileD)

text \<open>What pruning leaves: the whole buckets whose oldest entry is not before the cutoff.\<close>

lemma prune_spec:
  assumes "tracker_inv t s" "t \<le> now"
  shows "\<exists>s'. pruneLocked s now = Some s' \<and> tracker_inv now s' \<and> tk_budget s' = tk_budget s \<and>
     tk_observer s' = tk_observer s \<and>
     tk_sortedKeys s' = dropWhile (old (tk_buckets s) (now - 24 * hour)) (tk_sortedKeys s) \<and>
     flat (tk_sortedKeys s') (tk_buckets s') =
       flat (dropWhile (old (tk_buckets s) (now - 24 * hour)) (tk_sortedKeys s)) (tk_buckets s)"
proof (cases "dom (tk_buckets s) = {}")
  case True
  with assms show ?thesis by (auto simp: tracker_inv_def pruneLocked_def)
next
  case False
  let ?ks = "tk_sortedKeys s" and ?bs = "tk_buckets s"
  let ?o = "old ?bs (now - 24 * hour)"
  have ok: "keys_ok ?ks ?bs" and w: "tk_window s = 24 * hour"
    and d: "dom ?bs = set ?ks" and tot: "tk_total s = sum_list (map te_amount (flat ?ks ?bs))"
    and tm: "\<forall>e\<in>set (flat ?ks ?bs). te_at e \<le> t"
    using assms by (simp_all add: tracker_inv_def)
  from prune_loop_eq [OF ok] w obtain bs' where
    l: "prune_loop (now - tk_window s) ?ks ?bs (tk_total s) =
          Some (dropWhile ?o ?ks, bs', tk_total s - sum_list (map te_amount (flat (takeWhile ?o ?ks) ?bs)))"
    and bs': "\<forall>k. bs' k = (if k \<in> set (takeWhile ?o ?ks) then None else ?bs k)" by metis
  have split: "takeWhile ?o ?ks @ dropWhile ?o ?ks = ?ks" by simp
  have dis: "set (takeWhile ?o ?ks) \<inter> set (dropWhile ?o ?ks) = {}"
    using ok split by (metis distinct_append keys_ok_def)
  have same: "bs' k = ?bs k" if "k \<in> set (dropWhile ?o ?ks)" for k
    using that dis bs' by auto
  have fl: "flat (dropWhile ?o ?ks) bs' = flat (dropWhile ?o ?ks) ?bs"
    by (rule flat_cong) (rule same)
  have fs: "flat ?ks ?bs = flat (takeWhile ?o ?ks) ?bs @ flat (dropWhile ?o ?ks) ?bs"
    by (metis flat_simps(3) split)
  have k': "keys_ok (dropWhile ?o ?ks) bs'"
    using keys_ok_dropWhile [OF ok, of ?o] same by (simp add: keys_ok_def)
  have "dom bs' = set ?ks - set (takeWhile ?o ?ks)"
    using bs' d by (auto simp: dom_def split: if_splits)
  also have "\<dots> = set (dropWhile ?o ?ks)" using dis split by (metis Diff_cancel Un_Diff Diff_triv inf_commute set_append sup_bot_left)
  finally have d': "dom bs' = set (dropWhile ?o ?ks)" .
  have tm': "\<forall>e\<in>set (flat (dropWhile ?o ?ks) ?bs). te_at e \<le> now"
    using tm fs assms(2) by force
  show ?thesis
    using l False k' d' fl fs tot tm' w by (auto simp: pruneLocked_def tracker_inv_def)
qed

text \<open>Minutes are numbered in the order of time, and an entry's minute is at most 60 seconds long.\<close>

lemma bucketKey_nonneg: "0 \<le> t \<Longrightarrow> bucketKey t = t div second div 60"
  by (simp add: bucketKey_def)

lemma bucketKey_mono: "0 \<le> t \<Longrightarrow> t \<le> u \<Longrightarrow> bucketKey t \<le> bucketKey u"
  by (simp add: bucketKey_nonneg zdiv_mono1)

lemma bucketKey_minute: "0 \<le> t \<Longrightarrow> 0 \<le> u \<Longrightarrow> bucketKey t = bucketKey u \<Longrightarrow> u < t + minute"
  by (simp add: bucketKey_nonneg)

lemma flat_insert:
  assumes inv: "tracker_inv t s" and t: "0 \<le> now" "t \<le> now" and a: "0 < amount"
  shows "tracker_inv now (insert_entry s now amount) \<and>
    flat (tk_sortedKeys (insert_entry s now amount)) (tk_buckets (insert_entry s now amount)) =
      flat (tk_sortedKeys s) (tk_buckets s) @ [\<lparr>te_at = now, te_amount = amount\<rparr>]"
proof -
  let ?ks = "tk_sortedKeys s" and ?bs = "tk_buckets s" and ?k = "bucketKey now"
  let ?e = "\<lparr>te_at = now, te_amount = amount\<rparr>"
  have ok: "keys_ok ?ks ?bs" and d: "dom ?bs = set ?ks"
    and tot: "tk_total s = sum_list (map te_amount (flat ?ks ?bs))"
    and tm: "\<forall>e\<in>set (flat ?ks ?bs). te_at e \<le> now" and w: "tk_window s = 24 * hour"
    using inv t by (auto simp: tracker_inv_def)
  have le: "k \<le> ?k" if k: "k \<in> set ?ks" for k
  proof -
    from k ok obtain b where b: "?bs k = Some b" "bucket_ok k b" by (auto simp: keys_ok_def)
    then obtain e where e: "e \<in> set (tb_entries b)" by (cases "tb_entries b") (auto simp: bucket_ok_def)
    with b k have "e \<in> set (flat ?ks ?bs)" by (auto simp: in_flat)
    with tm have "te_at e \<le> now" by blast
    with b e show ?thesis using bucketKey_mono [of "te_at e" now] by (auto simp: bucket_ok_def)
  qed
  show ?thesis
  proof (cases "?bs ?k")
    case None
    then have nk: "?k \<notin> set ?ks" using d by auto
    have "sorted (?ks @ [?k])" using ok le by (auto simp: keys_ok_def sorted_append)
    then have so: "sort (?ks @ [?k]) = ?ks @ [?k]" by (rule sorted_sort_id)
    let ?b = "\<lparr>tb_entries = [?e], tb_sum = amount, tb_oldestAt = now\<rparr>"
    have bo: "bucket_ok ?k ?b" using t a by (simp add: bucket_ok_def)
    have fl: "flat ?ks (?bs(?k \<mapsto> ?b)) = flat ?ks ?bs" by (rule flat_cong) (use nk in auto)
    have ko: "keys_ok (?ks @ [?k]) (?bs(?k \<mapsto> ?b))"
      using ok le nk bo by (auto simp: keys_ok_def sorted_append)
    show ?thesis using None so fl ko bo tot tm w d
      by (auto simp: insert_entry_def tracker_inv_def Let_def)
  next
    case (Some b)
    then have k: "?k \<in> set ?ks" using d by auto
    with ok Some have bo: "bucket_ok ?k b" by (auto simp: keys_ok_def)
    have "last ?ks = ?k"
    proof -
      from k have ne: "?ks \<noteq> []" by auto
      have so: "sorted ?ks" using ok by (simp add: keys_ok_def)
      from k obtain i where "i < length ?ks" "?ks ! i = ?k" by (auto simp: in_set_conv_nth)
      with sorted_nth_mono [OF so, of i "length ?ks - 1"] ne have "?k \<le> last ?ks" by (simp add: last_conv_nth)
      with le [of "last ?ks"] ne show ?thesis by simp
    qed
    with k obtain ls where ls: "?ks = ls @ [?k]" by (metis append_butlast_last_id list.distinct(1) list.set_cases)
    let ?b = "b\<lparr>tb_entries := tb_entries b @ [?e], tb_sum := tb_sum b + amount\<rparr>"
    have es: "\<forall>e\<in>set (tb_entries b). te_at e \<le> now"
    proof
      fix e assume "e \<in> set (tb_entries b)"
      with Some k have "e \<in> set (flat ?ks ?bs)" by (auto simp: in_flat)
      with tm show "te_at e \<le> now" by blast
    qed
    have bo': "bucket_ok ?k ?b" using bo es t a by (auto simp: bucket_ok_def sorted_append)
    have "?k \<notin> set ls" using ok ls by (auto simp: keys_ok_def)
    then have fl: "flat ls (?bs(?k \<mapsto> ?b)) = flat ls ?bs" by (intro flat_cong) auto
    have ko: "keys_ok ?ks (?bs(?k \<mapsto> ?b))" using ok bo' by (auto simp: keys_ok_def)
    have f1: "flat ?ks (?bs(?k \<mapsto> ?b)) = flat ?ks ?bs @ [?e]"
      using fl Some by (simp add: ls)
    have "tracker_inv now (insert_entry s now amount)"
      using Some ko f1 tot tm w d k by (auto simp: insert_entry_def tracker_inv_def Let_def)
    with f1 Some show ?thesis by (simp add: insert_entry_def Let_def)
  qed
qed

section \<open>The window the tracker really keeps\<close>

definition oldest :: "(int \<rightharpoonup> tbucket) \<Rightarrow> int \<Rightarrow> nanos" where
  "oldest bs k = (case bs k of None \<Rightarrow> 0 | Some b \<Rightarrow> tb_oldestAt b)"

lemma bucket_first: "bucket_ok k b \<Longrightarrow> \<exists>e\<in>set (tb_entries b). tb_oldestAt b = te_at e"
  by (cases "tb_entries b") (auto simp: bucket_ok_def)

lemma sorted_oldest: "keys_ok ks bs \<Longrightarrow> sorted (map (oldest bs) ks)"
proof (induction ks)
  case Nil
  then show ?case by simp
next
  case (Cons k ks)
  have "oldest bs k \<le> oldest bs j" if j: "j \<in> set ks" for j
  proof (rule ccontr)
    assume less: "\<not> oldest bs k \<le> oldest bs j"
    from Cons.prems j obtain b c where b: "bs k = Some b" "bucket_ok k b" "bs j = Some c" "bucket_ok j c"
      by (auto simp: keys_ok_def)
    from bucket_first [OF b(2)] bucket_first [OF b(4)] obtain d e where
      "d \<in> set (tb_entries b)" "e \<in> set (tb_entries c)" "oldest bs k = te_at d" "oldest bs j = te_at e"
      using b by (auto simp: oldest_def)
    with b less bucketKey_mono [of "te_at e" "te_at d"] have "j \<le> k" by (auto simp: bucket_ok_def)
    with Cons.prems j show False by (auto simp: keys_ok_def)
  qed
  with Cons show ?case by (simp add: keys_ok_def)
qed

lemma flat_filter:
  "\<forall>k\<in>set ks. \<exists>b. bs k = Some b \<and> bucket_ok k b \<Longrightarrow>
   flat (filter P ks) bs = filter (\<lambda>e. P (bucketKey (te_at e))) (flat ks bs)"
proof (induction ks)
  case Nil
  then show ?case by simp
next
  case (Cons k ks)
  then obtain b where b: "bs k = Some b" "bucket_ok k b" by auto
  then have "\<forall>e\<in>set (tb_entries b). bucketKey (te_at e) = k" by (simp add: bucket_ok_def)
  then have "filter (\<lambda>e. P (bucketKey (te_at e))) (tb_entries b) = (if P k then tb_entries b else [])"
    by (auto simp: filter_id_conv filter_empty_conv)
  with Cons b show ?case by simp
qed

lemma prune_flat:
  assumes "tracker_inv t s" "t \<le> now" "pruneLocked s now = Some s'"
  shows "flat (tk_sortedKeys s') (tk_buckets s') =
     filter (\<lambda>e. \<not> oldest (tk_buckets s) (bucketKey (te_at e)) < now - 24 * hour)
       (flat (tk_sortedKeys s) (tk_buckets s))"
proof -
  let ?ks = "tk_sortedKeys s" and ?bs = "tk_buckets s" and ?c = "now - 24 * hour"
  have ok: "keys_ok ?ks ?bs" using assms(1) by (simp add: tracker_inv_def)
  have "dropWhile (old ?bs ?c) ?ks = dropWhile (\<lambda>k. oldest ?bs k < ?c) ?ks"
  proof (rule dropWhile_cong)
    fix k assume "k \<in> set ?ks"
    with ok obtain b where "?bs k = Some b" by (auto simp: keys_ok_def)
    then show "old ?bs ?c k = (oldest ?bs k < ?c)" by (simp add: old_def oldest_def)
  qed simp
  also have "\<dots> = filter (\<lambda>k. \<not> oldest ?bs k < ?c) ?ks"
    by (rule dropWhile_sorted_filter) (rule sorted_oldest [OF ok])
  finally show ?thesis
    using prune_spec [OF assms(1,2)] assms(3) flat_filter [of ?ks ?bs "\<lambda>k. \<not> oldest ?bs k < ?c"] ok
    by (auto simp: keys_ok_def)
qed

text \<open>
  \<open>covers c H s\<close>: of the history \<open>H\<close> the tracker holds every entry at or after \<open>c\<close> plus one minute, and
  nothing from before \<open>c\<close>.
\<close>

definition covers :: "nanos \<Rightarrow> tentry list \<Rightarrow> tracker \<Rightarrow> bool" where
  "covers c H s \<longleftrightarrow> (\<exists>P. flat (tk_sortedKeys s) (tk_buckets s) = filter P H \<and>
     (\<forall>e\<in>set H. c + minute \<le> te_at e \<longrightarrow> P e) \<and> (\<forall>e\<in>set H. P e \<longrightarrow> c \<le> te_at e))"

lemma covers_prune:
  assumes inv: "tracker_inv t s" and t: "t \<le> now" and cov: "covers c H s" "c \<le> now - 24 * hour"
    and p: "pruneLocked s now = Some s'"
  shows "covers (now - 24 * hour) H s'"
proof -
  let ?bs = "tk_buckets s" and ?c = "now - 24 * hour"
  from cov obtain P where P: "flat (tk_sortedKeys s) ?bs = filter P H"
    "\<forall>e\<in>set H. c + minute \<le> te_at e \<longrightarrow> P e" by (auto simp: covers_def)
  define Q where "Q = (\<lambda>e. P e \<and> \<not> oldest ?bs (bucketKey (te_at e)) < ?c)"
  have "flat (tk_sortedKeys s') (tk_buckets s') = filter Q H"
    using prune_flat [OF inv t p] P(1) by (simp add: Q_def conj_commute)
  moreover have near: "oldest ?bs (bucketKey (te_at e)) \<le> te_at e \<and> te_at e < oldest ?bs (bucketKey (te_at e)) + minute"
    if e: "e \<in> set H" "P e" for e
  proof -
    from e P(1) have "e \<in> set (flat (tk_sortedKeys s) ?bs)" by simp
    with inv obtain k b where b: "?bs k = Some b" "bucket_ok k b" "e \<in> set (tb_entries b)"
      by (auto simp: in_flat tracker_inv_def keys_ok_def dest: bspec)
    from bucket_first [OF b(2)] obtain d where d: "d \<in> set (tb_entries b)" "tb_oldestAt b = te_at d" by blast
    have "te_at d \<le> te_at e" using b d by (cases "tb_entries b") (auto simp: bucket_ok_def)
    moreover have "te_at e < te_at d + minute"
      using b d bucketKey_minute [of "te_at d" "te_at e"] by (auto simp: bucket_ok_def)
    moreover have "bucketKey (te_at e) = k" using b by (auto simp: bucket_ok_def)
    ultimately show ?thesis using b d by (simp add: oldest_def)
  qed
  moreover have "\<forall>e\<in>set H. ?c + minute \<le> te_at e \<longrightarrow> Q e"
  proof (intro ballI impI)
    fix e assume e: "e \<in> set H" "?c + minute \<le> te_at e"
    with P(2) cov(2) have "P e" by force
    with near [OF e(1)] e(2) show "Q e" by (simp add: Q_def)
  qed
  moreover have "\<forall>e\<in>set H. Q e \<longrightarrow> ?c \<le> te_at e"
    using near by (force simp: Q_def)
  ultimately show ?thesis unfolding covers_def by blast
qed

lemma covers_insert:
  assumes "tracker_inv t s" "0 \<le> now" "t \<le> now" "0 < amount" "covers c H s" "c + minute \<le> now"
  shows "covers c (H @ [\<lparr>te_at = now, te_amount = amount\<rparr>]) (insert_entry s now amount)"
proof -
  let ?e = "\<lparr>te_at = now, te_amount = amount\<rparr>"
  from assms(5) obtain P where P: "flat (tk_sortedKeys s) (tk_buckets s) = filter P H"
    "\<forall>e\<in>set H. c + minute \<le> te_at e \<longrightarrow> P e" "\<forall>e\<in>set H. P e \<longrightarrow> c \<le> te_at e" by (auto simp: covers_def)
  define Q where "Q e \<longleftrightarrow> P e \<or> e = ?e" for e
  have "filter Q H = filter P H" using P(2) assms(6) by (intro filter_cong) (auto simp: Q_def)
  then have "flat (tk_sortedKeys (insert_entry s now amount)) (tk_buckets (insert_entry s now amount)) = filter Q (H @ [?e])"
    using flat_insert [OF assms(1-4)] P(1) by (simp add: Q_def)
  moreover have "\<forall>e\<in>set (H @ [?e]). c + minute \<le> te_at e \<longrightarrow> Q e" using P(2) by (auto simp: Q_def)
  moreover have "\<forall>e\<in>set (H @ [?e]). Q e \<longrightarrow> c \<le> te_at e" using P(3) assms(6) by (auto simp: Q_def)
  ultimately show ?thesis unfolding covers_def by blast
qed

text \<open>A run: the operations with the instants at which they take the lock.\<close>

datatype top = TRecord usd | TAsk usd | TSpend | TRetry

fun track :: "tracker option \<Rightarrow> (nanos \<times> top) list \<Rightarrow> tracker option option" where
  "track s [] = Some s"
| "track s ((t, TRecord a) # ops) = (case TrackerRecord s t a of None \<Rightarrow> None | Some (s', _) \<Rightarrow> track s' ops)"
| "track s ((t, TAsk a) # ops) = (case TrackerWouldExceed s t a of None \<Rightarrow> None | Some (s', _) \<Rightarrow> track s' ops)"
| "track s ((t, TSpend) # ops) = (case CurrentSpend s t of None \<Rightarrow> None | Some (s', _) \<Rightarrow> track s' ops)"
| "track s ((t, TRetry) # ops) = (case RetryAfter s t of None \<Rightarrow> None | Some (s', _) \<Rightarrow> track s' ops)"

fun recorded :: "(nanos \<times> top) list \<Rightarrow> tentry list" where
  "recorded [] = []"
| "recorded ((t, TRecord a) # ops) = (if a \<le> 0 then [] else [\<lparr>te_at = t, te_amount = a\<rparr>]) @ recorded ops"
| "recorded (_ # ops) = recorded ops"

definition tracked :: "nanos \<Rightarrow> tentry list \<Rightarrow> tracker \<Rightarrow> bool" where
  "tracked t H s \<longleftrightarrow> tracker_inv t s \<and> (\<exists>c. c \<le> t - 24 * hour \<and> covers c H s)"

lemma tracked_prune:
  assumes "tracked t H s" "t \<le> now"
  shows "\<exists>s'. pruneLocked s now = Some s' \<and> tracked now H s' \<and> covers (now - 24 * hour) H s' \<and> tracker_inv now s'
     \<and> tk_observer s' = tk_observer s"
proof -
  from assms obtain c where c: "tracker_inv t s" "covers c H s" "c \<le> now - 24 * hour"
    by (auto simp: tracked_def)
  from prune_spec [OF c(1) assms(2)] obtain s' where s': "pruneLocked s now = Some s'" "tracker_inv now s'"
    "tk_observer s' = tk_observer s" by blast
  have "covers (now - 24 * hour) H s'" by (rule covers_prune [OF c(1) assms(2) c(2,3) s'(1)])
  with s' show ?thesis by (auto simp: tracked_def)
qed

lemma tracked_later: "tracked t H s \<Longrightarrow> t \<le> u \<Longrightarrow> tracked u H s"
  unfolding tracked_def tracker_inv_def by (meson diff_right_mono order_trans)

lemma tracked_record:
  assumes "tracked t H s" "t \<le> now" "0 \<le> now" "0 < a"
  shows "\<exists>s' obs. TrackerRecord (Some s) now a = Some (Some s', obs) \<and> tracked now (H @ [\<lparr>te_at = now, te_amount = a\<rparr>]) s'"
proof -
  from tracked_prune [OF assms(1,2)] obtain s1 where s1: "pruneLocked s now = Some s1"
    "tracker_inv now s1" "covers (now - 24 * hour) H s1" by blast
  have "tracker_inv now (insert_entry s1 now a)"
    using flat_insert [OF s1(2) assms(3) order_refl assms(4)] by simp
  moreover have "covers (now - 24 * hour) (H @ [\<lparr>te_at = now, te_amount = a\<rparr>]) (insert_entry s1 now a)"
    by (rule covers_insert [OF s1(2) assms(3) order_refl assms(4) s1(3)]) simp
  ultimately show ?thesis using s1(1) assms(4) by (auto simp: TrackerRecord_def tracked_def)
qed

lemma tracked_run:
  assumes "tracked t H s" "sorted (map fst ops)" "\<forall>q\<in>set ops. t \<le> fst q" "0 \<le> t"
  shows "\<exists>s' u. track (Some s) ops = Some (Some s') \<and> tracked u (H @ recorded ops) s' \<and> t \<le> u \<and>
           (\<forall>v. (\<forall>q\<in>set ops. fst q \<le> v) \<and> t \<le> v \<longrightarrow> u \<le> v)"
  using assms
proof (induction ops arbitrary: t H s)
  case Nil
  then show ?case by auto
next
  case (Cons op ops)
  obtain now q where op: "op = (now, q)" by (cases op)
  have t: "t \<le> now" and so: "sorted (map fst ops)" and later: "\<forall>r\<in>set ops. now \<le> fst r" and nn: "0 \<le> now"
    using Cons.prems op by auto
  have go: ?case if "track (Some s) ((now, q) # ops) = track (Some s1) ops"
    "tracked now H1 s1" "H @ recorded ((now, q) # ops) = H1 @ recorded ops" for s1 H1
    using Cons.IH [OF that(2) so later nn] that(1,3) op t by force
  from tracked_prune [OF Cons.prems(1) t] obtain s1 where s1: "pruneLocked s now = Some s1" "tracked now H s1"
    "tracker_inv now s1" by blast
  show ?case
  proof (cases q)
    case (TRecord a)
    show ?thesis
    proof (cases "a \<le> 0")
      case True
      show ?thesis
        by (rule go [of s H]) (use True TRecord tracked_later [OF Cons.prems(1) t] in \<open>simp_all add: TrackerRecord_def\<close>)
    next
      case False
      then obtain s2 obs where "TrackerRecord (Some s) now a = Some (Some s2, obs)"
        "tracked now (H @ [\<lparr>te_at = now, te_amount = a\<rparr>]) s2"
        using tracked_record [OF Cons.prems(1) t nn, of a] by auto
      with False TRecord show ?thesis by (intro go [of s2 "H @ [\<lparr>te_at = now, te_amount = a\<rparr>]"]) simp_all
    qed
  next
    case (TAsk a)
    show ?thesis
    proof (cases "a \<le> 0")
      case True
      show ?thesis
        by (rule go [of s H]) (use True TAsk tracked_later [OF Cons.prems(1) t] in \<open>simp_all add: TrackerWouldExceed_def\<close>)
    next
      case False
      with TAsk s1 show ?thesis by (intro go [of s1 H]) (simp_all add: TrackerWouldExceed_def Let_def)
    qed
  next
    case TSpend
    with s1 show ?thesis by (intro go [of s1 H]) (simp_all add: CurrentSpend_def)
  next
    case TRetry
    have "\<exists>d. RetryAfter (Some s) now = Some (Some s1, d)"
    proof (cases "tk_sortedKeys s1")
      case (Cons k ks)
      with s1(3) obtain b where "tk_buckets s1 k = Some b" by (auto simp: tracker_inv_def keys_ok_def)
      with Cons s1(1) show ?thesis by (auto simp: RetryAfter_def Let_def)
    qed (use s1(1) in \<open>simp add: RetryAfter_def\<close>)
    with TRetry s1 show ?thesis by (intro go [of s1 H]) auto
  qed
qed

section \<open>Properties\<close>

text \<open>
  The tracker never panics and its window is 24 hours up to one minute. After any sequence of
  \<open>Record\<close>, \<open>WouldExceed\<close>, \<open>CurrentSpend\<close> and \<open>RetryAfter\<close> at non-decreasing instants, a later
  \<open>CurrentSpend\<close> returns at least the spend of the last 24 hours less a minute and at most that of
  the last 24 hours.
\<close>

theorem tracker_window_bounds:
  assumes "NewSpendTracker B = Some s0" "sorted (map fst ops)" "\<forall>r\<in>set ops. 0 \<le> fst r \<and> fst r \<le> now" "0 \<le> now"
  shows "\<exists>s s' v. track (Some s0) ops = Some s \<and> CurrentSpend s now = Some (s', v) \<and>
    sum_list (map te_amount (filter (\<lambda>e. now - 24 * hour + minute \<le> te_at e) (recorded ops))) \<le> v \<and>
    v \<le> sum_list (map te_amount (filter (\<lambda>e. now - 24 * hour \<le> te_at e) (recorded ops)))"
proof -
  have "tracked 0 [] s0"
    using assms(1)
    by (auto simp: NewSpendTracker_def tracked_def tracker_inv_def keys_ok_def covers_def split: if_splits)
  from tracked_run [OF this assms(2)] assms(3,4) obtain s u where
    s: "track (Some s0) ops = Some (Some s)" "tracked u (recorded ops) s" "u \<le> now" by force
  from tracked_prune [OF s(2,3)] obtain s' where
    s': "pruneLocked s now = Some s'" "covers (now - 24 * hour) (recorded ops) s'" "tracker_inv now s'" by blast
  then obtain P where P: "flat (tk_sortedKeys s') (tk_buckets s') = filter P (recorded ops)"
    "\<forall>e\<in>set (recorded ops). now - 24 * hour + minute \<le> te_at e \<longrightarrow> P e"
    "\<forall>e\<in>set (recorded ops). P e \<longrightarrow> now - 24 * hour \<le> te_at e" unfolding covers_def by blast
  have v: "tk_total s' = sum_list (map te_amount (filter P (recorded ops)))"
    using s'(3) P(1) by (simp add: tracker_inv_def)
  have pos: "\<forall>e\<in>set (recorded ops). 0 \<le> te_amount e"
    by (induction ops rule: recorded.induct) auto
  show ?thesis
  proof (intro exI conjI)
    show "track (Some s0) ops = Some (Some s)" by (rule s(1))
    show "CurrentSpend (Some s) now = Some (Some s', tk_total s')" using s'(1) by (simp add: CurrentSpend_def)
    show "sum_list (map te_amount (filter (\<lambda>e. now - 24 * hour + minute \<le> te_at e) (recorded ops))) \<le> tk_total s'"
      unfolding v by (rule sum_list_filter_mono [OF pos P(2)])
    show "tk_total s' \<le> sum_list (map te_amount (filter (\<lambda>e. now - 24 * hour \<le> te_at e) (recorded ops)))"
      unfolding v by (rule sum_list_filter_mono [OF pos P(3)])
  qed
qed

text \<open>
  The witness also shows that the minute is lost: an entry 50 seconds younger than the oldest of its
  bucket is dropped with it, although it is less than 24 hours old.
\<close>

definition lost_minute :: "(nanos \<times> top) list" where
  "lost_minute = [(60 * second, TRecord 3), (110 * second, TRecord 4)]"

lemma lost_minute_run:
  "map_option (\<lambda>s. map_option snd (CurrentSpend s (24 * hour + 61 * second))) (track (NewSpendTracker 10) lost_minute) = Some (Some 0)"
  by (simp add: lost_minute_def NewSpendTracker_def TrackerRecord_def pruneLocked_def insert_entry_def bucketKey_def
      CurrentSpend_def Let_def)

theorem tracker_window_bounds_witness:
  "\<exists>s s' v. track (NewSpendTracker 10) lost_minute = Some s \<and> CurrentSpend s (24 * hour + 61 * second) = Some (s', v) \<and>
     v = 0 \<and> v \<le> 4 \<and> sum_list (map te_amount (filter (\<lambda>e. 61 * second \<le> te_at e) (recorded lost_minute))) = 4"
proof -
  obtain s0 where s0: "NewSpendTracker 10 = Some s0" by (simp add: NewSpendTracker_def)
  have "sorted (map fst lost_minute)" by (simp add: lost_minute_def)
  moreover have "\<forall>r\<in>set lost_minute. 0 \<le> fst r \<and> fst r \<le> 24 * hour + 61 * second" by (simp add: lost_minute_def)
  ultimately obtain s s' v where s: "track (Some s0) lost_minute = Some s"
    "CurrentSpend s (24 * hour + 61 * second) = Some (s', v)"
    "v \<le> sum_list (map te_amount (filter (\<lambda>e. 61 * second \<le> te_at e) (recorded lost_minute)))"
    using tracker_window_bounds [OF s0, of lost_minute "24 * hour + 61 * second"] by auto
  moreover from s have "v = 0" using lost_minute_run s0 by simp
  moreover have "sum_list (map te_amount (filter (\<lambda>e. 61 * second \<le> te_at e) (recorded lost_minute))) = 4"
    by (simp add: lost_minute_def)
  ultimately show ?thesis using s0 by auto
qed

end
