(* ===== verification/Limiter.thy ===== *)
theory Limiter
  imports Prelude
begin

text \<open>
  \<open>internal/concurrencylimit/limiter.go\<close>: the VRAM-aware limiter of local requests and its variant
  for several GPUs. \<open>Acquire\<close> waits on a condition variable, so a caller is a thread: it is outside,
  about to test under the lock, parked in \<open>Wait\<close>, or holding a slot. The probe's reading is an
  argument of every computation of the slot count; a nil closure reads 0, the value the code starts
  from.
\<close>

section \<open>The effective slot count\<close>

definition DefaultBytesPerSlot :: int where "DefaultBytesPerSlot = 2 * 2 ^ 30"

record limiter =
  lm_Ceiling :: int
  lm_BytesPerSlot :: int
  lm_inFlight :: int
  lm_lastEff :: int
  lm_haveLast :: bool

definition NewLimiter :: "int \<Rightarrow> int \<Rightarrow> limiter" where
  "NewLimiter maxc bytesPerSlot =
     \<lparr>lm_Ceiling = maxc,
      lm_BytesPerSlot = (if bytesPerSlot \<le> 0 then DefaultBytesPerSlot else bytesPerSlot),
      lm_inFlight = 0, lm_lastEff = 0, lm_haveLast = False\<rparr>"

definition slots :: "limiter \<Rightarrow> int \<Rightarrow> int" where
  "slots l free =
     (if lm_Ceiling l \<le> 0 then 0
      else if free \<le> 0 \<or> lm_BytesPerSlot l \<le> 0 then lm_Ceiling l
      else
        let s = go_div free (lm_BytesPerSlot l);
            s = (if s < 1 then 1 else s)
        in if lm_Ceiling l < s then lm_Ceiling l else s)"

text \<open>The computation also remembers the last value it logged.\<close>

definition effectiveLocked :: "limiter \<Rightarrow> int \<Rightarrow> limiter \<times> int" where
  "effectiveLocked l free =
     (if lm_Ceiling l \<le> 0 then (l, 0)
      else
        let s = slots l free in
        (if \<not> lm_haveLast l \<or> lm_lastEff l \<noteq> s then l\<lparr>lm_lastEff := s, lm_haveLast := True\<rparr> else l, s))"

definition Effective :: "limiter option \<Rightarrow> int \<Rightarrow> limiter option \<times> int" where
  "Effective l free =
     (case l of
        None \<Rightarrow> (None, 0)
      | Some m \<Rightarrow> if lm_Ceiling m \<le> 0 then (Some m, 0)
          else (case effectiveLocked m free of (m', s) \<Rightarrow> (Some m', s)))"

definition InFlight :: "limiter option \<Rightarrow> int" where
  "InFlight l = (case l of None \<Rightarrow> 0 | Some m \<Rightarrow> lm_inFlight m)"

section \<open>Acquire and release\<close>

text \<open>
  One turn of \<open>Acquire\<close>'s loop under the lock: give up when the context is done, take a slot when
  one is free, park otherwise.
\<close>

datatype turn = GaveUp | Took | Parked

definition acquire_turn :: "limiter \<Rightarrow> bool \<Rightarrow> int \<Rightarrow> limiter \<times> turn" where
  "acquire_turn l ctx_done free =
     (if ctx_done then (l, GaveUp)
      else (case effectiveLocked l free of (l', eff) \<Rightarrow>
        if lm_inFlight l' < eff then (l'\<lparr>lm_inFlight := lm_inFlight l' + 1\<rparr>, Took)
        else (l', Parked)))"

text \<open>\<open>release\<close> reads the probe twice; the result says whether it woke all waiters or one.\<close>

datatype wake = Broadcast | Signal

definition release :: "limiter \<Rightarrow> int \<Rightarrow> int \<Rightarrow> limiter \<times> wake" where
  "release l free1 free2 =
     (case effectiveLocked l free1 of (l1, prevEff) \<Rightarrow>
        let l2 = (if 0 < lm_inFlight l1 then l1\<lparr>lm_inFlight := lm_inFlight l1 - 1\<rparr> else l1)
        in (case effectiveLocked l2 free2 of (l3, newEff) \<Rightarrow>
              (l3, if prevEff < newEff then Broadcast else Signal)))"

lemmas limiter_defs [op_defs] = slots_def effectiveLocked_def acquire_turn_def release_def

lemma effectiveLocked_snd [simp]: "snd (effectiveLocked l free) = slots l free"
  by (simp add: effectiveLocked_def slots_def Let_def)

lemma effectiveLocked_fst [simp]:
  "lm_Ceiling (fst (effectiveLocked l free)) = lm_Ceiling l"
  "lm_BytesPerSlot (fst (effectiveLocked l free)) = lm_BytesPerSlot l"
  "lm_inFlight (fst (effectiveLocked l free)) = lm_inFlight l"
  by (simp_all add: effectiveLocked_def Let_def)

lemma slots_cong:
  assumes "lm_Ceiling l = lm_Ceiling m" "lm_BytesPerSlot l = lm_BytesPerSlot m"
  shows "slots l f = slots m f"
  using assms unfolding slots_def by (simp only:)

lemma slots_le: "0 < lm_Ceiling l \<Longrightarrow> slots l free \<le> lm_Ceiling l"
  by (simp add: slots_def Let_def)

lemma slots_pos: "0 < lm_Ceiling l \<Longrightarrow> 1 \<le> slots l free"
  by (simp add: slots_def Let_def)

lemma slots_formula:
  assumes "0 < lm_Ceiling l" "0 < lm_BytesPerSlot l" "lm_BytesPerSlot l \<le> free"
  shows "slots l free = min (lm_Ceiling l) (free div lm_BytesPerSlot l)"
proof -
  have "1 \<le> free div lm_BytesPerSlot l"
    using assms zdiv_mono1 [of "lm_BytesPerSlot l" free "lm_BytesPerSlot l"] by simp
  with assms show ?thesis by (simp add: slots_def Let_def min_def)
qed

section \<open>The slot interface\<close>

text \<open>
  What the handler's local path relies on: a slot is handed out only below the cap of the moment,
  taking counts one up, giving back counts one down, and nothing else moves the count. \<open>held\<close> reads
  the count, \<open>grab\<close> tries once, \<open>give\<close> releases, \<open>cap\<close> is the cap for a probe reading, \<open>maxh\<close> the
  configured ceiling.
\<close>

locale slot_pool =
  fixes held :: "'p \<Rightarrow> int"
    and grab :: "'p \<Rightarrow> int \<Rightarrow> 'p \<times> bool"
    and give :: "'p \<Rightarrow> int \<Rightarrow> 'p"
    and cap :: "'p \<Rightarrow> int \<Rightarrow> int"
    and maxh :: "'p \<Rightarrow> int"
    and ok :: "'p \<Rightarrow> bool"
  assumes grab_ok: "ok p \<Longrightarrow> ok (fst (grab p f))"
    and give_ok: "ok p \<Longrightarrow> ok (give p f)"
    and grab_grants: "ok p \<Longrightarrow> snd (grab p f) \<longleftrightarrow> held p < cap p f"
    and grab_held: "ok p \<Longrightarrow> held (fst (grab p f)) = (if snd (grab p f) then held p + 1 else held p)"
    and give_held: "ok p \<Longrightarrow> held (give p f) = (if 0 < held p then held p - 1 else held p)"
    and cap_maxh: "ok p \<Longrightarrow> cap p f \<le> maxh p"
    and maxh_grab: "ok p \<Longrightarrow> maxh (fst (grab p f)) = maxh p"
    and maxh_give: "ok p \<Longrightarrow> maxh (give p f) = maxh p"
begin

lemma grab_within: "ok p \<Longrightarrow> held p \<le> maxh p \<Longrightarrow> held (fst (grab p f)) \<le> maxh (fst (grab p f))"
  using grab_grants [of p f] grab_held [of p f] cap_maxh [of p f] maxh_grab [of p f] by auto

lemma give_within: "ok p \<Longrightarrow> held p \<le> maxh p \<Longrightarrow> held (give p f) \<le> maxh (give p f)"
  by (simp add: give_held maxh_give)

lemma give_grab_frees:
  assumes "ok p" "snd (grab p f)" "0 \<le> held p"
  shows "held (give (fst (grab p f)) f') = held p"
  using assms grab_ok [of p f] by (simp add: give_held grab_held)

end

definition lm_ok :: "limiter \<Rightarrow> bool" where
  "lm_ok l \<longleftrightarrow> 0 < lm_Ceiling l"

definition lm_take :: "limiter \<Rightarrow> int \<Rightarrow> limiter \<times> bool" where
  "lm_take l f = (case acquire_turn l False f of (l', t) \<Rightarrow> (l', t = Took))"

definition lm_give :: "limiter \<Rightarrow> int \<Rightarrow> limiter" where
  "lm_give l f = fst (release l f f)"

lemma release_fields [simp]:
  "lm_Ceiling (fst (release l f g)) = lm_Ceiling l"
  "lm_BytesPerSlot (fst (release l f g)) = lm_BytesPerSlot l"
  "lm_inFlight (fst (release l f g)) = (if 0 < lm_inFlight l then lm_inFlight l - 1 else lm_inFlight l)"
  by (simp_all add: release_def Let_def split_beta)

lemma acquire_turn_fields [simp]:
  "lm_Ceiling (fst (acquire_turn l d f)) = lm_Ceiling l"
  "lm_BytesPerSlot (fst (acquire_turn l d f)) = lm_BytesPerSlot l"
  "lm_inFlight (fst (acquire_turn l d f)) =
     (if snd (acquire_turn l d f) = Took then lm_inFlight l + 1 else lm_inFlight l)"
  by (simp_all add: acquire_turn_def split_beta)

lemma acquire_turn_outcome:
  "snd (acquire_turn l d f) = (if d then GaveUp else if lm_inFlight l < slots l f then Took else Parked)"
  by (simp add: acquire_turn_def split_beta)

interpretation lm: slot_pool lm_inFlight lm_take lm_give slots lm_Ceiling lm_ok
proof
  fix p f
  have oc: "snd (acquire_turn p False f) = Took \<longleftrightarrow> lm_inFlight p < slots p f"
    by (simp add: acquire_turn_outcome)
  show "lm_ok p \<Longrightarrow> snd (lm_take p f) \<longleftrightarrow> lm_inFlight p < slots p f"
    and "lm_ok p \<Longrightarrow> lm_inFlight (fst (lm_take p f)) = (if snd (lm_take p f) then lm_inFlight p + 1 else lm_inFlight p)"
    using oc by (simp_all add: lm_take_def split_beta)
qed (simp_all add: lm_ok_def lm_take_def lm_give_def split_beta slots_le)

section \<open>Threads\<close>

text \<open>
  A call of \<open>Acquire\<close> by thread \<open>i\<close>: \<open>Trying\<close> before a turn, \<open>Waiting\<close> in \<open>Wait\<close>, \<open>Holding\<close> with
  the release function in hand. When its context is cancelled, the \<open>AfterFunc\<close> owes one broadcast.
  The probe readings come from the set \<open>F\<close>. \<open>Wait\<close> parks and unlocks at once, so each turn and each
  \<open>release\<close> is one step; \<open>Signal\<close> wakes some parked thread if there is one.
\<close>

datatype phase = Outside | Trying | Waiting | Holding

record lsys =
  ls_lim :: limiter
  ls_ph :: "nat \<Rightarrow> phase"
  ls_done :: "nat set"
  ls_owed :: nat

definition wake_all :: "(nat \<Rightarrow> phase) \<Rightarrow> nat \<Rightarrow> phase" where
  "wake_all ph j = (if ph j = Waiting then Trying else ph j)"

inductive lstep :: "int set \<Rightarrow> lsys \<Rightarrow> lsys \<Rightarrow> bool"
  for F where
  call: "ls_ph s i = Outside \<Longrightarrow>
     lstep F s (s\<lparr>ls_ph := (ls_ph s)(i := Trying), ls_done := ls_done s - {i}\<rparr>)"
| took: "ls_ph s i = Trying \<Longrightarrow> f \<in> F \<Longrightarrow> acquire_turn (ls_lim s) (i \<in> ls_done s) f = (l', Took) \<Longrightarrow>
     lstep F s (s\<lparr>ls_lim := l', ls_ph := (ls_ph s)(i := Holding)\<rparr>)"
| parks: "ls_ph s i = Trying \<Longrightarrow> f \<in> F \<Longrightarrow> acquire_turn (ls_lim s) (i \<in> ls_done s) f = (l', Parked) \<Longrightarrow>
     lstep F s (s\<lparr>ls_lim := l', ls_ph := (ls_ph s)(i := Waiting)\<rparr>)"
| gaveup: "ls_ph s i = Trying \<Longrightarrow> f \<in> F \<Longrightarrow> acquire_turn (ls_lim s) (i \<in> ls_done s) f = (l', GaveUp) \<Longrightarrow>
     lstep F s (s\<lparr>ls_lim := l', ls_ph := (ls_ph s)(i := Outside)\<rparr>)"
| release_all: "ls_ph s i = Holding \<Longrightarrow> f \<in> F \<Longrightarrow> g \<in> F \<Longrightarrow> release (ls_lim s) f g = (l', Broadcast) \<Longrightarrow>
     lstep F s (s\<lparr>ls_lim := l', ls_ph := wake_all ((ls_ph s)(i := Outside))\<rparr>)"
| release_one: "ls_ph s i = Holding \<Longrightarrow> f \<in> F \<Longrightarrow> g \<in> F \<Longrightarrow> release (ls_lim s) f g = (l', Signal) \<Longrightarrow>
     ls_ph s j = Waiting \<Longrightarrow>
     lstep F s (s\<lparr>ls_lim := l', ls_ph := (ls_ph s)(i := Outside, j := Trying)\<rparr>)"
| release_none: "ls_ph s i = Holding \<Longrightarrow> f \<in> F \<Longrightarrow> g \<in> F \<Longrightarrow> release (ls_lim s) f g = (l', Signal) \<Longrightarrow>
     (\<forall>j. ls_ph s j \<noteq> Waiting) \<Longrightarrow>
     lstep F s (s\<lparr>ls_lim := l', ls_ph := (ls_ph s)(i := Outside)\<rparr>)"
| cancel: "ls_ph s i \<noteq> Outside \<Longrightarrow> i \<notin> ls_done s \<Longrightarrow>
     lstep F s (s\<lparr>ls_done := insert i (ls_done s), ls_owed := ls_owed s + 1\<rparr>)"
| after_func: "0 < ls_owed s \<Longrightarrow>
     lstep F s (s\<lparr>ls_ph := wake_all (ls_ph s), ls_owed := ls_owed s - 1\<rparr>)"

inductive lreach :: "int set \<Rightarrow> lsys \<Rightarrow> lsys \<Rightarrow> bool"
  for F where
  here: "lreach F s s"
| further: "lreach F s t \<Longrightarrow> lstep F t u \<Longrightarrow> lreach F s u"

definition lstart :: "limiter \<Rightarrow> lsys" where
  "lstart l = \<lparr>ls_lim = l, ls_ph = (\<lambda>_. Outside), ls_done = {}, ls_owed = 0\<rparr>"

definition in_phase :: "phase \<Rightarrow> lsys \<Rightarrow> nat set" where
  "in_phase p s = {i. ls_ph s i = p}"

text \<open>The count is the number of holders and stays within the ceiling.\<close>

definition lsys_inv :: "limiter \<Rightarrow> lsys \<Rightarrow> bool" where
  "lsys_inv l0 s \<longleftrightarrow>
     lm_Ceiling (ls_lim s) = lm_Ceiling l0 \<and> lm_BytesPerSlot (ls_lim s) = lm_BytesPerSlot l0 \<and>
     finite {i. ls_ph s i \<noteq> Outside} \<and>
     lm_inFlight (ls_lim s) = int (card (in_phase Holding s)) \<and>
     lm_inFlight (ls_lim s) \<le> lm_Ceiling l0"

lemma fin_phase: "finite {i. ls_ph s i \<noteq> Outside} \<Longrightarrow> p \<noteq> Outside \<Longrightarrow> finite (in_phase p s)"
  unfolding in_phase_def by (erule rev_finite_subset) auto

lemma in_phase_upd:
  "in_phase p (s\<lparr>ls_lim := l, ls_ph := (ls_ph s)(i := q)\<rparr>) = (if p = q then insert i (in_phase p s) else in_phase p s - {i})"
  "in_phase p (s\<lparr>ls_ph := (ls_ph s)(i := q), ls_done := d\<rparr>) = (if p = q then insert i (in_phase p s) else in_phase p s - {i})"
  by (auto simp: in_phase_def)

lemma active_upd: "finite {i. ph i \<noteq> Outside} \<Longrightarrow> finite {i. (ph(j := q)) i \<noteq> Outside}"
  by (rule finite_subset [of _ "insert j {i. ph i \<noteq> Outside}"]) auto

lemma active_wake: "{i. wake_all ph i \<noteq> Outside} = {i. ph i \<noteq> Outside}"
  by (auto simp: wake_all_def)

lemma holding_wake: "{i. wake_all ph i = Holding} = {i. ph i = Holding}"
  by (auto simp: wake_all_def)


lemma turn_D:
  assumes "acquire_turn l d f = (l', r)"
  shows "lm_Ceiling l' = lm_Ceiling l" "lm_BytesPerSlot l' = lm_BytesPerSlot l"
    "lm_inFlight l' = (if r = Took then lm_inFlight l + 1 else lm_inFlight l)"
    "r = (if d then GaveUp else if lm_inFlight l < slots l f then Took else Parked)"
  using acquire_turn_fields [of l d f] acquire_turn_outcome [of l d f] assms by simp_all

lemma release_D:
  assumes "release l f g = (l', w)"
  shows "lm_Ceiling l' = lm_Ceiling l" "lm_BytesPerSlot l' = lm_BytesPerSlot l"
    "lm_inFlight l' = (if 0 < lm_inFlight l then lm_inFlight l - 1 else lm_inFlight l)"
  using release_fields [of l f g] assms by simp_all

lemma holders_pos: "lsys_inv l0 s \<Longrightarrow> ls_ph s i = Holding \<Longrightarrow> 0 < lm_inFlight (ls_lim s)"
  using fin_phase [of s Holding] card_gt_0_iff [of "in_phase Holding s"]
  by (auto simp: lsys_inv_def in_phase_def)

lemma card_holders_del:
  "lsys_inv l0 s \<Longrightarrow> ls_ph s i = Holding \<Longrightarrow>
   int (card (in_phase Holding s - {i})) = int (card (in_phase Holding s)) - 1"
  using fin_phase [of s Holding] holders_pos [of l0 s i]
  by (auto simp: lsys_inv_def in_phase_def card_Diff_singleton_if)

lemma lsys_inv_release:
  assumes inv: "lsys_inv l0 s" and i: "ls_ph s i = Holding" and r: "release (ls_lim s) f g = (l', w)"
    and ph: "finite {j. ph j \<noteq> Outside}" "{j. ph j = Holding} = in_phase Holding s - {i}"
  shows "lsys_inv l0 (s\<lparr>ls_lim := l', ls_ph := ph\<rparr>)"
  using inv release_D [OF r] holders_pos [OF inv i] card_holders_del [OF inv i] ph
  by (simp add: lsys_inv_def in_phase_def)

lemma lsys_inv_step:
  assumes "lstep F s s'" "lsys_inv l0 s" "0 < lm_Ceiling l0"
  shows "lsys_inv l0 s'"
  using assms
proof (induction rule: lstep.induct)
  case (call s i)
  then have "in_phase Holding s - {i} = in_phase Holding s" by (auto simp: in_phase_def)
  with call show ?case
    using in_phase_upd(2) [where s = s and p = Holding and i = i and q = Trying]
    by (simp add: lsys_inv_def active_upd del: fun_upd_apply)
next
  case (took s i f l')
  note t = turn_D [OF took.hyps(3)]
  have "lm_inFlight (ls_lim s) < slots (ls_lim s) f" using t(4) by (simp split: if_splits)
  moreover have "slots (ls_lim s) f \<le> lm_Ceiling l0"
    using took.prems slots_le [of "ls_lim s" f] by (simp add: lsys_inv_def)
  moreover have "i \<notin> in_phase Holding s" using took.hyps(1) by (simp add: in_phase_def)
  ultimately show ?case
    using took.prems t(1-3) in_phase_upd(1) [where s = s and p = Holding and l = l' and i = i and q = Holding] fin_phase [of s Holding]
    by (simp add: lsys_inv_def active_upd del: fun_upd_apply)
next
  case (parks s i f l')
  then have "in_phase Holding s - {i} = in_phase Holding s" by (auto simp: in_phase_def)
  with parks turn_D [OF parks.hyps(3)] show ?case
    using in_phase_upd(1) [where s = s and p = Holding and l = l' and i = i and q = Waiting]
    by (simp add: lsys_inv_def active_upd del: fun_upd_apply)
next
  case (gaveup s i f l')
  then have "in_phase Holding s - {i} = in_phase Holding s" by (auto simp: in_phase_def)
  with gaveup turn_D [OF gaveup.hyps(3)] show ?case
    using in_phase_upd(1) [where s = s and p = Holding and l = l' and i = i and q = Outside]
    by (simp add: lsys_inv_def active_upd del: fun_upd_apply)
next
  case (release_all s i f g l')
  show ?case
    using release_all active_upd [of "ls_ph s" i Outside]
    by (intro lsys_inv_release [where i = i and w = Broadcast and f = f and g = g])
      (auto simp: lsys_inv_def active_wake holding_wake in_phase_def)
next
  case (release_one s i f g l' j)
  show ?case
    using release_one active_upd [of "(ls_ph s)(i := Outside)" j Trying] active_upd [of "ls_ph s" i Outside]
    by (intro lsys_inv_release [where i = i and w = Signal and f = f and g = g])
      (auto simp: lsys_inv_def in_phase_def)
next
  case (release_none s i f g l')
  show ?case
    using release_none active_upd [of "ls_ph s" i Outside]
    by (intro lsys_inv_release [where i = i and w = Signal and f = f and g = g])
      (auto simp: lsys_inv_def in_phase_def)
next
  case (cancel s i)
  then show ?case by (simp add: lsys_inv_def in_phase_def)
next
  case (after_func s)
  then show ?case by (simp add: lsys_inv_def in_phase_def active_wake holding_wake)
qed

lemma lsys_inv_start: "0 < lm_Ceiling l \<Longrightarrow> lm_inFlight l = 0 \<Longrightarrow> lsys_inv l (lstart l)"
  by (simp add: lsys_inv_def lstart_def in_phase_def)

lemma lsys_inv_reach:
  "lreach F s s' \<Longrightarrow> lsys_inv l0 s \<Longrightarrow> 0 < lm_Ceiling l0 \<Longrightarrow> lsys_inv l0 s'"
  by (induction rule: lreach.induct) (auto intro: lsys_inv_step)

text \<open>
  With an unchanging probe no wakeup is lost: while somebody is parked, a broadcast is owed or the
  holders and the threads on their way to a live turn make up the slot count.
\<close>

definition live :: "lsys \<Rightarrow> nat set" where
  "live s = {i. ls_ph s i = Trying \<and> i \<notin> ls_done s}"

definition steady_inv :: "int \<Rightarrow> lsys \<Rightarrow> bool" where
  "steady_inv f s \<longleftrightarrow>
     (0 < ls_owed s \<or> (\<forall>j. ls_ph s j \<noteq> Waiting) \<or>
      slots (ls_lim s) f \<le> lm_inFlight (ls_lim s) + int (card (live s))) \<and>
     (0 < ls_owed s \<or> (\<forall>j. ls_ph s j = Waiting \<longrightarrow> j \<notin> ls_done s))"

lemma fin_live: "lsys_inv l0 s \<Longrightarrow> finite (live s)"
  unfolding live_def lsys_inv_def by (elim conjE, erule rev_finite_subset) auto

lemma steady_step:
  assumes "lstep {f} s s'" "lsys_inv l0 s" "steady_inv f s"
  shows "steady_inv f s'"
  using assms
proof (induction rule: lstep.induct)
  case (call s i)
  let ?s = "s\<lparr>ls_ph := (ls_ph s)(i := Trying), ls_done := ls_done s - {i}\<rparr>"
  have "live ?s = insert i (live s)" by (auto simp: live_def)
  then have "card (live s) \<le> card (live ?s)"
    using fin_live [OF call.prems(1)] by (simp add: card_insert_if)
  with call.prems(2) show ?case by (auto simp: steady_inv_def)
next
  case (took s i g l')
  note t = turn_D [OF took.hyps(3)]
  let ?s = "s\<lparr>ls_lim := l', ls_ph := (ls_ph s)(i := Holding)\<rparr>"
  have i: "i \<in> live s" using took.hyps(1) t(4) by (simp add: live_def split: if_splits)
  have "live ?s = live s - {i}" by (auto simp: live_def)
  then have c: "card (live s) = Suc (card (live ?s))"
    using i fin_live [OF took.prems(1)] by (simp only: card_Suc_Diff1)
  have "slots l' f = slots (ls_lim s) f" using t by (intro slots_cong)
  with took.prems(2) t(3) c show ?case by (auto simp: steady_inv_def)
next
  case (parks s i g l')
  note t = turn_D [OF parks.hyps(3)]
  have "slots l' f = slots (ls_lim s) f" using t by (intro slots_cong)
  with parks t(3,4) show ?case by (auto simp: steady_inv_def split: if_splits)
next
  case (gaveup s i g l')
  note t = turn_D [OF gaveup.hyps(3)]
  let ?s = "s\<lparr>ls_lim := l', ls_ph := (ls_ph s)(i := Outside)\<rparr>"
  have "i \<in> ls_done s" using t(4) by (simp split: if_splits)
  then have "live ?s = live s" by (auto simp: live_def)
  moreover have "slots l' f = slots (ls_lim s) f" using t by (intro slots_cong)
  ultimately show ?case using gaveup.prems(2) t(3) by (auto simp: steady_inv_def)
next
  case (release_all s i g h l')
  then show ?case by (auto simp: steady_inv_def wake_all_def)
next
  case (release_one s i g h l' j)
  note r = release_D [OF release_one.hyps(4)]
  let ?s = "s\<lparr>ls_lim := l', ls_ph := (ls_ph s)(i := Outside, j := Trying)\<rparr>"
  have k: "slots l' f = slots (ls_lim s) f" using r by (intro slots_cong)
  show ?case
  proof (cases "0 < ls_owed s")
    case False
    with release_one have j: "j \<notin> ls_done s" by (auto simp: steady_inv_def)
    have "i \<noteq> j" using release_one.hyps by auto
    with j release_one.hyps have "live ?s = insert j (live s)" "j \<notin> live s" by (auto simp: live_def)
    then have "card (live ?s) = Suc (card (live s))" using fin_live [OF release_one.prems(1)] by simp
    with False release_one k r(3) holders_pos [OF release_one.prems(1) release_one.hyps(1)] show ?thesis
      by (auto simp: steady_inv_def)
  qed (simp add: steady_inv_def)
next
  case (release_none s i g h l')
  then show ?case by (auto simp: steady_inv_def)
next
  case (cancel s i)
  then show ?case by (simp add: steady_inv_def)
next
  case (after_func s)
  then show ?case by (auto simp: steady_inv_def wake_all_def)
qed

lemma steady_reach:
  assumes "lreach {f} s s'" "lsys_inv l0 s" "0 < lm_Ceiling l0" "steady_inv f s"
  shows "steady_inv f s'"
  using assms
  by (induction rule: lreach.induct) (auto intro: steady_step lsys_inv_reach)

lemma steady_start: "steady_inv f (lstart l)"
  by (simp add: steady_inv_def lstart_def)

section \<open>Several GPUs\<close>

record gpuSlot =
  gs_inFlight :: int
  gs_lastEff :: int
  gs_haveLast :: bool

text \<open>The probe closures of the struct are the argument \<open>free\<close>: \<open>None\<close> for a nil entry.\<close>

record gpuLimiter =
  gl_ceiling :: int
  gl_bytesPerSlot :: int
  gl_gpuCount :: nat
  gl_slots :: "gpuSlot list"
  gl_rr :: "64 word"
  gl_ceilingPerGPU :: int

definition NewVRAMLimiter :: "int \<Rightarrow> int \<Rightarrow> int \<Rightarrow> gpuLimiter" where
  "NewVRAMLimiter maxc bytesPerSlot gpuCount =
     (if maxc \<le> 0 \<or> gpuCount < 1 then
        \<lparr>gl_ceiling = 0, gl_bytesPerSlot = 0, gl_gpuCount = 0, gl_slots = [], gl_rr = 0, gl_ceilingPerGPU = 0\<rparr>
      else
        \<lparr>gl_ceiling = maxc,
         gl_bytesPerSlot = (if bytesPerSlot \<le> 0 then DefaultBytesPerSlot else bytesPerSlot),
         gl_gpuCount = nat gpuCount,
         gl_slots = replicate (nat gpuCount) \<lparr>gs_inFlight = 0, gs_lastEff = 0, gs_haveLast = False\<rparr>,
         gl_rr = 0,
         gl_ceilingPerGPU = \<lceil>real_of_int maxc / real_of_int gpuCount\<rceil>\<rparr>)"

definition perGPU :: "gpuLimiter \<Rightarrow> int option \<Rightarrow> int" where
  "perGPU g free =
     (if gl_ceiling g \<le> 0 then 0
      else case free of
        None \<Rightarrow> gl_ceilingPerGPU g
      | Some f \<Rightarrow>
          if 0 < f \<and> 0 < gl_bytesPerSlot g then
            let s = go_div f (gl_bytesPerSlot g);
                s = (if s < 1 then 1 else s)
            in if gl_ceilingPerGPU g < s then gl_ceilingPerGPU g else s
          else gl_ceilingPerGPU g)"

definition effectivePerGPULocked :: "gpuLimiter \<Rightarrow> nat \<Rightarrow> int option \<Rightarrow> gpuLimiter \<times> int" where
  "effectivePerGPULocked g i free =
     (if gl_ceiling g \<le> 0 then (g, 0)
      else
        let p = perGPU g free; s = gl_slots g ! i in
        (if \<not> gs_haveLast s \<or> gs_lastEff s \<noteq> p
         then g\<lparr>gl_slots := (gl_slots g)[i := s\<lparr>gs_lastEff := p, gs_haveLast := True\<rparr>]\<rparr> else g, p))"

definition EffectivePerGPU :: "gpuLimiter option \<Rightarrow> int \<Rightarrow> int option \<Rightarrow> gpuLimiter option \<times> int" where
  "EffectivePerGPU g i free =
     (case g of
        None \<Rightarrow> (None, 0)
      | Some h \<Rightarrow> if i < 0 \<or> int (gl_gpuCount h) \<le> i then (Some h, 0)
          else (case effectivePerGPULocked h (nat i) free of (h', p) \<Rightarrow> (Some h', p)))"

text \<open>
  One turn of the loop that \<open>tryAcquire\<close> and \<open>acquireSingle\<close> share, under the lock of GPU \<open>i\<close>; the
  two differ in what the caller does with \<open>GaveUp\<close>.
\<close>

definition gpu_turn :: "gpuLimiter \<Rightarrow> nat \<Rightarrow> bool \<Rightarrow> int option \<Rightarrow> gpuLimiter \<times> turn" where
  "gpu_turn g i ctx_done free =
     (if ctx_done then (g, GaveUp)
      else (case effectivePerGPULocked g i free of (g', eff) \<Rightarrow>
        let s = gl_slots g' ! i in
        if gs_inFlight s < eff
        then (g'\<lparr>gl_slots := (gl_slots g')[i := s\<lparr>gs_inFlight := gs_inFlight s + 1\<rparr>]\<rparr>, Took)
        else (g', Parked)))"

text \<open>
  \<open>AcquireGPU\<close> as a caller's program: where it stands is \<open>Attempt k\<close> (the \<open>k\<close>-th \<open>tryAcquire\<close> of the
  ring), \<open>Last\<close> (the final \<open>acquireSingle\<close>), or an outcome. A parked caller stays where it is until it
  is woken; only a done context moves it on.
\<close>

datatype gcall = Attempt nat | LastTry | Got nat | Failed

definition AcquireGPU_start :: "gpuLimiter \<Rightarrow> gpuLimiter \<times> nat \<times> gcall" where
  "AcquireGPU_start g =
     (if gl_gpuCount g = 1 then (g, 0, LastTry)
      else (g\<lparr>gl_rr := gl_rr g + 1\<rparr>, unat (gl_rr g + 1 - 1), Attempt 0))"

definition gcall_gpu :: "gpuLimiter \<Rightarrow> nat \<Rightarrow> gcall \<Rightarrow> nat" where
  "gcall_gpu g start c = (case c of Attempt k \<Rightarrow> (start + k) mod gl_gpuCount g | _ \<Rightarrow> start mod gl_gpuCount g)"

definition AcquireGPU_turn :: "gpuLimiter \<Rightarrow> nat \<Rightarrow> gcall \<Rightarrow> bool \<Rightarrow> int option \<Rightarrow> gpuLimiter \<times> gcall" where
  "AcquireGPU_turn g start c ctx_done free =
     (let gpu = gcall_gpu g start c in
      case c of
        Got i \<Rightarrow> (g, Got i)
      | Failed \<Rightarrow> (g, Failed)
      | Attempt k \<Rightarrow> (case gpu_turn g gpu ctx_done free of
            (g', Took) \<Rightarrow> (g', Got gpu)
          | (g', Parked) \<Rightarrow> (g', Attempt k)
          | (g', GaveUp) \<Rightarrow> (g', if Suc k < gl_gpuCount g then Attempt (Suc k) else LastTry))
      | LastTry \<Rightarrow> (case gpu_turn g gpu ctx_done free of
            (g', Took) \<Rightarrow> (g', Got gpu)
          | (g', Parked) \<Rightarrow> (g', LastTry)
          | (g', GaveUp) \<Rightarrow> (g', Failed)))"

definition releaseGPU :: "gpuLimiter \<Rightarrow> nat \<Rightarrow> int option \<Rightarrow> int option \<Rightarrow> gpuLimiter \<times> wake" where
  "releaseGPU g i free1 free2 =
     (case effectivePerGPULocked g i free1 of (g1, prevEff) \<Rightarrow>
        let s = gl_slots g1 ! i;
            g2 = (if 0 < gs_inFlight s
                  then g1\<lparr>gl_slots := (gl_slots g1)[i := s\<lparr>gs_inFlight := gs_inFlight s - 1\<rparr>]\<rparr> else g1)
        in (case effectivePerGPULocked g2 i free2 of (g3, newEff) \<Rightarrow>
              (g3, if prevEff < newEff then Broadcast else Signal)))"

definition InFlightByGPU :: "gpuLimiter option \<Rightarrow> int list option" where
  "InFlightByGPU g =
     (case g of
        None \<Rightarrow> None
      | Some h \<Rightarrow> if gl_ceiling h \<le> 0 \<or> gl_slots h = [] then None else Some (map gs_inFlight (gl_slots h)))"

text \<open>Every GPU keeps within its share, whatever is called in whatever order.\<close>

definition gpu_inv :: "gpuLimiter \<Rightarrow> bool" where
  "gpu_inv g \<longleftrightarrow> 0 < gl_ceiling g \<and> 1 \<le> gl_ceilingPerGPU g \<and> length (gl_slots g) = gl_gpuCount g \<and>
     (\<forall>s\<in>set (gl_slots g). 0 \<le> gs_inFlight s \<and> gs_inFlight s \<le> gl_ceilingPerGPU g)"

lemma perGPU_bounds:
  assumes "0 < gl_ceiling g" "1 \<le> gl_ceilingPerGPU g"
  shows "1 \<le> perGPU g free" "perGPU g free \<le> gl_ceilingPerGPU g"
  using assms by (auto simp: perGPU_def Let_def split: option.splits)

lemma eff_GPU_fst:
  "fst (effectivePerGPULocked g i free) =
     (if 0 < gl_ceiling g \<and> (\<not> gs_haveLast (gl_slots g ! i) \<or> gs_lastEff (gl_slots g ! i) \<noteq> perGPU g free)
      then g\<lparr>gl_slots := (gl_slots g)[i := (gl_slots g ! i)\<lparr>gs_lastEff := perGPU g free, gs_haveLast := True\<rparr>]\<rparr> else g)"
  by (simp add: effectivePerGPULocked_def Let_def)

lemma eff_GPU_snd: "snd (effectivePerGPULocked g i free) = perGPU g free"
  by (simp add: effectivePerGPULocked_def perGPU_def Let_def)

lemma gpu_inv_upd:
  assumes "gpu_inv g" "0 \<le> gs_inFlight s" "gs_inFlight s \<le> gl_ceilingPerGPU g"
  shows "gpu_inv (g\<lparr>gl_slots := (gl_slots g)[i := s]\<rparr>)"
  using assms set_update_subset_insert [of "gl_slots g" i s] by (auto simp: gpu_inv_def)

lemma gpu_inv_nth: "gpu_inv g \<Longrightarrow> i < gl_gpuCount g \<Longrightarrow>
    0 \<le> gs_inFlight (gl_slots g ! i) \<and> gs_inFlight (gl_slots g ! i) \<le> gl_ceilingPerGPU g"
  by (simp add: gpu_inv_def)

lemma gpu_inv_eff [inv_intros]:
  assumes "gpu_inv g" "i < gl_gpuCount g"
  shows "gpu_inv (fst (effectivePerGPULocked g i free))"
  using assms gpu_inv_nth [OF assms] by (simp add: eff_GPU_fst gpu_inv_upd)

lemma eff_GPU_same [simp]:
  "gl_ceiling (fst (effectivePerGPULocked g i free)) = gl_ceiling g"
  "gl_bytesPerSlot (fst (effectivePerGPULocked g i free)) = gl_bytesPerSlot g"
  "gl_ceilingPerGPU (fst (effectivePerGPULocked g i free)) = gl_ceilingPerGPU g"
  "gl_gpuCount (fst (effectivePerGPULocked g i free)) = gl_gpuCount g"
  "map gs_inFlight (gl_slots (fst (effectivePerGPULocked g i free))) = map gs_inFlight (gl_slots g)"
proof -
  show "map gs_inFlight (gl_slots (fst (effectivePerGPULocked g i free))) = map gs_inFlight (gl_slots g)"
    by (cases "i < length (gl_slots g)")
      (auto simp: eff_GPU_fst map_update list_update_same_conv list_update_beyond)
qed (simp_all add: eff_GPU_fst)

lemma gpu_inv_turn [inv_intros]:
  assumes "gpu_inv g" "i < gl_gpuCount g"
  shows "gpu_inv (fst (gpu_turn g i d free)) \<and> gl_gpuCount (fst (gpu_turn g i d free)) = gl_gpuCount g
    \<and> gl_ceilingPerGPU (fst (gpu_turn g i d free)) = gl_ceilingPerGPU g"
proof -
  let ?g = "fst (effectivePerGPULocked g i free)"
  have "gpu_inv ?g" using gpu_inv_eff [OF assms] .
  moreover have "perGPU g free \<le> gl_ceilingPerGPU g"
    using assms(1) perGPU_bounds(2) [of g free] by (simp add: gpu_inv_def)
  ultimately show ?thesis
    using assms gpu_inv_nth [of ?g i]
    by (auto simp: gpu_turn_def split_beta Let_def eff_GPU_snd intro!: gpu_inv_upd)
qed

lemma gpu_inv_release [inv_intros]:
  assumes "gpu_inv g" "i < gl_gpuCount g"
  shows "gpu_inv (fst (releaseGPU g i f1 f2)) \<and> gl_gpuCount (fst (releaseGPU g i f1 f2)) = gl_gpuCount g
    \<and> gl_ceilingPerGPU (fst (releaseGPU g i f1 f2)) = gl_ceilingPerGPU g"
proof -
  let ?g = "fst (effectivePerGPULocked g i f1)"
  have "gpu_inv ?g" using gpu_inv_eff [OF assms] .
  then show ?thesis
    using assms gpu_inv_nth [of ?g i]
    by (auto simp: releaseGPU_def split_beta Let_def intro!: gpu_inv_eff gpu_inv_upd)
qed

datatype gop = GTurn nat bool "int option" | GRelease nat "int option" "int option"

fun gop_step :: "gpuLimiter \<Rightarrow> gop \<Rightarrow> gpuLimiter" where
  "gop_step g (GTurn i d f) = (if i < gl_gpuCount g then fst (gpu_turn g i d f) else g)"
| "gop_step g (GRelease i f f') = (if i < gl_gpuCount g then fst (releaseGPU g i f f') else g)"

lemma gpu_run_inv:
  "gpu_inv g \<Longrightarrow> gpu_inv (foldl gop_step g ops) \<and> gl_gpuCount (foldl gop_step g ops) = gl_gpuCount g
     \<and> gl_ceilingPerGPU (foldl gop_step g ops) = gl_ceilingPerGPU g"
proof (induction ops rule: rev_induct)
  case (snoc a ops)
  then show ?case using gpu_inv_turn gpu_inv_release by (cases a) auto
qed simp

lemma sum_list_map_le: "\<forall>x\<in>set xs. f x \<le> m \<Longrightarrow> sum_list (map f xs) \<le> int (length xs) * m"
  by (induction xs) (auto simp: algebra_simps)

lemma share_bounds:
  assumes "0 < c" "1 \<le> n"
  shows "1 \<le> \<lceil>real_of_int c / real_of_int n\<rceil>" "n * \<lceil>real_of_int c / real_of_int n\<rceil> < c + n"
proof -
  let ?k = "\<lceil>real_of_int c / real_of_int n\<rceil>"
  have "0 < real_of_int c / real_of_int n" using assms by simp
  then show "1 \<le> ?k" by linarith
  have "real_of_int ?k < real_of_int c / real_of_int n + 1" by linarith
  then have "real_of_int n * real_of_int ?k < real_of_int n * (real_of_int c / real_of_int n + 1)"
    using assms by simp
  also have "\<dots> = real_of_int c + real_of_int n" using assms by (simp add: field_simps)
  finally have "real_of_int (n * ?k) < real_of_int (c + n)" by simp
  then show "n * ?k < c + n" by linarith
qed

lemma share_pos: "0 < c \<Longrightarrow> 1 \<le> n \<Longrightarrow> - 1 < real_of_int c / real_of_int n"
  using divide_pos_pos [of "real_of_int c" "real_of_int n"] by linarith

lemma NewVRAM_inv: "0 < c \<Longrightarrow> 1 \<le> n \<Longrightarrow> gpu_inv (NewVRAMLimiter c b n)"
  using share_bounds(1) [of c n] by (simp add: gpu_inv_def NewVRAMLimiter_def share_pos)

section \<open>A run\<close>

text \<open>
  Four threads on a limiter of ceiling 4 with one byte per slot, nobody cancelled; the probe reads 1
  while thread 0 takes the slot and the others park, then 4.
\<close>

definition sys :: "limiter \<Rightarrow> (nat \<Rightarrow> phase) \<Rightarrow> lsys" where
  "sys l ph = \<lparr>ls_lim = l, ls_ph = ph, ls_done = {}, ls_owed = 0\<rparr>"

definition lim4 :: "int \<Rightarrow> int \<Rightarrow> bool \<Rightarrow> limiter" where
  "lim4 n e h = \<lparr>lm_Ceiling = 4, lm_BytesPerSlot = 1, lm_inFlight = n, lm_lastEff = e, lm_haveLast = h\<rparr>"

abbreviation idle :: "nat \<Rightarrow> phase" where "idle \<equiv> \<lambda>_. Outside"

lemma sys_sel [simp]:
  "ls_lim (sys l ph) = l" "ls_ph (sys l ph) = ph" "ls_done (sys l ph) = {}" "ls_owed (sys l ph) = 0"
  by (simp_all add: sys_def)

lemma lim4_start: "lstart (NewLimiter 4 1) = sys (lim4 0 0 False) idle"
  by (simp add: lstart_def NewLimiter_def sys_def lim4_def)

lemma sys_call: "lreach F s (sys l ph) \<Longrightarrow> ph i = Outside \<Longrightarrow> lreach F s (sys l (ph(i := Trying)))"
  using lstep.call [of "sys l ph" i F] by (auto simp: sys_def intro: lreach.further)

lemma sys_took:
  "lreach F s (sys l ph) \<Longrightarrow> ph i = Trying \<Longrightarrow> f \<in> F \<Longrightarrow> acquire_turn l False f = (l', Took) \<Longrightarrow>
   lreach F s (sys l' (ph(i := Holding)))"
  using lstep.took [of "sys l ph" i f F l'] by (auto simp: sys_def intro: lreach.further)

lemma sys_parks:
  "lreach F s (sys l ph) \<Longrightarrow> ph i = Trying \<Longrightarrow> f \<in> F \<Longrightarrow> acquire_turn l False f = (l', Parked) \<Longrightarrow>
   lreach F s (sys l' (ph(i := Waiting)))"
  using lstep.parks [of "sys l ph" i f F l'] by (auto simp: sys_def intro: lreach.further)

lemma sys_release_one:
  "lreach F s (sys l ph) \<Longrightarrow> ph i = Holding \<Longrightarrow> f \<in> F \<Longrightarrow> g \<in> F \<Longrightarrow> release l f g = (l', Signal) \<Longrightarrow> ph j = Waiting \<Longrightarrow>
   lreach F s (sys l' (ph(i := Outside, j := Trying)))"
  using lstep.release_one [of "sys l ph" i f F g l' j] by (auto simp: sys_def intro: lreach.further)

lemmas turn_eval = acquire_turn_def release_def effectiveLocked_def slots_def lim4_def

lemma demo_reach:
  assumes "1 \<in> F"
  shows "lreach F (lstart (NewLimiter 4 1)) (sys (lim4 1 1 True) (idle(0 := Holding)))"
    and "lreach F (lstart (NewLimiter 4 1)) (sys (lim4 1 1 True) (idle(0 := Holding, 1 := Waiting)))"
    and "lreach F (lstart (NewLimiter 4 1)) (sys (lim4 1 1 True) (idle(0 := Holding, 1 := Waiting, 2 := Waiting)))"
proof -
  have "lreach F (lstart (NewLimiter 4 1)) (sys (lim4 0 0 False) idle)"
    by (simp add: lim4_start lreach.here)
  then have "lreach F (lstart (NewLimiter 4 1)) (sys (lim4 0 0 False) (idle(0 := Trying)))"
    by (rule sys_call) simp
  from sys_took [OF this _ assms, of 0 "lim4 1 1 True"]
  show a: "lreach F (lstart (NewLimiter 4 1)) (sys (lim4 1 1 True) (idle(0 := Holding)))"
    by (simp add: turn_eval)
  have parked: "acquire_turn (lim4 1 1 True) False 1 = (lim4 1 1 True, Parked)"
    by (simp add: turn_eval)
  from sys_parks [OF sys_call [OF a, of 1] _ assms parked, of 1]
  show b: "lreach F (lstart (NewLimiter 4 1)) (sys (lim4 1 1 True) (idle(0 := Holding, 1 := Waiting)))"
    by simp
  from sys_parks [OF sys_call [OF b, of 2] _ assms parked, of 2]
  show "lreach F (lstart (NewLimiter 4 1)) (sys (lim4 1 1 True) (idle(0 := Holding, 1 := Waiting, 2 := Waiting)))"
    by simp
qed

section \<open>Properties\<close>

text \<open>
  C14: The limiter never lets more requests through than its ceiling. Whatever threads call, wait,
  are cancelled and release, and whatever the probe reports, the counter is the number of threads
  that hold a slot and at most the ceiling; a turn that takes a slot leaves at most the slot count of
  that moment in flight, and that count is between one and the ceiling.
\<close>

theorem limiter_bounded_by_ceiling:
  assumes "0 < c" "lreach F (lstart (NewLimiter c b)) s"
  shows "lm_inFlight (ls_lim s) = int (card {i. ls_ph s i = Holding})
    \<and> lm_inFlight (ls_lim s) \<le> c
    \<and> 1 \<le> slots (ls_lim s) f \<and> slots (ls_lim s) f \<le> c
    \<and> lm_inFlight (fst (acquire_turn (ls_lim s) d f)) \<le> max (lm_inFlight (ls_lim s)) (slots (ls_lim s) f)"
proof -
  have "lsys_inv (NewLimiter c b) s"
    using assms by (intro lsys_inv_reach [OF assms(2)] lsys_inv_start) (simp_all add: NewLimiter_def)
  with assms(1) have i: "lm_Ceiling (ls_lim s) = c" "lm_inFlight (ls_lim s) \<le> c"
      "lm_inFlight (ls_lim s) = int (card {i. ls_ph s i = Holding})"
    by (simp_all add: lsys_inv_def NewLimiter_def in_phase_def)
  with assms(1) slots_le [of "ls_lim s" f] slots_pos [of "ls_lim s" f] show ?thesis
    by (auto simp: acquire_turn_outcome split: if_splits)
qed

theorem limiter_bounded_by_ceiling_witness:
  "lm_inFlight (ls_lim (sys (lim4 1 1 True) (idle(0 := Holding)))) \<le> 4"
  using limiter_bounded_by_ceiling [OF _ demo_reach(1) [of "{1}"], of 0 False] by simp

text \<open>
  With a steady probe no waiter is forgotten. While the probe keeps reporting the same amount, in
  every reachable state in which no thread is running towards a turn and no cancellation broadcast is
  owed, a parked thread means that all slots are taken, by threads that will release and signal.
\<close>

theorem limiter_no_lost_wakeup_steady:
  assumes "0 < c" "lreach {f} (lstart (NewLimiter c b)) s"
    and "ls_owed s = 0" "\<forall>i. ls_ph s i \<noteq> Trying" "ls_ph s j = Waiting"
  shows "slots (ls_lim s) f \<le> lm_inFlight (ls_lim s) \<and> {i. ls_ph s i = Holding} \<noteq> {}"
proof -
  have l: "lsys_inv (NewLimiter c b) (lstart (NewLimiter c b))"
    using assms(1) by (intro lsys_inv_start) (simp_all add: NewLimiter_def)
  have i: "lsys_inv (NewLimiter c b) s"
    using assms(1) by (intro lsys_inv_reach [OF assms(2) l]) (simp add: NewLimiter_def)
  have st: "steady_inv f s"
    using assms(1) by (intro steady_reach [OF assms(2) l _ steady_start]) (simp add: NewLimiter_def)
  from assms(4) have "live s = {}" by (auto simp: live_def)
  then have le: "slots (ls_lim s) f \<le> lm_inFlight (ls_lim s)"
    using st assms(3,5) by (auto simp: steady_inv_def)
  have "1 \<le> slots (ls_lim s) f"
    using i assms(1) by (intro slots_pos) (simp add: lsys_inv_def NewLimiter_def)
  then have "0 < card (in_phase Holding s)" using le i by (simp add: lsys_inv_def)
  then have "{i. ls_ph s i = Holding} \<noteq> {}" by (auto simp: in_phase_def card_gt_0_iff)
  with le show ?thesis by simp
qed

theorem limiter_no_lost_wakeup_steady_witness:
  "slots (lim4 1 1 True) 1 \<le> 1"
proof -
  let ?s = "sys (lim4 1 1 True) (idle(0 := Holding, 1 := Waiting))"
  have "lreach {1} (lstart (NewLimiter 4 1)) ?s" by (rule demo_reach(2)) simp
  from limiter_no_lost_wakeup_steady [OF _ this, of 1] show ?thesis by (simp add: lim4_def)
qed

text \<open>
  Growing free memory does not wake the waiters. \<open>release\<close> compares two readings taken one right
  after the other, so growth between the parking and the release is not seen and one waiter alone is
  signalled. A state is reachable in which one request runs, three of four slots are free for the
  probe's reading, no thread is on its way, no broadcast is owed, and a thread is parked; nothing but
  that one request's release will wake it.
\<close>

theorem limiter_growth_leaves_waiter_parked:
  "\<exists>s. lreach {1, 4} (lstart (NewLimiter 4 1)) s \<and> ls_ph s 2 = Waiting
     \<and> lm_inFlight (ls_lim s) = 1 \<and> slots (ls_lim s) 4 = 4
     \<and> ls_owed s = 0 \<and> in_phase Trying s = {}"
proof -
  let ?ph = "idle(0 := Holding, 1 := Waiting, 2 := Waiting)"
  let ?ph' = "?ph(0 := Outside, 1 := Trying)"
  have "lreach {1, 4} (lstart (NewLimiter 4 1)) (sys (lim4 1 1 True) ?ph)" by (rule demo_reach(3)) simp
  then have "lreach {1, 4} (lstart (NewLimiter 4 1)) (sys (lim4 0 4 True) ?ph')"
    by (rule sys_release_one [where f = 4 and g = 4]) (simp_all add: turn_eval)
  then have "lreach {1, 4} (lstart (NewLimiter 4 1)) (sys (lim4 1 4 True) (?ph'(1 := Holding)))"
    by (rule sys_took [where f = 4]) (simp_all add: turn_eval)
  then show ?thesis
    by (rule_tac x = "sys (lim4 1 4 True) (?ph'(1 := Holding))" in exI)
      (auto simp: in_phase_def slots_def lim4_def)
qed

text \<open>
  Every GPU keeps to its share. Whatever turns and releases run, in whatever order and with
  whatever probe readings, each of the \<open>n\<close> GPUs has between zero and the rounded-up share of the
  ceiling in flight, so the total stays below the ceiling plus the number of GPUs; the total itself
  may pass the ceiling, as the witness shows.
\<close>

theorem gpu_shares_bounded:
  assumes "0 < c" "1 \<le> n"
  shows "(\<forall>s\<in>set (gl_slots (foldl gop_step (NewVRAMLimiter c b n) ops)).
            0 \<le> gs_inFlight s \<and> gs_inFlight s \<le> \<lceil>real_of_int c / real_of_int n\<rceil>)
    \<and> sum_list (map gs_inFlight (gl_slots (foldl gop_step (NewVRAMLimiter c b n) ops))) < c + n"
proof -
  let ?g = "foldl gop_step (NewVRAMLimiter c b n) ops" and ?k = "\<lceil>real_of_int c / real_of_int n\<rceil>"
  from gpu_run_inv [OF NewVRAM_inv [OF assms], where ops = ops and b1 = b]
  have g: "gpu_inv ?g" "gl_gpuCount ?g = nat n" "gl_ceilingPerGPU ?g = ?k"
    using assms by (simp_all add: NewVRAMLimiter_def)
  then have b: "\<forall>s\<in>set (gl_slots ?g). 0 \<le> gs_inFlight s \<and> gs_inFlight s \<le> ?k"
    by (simp add: gpu_inv_def)
  have "length (gl_slots ?g) = nat n" using g by (simp add: gpu_inv_def)
  with sum_list_map_le [of "gl_slots ?g" gs_inFlight ?k] b assms(2)
  have "sum_list (map gs_inFlight (gl_slots ?g)) \<le> n * ?k" by simp
  with b share_bounds(2) [OF assms] show ?thesis by simp
qed

theorem gpu_shares_bounded_witness:
  "3 < sum_list (map gs_inFlight (gl_slots (foldl gop_step (NewVRAMLimiter 3 1 2)
      [GTurn 0 False None, GTurn 1 False None, GTurn 0 False None, GTurn 1 False None])))
   \<and> sum_list (map gs_inFlight (gl_slots (foldl gop_step (NewVRAMLimiter 3 1 2)
      [GTurn 0 False None, GTurn 1 False None, GTurn 0 False None, GTurn 1 False None]))) < 3 + 2"
proof -
  have c: "\<lceil>3 / 2 :: real\<rceil> = 2" by (simp add: ceiling_eq_iff)
  have "sum_list (map gs_inFlight (gl_slots (foldl gop_step (NewVRAMLimiter 3 1 2)
      [GTurn 0 False None, GTurn 1 False None, GTurn 0 False None, GTurn 1 False None]))) = 4"
    by (simp add: NewVRAMLimiter_def gpu_turn_def effectivePerGPULocked_def perGPU_def c numeral_2_eq_2 Let_def)
  with gpu_shares_bounded [of 3 2 1 "[GTurn 0 False None, GTurn 1 False None, GTurn 0 False None, GTurn 1 False None]"]
  show ?thesis by simp
qed

text \<open>
  A request waits on its first GPU even when another one is free. While its context is live, a
  call of \<open>AcquireGPU\<close> takes a slot on the GPU the round robin named or stays there; no reading and
  no state of the other GPUs moves it to the next one, and a full first GPU parks it with every
  count unchanged.
\<close>

theorem gpu_no_fall_through:
  assumes "gl_gpuCount g \<noteq> 0"
  shows "snd (AcquireGPU_turn g start (Attempt 0) False free) \<in> {Got (start mod gl_gpuCount g), Attempt 0}
    \<and> (perGPU g free \<le> gs_inFlight (gl_slots (fst (effectivePerGPULocked g (start mod gl_gpuCount g) free)) ! (start mod gl_gpuCount g)) \<longrightarrow>
         snd (AcquireGPU_turn g start (Attempt 0) False free) = Attempt 0 \<and>
         map gs_inFlight (gl_slots (fst (AcquireGPU_turn g start (Attempt 0) False free))) = map gs_inFlight (gl_slots g))"
proof -
  let ?i = "start mod gl_gpuCount g"
  have t: "AcquireGPU_turn g start (Attempt 0) False free =
      (case gpu_turn g ?i False free of (g', Took) \<Rightarrow> (g', Got ?i) | (g', Parked) \<Rightarrow> (g', Attempt 0)
        | (g', GaveUp) \<Rightarrow> (g', if Suc 0 < gl_gpuCount g then Attempt (Suc 0) else LastTry))"
    by (simp add: AcquireGPU_turn_def gcall_gpu_def Let_def)
  show ?thesis
    unfolding t by (auto simp: gpu_turn_def split_beta Let_def eff_GPU_snd)
qed

theorem gpu_no_fall_through_witness:
  "\<exists>g. gs_inFlight (gl_slots g ! 0) = 1 \<and> gs_inFlight (gl_slots g ! 1) = 0 \<and> perGPU g None = 1
     \<and> snd (AcquireGPU_turn g 2 (Attempt 0) False None) = Attempt 0"
proof -
  let ?g = "fst (gpu_turn (NewVRAMLimiter 2 1 2) 0 False None)"
  have g: "gl_gpuCount ?g = 2" "perGPU ?g None = 1" "gs_inFlight (gl_slots ?g ! 0) = 1" "gs_inFlight (gl_slots ?g ! 1) = 0"
    "gs_inFlight (gl_slots (fst (effectivePerGPULocked ?g 0 None)) ! 0) = 1"
    by (simp_all add: NewVRAMLimiter_def gpu_turn_def effectivePerGPULocked_def perGPU_def numeral_2_eq_2 Let_def)
  with gpu_no_fall_through [of ?g 2 None]
  have "snd (AcquireGPU_turn ?g 2 (Attempt 0) False None) = Attempt 0" by simp
  with g show ?thesis by blast
qed

end
