(* ===== verification/CacheSpec.thy ===== *)
theory CacheSpec
  imports Prelude
begin

text \<open>
  The contract the program's caches share, as two locales: lookups may lose entries to eviction and
  expiry but never make one up, and an insertion is the only thing that changes what a key maps to;
  a bounded cache also keeps its number of entries within a cap. The consequences for whole
  histories of calls are proved here once.
\<close>

section \<open>Histories\<close>

text \<open>An operation carries what it read of the clock, of type \<open>'t\<close>.\<close>

datatype ('t, 'k, 'v) cache_op = CPut 't 'k 'v | CTouch 't 'k

fun latest :: "('t, 'k, 'v) cache_op list \<Rightarrow> 'k \<Rightarrow> 'v option" where
  "latest [] k = None"
| "latest (CPut t k' v # ops) k = (case latest ops k of Some w \<Rightarrow> Some w | None \<Rightarrow> if k' = k then Some v else None)"
| "latest (CTouch t k' # ops) k = latest ops k"

lemma latest_snoc:
  "latest (ops @ [CPut t k' v]) k = (if k' = k then Some v else latest ops k)"
  "latest (ops @ [CTouch t k']) k = latest ops k"
  by (induction ops k rule: latest.induct) (auto split: option.splits)

lemma latest_append: "latest (xs @ ys) k = (case latest ys k of Some v \<Rightarrow> Some v | None \<Rightarrow> latest xs k)"
  by (induction xs k rule: latest.induct) (auto split: option.splits)

section \<open>The contract\<close>

locale faithful_cache =
  fixes ok :: "'s \<Rightarrow> bool"
    and look :: "'s \<Rightarrow> 'u \<Rightarrow> 'k \<Rightarrow> 'v option"
    and touch :: "'s \<Rightarrow> 't \<Rightarrow> 'k \<Rightarrow> 's"
    and put :: "'s \<Rightarrow> 't \<Rightarrow> 'k \<Rightarrow> 'v \<Rightarrow> 's"
  assumes touch_ok: "ok s \<Longrightarrow> ok (touch s t k)"
    and put_ok: "ok s \<Longrightarrow> ok (put s t k v)"
    and put_same: "ok s \<Longrightarrow> look (put s t k v) u k = Some w \<Longrightarrow> w = v"
    and put_other: "ok s \<Longrightarrow> k' \<noteq> k \<Longrightarrow> look (put s t k v) u k' = Some w \<Longrightarrow> look s u k' = Some w"
    and touch_look: "ok s \<Longrightarrow> look (touch s t k) u k' = Some w \<Longrightarrow> look s u k' = Some w"
begin

fun run :: "'s \<Rightarrow> ('t, 'k, 'v) cache_op list \<Rightarrow> 's" where
  "run s [] = s"
| "run s (CPut t k v # ops) = run (put s t k v) ops"
| "run s (CTouch t k # ops) = run (touch s t k) ops"

lemma run_append: "run s (xs @ ys) = run (run s xs) ys"
  by (induction s xs rule: run.induct) simp_all

lemma run_ok: "ok s \<Longrightarrow> ok (run s ops)"
  by (induction s ops rule: run.induct) (simp_all add: put_ok touch_ok)

text \<open>A hit is the value put last under that key.\<close>

lemma hits_are_latest:
  assumes "ok s" "\<forall>u k. look s u k = None" "look (run s ops) u k = Some w"
  shows "latest ops k = Some w"
  using assms
proof (induction ops arbitrary: w rule: rev_induct)
  case Nil
  then show ?case by simp
next
  case (snoc a ops)
  have o: "ok (run s ops)" using snoc.prems(1) by (rule run_ok)
  show ?case
  proof (cases a)
    case (CPut t k' v)
    show ?thesis
    proof (cases "k' = k")
      case True
      with snoc.prems(3) CPut put_same [OF o] have "w = v" by (simp add: run_append)
      with CPut True show ?thesis by (simp add: latest_snoc)
    next
      case False
      with snoc.prems(3) CPut put_other [OF o, of k k'] have "look (run s ops) u k = Some w"
        by (simp add: run_append)
      with snoc CPut False show ?thesis by (simp add: latest_snoc)
    qed
  next
    case (CTouch t k')
    with snoc.prems(3) touch_look [OF o] have "look (run s ops) u k = Some w"
      by (simp add: run_append)
    with snoc CTouch show ?thesis by (simp add: latest_snoc)
  qed
qed

end

locale bounded_cache = faithful_cache ok look touch put
  for ok :: "'s \<Rightarrow> bool"
    and look :: "'s \<Rightarrow> 'u \<Rightarrow> 'k \<Rightarrow> 'v option"
    and touch :: "'s \<Rightarrow> 't \<Rightarrow> 'k \<Rightarrow> 's"
    and put :: "'s \<Rightarrow> 't \<Rightarrow> 'k \<Rightarrow> 'v \<Rightarrow> 's" +
  fixes entries :: "'s \<Rightarrow> nat"
    and cap :: "'s \<Rightarrow> nat"
  assumes within: "ok s \<Longrightarrow> entries s \<le> cap s"
    and touch_cap: "ok s \<Longrightarrow> cap (touch s t k) = cap s"
    and put_cap: "ok s \<Longrightarrow> cap (put s t k v) = cap s"
begin

lemma run_cap: "ok s \<Longrightarrow> cap (run s ops) = cap s"
  by (induction s ops rule: run.induct) (simp_all add: put_ok touch_ok put_cap touch_cap)

lemma stays_within: "ok s \<Longrightarrow> entries (run s ops) \<le> cap s"
  using within [OF run_ok] run_cap by simp

end

end
