(* ===== verification/Coalescer.thy ===== *)
theory Coalescer
  imports CacheSpec
begin

text \<open>
  \<open>internal/upstream/coalesce.go\<close>: identical concurrent requests share one upstream call and, for a
  short time, its result. The single flight itself is \<open>golang.org/x/sync/singleflight\<close>, which is not
  part of the repository: a call is either the leader, whose closure runs, or a waiter that gets the
  leader's result. The calls are cut into their critical sections, the cache lookup and the closure's
  store; the type variables \<open>'m\<close> and \<open>'e\<close> stand for the assistant message and the error.
\<close>

section \<open>State and operations\<close>

record ('m, 'e) coalesceResult =
  cr_msg :: 'm
  cr_model :: string
  cr_respBody :: string
  cr_err :: "'e option"

record ('m, 'e) coalesceEntry =
  ce_result :: "('m, 'e) coalesceResult"
  ce_expiry :: nanos

record ('m, 'e) coalescer =
  co_cache :: "string \<rightharpoonup> ('m, 'e) coalesceEntry"
  co_order :: "string list"
  co_ttl :: nanos
  co_maxEntries :: int

definition NewCoalescer :: "nanos \<Rightarrow> int \<Rightarrow> ('m, 'e) coalescer" where
  "NewCoalescer ttl maxEntries =
     \<lparr>co_cache = Map.empty, co_order = [], co_ttl = ttl, co_maxEntries = maxEntries\<rparr>"

text \<open>The digest of the concatenated bytes; SHA-256 is a parameter.\<close>

definition FlightKey :: "(string \<Rightarrow> string) \<Rightarrow> string \<Rightarrow> string \<Rightarrow> string \<Rightarrow> string" where
  "FlightKey sha256hex meth model serializedBody = sha256hex (meth @ model @ serializedBody)"

text \<open>The loop of \<open>evictExpiredLocked\<close> over the order, which drops a key only with its entry.\<close>

fun evict_expired_loop ::
  "nanos \<Rightarrow> string list \<Rightarrow> (string \<rightharpoonup> ('m, 'e) coalesceEntry) \<Rightarrow> string list \<times> (string \<rightharpoonup> ('m, 'e) coalesceEntry)" where
  "evict_expired_loop now [] m = ([], m)"
| "evict_expired_loop now (k # ks) m =
     (case m k of
        Some e \<Rightarrow> if \<not> now < ce_expiry e then evict_expired_loop now ks (m(k := None))
                  else (case evict_expired_loop now ks m of (ks', m') \<Rightarrow> (k # ks', m'))
      | None \<Rightarrow> (case evict_expired_loop now ks m of (ks', m') \<Rightarrow> (k # ks', m')))"

definition evictExpiredLocked :: "('m, 'e) coalescer \<Rightarrow> nanos \<Rightarrow> ('m, 'e) coalescer" where
  "evictExpiredLocked c now =
     (case evict_expired_loop now (co_order c) (co_cache c) of (ks, m) \<Rightarrow> c\<lparr>co_order := ks, co_cache := m\<rparr>)"

definition evictOldestLocked :: "('m, 'e) coalescer \<Rightarrow> ('m, 'e) coalescer" where
  "evictOldestLocked c =
     (case co_order c of [] \<Rightarrow> c | k # ks \<Rightarrow> c\<lparr>co_cache := (co_cache c)(k := None), co_order := ks\<rparr>)"

text \<open>The first critical section of \<open>Do\<close>: a fresh entry answers.\<close>

definition Do_lookup :: "('m, 'e) coalescer \<Rightarrow> nanos \<Rightarrow> string \<Rightarrow> ('m, 'e) coalesceResult option" where
  "Do_lookup c now key =
     (case co_cache c key of
        Some e \<Rightarrow> if now < ce_expiry e then Some (ce_result e) else None
      | None \<Rightarrow> None)"

text \<open>
  The critical section of the leader's closure, after \<open>fn\<close> returned \<open>result\<close>; the clock is read for
  the eviction (\<open>t1\<close>) and for the expiry (\<open>t2\<close>).
\<close>

definition Do_flight :: "('m, 'e) coalescer \<Rightarrow> nanos \<Rightarrow> nanos \<Rightarrow> string \<Rightarrow> ('m, 'e) coalesceResult \<Rightarrow> ('m, 'e) coalescer" where
  "Do_flight c t1 t2 key result =
     (let c = evictExpiredLocked c t1;
          c = (if 0 < co_maxEntries c \<and> co_maxEntries c \<le> int (card (dom (co_cache c)))
               then evictOldestLocked c else c)
      in c\<lparr>co_cache := (co_cache c)(key \<mapsto> \<lparr>ce_result = result, ce_expiry = t2 + co_ttl c\<rparr>),
           co_order := co_order c @ [key]\<rparr>)"

text \<open>
  A whole call with nobody in between: the caller is the leader, \<open>fn\<close> is what it would return. The
  result says which counter the call bumps, \<open>True\<close> for the hits.
\<close>

definition Do :: "('m, 'e) coalescer \<Rightarrow> nanos \<Rightarrow> nanos \<Rightarrow> nanos \<Rightarrow> string \<Rightarrow> ('m, 'e) coalesceResult \<Rightarrow> ('m, 'e) coalescer \<times> ('m, 'e) coalesceResult \<times> bool" where
  "Do c t0 t1 t2 key fn =
     (case Do_lookup c t0 key of
        Some r \<Rightarrow> (c, r, True)
      | None \<Rightarrow> (Do_flight c t1 t2 key fn, fn, False))"

section \<open>Lemmas\<close>

definition co_inv :: "('m, 'e) coalescer \<Rightarrow> bool" where
  "co_inv c \<longleftrightarrow> distinct (co_order c) \<and> set (co_order c) = dom (co_cache c) \<and>
     (0 < co_maxEntries c \<longrightarrow> int (length (co_order c)) \<le> co_maxEntries c)"

definition fresh_at :: "nanos \<Rightarrow> (string \<rightharpoonup> ('m, 'e) coalesceEntry) \<Rightarrow> string \<Rightarrow> bool" where
  "fresh_at now m k \<longleftrightarrow> (case m k of Some e \<Rightarrow> now < ce_expiry e | None \<Rightarrow> False)"

lemma evict_loop_Cons:
  "evict_expired_loop now (k # ks) m =
     (if m k \<noteq> None \<and> \<not> fresh_at now m k then evict_expired_loop now ks (m(k := None))
      else (k # fst (evict_expired_loop now ks m), snd (evict_expired_loop now ks m)))"
  by (auto simp: fresh_at_def split_beta split: option.splits)

declare evict_expired_loop.simps(2) [simp del]

lemma fresh_at_upd: "fresh_at now (m(k := None)) x \<longleftrightarrow> x \<noteq> k \<and> fresh_at now m x"
  by (simp add: fresh_at_def)

lemma evict_loop_order:
  "distinct ks \<Longrightarrow> fst (evict_expired_loop now ks m) = filter (\<lambda>k. m k = None \<or> fresh_at now m k) ks"
proof (induction ks arbitrary: m)
  case (Cons x ks)
  have "filter (\<lambda>y. (m(x := None)) y = None \<or> fresh_at now (m(x := None)) y) ks =
      filter (\<lambda>y. m y = None \<or> fresh_at now m y) ks"
    using Cons.prems by (intro filter_cong refl) (auto simp: fresh_at_upd)
  with Cons show ?case by (simp add: evict_loop_Cons del: fun_upd_apply)
qed simp

lemma evict_loop_map:
  "snd (evict_expired_loop now ks m) k = (if k \<in> set ks \<and> \<not> fresh_at now m k then None else m k)"
proof (induction ks arbitrary: m)
  case (Cons x ks)
  show ?case
    by (simp add: evict_loop_Cons Cons.IH fresh_at_upd) (auto simp: fresh_at_def)
qed simp

lemma evictExpired_fields [simp]:
  "co_ttl (evictExpiredLocked c now) = co_ttl c"
  "co_maxEntries (evictExpiredLocked c now) = co_maxEntries c"
  "co_cache (evictExpiredLocked c now) = snd (evict_expired_loop now (co_order c) (co_cache c))"
  "co_order (evictExpiredLocked c now) = fst (evict_expired_loop now (co_order c) (co_cache c))"
  by (simp_all add: evictExpiredLocked_def split_beta)

lemma inv_evictExpired [inv_intros]:
  assumes "co_inv c"
  shows "co_inv (evictExpiredLocked c now)"
  unfolding co_inv_def
proof (intro conjI impI)
  have d: "distinct (co_order c)" "set (co_order c) = dom (co_cache c)" using assms by (simp_all add: co_inv_def)
  show "distinct (co_order (evictExpiredLocked c now))" using d by (simp add: evict_loop_order)
  show "set (co_order (evictExpiredLocked c now)) = dom (co_cache (evictExpiredLocked c now))"
    using d by (auto simp: evict_loop_order evict_loop_map dom_def)
  assume "0 < co_maxEntries (evictExpiredLocked c now)"
  with assms have "int (length (co_order c)) \<le> co_maxEntries c" by (simp add: co_inv_def)
  then show "int (length (co_order (evictExpiredLocked c now))) \<le> co_maxEntries (evictExpiredLocked c now)"
    using length_filter_le [of "\<lambda>k. co_cache c k = None \<or> fresh_at now (co_cache c) k" "co_order c"] d
    by (simp add: evict_loop_order del: length_filter_le)
qed

lemma inv_evictOldest [inv_intros]: "co_inv c \<Longrightarrow> co_inv (evictOldestLocked c)"
  by (auto simp: co_inv_def evictOldestLocked_def split: list.splits)

lemma inv_size: "co_inv c \<Longrightarrow> card (dom (co_cache c)) = length (co_order c)"
  using distinct_card [of "co_order c"] by (simp add: co_inv_def)

lemma co_inv_store:
  assumes "co_inv c" "co_cache c key = None"
    and "0 < co_maxEntries c \<Longrightarrow> int (length (co_order c)) < co_maxEntries c"
  shows "co_inv (c\<lparr>co_cache := (co_cache c)(key \<mapsto> e), co_order := co_order c @ [key]\<rparr>)"
  using assms by (auto simp: co_inv_def)
lemma co_inv_flight [inv_intros]:
  assumes inv: "co_inv c" and stale: "\<not> fresh_at t1 (co_cache c) key"
  shows "co_inv (Do_flight c t1 t2 key r)"
proof -
  let ?e = "evictExpiredLocked c t1"
  let ?o = "if 0 < co_maxEntries ?e \<and> co_maxEntries ?e \<le> int (card (dom (co_cache ?e)))
            then evictOldestLocked ?e else ?e"
  have e: "co_inv ?e" using inv by (rule inv_evictExpired)
  then have o: "co_inv ?o" by (simp add: inv_evictOldest)
  have "key \<in> set (co_order c) \<or> co_cache c key = None" using inv by (auto simp: co_inv_def)
  then have "co_cache ?e key = None" using stale by (auto simp: evict_loop_map)
  then have k: "co_cache ?o key = None"
    by (auto simp: evictOldestLocked_def split: list.splits)
  have "int (length (co_order ?o)) < co_maxEntries ?o" if "0 < co_maxEntries ?o"
  proof (cases "co_maxEntries ?e \<le> int (card (dom (co_cache ?e)))")
    case True
    have mx: "co_maxEntries ?o = co_maxEntries ?e" by (simp add: evictOldestLocked_def split: list.split)
    have le: "int (length (co_order ?e)) \<le> co_maxEntries ?e" using e mx that by (simp add: co_inv_def)
    have "int (length (co_order (evictOldestLocked ?e))) < co_maxEntries ?e"
      using le mx that by (auto simp: evictOldestLocked_def split: list.splits)
    then show ?thesis using True mx that by simp
  next
    case False
    then show ?thesis using inv_size [OF e] by simp
  qed
  with o k show ?thesis
    unfolding Do_flight_def Let_def by (rule co_inv_store)
qed

lemma co_inv_Do [inv_intros]:
  assumes "co_inv c" "t0 \<le> t1"
  shows "co_inv (fst (Do c t0 t1 t2 key r))"
  using assms co_inv_flight [OF assms(1), of t1 key t2 r]
  by (auto simp: Do_def Do_lookup_def fresh_at_def split: option.splits if_splits)

lemma flight_same:
  "Do_lookup (Do_flight c t1 t2 key r) u key = (if u < t2 + co_ttl c then Some r else None)"
  by (simp add: Do_flight_def Do_lookup_def Let_def evictOldestLocked_def split: list.split)

lemma flight_other:
  assumes "k \<noteq> key" "Do_lookup (Do_flight c t1 t2 key r) u k = Some w"
  shows "Do_lookup c u k = Some w"
  using assms
  by (auto simp: Do_flight_def Do_lookup_def Let_def evictOldestLocked_def evict_loop_map
      split: list.splits option.splits if_splits)

definition flight_at :: "('m, 'e) coalescer \<Rightarrow> nanos \<times> nanos \<Rightarrow> string \<Rightarrow> ('m, 'e) coalesceResult \<Rightarrow> ('m, 'e) coalescer" where
  "flight_at c t k r = Do_flight c (fst t) (snd t) k r"

lemma flight_at_pair: "flight_at c (t1, t2) k r = Do_flight c t1 t2 k r"
  by (simp add: flight_at_def)

interpretation co: faithful_cache "\<lambda>_. True" Do_lookup "\<lambda>c _ _. c" flight_at
proof
  fix s :: "('m, 'e) coalescer" and t :: "nanos \<times> nanos" and k k' :: string and u :: nanos and v w :: "('m, 'e) coalesceResult"
  show "Do_lookup (flight_at s t k v) u k = Some w \<Longrightarrow> w = v"
    by (simp add: flight_at_def flight_same split: if_splits)
  show "k' \<noteq> k \<Longrightarrow> Do_lookup (flight_at s t k v) u k' = Some w \<Longrightarrow> Do_lookup s u k' = Some w"
    unfolding flight_at_def by (rule flight_other)
qed simp_all

section \<open>Schedules\<close>

text \<open>
  Calls that overlap, as the sequence of their critical sections: a lookup that misses leaves a
  caller about to fly; a flight is the closure of such a caller. Flights of one key never overlap
  (single flight), and a closure's store is one section, so the sections come one after the other.
\<close>

datatype ('m, 'e) csection = Look nanos string | Fly nanos nanos string "('m, 'e) coalesceResult"

fun run_sections :: "('m, 'e) coalescer \<Rightarrow> string list \<Rightarrow> ('m, 'e) csection list \<Rightarrow> ('m, 'e) coalescer option" where
  "run_sections c pend [] = Some c"
| "run_sections c pend (Look t k # ss) =
     (case Do_lookup c t k of
        Some _ \<Rightarrow> run_sections c pend ss
      | None \<Rightarrow> run_sections c (k # pend) ss)"
| "run_sections c pend (Fly t1 t2 k r # ss) =
     (if k \<in> set pend then run_sections (Do_flight c t1 t2 k r) (remove1 k pend) ss else None)"

fun flights :: "('m, 'e) csection list \<Rightarrow> (string \<times> ('m, 'e) coalesceResult) list" where
  "flights [] = []"
| "flights (Look t k # ss) = flights ss"
| "flights (Fly t1 t2 k r # ss) = (k, r) # flights ss"

fun as_ops :: "('m, 'e) csection list \<Rightarrow> (nanos \<times> nanos, string, ('m, 'e) coalesceResult) cache_op list" where
  "as_ops [] = []"
| "as_ops (Look t k # ss) = CTouch (t, t) k # as_ops ss"
| "as_ops (Fly t1 t2 k r # ss) = CPut (t1, t2) k r # as_ops ss"

lemma run_sections_co: "run_sections c pend ss = Some c' \<Longrightarrow> c' = co.run c (as_ops ss)"
  by (induction c pend ss rule: run_sections.induct)
    (simp_all add: flight_at_pair split: option.splits if_splits)

lemma latest_flights: "latest (as_ops ss) k = map_of (rev (flights ss)) k"
  by (induction ss rule: as_ops.induct) (auto simp: map_add_def split: option.splits)

text \<open>Calls one after the other.\<close>

fun run_calls :: "('m, 'e) coalescer \<Rightarrow> (nanos \<times> nanos \<times> nanos \<times> string \<times> ('m, 'e) coalesceResult) list \<Rightarrow> ('m, 'e) coalescer" where
  "run_calls c [] = c"
| "run_calls c ((t0, t1, t2, k, r) # cs) = run_calls (fst (Do c t0 t1 t2 k r)) cs"

lemma run_calls_inv:
  "co_inv c \<Longrightarrow> list_all (\<lambda>(t0, t1, t2, k, r). t0 \<le> t1) cs \<Longrightarrow> co_inv (run_calls c cs)"
  by (induction c cs rule: run_calls.induct) (simp_all add: co_inv_Do)

lemma Do_fields [simp]:
  "co_maxEntries (fst (Do c t0 t1 t2 k r)) = co_maxEntries c" "co_ttl (fst (Do c t0 t1 t2 k r)) = co_ttl c"
  by (simp_all add: Do_def Do_flight_def Let_def evictOldestLocked_def split: option.split list.split)

lemma run_calls_fields [simp]:
  "co_maxEntries (run_calls c cs) = co_maxEntries c" "co_ttl (run_calls c cs) = co_ttl c"
  by (induction c cs rule: run_calls.induct) simp_all

lemma co_inv_New: "co_inv (NewCoalescer ttl mx)"
  by (simp add: co_inv_def NewCoalescer_def)

definition answer :: "string \<Rightarrow> (string, string) coalesceResult" where
  "answer a = \<lparr>cr_msg = a, cr_model = ''m'', cr_respBody = a, cr_err = None\<rparr>"

lemmas coalescer_eval = Do_lookup_def Do_flight_def NewCoalescer_def evictExpiredLocked_def
  evict_loop_Cons fresh_at_def evictOldestLocked_def answer_def

section \<open>Properties\<close>

text \<open>
  Calls that do not overlap keep the cap and share results for the TTL. After any such calls on a
  coalescer with a cap, at most that many results are cached; a call that finds no fresh result runs
  its function, returns what it returned and answers every call of the next \<open>ttl\<close> with it, and a call
  that finds one changes nothing and does not run its function.
\<close>

theorem coalescer_sequential:
  assumes "0 < mx" "list_all (\<lambda>(t0, t1, t2, k, r). t0 \<le> t1) cs"
  shows "int (card (dom (co_cache (run_calls (NewCoalescer ttl mx) cs)))) \<le> mx
    \<and> (case Do (run_calls (NewCoalescer ttl mx) cs) t0 t1 t2 key fn of
          (c', r, hit) \<Rightarrow>
            (hit \<longrightarrow> c' = run_calls (NewCoalescer ttl mx) cs) \<and>
            (\<not> hit \<longrightarrow> r = fn \<and> (\<forall>u v1 v2 fn'. u < t2 + ttl \<longrightarrow> Do c' u v1 v2 key fn' = (c', fn, True))))"
proof -
  let ?c = "run_calls (NewCoalescer ttl mx) cs"
  have i: "co_inv ?c" using run_calls_inv [OF co_inv_New assms(2)] .
  have m: "co_maxEntries ?c = mx" "co_ttl ?c = ttl" by (simp_all add: NewCoalescer_def)
  have "int (card (dom (co_cache ?c))) \<le> mx"
    using inv_size [OF i] i m assms(1) by (simp add: co_inv_def)
  moreover have "Do_lookup (Do_flight ?c t1 t2 key fn) u key = Some fn" if "u < t2 + ttl" for u
    using that m by (simp add: flight_same)
  ultimately show ?thesis
    by (auto simp: Do_def split: option.splits)
qed

theorem coalescer_sequential_witness:
  "int (card (dom (co_cache (run_calls (NewCoalescer 5 1)
      [(0, 0, 0, ''a'', answer ''x''), (1, 1, 1, ''b'', answer ''y'')])))) \<le> 1"
  using coalescer_sequential [of 1 "[(0, 0, 0, ''a'', answer ''x''), (1, 1, 1, ''b'', answer ''y'')]" 5] by simp

text \<open>
  A shared result is the last one computed. However calls overlap, a cached answer that a lookup
  returns is the result of the latest flight of that very key.
\<close>

theorem coalescer_hit_is_last_flight:
  assumes "run_sections (NewCoalescer ttl mx) [] ss = Some c" "Do_lookup c now key = Some r"
  shows "map_of (rev (flights ss)) key = Some r"
proof -
  have "Do_lookup (co.run (NewCoalescer ttl mx) (as_ops ss)) now key = Some r"
    using assms run_sections_co by blast
  with co.hits_are_latest [of "NewCoalescer ttl mx" "as_ops ss" now key r] show ?thesis
    by (simp add: latest_flights NewCoalescer_def Do_lookup_def)
qed

theorem coalescer_hit_is_last_flight_witness:
  "\<exists>ss c. run_sections (NewCoalescer 5 2) [] ss = Some c \<and> length ss = 4
     \<and> Do_lookup c 3 ''a'' = Some (answer ''y'') \<and> map_of (rev (flights ss)) ''a'' = Some (answer ''y'')"
proof -
  let ?ss = "[Look 0 ''a'', Look 0 ''a'', Fly 1 1 ''a'' (answer ''x''), Fly 2 2 ''a'' (answer ''y'')]"
  obtain c where c: "run_sections (NewCoalescer 5 2) [] ?ss = Some c" "Do_lookup c 3 ''a'' = Some (answer ''y'')"
    by (simp add: coalescer_eval)
  from coalescer_hit_is_last_flight [OF c] c show ?thesis
    by (intro exI [of _ ?ss] exI [of _ c]) simp
qed

text \<open>
  Overlapping misses of one key break the cap. Two callers miss the same key, fly one after the
  other and leave the key twice in the order; once it has expired its second mention stays behind and
  is later evicted in place of a live entry, so a coalescer with a cap of two holds three results.
\<close>

theorem coalescer_cap_broken_by_overlap:
  "\<exists>ss c. run_sections (NewCoalescer 5 2 :: (string, string) coalescer) [] ss = Some c \<and> card (dom (co_cache c)) = 3"
proof -
  let ?ss = "[Look 0 ''k'', Look 0 ''k'', Fly 0 0 ''k'' (answer ''x''), Fly 0 0 ''k'' (answer ''x''),
    Look 10 ''a'', Fly 10 10 ''a'' (answer ''y''), Look 10 ''b'', Fly 10 10 ''b'' (answer ''z''),
    Look 10 ''d'', Fly 10 10 ''d'' (answer ''w'')]"
  obtain c where "run_sections (NewCoalescer 5 2) [] ?ss = Some c" "card (dom (co_cache c)) = 3"
    by (simp add: coalescer_eval card_insert_if)
  then show ?thesis by (intro exI [of _ ?ss] exI [of _ c] conjI)
qed

end
