(* ===== verification/LruCache.thy ===== *)
theory LruCache
  imports CacheSpec
begin

text \<open>
  \<open>internal/rag/cache.go\<close>: the LRU around the embedder. The code shares slices between the cache and
  its callers, so vectors live in a heap and are passed as addresses; list elements are pointers too.
  The wrapped embedder is an interface; its two calls are parameters, \<open>None\<close> for an error.
\<close>

section \<open>State\<close>

type_synonym vec = "real list"

record cacheEntry =
  en_key :: string
  en_vec :: nat

record cached_embedder =
  lr_maxEntries :: int
  lr_cache :: "string \<rightharpoonup> nat"
  lr_ll :: "nat list"
  lr_elems :: "cacheEntry list"
  lr_heap :: "vec list"

definition NewCachedEmbedder :: "int \<Rightarrow> cached_embedder" where
  "NewCachedEmbedder maxEntries =
     \<lparr>lr_maxEntries = (if maxEntries \<le> 0 then 256 else maxEntries),
      lr_cache = Map.empty, lr_ll = [], lr_elems = [], lr_heap = []\<rparr>"

section \<open>Slices and list elements\<close>

definition alloc :: "cached_embedder \<Rightarrow> vec \<Rightarrow> cached_embedder \<times> nat" where
  "alloc c v = (c\<lparr>lr_heap := lr_heap c @ [v]\<rparr>, length (lr_heap c))"

definition MoveToFront :: "cached_embedder \<Rightarrow> nat \<Rightarrow> cached_embedder" where
  "MoveToFront c el = c\<lparr>lr_ll := el # remove1 el (lr_ll c)\<rparr>"

definition PushFront :: "cached_embedder \<Rightarrow> cacheEntry \<Rightarrow> cached_embedder \<times> nat" where
  "PushFront c e =
     (c\<lparr>lr_elems := lr_elems c @ [e], lr_ll := length (lr_elems c) # lr_ll c\<rparr>, length (lr_elems c))"

section \<open>Embed\<close>

text \<open>The lookup under the lock; a hit is copied into a fresh slice.\<close>

definition lookup_copy :: "cached_embedder \<Rightarrow> string \<Rightarrow> (cached_embedder \<times> nat) option" where
  "lookup_copy c txt =
     (case lr_cache c txt of
        Some el \<Rightarrow> let c = MoveToFront c el in Some (alloc c (lr_heap c ! en_vec (lr_elems c ! el)))
      | None \<Rightarrow> None)"

definition push_entry :: "cached_embedder \<Rightarrow> string \<Rightarrow> nat \<Rightarrow> cached_embedder" where
  "push_entry c txt a =
     (let (c, el) = PushFront c \<lparr>en_key = txt, en_vec = a\<rparr>;
          c = c\<lparr>lr_cache := (lr_cache c)(txt \<mapsto> el)\<rparr>
      in if lr_maxEntries c < int (length (lr_ll c)) then
           (let oldest = last (lr_ll c)
            in c\<lparr>lr_ll := remove1 oldest (lr_ll c), lr_cache := (lr_cache c)(en_key (lr_elems c ! oldest) := None)\<rparr>)
         else c)"

text \<open>The second section of a miss: \<open>a\<close> is the slice the inner embedder returned.\<close>

definition Embed_store :: "cached_embedder \<Rightarrow> string \<Rightarrow> nat \<Rightarrow> cached_embedder \<times> nat" where
  "Embed_store c txt a =
     (case lookup_copy c txt of
        Some r \<Rightarrow> r
      | None \<Rightarrow> (push_entry c txt a, a))"

definition Embed :: "(string \<Rightarrow> vec option) \<Rightarrow> cached_embedder \<Rightarrow> string \<Rightarrow> cached_embedder \<times> nat option" where
  "Embed inner c txt =
     (case lookup_copy c txt of
        Some (c, a) \<Rightarrow> (c, Some a)
      | None \<Rightarrow>
          (case inner txt of
             None \<Rightarrow> (c, None)
           | Some v \<Rightarrow>
               (case alloc c v of (c, a) \<Rightarrow> (case Embed_store c txt a of (c, b) \<Rightarrow> (c, Some b)))))"

section \<open>EmbedBatch\<close>

fun batch_scan :: "cached_embedder \<Rightarrow> string list \<Rightarrow> cached_embedder \<times> nat option list" where
  "batch_scan c [] = (c, [])"
| "batch_scan c (t # ts) =
     (case lookup_copy c t of
        Some (c, a) \<Rightarrow> (case batch_scan c ts of (c, rs) \<Rightarrow> (c, Some a # rs))
      | None \<Rightarrow> (case batch_scan c ts of (c, rs) \<Rightarrow> (c, None # rs)))"

definition fetch_texts :: "string list \<Rightarrow> nat option list \<Rightarrow> string list" where
  "fetch_texts ts rs = map fst (filter (\<lambda>(t, r). r = None) (zip ts rs))"

text \<open>
  Filling the gaps from the fetched vectors; running out of them is Go's index panic, \<open>None\<close>.
\<close>

fun batch_fill :: "cached_embedder \<Rightarrow> string list \<Rightarrow> nat option list \<Rightarrow> vec list \<Rightarrow> (cached_embedder \<times> nat list) option" where
  "batch_fill c (t # ts) (Some a # rs) vs =
     (case batch_fill c ts rs vs of None \<Rightarrow> None | Some (c, as) \<Rightarrow> Some (c, a # as))"
| "batch_fill c (t # ts) (None # rs) [] = None"
| "batch_fill c (t # ts) (None # rs) (v # vs) =
     (case alloc c v of (c, a) \<Rightarrow>
        (let c = (case lr_cache c t of
                    Some el \<Rightarrow> MoveToFront c el
                  | None \<Rightarrow> (case alloc c v of (c, b) \<Rightarrow> push_entry c t b))
         in (case batch_fill c ts rs vs of None \<Rightarrow> None | Some (c, as) \<Rightarrow> Some (c, a # as))))"
| "batch_fill c _ _ vs = Some (c, [])"

datatype batch_result = BatchOk "nat list" | BatchError | BatchPanic

definition EmbedBatch :: "(string list \<Rightarrow> vec list option) \<Rightarrow> cached_embedder \<Rightarrow> string list \<Rightarrow> cached_embedder \<times> batch_result" where
  "EmbedBatch inner c texts =
     (case batch_scan c texts of (c, rs) \<Rightarrow>
        if fetch_texts texts rs = [] then (c, BatchOk (map the rs))
        else case inner (fetch_texts texts rs) of
          None \<Rightarrow> (c, BatchError)
        | Some fetched \<Rightarrow>
            (case batch_fill c texts rs fetched of
               None \<Rightarrow> (c, BatchPanic)
             | Some (c, as) \<Rightarrow> (c, BatchOk as)))"

section \<open>Invariant and abstraction\<close>

definition lr_inv :: "cached_embedder \<Rightarrow> bool" where
  "lr_inv c \<longleftrightarrow>
     0 < lr_maxEntries c \<and> distinct (lr_ll c) \<and> int (length (lr_ll c)) \<le> lr_maxEntries c \<and>
     (\<forall>el\<in>set (lr_ll c). el < length (lr_elems c) \<and> en_vec (lr_elems c ! el) < length (lr_heap c)) \<and>
     (\<forall>k el. lr_cache c k = Some el \<longleftrightarrow> el \<in> set (lr_ll c) \<and> en_key (lr_elems c ! el) = k)"

text \<open>The abstract LRU: an association list, the most recent first.\<close>

definition lr_abs :: "cached_embedder \<Rightarrow> (string \<times> vec) list" where
  "lr_abs c = map (\<lambda>el. (en_key (lr_elems c ! el), lr_heap c ! en_vec (lr_elems c ! el))) (lr_ll c)"

definition spec_hit :: "string \<Rightarrow> (string \<times> vec) list \<Rightarrow> (string \<times> vec) list" where
  "spec_hit k xs = (k, the (map_of xs k)) # filter (\<lambda>p. fst p \<noteq> k) xs"

definition spec_put :: "int \<Rightarrow> string \<Rightarrow> vec \<Rightarrow> (string \<times> vec) list \<Rightarrow> (string \<times> vec) list" where
  "spec_put m k v xs = take (nat m) ((k, v) # xs)"

lemma inv_D:
  assumes "lr_inv c"
  shows "0 < lr_maxEntries c" "distinct (lr_ll c)" "int (length (lr_ll c)) \<le> lr_maxEntries c"
    and inv_el: "el \<in> set (lr_ll c) \<Longrightarrow> el < length (lr_elems c) \<and> en_vec (lr_elems c ! el) < length (lr_heap c)"
    and cache_iff: "lr_cache c k = Some el \<longleftrightarrow> el \<in> set (lr_ll c) \<and> en_key (lr_elems c ! el) = k"
  using assms unfolding lr_inv_def by blast+

lemma cached_el: "lr_inv c \<Longrightarrow> el \<in> set (lr_ll c) \<Longrightarrow> lr_cache c (en_key (lr_elems c ! el)) = Some el"
  by (simp add: cache_iff)

lemma key_inj: "lr_inv c \<Longrightarrow> inj_on (\<lambda>el. en_key (lr_elems c ! el)) (set (lr_ll c))"
  by (rule inj_onI) (metis cached_el option.inject)

lemma cached_D:
  assumes "lr_inv c" "lr_cache c k = Some el"
  shows "el \<in> set (lr_ll c)" "en_key (lr_elems c ! el) = k" "el < length (lr_elems c)"
    "en_vec (lr_elems c ! el) < length (lr_heap c)"
  using assms cache_iff [OF assms(1), of k el] inv_el [OF assms(1), of el] by simp_all

lemma abs_keys: "lr_inv c \<Longrightarrow> distinct (map fst (lr_abs c))"
  using key_inj [of c] inv_D(2) [of c] by (simp add: lr_abs_def comp_def distinct_map)

lemma abs_lookup:
  assumes "lr_inv c"
  shows "map_of (lr_abs c) k = map_option (\<lambda>el. lr_heap c ! en_vec (lr_elems c ! el)) (lr_cache c k)"
proof (cases "lr_cache c k")
  case None
  then have "k \<notin> fst ` set (lr_abs c)"
    using cached_el [OF assms] by (auto simp: lr_abs_def)
  with None show ?thesis by (simp add: map_of_eq_None_iff)
next
  case (Some el)
  from cached_D [OF assms Some]
  have "(k, lr_heap c ! en_vec (lr_elems c ! el)) \<in> set (lr_abs c)" by (auto simp: lr_abs_def)
  with Some abs_keys [OF assms] show ?thesis by simp
qed

lemma alloc_facts:
  assumes "lr_inv c"
  shows "lr_inv (fst (alloc c v))" "lr_abs (fst (alloc c v)) = lr_abs c"
    "lr_heap (fst (alloc c v)) ! snd (alloc c v) = v" "snd (alloc c v) < length (lr_heap (fst (alloc c v)))"
  using assms by (auto simp: alloc_def lr_inv_def lr_abs_def nth_append)

lemma alloc_fields [simp]:
  "lr_maxEntries (fst (alloc c v)) = lr_maxEntries c" "lr_cache (fst (alloc c v)) = lr_cache c"
  "lr_ll (fst (alloc c v)) = lr_ll c" "lr_elems (fst (alloc c v)) = lr_elems c"
  by (simp_all add: alloc_def)

text \<open>Later allocations leave the slices where they are.\<close>

definition heap_ext :: "cached_embedder \<Rightarrow> cached_embedder \<Rightarrow> bool" where
  "heap_ext c d \<longleftrightarrow> (\<exists>vs. lr_heap d = lr_heap c @ vs)"

lemma heap_ext_refl [simp]: "heap_ext c c"
  by (simp add: heap_ext_def)

lemma heap_ext_trans: "heap_ext c d \<Longrightarrow> heap_ext d e \<Longrightarrow> heap_ext c e"
  by (auto simp: heap_ext_def)

lemma heap_ext_nth: "heap_ext c d \<Longrightarrow> a < length (lr_heap c) \<Longrightarrow> lr_heap d ! a = lr_heap c ! a \<and> a < length (lr_heap d)"
  by (auto simp: heap_ext_def nth_append)

lemma heap_ext_alloc [simp]: "heap_ext c (fst (alloc c v))"
  by (simp add: heap_ext_def alloc_def)

lemma move_facts:
  assumes "lr_inv c" "lr_cache c k = Some el"
  shows "lr_inv (MoveToFront c el)" "lr_abs (MoveToFront c el) = spec_hit k (lr_abs c)"
proof -
  note d = cached_D [OF assms]
  have s: "set (el # remove1 el (lr_ll c)) = set (lr_ll c)" "distinct (lr_ll c)"
    using d(1) inv_D(2) [OF assms(1)] by auto
  have l: "length (el # remove1 el (lr_ll c)) = length (lr_ll c)"
    using d(1) length_pos_if_in_set [of el "lr_ll c"] by (simp add: length_remove1)
  show "lr_inv (MoveToFront c el)"
    using assms(1) s l by (simp add: lr_inv_def MoveToFront_def del: length_Cons set_simps)
  have r: "remove1 el (lr_ll c) = filter (\<lambda>x. x \<noteq> el) (lr_ll c)"
    using s(2) by (simp add: distinct_remove1_removeAll removeAll_filter_not_eq neq_commute)
  have f: "filter (\<lambda>x. x \<noteq> el) (lr_ll c) = filter (\<lambda>x. en_key (lr_elems c ! x) \<noteq> k) (lr_ll c)"
    using d(1,2) key_inj [OF assms(1)] by (intro filter_cong refl) (auto simp: inj_on_def)
  show "lr_abs (MoveToFront c el) = spec_hit k (lr_abs c)"
    unfolding spec_hit_def abs_lookup [OF assms(1)] assms(2)
    by (simp add: lr_abs_def MoveToFront_def r f d filter_map comp_def)
qed

lemma remove1_last: "distinct xs \<Longrightarrow> xs \<noteq> [] \<Longrightarrow> remove1 (last xs) xs = butlast xs"
  by (induction xs rule: rev_induct) (auto simp: remove1_append)

lemma set_butlast_distinct: "distinct xs \<Longrightarrow> xs \<noteq> [] \<Longrightarrow> set (butlast xs) = set xs - {last xs}"
  by (induction xs rule: rev_induct) auto

text \<open>What is left of the list after a push: the last element goes when the cache is full.\<close>

definition kept :: "cached_embedder \<Rightarrow> nat list" where
  "kept c = (if lr_maxEntries c < int (Suc (length (lr_ll c))) then butlast (lr_ll c) else lr_ll c)"

lemma kept_facts:
  assumes "lr_inv c"
  shows "distinct (kept c)" "set (kept c) \<subseteq> set (lr_ll c)" "int (Suc (length (kept c))) \<le> lr_maxEntries c"
    "kept c = take (nat (lr_maxEntries c) - 1) (lr_ll c)"
proof -
  have "nat (lr_maxEntries c) = length (lr_ll c)" if "lr_maxEntries c < int (Suc (length (lr_ll c)))"
    using that inv_D(3) [OF assms] by simp
  then show "kept c = take (nat (lr_maxEntries c) - 1) (lr_ll c)"
    by (simp add: kept_def butlast_conv_take)
qed (use inv_D(1-3) [OF assms] in \<open>auto simp: kept_def distinct_butlast dest: in_set_butlastD\<close>)

definition pushed_cache :: "cached_embedder \<Rightarrow> string \<Rightarrow> string \<rightharpoonup> nat" where
  "pushed_cache c k = (\<lambda>x. if x = k then Some (length (lr_elems c))
     else case lr_cache c x of None \<Rightarrow> None | Some el \<Rightarrow> if el \<in> set (kept c) then Some el else None)"

lemma push_entry_eq:
  assumes "lr_inv c" "lr_cache c k = None"
  shows "push_entry c k a =
    c\<lparr>lr_elems := lr_elems c @ [\<lparr>en_key = k, en_vec = a\<rparr>], lr_ll := length (lr_elems c) # kept c,
      lr_cache := pushed_cache c k\<rparr>"
proof (cases "lr_maxEntries c < int (Suc (length (lr_ll c)))")
  case False
  have "pushed_cache c k = (lr_cache c)(k \<mapsto> length (lr_elems c))"
    using False cached_D(1) [OF assms(1)]
    by (auto simp: pushed_cache_def kept_def fun_eq_iff split: option.splits)
  with False show ?thesis by (simp add: push_entry_def PushFront_def kept_def)
next
  case True
  let ?n = "length (lr_elems c)" and ?o = "last (lr_ll c)"
  have ne: "lr_ll c \<noteq> []" using True inv_D(1,3) [OF assms(1)] by auto
  then have o: "?o \<in> set (lr_ll c)" by simp
  have on: "?o < ?n" "?o \<noteq> ?n" using inv_el [OF assms(1) o] by simp_all
  have ok: "en_key (lr_elems c ! ?o) \<noteq> k" using cached_el [OF assms(1) o] assms(2) by auto
  have kept: "set (kept c) = set (lr_ll c) - {?o}"
    using True set_butlast_distinct [OF inv_D(2) [OF assms(1)] ne] by (simp add: kept_def)
  have "pushed_cache c k x = ((lr_cache c)(k \<mapsto> ?n, en_key (lr_elems c ! ?o) := None)) x" for x
  proof (cases "lr_cache c x")
    case None
    with ok show ?thesis by (auto simp: pushed_cache_def)
  next
    case (Some el)
    with cached_D(1,2) [OF assms(1) Some] cached_el [OF assms(1) o] ok show ?thesis
      by (auto simp: pushed_cache_def kept)
  qed
  then have pc: "pushed_cache c k = (lr_cache c)(k \<mapsto> ?n, en_key (lr_elems c ! ?o) := None)" ..
  have "remove1 ?o (?n # lr_ll c) = ?n # kept c"
    using on True remove1_last [OF inv_D(2) [OF assms(1)] ne] by (simp add: kept_def)
  with True ne on pc show ?thesis
    by (simp add: push_entry_def PushFront_def nth_append)
qed

lemma push_facts:
  assumes "lr_inv c" "lr_cache c k = None" "a < length (lr_heap c)"
  shows "lr_inv (push_entry c k a)"
    and "lr_abs (push_entry c k a) = spec_put (lr_maxEntries c) k (lr_heap c ! a) (lr_abs c)"
proof -
  let ?n = "length (lr_elems c)" and ?el = "lr_elems c @ [\<lparr>en_key = k, en_vec = a\<rparr>]"
  note kf = kept_facts [OF assms(1)]
  have old: "?el ! x = lr_elems c ! x" "x < ?n" "en_vec (lr_elems c ! x) < length (lr_heap c)"
      "lr_cache c (en_key (lr_elems c ! x)) = Some x" "en_key (lr_elems c ! x) \<noteq> k" if "x \<in> set (kept c)" for x
    using that kf(2) inv_el [OF assms(1), of x] cached_el [OF assms(1), of x] assms(2) by (auto simp: nth_append)
  have cache: "pushed_cache c k x = Some el \<longleftrightarrow> el \<in> set (?n # kept c) \<and> en_key (?el ! el) = x" for x el
  proof (cases "x = k")
    case True
    then show ?thesis using old(1,5) by (auto simp: pushed_cache_def)
  next
    case False
    then show ?thesis
      using old(1,4) cached_D(2) [OF assms(1)] kf(2) by (auto simp: pushed_cache_def split: option.splits)
  qed
  have "?n \<notin> set (kept c)" using old(2) by blast
  then show "lr_inv (push_entry c k a)"
    unfolding push_entry_eq [OF assms(1,2)] lr_inv_def
    using cache kf(1,3) inv_D(1) [OF assms(1)] assms(3) old(1-3) less_SucI [OF old(2)] by simp
  have t: "take (nat (lr_maxEntries c)) (y # ys) = y # take (nat (lr_maxEntries c) - 1) ys" for y :: "string \<times> vec" and ys
    using inv_D(1) [OF assms(1)] by (cases "nat (lr_maxEntries c)") auto
  have "map (\<lambda>el. (en_key (?el ! el), lr_heap c ! en_vec (?el ! el))) (kept c) =
      map (\<lambda>el. (en_key (lr_elems c ! el), lr_heap c ! en_vec (lr_elems c ! el))) (kept c)"
    using old(1) by simp
  then show "lr_abs (push_entry c k a) = spec_put (lr_maxEntries c) k (lr_heap c ! a) (lr_abs c)"
    unfolding push_entry_eq [OF assms(1,2)] spec_put_def t
    by (simp add: lr_abs_def kf(4) take_map)
qed

section \<open>Simulation\<close>

lemma lookup_copy_None: "lr_inv c \<Longrightarrow> lookup_copy c t = None \<longleftrightarrow> map_of (lr_abs c) t = None"
  by (simp add: lookup_copy_def abs_lookup Let_def split: option.split)

lemma move_heap [simp]: "lr_heap (MoveToFront c el) = lr_heap c" "lr_maxEntries (MoveToFront c el) = lr_maxEntries c"
  "lr_elems (MoveToFront c el) = lr_elems c"
  by (simp_all add: MoveToFront_def)

lemma lookup_copy_Some:
  assumes "lr_inv c" "lookup_copy c t = Some (c', a)"
  shows "lr_inv c'" "lr_abs c' = spec_hit t (lr_abs c)" "heap_ext c c'" "a < length (lr_heap c')"
    "map_of (lr_abs c) t = Some (lr_heap c' ! a)" "lr_maxEntries c' = lr_maxEntries c"
proof -
  from assms(2) obtain el where el: "lr_cache c t = Some el"
    and c': "alloc (MoveToFront c el) (lr_heap c ! en_vec (lr_elems c ! el)) = (c', a)"
    by (auto simp: lookup_copy_def Let_def split: option.splits)
  note m = move_facts [OF assms(1) el]
  note al = alloc_facts [OF m(1), of "lr_heap c ! en_vec (lr_elems c ! el)", unfolded c' fst_conv snd_conv]
  show "lr_inv c'" "lr_abs c' = spec_hit t (lr_abs c)" "a < length (lr_heap c')"
    using al m by simp_all
  show "heap_ext c c'" using heap_ext_alloc [of "MoveToFront c el" "lr_heap c ! en_vec (lr_elems c ! el)"] c'
    by (simp add: heap_ext_def)
  show "map_of (lr_abs c) t = Some (lr_heap c' ! a)" using al(3) el by (simp add: abs_lookup [OF assms(1)])
  show "lr_maxEntries c' = lr_maxEntries c"
    using alloc_fields(1) [of "MoveToFront c el" "lr_heap c ! en_vec (lr_elems c ! el)"] c' by simp
qed

lemma push_heap [simp]: "lr_heap (push_entry c k a) = lr_heap c" "lr_maxEntries (push_entry c k a) = lr_maxEntries c"
  by (simp_all add: push_entry_def PushFront_def Let_def)

text \<open>What the abstract cache does for one text whose embedding is \<open>r\<close>.\<close>

definition spec_embed :: "int \<Rightarrow> string \<Rightarrow> vec option \<Rightarrow> (string \<times> vec) list \<Rightarrow> (string \<times> vec) list" where
  "spec_embed m t r xs =
     (case map_of xs t of
        Some _ \<Rightarrow> spec_hit t xs
      | None \<Rightarrow> (case r of None \<Rightarrow> xs | Some v \<Rightarrow> spec_put m t v xs))"

lemma Embed_sim:
  assumes inv: "lr_inv c"
  shows "lr_inv (fst (Embed f c t)) \<and> heap_ext c (fst (Embed f c t))
    \<and> lr_maxEntries (fst (Embed f c t)) = lr_maxEntries c
    \<and> lr_abs (fst (Embed f c t)) = spec_embed (lr_maxEntries c) t (f t) (lr_abs c)
    \<and> (case snd (Embed f c t) of
         None \<Rightarrow> map_of (lr_abs c) t = None \<and> f t = None
       | Some a \<Rightarrow> a < length (lr_heap (fst (Embed f c t))) \<and>
           Some (lr_heap (fst (Embed f c t)) ! a) = (case map_of (lr_abs c) t of None \<Rightarrow> f t | Some v \<Rightarrow> Some v))"
proof (cases "lookup_copy c t")
  case (Some p)
  then obtain c' a where p: "lookup_copy c t = Some (c', a)" by (cases p) simp
  note l = lookup_copy_Some [OF inv p]
  have "Embed f c t = (c', Some a)" by (simp add: Embed_def p)
  with l show ?thesis by (simp add: spec_embed_def)
next
  case None
  then have m: "map_of (lr_abs c) t = None" by (simp add: lookup_copy_None inv)
  then have n: "lr_cache c t = None" by (simp add: abs_lookup inv)
  show ?thesis
  proof (cases "f t")
    case None
    with \<open>lookup_copy c t = None\<close> m inv show ?thesis by (simp add: Embed_def spec_embed_def)
  next
    case (Some v)
    obtain c1 a where a: "alloc c v = (c1, a)" by (cases "alloc c v")
    note al = alloc_facts [OF inv, of v, unfolded a fst_conv snd_conv]
    have n1: "lr_cache c1 t = None" and mx: "lr_maxEntries c1 = lr_maxEntries c"
      using alloc_fields(1,2) [of c v] a n by simp_all
    then have "lookup_copy c1 t = None" by (simp add: lookup_copy_def)
    then have e: "Embed f c t = (push_entry c1 t a, Some a)"
      using None Some a by (simp add: Embed_def Embed_store_def)
    have "heap_ext c c1" using heap_ext_alloc [of c v] a by simp
    then have h: "heap_ext c (push_entry c1 t a)" by (simp add: heap_ext_def)
    show ?thesis
      unfolding e using push_facts [OF al(1) n1 al(4)] al h mx m Some by (simp add: spec_embed_def)
  qed
qed

section \<open>Transparency\<close>

text \<open>What is cached is what the wrapped embedder computes.\<close>

definition agrees :: "(string \<Rightarrow> vec option) \<Rightarrow> cached_embedder \<Rightarrow> bool" where
  "agrees f c \<longleftrightarrow> lr_inv c \<and> (\<forall>k v. (k, v) \<in> set (lr_abs c) \<longrightarrow> f k = Some v)"

lemma agrees_lookup: "agrees f c \<Longrightarrow> map_of (lr_abs c) t = Some v \<Longrightarrow> f t = Some v"
  by (auto simp: agrees_def dest: map_of_SomeD)

lemma agrees_hit:
  assumes "agrees f c" "map_of (lr_abs c) t = Some v" "lr_inv c'" "lr_abs c' = spec_hit t (lr_abs c)"
  shows "agrees f c'"
  using assms agrees_lookup [OF assms(1,2)] by (auto simp: agrees_def spec_hit_def)

lemma agrees_put:
  assumes "agrees f c" "f t = Some v" "lr_inv c'" "lr_abs c' = spec_put m t v (lr_abs c)"
  shows "agrees f c'"
  using assms by (auto simp: agrees_def spec_put_def dest!: in_set_takeD)

lemma agrees_Embed:
  assumes "agrees f c" "Embed f c t = (c', r)"
  shows "agrees f c' \<and> heap_ext c c' \<and> map_option (\<lambda>a. lr_heap c' ! a) r = f t \<and> (\<forall>a. r = Some a \<longrightarrow> a < length (lr_heap c'))"
proof -
  have inv: "lr_inv c" using assms(1) by (simp add: agrees_def)
  note s = Embed_sim [OF inv, of f t, unfolded assms(2) fst_conv snd_conv]
  have "agrees f c'"
  proof (cases "map_of (lr_abs c) t")
    case None
    with s assms(1) show ?thesis
      by (cases "f t") (auto simp: spec_embed_def agrees_def spec_put_def dest!: in_set_takeD)
  next
    case (Some v)
    with s assms(1) show ?thesis by (auto simp: spec_embed_def intro: agrees_hit)
  qed
  moreover have "map_option (\<lambda>a. lr_heap c' ! a) r = f t"
    using s agrees_lookup [OF assms(1), of t] by (auto split: option.splits)
  ultimately show ?thesis using s by (auto split: option.splits)
qed

lemma batch_scan_agrees:
  assumes "agrees f c" "batch_scan c ts = (c', rs)"
  shows "agrees f c' \<and> heap_ext c c' \<and>
    list_all2 (\<lambda>t r. \<forall>a. r = Some a \<longrightarrow> a < length (lr_heap c') \<and> f t = Some (lr_heap c' ! a)) ts rs"
  using assms
proof (induction ts arbitrary: c rs)
  case (Cons t ts)
  have inv: "lr_inv c" using Cons.prems(1) by (simp add: agrees_def)
  show ?case
  proof (cases "lookup_copy c t")
    case None
    with Cons show ?thesis by (auto split: prod.splits)
  next
    case (Some p)
    then obtain c1 a where p: "lookup_copy c t = Some (c1, a)" by (cases p) simp
    note l = lookup_copy_Some [OF inv p]
    have g: "agrees f c1" using agrees_hit [OF Cons.prems(1) l(5) l(1,2)] .
    obtain rs' where r: "batch_scan c1 ts = (c', rs')" "rs = Some a # rs'"
      using Cons.prems(2) p by (auto split: prod.splits)
    from Cons.IH [OF g r(1)] have h: "heap_ext c1 c'" by simp
    with Cons.IH [OF g r(1)] r l(3,4) heap_ext_nth [OF h l(4)] agrees_lookup [OF Cons.prems(1) l(5)]
    show ?thesis by (auto intro: heap_ext_trans)
  qed
qed simp

lemma fetch_texts_simps [simp]:
  "fetch_texts [] rs = []" "fetch_texts (t # ts) (None # rs) = t # fetch_texts ts rs"
  "fetch_texts (t # ts) (Some a # rs) = fetch_texts ts rs"
  by (simp_all add: fetch_texts_def)

definition fill_one :: "cached_embedder \<Rightarrow> string \<Rightarrow> vec \<Rightarrow> cached_embedder \<times> nat" where
  "fill_one c t v =
     (case alloc c v of (c, a) \<Rightarrow>
        (case lr_cache c t of
           Some el \<Rightarrow> MoveToFront c el
         | None \<Rightarrow> (case alloc c v of (c, b) \<Rightarrow> push_entry c t b), a))"

lemma fill_one_agrees:
  assumes "agrees f c" "f t = Some v" "fill_one c t v = (c', a)"
  shows "agrees f c' \<and> heap_ext c c' \<and> a < length (lr_heap c') \<and> lr_heap c' ! a = v"
proof -
  have inv: "lr_inv c" using assms(1) by (simp add: agrees_def)
  obtain c1 where c1: "alloc c v = (c1, a)" using assms(3) by (auto simp: fill_one_def split: prod.splits)
  note al = alloc_facts [OF inv, of v, unfolded c1 fst_conv snd_conv]
  have g1: "agrees f c1" using assms(1) al by (simp add: agrees_def)
  have h1: "heap_ext c c1" using heap_ext_alloc [of c v] c1 by simp
  show ?thesis
  proof (cases "lr_cache c1 t")
    case (Some el)
    then have "c' = MoveToFront c1 el" using assms(3) c1 by (simp add: fill_one_def)
    moreover have "agrees f (MoveToFront c1 el)"
      by (rule agrees_hit [OF g1 _ move_facts [OF al(1) Some]]) (simp add: abs_lookup [OF al(1)] Some)
    ultimately show ?thesis using h1 al by (simp add: heap_ext_def)
  next
    case None
    obtain c2 b where c2: "alloc c1 v = (c2, b)" by (cases "alloc c1 v")
    note bl = alloc_facts [OF al(1), of v, unfolded c2 fst_conv snd_conv]
    have c': "c' = push_entry c2 t b" using assms(3) c1 c2 None by (simp add: fill_one_def)
    have n: "lr_cache c2 t = None" using alloc_fields(2) [of c1 v] c2 None by simp
    have g2: "agrees f c2" using g1 bl by (simp add: agrees_def)
    have h2: "heap_ext c1 c2" using heap_ext_alloc [of c1 v] c2 by simp
    have "agrees f c'" using agrees_put [OF g2 assms(2)] push_facts [OF bl(1) n bl(4)] bl(3) c' by simp
    moreover have "heap_ext c c'" using heap_ext_trans [OF h1 h2] c' by (simp add: heap_ext_def)
    ultimately show ?thesis using heap_ext_nth [OF h2 al(4)] al(3) c' by simp
  qed
qed

lemma batch_fill_agrees:
  assumes "agrees f c" "those (map f (fetch_texts ts rs)) = Some vs"
    and "list_all2 (\<lambda>t r. \<forall>a. r = Some a \<longrightarrow> a < length (lr_heap c) \<and> f t = Some (lr_heap c ! a)) ts rs"
  shows "\<exists>c' as. batch_fill c ts rs vs = Some (c', as) \<and> agrees f c' \<and> heap_ext c c' \<and>
    list_all2 (\<lambda>t a. a < length (lr_heap c') \<and> f t = Some (lr_heap c' ! a)) ts as"
  using assms
proof (induction ts arbitrary: c rs vs)
  case Nil
  then show ?case by simp
next
  case (Cons t ts)
  from Cons.prems(3) obtain r rs' where rs: "rs = r # rs'" by (cases rs) auto
  show ?case
  proof (cases r)
    case (Some a)
    with Cons.prems rs Cons.IH [of c rs' vs] obtain c' as where
      b: "batch_fill c ts rs' vs = Some (c', as)" "agrees f c'" "heap_ext c c'"
        "list_all2 (\<lambda>t a. a < length (lr_heap c') \<and> f t = Some (lr_heap c' ! a)) ts as"
      by auto
    with Some rs Cons.prems(3) heap_ext_nth [OF b(3), of a] show ?thesis by simp
  next
    case None
    with Cons.prems(2) rs obtain v vs' where v: "vs = v # vs'" "f t = Some v"
        "those (map f (fetch_texts ts rs')) = Some vs'"
      by (auto split: option.splits)
    obtain c1 a where f1: "fill_one c t v = (c1, a)" by (cases "fill_one c t v")
    note g = fill_one_agrees [OF Cons.prems(1) v(2) f1]
    have l2: "list_all2 (\<lambda>t r. \<forall>a. r = Some a \<longrightarrow> a < length (lr_heap c1) \<and> f t = Some (lr_heap c1 ! a)) ts rs'"
      using Cons.prems(3) rs g heap_ext_nth [of c c1] by (auto elim!: list_all2_mono)
    obtain c' as where b: "batch_fill c1 ts rs' vs' = Some (c', as)" "agrees f c'" "heap_ext c1 c'"
        "list_all2 (\<lambda>t a. a < length (lr_heap c') \<and> f t = Some (lr_heap c' ! a)) ts as"
      using Cons.IH [OF _ v(3) l2] g by auto
    have "batch_fill c (t # ts) rs vs = Some (c', a # as)"
      using f1 b(1) rs None v(1) by (auto simp: fill_one_def Let_def split: prod.splits)
    with b g v(2) heap_ext_trans [of c c1 c'] heap_ext_nth [OF b(3), of a] show ?thesis by auto
  qed
qed

lemma list_all2_contents:
  "list_all2 (\<lambda>t a. P a \<and> f t = Some (h a)) ts as \<Longrightarrow> those (map f ts) = Some (map h as)"
  by (induction ts as rule: list_all2_induct) simp_all

lemma those_None: "those (map f (fetch_texts ts rs)) = None \<Longrightarrow> length rs = length ts \<Longrightarrow> those (map f ts) = None"
proof (induction ts arbitrary: rs)
  case (Cons t ts)
  then obtain r rs' where "rs = r # rs'" by (cases rs) auto
  with Cons show ?case by (cases r) (auto split: option.splits)
qed simp

lemma no_gaps: "length rs = length ts \<Longrightarrow> fetch_texts ts rs = [] \<Longrightarrow> \<forall>r\<in>set rs. \<exists>a. r = Some a"
proof (induction ts arbitrary: rs)
  case (Cons t ts)
  then obtain r rs' where "rs = r # rs'" by (cases rs) auto
  with Cons show ?case by (cases r) auto
qed simp

lemma list_all2_the:
  "list_all2 (\<lambda>t r. \<forall>a. r = Some a \<longrightarrow> Q t a) ts rs \<Longrightarrow> \<forall>r\<in>set rs. \<exists>a. r = Some a \<Longrightarrow> list_all2 Q ts (map the rs)"
  by (induction ts rs rule: list_all2_induct) auto

text \<open>The wrapped embedder's batch call computes its single call on every text.\<close>

definition batch_of :: "(string \<Rightarrow> vec option) \<Rightarrow> string list \<Rightarrow> vec list option" where
  "batch_of f ts = those (map f ts)"

lemma EmbedBatch_agrees:
  assumes "agrees f c" "EmbedBatch (batch_of f) c ts = (c', r)"
  shows "agrees f c' \<and> (case those (map f ts) of
      None \<Rightarrow> r = BatchError | Some vs \<Rightarrow> \<exists>as. r = BatchOk as \<and> map (\<lambda>a. lr_heap c' ! a) as = vs)"
proof -
  obtain c1 rs where s: "batch_scan c ts = (c1, rs)" by (cases "batch_scan c ts")
  note b = batch_scan_agrees [OF assms(1) s]
  then have len: "length rs = length ts" by (auto dest: list_all2_lengthD)
  show ?thesis
  proof (cases "fetch_texts ts rs = []")
    case True
    have "list_all2 (\<lambda>t a. a < length (lr_heap c1) \<and> f t = Some (lr_heap c1 ! a)) ts (map the rs)"
      using b no_gaps [OF len True] by (intro list_all2_the) simp_all
    from list_all2_contents [OF this] True assms(2) s b show ?thesis
      by (auto simp: EmbedBatch_def)
  next
    case False
    show ?thesis
    proof (cases "those (map f (fetch_texts ts rs))")
      case None
      with those_None [OF None len] False assms(2) s b show ?thesis
        by (simp add: EmbedBatch_def batch_of_def)
    next
      case (Some vs)
      from batch_fill_agrees [OF conjunct1 [OF b] Some] b obtain c2 as where
        f: "batch_fill c1 ts rs vs = Some (c2, as)" "agrees f c2"
          "list_all2 (\<lambda>t a. a < length (lr_heap c2) \<and> f t = Some (lr_heap c2 ! a)) ts as"
        by blast
      from list_all2_contents [OF f(3)] False Some f(1,2) assms(2) s show ?thesis
        by (auto simp: EmbedBatch_def batch_of_def)
    qed
  qed
qed

text \<open>A client's calls, each with the vectors it sees when it returns.\<close>

datatype ecall = One string | Many "string list"

fun call :: "(string \<Rightarrow> vec option) \<Rightarrow> cached_embedder \<Rightarrow> ecall \<Rightarrow> cached_embedder \<times> vec list option" where
  "call f c (One t) =
     (case Embed f c t of (c, r) \<Rightarrow> (c, map_option (\<lambda>a. [lr_heap c ! a]) r))"
| "call f c (Many ts) =
     (case EmbedBatch (batch_of f) c ts of
        (c, BatchOk as) \<Rightarrow> (c, Some (map (\<lambda>a. lr_heap c ! a) as))
      | (c, _) \<Rightarrow> (c, None))"

fun direct :: "(string \<Rightarrow> vec option) \<Rightarrow> ecall \<Rightarrow> vec list option" where
  "direct f (One t) = map_option (\<lambda>v. [v]) (f t)"
| "direct f (Many ts) = those (map f ts)"

fun calls :: "(string \<Rightarrow> vec option) \<Rightarrow> cached_embedder \<Rightarrow> ecall list \<Rightarrow> vec list option list" where
  "calls f c [] = []"
| "calls f c (e # es) = (case call f c e of (c, r) \<Rightarrow> r # calls f c es)"

lemma call_agrees:
  assumes "agrees f c"
  shows "agrees f (fst (call f c e)) \<and> snd (call f c e) = direct f e"
proof (cases e)
  case (One t)
  obtain c' r where "Embed f c t = (c', r)" by (cases "Embed f c t")
  with One agrees_Embed [OF assms this] show ?thesis by (cases r; cases "f t") auto
next
  case (Many ts)
  obtain c' r where "EmbedBatch (batch_of f) c ts = (c', r)" by (cases "EmbedBatch (batch_of f) c ts")
  with Many EmbedBatch_agrees [OF assms this] show ?thesis by (auto split: option.splits)
qed

lemma agrees_New: "agrees f (NewCachedEmbedder n)"
  by (auto simp: agrees_def lr_inv_def lr_abs_def NewCachedEmbedder_def)

lemma calls_direct: "agrees f c \<Longrightarrow> calls f c es = map (direct f) es"
proof (induction es arbitrary: c)
  case (Cons e es)
  then show ?case using call_agrees [OF Cons.prems, of e] by (auto split: prod.splits)
qed simp

section \<open>Properties\<close>

text \<open>
  The embedding cache is transparent. Whatever single and batch calls a client makes, in whatever
  order and however small the cache, each returns exactly what the wrapped embedder returns, errors
  included, and no batch runs past the end of the fetched vectors.
\<close>

theorem embed_cache_transparent:
  "calls f (NewCachedEmbedder n) es = map (direct f) es"
  by (rule calls_direct [OF agrees_New])

text \<open>
  One call implements an LRU list. On a cache in order, \<open>Embed\<close> moves a hit to the front, puts a
  computed vector at the front and drops the least recently used entry when the cache is full; a
  failed computation changes nothing, and the map and the list stay consistent and within the size.
\<close>

theorem embed_cache_is_lru:
  assumes "lr_inv c"
  shows "lr_inv (fst (Embed f c t))
    \<and> lr_abs (fst (Embed f c t)) =
        (case map_of (lr_abs c) t of
           Some v \<Rightarrow> (t, v) # filter (\<lambda>p. fst p \<noteq> t) (lr_abs c)
         | None \<Rightarrow> (case f t of None \<Rightarrow> lr_abs c | Some v \<Rightarrow> take (nat (lr_maxEntries c)) ((t, v) # lr_abs c)))
    \<and> int (length (lr_abs (fst (Embed f c t)))) \<le> lr_maxEntries c"
proof -
  note s = Embed_sim [OF assms, of f t]
  let ?d = "fst (Embed f c t)"
  have i: "lr_inv ?d" "lr_maxEntries ?d = lr_maxEntries c" using s by blast+
  have "length (lr_abs ?d) = length (lr_ll ?d)" by (simp only: lr_abs_def length_map)
  then have "int (length (lr_abs ?d)) \<le> lr_maxEntries c"
    using inv_D(3) [OF i(1)] i(2) by (simp only:)
  with s show ?thesis by (simp add: spec_embed_def spec_hit_def spec_put_def split: option.splits)
qed

theorem embed_cache_is_lru_witness:
  "lr_abs (fst (Embed (\<lambda>t. Some [real (length t)]) (NewCachedEmbedder 1) ''ab'')) = [(''ab'', [2])]"
proof -
  have "lr_inv (NewCachedEmbedder 1)" using agrees_New [of "\<lambda>_. None" 1] by (simp add: agrees_def)
  from embed_cache_is_lru [OF this, of "\<lambda>t. Some [real (length t)]" "''ab''"]
  show ?thesis by (simp add: NewCachedEmbedder_def lr_abs_def)
qed

text \<open>
  The vector a miss returns is the cached one. A hit hands out a copy, a miss the very slice it
  has just cached: when the first caller writes into its result, every later caller gets what was
  written in place of the embedding.
\<close>

theorem embed_miss_aliases_cache:
  assumes "lr_inv c" "lr_cache c t = None" "f t = Some v" "Embed f c t = (c1, Some a)"
    and "Embed f (c1\<lparr>lr_heap := (lr_heap c1)[a := w]\<rparr>) t = (c2, Some b)"
  shows "a \<noteq> b \<and> lr_heap c2 ! b = w"
proof -
  obtain c0 a0 where c0: "alloc c v = (c0, a0)" by (cases "alloc c v")
  note al = alloc_facts [OF assms(1), of v, unfolded c0 fst_conv snd_conv]
  have n0: "lr_cache c0 t = None" using alloc_fields(2) [of c v] c0 assms(2) by simp
  have e: "c1 = push_entry c0 t a" "a = a0"
    using assms(2-4) n0 c0 by (auto simp: Embed_def Embed_store_def lookup_copy_def)
  have el: "lr_cache c1 t = Some (length (lr_elems c0))" "en_vec (lr_elems c1 ! length (lr_elems c0)) = a"
    unfolding e push_entry_eq [OF al(1) n0] by (simp_all add: pushed_cache_def)
  have h: "lr_heap c1 = lr_heap c0" using e by simp
  with al(4) e have "a < length (lr_heap c1)" by simp
  then show ?thesis
    using assms(5) el
    by (auto simp: Embed_def lookup_copy_def Let_def alloc_def MoveToFront_def nth_append)
qed

theorem embed_miss_aliases_cache_witness:
  "\<exists>c1 a c2 b. Embed (\<lambda>_. Some [1]) (NewCachedEmbedder 4) ''q'' = (c1, Some a)
     \<and> Embed (\<lambda>_. Some [1]) (c1\<lparr>lr_heap := (lr_heap c1)[a := [7]]\<rparr>) ''q'' = (c2, Some b) \<and> lr_heap c2 ! b = [7]"
proof -
  let ?f = "\<lambda>_. Some [1]" and ?c = "NewCachedEmbedder 4"
  have i: "lr_inv ?c" using agrees_New [of "\<lambda>_. None" 4] by (simp add: agrees_def)
  obtain c1 a where c1: "Embed ?f ?c ''q'' = (c1, Some a)" "lr_cache c1 ''q'' \<noteq> None"
    by (simp add: Embed_def lookup_copy_def NewCachedEmbedder_def alloc_def Embed_store_def push_entry_def PushFront_def)
  then obtain c2 b where c2: "Embed ?f (c1\<lparr>lr_heap := (lr_heap c1)[a := [7]]\<rparr>) ''q'' = (c2, Some b)"
    by (auto simp: Embed_def lookup_copy_def Let_def alloc_def split: option.splits)
  have "lr_heap c2 ! b = [7]"
    using embed_miss_aliases_cache [OF i _ _ c1(1) c2] by (simp add: NewCachedEmbedder_def)
  with c1 c2 show ?thesis by blast
qed

end
