(* ===== verification/GoStrings.thy ===== *)
theory GoStrings
  imports Prelude
begin

text \<open>
  What the program uses of Go's \<open>strings\<close> package, on byte strings. White space and letter case are
  those of ASCII; bytes above 127 are neither space nor letter here.
\<close>

section \<open>Characters\<close>

definition is_space :: "char \<Rightarrow> bool" where
  "is_space c \<longleftrightarrow> c \<in> {CHR '' '', CHR 0x09, CHR 0x0A, CHR 0x0B, CHR 0x0C, CHR 0x0D}"

definition lower :: "char \<Rightarrow> char" where
  "lower c = (let n = of_char c :: nat in if 65 \<le> n \<and> n \<le> 90 then char_of (n + 32) else c)"

definition is_digit :: "char \<Rightarrow> bool" where
  "is_digit c \<longleftrightarrow> (let n = of_char c :: nat in 48 \<le> n \<and> n \<le> 57)"

section \<open>Strings\<close>

definition ToLower :: "string \<Rightarrow> string" where
  "ToLower s = map lower s"

definition TrimLeft :: "string \<Rightarrow> string" where
  "TrimLeft s = dropWhile is_space s"

definition TrimRight :: "string \<Rightarrow> string" where
  "TrimRight s = rev (dropWhile is_space (rev s))"

definition TrimSpace :: "string \<Rightarrow> string" where
  "TrimSpace s = TrimRight (TrimLeft s)"

fun HasPrefix :: "string \<Rightarrow> string \<Rightarrow> bool" where
  "HasPrefix s [] = True"
| "HasPrefix [] (_ # _) = False"
| "HasPrefix (x # xs) (y # ys) = (x = y \<and> HasPrefix xs ys)"

definition HasSuffix :: "string \<Rightarrow> string \<Rightarrow> bool" where
  "HasSuffix s t = HasPrefix (rev s) (rev t)"

text \<open>The position of the first occurrence.\<close>

fun StrIndex :: "string \<Rightarrow> string \<Rightarrow> nat option" where
  "StrIndex [] t = (if t = [] then Some 0 else None)"
| "StrIndex (x # xs) t = (if HasPrefix (x # xs) t then Some 0 else map_option Suc (StrIndex xs t))"

definition Contains :: "string \<Rightarrow> string \<Rightarrow> bool" where
  "Contains s t \<longleftrightarrow> StrIndex s t \<noteq> None"

text \<open>\<open>strings.Split\<close> with a separator of one byte.\<close>

fun SplitOn :: "char \<Rightarrow> string \<Rightarrow> string list" where
  "SplitOn sep [] = [[]]"
| "SplitOn sep (c # cs) =
     (if c = sep then [] # SplitOn sep cs
      else (case SplitOn sep cs of p # ps \<Rightarrow> (c # p) # ps | [] \<Rightarrow> [[c]]))"

definition Join :: "string \<Rightarrow> string list \<Rightarrow> string" where
  "Join sep parts = concat (case parts of [] \<Rightarrow> [] | p # ps \<Rightarrow> p # map (\<lambda>q. sep @ q) ps)"

section \<open>Lemmas\<close>

lemma HasPrefix_iff: "HasPrefix s t \<longleftrightarrow> (\<exists>r. s = t @ r)"
  by (induction s t rule: HasPrefix.induct) auto

lemma HasPrefix_append [simp]: "HasPrefix (t @ r) t"
  by (auto simp: HasPrefix_iff)

lemma StrIndex_Some:
  "StrIndex s t = Some n \<Longrightarrow> n + length t \<le> length s \<and> take (length t) (drop n s) = t"
proof (induction s arbitrary: n)
  case (Cons x xs)
  show ?case
  proof (cases "HasPrefix (x # xs) t")
    case True
    then obtain r where "x # xs = t @ r" by (auto simp: HasPrefix_iff)
    then have "length t \<le> length (x # xs)" "take (length t) (x # xs) = t" by simp_all
    with True Cons.prems show ?thesis by auto
  next
    case False
    with Cons.prems obtain m where "StrIndex xs t = Some m" "n = Suc m" by auto
    with Cons.IH [of m] show ?thesis by simp
  qed
qed (auto split: if_splits)

lemma Contains_iff: "Contains s t \<longleftrightarrow> (\<exists>a b. s = a @ t @ b)"
proof
  assume "Contains s t"
  then obtain n where "StrIndex s t = Some n" by (auto simp: Contains_def)
  from StrIndex_Some [OF this] have "s = take n s @ t @ drop (length t) (drop n s)"
    by (metis append_take_drop_id)
  then show "\<exists>a b. s = a @ t @ b" by blast
next
  have "StrIndex (a @ t @ b) t \<noteq> None" for a b
  proof (induction a)
    case Nil
    have "HasPrefix (t @ b) t" by simp
    then show ?case by (cases "t @ b") auto
  qed auto
  then show "\<exists>a b. s = a @ t @ b \<Longrightarrow> Contains s t" by (auto simp: Contains_def)
qed

lemma Contains_append [simp]: "Contains (a @ t @ b) t"
  by (auto simp: Contains_iff)

lemma Contains_self [simp]: "Contains t t"
  using Contains_append [of "[]" t "[]"] by simp

lemma SplitOn_ne: "SplitOn sep s \<noteq> []"
  by (induction sep s rule: SplitOn.induct) (auto split: list.splits)

lemma SplitOn_no_sep: "sep \<notin> set a \<Longrightarrow> SplitOn sep a = [a]"
  by (induction a) auto

lemma SplitOn_append: "sep \<notin> set a \<Longrightarrow> SplitOn sep (a @ sep # b) = a # SplitOn sep b"
  by (induction a) auto

lemma dropWhile_none: "\<forall>c\<in>set s. \<not> P c \<Longrightarrow> dropWhile P s = s"
  by (cases s) auto

lemma TrimSpace_id: "\<forall>c\<in>set s. \<not> is_space c \<Longrightarrow> TrimSpace s = s"
  by (simp add: TrimSpace_def TrimLeft_def TrimRight_def dropWhile_none)

lemma set_Join: "set (Join sep xs) \<subseteq> set sep \<union> \<Union> (set ` set xs)"
  by (cases xs) (auto simp: Join_def)

section \<open>Decimal numbers\<close>

fun decimal :: "nat \<Rightarrow> string" where
  "decimal n = (if n < 10 then [char_of (48 + n)] else decimal (n div 10) @ [char_of (48 + n mod 10)])"

declare decimal.simps [simp del]

lemma decimal_line: "CHR 0x0A \<notin> set (decimal n)"
proof (induction n rule: decimal.induct)
  case (1 n)
  have d: "CHR 0x0A \<noteq> char_of (48 + k)" if "k < 10" for k :: nat
  proof
    assume "CHR 0x0A = char_of (48 + k)"
    then have "(of_char (CHR 0x0A) :: nat) = of_char (char_of (48 + k) :: char)" by simp
    with that show False by simp
  qed
  show ?case using 1 d [of n] d [of "n mod 10"] by (subst decimal.simps) simp
qed

section \<open>Order\<close>

text \<open>\<open><\<close> on strings, \<open>bytes.Compare\<close> below zero: the lexicographic order of the bytes.\<close>

fun bytes_less :: "string \<Rightarrow> string \<Rightarrow> bool" where
  "bytes_less [] [] = False"
| "bytes_less [] (_ # _) = True"
| "bytes_less (_ # _) [] = False"
| "bytes_less (x # xs) (y # ys) = (of_char x < (of_char y :: nat) \<or> (x = y \<and> bytes_less xs ys))"

lemma bytes_less_asym: "bytes_less x y \<Longrightarrow> \<not> bytes_less y x"
  by (induction x y rule: bytes_less.induct) auto

lemma bytes_less_total: "x \<noteq> y \<Longrightarrow> bytes_less x y \<or> bytes_less y x"
proof (induction x y rule: bytes_less.induct)
  case (4 x xs y ys)
  have "x \<noteq> y \<Longrightarrow> of_char x < (of_char y :: nat) \<or> of_char y < (of_char x :: nat)"
    by (metis of_char_eq_iff linorder_neqE_nat)
  with 4 show ?case by (cases "x = y") auto
qed auto

lemma bytes_less_trans: "bytes_less x y \<Longrightarrow> bytes_less y z \<Longrightarrow> bytes_less x z"
proof (induction x y arbitrary: z rule: bytes_less.induct)
  case (2 c cs)
  then show ?case by (cases z) auto
next
  case (4 c cs d ds)
  then show ?case by (cases z) auto
qed auto

lemma bytes_less_irrefl [simp]: "\<not> bytes_less x x"
  using bytes_less_asym by blast

section \<open>Parsing a number\<close>

text \<open>\<open>strconv.Atoi\<close> on 64-bit: an optional sign and at least one digit, within the range of \<open>int\<close>.\<close>

definition digits_value :: "string \<Rightarrow> int" where
  "digits_value s = foldl (\<lambda>n c. 10 * n + int (of_char c) - 48) 0 s"

definition Atoi :: "string \<Rightarrow> int option" where
  "Atoi s =
     (let (neg, ds) = (case s of
          c # cs \<Rightarrow> if c = CHR ''-'' then (True, cs) else if c = CHR ''+'' then (False, cs) else (False, s)
        | [] \<Rightarrow> (False, []));
          n = (if neg then - digits_value ds else digits_value ds)
      in if ds \<noteq> [] \<and> list_all is_digit ds \<and> - (2 ^ 63) \<le> n \<and> n < 2 ^ 63 then Some n else None)"

end
