(* ===== verification/ClientIP.thy ===== *)
theory ClientIP
  imports GoStrings
begin

text \<open>
  \<open>internal/ratelimit/clientip.go\<close> and \<open>allowlist.go\<close>: which client address a request counts for, and
  the inbound address allowlist. Addresses are kept the way \<open>net.IP\<close> compares them, four bytes or
  sixteen. Parsing and printing of addresses and CIDRs (\<open>net.ParseIP\<close>, \<open>IP.String\<close>, \<open>net.ParseCIDR\<close>,
  \<open>net.SplitHostPort\<close>) are the parameters collected in \<open>netlib\<close>.
\<close>

section \<open>Addresses\<close>

datatype ip = V4 "32 word" | V6 "128 word"

datatype ipnet = Net4 "32 word" "32 word" | Net6 "128 word" "128 word"

fun net_Contains :: "ipnet \<Rightarrow> ip \<Rightarrow> bool" where
  "net_Contains (Net4 b m) (V4 x) = (and x m = and b m)"
| "net_Contains (Net6 b m) (V6 x) = (and x m = and b m)"
| "net_Contains _ _ = False"

record netlib =
  ParseIP :: "string \<Rightarrow> ip option"
  IPString :: "ip \<Rightarrow> string"
  ParseCIDR :: "string \<Rightarrow> ipnet option"
  SplitHost :: "string \<Rightarrow> string option"

text \<open>Documented behaviour: an address prints to a text that parses to it.\<close>

definition netlib_ok :: "netlib \<Rightarrow> bool" where
  "netlib_ok N \<longleftrightarrow> (\<forall>a. ParseIP N (IPString N a) = Some a)"

section \<open>Configuration\<close>

definition singleIPNet :: "ip \<Rightarrow> ipnet" where
  "singleIPNet a = (case a of V4 x \<Rightarrow> Net4 x (- 1) | V6 x \<Rightarrow> Net6 x (- 1))"

fun parse_entries :: "netlib \<Rightarrow> string list \<Rightarrow> string + ipnet list" where
  "parse_entries N [] = Inr []"
| "parse_entries N (p # ps) =
     (let p = TrimSpace p in
      if p = [] then parse_entries N ps
      else case ParseCIDR N p of
        Some n \<Rightarrow> (case parse_entries N ps of Inl e \<Rightarrow> Inl e | Inr ns \<Rightarrow> Inr (n # ns))
      | None \<Rightarrow>
          (case ParseIP N p of
             Some a \<Rightarrow> (case parse_entries N ps of Inl e \<Rightarrow> Inl e | Inr ns \<Rightarrow> Inr (singleIPNet a # ns))
           | None \<Rightarrow> Inl p))"

definition ParseTrustedCIDRs :: "netlib \<Rightarrow> string \<Rightarrow> string + ipnet list" where
  "ParseTrustedCIDRs N raw =
     (let raw = TrimSpace raw in if raw = [] then Inr [] else parse_entries N (SplitOn CHR '','' raw))"

section \<open>Resolution\<close>

text \<open>A resolver is its list of trusted networks; a request has its peer and two headers.\<close>

record request =
  RemoteAddr :: string
  XFF :: string
  XRealIP :: string

definition peerIP :: "netlib \<Rightarrow> string \<Rightarrow> string" where
  "peerIP N remoteAddr =
     (if remoteAddr = [] then []
      else case SplitHost N remoteAddr of Some h \<Rightarrow> h | None \<Rightarrow> remoteAddr)"

definition anyTrusted :: "netlib \<Rightarrow> ipnet list \<Rightarrow> string \<Rightarrow> bool" where
  "anyTrusted N trusted ipStr =
     (case ParseIP N ipStr of None \<Rightarrow> False | Some a \<Rightarrow> list_ex (\<lambda>n. net_Contains n a) trusted)"

fun walk_hops :: "netlib \<Rightarrow> ipnet list \<Rightarrow> string list \<Rightarrow> string" where
  "walk_hops N trusted [] = []"
| "walk_hops N trusted (h # hs) =
     (let tok = TrimSpace h in
      if tok = [] then walk_hops N trusted hs
      else case ParseIP N tok of
        None \<Rightarrow> walk_hops N trusted hs
      | Some a \<Rightarrow> if \<not> anyTrusted N trusted (IPString N a) then IPString N a else walk_hops N trusted hs)"

definition leftmostUntrusted :: "netlib \<Rightarrow> ipnet list \<Rightarrow> string \<Rightarrow> string" where
  "leftmostUntrusted N trusted xff = walk_hops N trusted (SplitOn CHR '','' xff)"

definition real_ip :: "netlib \<Rightarrow> request \<Rightarrow> string \<Rightarrow> string" where
  "real_ip N req peer =
     (let xrip = TrimSpace (XRealIP req) in
      if xrip = [] then peer
      else case ParseIP N xrip of Some a \<Rightarrow> IPString N a | None \<Rightarrow> peer)"

definition Resolve :: "netlib \<Rightarrow> ipnet list option \<Rightarrow> request \<Rightarrow> string" where
  "Resolve N r req =
     (let peer = peerIP N (RemoteAddr req) in
      case r of
        None \<Rightarrow> peer
      | Some trusted \<Rightarrow>
          if trusted = [] then peer
          else if \<not> anyTrusted N trusted peer then peer
          else if XFF req \<noteq> [] \<and> leftmostUntrusted N trusted (XFF req) \<noteq> []
               then leftmostUntrusted N trusted (XFF req)
          else real_ip N req peer)"

definition Trusted :: "ipnet list option \<Rightarrow> bool" where
  "Trusted r = (case r of None \<Rightarrow> False | Some t \<Rightarrow> t \<noteq> [])"

definition SetTrustedProxies :: "ipnet list option \<Rightarrow> ipnet list \<Rightarrow> ipnet list option" where
  "SetTrustedProxies r trusted = map_option (\<lambda>_. trusted) r"

section \<open>The allowlist\<close>

text \<open>
  \<open>Wrap\<close> decides when the server is assembled: with no CIDRs then, the handler is passed through for
  good. A wrapped handler reads the current list on every request.
\<close>

record allowlist =
  al_cidrs :: "ipnet list"
  al_resolver :: "ipnet list option"

datatype verdict = Pass | Forbidden

definition AllowEnabled :: "allowlist option \<Rightarrow> bool" where
  "AllowEnabled m = (case m of None \<Rightarrow> False | Some m \<Rightarrow> al_cidrs m \<noteq> [])"

definition SetCIDRs :: "allowlist option \<Rightarrow> ipnet list \<Rightarrow> allowlist option" where
  "SetCIDRs m cidrs = map_option (\<lambda>m. m\<lparr>al_cidrs := cidrs\<rparr>) m"

definition anyAllowed :: "netlib \<Rightarrow> allowlist \<Rightarrow> string \<Rightarrow> bool" where
  "anyAllowed N m ipStr =
     (if al_cidrs m = [] then True
      else case ParseIP N ipStr of None \<Rightarrow> False | Some a \<Rightarrow> list_ex (\<lambda>n. net_Contains n a) (al_cidrs m))"

definition AllowWrap :: "allowlist option \<Rightarrow> bool" where
  "AllowWrap m = AllowEnabled m"

definition allow_handle :: "netlib \<Rightarrow> bool \<Rightarrow> allowlist option \<Rightarrow> bool \<Rightarrow> request \<Rightarrow> verdict" where
  "allow_handle N wrapped m exempt req =
     (if \<not> wrapped then Pass
      else if exempt then Pass
      else case m of
        None \<Rightarrow> Pass
      | Some m \<Rightarrow> if anyAllowed N m (Resolve N (al_resolver m) req) then Pass else Forbidden)"

section \<open>Lemmas\<close>

lemma untrusted_peer: "\<not> anyTrusted N trusted (peerIP N (RemoteAddr req)) \<Longrightarrow>
    Resolve N (Some trusted) req = peerIP N (RemoteAddr req)"
  by (simp add: Resolve_def Let_def)

lemma nobody_trusted: "Resolve N None req = peerIP N (RemoteAddr req)" "Resolve N (Some []) req = peerIP N (RemoteAddr req)"
  by (simp_all add: Resolve_def Let_def)

lemma walk_all_trusted:
  "\<forall>h\<in>set hops. \<forall>a. ParseIP N (TrimSpace h) = Some a \<longrightarrow> anyTrusted N trusted (IPString N a) \<Longrightarrow>
   walk_hops N trusted hops = []"
  by (induction N trusted hops rule: walk_hops.induct) (auto simp: Let_def split: option.splits)

text \<open>When every hop is trusted the walk yields nothing and the peer answers, not the original client.\<close>

lemma all_trusted_gives_peer:
  assumes "\<forall>h\<in>set (SplitOn CHR '','' (XFF req)). \<forall>a. ParseIP N (TrimSpace h) = Some a \<longrightarrow> anyTrusted N trusted (IPString N a)"
    and "XRealIP req = []"
  shows "Resolve N (Some trusted) req = peerIP N (RemoteAddr req)"
  using walk_all_trusted [OF assms(1)] assms(2)
  by (simp add: Resolve_def leftmostUntrusted_def real_ip_def TrimSpace_def TrimLeft_def TrimRight_def Let_def)

text \<open>An allowlist that was empty when the server was assembled is never enforced.\<close>

lemma allowlist_set_late:
  "al_cidrs m = [] \<Longrightarrow> allow_handle N (AllowWrap (Some m)) (SetCIDRs (Some m) cidrs) exempt req = Pass"
  by (simp add: allow_handle_def AllowWrap_def AllowEnabled_def)

text \<open>A printed address is one token of the header.\<close>

definition one_token :: "string \<Rightarrow> bool" where
  "one_token s \<longleftrightarrow> s \<noteq> [] \<and> CHR '','' \<notin> set s \<and> (\<forall>c\<in>set s. \<not> is_space c)"

lemma walk_first:
  assumes "netlib_ok N" "\<not> anyTrusted N trusted (IPString N a)" "one_token (IPString N a)"
  shows "walk_hops N trusted (IPString N a # hs) = IPString N a"
  using assms by (simp add: TrimSpace_id one_token_def netlib_ok_def)

section \<open>An instance of the address library\<close>

text \<open>Addresses written in binary: enough to evaluate the definitions.\<close>

definition bits_of :: "nat \<Rightarrow> (nat \<Rightarrow> bool) \<Rightarrow> string" where
  "bits_of n f = map (\<lambda>i. if f i then CHR ''1'' else CHR ''0'') [0..<n]"

definition binlib :: netlib where
  "binlib = \<lparr>
     ParseIP = (\<lambda>s. case s of
         [] \<Rightarrow> None
       | c # cs \<Rightarrow>
           if c = CHR ''4'' \<and> length cs = 32 then Some (V4 (horner_sum of_bool 2 (map (\<lambda>c. c = CHR ''1'') cs)))
           else if c = CHR ''6'' \<and> length cs = 128 then Some (V6 (horner_sum of_bool 2 (map (\<lambda>c. c = CHR ''1'') cs)))
           else None),
     IPString = (\<lambda>a. case a of V4 x \<Rightarrow> CHR ''4'' # bits_of 32 (bit x) | V6 x \<Rightarrow> CHR ''6'' # bits_of 128 (bit x)),
     ParseCIDR = (\<lambda>_. None),
     SplitHost = (\<lambda>_. None)\<rparr>"

lemma bits_back:
  fixes x :: "'a::len word"
  assumes "LENGTH('a) = n"
  shows "horner_sum of_bool 2 (map (\<lambda>c. c = CHR ''1'') (bits_of n (bit x))) = x"
proof -
  have "map (\<lambda>c. c = CHR ''1'') (bits_of n (bit x)) = map (bit x) [0..<n]"
    by (simp add: bits_of_def)
  moreover have "take_bit n x = x" using assms by (auto simp: take_bit_word_eq_self)
  ultimately show ?thesis by (simp add: horner_sum_bit_eq_take_bit)
qed

lemma binlib_ok: "netlib_ok binlib"
proof -
  have "ParseIP binlib (IPString binlib a) = Some a" for a
  proof (cases a)
    case (V4 x)
    have "length (bits_of 32 (bit x)) = 32" by (simp add: bits_of_def)
    with V4 bits_back [of 32 x] show ?thesis by (simp add: binlib_def)
  next
    case (V6 x)
    have "length (bits_of 128 (bit x)) = 128" by (simp add: bits_of_def)
    with V6 bits_back [of 128 x] show ?thesis by (simp add: binlib_def)
  qed
  then show ?thesis by (simp add: netlib_ok_def)
qed

lemma binlib_token: "one_token (IPString binlib a)"
  by (cases a) (auto simp: one_token_def binlib_def bits_of_def is_space_def)

lemma binlib_trusted: "anyTrusted binlib trusted (IPString binlib a) = list_ex (\<lambda>n. net_Contains n a) trusted"
  using binlib_ok by (simp add: anyTrusted_def netlib_ok_def)

lemma binlib_peer: "peerIP binlib s = s"
  by (simp add: peerIP_def binlib_def)

section \<open>Properties\<close>

text \<open>
  A client that does not come through a trusted proxy cannot choose its address. When no network
  is trusted or the peer is in none of them, the resolved address is the peer's, whatever the
  forwarding headers say, and so the allowlist's verdict does not depend on them either.
\<close>

theorem untrusted_peer_cannot_spoof:
  assumes "trusted = [] \<or> \<not> anyTrusted N trusted (peerIP N (RemoteAddr req))"
    and "RemoteAddr req' = RemoteAddr req"
  shows "Resolve N (Some trusted) req' = peerIP N (RemoteAddr req)
    \<and> allow_handle N w (Some \<lparr>al_cidrs = cidrs, al_resolver = Some trusted\<rparr>) e req'
        = allow_handle N w (Some \<lparr>al_cidrs = cidrs, al_resolver = Some trusted\<rparr>) e req"
  using assms by (auto simp: allow_handle_def untrusted_peer nobody_trusted)

theorem untrusted_peer_cannot_spoof_witness:
  "Resolve binlib (Some [Net4 (-1) (-1)]) \<lparr>RemoteAddr = IPString binlib (V4 5), XFF = IPString binlib (V4 7), XRealIP = []\<rparr>
     = IPString binlib (V4 5)"
proof -
  let ?r = "\<lparr>RemoteAddr = IPString binlib (V4 5), XFF = [], XRealIP = []\<rparr>"
  have "\<not> anyTrusted binlib [Net4 (-1) (-1)] (peerIP binlib (RemoteAddr ?r))"
    by (simp add: binlib_peer binlib_trusted)
  with untrusted_peer_cannot_spoof [of "[Net4 (-1) (-1)]" binlib ?r
      "\<lparr>RemoteAddr = IPString binlib (V4 5), XFF = IPString binlib (V4 7), XRealIP = []\<rparr>"]
  show ?thesis by (simp add: binlib_peer)
qed

text \<open>
  Behind a trusted proxy a client chooses its address. Proxies append to \<open>X-Forwarded-For\<close>, so
  what the client itself sends comes first; the walk from the left returns any untrusted address put
  there, whatever the proxies append after it, and the allowlist passes the request when that address
  is in an allowed network.
\<close>

theorem forwarded_address_is_spoofable:
  assumes "netlib_ok N" "one_token (IPString N a)" "trusted \<noteq> []"
    and "anyTrusted N trusted (peerIP N (RemoteAddr req))" "\<not> anyTrusted N trusted (IPString N a)"
    and "XFF req = IPString N a @ CHR '','' # appended" "cidr \<in> set cidrs" "net_Contains cidr a"
  shows "Resolve N (Some trusted) req = IPString N a
    \<and> allow_handle N True (Some \<lparr>al_cidrs = cidrs, al_resolver = Some trusted\<rparr>) False req = Pass"
proof -
  have "leftmostUntrusted N trusted (XFF req) = IPString N a"
    using assms(2,6) walk_first [OF assms(1,5,2)]
    by (simp add: leftmostUntrusted_def SplitOn_append one_token_def)
  then have r: "Resolve N (Some trusted) req = IPString N a"
    using assms(2-4,6) by (simp add: Resolve_def one_token_def Let_def)
  have "ParseIP N (IPString N a) = Some a" using assms(1) by (simp add: netlib_ok_def)
  with r assms(7,8) show ?thesis by (auto simp: allow_handle_def anyAllowed_def list_ex_iff)
qed

theorem forwarded_address_is_spoofable_witness:
  "Resolve binlib (Some [Net4 1 (-1)])
     \<lparr>RemoteAddr = IPString binlib (V4 1), XFF = IPString binlib (V4 7) @ CHR '','' # IPString binlib (V4 9), XRealIP = []\<rparr>
   = IPString binlib (V4 7)"
proof -
  let ?r = "\<lparr>RemoteAddr = IPString binlib (V4 1), XFF = IPString binlib (V4 7) @ CHR '','' # IPString binlib (V4 9), XRealIP = []\<rparr>"
  from forwarded_address_is_spoofable [OF binlib_ok binlib_token [of "V4 7"], of "[Net4 1 (-1)]" ?r
      "IPString binlib (V4 9)" "Net4 7 (-1)" "[Net4 7 (-1)]"]
  show ?thesis by (simp add: binlib_peer binlib_trusted)
qed

end
