(* ===== verification/AuthLimit.thy ===== *)
theory AuthLimit
  imports ClientIP
begin

text \<open>
  \<open>internal/ratelimit/auth.go\<close>: the brute-force limiter, a sliding window of failures per client address and
  per reason. \<open>RecordFailure\<close> writes into the map, which is nil in a limiter made disabled: \<open>None\<close> is
  the panic.
\<close>

section \<open>State\<close>

record failure =
  af_missing :: "nanos list"
  af_invalid :: "nanos list"
  af_blockReason :: string
  af_lastSeen :: nanos

record authlimiter =
  au_rpm :: int
  au_burst :: int
  au_window :: nanos
  au_onBlock :: bool
  au_onReap :: bool
  au_resolver :: "ipnet list option"
  au_failures :: "(string \<rightharpoonup> failure) option"

datatype au_event = Blocked string

datatype au_answer = Through | TooManyFailures

definition NewAuthLimiter :: "int \<Rightarrow> int \<Rightarrow> nanos \<Rightarrow> ipnet list option \<Rightarrow> authlimiter" where
  "NewAuthLimiter rpm burst window resolver =
     (if rpm \<le> 0 then
        \<lparr>au_rpm = 0, au_burst = 0, au_window = 0, au_onBlock = False, au_onReap = False,
         au_resolver = None, au_failures = None\<rparr>
      else
        \<lparr>au_rpm = rpm, au_burst = (if burst \<le> 0 then 3 else burst),
         au_window = (if window \<le> 0 then 5 * minute else window), au_onBlock = False, au_onReap = False,
         au_resolver = resolver, au_failures = Some Map.empty\<rparr>)"

definition SetOnBlock :: "authlimiter option \<Rightarrow> bool \<Rightarrow> authlimiter option" where
  "SetOnBlock al f = map_option (\<lambda>al. al\<lparr>au_onBlock := f\<rparr>) al"

definition SetOnReap :: "authlimiter option \<Rightarrow> bool \<Rightarrow> authlimiter option" where
  "SetOnReap al f = map_option (\<lambda>al. al\<lparr>au_onReap := f\<rparr>) al"

definition AuthSetRPM :: "authlimiter option \<Rightarrow> int \<Rightarrow> authlimiter option" where
  "AuthSetRPM al rpm = map_option (\<lambda>al. al\<lparr>au_rpm := rpm\<rparr>) al"

definition AuthSetBurst :: "authlimiter option \<Rightarrow> int \<Rightarrow> authlimiter option" where
  "AuthSetBurst al burst = map_option (\<lambda>al. if 0 < burst then al\<lparr>au_burst := burst\<rparr> else al) al"

definition SetWindow :: "authlimiter option \<Rightarrow> nanos \<Rightarrow> authlimiter option" where
  "SetWindow al window = map_option (\<lambda>al. if 0 < window then al\<lparr>au_window := window\<rparr> else al) al"

section \<open>Operations\<close>

definition prune_failure :: "authlimiter \<Rightarrow> nanos \<Rightarrow> failure \<Rightarrow> failure" where
  "prune_failure al now f =
     (let cutoff = now - au_window al in
      f\<lparr>af_missing := dropWhile (\<lambda>t. t < cutoff) (af_missing f),
        af_invalid := dropWhile (\<lambda>t. t < cutoff) (af_invalid f)\<rparr>)"

definition over_burst :: "authlimiter \<Rightarrow> failure \<Rightarrow> bool" where
  "over_burst al f \<longleftrightarrow> au_burst al \<le> int (length (af_missing f)) \<or> au_burst al \<le> int (length (af_invalid f))"

definition lookup_failure :: "authlimiter \<Rightarrow> string \<Rightarrow> failure option" where
  "lookup_failure al ip = (case au_failures al of None \<Rightarrow> None | Some m \<Rightarrow> m ip)"

definition store_failure :: "authlimiter \<Rightarrow> string \<Rightarrow> failure \<Rightarrow> authlimiter" where
  "store_failure al ip f = al\<lparr>au_failures := map_option (\<lambda>m. m(ip \<mapsto> f)) (au_failures al)\<rparr>"

definition AuthLimEnabled :: "authlimiter option \<Rightarrow> bool" where
  "AuthLimEnabled al = (case al of None \<Rightarrow> False | Some al \<Rightarrow> 0 < au_rpm al)"

definition IsBlocked :: "authlimiter \<Rightarrow> string \<Rightarrow> nanos \<Rightarrow> authlimiter \<times> bool" where
  "IsBlocked al ip now =
     (if au_rpm al \<le> 0 then (al, False)
      else case lookup_failure al ip of
        None \<Rightarrow> (al, False)
      | Some f \<Rightarrow> let f = prune_failure al now f in (store_failure al ip f, over_burst al f))"

definition note_failure :: "failure \<Rightarrow> string \<Rightarrow> nanos \<Rightarrow> failure" where
  "note_failure f reason now =
     (let f = (if reason = ''missing'' then f\<lparr>af_missing := af_missing f @ [now]\<rparr>
               else if reason = ''invalid'' then f\<lparr>af_invalid := af_invalid f @ [now]\<rparr>
               else f)
      in f\<lparr>af_lastSeen := now\<rparr>)"

definition RecordAuthFailure :: "authlimiter \<Rightarrow> string \<Rightarrow> string \<Rightarrow> nanos \<Rightarrow> (authlimiter \<times> au_event list) option" where
  "RecordAuthFailure al ip reason now =
     (if au_rpm al \<le> 0 then Some (al, [])
      else case au_failures al of
        None \<Rightarrow> None
      | Some m \<Rightarrow>
          let f = (case m ip of
                Some f \<Rightarrow> f
              | None \<Rightarrow> \<lparr>af_missing = [], af_invalid = [], af_blockReason = [], af_lastSeen = now\<rparr>);
              f = note_failure f reason now;
              n = (if reason = ''invalid'' then length (af_invalid f) else length (af_missing f))
          in if au_burst al \<le> int n then
               (let f = (if af_blockReason f = [] then f\<lparr>af_blockReason := reason\<rparr> else f)
                in Some (store_failure al ip f, if au_onBlock al then [Blocked reason] else []))
             else Some (store_failure al ip f, []))"

text \<open>One entry of the reaper's loop, then the loop over the map, whose entries do not interact.\<close>

definition reap_entry :: "authlimiter \<Rightarrow> nanos \<Rightarrow> failure \<Rightarrow> failure option" where
  "reap_entry al now f =
     (let f = prune_failure al now f in
      if 10 * minute < now - af_lastSeen f \<and> af_missing f = [] \<and> af_invalid f = [] then None else Some f)"

definition AuthReap :: "authlimiter option \<Rightarrow> nanos \<Rightarrow> authlimiter option" where
  "AuthReap al now =
     map_option (\<lambda>al. if au_rpm al \<le> 0 then al
       else al\<lparr>au_failures := map_option (\<lambda>m ip. Option.bind (m ip) (reap_entry al now)) (au_failures al)\<rparr>) al"

definition BlockedCount :: "authlimiter option \<Rightarrow> nanos \<Rightarrow> authlimiter option \<times> nat" where
  "BlockedCount al now =
     (case al of
        None \<Rightarrow> (None, 0)
      | Some al \<Rightarrow>
          if au_rpm al \<le> 0 then (Some al, 0)
          else case au_failures al of
            None \<Rightarrow> (Some al, 0)
          | Some m \<Rightarrow>
              let m = (\<lambda>ip. map_option (prune_failure al now) (m ip)) in
              (Some (al\<lparr>au_failures := Some m\<rparr>), card {ip \<in> dom m. over_burst al (the (m ip))}))"

text \<open>The standalone handler: a blocked client gets 429 and the reason of its first block.\<close>

definition auth_limit_handle :: "bool \<Rightarrow> authlimiter \<Rightarrow> string \<Rightarrow> nanos \<Rightarrow> authlimiter \<times> au_answer \<times> au_event list" where
  "auth_limit_handle wrapped al ip now =
     (if \<not> wrapped then (al, Through, [])
      else case IsBlocked al ip now of
        (al, True) \<Rightarrow>
          (al, TooManyFailures,
           if au_onBlock al then
             [Blocked (case lookup_failure al ip of
                Some f \<Rightarrow> (if af_blockReason f \<noteq> [] then af_blockReason f else ''missing'')
              | None \<Rightarrow> ''missing'')]
           else [])
      | (al, False) \<Rightarrow> (al, Through, []))"

section \<open>The contract\<close>

text \<open>
  What a client of the limiter relies on: a log of the failures reported so far, and a verdict that
  counts the entries of one address and one reason in the window that ends now.
\<close>

type_synonym failure_log = "(string \<times> string \<times> nanos) list"

definition logged :: "failure_log \<Rightarrow> string \<Rightarrow> string \<Rightarrow> nanos list" where
  "logged fl ip r = map (\<lambda>e. snd (snd e)) (filter (\<lambda>e. fst e = ip \<and> fst (snd e) = r) fl)"

lemma logged_snoc: "logged (fl @ [(i, q, s)]) ip r = logged fl ip r @ (if i = ip \<and> q = r then [s] else [])"
  by (simp add: logged_def)

definition reasons :: "string set" where "reasons = {''missing'', ''invalid''}"

text \<open>No window of the given length holds more than \<open>burst\<close> failures of one address and reason.\<close>

definition bounded_log :: "nat \<Rightarrow> nanos \<Rightarrow> failure_log \<Rightarrow> bool" where
  "bounded_log burst window fl \<longleftrightarrow>
     (\<forall>ip. \<forall>r\<in>reasons. \<forall>a. length (filter (\<lambda>s. a \<le> s \<and> s \<le> a + window) (logged fl ip r)) \<le> burst)"

lemma length_filter_imp: "(\<And>x. P x \<Longrightarrow> Q x) \<Longrightarrow> length (filter P xs) \<le> length (filter Q xs)"
  by (induction xs) auto

lemma bounded_log_snoc:
  assumes "bounded_log burst window fl" "length (filter (\<lambda>s. now - window \<le> s) (logged fl i q)) < burst"
  shows "bounded_log burst window (fl @ [(i, q, now)])"
  unfolding bounded_log_def
proof (intro allI ballI)
  fix ip r a
  assume r: "r \<in> reasons"
  have old: "length (filter (\<lambda>s. a \<le> s \<and> s \<le> a + window) (logged fl ip r)) \<le> burst"
    using assms(1) r by (simp add: bounded_log_def)
  show "length (filter (\<lambda>s. a \<le> s \<and> s \<le> a + window) (logged (fl @ [(i, q, now)]) ip r)) \<le> burst"
  proof (cases "i = ip \<and> q = r \<and> a \<le> now \<and> now \<le> a + window")
    case True
    have "length (filter (\<lambda>s. a \<le> s \<and> s \<le> a + window) (logged fl ip r))
        \<le> length (filter (\<lambda>s. now - window \<le> s) (logged fl ip r))"
      using True by (intro length_filter_imp) simp
    with True assms(2) show ?thesis by (simp add: logged_snoc)
  next
    case False
    with old show ?thesis by (auto simp: logged_snoc)
  qed
qed

locale attempt_guard =
  fixes asks :: "'s \<Rightarrow> string \<Rightarrow> nanos \<Rightarrow> 's \<times> bool"
    and reports :: "'s \<Rightarrow> string \<Rightarrow> string \<Rightarrow> nanos \<Rightarrow> 's"
    and ok :: "nanos \<Rightarrow> 's \<Rightarrow> failure_log \<Rightarrow> bool"
    and burst :: nat
    and window :: nanos
  assumes asks_ok: "ok t s fl \<Longrightarrow> t \<le> now \<Longrightarrow> ok now (fst (asks s ip now)) fl"
    and asks_iff: "ok t s fl \<Longrightarrow> t \<le> now \<Longrightarrow>
      snd (asks s ip now) \<longleftrightarrow> (\<exists>r\<in>reasons. burst \<le> length (filter (\<lambda>u. now - window \<le> u) (logged fl ip r)))"
    and reports_ok: "ok t s fl \<Longrightarrow> t \<le> now \<Longrightarrow> r \<in> reasons \<Longrightarrow> ok now (reports s ip r now) (fl @ [(ip, r, now)])"
begin

text \<open>A client asks before each attempt and reports the reason when an admitted one fails.\<close>

definition attempt :: "'s \<Rightarrow> string \<Rightarrow> string option \<Rightarrow> nanos \<Rightarrow> 's \<times> bool" where
  "attempt s ip outcome now =
     (case asks s ip now of
        (s, True) \<Rightarrow> (s, False)
      | (s, False) \<Rightarrow> ((case outcome of None \<Rightarrow> s | Some r \<Rightarrow> reports s ip r now), True))"

definition extended :: "failure_log \<Rightarrow> bool \<Rightarrow> string \<Rightarrow> string option \<Rightarrow> nanos \<Rightarrow> failure_log" where
  "extended fl admitted ip outcome now =
     (if admitted then fl @ (case outcome of None \<Rightarrow> [] | Some r \<Rightarrow> [(ip, r, now)]) else fl)"

lemma attempt_ok:
  assumes "ok t s fl" "t \<le> now" "bounded_log burst window fl" "outcome \<in> insert None (Some ` reasons)"
  shows "ok now (fst (attempt s ip outcome now)) (extended fl (snd (attempt s ip outcome now)) ip outcome now)"
    and "bounded_log burst window (extended fl (snd (attempt s ip outcome now)) ip outcome now)"
proof -
  obtain s' b where sb: "asks s ip now = (s', b)" by (cases "asks s ip now")
  have o: "ok now s' fl" using asks_ok [OF assms(1,2), of ip] sb by simp
  have i: "b \<longleftrightarrow> (\<exists>r\<in>reasons. burst \<le> length (filter (\<lambda>u. now - window \<le> u) (logged fl ip r)))"
    using asks_iff [OF assms(1,2), of ip] sb by simp
  show "ok now (fst (attempt s ip outcome now)) (extended fl (snd (attempt s ip outcome now)) ip outcome now)"
    using sb o reports_ok [OF o order.refl] assms(4)
    by (cases b; cases outcome) (auto simp: attempt_def extended_def)
  show "bounded_log burst window (extended fl (snd (attempt s ip outcome now)) ip outcome now)"
    using sb i assms(3,4) bounded_log_snoc [OF assms(3), of now ip]
    by (cases b; cases outcome) (auto simp: attempt_def extended_def not_le)
qed

end

section \<open>The limiter keeps the contract\<close>

definition stamps_of :: "string \<Rightarrow> failure \<Rightarrow> nanos list" where
  "stamps_of r f = (if r = ''invalid'' then af_invalid f else af_missing f)"

definition stamps :: "authlimiter \<Rightarrow> string \<Rightarrow> string \<Rightarrow> nanos list" where
  "stamps al ip r =
     (case lookup_failure al ip of None \<Rightarrow> [] | Some f \<Rightarrow> stamps_of r f)"

definition au_ok :: "nat \<Rightarrow> nanos \<Rightarrow> nanos \<Rightarrow> authlimiter \<Rightarrow> failure_log \<Rightarrow> bool" where
  "au_ok B W t al fl \<longleftrightarrow>
     0 < au_rpm al \<and> 0 < B \<and> au_burst al = int B \<and> au_window al = W \<and> au_failures al \<noteq> None \<and>
     (\<forall>ip. \<forall>r\<in>reasons. sorted (stamps al ip r) \<and> (\<forall>s\<in>set (stamps al ip r). s \<le> t) \<and>
        (\<forall>c. t - W \<le> c \<longrightarrow> filter (\<lambda>s. c \<le> s) (stamps al ip r) = filter (\<lambda>s. c \<le> s) (logged fl ip r)))"

lemma stamps_store:
  "au_failures al \<noteq> None \<Longrightarrow> stamps (store_failure al ip f) i r =
     (if i = ip then stamps_of r f else stamps al i r)"
  by (auto simp: stamps_def lookup_failure_def store_failure_def split: option.splits)

lemma store_fields [simp]:
  "au_rpm (store_failure al ip f) = au_rpm al" "au_burst (store_failure al ip f) = au_burst al"
  "au_window (store_failure al ip f) = au_window al"
  "au_failures (store_failure al ip f) = None \<longleftrightarrow> au_failures al = None"
  by (simp_all add: store_failure_def)

lemma au_okD:
  assumes "au_ok B W t al fl"
  shows "0 < au_rpm al" "0 < B" "au_burst al = int B" "au_window al = W" "au_failures al \<noteq> None"
    and "r \<in> reasons \<Longrightarrow> sorted (stamps al ip r)"
    and "r \<in> reasons \<Longrightarrow> s \<in> set (stamps al ip r) \<Longrightarrow> s \<le> t"
    and "r \<in> reasons \<Longrightarrow> t - W \<le> c \<Longrightarrow> filter (\<lambda>s. c \<le> s) (stamps al ip r) = filter (\<lambda>s. c \<le> s) (logged fl ip r)"
  using assms by (auto simp: au_ok_def)

lemma au_ok_later:
  assumes "au_ok B W t al fl" "t \<le> now"
  shows "au_ok B W now al fl"
  using assms unfolding au_ok_def by (meson diff_right_mono dual_order.trans)

text \<open>Dropping what lies before the window does not change what the window shows.\<close>

lemma au_ok_pruned:
  assumes ok: "au_ok B W t al fl" and now: "t \<le> now"
    and same: "au_rpm al' = au_rpm al" "au_burst al' = au_burst al" "au_window al' = au_window al" "au_failures al' \<noteq> None"
    and st: "\<And>ip r. r \<in> reasons \<Longrightarrow>
        stamps al' ip r = stamps al ip r \<or> stamps al' ip r = dropWhile (\<lambda>s. s < now - W) (stamps al ip r)"
  shows "au_ok B W now al' fl"
proof -
  note d = au_okD [OF ok]
  have f: "stamps al' ip r = stamps al ip r \<or> stamps al' ip r = filter (\<lambda>s. now - W \<le> s) (stamps al ip r)"
    if "r \<in> reasons" for ip r
    using st [OF that, of ip] dropWhile_sorted_filter [of "\<lambda>x. x" "stamps al ip r" "now - W"] d(6) [OF that]
    by (simp add: not_less)
  have "filter (\<lambda>s. c \<le> s) (stamps al' ip r) = filter (\<lambda>s. c \<le> s) (logged fl ip r)"
    if r: "r \<in> reasons" and c: "now - W \<le> c" for ip r c
  proof -
    have "filter (\<lambda>s. c \<le> s) (filter (\<lambda>s. now - W \<le> s) xs) = filter (\<lambda>s. c \<le> s) xs" for xs
      using c by (induction xs) auto
    with f [OF r, of ip] have "filter (\<lambda>s. c \<le> s) (stamps al' ip r) = filter (\<lambda>s. c \<le> s) (stamps al ip r)"
      by metis
    with d(8) [OF r] c now show ?thesis by simp
  qed
  moreover have "sorted (stamps al' ip r)" "\<forall>s\<in>set (stamps al' ip r). s \<le> now" if "r \<in> reasons" for ip r
    using f [OF that, of ip] d(6,7) [OF that] now
      sorted_map_filter [of "\<lambda>x. x" "stamps al ip r" "\<lambda>s. now - W \<le> s"] by (auto, force+)
  ultimately show ?thesis using d(1-5) same by (simp add: au_ok_def)
qed

lemma stamps_prune:
  "r \<in> reasons \<Longrightarrow> stamps_of r (prune_failure al now f)
     = dropWhile (\<lambda>s. s < now - au_window al) (stamps_of r f)"
  by (simp add: prune_failure_def Let_def stamps_of_def)

lemma IsBlocked_ok:
  assumes "au_ok B W t al fl" "t \<le> now"
  shows "au_ok B W now (fst (IsBlocked al ip now)) fl"
proof (cases "lookup_failure al ip")
  case None
  with assms show ?thesis by (simp add: IsBlocked_def au_ok_later)
next
  case (Some f)
  note d = au_okD [OF assms(1)]
  have "stamps (store_failure al ip (prune_failure al now f)) i r = stamps al i r
      \<or> stamps (store_failure al ip (prune_failure al now f)) i r = dropWhile (\<lambda>s. s < now - W) (stamps al i r)"
    if "r \<in> reasons" for i r
    using stamps_store [OF d(5)] stamps_prune [OF that, of al now f] d(4) Some by (simp add: stamps_def)
  then have "au_ok B W now (store_failure al ip (prune_failure al now f)) fl"
    using d(5) by (intro au_ok_pruned [OF assms]) simp_all
  with Some show ?thesis using assms by (simp add: IsBlocked_def Let_def au_ok_later)
qed

lemma IsBlocked_iff:
  assumes "au_ok B W t al fl" "t \<le> now"
  shows "snd (IsBlocked al ip now) \<longleftrightarrow>
    (\<exists>r\<in>reasons. B \<le> length (filter (\<lambda>u. now - W \<le> u) (logged fl ip r)))"
proof -
  note d = au_okD [OF assms(1)]
  have drop: "dropWhile (\<lambda>u. u < now - W) (stamps al ip r) = filter (\<lambda>u. now - W \<le> u) (logged fl ip r)"
    if "r \<in> reasons" for r
    using dropWhile_sorted_filter [of "\<lambda>x. x" "stamps al ip r" "now - W"] d(6,8) [OF that] assms(2)
    by (simp add: not_less)
  show ?thesis
  proof (cases "lookup_failure al ip")
    case None
    then have "filter (\<lambda>u. now - W \<le> u) (logged fl ip r) = []" if "r \<in> reasons" for r
      using drop [OF that] by (simp add: stamps_def)
    with None d(2) show ?thesis by (simp add: IsBlocked_def)
  next
    case (Some f)
    have "snd (IsBlocked al ip now) \<longleftrightarrow>
        (\<exists>r\<in>reasons. B \<le> length (dropWhile (\<lambda>u. u < now - W) (stamps al ip r)))"
      using Some d(1,3,4) by (simp add: IsBlocked_def Let_def over_burst_def stamps_def stamps_of_def reasons_def prune_failure_def)
    with drop show ?thesis by simp
  qed
qed

lemma note_failure_stamps:
  "r \<in> reasons \<Longrightarrow> q \<in> reasons \<Longrightarrow>
   stamps_of q (note_failure f r now)
     = stamps_of q f @ (if q = r then [now] else [])"
  by (auto simp: note_failure_def Let_def reasons_def stamps_of_def)

text \<open>What a report leaves behind: the entry with the new time, wherever the block reason went.\<close>

lemma RecordAuthFailure_eq:
  assumes "0 < au_rpm al" "au_failures al \<noteq> None" "r \<in> reasons"
  obtains f where "fst (the (RecordAuthFailure al ip r now)) = store_failure al ip f"
    and "\<And>q. q \<in> reasons \<Longrightarrow> stamps_of q f
          = stamps al ip q @ (if q = r then [now] else [])"
proof -
  obtain m where m: "au_failures al = Some m" using assms(2) by auto
  define f0 where "f0 = (case m ip of Some f \<Rightarrow> f
      | None \<Rightarrow> \<lparr>af_missing = [], af_invalid = [], af_blockReason = [], af_lastSeen = now\<rparr>)"
  define f1 where "f1 = note_failure f0 r now"
  have st: "stamps_of q f0 = stamps al ip q" if "q \<in> reasons" for q
    using m by (simp add: f0_def stamps_def stamps_of_def lookup_failure_def split: option.splits)
  have "stamps_of q f1 = stamps al ip q @ (if q = r then [now] else [])"
    if "q \<in> reasons" for q
    using note_failure_stamps [OF assms(3) that, of f0 now] st [OF that] by (simp add: f1_def)
  moreover have "fst (the (RecordAuthFailure al ip r now)) \<in>
      {store_failure al ip f1, store_failure al ip (f1\<lparr>af_blockReason := r\<rparr>)}"
    unfolding RecordAuthFailure_def using assms(1) m by (simp add: Let_def f0_def [symmetric] f1_def)
  moreover have "stamps_of q (f1\<lparr>af_blockReason := r\<rparr>) = stamps_of q f1" for q
    by (simp add: stamps_of_def)
  ultimately show thesis using that by (metis insertE singletonD)
qed

lemma RecordAuthFailure_ok:
  assumes "au_ok B W t al fl" "t \<le> now" "r \<in> reasons"
  shows "au_ok B W now (fst (the (RecordAuthFailure al ip r now))) (fl @ [(ip, r, now)])"
proof -
  note d = au_okD [OF assms(1)]
  obtain f where f: "fst (the (RecordAuthFailure al ip r now)) = store_failure al ip f"
    and st: "\<And>q. q \<in> reasons \<Longrightarrow> stamps_of q f
          = stamps al ip q @ (if q = r then [now] else [])"
    using RecordAuthFailure_eq [OF d(1,5) assms(3)] by metis
  have s: "stamps (store_failure al ip f) i q = stamps al i q @ (if ip = i \<and> r = q then [now] else [])"
    if "q \<in> reasons" for i q
    using stamps_store [OF d(5)] st [OF that] by auto
  have "sorted (stamps (store_failure al ip f) i q) \<and> (\<forall>u\<in>set (stamps (store_failure al ip f) i q). u \<le> now)
      \<and> (\<forall>c. now - W \<le> c \<longrightarrow> filter (\<lambda>u. c \<le> u) (stamps (store_failure al ip f) i q)
            = filter (\<lambda>u. c \<le> u) (logged (fl @ [(ip, r, now)]) i q))"
    if "q \<in> reasons" for i q
    using d(6-8) [OF that] assms(2) by (auto simp: s [OF that] logged_snoc sorted_append dest: order_trans)
  with d(1-5) show ?thesis by (simp add: f au_ok_def)
qed

lemma AuthReap_ok:
  assumes "au_ok B W t al fl" "t \<le> now"
  shows "au_ok B W now (the (AuthReap (Some al) now)) fl"
proof -
  note d = au_okD [OF assms(1)]
  obtain m where m: "au_failures al = Some m" using d(5) by auto
  have "stamps (the (AuthReap (Some al) now)) ip r = dropWhile (\<lambda>s. s < now - W) (stamps al ip r)"
    if "r \<in> reasons" for ip r
    using d(1,4) m by (auto simp: AuthReap_def stamps_def lookup_failure_def reap_entry_def prune_failure_def stamps_of_def Let_def
        split: option.splits) (metis dropWhile_eq_Nil_conv)+
  then show ?thesis using d(1) m by (intro au_ok_pruned [OF assms]) (simp_all add: AuthReap_def)
qed

lemma BlockedCount_ok:
  assumes "au_ok B W t al fl" "t \<le> now"
  shows "au_ok B W now (the (fst (BlockedCount (Some al) now))) fl"
proof -
  note d = au_okD [OF assms(1)]
  obtain m where m: "au_failures al = Some m" using d(5) by auto
  have "stamps (the (fst (BlockedCount (Some al) now))) ip r = dropWhile (\<lambda>s. s < now - W) (stamps al ip r)"
    if "r \<in> reasons" for ip r
    using d(1,4) m by (auto simp: BlockedCount_def stamps_def lookup_failure_def prune_failure_def stamps_of_def Let_def
        split: option.splits)
  then show ?thesis using d(1) m by (intro au_ok_pruned [OF assms]) (simp_all add: BlockedCount_def Let_def)
qed

interpretation ag: attempt_guard IsBlocked "\<lambda>al ip r now. fst (the (RecordAuthFailure al ip r now))" "au_ok B W" B W
  for B W
  by unfold_locales (fact IsBlocked_ok, fact IsBlocked_iff, fact RecordAuthFailure_ok)

lemma au_ok_New:
  assumes "0 < rpm"
  shows "au_ok (nat (if burst \<le> 0 then 3 else burst)) (if window \<le> 0 then 5 * minute else window) t
           (NewAuthLimiter rpm burst window res) []"
  using assms by (simp add: au_ok_def NewAuthLimiter_def stamps_def lookup_failure_def logged_def)

end
