(* ===== verification/SlmCache.thy ===== *)
theory SlmCache
  imports CacheSpec
begin

text \<open>
  \<open>internal/router/slm_cache.go\<close>: the router's decision cache with a TTL, a cap and an optional
  lookup by embedding similarity. Parameters stand for what the file does not define: \<open>srt\<close> for
  \<open>sort.Slice\<close> (which leaves ties in any order), the embedder's answer, and the order in which Go
  happens to iterate over the map. Observers are booleans in the state and events in the results;
  a background eviction is the event \<open>SpawnEvict\<close>, its body the operation \<open>EvictExpired\<close>.
\<close>

section \<open>State\<close>

record cachedDecision =
  cd_Route :: string
  cd_stamp :: nanos
  cd_emb :: "real list option"

record slm =
  sl_ttl :: nanos
  sl_maxEntries :: int
  sl_maxStale :: int
  sl_staleCleanupThreshold :: int
  sl_maxScanEntries :: int
  sl_embedder :: bool
  sl_semThreshold :: real
  sl_entries :: "string \<rightharpoonup> cachedDecision"
  sl_expiry :: "string list"
  sl_ttlEvictions :: "64 word"
  sl_lruEvictions :: "64 word"
  sl_staleCount :: int
  sl_embedErrors :: "64 word"
  sl_dimMismatch :: "64 word"
  sl_embedBreaker :: "nanos list"
  sl_embedBreakerPos :: nat
  sl_embedCooldownUntil :: "nanos option"
  sl_onEviction :: bool
  sl_onEmbedError :: bool
  sl_closed :: bool

datatype slm_event = EvictedTTL | EvictedLRU | EmbedErrorSeen | SpawnEvict

definition DefaultSLMCacheTTL :: nanos where "DefaultSLMCacheTTL = 30 * second"
definition DefaultSLMCacheMaxEntries :: int where "DefaultSLMCacheMaxEntries = 512"
definition DefaultSemanticThreshold :: real where "DefaultSemanticThreshold = 0.85"
definition embedFailureCooldownThreshold :: nat where "embedFailureCooldownThreshold = 3"
definition embedFailureCooldownWindow :: nanos where "embedFailureCooldownWindow = 30 * second"

definition NewSLMCacheWithEmbedder :: "nanos \<Rightarrow> int \<Rightarrow> bool \<Rightarrow> real \<Rightarrow> slm" where
  "NewSLMCacheWithEmbedder ttl maxEntries embedder threshold =
     \<lparr>sl_ttl = (if ttl \<le> 0 then DefaultSLMCacheTTL else ttl),
      sl_maxEntries = (if maxEntries \<le> 0 then DefaultSLMCacheMaxEntries else maxEntries),
      sl_maxStale = 0, sl_staleCleanupThreshold = 0, sl_maxScanEntries = 0,
      sl_embedder = embedder,
      sl_semThreshold = (if threshold \<le> 0 then DefaultSemanticThreshold else threshold),
      sl_entries = Map.empty, sl_expiry = [],
      sl_ttlEvictions = 0, sl_lruEvictions = 0, sl_staleCount = 0, sl_embedErrors = 0, sl_dimMismatch = 0,
      sl_embedBreaker = [0, 0, 0], sl_embedBreakerPos = 0, sl_embedCooldownUntil = None,
      sl_onEviction = False, sl_onEmbedError = False, sl_closed = False\<rparr>"

definition NewSLMCache :: "nanos \<Rightarrow> int \<Rightarrow> slm" where
  "NewSLMCache ttl maxEntries = NewSLMCacheWithEmbedder ttl maxEntries False DefaultSemanticThreshold"

section \<open>Eviction\<close>

definition past_ttl :: "slm \<Rightarrow> nanos \<Rightarrow> cachedDecision \<Rightarrow> bool" where
  "past_ttl c now e \<longleftrightarrow> sl_ttl c < now - cd_stamp e"

text \<open>
  The comparison of \<open>sortExpiry\<close>, orphans first; \<open>srt less keys\<close> is \<open>sort.Slice\<close>.
\<close>

definition expiry_less :: "(string \<rightharpoonup> cachedDecision) \<Rightarrow> string \<Rightarrow> string \<Rightarrow> bool" where
  "expiry_less m i j =
     (case m i of
        None \<Rightarrow> True
      | Some a \<Rightarrow> (case m j of None \<Rightarrow> False | Some b \<Rightarrow> cd_stamp a < cd_stamp b))"

type_synonym sorter = "(string \<Rightarrow> string \<Rightarrow> bool) \<Rightarrow> string list \<Rightarrow> string list"

definition sortExpiry :: "sorter \<Rightarrow> slm \<Rightarrow> slm" where
  "sortExpiry srt c = c\<lparr>sl_expiry := srt (expiry_less (sl_entries c)) (sl_expiry c)\<rparr>"

fun evict_scan ::
  "(cachedDecision \<Rightarrow> bool) \<Rightarrow> string list \<Rightarrow> (string \<rightharpoonup> cachedDecision) \<Rightarrow> string list \<times> (string \<rightharpoonup> cachedDecision) \<times> nat" where
  "evict_scan old [] m = ([], m, 0)"
| "evict_scan old (k # ks) m =
     (case m k of
        None \<Rightarrow> evict_scan old ks m
      | Some e \<Rightarrow>
          if old e then (case evict_scan old ks (m(k := None)) of (keep, m', n) \<Rightarrow> (keep, m', Suc n))
          else (case evict_scan old ks m of (keep, m', n) \<Rightarrow> (k # keep, m', n)))"

definition evictExpired :: "sorter \<Rightarrow> slm \<Rightarrow> nanos \<Rightarrow> slm \<times> nat" where
  "evictExpired srt c now =
     (case evict_scan (past_ttl c now) (sl_expiry c) (sl_entries c) of (keep, m, removed) \<Rightarrow>
        let c = sortExpiry srt (c\<lparr>sl_entries := m, sl_expiry := keep\<rparr>)
        in (if 0 < removed then
              c\<lparr>sl_ttlEvictions := sl_ttlEvictions c + of_nat removed, sl_staleCount := sl_staleCount c - int removed\<rparr>
            else c, removed))"

definition evictLru :: "slm \<Rightarrow> slm \<times> nat" where
  "evictLru c =
     (case sl_expiry c of
        [] \<Rightarrow> (c, 0)
      | k # ks \<Rightarrow> (c\<lparr>sl_entries := (sl_entries c)(k := None), sl_expiry := ks, sl_lruEvictions := sl_lruEvictions c + 1\<rparr>, 1))"

text \<open>The eviction that \<open>Set\<close>, \<open>SetEmbedding\<close> and \<open>Warm\<close> run before an insertion.\<close>

definition full :: "slm \<Rightarrow> bool" where
  "full c \<longleftrightarrow> sl_maxEntries c \<le> int (card (dom (sl_entries c)))"

definition make_room :: "sorter \<Rightarrow> slm \<Rightarrow> nanos \<Rightarrow> slm \<times> nat \<times> nat" where
  "make_room srt c now =
     (if 0 < sl_maxEntries c \<and> full c then
        (case evictExpired srt c now of (c, ttlRemoved) \<Rightarrow>
           if full c then (case evictLru c of (c, lruRemoved) \<Rightarrow> (c, ttlRemoved, lruRemoved))
           else (c, ttlRemoved, 0))
      else (c, 0, 0))"

definition dispatchEvictions :: "slm \<Rightarrow> nat \<Rightarrow> nat \<Rightarrow> slm_event list" where
  "dispatchEvictions c ttlRemoved lruRemoved =
     (if sl_onEviction c then replicate ttlRemoved EvictedTTL @ replicate lruRemoved EvictedLRU else [])"

definition put_entry :: "slm \<Rightarrow> string \<Rightarrow> cachedDecision \<Rightarrow> slm" where
  "put_entry c k e = c\<lparr>sl_entries := (sl_entries c)(k \<mapsto> e), sl_expiry := sl_expiry c @ [k]\<rparr>"

section \<open>The embedder's circuit breaker\<close>

text \<open>What \<open>Set\<close> and \<open>getSemantic\<close> do when the embedder fails at \<open>now\<close>.\<close>

definition embed_failed :: "slm \<Rightarrow> nanos \<Rightarrow> slm" where
  "embed_failed c now =
     (let n = embedFailureCooldownThreshold;
          writeIdx = sl_embedBreakerPos c mod n;
          c = c\<lparr>sl_embedErrors := sl_embedErrors c + 1,
                sl_embedBreaker := (sl_embedBreaker c)[writeIdx := now],
                sl_embedBreakerPos := sl_embedBreakerPos c + 1\<rparr>
      in if n \<le> sl_embedBreakerPos c then
           (let oldestIdx = (writeIdx + n - 1) mod n; newestIdx = writeIdx;
                span = sl_embedBreaker c ! newestIdx - sl_embedBreaker c ! oldestIdx
            in if span \<le> embedFailureCooldownWindow
               then c\<lparr>sl_embedCooldownUntil := Some (now + embedFailureCooldownWindow), sl_embedBreakerPos := 0\<rparr>
               else c)
         else c)"

definition cooling :: "slm \<Rightarrow> nanos \<Rightarrow> bool" where
  "cooling c now = (case sl_embedCooldownUntil c of None \<Rightarrow> False | Some u \<Rightarrow> now < u)"

section \<open>Similarity\<close>

definition cosineSimilarity :: "real list \<Rightarrow> real list \<Rightarrow> real" where
  "cosineSimilarity a b =
     (let ps = zip a b;
          dot = sum_list (map (\<lambda>(x, y). x * y) ps);
          na = sum_list (map (\<lambda>(x, y). x * x) ps);
          nb = sum_list (map (\<lambda>(x, y). y * y) ps)
      in if na = 0 \<or> nb = 0 then 0 else dot / (sqrt na * sqrt nb))"

text \<open>The loop over the map, in the iteration order \<open>ks\<close>; \<open>best\<close> starts at the score -1.\<close>

fun scan_loop :: "slm \<Rightarrow> nanos \<Rightarrow> real list \<Rightarrow> string list \<Rightarrow> string \<times> real \<Rightarrow> nat \<Rightarrow> (string \<times> real) \<times> nat" where
  "scan_loop c now emb [] best mism = (best, mism)"
| "scan_loop c now emb (k # ks) best mism =
     (case sl_entries c k of
        None \<Rightarrow> scan_loop c now emb ks best mism
      | Some e \<Rightarrow>
          if past_ttl c now e then scan_loop c now emb ks best mism
          else case cd_emb e of
            None \<Rightarrow> scan_loop c now emb ks best mism
          | Some v \<Rightarrow>
              if length emb \<noteq> length v then scan_loop c now emb ks best (Suc mism)
              else
                let score = cosineSimilarity emb v;
                    best = (if snd best < score then (cd_Route e, score) else best)
                in if 1 \<le> snd best then (best, mism) else scan_loop c now emb ks best mism)"

section \<open>Operations\<close>

definition StaleEntries :: "slm \<Rightarrow> nanos \<Rightarrow> nat" where
  "StaleEntries c now = card {k \<in> dom (sl_entries c). past_ttl c now (the (sl_entries c k))}"

text \<open>
  \<open>Set\<close>, whose lock is held throughout: \<open>t0\<close> is the instant before the embedding, \<open>t1\<close> after it;
  \<open>emb\<close> is the embedder's answer, \<open>None\<close> for an error.
\<close>

definition SlmSet :: "sorter \<Rightarrow> slm \<Rightarrow> nanos \<Rightarrow> nanos \<Rightarrow> real list option \<Rightarrow> string \<Rightarrow> string \<Rightarrow> slm \<times> slm_event list" where
  "SlmSet srt c t0 t1 emb prompt route =
     (let c = c\<lparr>sl_staleCount := sl_staleCount c + 1\<rparr>;
          (c, v, failed) =
            (if sl_embedder c \<and> \<not> cooling c t0
             then (case emb of None \<Rightarrow> (embed_failed c t0, None, True) | Some v \<Rightarrow> (c, Some v, False))
             else (c, None, False));
          (c, ttlRemoved, lruRemoved) = make_room srt c t1;
          c = put_entry c prompt \<lparr>cd_Route = route, cd_stamp = t1, cd_emb = v\<rparr>
      in (c, dispatchEvictions c ttlRemoved lruRemoved @ (if failed \<and> sl_onEmbedError c then [EmbedErrorSeen] else [])))"

definition SetEmbedding :: "sorter \<Rightarrow> slm \<Rightarrow> nanos \<Rightarrow> string \<Rightarrow> string \<Rightarrow> real list \<Rightarrow> slm \<times> slm_event list" where
  "SetEmbedding srt c now prompt route emb =
     (let c = c\<lparr>sl_staleCount := sl_staleCount c + 1\<rparr>;
          (c, ttlRemoved, lruRemoved) = make_room srt c now;
          c = put_entry c prompt \<lparr>cd_Route = route, cd_stamp = now, cd_emb = Some emb\<rparr>
      in (c, dispatchEvictions c ttlRemoved lruRemoved))"

datatype hit_kind = CacheHitExact | CacheHitSemantic

text \<open>
  \<open>getSemantic\<close>: the breaker and the embedding at \<open>t0\<close>, the check for proactive eviction, the scan
  at \<open>t1\<close> in the iteration order \<open>ks\<close>.
\<close>

definition getSemantic ::
  "slm \<Rightarrow> nanos \<Rightarrow> nanos \<Rightarrow> real list option \<Rightarrow> string list \<Rightarrow> slm \<times> (string \<times> hit_kind) option \<times> slm_event list" where
  "getSemantic c t0 t1 emb ks =
     (if cooling c t0 then (c, None, [])
      else case emb of
        None \<Rightarrow> (embed_failed c t0, None, if sl_onEmbedError c then [EmbedErrorSeen] else [])
      | Some v \<Rightarrow>
          (let ev = (if 0 < sl_maxStale c \<and> \<not> sl_closed c \<and> sl_maxStale c < sl_staleCount c then [SpawnEvict] else []);
               ((best, bestScore), mism) = scan_loop c t1 v ks ([], -1) 0;
               c = c\<lparr>sl_dimMismatch := sl_dimMismatch c + of_nat mism\<rparr>
           in (c, if sl_semThreshold c \<le> bestScore then Some (best, CacheHitSemantic) else None, ev)))"

definition exact_hit :: "slm \<Rightarrow> nanos \<Rightarrow> string \<Rightarrow> string option" where
  "exact_hit c now prompt =
     (case sl_entries c prompt of
        Some e \<Rightarrow> if now - cd_stamp e \<le> sl_ttl c then Some (cd_Route e) else None
      | None \<Rightarrow> None)"

definition SlmGet ::
  "slm \<Rightarrow> nanos \<Rightarrow> nanos \<Rightarrow> real list option \<Rightarrow> string list \<Rightarrow> string \<Rightarrow> slm \<times> (string \<times> hit_kind) option \<times> slm_event list" where
  "SlmGet c t0 t1 emb ks prompt =
     (case exact_hit c t0 prompt of
        Some r \<Rightarrow> (c, Some (r, CacheHitExact), [])
      | None \<Rightarrow>
          (let ev = (if 0 < sl_staleCleanupThreshold c \<and> \<not> sl_closed c \<and>
                        sl_staleCleanupThreshold c < int (StaleEntries c t0) then [SpawnEvict] else [])
           in if \<not> sl_embedder c then (c, None, ev)
              else (case getSemantic c t0 t1 emb ks of (c, r, ev') \<Rightarrow> (c, r, ev @ ev'))))"

definition EvictExpired :: "sorter \<Rightarrow> slm option \<Rightarrow> nanos \<Rightarrow> slm option \<times> nat \<times> slm_event list" where
  "EvictExpired srt c now =
     (case c of
        None \<Rightarrow> (None, 0, [])
      | Some c \<Rightarrow> (case evictExpired srt c now of (c, removed) \<Rightarrow>
           (Some c, removed, if 0 < removed \<and> sl_onEviction c then replicate removed EvictedTTL else [])))"

text \<open>\<open>Warm\<close>: rows of prompt, route and original write time, under one lock.\<close>

fun warm_loop :: "sorter \<Rightarrow> nanos \<Rightarrow> slm \<Rightarrow> (string \<times> string \<times> nanos) list \<Rightarrow> nat \<Rightarrow> nat \<Rightarrow> slm \<times> nat \<times> nat" where
  "warm_loop srt now c [] loaded skipped = (c, loaded, skipped)"
| "warm_loop srt now c ((prompt, route, ts) # es) loaded skipped =
     (if sl_ttl c < now - ts then warm_loop srt now c es loaded (Suc skipped)
      else
        let c = fst (make_room srt c now);
            c = put_entry c prompt \<lparr>cd_Route = route, cd_stamp = ts, cd_emb = None\<rparr>;
            c = c\<lparr>sl_staleCount := sl_staleCount c + 1\<rparr>
        in warm_loop srt now c es (Suc loaded) skipped)"

definition Warm :: "sorter \<Rightarrow> slm option \<Rightarrow> nanos \<Rightarrow> (string \<times> string \<times> nanos) list \<Rightarrow> slm option \<times> nat \<times> nat" where
  "Warm srt c now es =
     (case c of
        None \<Rightarrow> (None, 0, 0)
      | Some c \<Rightarrow>
          if es = [] then (Some c, 0, 0)
          else (case warm_loop srt now c es 0 0 of (c, l, s) \<Rightarrow> (Some (sortExpiry srt c), l, s)))"

record slm_stats =
  ss_Entries :: nat
  ss_Expired :: nat
  ss_TTLEvictions :: "64 word"
  ss_LRUEvictions :: "64 word"
  ss_EmbedErrors :: "64 word"
  ss_DimMismatch :: "64 word"

definition Stats :: "slm \<Rightarrow> nanos \<Rightarrow> slm_stats" where
  "Stats c now =
     \<lparr>ss_Entries = card (dom (sl_entries c)), ss_Expired = StaleEntries c now,
      ss_TTLEvictions = sl_ttlEvictions c, ss_LRUEvictions = sl_lruEvictions c,
      ss_EmbedErrors = sl_embedErrors c, ss_DimMismatch = sl_dimMismatch c\<rparr>"

definition Close :: "slm option \<Rightarrow> slm option" where
  "Close c = map_option (\<lambda>c. if sl_closed c then c else c\<lparr>sl_closed := True\<rparr>) c"

definition SetEvictionObserver :: "slm \<Rightarrow> bool \<Rightarrow> slm" where
  "SetEvictionObserver c f = c\<lparr>sl_onEviction := f\<rparr>"

definition SetEmbedErrorObserver :: "slm \<Rightarrow> bool \<Rightarrow> slm" where
  "SetEmbedErrorObserver c f = c\<lparr>sl_onEmbedError := f\<rparr>"

definition SetMaxStale :: "slm option \<Rightarrow> int \<Rightarrow> slm option" where
  "SetMaxStale c n = map_option (\<lambda>c. c\<lparr>sl_maxStale := n\<rparr>) c"

definition SetStaleCleanupThreshold :: "slm option \<Rightarrow> int \<Rightarrow> slm option" where
  "SetStaleCleanupThreshold c n = map_option (\<lambda>c. c\<lparr>sl_staleCleanupThreshold := n\<rparr>) c"

definition SetMaxScanEntries :: "slm option \<Rightarrow> int \<Rightarrow> slm option" where
  "SetMaxScanEntries c n = map_option (\<lambda>c. c\<lparr>sl_maxScanEntries := n\<rparr>) c"

lemmas slm_ops [op_defs] = SlmSet_def SetEmbedding_def make_room_def EvictExpired_def Warm_def

section \<open>Invariant\<close>

text \<open>
  What the code relies on of \<open>sort.Slice\<close>: it permutes the slice, and sorts it when the comparison is
  an order, which \<open>expiry_less\<close> is as soon as there are no orphans.
\<close>

definition good_sorter :: "sorter \<Rightarrow> bool" where
  "good_sorter srt \<longleftrightarrow>
     (\<forall>less ks. set (srt less ks) = set ks) \<and>
     (\<forall>m ks. (\<forall>k\<in>set ks. m k \<noteq> None) \<longrightarrow> sorted (map (\<lambda>k. cd_stamp (the (m k))) (srt (expiry_less m) ks)))"

definition slm_inv :: "slm \<Rightarrow> bool" where
  "slm_inv c \<longleftrightarrow> 0 < sl_maxEntries c \<and> dom (sl_entries c) \<subseteq> set (sl_expiry c) \<and>
     int (card (dom (sl_entries c))) \<le> sl_maxEntries c"

lemma inv_finite: "dom m \<subseteq> set ks \<Longrightarrow> finite (dom m)"
  by (rule finite_subset [OF _ finite_set])

definition dead :: "(cachedDecision \<Rightarrow> bool) \<Rightarrow> (string \<rightharpoonup> cachedDecision) \<Rightarrow> string \<Rightarrow> bool" where
  "dead old m k = (case m k of None \<Rightarrow> False | Some e \<Rightarrow> old e)"

lemma dead_upd: "dead old (m(x := None)) k \<longleftrightarrow> k \<noteq> x \<and> dead old m k"
  by (simp add: dead_def)

lemma evict_scan_Cons:
  "evict_scan old (k # ks) m =
     (if m k = None then evict_scan old ks m
      else if dead old m k then
        (fst (evict_scan old ks (m(k := None))), fst (snd (evict_scan old ks (m(k := None)))),
         Suc (snd (snd (evict_scan old ks (m(k := None))))))
      else (k # fst (evict_scan old ks m), snd (evict_scan old ks m)))"
  by (simp add: dead_def split_beta split: option.split)

declare evict_scan.simps(2) [simp del]

lemma evict_scan_map:
  "fst (snd (evict_scan old ks m)) k = (if k \<in> set ks \<and> dead old m k then None else m k)"
proof (induction ks arbitrary: m k)
  case (Cons x ks)
  let ?m = "m(x := None)"
  have u: "fst (snd (evict_scan old ks ?m)) y = (if y \<noteq> x \<and> \<not> (y \<in> set ks \<and> dead old m y) then m y else None)" for y
    unfolding Cons.IH by (simp add: dead_upd)
  have d: "dead old m x \<Longrightarrow> m x \<noteq> None" by (auto simp: dead_def split: option.splits)
  show ?case
    using d by (auto simp: evict_scan_Cons u Cons.IH [of m] simp del: fun_upd_apply)
qed simp

lemma evict_scan_keep:
  "fst (evict_scan old ks m) = filter (\<lambda>k. m k \<noteq> None \<and> \<not> dead old m k) ks"
proof (induction ks arbitrary: m)
  case (Cons x ks)
  have "filter (\<lambda>k. (m(x := None)) k \<noteq> None \<and> \<not> dead old (m(x := None)) k) ks =
      filter (\<lambda>k. m k \<noteq> None \<and> \<not> dead old m k) ks" if "dead old m x"
    using that by (intro filter_cong refl) (auto simp: dead_upd)
  then show ?case
    by (simp add: evict_scan_Cons Cons.IH del: fun_upd_apply)
qed simp

text \<open>The number of removals is the number of entries that went.\<close>

lemma evict_scan_count:
  assumes "finite (dom m)"
  shows "snd (snd (evict_scan old ks m)) + card (dom (fst (snd (evict_scan old ks m)))) = card (dom m)"
  using assms
proof (induction ks arbitrary: m)
  case (Cons x ks)
  show ?case
  proof (cases "dead old m x")
    case False
    with Cons show ?thesis by (simp add: evict_scan_Cons)
  next
    case True
    then have "m x \<noteq> None" by (auto simp: dead_def split: option.splits)
    then have "Suc (card (dom (m(x := None)))) = card (dom m)"
      using Cons.prems by (intro card_dom_del) auto
    moreover have "finite (dom (m(x := None)))" using Cons.prems by (simp del: fun_upd_apply)
    ultimately show ?thesis
      using Cons.IH [of "m(x := None)"] True \<open>m x \<noteq> None\<close>
      by (simp add: evict_scan_Cons del: fun_upd_apply dom_fun_upd_None not_None_eq)
  qed
qed simp

lemma sortExpiry_fields [simp]:
  "sl_entries (sortExpiry srt c) = sl_entries c" "sl_maxEntries (sortExpiry srt c) = sl_maxEntries c"
  "sl_ttl (sortExpiry srt c) = sl_ttl c" "sl_staleCount (sortExpiry srt c) = sl_staleCount c"
  "sl_expiry (sortExpiry srt c) = srt (expiry_less (sl_entries c)) (sl_expiry c)"
  "sl_semThreshold (sortExpiry srt c) = sl_semThreshold c"
  by (simp_all add: sortExpiry_def)

lemma slm_evictExpired_fields:
  "sl_maxEntries (fst (evictExpired srt c now)) = sl_maxEntries c"
  "sl_ttl (fst (evictExpired srt c now)) = sl_ttl c"
  "sl_semThreshold (fst (evictExpired srt c now)) = sl_semThreshold c"
  "sl_entries (fst (evictExpired srt c now)) = fst (snd (evict_scan (past_ttl c now) (sl_expiry c) (sl_entries c)))"
  "sl_expiry (fst (evictExpired srt c now)) =
     srt (expiry_less (sl_entries (fst (evictExpired srt c now)))) (fst (evict_scan (past_ttl c now) (sl_expiry c) (sl_entries c)))"
  "snd (evictExpired srt c now) = snd (snd (evict_scan (past_ttl c now) (sl_expiry c) (sl_entries c)))"
  by (simp_all add: evictExpired_def split_beta Let_def)

text \<open>After \<open>evictExpired\<close> the list holds live keys only, all of them, sorted.\<close>

lemma evictExpired_facts:
  fixes now :: nanos
  assumes "good_sorter srt" "dom (sl_entries c) \<subseteq> set (sl_expiry c)"
  defines "d \<equiv> fst (evictExpired srt c now)"
  shows "sl_entries d k = (case sl_entries c k of Some e \<Rightarrow> if past_ttl c now e then None else Some e | None \<Rightarrow> None)"
    and "set (sl_expiry d) = dom (sl_entries d)"
    and "sorted (map (\<lambda>k. cd_stamp (the (sl_entries d k))) (sl_expiry d))"
    and "card (dom (sl_entries d)) \<le> card (dom (sl_entries c))"
proof -
  have e: "sl_entries d k = (case sl_entries c k of Some e \<Rightarrow> if past_ttl c now e then None else Some e | None \<Rightarrow> None)" for k
    using assms(2) unfolding d_def slm_evictExpired_fields evict_scan_map
    by (cases "sl_entries c k") (auto simp: dead_def)
  show "sl_entries d k = (case sl_entries c k of Some e \<Rightarrow> if past_ttl c now e then None else Some e | None \<Rightarrow> None)"
    by (rule e)
  have ks: "set (fst (evict_scan (past_ttl c now) (sl_expiry c) (sl_entries c))) = dom (sl_entries d)"
    using assms(2) by (auto simp: evict_scan_keep e dom_def dead_def split: option.splits if_splits)
  show "set (sl_expiry d) = dom (sl_entries d)"
    unfolding d_def slm_evictExpired_fields(5) using assms(1) ks [unfolded d_def] by (simp add: good_sorter_def)
  show "sorted (map (\<lambda>k. cd_stamp (the (sl_entries d k))) (sl_expiry d))"
    unfolding d_def slm_evictExpired_fields(5) using assms(1) ks [unfolded d_def]
    unfolding good_sorter_def by (metis domIff)
  have "dom (sl_entries d) \<subseteq> dom (sl_entries c)" by (auto simp: e split: option.splits if_splits)
  then show "card (dom (sl_entries d)) \<le> card (dom (sl_entries c))"
    by (intro card_mono inv_finite [OF assms(2)])
qed

lemma evictLru_fields [simp]:
  "sl_maxEntries (fst (evictLru c)) = sl_maxEntries c" "sl_ttl (fst (evictLru c)) = sl_ttl c"
  "sl_semThreshold (fst (evictLru c)) = sl_semThreshold c"
  by (simp_all add: evictLru_def split: list.split)

lemma make_room_fields [simp]:
  "sl_maxEntries (fst (make_room srt c now)) = sl_maxEntries c" "sl_ttl (fst (make_room srt c now)) = sl_ttl c"
  "sl_semThreshold (fst (make_room srt c now)) = sl_semThreshold c"
  using slm_evictExpired_fields(1-3) [of srt c now] by (simp_all add: make_room_def split_beta)

text \<open>Making room leaves a free place and only removes entries.\<close>

lemma make_room_facts:
  assumes "good_sorter srt" "slm_inv c"
  shows "dom (sl_entries (fst (make_room srt c now))) \<subseteq> set (sl_expiry (fst (make_room srt c now)))"
    and "int (card (dom (sl_entries (fst (make_room srt c now))))) < sl_maxEntries c"
    and "sl_entries (fst (make_room srt c now)) k = Some e \<Longrightarrow> sl_entries c k = Some e"
proof -
  have i: "0 < sl_maxEntries c" "dom (sl_entries c) \<subseteq> set (sl_expiry c)"
      "int (card (dom (sl_entries c))) \<le> sl_maxEntries c"
    using assms(2) by (simp_all add: slm_inv_def)
  let ?d = "fst (evictExpired srt c now)"
  note d = evictExpired_facts [OF assms(1) i(2), where now = now]
  have sub: "sl_entries ?d k = Some e \<Longrightarrow> sl_entries c k = Some e" for k e
    by (simp add: d(1) split: option.splits if_splits)
  have mx: "sl_maxEntries ?d = sl_maxEntries c" by (rule slm_evictExpired_fields)
  let ?r = "fst (make_room srt c now)"
  show "dom (sl_entries ?r) \<subseteq> set (sl_expiry ?r)"
    using i(2) d(2) [symmetric] by (auto simp: make_room_def split_beta evictLru_def split: list.splits)
  show "sl_entries ?r k = Some e \<Longrightarrow> sl_entries c k = Some e"
    using sub [of k e] by (auto simp: make_room_def split_beta evictLru_def split: list.splits if_splits)
  show "int (card (dom (sl_entries ?r))) < sl_maxEntries c"
  proof (cases "full c \<and> full ?d")
    case False
    then show ?thesis using i(1) mx by (auto simp: make_room_def split_beta full_def)
  next
    case True
    then have "card (dom (sl_entries ?d)) \<noteq> 0" using i(1) mx by (auto simp: full_def)
    then have "set (sl_expiry ?d) \<noteq> {}" using d(2) by auto
    then obtain x xs where x: "sl_expiry ?d = x # xs" by (cases "sl_expiry ?d") auto
    then have "x \<in> dom (sl_entries ?d)" using d(2) by auto
    moreover have "finite (dom (sl_entries ?d))" using d(2) by (metis List.finite_set)
    ultimately have "Suc (card (dom ((sl_entries ?d)(x := None)))) = card (dom (sl_entries ?d))"
      by (intro card_dom_del)
    moreover have "sl_entries ?r = (sl_entries ?d)(x := None)"
      using True i(1) x by (simp add: make_room_def split_beta evictLru_def)
    ultimately show ?thesis using d(4) i(3) by (simp del: dom_fun_upd_None)
  qed
qed

lemma put_entry_inv:
  assumes "dom (sl_entries c) \<subseteq> set (sl_expiry c)" "int (card (dom (sl_entries c))) < sl_maxEntries c" "0 < sl_maxEntries c"
  shows "slm_inv (put_entry c k e)"
proof -
  have "int (card (dom ((sl_entries c)(k \<mapsto> e)))) \<le> sl_maxEntries c"
    using card_dom_upd_le [OF inv_finite [OF assms(1)], of k e] assms(2) by linarith
  moreover have "dom ((sl_entries c)(k \<mapsto> e)) \<subseteq> set (sl_expiry c @ [k])"
    using assms(1) by (simp add: insert_mono subset_insertI2)
  ultimately show ?thesis using assms(3) by (simp add: slm_inv_def put_entry_def del: dom_fun_upd)
qed

lemma put_room_inv:
  "good_sorter srt \<Longrightarrow> slm_inv c \<Longrightarrow> slm_inv (put_entry (fst (make_room srt c now)) k e)"
  using make_room_facts(1,2) [of srt c now] by (intro put_entry_inv) (simp_all add: slm_inv_def)

lemma slm_inv_cong:
  "sl_entries d = sl_entries c \<Longrightarrow> sl_expiry d = sl_expiry c \<Longrightarrow> sl_maxEntries d = sl_maxEntries c \<Longrightarrow> slm_inv d = slm_inv c"
  by (simp add: slm_inv_def)

lemma embed_failed_fields [simp]:
  "sl_entries (embed_failed c now) = sl_entries c" "sl_expiry (embed_failed c now) = sl_expiry c"
  "sl_maxEntries (embed_failed c now) = sl_maxEntries c" "sl_ttl (embed_failed c now) = sl_ttl c"
  "sl_semThreshold (embed_failed c now) = sl_semThreshold c" "sl_staleCount (embed_failed c now) = sl_staleCount c"
  "sl_onEviction (embed_failed c now) = sl_onEviction c"
  by (simp_all add: embed_failed_def Let_def)

text \<open>Both insertions are a bookkeeping step, making room and the entry.\<close>

definition before_put :: "slm \<Rightarrow> nanos \<Rightarrow> real list option \<Rightarrow> slm" where
  "before_put c t0 emb =
     (let c = c\<lparr>sl_staleCount := sl_staleCount c + 1\<rparr>
      in if sl_embedder c \<and> \<not> cooling c t0 \<and> emb = None then embed_failed c t0 else c)"

lemma before_put_fields [simp]:
  "sl_entries (before_put c t0 emb) = sl_entries c" "sl_expiry (before_put c t0 emb) = sl_expiry c"
  "sl_maxEntries (before_put c t0 emb) = sl_maxEntries c" "sl_ttl (before_put c t0 emb) = sl_ttl c"
  "sl_semThreshold (before_put c t0 emb) = sl_semThreshold c"
  "sl_staleCount (before_put c t0 emb) = sl_staleCount c + 1"
  by (simp_all add: before_put_def Let_def)

lemma before_put_inv [simp]: "slm_inv (before_put c t0 emb) = slm_inv c"
  by (rule slm_inv_cong) simp_all

lemma SlmSet_fst:
  "\<exists>v. fst (SlmSet srt c t0 t1 emb k r) =
     put_entry (fst (make_room srt (before_put c t0 emb) t1)) k \<lparr>cd_Route = r, cd_stamp = t1, cd_emb = v\<rparr>"
  by (auto simp: SlmSet_def before_put_def Let_def split_beta cooling_def split: option.splits)

lemma SetEmbedding_fst:
  "fst (SetEmbedding srt c t k r emb) =
     put_entry (fst (make_room srt (c\<lparr>sl_staleCount := sl_staleCount c + 1\<rparr>) t)) k
       \<lparr>cd_Route = r, cd_stamp = t, cd_emb = Some emb\<rparr>"
  by (simp add: SetEmbedding_def Let_def split_beta)

section \<open>The cache contract\<close>

text \<open>
  As a cache: the value of a key is its route with the time it was written. The three insertions are
  one operation with three ways, and whatever else touches the cache (background eviction, the final
  sort of \<open>Warm\<close>, \<open>Get\<close>) is a touch.
\<close>

datatype slm_way = BySet nanos "real list option" | BySetEmbedding "real list" | ByWarm nanos
datatype slm_touch = Evict nanos | Resort | Query nanos nanos "real list option" "string list"

definition warm_row :: "sorter \<Rightarrow> slm \<Rightarrow> nanos \<Rightarrow> string \<Rightarrow> string \<Rightarrow> nanos \<Rightarrow> slm" where
  "warm_row srt c now k r ts =
     (let c = put_entry (fst (make_room srt c now)) k \<lparr>cd_Route = r, cd_stamp = ts, cd_emb = None\<rparr>
      in c\<lparr>sl_staleCount := sl_staleCount c + 1\<rparr>)"

definition slm_put :: "sorter \<Rightarrow> slm \<Rightarrow> slm_way + slm_touch \<Rightarrow> string \<Rightarrow> string \<times> nanos \<Rightarrow> slm" where
  "slm_put srt c w k v =
     (case w of
        Inl (BySet t0 emb) \<Rightarrow> fst (SlmSet srt c t0 (snd v) emb k (fst v))
      | Inl (BySetEmbedding emb) \<Rightarrow> fst (SetEmbedding srt c (snd v) k (fst v) emb)
      | Inl (ByWarm now) \<Rightarrow> warm_row srt c now k (fst v) (snd v)
      | Inr _ \<Rightarrow> warm_row srt c (snd v) k (fst v) (snd v))"

definition slm_touch :: "sorter \<Rightarrow> slm \<Rightarrow> slm_way + slm_touch \<Rightarrow> string \<Rightarrow> slm" where
  "slm_touch srt c w k =
     (case w of
        Inr (Evict now) \<Rightarrow> fst (evictExpired srt c now)
      | Inr Resort \<Rightarrow> sortExpiry srt c
      | Inr (Query t0 t1 emb ks) \<Rightarrow> fst (SlmGet c t0 t1 emb ks k)
      | Inl _ \<Rightarrow> c)"

definition slm_look :: "slm \<Rightarrow> nanos \<Rightarrow> string \<Rightarrow> (string \<times> nanos) option" where
  "slm_look c now k =
     (case sl_entries c k of
        Some e \<Rightarrow> if now - cd_stamp e \<le> sl_ttl c then Some (cd_Route e, cd_stamp e) else None
      | None \<Rightarrow> None)"

lemma exact_hit_look: "exact_hit c now k = map_option fst (slm_look c now k)"
  by (simp add: exact_hit_def slm_look_def split: option.split)

definition slm_ok :: "sorter \<Rightarrow> slm \<Rightarrow> bool" where
  "slm_ok srt c \<longleftrightarrow> good_sorter srt \<and> slm_inv c"

lemma slm_put_shape:
  "\<exists>c' now e n. slm_inv c' = slm_inv c \<and> sl_entries c' = sl_entries c \<and> sl_ttl c' = sl_ttl c \<and>
     sl_maxEntries c' = sl_maxEntries c \<and> sl_semThreshold c' = sl_semThreshold c \<and>
     cd_Route e = fst v \<and> cd_stamp e = snd v \<and>
     slm_put srt c w k v = (put_entry (fst (make_room srt c' now)) k e)\<lparr>sl_staleCount := n\<rparr>"
proof -
  have put: "put_entry d k e = (put_entry d k e)\<lparr>sl_staleCount := sl_staleCount (put_entry d k e)\<rparr>" for d e by simp
  have warm: ?thesis if "slm_put srt c w k v = warm_row srt c t k (fst v) (snd v)" for t
    using that unfolding warm_row_def Let_def
    by (intro exI [of _ c] exI [of _ t] exI [of _ "\<lparr>cd_Route = fst v, cd_stamp = snd v, cd_emb = None\<rparr>"] exI conjI) simp_all
  show ?thesis
  proof (cases w)
    case (Inr a)
    then show ?thesis by (intro warm [of "snd v"]) (simp add: slm_put_def)
  next
    case (Inl a)
    show ?thesis
    proof (cases a)
      case (BySet t0 emb)
      obtain v' where "slm_put srt c w k v = put_entry (fst (make_room srt (before_put c t0 emb) (snd v))) k
          \<lparr>cd_Route = fst v, cd_stamp = snd v, cd_emb = v'\<rparr>"
        using SlmSet_fst [of srt c t0 "snd v" emb k "fst v"] Inl BySet by (auto simp: slm_put_def)
      then show ?thesis
        by (intro exI [of _ "before_put c t0 emb"] exI [of _ "snd v"]
            exI [of _ "\<lparr>cd_Route = fst v, cd_stamp = snd v, cd_emb = v'\<rparr>"] exI conjI) (simp_all, rule put)
    next
      case (BySetEmbedding emb)
      let ?c = "c\<lparr>sl_staleCount := sl_staleCount c + 1\<rparr>"
      have "slm_inv ?c = slm_inv c" by (rule slm_inv_cong) simp_all
      then show ?thesis
        using Inl BySetEmbedding
        by (intro exI [of _ ?c] exI [of _ "snd v"]
            exI [of _ "\<lparr>cd_Route = fst v, cd_stamp = snd v, cd_emb = Some emb\<rparr>"] exI conjI)
          (simp_all add: slm_put_def SetEmbedding_fst, rule put)
    next
      case (ByWarm now)
      with Inl show ?thesis by (intro warm [of now]) (simp add: slm_put_def)
    qed
  qed
qed

lemma SlmGet_fields [simp]:
  "sl_entries (fst (SlmGet c t0 t1 emb ks k)) = sl_entries c" "sl_expiry (fst (SlmGet c t0 t1 emb ks k)) = sl_expiry c"
  "sl_ttl (fst (SlmGet c t0 t1 emb ks k)) = sl_ttl c" "sl_maxEntries (fst (SlmGet c t0 t1 emb ks k)) = sl_maxEntries c"
  by (simp_all add: SlmGet_def getSemantic_def Let_def split_beta split: option.split)

lemma slm_touch_facts:
  assumes "slm_ok srt c"
  shows "slm_ok srt (slm_touch srt c w k)"
    and "sl_entries (slm_touch srt c w k) k' = Some e \<Longrightarrow> sl_entries c k' = Some e"
    and "sl_ttl (slm_touch srt c w k) = sl_ttl c" "sl_maxEntries (slm_touch srt c w k) = sl_maxEntries c"
proof -
  have g: "good_sorter srt" "slm_inv c" using assms by (simp_all add: slm_ok_def)
  have i: "dom (sl_entries c) \<subseteq> set (sl_expiry c)" "int (card (dom (sl_entries c))) \<le> sl_maxEntries c"
    using g(2) by (simp_all add: slm_inv_def)
  have ev: "slm_inv (fst (evictExpired srt c now))" for now
    using g(2) evictExpired_facts(2,4) [OF g(1) i(1), where now = now] slm_evictExpired_fields(1) [of srt c now]
    by (simp add: slm_inv_def)
  have so: "slm_inv (sortExpiry srt c)" using g by (simp add: slm_inv_def good_sorter_def)
  have "slm_inv (fst (SlmGet c t0 t1 emb ks k)) = slm_inv c" for t0 t1 emb ks by (rule slm_inv_cong) simp_all
  then show "slm_ok srt (slm_touch srt c w k)"
    using g ev so by (auto simp: slm_ok_def slm_touch_def split: sum.split slm_touch.split)
  show "sl_entries (slm_touch srt c w k) k' = Some e \<Longrightarrow> sl_entries c k' = Some e"
    using evictExpired_facts(1) [OF g(1) i(1)]
    by (auto simp: slm_touch_def split: sum.splits slm_touch.splits option.splits if_splits)
  show "sl_ttl (slm_touch srt c w k) = sl_ttl c" "sl_maxEntries (slm_touch srt c w k) = sl_maxEntries c"
    by (auto simp: slm_touch_def slm_evictExpired_fields split: sum.split slm_touch.split)
qed

lemma slm_put_facts:
  assumes "slm_ok srt c"
  shows "slm_ok srt (slm_put srt c w k v)"
    and "\<exists>e. sl_entries (slm_put srt c w k v) k = Some e \<and> cd_Route e = fst v \<and> cd_stamp e = snd v"
    and "k' \<noteq> k \<Longrightarrow> sl_entries (slm_put srt c w k v) k' = Some e \<Longrightarrow> sl_entries c k' = Some e"
    and "sl_ttl (slm_put srt c w k v) = sl_ttl c" "sl_maxEntries (slm_put srt c w k v) = sl_maxEntries c"
proof -
  obtain c' now e0 n where c': "slm_inv c' = slm_inv c" "sl_entries c' = sl_entries c" "sl_ttl c' = sl_ttl c"
      "sl_maxEntries c' = sl_maxEntries c" "cd_Route e0 = fst v" "cd_stamp e0 = snd v"
    and p: "slm_put srt c w k v = (put_entry (fst (make_room srt c' now)) k e0)\<lparr>sl_staleCount := n\<rparr>"
    using slm_put_shape [of c v srt w k] by blast
  have g: "good_sorter srt" "slm_inv c'" using assms c' by (simp_all add: slm_ok_def)
  have "slm_inv (put_entry (fst (make_room srt c' now)) k e0)" using put_room_inv [OF g] .
  then have "slm_inv (slm_put srt c w k v)" unfolding p by (subst slm_inv_cong) simp_all
  with g(1) show "slm_ok srt (slm_put srt c w k v)" by (simp add: slm_ok_def)
  show "\<exists>e. sl_entries (slm_put srt c w k v) k = Some e \<and> cd_Route e = fst v \<and> cd_stamp e = snd v"
    unfolding p using c' by (simp add: put_entry_def)
  show "k' \<noteq> k \<Longrightarrow> sl_entries (slm_put srt c w k v) k' = Some e \<Longrightarrow> sl_entries c k' = Some e"
    unfolding p using make_room_facts(3) [OF g, of now k' e] c'(2) by (simp add: put_entry_def)
  show "sl_ttl (slm_put srt c w k v) = sl_ttl c" "sl_maxEntries (slm_put srt c w k v) = sl_maxEntries c"
    unfolding p using c' by (simp_all add: put_entry_def)
qed

definition slm_count :: "slm \<Rightarrow> nat" where
  "slm_count c = card (dom (sl_entries c))"

definition slm_cap :: "slm \<Rightarrow> nat" where
  "slm_cap c = nat (sl_maxEntries c)"

interpretation sl: bounded_cache "slm_ok srt" slm_look "slm_touch srt" "slm_put srt" slm_count slm_cap
  for srt
proof
  fix s :: slm and t k k' v u w
  assume ok: "slm_ok srt s"
  show "slm_ok srt (slm_touch srt s t k)" by (rule slm_touch_facts(1) [OF ok])
  show "slm_ok srt (slm_put srt s t k v)" by (rule slm_put_facts(1) [OF ok])
  show "slm_look (slm_put srt s t k v) u k = Some w \<Longrightarrow> w = v"
    using slm_put_facts(2) [OF ok, of t k v] by (auto simp: slm_look_def split: if_splits)
  show "k' \<noteq> k \<Longrightarrow> slm_look (slm_put srt s t k v) u k' = Some w \<Longrightarrow> slm_look s u k' = Some w"
    using slm_put_facts(3) [OF ok, where k = k and k' = k' and w = t and v = v]
      slm_put_facts(4) [OF ok, where k = k and w = t and v = v] by (auto simp: slm_look_def split: option.splits if_splits)
  show "slm_look (slm_touch srt s t k) u k' = Some w \<Longrightarrow> slm_look s u k' = Some w"
    using slm_touch_facts(2,3) [OF ok, of t k] by (auto simp: slm_look_def split: option.splits if_splits)
  show "slm_count s \<le> slm_cap s" using ok by (auto simp: slm_ok_def slm_inv_def slm_count_def slm_cap_def)
  show "slm_cap (slm_touch srt s t k) = slm_cap s" "slm_cap (slm_put srt s t k v) = slm_cap s"
    using slm_touch_facts(4) [OF ok] slm_put_facts(5) [OF ok] by (simp_all add: slm_cap_def)
qed

section \<open>Histories\<close>

datatype slm_call =
  CallSet nanos nanos "real list option" string string
| CallSetEmbedding nanos string string "real list"
| CallEvictExpired nanos
| CallWarm nanos "(string \<times> string \<times> nanos) list"
| CallGet nanos nanos "real list option" "string list" string

fun slm_step :: "sorter \<Rightarrow> slm \<Rightarrow> slm_call \<Rightarrow> slm" where
  "slm_step srt c (CallSet t0 t1 emb k r) = fst (SlmSet srt c t0 t1 emb k r)"
| "slm_step srt c (CallSetEmbedding t k r emb) = fst (SetEmbedding srt c t k r emb)"
| "slm_step srt c (CallEvictExpired t) = fst (evictExpired srt c t)"
| "slm_step srt c (CallWarm t rows) = the (fst (Warm srt (Some c) t rows))"
| "slm_step srt c (CallGet t0 t1 emb ks k) = fst (SlmGet c t0 t1 emb ks k)"

text \<open>What a call writes: prompt, route and time of writing; \<open>Warm\<close> skips what is past its TTL.\<close>

definition warm_live :: "nanos \<Rightarrow> nanos \<Rightarrow> string \<times> string \<times> nanos \<Rightarrow> bool" where
  "warm_live ttl t row \<longleftrightarrow> \<not> ttl < t - snd (snd row)"

fun slm_writes :: "nanos \<Rightarrow> slm_call \<Rightarrow> (string \<times> string \<times> nanos) list" where
  "slm_writes ttl (CallSet t0 t1 emb k r) = [(k, r, t1)]"
| "slm_writes ttl (CallSetEmbedding t k r emb) = [(k, r, t)]"
| "slm_writes ttl (CallWarm t rows) = filter (warm_live ttl t) rows"
| "slm_writes ttl _ = []"

definition warm_op :: "nanos \<Rightarrow> string \<times> string \<times> nanos \<Rightarrow> (slm_way + slm_touch, string, string \<times> nanos) cache_op" where
  "warm_op t row = CPut (Inl (ByWarm t)) (fst row) (snd row)"

fun slm_as_ops :: "nanos \<Rightarrow> slm_call \<Rightarrow> (slm_way + slm_touch, string, string \<times> nanos) cache_op list" where
  "slm_as_ops ttl (CallSet t0 t1 emb k r) = [CPut (Inl (BySet t0 emb)) k (r, t1)]"
| "slm_as_ops ttl (CallSetEmbedding t k r emb) = [CPut (Inl (BySetEmbedding emb)) k (r, t)]"
| "slm_as_ops ttl (CallEvictExpired t) = [CTouch (Inr (Evict t)) []]"
| "slm_as_ops ttl (CallGet t0 t1 emb ks k) = [CTouch (Inr (Query t0 t1 emb ks)) k]"
| "slm_as_ops ttl (CallWarm t rows) =
     map (warm_op t) (filter (warm_live ttl t) rows)
     @ (if rows = [] then [] else [CTouch (Inr Resort) []])"

lemma warm_row_ttl [simp]: "sl_ttl (warm_row srt c t k r ts) = sl_ttl c"
  by (simp add: warm_row_def put_entry_def Let_def)

lemma slm_put_simps [simp]:
  "slm_put srt c (Inl (BySet t0 emb)) k v = fst (SlmSet srt c t0 (snd v) emb k (fst v))"
  "slm_put srt c (Inl (BySetEmbedding ve)) k v = fst (SetEmbedding srt c (snd v) k (fst v) ve)"
  "slm_put srt c (Inl (ByWarm now)) k v = warm_row srt c now k (fst v) (snd v)"
  "slm_touch srt c (Inr (Evict now)) k = fst (evictExpired srt c now)"
  "slm_touch srt c (Inr Resort) k = sortExpiry srt c"
  "slm_touch srt c (Inr (Query t0 t1 emb ks)) k = fst (SlmGet c t0 t1 emb ks k)"
  by (simp_all add: slm_put_def slm_touch_def)

lemma warm_loop_Cons:
  "warm_loop srt t c ((k, r, ts) # rows) l s =
     (if sl_ttl c < t - ts then warm_loop srt t c rows l (Suc s)
      else warm_loop srt t (warm_row srt c t k r ts) rows (Suc l) s)"
  by (simp add: warm_row_def Let_def)

declare warm_loop.simps(2) [simp del]

lemma warm_loop_run:
  "fst (warm_loop srt t c rows l s) =
     sl.run srt c (map (warm_op t) (filter (warm_live (sl_ttl c) t) rows))"
proof (induction rows arbitrary: c l s)
  case (Cons e rows)
  obtain k r ts where e: "e = (k, r, ts)" by (cases e)
  show ?case
    by (simp add: e warm_loop_Cons Cons.IH warm_op_def warm_live_def)
qed simp

lemma slm_step_run: "slm_step srt c call = sl.run srt c (slm_as_ops (sl_ttl c) call)"
proof (cases call)
  case (CallWarm t rows)
  obtain d l s where w: "warm_loop srt t c rows 0 0 = (d, l, s)" by (cases "warm_loop srt t c rows 0 0")
  then have "d = fst (warm_loop srt t c rows 0 0)" by simp
  with w show ?thesis
    by (simp add: CallWarm Warm_def warm_loop_run sl.run_append)
qed simp_all

lemma latest_writes: "latest (slm_as_ops ttl call) k = map_of (rev (slm_writes ttl call)) k"
proof (cases call)
  case (CallWarm t rows)
  have "latest (map (warm_op t) rs) k = map_of (rev rs) k" for rs
    by (induction rs) (auto simp: map_add_def warm_op_def split: option.splits)
  then show ?thesis using CallWarm by (simp add: latest_append split: option.split)
qed simp_all

lemma slm_step_ok:
  assumes "slm_ok srt c"
  shows "slm_ok srt (slm_step srt c call) \<and> sl_ttl (slm_step srt c call) = sl_ttl c"
proof
  show "slm_ok srt (slm_step srt c call)" unfolding slm_step_run by (rule sl.run_ok [OF assms])
  have "slm_ok srt d \<Longrightarrow> sl_ttl (sl.run srt d ops) = sl_ttl d" for d ops
  proof (induction ops arbitrary: d)
    case (Cons a ops)
    then show ?case
      using slm_put_facts(1,4) [OF Cons.prems] slm_touch_facts(1,3) [OF Cons.prems] by (cases a) auto
  qed simp
  then show "sl_ttl (slm_step srt c call) = sl_ttl c" unfolding slm_step_run using assms by blast
qed

section \<open>Similarity\<close>

lemma sqrt_step: "0 \<le> A \<Longrightarrow> 0 \<le> B \<Longrightarrow> x * y + sqrt A * sqrt B \<le> sqrt (x * x + A) * sqrt (y * y + B)"
proof -
  assume AB: "0 \<le> A" "0 \<le> B"
  have "0 \<le> (x * sqrt B - y * sqrt A)\<^sup>2" by simp
  also have "\<dots> = x\<^sup>2 * B + y\<^sup>2 * A - 2 * (x * y * (sqrt A * sqrt B))"
    using AB by (simp add: power2_diff power_mult_distrib algebra_simps)
  finally have "(x * y + sqrt A * sqrt B)\<^sup>2 \<le> (x * x + A) * (y * y + B)"
    using AB by (simp add: power2_sum power_mult_distrib power2_eq_square algebra_simps)
  then have "\<bar>x * y + sqrt A * sqrt B\<bar> \<le> sqrt ((x * x + A) * (y * y + B))"
    by (metis real_sqrt_abs real_sqrt_le_iff)
  then show ?thesis by (simp add: real_sqrt_mult)
qed

lemma dot_le:
  "sum_list (map (\<lambda>(x, y). x * y) ps) \<le>
     sqrt (sum_list (map (\<lambda>(x, y). x * x) ps)) * sqrt (sum_list (map (\<lambda>(x, y). y * y) ps) :: real)"
proof (induction ps)
  case (Cons p ps)
  obtain x y where p: "p = (x, y)" by (cases p)
  have "0 \<le> sum_list (map (\<lambda>(x, y). x * x) ps)" "0 \<le> sum_list (map (\<lambda>(x, y). y * y) ps :: real list)"
    by (rule sum_list_nonneg_real, auto)+
  from sqrt_step [OF this, of x y] Cons.IH show ?case by (simp add: p)
qed simp

lemma cosine_le_1: "cosineSimilarity a b \<le> 1"
proof -
  let ?ps = "zip a b"
  let ?na = "sum_list (map (\<lambda>(x, y). x * x) ?ps)" and ?nb = "sum_list (map (\<lambda>(x, y). y * y) ?ps)"
  have nn: "0 \<le> ?na" "0 \<le> ?nb" by (rule sum_list_nonneg_real, auto)+
  show ?thesis
  proof (cases "?na = 0 \<or> ?nb = 0")
    case True
    then show ?thesis by (auto simp: cosineSimilarity_def Let_def)
  next
    case False
    with nn have "0 < sqrt ?na * sqrt ?nb" by (simp add: less_le)
    with False dot_le [of ?ps] show ?thesis
      by (simp add: cosineSimilarity_def Let_def divide_le_eq_1)
  qed
qed

text \<open>The entries a semantic lookup may answer with, as route and score.\<close>

definition candidate :: "slm \<Rightarrow> nanos \<Rightarrow> real list \<Rightarrow> string \<Rightarrow> (string \<times> real) option" where
  "candidate c now v k =
     (case sl_entries c k of
        None \<Rightarrow> None
      | Some e \<Rightarrow> if past_ttl c now e then None
          else case cd_emb e of
            None \<Rightarrow> None
          | Some w \<Rightarrow> if length v \<noteq> length w then None else Some (cd_Route e, cosineSimilarity v w))"

lemma candidate_le_1: "candidate c now v k = Some p \<Longrightarrow> snd p \<le> 1"
  by (auto simp: candidate_def cosine_le_1 split: option.splits if_splits)

lemma scan_Cons:
  "fst (scan_loop c now v (k # ks) best mism) =
     (case candidate c now v k of
        None \<Rightarrow> fst (scan_loop c now v ks best (mism + (if \<exists>e w. sl_entries c k = Some e \<and> \<not> past_ttl c now e
                    \<and> cd_emb e = Some w \<and> length v \<noteq> length w then 1 else 0)))
      | Some p \<Rightarrow>
          let best = (if snd best < snd p then p else best)
          in if 1 \<le> snd best then best else fst (scan_loop c now v ks best mism))"
  by (auto simp: candidate_def Let_def split: option.split)

declare scan_loop.simps(2) [simp del]

lemma scan_best:
  "let b = fst (scan_loop c now v ks best mism) in
     (b = best \<or> (\<exists>k\<in>set ks. candidate c now v k = Some b)) \<and> snd best \<le> snd b \<and>
     (\<forall>k\<in>set ks. \<forall>p. candidate c now v k = Some p \<longrightarrow> snd p \<le> snd b)"
proof (induction ks arbitrary: best mism)
  case (Cons k ks)
  show ?case
  proof (cases "candidate c now v k")
    case None
    obtain m where "fst (scan_loop c now v (k # ks) best mism) = fst (scan_loop c now v ks best m)"
      using None by (simp only: scan_Cons option.case)
    with Cons.IH [of best m] None show ?thesis by (auto simp: Let_def)
  next
    case (Some p)
    let ?b = "if snd best < snd p then p else best"
    show ?thesis
    proof (cases "1 \<le> snd ?b")
      case True
      then have "fst (scan_loop c now v (k # ks) best mism) = ?b" using Some by (simp add: scan_Cons Let_def)
      moreover have "snd q \<le> snd ?b" if "candidate c now v x = Some q" for x q
        using candidate_le_1 [OF that] True by linarith
      ultimately show ?thesis using Some by (auto simp: Let_def)
    next
      case False
      then have "fst (scan_loop c now v (k # ks) best mism) = fst (scan_loop c now v ks ?b mism)"
        using Some by (simp only: scan_Cons option.case Let_def if_False)
      with Cons.IH [of ?b mism] Some show ?thesis by (auto simp: Let_def split: if_splits)
    qed
  qed
qed (simp add: Let_def)

section \<open>An insertion sort in the place of \<open>sort.Slice\<close>\<close>

fun ins :: "(string \<Rightarrow> string \<Rightarrow> bool) \<Rightarrow> string \<Rightarrow> string list \<Rightarrow> string list" where
  "ins lt x [] = [x]"
| "ins lt x (y # ys) = (if lt y x then y # ins lt x ys else x # y # ys)"

definition isort :: sorter where
  "isort lt xs = foldr (ins lt) xs []"

lemma set_ins: "set (ins lt x ys) = insert x (set ys)"
  by (induction ys) auto

lemma set_isort: "set (isort lt xs) = set xs"
  by (induction xs) (simp_all add: isort_def set_ins)

lemma ins_sorted:
  assumes "\<forall>k\<in>insert x (set ys). m k \<noteq> None" "sorted (map (\<lambda>k. cd_stamp (the (m k))) ys)"
  shows "sorted (map (\<lambda>k. cd_stamp (the (m k))) (ins (expiry_less m) x ys))"
  using assms
proof (induction ys)
  case (Cons y ys)
  from Cons.prems(1) obtain ex ey where "m x = Some ex" "m y = Some ey" by auto
  with Cons show ?case by (auto simp: expiry_less_def set_ins)
qed simp

lemma good_isort: "good_sorter isort"
  unfolding good_sorter_def
proof (intro conjI allI impI)
  fix m :: "string \<rightharpoonup> cachedDecision" and ks
  assume "\<forall>k\<in>set ks. m k \<noteq> None"
  then show "sorted (map (\<lambda>k. cd_stamp (the (m k))) (isort (expiry_less m) ks))"
  proof (induction ks)
    case (Cons k ks)
    have "set (foldr (ins (expiry_less m)) ks []) = set ks"
      using set_isort [of "expiry_less m" ks] by (simp add: isort_def)
    with Cons show ?case by (simp add: isort_def ins_sorted)
  qed (simp add: isort_def)
qed (rule set_isort)

section \<open>Properties\<close>

lemma slm_run_ok:
  "slm_ok srt c \<Longrightarrow> slm_ok srt (foldl (slm_step srt) c calls) \<and> sl_ttl (foldl (slm_step srt) c calls) = sl_ttl c
     \<and> sl_maxEntries (foldl (slm_step srt) c calls) = sl_maxEntries c"
proof (induction calls rule: rev_induct)
  case (snoc a calls)
  have "nat (sl_maxEntries (slm_step srt d a)) = nat (sl_maxEntries d) \<and> 0 < sl_maxEntries (slm_step srt d a)"
    if "slm_ok srt d" for d
    using that sl.run_cap [OF that, of "slm_as_ops (sl_ttl d) a"] slm_step_ok [OF that, of a]
    by (simp add: slm_step_run slm_cap_def slm_ok_def slm_inv_def)
  with snoc slm_step_ok show ?case
    by (simp add: slm_ok_def slm_inv_def) (metis eq_nat_nat_iff less_imp_le)
qed simp

lemma slm_run_ops:
  assumes "slm_ok srt c"
  shows "foldl (slm_step srt) c calls = sl.run srt c (concat (map (slm_as_ops (sl_ttl c)) calls))"
proof (induction calls rule: rev_induct)
  case (snoc a calls)
  with slm_run_ok [OF assms, of calls] show ?case by (simp add: slm_step_run sl.run_append)
qed simp

lemma latest_concat:
  "latest (concat (map (slm_as_ops ttl) calls)) k = map_of (rev (concat (map (slm_writes ttl) calls))) k"
  by (induction calls rule: rev_induct) (simp_all add: latest_append latest_writes map_add_def split: option.split)

lemma New_ok: "good_sorter srt \<Longrightarrow> slm_ok srt (NewSLMCacheWithEmbedder ttl mx emb thr)"
  by (simp add: slm_ok_def slm_inv_def NewSLMCacheWithEmbedder_def DefaultSLMCacheMaxEntries_def)

text \<open>
  The decision cache never outgrows its cap. After any sequence of \<open>Set\<close>, \<open>SetEmbedding\<close>, \<open>Warm\<close>,
  \<open>Get\<close> and background evictions, at whatever times and whatever the embedder answers, the map holds
  at most the configured number of entries, and every entry is in the eviction order.
\<close>

theorem slm_cache_bounded:
  assumes "good_sorter srt" "0 < mx"
  shows "int (card (dom (sl_entries (foldl (slm_step srt) (NewSLMCacheWithEmbedder ttl mx emb thr) calls)))) \<le> mx
    \<and> dom (sl_entries (foldl (slm_step srt) (NewSLMCacheWithEmbedder ttl mx emb thr) calls))
        \<subseteq> set (sl_expiry (foldl (slm_step srt) (NewSLMCacheWithEmbedder ttl mx emb thr) calls))"
  using slm_run_ok [OF New_ok [OF assms(1), of ttl mx emb thr], of calls] assms(2)
  by (simp add: slm_ok_def slm_inv_def) (simp add: NewSLMCacheWithEmbedder_def)

theorem slm_cache_bounded_witness:
  "int (card (dom (sl_entries (foldl (slm_step isort) (NewSLMCacheWithEmbedder 10 1 False 0)
      [CallSet 0 0 None ''a'' ''local'', CallSet 1 1 None ''b'' ''frontier''])))) \<le> 1"
  using slm_cache_bounded [OF good_isort, of 1 10 False 0
      "[CallSet 0 0 None ''a'' ''local'', CallSet 1 1 None ''b'' ''frontier'']"] by simp

text \<open>
  An exact hit is the last decision written for that prompt and is within its TTL. Whatever calls
  came before, a route that \<open>Get\<close> returns as an exact hit is the route of the latest write of the very
  same prompt, written at most one TTL before.
\<close>

theorem slm_exact_hit_is_latest:
  assumes "good_sorter srt" "0 < ttl"
    and "fst (snd (SlmGet (foldl (slm_step srt) (NewSLMCacheWithEmbedder ttl mx emb thr) calls) t0 t1 e ks prompt))
           = Some (r, CacheHitExact)"
  shows "\<exists>ts. map_of (rev (concat (map (slm_writes ttl) calls))) prompt = Some (r, ts) \<and> t0 - ts \<le> ttl"
proof -
  let ?n = "NewSLMCacheWithEmbedder ttl mx emb thr"
  let ?c = "foldl (slm_step srt) ?n calls"
  have ttl: "sl_ttl ?n = ttl" using assms(2) by (simp add: NewSLMCacheWithEmbedder_def)
  note ok = New_ok [OF assms(1), of ttl mx emb thr]
  have "exact_hit ?c t0 prompt = Some r"
    using assms(3) by (auto simp: SlmGet_def getSemantic_def Let_def split_beta split: option.splits if_splits)
  then obtain ts where l: "slm_look ?c t0 prompt = Some (r, ts)" by (auto simp: exact_hit_look)
  have "slm_look ?n u k = None" for u k by (simp add: slm_look_def NewSLMCacheWithEmbedder_def)
  with sl.hits_are_latest [OF ok, of "concat (map (slm_as_ops ttl) calls)" t0 prompt "(r, ts)"] l
  have "latest (concat (map (slm_as_ops ttl) calls)) prompt = Some (r, ts)"
    by (simp add: slm_run_ops [OF ok] ttl)
  moreover have "t0 - ts \<le> ttl"
    using l slm_run_ok [OF ok, of calls] ttl by (auto simp: slm_look_def split: option.splits if_splits)
  ultimately show ?thesis by (simp add: latest_concat)
qed

theorem slm_exact_hit_is_latest_witness:
  "\<exists>ts. map_of (rev (concat (map (slm_writes 10) [CallSet 0 1 None ''a'' ''local'']))) ''a'' = Some (''local'', ts) \<and> 5 - ts \<le> 10"
  by (rule slm_exact_hit_is_latest [OF good_isort, of 10 8 False 0 _ 5 5 None "[]"])
    (simp_all add: SlmGet_def exact_hit_def SlmSet_def make_room_def put_entry_def full_def
      NewSLMCacheWithEmbedder_def Let_def)

text \<open>
  When the cache is full of live entries, the oldest goes. If no entry is past its TTL, an
  insertion into a full cache removes exactly one entry, and no entry that stays was written earlier
  than the one that went.
\<close>

theorem slm_eviction_takes_oldest:
  assumes "good_sorter srt" "slm_inv c" "int (card (dom (sl_entries c))) = sl_maxEntries c"
    and "\<forall>k e. sl_entries c k = Some e \<longrightarrow> \<not> past_ttl c now e"
  shows "\<exists>victim e. sl_entries c victim = Some e
    \<and> sl_entries (fst (make_room srt c now)) = (sl_entries c)(victim := None)
    \<and> snd (make_room srt c now) = (0, 1)
    \<and> (\<forall>k' e'. sl_entries c k' = Some e' \<longrightarrow> cd_stamp e \<le> cd_stamp e')"
proof -
  have i: "0 < sl_maxEntries c" "dom (sl_entries c) \<subseteq> set (sl_expiry c)"
    using assms(2) by (simp_all add: slm_inv_def)
  let ?d = "fst (evictExpired srt c now)"
  note d = evictExpired_facts [OF assms(1) i(2), where now = now]
  have same: "sl_entries ?d = sl_entries c"
    using assms(4) by (auto simp: d(1) fun_eq_iff split: option.split)
  have n: "snd (evictExpired srt c now) = 0"
    using evict_scan_count [OF inv_finite [OF i(2)], of "past_ttl c now" "sl_expiry c"] same
    by (simp add: slm_evictExpired_fields)
  have mx: "sl_maxEntries ?d = sl_maxEntries c" by (rule slm_evictExpired_fields)
  have f: "full c" "full ?d" using assms(3) same mx by (simp_all add: full_def)
  have "set (sl_expiry ?d) \<noteq> {}" using d(2) same assms(3) i(1) by auto
  then obtain x xs where x: "sl_expiry ?d = x # xs" by (cases "sl_expiry ?d") auto
  then obtain e where e: "sl_entries c x = Some e" using d(2) same by auto
  have "cd_stamp e \<le> cd_stamp e'" if "sl_entries c k' = Some e'" for k' e'
  proof -
    have "k' \<in> set (x # xs)" using that d(2) same x by (metis domI)
    with d(3) x same e that show ?thesis by auto
  qed
  moreover have "make_room srt c now = (fst (evictLru ?d), 0, snd (evictLru ?d))"
    using f i(1) n by (simp add: make_room_def split_beta)
  ultimately show ?thesis
    using e x same by (intro exI [of _ x] exI [of _ e]) (simp add: evictLru_def)
qed

theorem slm_eviction_takes_oldest_witness:
  "\<exists>c victim. sl_entries c = [''a'' \<mapsto> \<lparr>cd_Route = [], cd_stamp = 3, cd_emb = None\<rparr>] \<and>
     sl_entries (fst (make_room isort c 5)) = (sl_entries c)(victim := None) \<and> victim = ''a''"
proof -
  let ?c = "fst (SlmSet isort (NewSLMCacheWithEmbedder 10 1 False 0) 3 3 None ''a'' [])"
  have c: "sl_entries ?c = [''a'' \<mapsto> \<lparr>cd_Route = [], cd_stamp = 3, cd_emb = None\<rparr>]" "sl_ttl ?c = 10"
      "sl_maxEntries ?c = 1" "sl_expiry ?c = [''a'']"
    by (simp_all add: SlmSet_def make_room_def put_entry_def full_def NewSLMCacheWithEmbedder_def Let_def)
  then have "slm_inv ?c" by (simp add: slm_inv_def)
  moreover have "int (card (dom (sl_entries ?c))) = sl_maxEntries ?c" by (simp only: c) simp
  moreover have "\<forall>k e. sl_entries ?c k = Some e \<longrightarrow> \<not> past_ttl ?c 5 e"
    unfolding c(1) past_ttl_def c(2) by (auto split: if_splits)
  ultimately obtain v e where "sl_entries ?c v = Some e" "sl_entries (fst (make_room isort ?c 5)) = (sl_entries ?c)(v := None)"
    using slm_eviction_takes_oldest [OF good_isort, of ?c 5] by blast
  moreover from this(1) c have "v = ''a''" by (simp split: if_splits)
  ultimately show ?thesis using c by blast
qed

text \<open>
  A semantic hit is the best match. For every order in which the map is iterated, and although
  the scan stops at a perfect score, a lookup that embeds its prompt answers exactly when some live
  entry of the same dimension reaches the threshold, and then with the route of an entry whose
  similarity is the greatest of all.
\<close>

theorem slm_semantic_best:
  assumes "0 < sl_semThreshold c" "set ks = dom (sl_entries c)" "\<not> cooling c t0"
  shows "(case fst (snd (getSemantic c t0 t1 (Some v) ks)) of
      None \<Rightarrow> \<forall>k p. candidate c t1 v k = Some p \<longrightarrow> snd p < sl_semThreshold c
    | Some (r, kind) \<Rightarrow> kind = CacheHitSemantic \<and>
        (\<exists>k s. candidate c t1 v k = Some (r, s) \<and> sl_semThreshold c \<le> s \<and>
           (\<forall>k' p. candidate c t1 v k' = Some p \<longrightarrow> snd p \<le> s)))"
proof -
  let ?b = "fst (scan_loop c t1 v ks ([], -1) 0)"
  have r: "fst (snd (getSemantic c t0 t1 (Some v) ks)) =
      (if sl_semThreshold c \<le> snd ?b then Some (fst ?b, CacheHitSemantic) else None)"
    using assms(3) by (simp add: getSemantic_def Let_def split_beta)
  have dom: "k \<in> set ks" if "candidate c t1 v k = Some p" for k p
    using that assms(2) by (auto simp: candidate_def split: option.splits)
  note b = scan_best [of c t1 v ks "([], -1)" 0, unfolded Let_def]
  have le: "\<forall>k p. candidate c t1 v k = Some p \<longrightarrow> snd p \<le> snd ?b" using b dom by blast
  show ?thesis
  proof (cases "sl_semThreshold c \<le> snd ?b")
    case False
    with r le show ?thesis by force
  next
    case True
    then have "?b \<noteq> ([], -1)" using assms(1) by auto
    with b obtain k where "candidate c t1 v k = Some ?b" by blast
    with True r le show ?thesis by (intro option.split [THEN iffD2]) (auto intro!: exI [of _ k] exI [of _ "snd ?b"])
  qed
qed

theorem slm_semantic_best_witness:
  "\<exists>c k s. sl_entries c = [''a'' \<mapsto> \<lparr>cd_Route = ''local'', cd_stamp = 0, cd_emb = Some [1]\<rparr>]
     \<and> candidate c 1 [2] k = Some (''local'', s) \<and> 1 / 2 \<le> s"
proof -
  let ?c = "fst (SetEmbedding isort (NewSLMCacheWithEmbedder 10 4 True (1 / 2)) 0 ''a'' ''local'' [1])"
  have c: "sl_entries ?c = [''a'' \<mapsto> \<lparr>cd_Route = ''local'', cd_stamp = 0, cd_emb = Some [1]\<rparr>]"
      "sl_semThreshold ?c = 1 / 2" "\<not> cooling ?c 1" "sl_ttl ?c = 10"
    by (simp_all add: SetEmbedding_def make_room_def put_entry_def full_def NewSLMCacheWithEmbedder_def Let_def cooling_def)
  have s: "cosineSimilarity [2] [1] = 1" by (simp add: cosineSimilarity_def Let_def)
  have a: "candidate ?c 1 [2] ''a'' = Some (''local'', 1)" using c s by (simp add: candidate_def past_ttl_def)
  have res: "fst (snd (getSemantic ?c 1 1 (Some [2]) [''a''])) = Some (''local'', CacheHitSemantic)"
    using c s by (simp add: getSemantic_def scan_Cons a Let_def split_beta)
  have "set [''a''] = dom (sl_entries ?c)" using c by simp
  from slm_semantic_best [OF _ this c(3), of 1 "[2]"] c(2) res
  obtain k s where "candidate ?c 1 [2] k = Some (''local'', s)" "1 / 2 \<le> s" by auto
  with c(1) show ?thesis by blast
qed

text \<open>
  Two failures in a row trip the embedder's breaker. The span the code compares is that of the
  last two of the three failures it remembers: with an empty buffer, the third failure opens the
  cooldown exactly when it comes within 30 seconds of the second, however long ago the first one was.
\<close>

theorem slm_breaker_ignores_first_failure:
  assumes "length (sl_embedBreaker c) = 3" "sl_embedBreakerPos c = 0" "sl_embedCooldownUntil c = None"
  shows "sl_embedCooldownUntil (embed_failed (embed_failed (embed_failed c t0) t1) t2) =
      (if t2 - t1 \<le> 30 * second then Some (t2 + 30 * second) else None)
    \<and> sl_embedCooldownUntil (embed_failed (embed_failed c t0) t1) = None"
proof -
  obtain a b d where l: "sl_embedBreaker c = [a, b, d]"
    using assms(1) by (auto simp: length_Suc_conv numeral_3_eq_3)
  show ?thesis
    using assms(2,3)
    by (simp add: embed_failed_def embedFailureCooldownThreshold_def embedFailureCooldownWindow_def l Let_def)
qed

theorem slm_breaker_ignores_first_failure_witness:
  "sl_embedCooldownUntil (embed_failed (embed_failed (embed_failed (NewSLMCacheWithEmbedder 10 4 True 0) 0) (24 * hour)) (24 * hour))
     = Some (24 * hour + 30 * second)"
  using slm_breaker_ignores_first_failure [of "NewSLMCacheWithEmbedder 10 4 True 0" 0 "24 * hour" "24 * hour"]
  by (simp add: NewSLMCacheWithEmbedder_def)

text \<open>
  The stale counter does not count stale entries. Writing one prompt \<open>n\<close> times leaves a single
  entry, none of it stale, and a counter of \<open>n\<close>; with a proactive threshold below \<open>n\<close> the next
  semantic lookup therefore spawns an eviction that has nothing to evict.
\<close>

theorem slm_stale_count_drifts:
  "sl_staleCount (foldl (slm_step isort) (NewSLMCacheWithEmbedder 10 4 False 0) (replicate n (CallSet 0 0 None ''a'' ''local''))) = int n
   \<and> StaleEntries (foldl (slm_step isort) (NewSLMCacheWithEmbedder 10 4 False 0) (replicate n (CallSet 0 0 None ''a'' ''local''))) 0 = 0
   \<and> card (dom (sl_entries (foldl (slm_step isort) (NewSLMCacheWithEmbedder 10 4 False 0) (replicate n (CallSet 0 0 None ''a'' ''local''))))) \<le> 1"
proof -
  define P where "P n c \<longleftrightarrow> sl_staleCount c = int n \<and> sl_maxEntries c = 4 \<and> sl_ttl c = 10 \<and> \<not> sl_embedder c
      \<and> (sl_entries c = Map.empty \<or> sl_entries c = [''a'' \<mapsto> \<lparr>cd_Route = ''local'', cd_stamp = 0, cd_emb = None\<rparr>])"
    for n and c :: slm
  have step: "P n c \<Longrightarrow> P (Suc n) (slm_step isort c (CallSet 0 0 None ''a'' ''local''))" for n c
    by (auto simp: P_def SlmSet_def make_room_def full_def put_entry_def Let_def)
  have "P n (foldl (slm_step isort) (NewSLMCacheWithEmbedder 10 4 False 0) (replicate n (CallSet 0 0 None ''a'' ''local'')))" for n
  proof (induction n)
    case 0
    then show ?case by (simp add: P_def NewSLMCacheWithEmbedder_def)
  next
    case (Suc n)
    from step [OF this] show ?case by (simp add: replicate_append_same [symmetric])
  qed
  from this [of n] show ?thesis
    by (auto simp: P_def StaleEntries_def past_ttl_def)
qed

end
