(* ===== verification/ArbiterCache.thy ===== *)
theory ArbiterCache
  imports CacheSpec GoStrings
begin

text \<open>
  \<open>internal/upstream/arbiter_cache.go\<close>: the LRU cache of arbiter syntheses, keyed by a hash of the two
  panel answers that does not depend on their order. SHA-256 is the parameter \<open>sha\<close>, a key is its
  digest. Every method holds the mutex; the eviction observer is a flag in the state and an event in
  the result.
\<close>

section \<open>State and keys\<close>

record arbEntry =
  ab_Synthesis :: string
  ab_CachedAt :: nanos
  ab_TTLDuration :: nanos

record arbiter =
  ar_items :: "string \<rightharpoonup> arbEntry"
  ar_ttl :: nanos
  ar_maxEntries :: int
  ar_lru :: "string list"
  ar_observer :: bool

definition DefaultArbiterCacheMaxEntries :: int where "DefaultArbiterCacheMaxEntries = 512"

definition NewArbiterCache :: "nanos \<Rightarrow> int \<Rightarrow> arbiter" where
  "NewArbiterCache ttl maxEntries =
     \<lparr>ar_items = Map.empty, ar_ttl = ttl,
      ar_maxEntries = (if maxEntries \<le> 0 then DefaultArbiterCacheMaxEntries else maxEntries),
      ar_lru = [], ar_observer = False\<rparr>"

text \<open>\<open>bytes.Compare\<close> below zero is the order \<open>bytes_less\<close>.\<close>

definition canonicalize :: "string \<Rightarrow> string \<Rightarrow> string" where
  "canonicalize h1 h2 = (if bytes_less h1 h2 then h1 @ h2 else h2 @ h1)"

definition cacheKey :: "(string \<Rightarrow> string) \<Rightarrow> string \<Rightarrow> string \<Rightarrow> string" where
  "cacheKey sha r1 r2 =
     (if r1 = r2 then sha (r1 @ ''|SAME|'')
      else sha (canonicalize (sha r1) (sha r2)))"

section \<open>Operations\<close>

definition lru_touch :: "arbiter \<Rightarrow> string \<Rightarrow> arbiter" where
  "lru_touch c key =
     (if ar_items c key = None then c
      else if key \<in> set (ar_lru c) then c\<lparr>ar_lru := remove1 key (ar_lru c) @ [key]\<rparr>
      else c\<lparr>ar_lru := ar_lru c @ [key]\<rparr>)"

definition evictLru :: "arbiter \<Rightarrow> arbiter" where
  "evictLru c =
     (case ar_lru c of
        [] \<Rightarrow> c
      | key # ks \<Rightarrow> c\<lparr>ar_lru := ks, ar_items := (ar_items c)(key := None)\<rparr>)"

definition SetEvictionObserver :: "arbiter option \<Rightarrow> bool \<Rightarrow> arbiter option" where
  "SetEvictionObserver c f = map_option (\<lambda>c. c\<lparr>ar_observer := f\<rparr>) c"

definition get_key :: "arbiter \<Rightarrow> nanos \<Rightarrow> string \<Rightarrow> arbiter \<times> string option" where
  "get_key c now key =
     (case ar_items c key of
        None \<Rightarrow> (c, None)
      | Some e \<Rightarrow> if ab_TTLDuration e < now - ab_CachedAt e then (c, None)
          else (lru_touch c key, Some (ab_Synthesis e)))"

definition ArbGet :: "(string \<Rightarrow> string) \<Rightarrow> arbiter option \<Rightarrow> nanos \<Rightarrow> string \<Rightarrow> string \<Rightarrow> arbiter option \<times> string option" where
  "ArbGet sha c now r1 r2 =
     (case c of
        None \<Rightarrow> (None, None)
      | Some c \<Rightarrow> (case get_key c now (cacheKey sha r1 r2) of (c, r) \<Rightarrow> (Some c, r)))"

text \<open>The insertion that \<open>Set\<close> and \<open>Warm\<close> share; the flag says whether an eviction was attempted.\<close>

definition at_cap :: "arbiter \<Rightarrow> bool" where
  "at_cap c \<longleftrightarrow> 0 < ar_maxEntries c \<and> ar_maxEntries c \<le> int (card (dom (ar_items c)))"

definition insert_key :: "arbiter \<Rightarrow> string \<Rightarrow> arbEntry \<Rightarrow> arbiter \<times> bool" where
  "insert_key c key e =
     (let evicted = at_cap c;
          c = (if evicted then evictLru c else c);
          c = c\<lparr>ar_items := (ar_items c)(key \<mapsto> e)\<rparr>
      in (lru_touch c key, evicted))"

definition ArbSet :: "(string \<Rightarrow> string) \<Rightarrow> arbiter option \<Rightarrow> nanos \<Rightarrow> string \<Rightarrow> string \<Rightarrow> string \<Rightarrow> nanos \<Rightarrow> arbiter option \<times> bool" where
  "ArbSet sha c now r1 r2 synthesis ttl =
     (case c of
        None \<Rightarrow> (None, False)
      | Some c \<Rightarrow>
          (case insert_key c (cacheKey sha r1 r2)
                  \<lparr>ab_Synthesis = synthesis, ab_CachedAt = now, ab_TTLDuration = ttl\<rparr> of
             (c, evicted) \<Rightarrow> (Some c, evicted \<and> ar_observer c)))"

definition delete_key :: "arbiter \<Rightarrow> string \<Rightarrow> arbiter" where
  "delete_key c key = c\<lparr>ar_items := (ar_items c)(key := None), ar_lru := remove1 key (ar_lru c)\<rparr>"

definition ArbDelete :: "(string \<Rightarrow> string) \<Rightarrow> arbiter option \<Rightarrow> string \<Rightarrow> string \<Rightarrow> arbiter option" where
  "ArbDelete sha c r1 r2 = map_option (\<lambda>c. delete_key c (cacheKey sha r1 r2)) c"

definition Purge :: "arbiter option \<Rightarrow> arbiter option" where
  "Purge c = map_option (\<lambda>c. c\<lparr>ar_items := Map.empty, ar_lru := []\<rparr>) c"

definition Enabled :: "arbiter option \<Rightarrow> bool" where
  "Enabled c = (case c of None \<Rightarrow> False | Some c \<Rightarrow> 0 < ar_ttl c)"

fun arb_warm_loop :: "nanos \<Rightarrow> arbiter \<Rightarrow> (string \<times> string \<times> nanos) list \<Rightarrow> nat \<Rightarrow> nat \<Rightarrow> arbiter \<times> nat \<times> nat" where
  "arb_warm_loop now c [] loaded skipped = (c, loaded, skipped)"
| "arb_warm_loop now c ((key, synthesis, written) # es) loaded skipped =
     (if ar_ttl c < now - written then arb_warm_loop now c es loaded (Suc skipped)
      else arb_warm_loop now
             (fst (insert_key c key \<lparr>ab_Synthesis = synthesis, ab_CachedAt = written, ab_TTLDuration = ar_ttl c\<rparr>))
             es (Suc loaded) skipped)"

definition ArbWarm :: "arbiter option \<Rightarrow> nanos \<Rightarrow> (string \<times> string \<times> nanos) list \<Rightarrow> arbiter option \<times> nat \<times> nat" where
  "ArbWarm c now es =
     (case c of
        None \<Rightarrow> (None, 0, 0)
      | Some c \<Rightarrow> if es = [] then (Some c, 0, 0)
          else (case arb_warm_loop now c es 0 0 of (c, l, s) \<Rightarrow> (Some c, l, s)))"

section \<open>Invariant\<close>

definition ar_inv :: "arbiter \<Rightarrow> bool" where
  "ar_inv c \<longleftrightarrow> 0 < ar_maxEntries c \<and> distinct (ar_lru c) \<and> set (ar_lru c) = dom (ar_items c) \<and>
     int (length (ar_lru c)) \<le> ar_maxEntries c"

lemma ar_size: "ar_inv c \<Longrightarrow> card (dom (ar_items c)) = length (ar_lru c)"
  using distinct_card [of "ar_lru c"] by (simp add: ar_inv_def)

lemma lru_touch_fields [simp]:
  "ar_items (lru_touch c k) = ar_items c" "ar_maxEntries (lru_touch c k) = ar_maxEntries c"
  "ar_ttl (lru_touch c k) = ar_ttl c" "ar_observer (lru_touch c k) = ar_observer c"
  by (simp_all add: lru_touch_def)

lemma ar_inv_touch [inv_intros]: "ar_inv c \<Longrightarrow> ar_inv (lru_touch c k)"
  by (auto simp: ar_inv_def lru_touch_def length_remove1)

lemma ar_inv_delete [inv_intros]: "ar_inv c \<Longrightarrow> ar_inv (delete_key c k)"
  by (auto simp: ar_inv_def delete_key_def length_remove1)

text \<open>After an insertion the key is the most recent, and room was made for it.\<close>

lemma insert_key_facts:
  assumes "ar_inv c"
  shows "ar_inv (fst (insert_key c k e))" "ar_items (fst (insert_key c k e)) k = Some e"
    "k' \<noteq> k \<Longrightarrow> ar_items (fst (insert_key c k e)) k' = Some x \<Longrightarrow> ar_items c k' = Some x"
    "ar_maxEntries (fst (insert_key c k e)) = ar_maxEntries c" "ar_ttl (fst (insert_key c k e)) = ar_ttl c"
proof -
  let ?c = "if at_cap c then evictLru c else c"
  have i: "distinct (ar_lru ?c)" "set (ar_lru ?c) = dom (ar_items ?c)" "int (length (ar_lru ?c)) < ar_maxEntries c"
      "ar_maxEntries ?c = ar_maxEntries c" "ar_ttl ?c = ar_ttl c"
    using assms ar_size [OF assms]
    by (auto simp: ar_inv_def evictLru_def at_cap_def split: list.splits)
  then show "ar_inv (fst (insert_key c k e))"
    using assms by (auto simp: ar_inv_def insert_key_def Let_def lru_touch_def length_remove1)
  show "ar_items (fst (insert_key c k e)) k = Some e" by (simp add: insert_key_def Let_def)
  show "k' \<noteq> k \<Longrightarrow> ar_items (fst (insert_key c k e)) k' = Some x \<Longrightarrow> ar_items c k' = Some x"
    by (auto simp: insert_key_def Let_def evictLru_def split: list.splits if_splits)
  show "ar_maxEntries (fst (insert_key c k e)) = ar_maxEntries c" "ar_ttl (fst (insert_key c k e)) = ar_ttl c"
    using i(4,5) by (simp_all add: insert_key_def Let_def)
qed

section \<open>The cache contract\<close>

datatype arb_touch = TGet nanos | TDelete | TPurge

definition arb_look :: "arbiter \<Rightarrow> nanos \<Rightarrow> string \<Rightarrow> arbEntry option" where
  "arb_look c now k =
     (case ar_items c k of
        Some e \<Rightarrow> if ab_TTLDuration e < now - ab_CachedAt e then None else Some e
      | None \<Rightarrow> None)"

definition arb_touch :: "arbiter \<Rightarrow> arb_touch \<Rightarrow> string \<Rightarrow> arbiter" where
  "arb_touch c w k =
     (case w of
        TGet now \<Rightarrow> fst (get_key c now k)
      | TDelete \<Rightarrow> delete_key c k
      | TPurge \<Rightarrow> c\<lparr>ar_items := Map.empty, ar_lru := []\<rparr>)"

definition arb_put :: "arbiter \<Rightarrow> arb_touch \<Rightarrow> string \<Rightarrow> arbEntry \<Rightarrow> arbiter" where
  "arb_put c w k e = fst (insert_key c k e)"

definition arb_count :: "arbiter \<Rightarrow> nat" where "arb_count c = card (dom (ar_items c))"
definition arb_cap :: "arbiter \<Rightarrow> nat" where "arb_cap c = nat (ar_maxEntries c)"

lemma get_key_look: "snd (get_key c now k) = map_option ab_Synthesis (arb_look c now k)"
  by (simp add: get_key_def arb_look_def split: option.split)

lemma get_key_cases: "fst (get_key c now k) = c \<or> fst (get_key c now k) = lru_touch c k"
  by (simp add: get_key_def split: option.split)

lemma arb_touch_facts:
  assumes "ar_inv c"
  shows "ar_inv (arb_touch c w k)" "ar_items (arb_touch c w k) k' = Some e \<Longrightarrow> ar_items c k' = Some e"
    "ar_maxEntries (arb_touch c w k) = ar_maxEntries c" "ar_ttl (arb_touch c w k) = ar_ttl c"
proof -
  have "ar_inv (fst (get_key c now k))" for now
    using get_key_cases [of c now k] assms ar_inv_touch by auto
  moreover have "ar_inv (c\<lparr>ar_items := Map.empty, ar_lru := []\<rparr>)" using assms by (simp add: ar_inv_def)
  ultimately show "ar_inv (arb_touch c w k)"
    using ar_inv_delete [OF assms, of k] by (simp add: arb_touch_def split: arb_touch.split)
  have same: "ar_items (fst (get_key c now k)) = ar_items c" "ar_maxEntries (fst (get_key c now k)) = ar_maxEntries c"
      "ar_ttl (fst (get_key c now k)) = ar_ttl c" for now
    using get_key_cases [of c now k] by auto
  show "ar_items (arb_touch c w k) k' = Some e \<Longrightarrow> ar_items c k' = Some e"
    by (auto simp: arb_touch_def same delete_key_def split: arb_touch.splits if_splits)
  show "ar_maxEntries (arb_touch c w k) = ar_maxEntries c" "ar_ttl (arb_touch c w k) = ar_ttl c"
    by (simp_all add: arb_touch_def same delete_key_def split: arb_touch.split)
qed

interpretation ab: bounded_cache ar_inv arb_look arb_touch arb_put arb_count arb_cap
proof
  fix s :: arbiter and t k k' u and v w :: arbEntry
  assume i: "ar_inv s"
  note p = insert_key_facts [OF i, where k = k and e = v]
  show "ar_inv (arb_touch s t k)" by (rule arb_touch_facts(1) [OF i])
  show "ar_inv (arb_put s t k v)" unfolding arb_put_def by (rule p)
  show "arb_look (arb_put s t k v) u k = Some w \<Longrightarrow> w = v"
    using p(2) by (auto simp: arb_look_def arb_put_def split: if_splits)
  show "k' \<noteq> k \<Longrightarrow> arb_look (arb_put s t k v) u k' = Some w \<Longrightarrow> arb_look s u k' = Some w"
    using p(3) by (auto simp: arb_look_def arb_put_def split: option.splits if_splits)
  show "arb_look (arb_touch s t k) u k' = Some w \<Longrightarrow> arb_look s u k' = Some w"
    using arb_touch_facts(2) [OF i] by (auto simp: arb_look_def split: option.splits if_splits)
  show "arb_count s \<le> arb_cap s"
    using ar_size [OF i] i by (auto simp: arb_count_def arb_cap_def ar_inv_def)
  show "arb_cap (arb_touch s t k) = arb_cap s" "arb_cap (arb_put s t k v) = arb_cap s"
    using arb_touch_facts(3) [OF i] p(4) by (simp_all add: arb_cap_def arb_put_def)
qed

section \<open>Histories\<close>

datatype arb_call =
  CSet nanos string string string nanos
| CGet nanos string string
| CDelete string string
| CPurge
| CWarm nanos "(string \<times> string \<times> nanos) list"

fun arb_step :: "(string \<Rightarrow> string) \<Rightarrow> arbiter \<Rightarrow> arb_call \<Rightarrow> arbiter" where
  "arb_step sha c (CSet now r1 r2 s ttl) = the (fst (ArbSet sha (Some c) now r1 r2 s ttl))"
| "arb_step sha c (CGet now r1 r2) = the (fst (ArbGet sha (Some c) now r1 r2))"
| "arb_step sha c (CDelete r1 r2) = the (ArbDelete sha (Some c) r1 r2)"
| "arb_step sha c CPurge = the (Purge (Some c))"
| "arb_step sha c (CWarm now es) = the (fst (ArbWarm (Some c) now es))"

text \<open>What a call writes: key and entry.\<close>

fun arb_writes :: "(string \<Rightarrow> string) \<Rightarrow> nanos \<Rightarrow> arb_call \<Rightarrow> (string \<times> arbEntry) list" where
  "arb_writes sha ttl0 (CSet now r1 r2 s ttl) =
     [(cacheKey sha r1 r2, \<lparr>ab_Synthesis = s, ab_CachedAt = now, ab_TTLDuration = ttl\<rparr>)]"
| "arb_writes sha ttl0 (CWarm now es) =
     map (\<lambda>e. (fst e, \<lparr>ab_Synthesis = fst (snd e), ab_CachedAt = snd (snd e), ab_TTLDuration = ttl0\<rparr>))
       (filter (\<lambda>e. \<not> ttl0 < now - snd (snd e)) es)"
| "arb_writes sha ttl0 _ = []"

definition puts :: "(string \<times> arbEntry) list \<Rightarrow> (arb_touch, string, arbEntry) cache_op list" where
  "puts ws = map (\<lambda>p. CPut TPurge (fst p) (snd p)) ws"

fun arb_as_ops :: "(string \<Rightarrow> string) \<Rightarrow> nanos \<Rightarrow> arb_call \<Rightarrow> (arb_touch, string, arbEntry) cache_op list" where
  "arb_as_ops sha ttl0 (CGet now r1 r2) = [CTouch (TGet now) (cacheKey sha r1 r2)]"
| "arb_as_ops sha ttl0 (CDelete r1 r2) = [CTouch TDelete (cacheKey sha r1 r2)]"
| "arb_as_ops sha ttl0 CPurge = [CTouch TPurge []]"
| "arb_as_ops sha ttl0 c = puts (arb_writes sha ttl0 c)"

lemma insert_key_ttl [simp]: "ar_ttl (fst (insert_key c k e)) = ar_ttl c"
  by (simp add: insert_key_def Let_def evictLru_def split: list.split)

lemma arb_ops_simps [simp]:
  "arb_put c TPurge k e = fst (insert_key c k e)"
  "arb_touch c (TGet now) k = fst (get_key c now k)" "arb_touch c TDelete k = delete_key c k"
  "arb_touch c TPurge k = c\<lparr>ar_items := Map.empty, ar_lru := []\<rparr>"
  by (simp_all add: arb_put_def arb_touch_def)

lemma warm_run:
  "fst (arb_warm_loop now c es l s) = ab.run c (puts (arb_writes sha (ar_ttl c) (CWarm now es)))"
proof (induction es arbitrary: c l s)
  case (Cons e es)
  obtain k y w where e: "e = (k, y, w)" by (cases e)
  show ?case
    using Cons.IH [of "fst (insert_key c k \<lparr>ab_Synthesis = y, ab_CachedAt = w, ab_TTLDuration = ar_ttl c\<rparr>)"]
      Cons.IH [of c]
    by (simp add: e puts_def)
qed (simp add: puts_def)

lemma arb_step_run: "arb_step sha c call = ab.run c (arb_as_ops sha (ar_ttl c) call)"
proof (cases call)
  case (CWarm now es)
  obtain d l s where w: "arb_warm_loop now c es 0 0 = (d, l, s)" by (cases "arb_warm_loop now c es 0 0")
  then have "d = fst (arb_warm_loop now c es 0 0)" by simp
  with w CWarm warm_run [of now c es 0 0 sha] show ?thesis
    by (cases "es = []") (simp_all add: ArbWarm_def puts_def)
qed (simp_all add: ArbSet_def ArbGet_def ArbDelete_def Purge_def puts_def split_beta)

lemma latest_puts: "latest (puts ws) k = map_of (rev ws) k"
  by (induction ws) (auto simp: puts_def map_add_def split: option.splits)

lemma latest_arb: "latest (arb_as_ops sha ttl0 call) k = map_of (rev (arb_writes sha ttl0 call)) k"
  by (cases call) (simp_all only: arb_as_ops.simps latest_puts, simp_all)

lemma arb_step_ok:
  assumes "ar_inv c"
  shows "ar_inv (arb_step sha c call) \<and> ar_ttl (arb_step sha c call) = ar_ttl c
    \<and> ar_maxEntries (arb_step sha c call) = ar_maxEntries c"
proof -
  have "ar_inv d \<Longrightarrow> ar_inv (ab.run d ops) \<and> ar_ttl (ab.run d ops) = ar_ttl d \<and> ar_maxEntries (ab.run d ops) = ar_maxEntries d" for d ops
  proof (induction ops arbitrary: d)
    case (Cons a ops)
    have "ar_inv (arb_put d w k e) \<and> ar_ttl (arb_put d w k e) = ar_ttl d \<and> ar_maxEntries (arb_put d w k e) = ar_maxEntries d" for w k e
      using insert_key_facts(1,4,5) [OF Cons.prems] by (simp add: arb_put_def)
    with Cons show ?case using arb_touch_facts(1,3,4) [OF Cons.prems] by (cases a) auto
  qed simp
  with assms show ?thesis unfolding arb_step_run by blast
qed

lemma arb_run_ok:
  "ar_inv c \<Longrightarrow> ar_inv (foldl (arb_step sha) c calls) \<and> ar_ttl (foldl (arb_step sha) c calls) = ar_ttl c
    \<and> ar_maxEntries (foldl (arb_step sha) c calls) = ar_maxEntries c"
  by (induction calls rule: rev_induct) (simp_all add: arb_step_ok)

lemma arb_run_ops:
  assumes "ar_inv c"
  shows "foldl (arb_step sha) c calls = ab.run c (concat (map (arb_as_ops sha (ar_ttl c)) calls))"
proof (induction calls rule: rev_induct)
  case (snoc a calls)
  with arb_run_ok [OF assms, of sha calls] show ?case by (simp add: arb_step_run ab.run_append)
qed simp

lemma latest_arb_concat:
  "latest (concat (map (arb_as_ops sha ttl0) calls)) k = map_of (rev (concat (map (arb_writes sha ttl0) calls))) k"
  by (induction calls rule: rev_induct) (simp_all add: latest_append latest_arb map_add_def split: option.split)

lemma ar_inv_New: "ar_inv (NewArbiterCache ttl mx)"
  by (simp add: ar_inv_def NewArbiterCache_def DefaultArbiterCacheMaxEntries_def)

section \<open>The key\<close>

lemma cacheKey_sym: "cacheKey sha a b = cacheKey sha b a"
  using bytes_less_asym [of "sha a" "sha b"] bytes_less_total [of "sha a" "sha b"]
  by (cases "sha a = sha b") (auto simp: cacheKey_def canonicalize_def)

section \<open>Properties\<close>



text \<open>
  Overwriting at capacity still evicts: on a cache of two, writing the newer pair again drops the
  older one although no room was needed.
\<close>

lemma arbiter_overwrite_evicts:
  "ar_items (foldl (arb_step (\<lambda>x. x)) (NewArbiterCache 10 2)
      [CSet 0 ''a'' ''b'' ''s'' 10, CSet 1 ''c'' ''d'' ''t'' 10, CSet 2 ''c'' ''d'' ''u'' 10]) (cacheKey (\<lambda>x. x) ''a'' ''b'') = None"
  by (simp add: ArbSet_def insert_key_def at_cap_def NewArbiterCache_def lru_touch_def evictLru_def
      cacheKey_def canonicalize_def Let_def card_insert_if)

end
