(* ===== verification/RateLimit.thy ===== *)
theory RateLimit
  imports GoStrings
begin

text \<open>
  \<open>internal/ratelimit/middleware.go\<close>: one token bucket per client. \<open>allow\<close> is one step although it
  takes the map's lock and the bucket's one after the other; the counters of 64 bits are words, the
  hooks flags in the state and events in the result. SHA-256 in hexadecimal is the parameter \<open>sha\<close>,
  the address of a request is what the resolver of \<open>ClientIP\<close> returned.
\<close>

section \<open>State\<close>

record bucket =
  bk_tokens :: real
  bk_lastRefill :: nanos
  bk_lastSeen :: nanos

record ratelimiter =
  rl_rpm :: int
  rl_burst :: int
  rl_ttl :: nanos
  rl_byKey :: bool
  rl_keyType :: string
  rl_onReject :: bool
  rl_onAllow :: bool
  rl_buckets :: "string \<rightharpoonup> bucket"
  rl_hits :: "(string \<rightharpoonup> 64 word) option"
  rl_rejections :: "64 word"

datatype rl_event = Rejected | Allowed string real

definition NewMiddleware :: "int \<Rightarrow> int \<Rightarrow> bool \<Rightarrow> ratelimiter" where
  "NewMiddleware rpm burst byKey =
     (if rpm \<le> 0 then
        \<lparr>rl_rpm = 0, rl_burst = 0, rl_ttl = 0, rl_byKey = False, rl_keyType = [], rl_onReject = False,
         rl_onAllow = False, rl_buckets = Map.empty, rl_hits = None, rl_rejections = 0\<rparr>
      else
        \<lparr>rl_rpm = rpm, rl_burst = (if burst \<le> 0 then rpm else burst), rl_ttl = 10 * minute,
         rl_byKey = byKey, rl_keyType = (if byKey then ''apikey'' else ''ip''),
         rl_onReject = False, rl_onAllow = False, rl_buckets = Map.empty, rl_hits = Some Map.empty, rl_rejections = 0\<rparr>)"

definition incRateLimitHit :: "ratelimiter \<Rightarrow> string \<Rightarrow> ratelimiter" where
  "incRateLimitHit m bucketID =
     (case rl_hits m of
        None \<Rightarrow> m
      | Some h \<Rightarrow> m\<lparr>rl_hits := Some (h(bucketID \<mapsto> (case h bucketID of None \<Rightarrow> 0 | Some v \<Rightarrow> v) + 1))\<rparr>)"

definition incRateLimitRejection :: "ratelimiter \<Rightarrow> ratelimiter" where
  "incRateLimitRejection m = m\<lparr>rl_rejections := rl_rejections m + 1\<rparr>"

definition SetRejectionHook :: "ratelimiter option \<Rightarrow> bool \<Rightarrow> ratelimiter option" where
  "SetRejectionHook m f = map_option (\<lambda>m. m\<lparr>rl_onReject := f\<rparr>) m"

definition SetAllowHook :: "ratelimiter option \<Rightarrow> bool \<Rightarrow> ratelimiter option" where
  "SetAllowHook m f = map_option (\<lambda>m. m\<lparr>rl_onAllow := f\<rparr>) m"

section \<open>Keys\<close>

definition hashedBucketKey :: "(string \<Rightarrow> string) \<Rightarrow> string \<Rightarrow> string" where
  "hashedBucketKey sha v = take 16 (sha v)"

definition APIKeyAwareKeyFunc :: "(string \<Rightarrow> string) \<Rightarrow> string \<Rightarrow> string \<Rightarrow> string" where
  "APIKeyAwareKeyFunc sha ip auth =
     (if auth = [] then ip
      else
        let key = (if HasPrefix (ToLower auth) ''bearer '' then TrimSpace (drop 7 auth) else auth)
        in take 16 (sha (ip @ '':'' @ key)))"

section \<open>The bucket\<close>

definition bucketFor :: "ratelimiter \<Rightarrow> string \<Rightarrow> nanos \<Rightarrow> ratelimiter \<times> bucket" where
  "bucketFor m key now =
     (case rl_buckets m key of
        Some b \<Rightarrow> (m, b)
      | None \<Rightarrow>
          let b = \<lparr>bk_tokens = real_of_int (rl_burst m), bk_lastRefill = now, bk_lastSeen = now\<rparr>
          in (m\<lparr>rl_buckets := (rl_buckets m)(key \<mapsto> b)\<rparr>, b))"

definition refill :: "ratelimiter \<Rightarrow> bucket \<Rightarrow> nanos \<Rightarrow> bucket" where
  "refill m b now =
     (let elapsed = real_of_int (now - bk_lastRefill b) / real_of_int second;
          b = (if 0 < elapsed then
                 (let t = bk_tokens b + elapsed * real_of_int (rl_rpm m) / 60
                  in b\<lparr>bk_tokens := (if real_of_int (rl_burst m) < t then real_of_int (rl_burst m) else t),
                       bk_lastRefill := now\<rparr>)
               else b)
      in b\<lparr>bk_lastSeen := now\<rparr>)"

definition allow :: "(string \<Rightarrow> string) \<Rightarrow> ratelimiter \<Rightarrow> string \<Rightarrow> nanos \<Rightarrow> ratelimiter \<times> bool \<times> rl_event list" where
  "allow sha m key now =
     (let (m, b) = bucketFor m key now;
          b = refill m b now
      in if 1 \<le> bk_tokens b then
           (m\<lparr>rl_buckets := (rl_buckets m)(key \<mapsto> b\<lparr>bk_tokens := bk_tokens b - 1\<rparr>)\<rparr>, True,
            if rl_onAllow m then [Allowed (hashedBucketKey sha key) (bk_tokens b / real_of_int (rl_burst m))] else [])
         else (m\<lparr>rl_buckets := (rl_buckets m)(key \<mapsto> b)\<rparr>, False, []))"

definition reap :: "ratelimiter \<Rightarrow> nanos \<Rightarrow> ratelimiter" where
  "reap m now =
     m\<lparr>rl_buckets := (\<lambda>k. case rl_buckets m k of
          None \<Rightarrow> None
        | Some b \<Rightarrow> if rl_ttl m < now - bk_lastSeen b then None else Some b)\<rparr>"

definition SetRPM :: "ratelimiter option \<Rightarrow> int \<Rightarrow> ratelimiter option" where
  "SetRPM m rpm = map_option (\<lambda>m. m\<lparr>rl_rpm := rpm\<rparr>) m"

definition SetBurst :: "ratelimiter option \<Rightarrow> int \<Rightarrow> ratelimiter option" where
  "SetBurst m burst = map_option (\<lambda>m. if 0 < burst then m\<lparr>rl_burst := burst\<rparr> else m) m"

section \<open>The handler\<close>

text \<open>
  \<open>Wrap\<close> decides once whether the handler is wrapped at all. A wrapped handler answers 429 with fixed
  headers or passes the request on.
\<close>

record headers =
  hd_RetryAfter :: "string option"
  hd_Remaining :: "string option"
  hd_KeyType :: "string option"

datatype served = PassedOn headers | TooManyRequests headers

definition Wrap :: "ratelimiter option \<Rightarrow> bool" where
  "Wrap m = (case m of None \<Rightarrow> False | Some m \<Rightarrow> 0 < rl_rpm m)"

definition handle ::
  "(string \<Rightarrow> string) \<Rightarrow> bool \<Rightarrow> ratelimiter \<Rightarrow> string \<Rightarrow> string \<Rightarrow> nanos \<Rightarrow> ratelimiter \<times> served \<times> rl_event list" where
  "handle sha wrapped m ip auth now =
     (if \<not> wrapped then (m, PassedOn \<lparr>hd_RetryAfter = None, hd_Remaining = None, hd_KeyType = None\<rparr>, [])
      else
        let key = (if rl_byKey m then APIKeyAwareKeyFunc sha ip auth else ip) in
        (case allow sha m key now of
           (m, True, ev) \<Rightarrow>
             (incRateLimitHit m (hashedBucketKey sha key),
              PassedOn \<lparr>hd_RetryAfter = None, hd_Remaining = None, hd_KeyType = Some (rl_keyType m)\<rparr>, ev)
         | (m, False, ev) \<Rightarrow>
             (incRateLimitRejection m,
              TooManyRequests \<lparr>hd_RetryAfter = Some ''60'', hd_Remaining = Some ''0'', hd_KeyType = Some (rl_keyType m)\<rparr>,
              ev @ (if rl_onReject m then [Rejected] else []))))"

section \<open>What a client may still send\<close>

text \<open>The tokens a client has at an instant; a client without a bucket has the burst.\<close>

definition accrued :: "ratelimiter \<Rightarrow> nanos \<Rightarrow> real" where
  "accrued m d = real_of_int d * real_of_int (rl_rpm m) / real_of_int minute"

definition credit :: "ratelimiter \<Rightarrow> string \<Rightarrow> nanos \<Rightarrow> real" where
  "credit m key now =
     (case rl_buckets m key of
        None \<Rightarrow> real_of_int (rl_burst m)
      | Some b \<Rightarrow> min (real_of_int (rl_burst m))
          (bk_tokens b + accrued m (now - bk_lastRefill b)))"

definition rl_inv :: "nanos \<Rightarrow> ratelimiter \<Rightarrow> bool" where
  "rl_inv t m \<longleftrightarrow> 0 < rl_rpm m \<and> 0 < rl_burst m \<and> rl_ttl m = 10 * minute \<and>
     (\<forall>k b. rl_buckets m k = Some b \<longrightarrow>
        0 \<le> bk_tokens b \<and> bk_tokens b \<le> real_of_int (rl_burst m) \<and> bk_lastRefill b = bk_lastSeen b \<and> bk_lastRefill b \<le> t)"

datatype rl_op = Ask string nanos | Reap nanos

fun op_time :: "rl_op \<Rightarrow> nanos" where
  "op_time (Ask k t) = t"
| "op_time (Reap t) = t"

text \<open>A run counts what it lets through for one key.\<close>

fun rl_run :: "(string \<Rightarrow> string) \<Rightarrow> ratelimiter \<Rightarrow> string \<Rightarrow> rl_op list \<Rightarrow> ratelimiter \<times> nat" where
  "rl_run sha m key [] = (m, 0)"
| "rl_run sha m key (Ask k t # ops) =
     (case allow sha m k t of (m', ok, _) \<Rightarrow>
        (case rl_run sha m' key ops of (m'', n) \<Rightarrow> (m'', (if ok \<and> k = key then Suc n else n))))"
| "rl_run sha m key (Reap t # ops) = rl_run sha (reap m t) key ops"

lemma accrued_add: "accrued m (a + b) = accrued m a + accrued m b"
  by (simp add: accrued_def add_divide_distrib distrib_right)

lemma accrued_nonneg: "0 \<le> d \<Longrightarrow> 0 < rl_rpm m \<Longrightarrow> 0 \<le> accrued m d"
  by (simp add: accrued_def)

lemma accrued_cong: "rl_rpm m' = rl_rpm m \<Longrightarrow> accrued m' d = accrued m d"
  by (simp add: accrued_def)

lemma accrued_buckets [simp]: "accrued (m\<lparr>rl_buckets := x\<rparr>) d = accrued m d"
  by (simp add: accrued_def)

lemma accrued_0 [simp]: "accrued m 0 = 0"
  by (simp add: accrued_def)

lemma bucket_D:
  assumes "rl_inv t m" "rl_buckets m k = Some b"
  shows "0 \<le> bk_tokens b" "bk_tokens b \<le> real_of_int (rl_burst m)" "bk_lastSeen b = bk_lastRefill b" "bk_lastRefill b \<le> t"
    "0 < rl_rpm m"
  using assms unfolding rl_inv_def by metis+

lemma refill_credit:
  assumes "rl_inv t m" "t \<le> now" "rl_buckets m key = Some b"
  shows "bk_tokens (refill m b now) = credit m key now" "bk_lastRefill (refill m b now) = now"
    "bk_lastSeen (refill m b now) = now"
proof -
  have b: "bk_tokens b \<le> real_of_int (rl_burst m)" "bk_lastRefill b \<le> now"
    using bucket_D [OF assms(1,3)] assms(2) by simp_all
  show "bk_tokens (refill m b now) = credit m key now"
  proof (cases "bk_lastRefill b < now")
    case True
    then have "0 < real_of_int (now - bk_lastRefill b)" by simp
    with assms(3) show ?thesis by (simp add: refill_def credit_def accrued_def Let_def min_def)
  next
    case False
    with b assms(3) show ?thesis by (simp add: refill_def credit_def accrued_def Let_def)
  qed
  show "bk_lastRefill (refill m b now) = now" "bk_lastSeen (refill m b now) = now"
    using b(2) by (auto simp: refill_def Let_def)
qed

lemma credit_bounds:
  assumes "rl_inv t m" "t \<le> now"
  shows "0 \<le> credit m k now \<and> credit m k now \<le> real_of_int (rl_burst m)"
proof (cases "rl_buckets m k")
  case None
  with assms show ?thesis by (simp add: credit_def rl_inv_def)
next
  case (Some b)
  note b = bucket_D [OF assms(1) Some]
  have "0 \<le> accrued m (now - bk_lastRefill b)" using b assms(2) by (intro accrued_nonneg) simp_all
  with b(1,2) show ?thesis by (simp add: credit_def Some min_le_iff_disj)
qed

lemma credit_accrues:
  assumes "rl_inv t m" "now \<le> now'"
  shows "credit m k now' \<le> credit m k now + accrued m (now' - now)"
proof -
  have a: "0 \<le> accrued m (now' - now)" using assms by (intro accrued_nonneg) (simp_all add: rl_inv_def)
  show ?thesis
  proof (cases "rl_buckets m k")
    case None
    with a show ?thesis by (simp add: credit_def)
  next
    case (Some b)
    have "accrued m (now' - bk_lastRefill b) = accrued m (now - bk_lastRefill b) + accrued m (now' - now)"
      using accrued_add [of m "now - bk_lastRefill b" "now' - now"] by simp
    with a Some show ?thesis by (simp add: credit_def)
  qed
qed

lemma allow_facts:
  assumes inv: "rl_inv t m" and now: "t \<le> now"
  shows "rl_inv now (fst (allow sha m key now))"
    and "rl_rpm (fst (allow sha m key now)) = rl_rpm m" "rl_burst (fst (allow sha m key now)) = rl_burst m"
    and "fst (snd (allow sha m key now)) \<longleftrightarrow> 1 \<le> credit m key now"
    and "credit (fst (allow sha m key now)) key now = credit m key now - (if 1 \<le> credit m key now then 1 else 0)"
    and "k \<noteq> key \<Longrightarrow> credit (fst (allow sha m key now)) k u = credit m k u"
proof -
  obtain m1 b where mb: "bucketFor m key now = (m1, b)" by (cases "bucketFor m key now")
  have m1: "rl_rpm m1 = rl_rpm m" "rl_burst m1 = rl_burst m" "rl_ttl m1 = rl_ttl m" "rl_buckets m1 key = Some b"
      "\<And>k. k \<noteq> key \<Longrightarrow> rl_buckets m1 k = rl_buckets m k" "credit m1 key now = credit m key now"
    using mb inv by (auto simp: bucketFor_def credit_def accrued_def Let_def rl_inv_def split: option.splits)
  have i1: "rl_inv now m1"
    unfolding rl_inv_def
  proof (intro conjI allI impI)
    fix k b' assume k: "rl_buckets m1 k = Some b'"
    have "rl_buckets m k = Some b' \<or> b' = \<lparr>bk_tokens = real_of_int (rl_burst m), bk_lastRefill = now, bk_lastSeen = now\<rparr>"
      using k mb by (auto simp: bucketFor_def Let_def split: option.splits if_splits)
    then have "0 \<le> bk_tokens b' \<and> bk_tokens b' \<le> real_of_int (rl_burst m) \<and> bk_lastRefill b' = bk_lastSeen b' \<and> bk_lastRefill b' \<le> now"
      using inv now by (force simp: rl_inv_def)
    then show "0 \<le> bk_tokens b'" "bk_tokens b' \<le> real_of_int (rl_burst m1)" "bk_lastRefill b' = bk_lastSeen b'" "bk_lastRefill b' \<le> now"
      using m1(2) by simp_all
  qed (use inv m1 in \<open>auto simp: rl_inv_def\<close>)
  let ?b = "refill m1 b now"
  note r = refill_credit [OF i1 order_refl m1(4)]
  have c: "0 \<le> bk_tokens ?b" "bk_tokens ?b \<le> real_of_int (rl_burst m)"
    using credit_bounds [OF i1 order_refl, of key] r(1) m1(2) by simp_all
  define nb where "nb = (if 1 \<le> bk_tokens ?b then ?b\<lparr>bk_tokens := bk_tokens ?b - 1\<rparr> else ?b)"
  have a: "fst (allow sha m key now) = m1\<lparr>rl_buckets := (rl_buckets m1)(key \<mapsto> nb)\<rparr>"
      "fst (snd (allow sha m key now)) = (1 \<le> bk_tokens ?b)"
    by (simp_all add: allow_def mb Let_def nb_def)
  have nb: "0 \<le> bk_tokens nb" "bk_tokens nb \<le> real_of_int (rl_burst m)" "bk_lastRefill nb = now" "bk_lastSeen nb = now"
      "bk_tokens nb = credit m key now - (if 1 \<le> credit m key now then 1 else 0)"
    using c r m1(6) by (simp_all add: nb_def)
  show "rl_inv now (fst (allow sha m key now))"
    unfolding a(1) rl_inv_def
  proof (intro conjI allI impI)
    fix k b' assume k: "rl_buckets (m1\<lparr>rl_buckets := (rl_buckets m1)(key \<mapsto> nb)\<rparr>) k = Some b'"
    have "0 \<le> bk_tokens b' \<and> bk_tokens b' \<le> real_of_int (rl_burst m) \<and> bk_lastRefill b' = bk_lastSeen b' \<and> bk_lastRefill b' \<le> now"
    proof (cases "k = key")
      case True
      with k nb(1-4) show ?thesis by simp
    next
      case False
      with k have "rl_buckets m1 k = Some b'" by simp
      from bucket_D [OF i1 this] m1(2) show ?thesis by simp
    qed
    then show "0 \<le> bk_tokens b'" "bk_lastRefill b' = bk_lastSeen b'" "bk_lastRefill b' \<le> now"
      "bk_tokens b' \<le> real_of_int (rl_burst (m1\<lparr>rl_buckets := (rl_buckets m1)(key \<mapsto> nb)\<rparr>))"
      using m1(2) by simp_all
  qed (use i1 in \<open>simp_all add: rl_inv_def\<close>)
  show "rl_rpm (fst (allow sha m key now)) = rl_rpm m" "rl_burst (fst (allow sha m key now)) = rl_burst m"
    using m1 by (simp_all add: a)
  show "fst (snd (allow sha m key now)) \<longleftrightarrow> 1 \<le> credit m key now"
    using a(2) r(1) m1(6) by simp
  show "credit (fst (allow sha m key now)) key now = credit m key now - (if 1 \<le> credit m key now then 1 else 0)"
    using nb(2,3,5) m1(2) by (simp add: a credit_def [of "m1\<lparr>rl_buckets := _\<rparr>"])
  show "k \<noteq> key \<Longrightarrow> credit (fst (allow sha m key now)) k u = credit m k u"
    using m1(2,5) accrued_cong [OF m1(1)] by (simp add: a credit_def split: option.split)
qed

lemma reap_facts:
  assumes "rl_inv t m" "t \<le> now"
  shows "rl_inv now (reap m now)" "rl_rpm (reap m now) = rl_rpm m" "rl_burst (reap m now) = rl_burst m"
    and "rl_burst m \<le> 10 * rl_rpm m \<Longrightarrow> credit (reap m now) k now = credit m k now"
proof -
  show "rl_inv now (reap m now)" "rl_rpm (reap m now) = rl_rpm m" "rl_burst (reap m now) = rl_burst m"
    using assms by (force simp: rl_inv_def reap_def split: option.splits if_splits)+
  assume bu: "rl_burst m \<le> 10 * rl_rpm m"
  show "credit (reap m now) k now = credit m k now"
  proof (cases "rl_buckets m k")
    case None
    then show ?thesis by (simp add: reap_def credit_def)
  next
    case (Some b)
    have b: "0 \<le> bk_tokens b" "bk_lastRefill b = bk_lastSeen b" "rl_ttl m = 10 * minute" "0 < rl_rpm m"
      using bucket_D [OF assms(1) Some] assms(1) by (simp_all add: rl_inv_def)
    have "real_of_int (rl_burst m) \<le> bk_tokens b + accrued m (now - bk_lastRefill b)"
      if idle: "10 * minute < now - bk_lastSeen b"
    proof -
      have "10 * minute \<le> now - bk_lastRefill b" using idle b(2) by linarith
      then have "real_of_int (10 * minute) \<le> real_of_int (now - bk_lastRefill b)" by (rule of_int_le_iff [THEN iffD2])
      then have "real_of_int (10 * minute) * real_of_int (rl_rpm m) \<le> real_of_int (now - bk_lastRefill b) * real_of_int (rl_rpm m)"
        using b(4) by (intro mult_right_mono) simp_all
      then have "10 * real_of_int (rl_rpm m) \<le> accrued m (now - bk_lastRefill b)"
        by (simp add: accrued_def field_simps)
      moreover have "real_of_int (rl_burst m) \<le> 10 * real_of_int (rl_rpm m)" using bu by linarith
      ultimately show ?thesis using b(1) by linarith
    qed
    with Some b(3) show ?thesis by (auto simp: reap_def credit_def min_def)
  qed
qed

lemma run_bound:
  assumes "rl_inv t m" "rl_burst m \<le> 10 * rl_rpm m" "sorted (t # map op_time ops)" "\<forall>x\<in>set ops. op_time x \<le> u" "t \<le> u"
  shows "real (snd (rl_run sha m key ops)) \<le> credit m key t + accrued m (u - t)"
  using assms
proof (induction ops arbitrary: m t)
  case Nil
  then have "0 \<le> credit m key t" using credit_bounds [of t m t key] by simp
  moreover have "0 \<le> accrued m (u - t)" using Nil by (intro accrued_nonneg) (simp_all add: rl_inv_def)
  ultimately show ?case by simp
next
  case (Cons a ops)
  define v where "v = op_time a"
  have tv: "t \<le> v" "v \<le> u" "sorted (v # map op_time ops)" using Cons.prems(3,4) by (simp_all add: v_def)
  have acc: "accrued m (u - t) = accrued m (v - t) + accrued m (u - v)"
    using accrued_add [of m "v - t" "u - v"] by simp
  have cr: "credit m key v \<le> credit m key t + accrued m (v - t)" by (rule credit_accrues [OF Cons.prems(1) tv(1)])
  show ?case
  proof (cases a)
    case (Reap w)
    then have w: "w = v" by (simp add: v_def)
    note r = reap_facts [OF Cons.prems(1) tv(1)]
    have "real (snd (rl_run sha (reap m v) key ops)) \<le> credit (reap m v) key v + accrued (reap m v) (u - v)"
      using Cons.prems tv r(1-3) by (intro Cons.IH) simp_all
    also have "\<dots> = credit m key v + accrued m (u - v)"
      using r(4) [OF Cons.prems(2)] accrued_cong [OF r(2)] by simp
    finally show ?thesis using cr acc Reap w by simp
  next
    case (Ask k w)
    then have w: "w = v" by (simp add: v_def)
    note f = allow_facts [OF Cons.prems(1) tv(1), where sha = sha and key = k]
    obtain m' ok ev where al: "allow sha m k v = (m', ok, ev)" by (cases "allow sha m k v")
    obtain m'' n where run: "rl_run sha m' key ops = (m'', n)" by (cases "rl_run sha m' key ops")
    have "real n \<le> credit m' key v + accrued m' (u - v)"
      using Cons.IH [of v m'] Cons.prems tv f(1-3) run al by simp
    moreover have "accrued m' (u - v) = accrued m (u - v)" using f(2) al by (intro accrued_cong) simp
    moreover have "credit m' key v + (if ok \<and> k = key then 1 else 0) \<le> credit m key v"
      using f(4,5) f(6) [where k = key and u = v] al by (cases "k = key") (auto split: if_splits)
    moreover have "snd (rl_run sha m key (a # ops)) = n + (if ok \<and> k = key then 1 else 0)"
      using Ask w al run by simp
    ultimately show ?thesis using cr acc by (auto split: if_splits)
  qed
qed

lemma rl_inv_New: "0 < rpm \<Longrightarrow> rl_inv t (NewMiddleware rpm burst byKey)"
  by (simp add: rl_inv_def NewMiddleware_def)

section \<open>Properties\<close>



text \<open>
  Turning the limit off at run time locks clients out. After \<open>SetRPM\<close> with zero, which is
  documented to disable the limiter, a handler that was wrapped keeps asking the buckets, and they no
  longer refill: a client whose bucket is down is refused on every later request.
\<close>

theorem set_rpm_zero_locks_out:
  assumes "SetRPM (Some m) 0 = Some m'" "rl_buckets m key = Some b" "bk_tokens b < 1"
    and "\<forall>x\<in>set ops. \<exists>k t. x = Ask k t"
  shows "snd (rl_run sha m' key ops) = 0
    \<and> (\<forall>auth now. rl_byKey m = False \<longrightarrow> (\<exists>h. fst (snd (handle sha True m' key auth now)) = TooManyRequests h))"
proof -
  have stay: "rl_rpm (fst (allow sha d k now)) = 0 \<and>
      (\<exists>b. rl_buckets (fst (allow sha d k now)) key = Some b \<and> bk_tokens b < 1) \<and> (k = key \<longrightarrow> \<not> fst (snd (allow sha d k now)))"
    if d: "rl_rpm d = 0" "rl_buckets d key = Some b" "bk_tokens b < 1" for d b k now
  proof -
    have r: "bk_tokens (refill d b now) < 1" using d by (auto simp: refill_def Let_def)
    show ?thesis
    proof (cases "k = key")
      case True
      then show ?thesis using d r by (simp add: allow_def bucketFor_def Let_def)
    next
      case False
      obtain d1 b1 where 1: "bucketFor d k now = (d1, b1)" by (cases "bucketFor d k now")
      then have "rl_rpm d1 = 0" "rl_buckets d1 key = Some b"
        using d False by (auto simp: bucketFor_def Let_def split: option.splits)
      then show ?thesis using d(3) False by (simp add: allow_def 1 Let_def)
    qed
  qed
  have m': "rl_rpm m' = 0" "rl_buckets m' key = Some b" "rl_byKey m' = rl_byKey m"
    using assms(1,2) by (auto simp: SetRPM_def)
  have "rl_rpm d = 0 \<Longrightarrow> rl_buckets d key = Some c \<Longrightarrow> bk_tokens c < 1 \<Longrightarrow>
      snd (rl_run sha d key ops) = 0" for d c
    using assms(4)
  proof (induction ops arbitrary: d c)
    case (Cons a ops)
    then obtain k t where a: "a = Ask k t" by auto
    obtain d' ok ev where al: "allow sha d k t = (d', ok, ev)" by (cases "allow sha d k t")
    have d': "fst (allow sha d k t) = d'" "fst (snd (allow sha d k t)) = ok" by (simp_all add: al)
    from stay [OF Cons.prems(1-3), of k t] obtain c' where
      "rl_rpm d' = 0" "rl_buckets d' key = Some c'" "bk_tokens c' < 1" "k = key \<longrightarrow> \<not> ok"
      unfolding d' by blast
    with Cons.IH [of d' c'] Cons.prems(4) a al show ?case by (auto split: prod.splits)
  qed simp
  moreover have "\<exists>h. fst (snd (handle sha True m' key auth now)) = TooManyRequests h" if "rl_byKey m = False" for auth now
    using stay [OF m'(1,2) assms(3), of key now] that m'(3)
    by (auto simp: handle_def Let_def split: prod.split bool.splits)
  ultimately show ?thesis using m' assms(3) by blast
qed

theorem set_rpm_zero_locks_out_witness:
  "\<exists>m m'. SetRPM (Some m) 0 = Some m' \<and> snd (rl_run (\<lambda>x. x) m' ''a'' [Ask ''a'' hour, Ask ''a'' (24 * hour)]) = 0"
proof -
  let ?m = "fst (allow (\<lambda>x. x) (NewMiddleware 60 1 False) ''a'' 0)"
  obtain m' where m': "SetRPM (Some ?m) 0 = Some m'" by (simp add: SetRPM_def)
  obtain b where b: "rl_buckets ?m ''a'' = Some b" "bk_tokens b < 1"
    by (simp add: allow_def bucketFor_def NewMiddleware_def refill_def Let_def)
  from set_rpm_zero_locks_out [OF m' b, of "[Ask ''a'' hour, Ask ''a'' (24 * hour)]" "\<lambda>x. x"] m'
  show ?thesis by auto
qed

end
