(* ===== verification/Messages.thy ===== *)
theory Messages
  imports GoStrings
begin

text \<open>
  \<open>internal/middleware/prompt_engine.go\<close> and \<open>injection.go\<close>: the passes over the chat messages. A
  message is what \<open>encoding/json\<close> decodes; the passes write into the decoded maps, here they return
  the changed list. The compiled patterns are the parameter \<open>pats\<close>, each with its source text.
\<close>

section \<open>Messages\<close>

datatype jval =
  JNull | JBool bool | JNum string | JStr string | JArr "jval list" | JObj "(string \<times> jval) list"

type_synonym fields = "(string \<times> jval) list"

text \<open>The type assertions \<open>raw.(map[string]interface{})\<close> and \<open>msg[k].(string)\<close>, "" when it fails.\<close>

definition str_field :: "fields \<Rightarrow> string \<Rightarrow> string" where
  "str_field m k = (case map_of m k of Some (JStr s) \<Rightarrow> s | _ \<Rightarrow> [])"

definition set_field :: "fields \<Rightarrow> string \<Rightarrow> jval \<Rightarrow> fields" where
  "set_field m k v = (if k \<in> fst ` set m then map (\<lambda>p. if fst p = k then (k, v) else p) m else m @ [(k, v)])"

definition role_of :: "jval \<Rightarrow> string" where
  "role_of v = (case v of JObj m \<Rightarrow> str_field m ''role'' | _ \<Rightarrow> [])"

definition content_of :: "jval \<Rightarrow> string" where
  "content_of v = (case v of JObj m \<Rightarrow> str_field m ''content'' | _ \<Rightarrow> [])"

definition is_map :: "jval \<Rightarrow> bool" where
  "is_map v = (case v of JObj _ \<Rightarrow> True | _ \<Rightarrow> False)"

definition set_content :: "string \<Rightarrow> jval \<Rightarrow> jval" where
  "set_content s v = (case v of JObj m \<Rightarrow> JObj (set_field m ''content'' (JStr s)) | _ \<Rightarrow> v)"

definition system_message :: "string \<Rightarrow> jval" where
  "system_message s = JObj [(''role'', JStr ''system''), (''content'', JStr s)]"

text \<open>The first message with a property, changed; \<open>None\<close> when there is none.\<close>

fun change_first :: "(jval \<Rightarrow> bool) \<Rightarrow> (jval \<Rightarrow> jval) \<Rightarrow> jval list \<Rightarrow> jval list option" where
  "change_first P f [] = None"
| "change_first P f (m # ms) = (if P m then Some (f m # ms) else map_option ((#) m) (change_first P f ms))"

section \<open>Prompt engineering\<close>

definition ApplyPromptEngineering :: "jval list \<Rightarrow> string \<Rightarrow> jval list" where
  "ApplyPromptEngineering msgs enhancement =
     (if enhancement = [] then msgs
      else case change_first (\<lambda>m. is_map m \<and> role_of m = ''system'')
             (\<lambda>m. set_content (if content_of m \<noteq> [] then content_of m @ [CHR 0x0A] @ enhancement else enhancement) m) msgs of
        Some ms \<Rightarrow> ms
      | None \<Rightarrow> system_message enhancement # msgs)"

definition ExtractLatestUserPrompt :: "jval list \<Rightarrow> string" where
  "ExtractLatestUserPrompt msgs =
     (case List.find (\<lambda>m. case m of
                JObj fs \<Rightarrow> str_field fs ''role'' = ''user'' \<and> (\<exists>s. map_of fs ''content'' = Some (JStr s))
              | _ \<Rightarrow> False) (rev msgs) of
        Some m \<Rightarrow> content_of m
      | None \<Rightarrow> [])"

definition is_user :: "jval \<Rightarrow> bool" where
  "is_user m \<longleftrightarrow> is_map m \<and> role_of m = ''user''"

definition InjectRAGWithLimit :: "jval list \<Rightarrow> string \<Rightarrow> int \<Rightarrow> jval list \<times> bool" where
  "InjectRAGWithLimit msgs contextBlock maxBytes =
     (if contextBlock = [] then (msgs, False)
      else case List.find is_user (rev msgs) of
        None \<Rightarrow> (msgs, False)
      | Some m \<Rightarrow>
          if 0 < maxBytes \<and> maxBytes < int (length (content_of m) + length contextBlock) then (msgs, False)
          else (rev (the (change_first is_user (\<lambda>m. set_content (content_of m @ contextBlock) m) (rev msgs))), True))"

definition InjectRAG :: "jval list \<Rightarrow> string \<Rightarrow> jval list" where
  "InjectRAG msgs contextBlock = fst (InjectRAGWithLimit msgs contextBlock 0)"

text \<open>\<open>BuildConversationContext\<close>: \<open>sb\<close> is what has been written so far.\<close>

fun context_loop :: "int \<Rightarrow> string \<Rightarrow> jval list \<Rightarrow> string" where
  "context_loop maxChars sb [] = sb"
| "context_loop maxChars sb (m # ms) =
     (if \<not> is_map m then context_loop maxChars sb ms
      else if role_of m = [] \<or> role_of m = ''system'' then context_loop maxChars sb ms
      else
        let line = role_of m @ '': '' @ content_of m;
            line = (if sb \<noteq> [] then [CHR 0x0A] @ line else line)
        in if maxChars < int (length sb + length line) then
             (let remaining = maxChars - int (length sb)
              in if 0 < remaining then sb @ take (nat remaining) line else sb)
           else context_loop maxChars (sb @ line) ms)"

text \<open>The index of the most recent user message, or the length.\<close>

fun last_user :: "jval list \<Rightarrow> nat option" where
  "last_user [] = None"
| "last_user (m # ms) =
     (case last_user ms of
        Some i \<Rightarrow> Some (Suc i)
      | None \<Rightarrow> if is_user m then Some 0 else None)"

definition BuildConversationContext :: "jval list \<Rightarrow> int \<Rightarrow> int \<Rightarrow> string" where
  "BuildConversationContext msgs turns maxChars =
     (if turns \<le> 0 \<or> maxChars \<le> 0 then []
      else
        let turns = (if 10 < turns then 10 else turns);
            endIdx = (case last_user msgs of Some i \<Rightarrow> i | None \<Rightarrow> length msgs);
            startIdx = (if int endIdx - turns < 0 then 0 else int endIdx - turns)
        in context_loop maxChars [] (drop (nat startIdx) (take endIdx msgs)))"

section \<open>Injection hardening\<close>

datatype injection_mode = InjectionModeOff | InjectionModeWarn | InjectionModeStrict

text \<open>The modes are ordered as the constants are numbered.\<close>

instantiation injection_mode :: linorder
begin

definition mode_number :: "injection_mode \<Rightarrow> nat" where
  "mode_number m = (case m of InjectionModeOff \<Rightarrow> 0 | InjectionModeWarn \<Rightarrow> 1 | InjectionModeStrict \<Rightarrow> 2)"

definition less_eq_injection_mode :: "injection_mode \<Rightarrow> injection_mode \<Rightarrow> bool" where
  "less_eq_injection_mode a b \<longleftrightarrow> mode_number a \<le> mode_number b"

definition less_injection_mode :: "injection_mode \<Rightarrow> injection_mode \<Rightarrow> bool" where
  "less_injection_mode a b \<longleftrightarrow> mode_number a < mode_number b"

instance
  by standard
    (auto simp: less_eq_injection_mode_def less_injection_mode_def mode_number_def split: injection_mode.splits)

end

definition ParseInjectionMode :: "string \<Rightarrow> injection_mode" where
  "ParseInjectionMode raw =
     (let s = ToLower (TrimSpace raw) in
      if s = ''off'' then InjectionModeOff
      else if s = ''warn'' then InjectionModeWarn
      else if s = ''strict'' then InjectionModeStrict
      else InjectionModeWarn)"

definition ProxyPolicyBegin :: string where "ProxyPolicyBegin = ''[NEXUS PROXY POLICY BEGIN]''"
definition ProxyPolicyEnd :: string where "ProxyPolicyEnd = ''[NEXUS PROXY POLICY END]''"

definition normalizeScanRoles :: "string list \<Rightarrow> string set" where
  "normalizeScanRoles roles =
     (let out = set (filter (\<lambda>r. r = ''system'' \<or> r = ''user'') (map (\<lambda>r. ToLower (TrimSpace r)) roles))
      in if out = {} then {''system''} else out)"

type_synonym patterns = "(string \<times> (string \<Rightarrow> bool)) list"

text \<open>The pattern a message is reported for, if it is scanned and one matches.\<close>

definition message_hit :: "patterns \<Rightarrow> string set \<Rightarrow> jval \<Rightarrow> string option" where
  "message_hit pats allowed m =
     (if \<not> is_map m then None
      else if role_of m \<notin> allowed then None
      else if content_of m = [] then None
      else if Contains (content_of m) ProxyPolicyBegin then None
      else map_option fst (List.find (\<lambda>p. snd p (content_of m)) pats))"

definition DetectSuspiciousRoles :: "patterns \<Rightarrow> jval list \<Rightarrow> string list \<Rightarrow> string list" where
  "DetectSuspiciousRoles pats msgs roles =
     List.map_filter (message_hit pats (normalizeScanRoles roles)) msgs"

definition DetectSuspiciousSystem :: "patterns \<Rightarrow> jval list \<Rightarrow> string list" where
  "DetectSuspiciousSystem pats msgs = DetectSuspiciousRoles pats msgs [''system'']"

definition policy_block :: "string \<Rightarrow> string" where
  "policy_block text = ProxyPolicyBegin @ [CHR 0x0A] @ TrimSpace text @ [CHR 0x0A] @ ProxyPolicyEnd"

definition ApplyPromptEngineeringIsolated :: "jval list \<Rightarrow> string \<Rightarrow> jval list" where
  "ApplyPromptEngineeringIsolated msgs enhancement =
     (if enhancement = [] then msgs else system_message (policy_block enhancement) # msgs)"

text \<open>\<open>strings.Replace\<close> of the first occurrence.\<close>

definition replace_first :: "string \<Rightarrow> string \<Rightarrow> string \<Rightarrow> string" where
  "replace_first s old new =
     (case StrIndex s old of None \<Rightarrow> s | Some i \<Rightarrow> take i s @ new @ drop (i + length old) s)"

definition AppendSystemNoteIsolated :: "jval list \<Rightarrow> string \<Rightarrow> jval list" where
  "AppendSystemNoteIsolated msgs notice =
     (if notice = [] then msgs
      else case change_first
             (\<lambda>m. is_map m \<and> role_of m = ''system'' \<and> Contains (content_of m) ProxyPolicyBegin)
             (\<lambda>m. set_content (replace_first (content_of m) ProxyPolicyEnd (notice @ [CHR 0x0A] @ ProxyPolicyEnd)) m) msgs of
        Some ms \<Rightarrow> ms
      | None \<Rightarrow> system_message (policy_block notice) # msgs)"

definition AppendSystemNote :: "jval list \<Rightarrow> string \<Rightarrow> jval list" where
  "AppendSystemNote msgs notice =
     (case change_first (\<lambda>m. is_map m \<and> role_of m = ''system'')
             (\<lambda>m. set_content (content_of m @ notice) m) msgs of
        Some ms \<Rightarrow> ms
      | None \<Rightarrow> system_message notice # msgs)"

section \<open>Lemmas\<close>

lemma context_loop_length:
  "int (length sb) \<le> maxChars \<Longrightarrow> int (length (context_loop maxChars sb ms)) \<le> maxChars"
proof (induction maxChars sb ms rule: context_loop.induct)
  case (2 maxChars sb m ms)
  show ?case
  proof (cases "is_map m \<and> role_of m \<noteq> [] \<and> role_of m \<noteq> ''system''")
    case True
    define line where "line = (if sb \<noteq> [] then [CHR 0x0A] @ role_of m @ '': '' @ content_of m else role_of m @ '': '' @ content_of m)"
    have eq: "context_loop maxChars sb (m # ms) =
        (if maxChars < int (length sb + length line)
         then (if 0 < maxChars - int (length sb) then sb @ take (nat (maxChars - int (length sb))) line else sb)
         else context_loop maxChars (sb @ line) ms)"
      unfolding context_loop.simps Let_def line_def using True by simp
    have "\<not> maxChars < int (length sb + length line) \<Longrightarrow>
        int (length (context_loop maxChars (sb @ line) ms)) \<le> maxChars"
      using 2(3) True by (simp add: line_def)
    with 2(4) show ?thesis unfolding eq by (auto simp: min_def)
  qed (use 2 in auto)
qed simp

text \<open>A scan is clean exactly when no message it looks at matches a pattern.\<close>

lemma detect_clean_iff:
  "DetectSuspiciousRoles pats msgs roles = [] \<longleftrightarrow>
     (\<forall>m\<in>set msgs. is_map m \<and> role_of m \<in> normalizeScanRoles roles \<and> content_of m \<noteq> []
        \<and> \<not> Contains (content_of m) ProxyPolicyBegin \<longrightarrow> \<not> (\<exists>p\<in>set pats. snd p (content_of m)))"
proof -
  have "message_hit pats A m = None \<longleftrightarrow>
      (is_map m \<and> role_of m \<in> A \<and> content_of m \<noteq> [] \<and> \<not> Contains (content_of m) ProxyPolicyBegin
        \<longrightarrow> \<not> (\<exists>p\<in>set pats. snd p (content_of m)))" for A m
    unfolding message_hit_def by (simp add: find_None_iff) fastforce
  moreover have "List.map_filter f xs = [] \<longleftrightarrow> (\<forall>x\<in>set xs. f x = None)" for f :: "jval \<Rightarrow> string option" and xs
    by (induction xs) (auto simp: map_filter_simps split: option.split)
  ultimately show ?thesis by (simp add: DetectSuspiciousRoles_def)
qed

lemma map_filter_append: "List.map_filter f (xs @ ys) = List.map_filter f xs @ List.map_filter f ys"
  by (simp add: List.map_filter_def)

section \<open>Properties\<close>

text \<open>
  A message that quotes the policy marker is never scanned. Wherever it stands among the messages,
  whatever its role and whatever else it says, a message whose text contains the marker adds nothing
  to the report, so what strict mode would reject passes once the client writes the marker into it;
  without the marker the report contains the first pattern that matches.
\<close>

theorem marker_blinds_detection:
  "DetectSuspiciousRoles pats (before @ JObj [(''role'', r), (''content'', JStr (a @ ProxyPolicyBegin @ b))] # after) roles
     = DetectSuspiciousRoles pats (before @ after) roles
   \<and> DetectSuspiciousRoles ((n, \<lambda>s. Contains s ''evil'') # pats) [JObj [(''role'', JStr ''system''), (''content'', JStr ''evil'')]] [] = [n]"
proof -
  have "message_hit pats A (JObj [(''role'', r), (''content'', JStr (a @ ProxyPolicyBegin @ b))]) = None" for A
    by (simp add: message_hit_def content_of_def str_field_def)
  moreover have "\<not> Contains ''evil'' ProxyPolicyBegin" by (simp add: Contains_def ProxyPolicyBegin_def)
  ultimately show ?thesis
    by (simp add: DetectSuspiciousRoles_def map_filter_append map_filter_simps normalizeScanRoles_def
        message_hit_def is_map_def role_of_def content_of_def str_field_def)
qed

text \<open>
  The routing context is bounded. Whatever the messages hold and however many turns the operator
  asks for, the summary is at most the configured number of bytes long, and with the guard on, a
  message that receives retrieved context stays within its limit.
\<close>

theorem context_bounded:
  "int (length (BuildConversationContext msgs turns maxChars)) \<le> max 0 maxChars
   \<and> (snd (InjectRAGWithLimit msgs block limit) \<and> 0 < limit \<longrightarrow>
        (\<exists>m\<in>set msgs. is_user m \<and> int (length (content_of m @ block)) \<le> limit))"
proof
  show "int (length (BuildConversationContext msgs turns maxChars)) \<le> max 0 maxChars"
    using context_loop_length [of "[]" maxChars] by (simp add: BuildConversationContext_def Let_def)
  show "snd (InjectRAGWithLimit msgs block limit) \<and> 0 < limit \<longrightarrow>
        (\<exists>m\<in>set msgs. is_user m \<and> int (length (content_of m @ block)) \<le> limit)"
  proof
    assume s: "snd (InjectRAGWithLimit msgs block limit) \<and> 0 < limit"
    then obtain m where m: "List.find is_user (rev msgs) = Some m" "int (length (content_of m @ block)) \<le> limit"
      by (auto simp: InjectRAGWithLimit_def split: if_splits option.splits)
    from m(1) have "m \<in> set (rev msgs) \<and> is_user m" by (metis find_Some_iff nth_mem)
    with m(2) show "\<exists>m\<in>set msgs. is_user m \<and> int (length (content_of m @ block)) \<le> limit" by auto
  qed
qed

theorem context_bounded_witness:
  "\<exists>m\<in>set [JObj [(''role'', JStr ''user''), (''content'', JStr ''hi'')]]. is_user m \<and> int (length (content_of m @ ''ctx'')) \<le> 9"
proof -
  have "snd (InjectRAGWithLimit [JObj [(''role'', JStr ''user''), (''content'', JStr ''hi'')]] ''ctx'' 9)"
    by (simp add: InjectRAGWithLimit_def is_user_def is_map_def role_of_def content_of_def str_field_def)
  with context_bounded [of "[JObj [(''role'', JStr ''user''), (''content'', JStr ''hi'')]]" 3 100 "''ctx''" 9]
  show ?thesis by (metis zero_less_numeral)
qed

end
