(* ===== verification/AuthGate.thy ===== *)
theory AuthGate
  imports AuthLimit
begin

text \<open>
  \<open>internal/auth/auth.go\<close> and the credential set of \<open>internal/auth/tenant.go\<close>: the bearer-token gate in
  front of every handler. SHA-256 and the pluggable authenticator are parameters; one request reads
  the clock once; \<open>None\<close> is a panic of the limiter.
\<close>

section \<open>Credentials\<close>

record credset =
  cs_items :: "(string \<times> string) list"
  cs_hashes :: "string \<rightharpoonup> nat"

definition add_entry :: "(string \<Rightarrow> string) \<Rightarrow> credset \<Rightarrow> string \<times> string \<Rightarrow> credset" where
  "add_entry sha cs e =
     (if TrimSpace (fst e) = [] then cs
      else let h = sha (fst e) in
        case cs_hashes cs h of
          Some i \<Rightarrow> cs\<lparr>cs_items := (cs_items cs)[i := e]\<rparr>
        | None \<Rightarrow> cs\<lparr>cs_hashes := (cs_hashes cs)(h \<mapsto> length (cs_items cs)), cs_items := cs_items cs @ [e]\<rparr>)"

definition NewCredentialSet :: "(string \<Rightarrow> string) \<Rightarrow> (string \<times> string) list \<Rightarrow> credset" where
  "NewCredentialSet sha entries = foldl (add_entry sha) \<lparr>cs_items = [], cs_hashes = Map.empty\<rparr> entries"

text \<open>Every item is compared; a later match overrides an earlier one.\<close>

fun match_loop :: "string \<Rightarrow> (string \<times> string) list \<Rightarrow> string option \<Rightarrow> string option" where
  "match_loop token [] r = r"
| "match_loop token (item # items) r = match_loop token items (if token = fst item then Some (snd item) else r)"

definition Match :: "credset \<Rightarrow> string \<Rightarrow> string option" where
  "Match cs token = (if cs_items cs = [] then None else match_loop token (cs_items cs) None)"

definition CredLen :: "credset \<Rightarrow> nat" where
  "CredLen cs = length (cs_items cs)"

definition Replace :: "(string \<Rightarrow> string) \<Rightarrow> credset \<Rightarrow> (string \<times> string) list \<Rightarrow> credset" where
  "Replace sha cs entries =
     (let n = NewCredentialSet sha entries in cs\<lparr>cs_items := cs_items n, cs_hashes := cs_hashes n\<rparr>)"

section \<open>The gate\<close>

text \<open>A slot is its channel, closed or not, and the time it was made.\<close>

record slot =
  sl_closed :: bool
  sl_lastSeen :: nanos

record gate =
  gt_key :: string
  gt_creds :: "credset option"
  gt_authenticator :: bool
  gt_limiter :: "authlimiter option"
  gt_observer :: bool
  gt_resolver :: "ipnet list option"
  gt_slots :: "string \<rightharpoonup> slot"
  gt_requests :: "string \<times> string \<rightharpoonup> 64 word"

datatype gate_event = AuthAccepted string | AuthRejectedInvalid string | AuthRejectedMissing string

datatype gate_answer = Served "string option" | Unauthorized string | RateLimited

definition NewGate :: "string \<Rightarrow> authlimiter option \<Rightarrow> bool \<Rightarrow> gate" where
  "NewGate key limiter observer =
     \<lparr>gt_key = key, gt_creds = None, gt_authenticator = False, gt_limiter = limiter, gt_observer = observer,
      gt_resolver = (case limiter of None \<Rightarrow> Some []
                     | Some al \<Rightarrow> (case au_resolver al of None \<Rightarrow> Some [] | Some r \<Rightarrow> Some r)),
      gt_slots = Map.empty, gt_requests = Map.empty\<rparr>"

definition NewMultiKeyMiddleware :: "string \<Rightarrow> credset option \<Rightarrow> authlimiter option \<Rightarrow> bool \<Rightarrow> gate" where
  "NewMultiKeyMiddleware key creds limiter observer = (NewGate key limiter observer)\<lparr>gt_creds := creds\<rparr>"

definition NewMiddlewareWithAuthenticator :: "string \<Rightarrow> bool \<Rightarrow> authlimiter option \<Rightarrow> bool \<Rightarrow> gate" where
  "NewMiddlewareWithAuthenticator key authenticator limiter observer =
     (NewGate key limiter observer)\<lparr>gt_authenticator := authenticator\<rparr>"

definition SetCredentials :: "gate \<Rightarrow> credset option \<Rightarrow> gate" where
  "SetCredentials m creds = m\<lparr>gt_creds := creds\<rparr>"

definition has_creds :: "gate \<Rightarrow> bool" where
  "has_creds m = (case gt_creds m of None \<Rightarrow> False | Some cs \<Rightarrow> 0 < CredLen cs)"

definition GateEnabled :: "gate \<Rightarrow> bool" where
  "GateEnabled m \<longleftrightarrow> gt_key m \<noteq> [] \<or> has_creds m \<or> gt_authenticator m"

definition incAuthRequest :: "gate \<Rightarrow> string \<Rightarrow> string \<Rightarrow> gate" where
  "incAuthRequest m mode result =
     m\<lparr>gt_requests := (gt_requests m)((mode, result) \<mapsto>
         (case gt_requests m (mode, result) of None \<Rightarrow> 0 | Some v \<Rightarrow> v) + 1)\<rparr>"

definition acquireSlot :: "gate \<Rightarrow> string \<Rightarrow> nanos \<Rightarrow> gate" where
  "acquireSlot m ip now =
     (case gt_slots m ip of
        Some s \<Rightarrow> if sl_closed s then m\<lparr>gt_slots := (gt_slots m)(ip := None)\<rparr>
                   else m\<lparr>gt_slots := (gt_slots m)(ip \<mapsto> \<lparr>sl_closed = False, sl_lastSeen = now\<rparr>)\<rparr>
      | None \<Rightarrow> m\<lparr>gt_slots := (gt_slots m)(ip \<mapsto> \<lparr>sl_closed = False, sl_lastSeen = now\<rparr>)\<rparr>)"

definition renewSlot :: "gate \<Rightarrow> string \<Rightarrow> nanos \<Rightarrow> gate" where
  "renewSlot m ip now =
     (case gt_slots m ip of
        Some s \<Rightarrow> m\<lparr>gt_slots := (gt_slots m)(ip \<mapsto> \<lparr>sl_closed = False, sl_lastSeen = now\<rparr>)\<rparr>
      | None \<Rightarrow> m)"

text \<open>\<open>BearerToken\<close>: the header split at its first blank.\<close>

definition BearerToken :: "string \<Rightarrow> string" where
  "BearerToken h =
     (if h = [] then []
      else case StrIndex h '' '' of
        None \<Rightarrow> []
      | Some i \<Rightarrow> if ToLower (take i h) = ''bearer'' then TrimSpace (drop (Suc i) h) else [])"

section \<open>A request\<close>

text \<open>The outcome of the three ways of checking a token: the mode, and the tenant on success.\<close>

definition check_token :: "(string \<Rightarrow> bool) \<Rightarrow> gate \<Rightarrow> string \<Rightarrow> string \<times> string option option" where
  "check_token authenticate m token =
     (if has_creds m then
        (''multikey'', map_option Some (Option.bind (gt_creds m) (\<lambda>cs. Match cs token)))
      else if gt_authenticator m then
        (''authenticator'', if authenticate token then Some None else None)
      else
        (''single'', if token = gt_key m then Some None else None))"

definition limiter_check :: "gate \<Rightarrow> string \<Rightarrow> nanos \<Rightarrow> gate \<times> bool" where
  "limiter_check m ip now =
     (if AuthLimEnabled (gt_limiter m)
      then (case IsBlocked (the (gt_limiter m)) ip now of (al, b) \<Rightarrow> (m\<lparr>gt_limiter := Some al\<rparr>, b))
      else (m, False))"

definition limiter_fail :: "gate \<Rightarrow> string \<Rightarrow> string \<Rightarrow> nanos \<Rightarrow> gate option" where
  "limiter_fail m ip reason now =
     (if AuthLimEnabled (gt_limiter m)
      then map_option (\<lambda>p. m\<lparr>gt_limiter := Some (fst p)\<rparr>) (RecordAuthFailure (the (gt_limiter m)) ip reason now)
      else Some m)"

definition refuse :: "gate \<Rightarrow> string \<Rightarrow> string \<Rightarrow> string \<Rightarrow> nanos \<Rightarrow> (gate \<times> gate_answer \<times> gate_event list) option" where
  "refuse m ip mode reason now =
     map_option (\<lambda>m. (renewSlot (incAuthRequest m mode reason) ip now, Unauthorized reason,
         if gt_observer m then [if reason = ''missing'' then AuthRejectedMissing ip else AuthRejectedInvalid ip] else []))
       (limiter_fail m ip reason now)"

definition gate_serve ::
  "netlib \<Rightarrow> (string \<Rightarrow> bool) \<Rightarrow> bool \<Rightarrow> gate \<Rightarrow> request \<Rightarrow> string \<Rightarrow> bool \<Rightarrow> nanos \<Rightarrow>
     (gate \<times> gate_answer \<times> gate_event list) option" where
  "gate_serve N authenticate wrapped m req authorization exempt now =
     (if \<not> wrapped then Some (m, Served None, [])
      else
        let ip = Resolve N (gt_resolver m) req;
            token = BearerToken authorization
        in case limiter_check m ip now of
          (m, True) \<Rightarrow> Some (m, RateLimited, [])
        | (m, False) \<Rightarrow>
            let m = acquireSlot m ip now in
            if exempt then Some (renewSlot m ip now, Served None, [])
            else if token = [] then refuse m ip ''unknown'' ''missing'' now
            else case check_token authenticate m token of
              (mode, None) \<Rightarrow> refuse m ip mode ''invalid'' now
            | (mode, Some tenant) \<Rightarrow>
                Some (renewSlot (incAuthRequest m mode ''success'') ip now, Served tenant,
                  if gt_observer m then [AuthAccepted ip] else []))"

section \<open>Lemmas on the credentials\<close>

text \<open>What the file means: the last entry of a key counts, blank keys do not.\<close>

definition granted :: "(string \<times> string) list \<Rightarrow> string \<Rightarrow> string option" where
  "granted es k = (if TrimSpace k = [] then None else map_of (rev es) k)"

lemma match_loop_map_of: "match_loop token items r = (case map_of (rev items) token of None \<Rightarrow> r | Some t \<Rightarrow> Some t)"
  by (induction token items r rule: match_loop.induct) (auto simp: map_add_def split: option.splits)

lemma Match_map_of: "Match cs token = map_of (rev (cs_items cs)) token"
  by (simp add: Match_def match_loop_map_of split: option.splits)

lemma map_of_rev_distinct: "distinct (map fst xs) \<Longrightarrow> map_of (rev xs) = map_of xs"
proof (induction xs)
  case (Cons x xs)
  then have "map_of xs (fst x) = None" by (simp add: map_of_eq_None_iff)
  with Cons show ?case by (cases x) (auto simp: fun_eq_iff map_add_def split: option.splits)
qed simp

definition cs_inv :: "(string \<Rightarrow> string) \<Rightarrow> credset \<Rightarrow> bool" where
  "cs_inv sha cs \<longleftrightarrow> distinct (map fst (cs_items cs)) \<and>
     (\<forall>h i. cs_hashes cs h = Some i \<longrightarrow> i < length (cs_items cs) \<and> sha (fst (cs_items cs ! i)) = h) \<and>
     (\<forall>i<length (cs_items cs). cs_hashes cs (sha (fst (cs_items cs ! i))) = Some i)"

lemma map_of_update_nth:
  "distinct (map fst xs) \<Longrightarrow> i < length xs \<Longrightarrow> fst (xs ! i) = k \<Longrightarrow> map_of (xs[i := (k, v)]) = (map_of xs)(k \<mapsto> v)"
proof (induction xs arbitrary: i)
  case (Cons x xs)
  show ?case
  proof (cases i)
    case 0
    with Cons.prems show ?thesis by (cases x) (auto simp: fun_eq_iff)
  next
    case (Suc j)
    with Cons.prems have "fst x \<noteq> k" by (metis distinct.simps(2) length_Cons list.simps(9) nth_Cons_Suc nth_map nth_mem length_map not_less_eq)
    moreover have "map_of (xs[j := (k, v)]) = (map_of xs)(k \<mapsto> v)"
      by (rule Cons.IH) (use Cons.prems Suc in auto)
    ultimately show ?thesis using Suc by (cases x) (auto simp: fun_eq_iff)
  qed
qed simp

lemma add_entry_ok:
  assumes inv: "cs_inv sha cs" and inj: "inj_on sha (insert (fst e) (fst ` set (cs_items cs)))"
  shows "cs_inv sha (add_entry sha cs e)"
    and "map_of (cs_items (add_entry sha cs e)) =
           (if TrimSpace (fst e) = [] then map_of (cs_items cs) else (map_of (cs_items cs))(fst e \<mapsto> snd e))"
    and "fst ` set (cs_items (add_entry sha cs e)) \<subseteq> insert (fst e) (fst ` set (cs_items cs))"
proof -
  obtain k v where e: "e = (k, v)" by (cases e)
  have "cs_inv sha (add_entry sha cs e) \<and> map_of (cs_items (add_entry sha cs e)) =
      (if TrimSpace k = [] then map_of (cs_items cs) else (map_of (cs_items cs))(k \<mapsto> v))
      \<and> fst ` set (cs_items (add_entry sha cs e)) \<subseteq> insert k (fst ` set (cs_items cs))"
  proof (cases "TrimSpace k = []")
    case True
    with inv e show ?thesis by (auto simp: add_entry_def)
  next
    case nb: False
    show ?thesis
    proof (cases "cs_hashes cs (sha k)")
      case None
      have new: "sha (fst (cs_items cs ! i)) \<noteq> sha k" if "i < length (cs_items cs)" for i
      proof -
        have "cs_hashes cs (sha (fst (cs_items cs ! i))) = Some i" using inv that by (simp add: cs_inv_def)
        with None show ?thesis by auto
      qed
      have "k \<notin> fst ` set (cs_items cs)" using new by (force simp: in_set_conv_nth)
      moreover have "map_of (cs_items cs @ [(k, v)]) = (map_of (cs_items cs))(k \<mapsto> v)"
      proof -
        have "map_of (cs_items cs) k = None" using calculation(1) by (simp add: map_of_eq_None_iff)
        then show ?thesis by (auto simp: fun_eq_iff map_add_def split: option.splits)
      qed
      moreover have "add_entry sha cs e =
          cs\<lparr>cs_hashes := (cs_hashes cs)(sha k \<mapsto> length (cs_items cs)), cs_items := cs_items cs @ [(k, v)]\<rparr>"
        using None nb e by (simp add: add_entry_def)
      moreover have "cs_inv sha (cs\<lparr>cs_hashes := (cs_hashes cs)(sha k \<mapsto> length (cs_items cs)), cs_items := cs_items cs @ [(k, v)]\<rparr>)"
        unfolding cs_inv_def
      proof (intro conjI allI impI)
        show "distinct (map fst (cs_items (cs\<lparr>cs_hashes := (cs_hashes cs)(sha k \<mapsto> length (cs_items cs)), cs_items := cs_items cs @ [(k, v)]\<rparr>)))"
          using inv calculation(1) by (simp add: cs_inv_def)
      qed (use inv in \<open>auto simp: cs_inv_def nth_append less_Suc_eq new split: if_splits\<close>)
      ultimately show ?thesis using nb by simp
    next
      case (Some i)
      then have i: "i < length (cs_items cs)" "sha (fst (cs_items cs ! i)) = sha k"
        using inv unfolding cs_inv_def by metis+
      then have k: "fst (cs_items cs ! i) = k"
        using inj e by (auto simp: inj_on_def)
      have keys: "map fst ((cs_items cs)[i := (k, v)]) = map fst (cs_items cs)"
        using i k by (simp add: map_update list_update_same_conv)
      then have nth: "fst ((cs_items cs)[i := (k, v)] ! j) = fst (cs_items cs ! j)" if "j < length (cs_items cs)" for j
        using that by (metis length_list_update nth_map)
      have "cs_inv sha (cs\<lparr>cs_items := (cs_items cs)[i := (k, v)]\<rparr>)"
        using inv keys nth unfolding cs_inv_def by auto
      moreover have "fst ` set ((cs_items cs)[i := (k, v)]) = fst ` set (cs_items cs)"
        using keys by (metis list.set_map)
      ultimately show ?thesis
        using Some nb e inv map_of_update_nth [OF _ i(1) k] by (auto simp: add_entry_def cs_inv_def)
    qed
  qed
  then show "cs_inv sha (add_entry sha cs e)"
    "map_of (cs_items (add_entry sha cs e)) =
       (if TrimSpace (fst e) = [] then map_of (cs_items cs) else (map_of (cs_items cs))(fst e \<mapsto> snd e))"
    "fst ` set (cs_items (add_entry sha cs e)) \<subseteq> insert (fst e) (fst ` set (cs_items cs))"
    using e by simp_all
qed

lemma NewCredentialSet_ok:
  assumes "inj_on sha (fst ` set es)"
  shows "cs_inv sha (NewCredentialSet sha es) \<and> map_of (cs_items (NewCredentialSet sha es)) = granted es
    \<and> fst ` set (cs_items (NewCredentialSet sha es)) \<subseteq> fst ` set es"
  using assms
proof (induction es rule: rev_induct)
  case Nil
  then show ?case by (auto simp: NewCredentialSet_def cs_inv_def granted_def)
next
  case (snoc e es)
  let ?cs = "NewCredentialSet sha es"
  have new: "NewCredentialSet sha (es @ [e]) = add_entry sha ?cs e" by (simp add: NewCredentialSet_def)
  have ih: "cs_inv sha ?cs" "map_of (cs_items ?cs) = granted es" "fst ` set (cs_items ?cs) \<subseteq> fst ` set es"
    using snoc inj_on_subset [OF snoc.prems, of "fst ` set es"] by auto
  have "inj_on sha (insert (fst e) (fst ` set (cs_items ?cs)))"
    using ih(3) by (intro inj_on_subset [OF snoc.prems]) auto
  note new_ok = add_entry_ok [OF ih(1) this]
  have "fst ` set (cs_items (add_entry sha ?cs e)) \<subseteq> fst ` set (es @ [e])"
    by (rule order.trans [OF new_ok(3)]) (use ih(3) in auto)
  moreover have "map_of (cs_items (add_entry sha ?cs e)) = granted (es @ [e])"
    unfolding new_ok(2) ih(2) by (cases e) (auto simp: granted_def fun_eq_iff)
  ultimately show ?case using new_ok(1) unfolding new by blast
qed

lemma Match_granted:
  assumes "inj_on sha (fst ` set es)"
  shows "Match (NewCredentialSet sha es) = granted es"
proof
  fix k
  have "map_of (rev (cs_items (NewCredentialSet sha es))) = granted es"
    using NewCredentialSet_ok [OF assms] map_of_rev_distinct by (metis cs_inv_def)
  then show "Match (NewCredentialSet sha es) k = granted es k" by (simp add: Match_map_of)
qed

section \<open>Lemmas on the gate\<close>

lemma gate_fields [simp]:
  "gt_limiter (acquireSlot m ip now) = gt_limiter m" "gt_limiter (renewSlot m ip now) = gt_limiter m"
  "gt_limiter (incAuthRequest m md r) = gt_limiter m"
  "gt_creds (acquireSlot m ip now) = gt_creds m" "gt_key (acquireSlot m ip now) = gt_key m"
  "gt_authenticator (acquireSlot m ip now) = gt_authenticator m"
  by (simp_all add: acquireSlot_def renewSlot_def incAuthRequest_def split: option.splits)

lemma check_token_slots [simp]:
  "check_token authn (acquireSlot m ip now) token = check_token authn m token"
  "check_token authn (m\<lparr>gt_limiter := l\<rparr>) token = check_token authn m token"
  by (simp_all add: check_token_def has_creds_def)

text \<open>Why a request would be refused if the limiter admits it.\<close>

definition refusal :: "(string \<Rightarrow> bool) \<Rightarrow> gate \<Rightarrow> string \<Rightarrow> bool \<Rightarrow> string option" where
  "refusal authn m token exempt =
     (if exempt then None else if token = [] then Some ''missing''
      else if snd (check_token authn m token) = None then Some ''invalid'' else None)"

lemma refusal_reasons: "refusal authn m token exempt \<in> insert None (Some ` reasons)"
  by (simp add: refusal_def reasons_def)

lemma RecordAuthFailure_Some: "au_failures al \<noteq> None \<Longrightarrow> RecordAuthFailure al ip r now \<noteq> None"
  by (auto simp: RecordAuthFailure_def Let_def)

lemma refuse_Some:
  assumes "gt_limiter m = Some al" "0 < au_rpm al" "au_failures al \<noteq> None"
  shows "\<exists>m' ev. refuse m ip md r now = Some (m', Unauthorized r, ev)
     \<and> gt_limiter m' = Some (fst (the (RecordAuthFailure al ip r now)))"
proof -
  obtain al' ev where "RecordAuthFailure al ip r now = Some (al', ev)"
    using RecordAuthFailure_Some [OF assms(3), of ip r now] by auto
  with assms(1,2) show ?thesis by (simp add: refuse_def limiter_fail_def AuthLimEnabled_def)
qed

definition log_of :: "string \<Rightarrow> gate_answer \<Rightarrow> nanos \<Rightarrow> failure_log" where
  "log_of ip ans now = (case ans of Unauthorized r \<Rightarrow> [(ip, r, now)] | _ \<Rightarrow> [])"

text \<open>A request is one attempt of the limiter's contract.\<close>

lemma gate_serve_attempt:
  fixes m :: gate and N :: netlib and req :: request and authn :: "string \<Rightarrow> bool" and authz :: string and exempt :: bool
  assumes lim: "gt_limiter m = Some al" and ok: "au_ok B W t al fl" and now: "t \<le> now"
  defines "ip \<equiv> Resolve N (gt_resolver m) req" and "why \<equiv> refusal authn m (BearerToken authz) exempt"
  shows "\<exists>m' ans ev. gate_serve N authn True m req authz exempt now = Some (m', ans, ev)
    \<and> gt_limiter m' = Some (fst (ag.attempt al ip why now))
    \<and> log_of ip ans now = (if snd (ag.attempt al ip why now) then (case why of None \<Rightarrow> [] | Some r \<Rightarrow> [(ip, r, now)]) else [])"
proof -
  note d = au_okD [OF ok]
  obtain al1 b where q: "IsBlocked al ip now = (al1, b)" by (cases "IsBlocked al ip now")
  have chk: "limiter_check m ip now = (m\<lparr>gt_limiter := Some al1\<rparr>, b)"
    using lim d(1) q by (simp add: limiter_check_def AuthLimEnabled_def)
  have "au_ok B W now al1 fl" using IsBlocked_ok [OF ok now, of ip] q by simp
  note d1 = au_okD [OF this]
  let ?m = "acquireSlot (m\<lparr>gt_limiter := Some al1\<rparr>) ip now"
  have ref: "\<exists>m' ev. refuse ?m ip md r now = Some (m', Unauthorized r, ev)
     \<and> gt_limiter m' = Some (fst (the (RecordAuthFailure al1 ip r now)))" for md r
    by (rule refuse_Some) (use d1 in simp_all)
  show ?thesis
  proof (cases b)
    case True
    with chk q show ?thesis by (simp add: gate_serve_def ip_def [symmetric] Let_def ag.attempt_def log_of_def)
  next
    case False
    obtain md res where ct: "check_token authn m (BearerToken authz) = (md, res)"
      by (cases "check_token authn m (BearerToken authz)")
    have at: "ag.attempt al ip why now = ((case why of None \<Rightarrow> al1 | Some r \<Rightarrow> fst (the (RecordAuthFailure al1 ip r now))), True)"
      using q False by (simp add: ag.attempt_def)
    consider "exempt" | "\<not> exempt" "BearerToken authz = []" | "\<not> exempt" "BearerToken authz \<noteq> []" by blast
    then show ?thesis
    proof cases
      case 1
      with chk q False at show ?thesis
        by (simp add: gate_serve_def ip_def [symmetric] Let_def log_of_def why_def refusal_def)
    next
      case 2
      with chk q False at ref [of "''unknown''" "''missing''"] show ?thesis
        by (auto simp: gate_serve_def ip_def [symmetric] Let_def log_of_def why_def refusal_def)
    next
      case 3
      with chk q False at ref [of md "''invalid''"] ct show ?thesis
        by (cases res) (auto simp: gate_serve_def ip_def [symmetric] Let_def log_of_def why_def refusal_def)
    qed
  qed
qed

text \<open>The slots only grow: a request leaves one for its address, and none is ever removed.\<close>

lemma slots_kept:
  assumes "\<forall>s\<in>ran (gt_slots m). \<not> sl_closed s"
  shows "dom (gt_slots (renewSlot (acquireSlot m ip now) ip now)) = insert ip (dom (gt_slots m))"
    and "\<forall>s\<in>ran (gt_slots (renewSlot (acquireSlot m ip now) ip now)). \<not> sl_closed s"
  using assms by (auto simp: acquireSlot_def renewSlot_def ran_def split: option.splits)

section \<open>Properties\<close>

text \<open>
  C7: Who is let in. With a credential file installed, at the start or by a reload, a request that is not
  exempt reaches the handler exactly when the limiter does not block its address and its bearer token
  is not empty and is accepted: if the file has any usable key, by the last entry of that key, and
  then the tenant is that entry's; otherwise by the authenticator if there is one, otherwise by the
  single key. So a file emptied by a reload opens nothing when there is no single key.
\<close>

theorem auth_gate_exact:
  assumes "inj_on sha (fst ` set es)" "gt_creds m = Some (Replace sha cs es)"
  shows "(\<exists>m' ev. gate_serve N authn True m req authz False now = Some (m', Served t, ev)) \<longleftrightarrow>
    \<not> snd (limiter_check m (Resolve N (gt_resolver m) req) now) \<and> BearerToken authz \<noteq> [] \<and>
    (if \<exists>e\<in>set es. TrimSpace (fst e) \<noteq> [] then t \<noteq> None \<and> granted es (BearerToken authz) = t
     else if gt_authenticator m then t = None \<and> authn (BearerToken authz)
     else t = None \<and> BearerToken authz = gt_key m)"
proof -
  let ?n = "NewCredentialSet sha es"
  have items: "cs_items (Replace sha cs es) = cs_items ?n" by (simp add: Replace_def Let_def)
  have mt: "Match (Replace sha cs es) = granted es"
  proof -
    have "Match (Replace sha cs es) = Match ?n" by (rule ext) (simp add: Match_def items)
    with Match_granted [OF assms(1)] show ?thesis by simp
  qed
  have "(cs_items ?n = []) \<longleftrightarrow> map_of (cs_items ?n) = Map.empty" by simp
  also have "\<dots> \<longleftrightarrow> granted es = Map.empty" using NewCredentialSet_ok [OF assms(1)] by simp
  also have "\<dots> \<longleftrightarrow> (\<forall>e\<in>set es. TrimSpace (fst e) = [])"
    by (auto simp: granted_def fun_eq_iff map_of_eq_None_iff split: if_splits)
  finally have hc: "has_creds m \<longleftrightarrow> (\<exists>e\<in>set es. TrimSpace (fst e) \<noteq> [])"
    using assms(2) by (simp add: has_creds_def CredLen_def items)
  obtain m1 b where chk: "limiter_check m (Resolve N (gt_resolver m) req) now = (m1, b)"
    by (cases "limiter_check m (Resolve N (gt_resolver m) req) now")
  have m1: "m1 = m \<or> (\<exists>l. m1 = m\<lparr>gt_limiter := l\<rparr>)"
    using chk by (auto simp: limiter_check_def split: if_splits prod.splits)
  then have ct: "check_token authn m1 token = check_token authn m token" for token by auto
  have nr: "refuse m2 ip md r now \<noteq> Some (m', Served t, ev)" for m2 ip md r m' ev
    by (auto simp: refuse_def)
  obtain md res where c: "check_token authn m (BearerToken authz) = (md, res)"
    by (cases "check_token authn m (BearerToken authz)")
  have "(\<exists>m' ev. gate_serve N authn True m req authz False now = Some (m', Served t, ev)) \<longleftrightarrow>
      \<not> b \<and> BearerToken authz \<noteq> [] \<and> res = Some t"
    by (cases b; cases "BearerToken authz = []"; cases res)
      (simp_all add: gate_serve_def Let_def chk ct c nr)
  moreover have "res = Some t \<longleftrightarrow>
    (if \<exists>e\<in>set es. TrimSpace (fst e) \<noteq> [] then t \<noteq> None \<and> granted es (BearerToken authz) = t
     else if gt_authenticator m then t = None \<and> authn (BearerToken authz)
     else t = None \<and> BearerToken authz = gt_key m)"
    using c assms(2) by (cases t; cases "granted es (BearerToken authz)")
      (auto simp: check_token_def hc mt split: if_splits)
  ultimately show ?thesis by (simp add: chk)
qed

theorem auth_gate_exact_witness:
  "\<not> (\<exists>m' ev. gate_serve binlib (\<lambda>_. False) True
        (NewMultiKeyMiddleware ''old'' (Some (Replace id (NewCredentialSet id []) [(''k'', ''a''), (''k'', ''b'')])) None False)
        \<lparr>RemoteAddr = ''p'', XFF = [], XRealIP = []\<rparr> ''Bearer k'' False 0 = Some (m', Served (Some ''a''), ev))"
proof -
  have "BearerToken ''Bearer k'' = ''k''"
    by code_simp
  then show ?thesis
    by (subst auth_gate_exact [where sha = id and es = "[(''k'', ''a''), (''k'', ''b'')]" and cs = "NewCredentialSet id []"])
      (simp_all add: NewMultiKeyMiddleware_def granted_def TrimSpace_def TrimLeft_def TrimRight_def is_space_def)
qed

text \<open>The refusals of a run of requests; \<open>None\<close> when the limiter panics.\<close>

fun gate_run :: "netlib \<Rightarrow> (string \<Rightarrow> bool) \<Rightarrow> gate \<Rightarrow> (request \<times> string \<times> bool \<times> nanos) list \<Rightarrow> failure_log option" where
  "gate_run N authn m [] = Some []"
| "gate_run N authn m ((req, authz, exempt, now) # rs) =
     (case gate_serve N authn True m req authz exempt now of
        None \<Rightarrow> None
      | Some (m', ans, _) \<Rightarrow>
          map_option ((@) (log_of (Resolve N (gt_resolver m) req) ans now)) (gate_run N authn m' rs))"

lemma gate_run_bounded:
  assumes "gt_limiter m = Some al" "au_ok B W t al fl" "bounded_log B W fl"
    and "sorted (t # map (\<lambda>r. snd (snd (snd r))) rs)"
  shows "\<exists>new. gate_run N authn m rs = Some new \<and> bounded_log B W (fl @ new)"
  using assms
proof (induction N authn m rs arbitrary: al t fl rule: gate_run.induct)
  case (2 N authn m req authz exempt now rs)
  let ?ip = "Resolve N (gt_resolver m) req" and ?why = "refusal authn m (BearerToken authz) exempt"
  have now: "t \<le> now" and later: "sorted (now # map (\<lambda>r. snd (snd (snd r))) rs)" using 2(5) by auto
  obtain m' ans ev where s: "gate_serve N authn True m req authz exempt now = Some (m', ans, ev)"
      "gt_limiter m' = Some (fst (ag.attempt al ?ip ?why now))"
      "log_of ?ip ans now = (if snd (ag.attempt al ?ip ?why now) then (case ?why of None \<Rightarrow> [] | Some r \<Rightarrow> [(?ip, r, now)]) else [])"
    using gate_serve_attempt [OF 2(2,3) now, where N = N and authn = authn and authz = authz and req = req and exempt = exempt]
    by metis
  have ext: "ag.extended fl (snd (ag.attempt al ?ip ?why now)) ?ip ?why now = fl @ log_of ?ip ans now"
    by (simp add: ag.extended_def s(3))
  from ag.attempt_ok [OF 2(3) now 2(4) refusal_reasons, of ?ip authn m "BearerToken authz" exempt]
  obtain new where "gate_run N authn m' rs = Some new" "bounded_log B W ((fl @ log_of ?ip ans now) @ new)"
    using 2(1) [OF s(1) refl refl s(2) _ _ later, of "fl @ log_of ?ip ans now"] ext by auto
  with s(1) show ?case by simp
qed simp



end
