(* ===== verification/JText.thy ===== *)
theory JText
  imports Prelude
begin

text \<open>
  The text of a JSON value as the program's scanners see it: plain bytes, string literals with
  escapes, and groups in braces or brackets. Two scanners are proved correct on these texts.
\<close>

section \<open>Texts with balanced brackets\<close>

text \<open>The text of a JSON value, as the scanner sees it.\<close>

datatype qchar = QChar char | QEsc char

datatype jtext = Plain char | Quoted "qchar list" | Group bool "jtext list"

fun q_ok :: "qchar \<Rightarrow> bool" where
  "q_ok (QChar c) = (c \<noteq> CHR 0x5C \<and> c \<noteq> CHR 0x22)"
| "q_ok (QEsc c) = True"

fun q_text :: "qchar \<Rightarrow> string" where
  "q_text (QChar c) = [c]"
| "q_text (QEsc c) = [CHR 0x5C, c]"

fun t_ok :: "jtext \<Rightarrow> bool" where
  "t_ok (Plain c) = (c \<notin> {CHR 0x5C, CHR 0x22, CHR ''{'', CHR ''}'', CHR ''['', CHR '']''})"
| "t_ok (Quoted qs) = list_all q_ok qs"
| "t_ok (Group b ts) = list_all t_ok ts"

fun t_text :: "jtext \<Rightarrow> string" where
  "t_text (Plain c) = [c]"
| "t_text (Quoted qs) = CHR 0x22 # concat (map q_text qs) @ [CHR 0x22]"
| "t_text (Group b ts) =
     (if b then CHR ''{'' else CHR ''['') # concat (map t_text ts) @ [if b then CHR ''}'' else CHR '']'']"

end
