(* ===== verification/Toon.thy ===== *)
theory Toon
  imports Messages JText "HOL-Library.List_Lexorder" "HOL-Library.Char_ord"
begin

text \<open>
  \<open>internal/middleware/toon.go\<close>: the rewriting of JSON arrays in a prompt into tables. The two regular
  expressions are parameters that list their matches (texts, or index ranges), \<open>json.Unmarshal\<close> is the
  parameter \<open>unm\<close> (\<open>None\<close> is its error) and \<open>showv\<close> is the \<open>%v\<close> of a decoded value. A slice expression out
  of range panics: \<open>None\<close>.
\<close>

section \<open>Finding the end of an array\<close>

text \<open>The loop stands at index \<open>i\<close>; the first argument is what the content holds from there on.\<close>

function array_end_loop :: "string \<Rightarrow> nat \<Rightarrow> nat \<Rightarrow> bool \<Rightarrow> nat option" where
  "array_end_loop [] i depth inString = None"
| "array_end_loop (c # cs) i depth inString =
     (if c = CHR 0x5C \<and> cs \<noteq> [] then array_end_loop (tl cs) (i + 2) depth inString
      else if c = CHR 0x22 then array_end_loop cs (i + 1) depth (\<not> inString)
      else if inString then array_end_loop cs (i + 1) depth inString
      else if c = CHR ''{'' \<or> c = CHR ''['' then array_end_loop cs (i + 1) (depth + 1) inString
      else if c = CHR ''}'' \<or> c = CHR '']'' then
        (if depth - 1 = 0 then Some (i + 1) else array_end_loop cs (i + 1) (depth - 1) inString)
      else array_end_loop cs (i + 1) depth inString)"
  by pat_completeness auto

termination
  by (relation "measure (\<lambda>(s, _). length s)") auto

definition findArrayEnd :: "string \<Rightarrow> nat \<Rightarrow> nat option" where
  "findArrayEnd content i =
     (case drop i content of
        [] \<Rightarrow> None
      | c # cs \<Rightarrow> if c \<noteq> CHR ''['' then None else array_end_loop cs (i + 1) 1 False)"

lemma array_end_bounds: "array_end_loop cs i d b = Some e \<Longrightarrow> i < e \<and> e \<le> i + length cs"
proof (induction cs i d b rule: array_end_loop.induct)
  case (2 c cs i d b)
  have "length (tl cs) + 2 = length (c # cs)" if "cs \<noteq> []" using that by (cases cs) auto
  with 2 show ?case by (simp split: if_splits) force+
qed simp

lemma findArrayEnd_bounds:
  assumes "findArrayEnd content i = Some e"
  shows "i < e \<and> e \<le> length content"
proof (cases "drop i content")
  case (Cons c cs)
  then have "length content - i = Suc (length cs)" by (metis length_Cons length_drop)
  moreover have "i + 1 < e \<and> e \<le> i + 1 + length cs"
    using assms Cons by (auto simp: findArrayEnd_def split: if_splits dest: array_end_bounds)
  ultimately show ?thesis by linarith
qed (use assms in \<open>simp add: findArrayEnd_def\<close>)

section \<open>The table\<close>

definition parseObjectArray :: "(string \<Rightarrow> fields list option) \<Rightarrow> string \<Rightarrow> fields list option" where
  "parseObjectArray unm content =
     (let content = TrimSpace content in
      if length content < 2 \<or> content ! 0 \<noteq> CHR ''['' \<or> content ! (length content - 1) \<noteq> CHR '']'' then None
      else case unm content of
        None \<Rightarrow> None
      | Some data \<Rightarrow> if length data < 2 then None else Some data)"

text \<open>\<open>strings.ReplaceAll\<close> of one byte. The full-width comma is three bytes.\<close>

definition replace_byte :: "char \<Rightarrow> string \<Rightarrow> string \<Rightarrow> string" where
  "replace_byte c new s = concat (map (\<lambda>x. if x = c then new else [x]) s)"

definition wide_comma :: string where "wide_comma = [CHR 0xEF, CHR 0xBC, CHR 0x8C]"

definition cell :: "(jval \<Rightarrow> string) \<Rightarrow> fields \<Rightarrow> string \<Rightarrow> string" where
  "cell showv item k =
     replace_byte (CHR 0x0A) '' '' (replace_byte (CHR '','') wide_comma
       (showv (case map_of item k of None \<Rightarrow> JNull | Some v \<Rightarrow> v)))"

definition table_keys :: "fields list \<Rightarrow> string list" where
  "table_keys data = (case data of [] \<Rightarrow> [] | d # _ \<Rightarrow> sort (remdups (map fst d)))"

definition table_header :: "nat \<Rightarrow> string list \<Rightarrow> string" where
  "table_header n keys = ''items['' @ decimal n @ '']{'' @ Join '','' keys @ ''}:''"

definition table_row :: "(jval \<Rightarrow> string) \<Rightarrow> string list \<Rightarrow> fields \<Rightarrow> string" where
  "table_row showv keys item = ''  '' @ Join '','' (map (cell showv item) keys)"

definition serializeToTOONData :: "(jval \<Rightarrow> string) \<Rightarrow> fields list \<Rightarrow> string" where
  "serializeToTOONData showv data =
     (if data = [] then ''items[0]{}:'' @ [CHR 0x0A]
      else
        let keys = table_keys data
        in table_header (length data) keys @ [CHR 0x0A]
             @ concat (map (\<lambda>item. table_row showv keys item @ [CHR 0x0A]) data))"

definition SerializeToTOON :: "(string \<Rightarrow> fields list option) \<Rightarrow> (jval \<Rightarrow> string) \<Rightarrow> string \<Rightarrow> string option" where
  "SerializeToTOON unm showv jsonBytes = map_option (serializeToTOONData showv) (unm jsonBytes)"

section \<open>Arrays without fences\<close>

definition isValidArrayStart :: "string \<Rightarrow> nat \<Rightarrow> bool" where
  "isValidArrayStart content i \<longleftrightarrow>
     i = 0 \<or> content ! (i - 1) \<in> {CHR '' '', CHR 0x09, CHR 0x0A, CHR 0x0D}"

definition array_at :: "(string \<Rightarrow> fields list option) \<Rightarrow> string \<Rightarrow> nat \<Rightarrow> (nat \<times> fields list) option" where
  "array_at unm content i =
     (if content ! i \<noteq> CHR ''['' then None
      else if \<not> isValidArrayStart content i then None
      else case findArrayEnd content i of
        None \<Rightarrow> None
      | Some e \<Rightarrow> map_option (\<lambda>d. (e, d)) (parseObjectArray unm (TrimSpace (take (e - i) (drop i content)))))"

lemma array_at_bounds: "array_at unm content i = Some (e, d) \<Longrightarrow> i < e \<and> e \<le> length content"
  by (auto simp: array_at_def split: if_splits option.splits dest: findArrayEnd_bounds)

text \<open>The loop of \<open>scanUnfencedArrays\<close>; \<open>skipEnd\<close> is \<open>None\<close> for \<open>-1\<close>.\<close>

function scan_loop :: "(string \<Rightarrow> fields list option) \<Rightarrow> (jval \<Rightarrow> string) \<Rightarrow> string \<Rightarrow> nat \<Rightarrow> nat option \<Rightarrow> bool \<Rightarrow> string \<times> bool" where
  "scan_loop unm showv content i skipEnd did =
     (if length content \<le> i then (content, did)
      else
        let skipEnd = (case skipEnd of Some s \<Rightarrow> (if s \<le> i then None else Some s) | None \<Rightarrow> None) in
        case (if skipEnd \<noteq> None then None else array_at unm content i) of
          None \<Rightarrow> scan_loop unm showv content (i + 1) skipEnd did
        | Some (e, data) \<Rightarrow>
            let toon = serializeToTOONData showv data in
            scan_loop unm showv (take i content @ toon @ drop e content) (i + length toon)
              (Some (i + length toon)) True)"
  by pat_completeness auto
termination
  by (relation "measure (\<lambda>(_, _, content, i, _, _). length content - i)")
    (auto split: if_splits dest!: array_at_bounds)

declare scan_loop.simps [simp del]

definition scanUnfencedArrays ::
  "(string \<Rightarrow> fields list option) \<Rightarrow> (jval \<Rightarrow> string) \<Rightarrow> string \<Rightarrow> bool \<Rightarrow> string \<times> bool" where
  "scanUnfencedArrays unm showv content did = scan_loop unm showv content 0 None did"

section \<open>The passes over one message\<close>

text \<open>The fenced blocks: each match is its text and the text of its array.\<close>

fun fenced_loop ::
  "(string \<Rightarrow> fields list option) \<Rightarrow> (jval \<Rightarrow> string) \<Rightarrow> string \<Rightarrow> (string \<times> string) list \<Rightarrow> bool \<Rightarrow> string \<times> bool" where
  "fenced_loop unm showv content [] fenced = (content, fenced)"
| "fenced_loop unm showv content ((full, arr) # ms) fenced =
     (case SerializeToTOON unm showv arr of
        None \<Rightarrow> fenced_loop unm showv content ms fenced
      | Some toon \<Rightarrow>
          fenced_loop unm showv
            (replace_first content full (''```text'' @ [CHR 0x0A] @ toon @ ''```'')) ms True)"

text \<open>A slice expression of Go.\<close>

definition go_slice :: "string \<Rightarrow> nat \<Rightarrow> nat \<Rightarrow> string option" where
  "go_slice s a b = (if a \<le> b \<and> b \<le> length s then Some (take (b - a) (drop a s)) else None)"

text \<open>The nested arrays: the ranges were found in the content as it was before the loop.\<close>

definition nested_replacement :: "string \<Rightarrow> nat \<Rightarrow> string \<Rightarrow> string" where
  "nested_replacement full colonIdx toon = take (colonIdx + 1) full @ '' '' @ TrimSpace toon"

definition nested_replace :: "string \<Rightarrow> nat \<Rightarrow> string \<Rightarrow> string \<Rightarrow> string" where
  "nested_replace content m0 full replacement =
     (if 0 < m0 \<and> content ! (m0 - 1) = CHR ''{''
      then replace_first content (CHR ''{'' # full) (CHR ''{'' # replacement)
      else replace_first content full replacement)"

fun nested_loop ::
  "(string \<Rightarrow> fields list option) \<Rightarrow> (jval \<Rightarrow> string) \<Rightarrow> string \<Rightarrow> (nat \<times> nat \<times> nat \<times> nat) list \<Rightarrow> bool \<Rightarrow> (string \<times> bool) option" where
  "nested_loop unm showv content [] nested = Some (content, nested)"
| "nested_loop unm showv content ((m0, m1, m2, m3) # ms) nested =
     (case go_slice content m0 m1 of
        None \<Rightarrow> None
      | Some full \<Rightarrow>
     (case go_slice content m2 m3 of
        None \<Rightarrow> None
      | Some arr \<Rightarrow>
     (case SerializeToTOON unm showv arr of
        None \<Rightarrow> nested_loop unm showv content ms nested
      | Some toon \<Rightarrow>
     (case StrIndex full '':'' of
        None \<Rightarrow> nested_loop unm showv content ms nested
      | Some colonIdx \<Rightarrow>
          nested_loop unm showv
            (nested_replace content m0 full (nested_replacement full colonIdx toon)) ms True))))"

datatype compression_method =
  CompressionMethodFenced | CompressionMethodNested | CompressionMethodUnfenced | CompressionMethodNone

record toon_env =
  te_unm :: "string \<Rightarrow> fields list option"
  te_showv :: "jval \<Rightarrow> string"
  te_fenced :: "string \<Rightarrow> (string \<times> string) list"
  te_nested :: "string \<Rightarrow> (nat \<times> nat \<times> nat \<times> nat) list"

text \<open>One message; the three flags are those of the whole call.\<close>

definition compress_message ::
  "toon_env \<Rightarrow> bool \<Rightarrow> jval \<Rightarrow> bool \<times> bool \<times> bool \<Rightarrow> (jval \<times> bool \<times> bool \<times> bool) option" where
  "compress_message E unfenced m flags =
     (if \<not> is_map m \<or> role_of m \<notin> {''user'', ''assistant''} then Some (m, flags)
      else
        case flags of (fenced, nested, did) \<Rightarrow>
        case fenced_loop (te_unm E) (te_showv E) (content_of m) (te_fenced E (content_of m)) fenced of (content, fenced) \<Rightarrow>
        case nested_loop (te_unm E) (te_showv E) content (te_nested E content) nested of
          None \<Rightarrow> None
        | Some (content, nested) \<Rightarrow>
            case (if unfenced then scanUnfencedArrays (te_unm E) (te_showv E) content did else (content, did)) of
              (content, did) \<Rightarrow>
                Some (if fenced \<or> nested \<or> did then set_content content m else m, fenced, nested, did))"

fun compress_loop ::
  "toon_env \<Rightarrow> bool \<Rightarrow> jval list \<Rightarrow> bool \<times> bool \<times> bool \<Rightarrow> (jval list \<times> bool \<times> bool \<times> bool) option" where
  "compress_loop E unfenced [] flags = Some ([], flags)"
| "compress_loop E unfenced (m # ms) flags =
     (case compress_message E unfenced m flags of
        None \<Rightarrow> None
      | Some (m, flags) \<Rightarrow> map_option (\<lambda>(ms, flags). (m # ms, flags)) (compress_loop E unfenced ms flags))"

definition compression_of :: "bool \<times> bool \<times> bool \<Rightarrow> compression_method" where
  "compression_of flags =
     (case flags of (fenced, nested, did) \<Rightarrow>
        if fenced then CompressionMethodFenced
        else if nested then CompressionMethodNested
        else if did then CompressionMethodUnfenced
        else CompressionMethodNone)"

definition CompressJSONBlocks :: "toon_env \<Rightarrow> jval list \<Rightarrow> bool \<Rightarrow> (jval list \<times> compression_method) option" where
  "CompressJSONBlocks E messages unfenced =
     map_option (\<lambda>(ms, flags). (ms, compression_of flags)) (compress_loop E unfenced messages (False, False, False))"

text \<open>\<open>-1\<close> is \<open>None\<close>.\<close>

fun LatestSystemIndex :: "jval list \<Rightarrow> nat option" where
  "LatestSystemIndex [] = None"
| "LatestSystemIndex (m # ms) =
     (if is_map m \<and> role_of m = ''system'' then Some 0 else map_option Suc (LatestSystemIndex ms))"

section \<open>The scanner on a JSON text\<close>

lemma array_end_quoted:
  "list_all q_ok qs \<Longrightarrow>
   array_end_loop (concat (map q_text qs) @ CHR 0x22 # rest) i d True
     = array_end_loop rest (i + length (concat (map q_text qs)) + 1) d False"
proof (induction qs arbitrary: i)
  case (Cons q qs)
  then show ?case by (cases q) (simp_all add: Cons.IH)
qed simp

definition skips :: "jtext \<Rightarrow> bool" where
  "skips t \<longleftrightarrow> (\<forall>rest i d. 0 < d \<longrightarrow>
     array_end_loop (t_text t @ rest) i d False = array_end_loop rest (i + length (t_text t)) d False)"

lemma skips_list:
  "\<forall>t\<in>set ts. skips t \<Longrightarrow> 0 < d \<Longrightarrow>
     array_end_loop (concat (map t_text ts) @ rest) i d False
       = array_end_loop rest (i + length (concat (map t_text ts))) d False"
  by (induction ts arbitrary: i) (simp_all add: skips_def ac_simps)

lemma skips_text: "t_ok t \<Longrightarrow> skips t"
proof (induction t)
  case (Plain c)
  then show ?case by (simp add: skips_def)
next
  case (Quoted qs)
  then show ?case by (simp add: skips_def array_end_quoted)
next
  case (Group b ts)
  then have ts: "\<forall>t\<in>set ts. skips t" by (simp add: list_all_iff)
  show ?case unfolding skips_def
  proof (intro allI impI)
    fix rest i and d :: nat
    assume "0 < d"
    with skips_list [OF ts, of "Suc d"]
    show "array_end_loop (t_text (Group b ts) @ rest) i d False
        = array_end_loop rest (i + length (t_text (Group b ts))) d False"
      by simp
  qed
qed

section \<open>Lemmas on tables\<close>

lemma SplitOn_lines:
  "\<forall>x\<in>set xs. sep \<notin> set (f x) \<Longrightarrow> SplitOn sep (concat (map (\<lambda>x. f x @ [sep]) xs)) = map f xs @ [[]]"
  by (induction xs) (simp_all add: SplitOn_append)

lemma SplitOn_Join:
  "xs \<noteq> [] \<Longrightarrow> \<forall>x\<in>set xs. sep \<notin> set x \<Longrightarrow> SplitOn sep (Join [sep] xs) = xs"
proof (induction xs)
  case (Cons x xs)
  show ?case
  proof (cases xs)
    case Nil
    with Cons.prems show ?thesis by (simp add: Join_def SplitOn_no_sep)
  next
    case (Cons y ys)
    then have "Join [sep] (x # xs) = x @ sep # Join [sep] xs" by (simp add: Join_def)
    with Cons.IH Cons.prems Cons show ?thesis by (simp add: SplitOn_append)
  qed
qed simp

lemma set_replace_byte: "set (replace_byte c new s) \<subseteq> (set s - {c}) \<union> set new"
  by (auto simp: replace_byte_def split: if_splits)

lemma cell_clean: "CHR '','' \<notin> set (cell showv item k)" "CHR 0x0A \<notin> set (cell showv item k)"
  using set_replace_byte [of "CHR 0x0A" "'' ''"] set_replace_byte [of "CHR '',''" wide_comma]
  unfolding cell_def by (fastforce simp: wide_comma_def)+

lemma table_row_line: "CHR 0x0A \<notin> set (table_row showv keys item)"
  using set_Join [of "'',''" "map (cell showv item) keys"] cell_clean(2) [of showv item]
  by (auto simp: table_row_def)

lemma table_header_line:
  assumes "\<forall>k\<in>set keys. CHR 0x0A \<notin> set k"
  shows "CHR 0x0A \<notin> set (table_header n keys)"
  using set_Join [of "'',''" keys] decimal_line [of n] assms by (auto simp: table_header_def)

section \<open>Properties\<close>

text \<open>
  The end of an array is found exactly. Whatever stands before and after it, for every text of a JSON
  array, with objects and arrays nested to any depth, strings that hold brackets and escaped quotes,
  the scanner returns the position just after the bracket that closes it.
\<close>

theorem find_array_end_exact:
  assumes "list_all t_ok ts"
  shows "findArrayEnd (pre @ t_text (Group False ts) @ post) (length pre)
       = Some (length pre + length (t_text (Group False ts)))"
proof -
  have "\<forall>t\<in>set ts. skips t" using assms skips_text by (simp add: list_all_iff)
  from skips_list [OF this, of 1] show ?thesis by (simp add: findArrayEnd_def)
qed

theorem find_array_end_exact_witness:
  "findArrayEnd ''a [\"]\"] b'' 2 = Some 7"
  using find_array_end_exact [of "[Quoted [QChar (CHR '']'')]]" "''a ''" "'' b''"] by (simp add: eval_nat_numeral)

text \<open>
  C38: A table can be read back. Cut at its newlines, the text of a table is its header, one row per
  object in order and nothing else; and each row, without its indentation and cut at its commas, is
  exactly the list of the cells of the columns of the first object. (What a cell keeps of a value is
  its printed form with commas widened and newlines blanked.)
\<close>

theorem toon_table_roundtrip:
  assumes "data \<noteq> []" "hd data \<noteq> []" "\<forall>k\<in>fst ` set (hd data). CHR 0x0A \<notin> set k"
  shows "SplitOn (CHR 0x0A) (serializeToTOONData showv data)
           = table_header (length data) (table_keys data) # map (table_row showv (table_keys data)) data @ [[]]
    \<and> (\<forall>item. SplitOn (CHR '','') (drop 2 (table_row showv (table_keys data) item))
           = map (cell showv item) (table_keys data))
    \<and> set (table_keys data) = fst ` set (hd data) \<and> sorted (table_keys data)"
proof -
  have keys: "set (table_keys data) = fst ` set (hd data)" "sorted (table_keys data)"
    using assms(1) by (cases data; simp add: table_keys_def)+
  then have ne: "table_keys data \<noteq> []" using assms(2) by auto
  have "SplitOn (CHR 0x0A) (serializeToTOONData showv data)
      = table_header (length data) (table_keys data) # map (table_row showv (table_keys data)) data @ [[]]"
    using assms(1,3) keys
    by (simp add: serializeToTOONData_def Let_def SplitOn_append table_header_line SplitOn_lines table_row_line)
  moreover have "SplitOn (CHR '','') (drop 2 (table_row showv (table_keys data) item))
      = map (cell showv item) (table_keys data)" for item
    using ne cell_clean(1) by (simp add: table_row_def SplitOn_Join)
  ultimately show ?thesis using keys by blast
qed

theorem toon_table_roundtrip_witness:
  "SplitOn (CHR 0x0A) (serializeToTOONData (\<lambda>_. ''v,w'') [[(''b'', JNull), (''a'', JNull)], []])
     = table_header 2 [''a'', ''b''] # map (table_row (\<lambda>_. ''v,w'') [''a'', ''b'']) [[(''b'', JNull), (''a'', JNull)], []] @ [[]]"
  using toon_table_roundtrip [of "[[(''b'', JNull), (''a'', JNull)], []]" "\<lambda>_. ''v,w''"]
  by (simp add: table_keys_def list_less_def eval_nat_numeral)

section \<open>What the passes can destroy\<close>

lemma compress_loop_append:
  "compress_loop E u (ms @ ns) flags =
     (case compress_loop E u ms flags of
        None \<Rightarrow> None
      | Some (ms', flags') \<Rightarrow> map_option (\<lambda>(ns', f). (ms' @ ns', f)) (compress_loop E u ns flags'))"
  by (induction ms arbitrary: flags)
    (auto simp: option.map_comp comp_def option.map_id split: option.splits prod.splits intro!: map_option_cong)

lemma scan_empty: "scanUnfencedArrays unm showv [] did = ([], did)"
  by (simp add: scanUnfencedArrays_def scan_loop.simps)

lemma map_of_set_field: "map_of (set_field fs k v) j = (if j = k then Some v else map_of fs j)"
proof -
  have "map_of (map (\<lambda>p. if fst p = k then (k, v) else p) fs) j =
      (if j = k then (if k \<in> fst ` set fs then Some v else None) else map_of fs j)"
    by (induction fs) (auto simp: rev_image_eqI)
  moreover have "map_of (fs @ [(k, v)]) j = (if j = k then Some v else map_of fs j)" if "k \<notin> fst ` set fs"
  proof -
    have "map_of fs k = None" using that by (simp add: map_of_eq_None_iff)
    then show ?thesis by (simp add: map_add_def split: option.splits)
  qed
  ultimately show ?thesis by (cases "k \<in> fst ` set fs"; cases "j = k"; simp add: set_field_def)
qed

lemma length_replace_first: "Contains s t \<Longrightarrow> length (replace_first s t r) + length t = length s + length r"
  using StrIndex_Some by (fastforce simp: replace_first_def Contains_def)

lemma slice_Contains:
  assumes "go_slice s a b = Some t"
  shows "Contains s t" "length t = b - a" "b \<le> length s"
proof -
  have t: "t = take (b - a) (drop a s)" "a \<le> b" "b \<le> length s" using assms by (auto simp: go_slice_def split: if_splits)
  then have "s = take a s @ t @ drop b s" by (metis append_take_drop_id drop_drop le_add_diff_inverse2)
  then show "Contains s t" by (metis Contains_append)
  show "length t = b - a" "b \<le> length s" using t by auto
qed

text \<open>With the opening brace in front, the text to replace is still in the content.\<close>

lemma slice_brace:
  assumes "go_slice s a b = Some t" "0 < a" "s ! (a - 1) = c"
  shows "Contains s (c # t)"
proof -
  have t: "t = take (b - a) (drop a s)" "a \<le> b" "b \<le> length s" using assms by (auto simp: go_slice_def split: if_splits)
  show ?thesis
  proof (cases "a = length s")
    case True
    with t have "t = []" by simp
    moreover have "s = take (a - 1) s @ [c] @ []"
      using True assms(2,3) by (metis Cons_nth_drop_Suc Suc_pred' append_Nil2 append_take_drop_id diff_less drop_all le_refl less_numeral_extra(1) append_Cons append_Nil)
    ultimately show ?thesis by (metis Contains_append)
  next
    case False
    with t assms(2) have "a - 1 < length s" by simp
    then have "drop (a - 1) s = c # drop a s"
      using assms(2,3) Cons_nth_drop_Suc [of "a - 1" s] by simp
    then have "go_slice s (a - 1) b = Some (c # t)"
      using t assms(2) by (simp add: go_slice_def Suc_diff_le)
    then show ?thesis by (rule slice_Contains)
  qed
qed

lemma length_nested_replace:
  assumes "go_slice s a b = Some full"
  shows "length (nested_replace s a full r) + length full = length s + length r"
  using length_replace_first [OF slice_Contains(1) [OF assms], of r]
    length_replace_first [OF slice_brace [OF assms, of "CHR ''{''"], of "CHR ''{'' # r"]
  by (auto simp: nested_replace_def)

text \<open>
  Two nested arrays can crash the request. The ranges of all matches are computed before the first
  replacement and used after it. When the first table is shorter than the text it replaces by more
  than what follows the second match, the second slice is out of range: compressing the message
  panics, whatever the second match holds.
\<close>

theorem nested_pass_panics:
  assumes "is_map m" "role_of m \<in> {''user'', ''assistant''}" "te_fenced E (content_of m) = []"
    and "te_nested E (content_of m) = [(m0, m1, m2, m3), (n0, n1, n2, n3)]"
    and "go_slice (content_of m) m0 m1 = Some full" "go_slice (content_of m) m2 m3 = Some arr"
    and "SerializeToTOON (te_unm E) (te_showv E) arr = Some toon" "StrIndex full '':'' = Some colonIdx"
    and "length (content_of m) + length (nested_replacement full colonIdx toon) < n1 + length full"
  shows "CompressJSONBlocks E (m # after) unfenced = None"
proof -
  let ?s = "nested_replace (content_of m) m0 full (nested_replacement full colonIdx toon)"
  have "length ?s < n1" using length_nested_replace [OF assms(5)] assms(9) by (metis add_less_cancel_right)
  then have "go_slice ?s n0 n1 = None" by (simp add: go_slice_def)
  then show ?thesis
    using assms(1-8) by (simp add: CompressJSONBlocks_def compress_message_def)
qed

text \<open>
  A message with parts loses them. Once an earlier message of the request has been compressed, every
  later user or assistant message is written back; one whose content is a list of parts (text and
  images) was read as the empty string, so its content becomes the empty string.
\<close>

theorem compress_erases_parts:
  assumes "te_fenced E [] = []" "te_nested E [] = []"
    and "compress_loop E unfenced before (False, False, False) = Some (before', flags)"
    and "compression_of flags \<noteq> CompressionMethodNone"
    and "role_of (JObj fs) \<in> {''user'', ''assistant''}" "map_of fs ''content'' = Some (JArr parts)"
  shows "\<exists>fs'. CompressJSONBlocks E (before @ [JObj fs]) unfenced = Some (before' @ [JObj fs'], compression_of flags)
    \<and> map_of fs' ''content'' = Some (JStr [])"
proof -
  obtain f n d where flags: "flags = (f, n, d)" by (cases flags)
  have "content_of (JObj fs) = []" using assms(6) by (simp add: content_of_def str_field_def)
  moreover have "f \<or> n \<or> d" using assms(4) flags by (auto simp: compression_of_def split: if_splits)
  ultimately have "compress_message E unfenced (JObj fs) flags =
      Some (JObj (set_field fs ''content'' (JStr [])), f, n, d)"
    using assms(1,2,5) flags by (simp add: compress_message_def is_map_def scan_empty set_content_def)
  then show ?thesis
    using assms(3) flags by (simp add: CompressJSONBlocks_def compress_loop_append map_of_set_field)
qed

section \<open>Two concrete requests\<close>

text \<open>
  A library that decodes every array to the same rows and finds the matches the expressions find in
  the two texts below.
\<close>

definition row_of :: "string \<Rightarrow> fields" where "row_of s = [(''a'', JNum s)]"

definition demo_nested :: string where
  "demo_nested = ''{\"files\":[{\"a\":1},{\"a\":2},{\"a\":3},{\"a\":4}],\"data\":[{\"a\":1},{\"a\":2}]}''"

definition demo_fenced :: string where "demo_fenced = ''```json[{\"a\":1},{\"a\":2}]```''"

definition demo_env :: toon_env where
  "demo_env = \<lparr>
     te_unm = (\<lambda>_. Some [row_of ''1'', row_of ''2'', row_of ''3'', row_of ''4'']),
     te_showv = (\<lambda>v. case v of JNum s \<Rightarrow> s | _ \<Rightarrow> ''<nil>''),
     te_fenced = (\<lambda>s. if s = demo_fenced then [(demo_fenced, ''[{\"a\":1},{\"a\":2}]'')] else []),
     te_nested = (\<lambda>s. if s = demo_nested then [(1, 42, 9, 42), (43, 67, 50, 67)] else [])\<rparr>"

definition user_message :: "jval \<Rightarrow> jval" where
  "user_message v = JObj [(''role'', JStr ''user''), (''content'', v)]"

lemma user_message_simps [simp]:
  "is_map (user_message v)" "role_of (user_message v) = ''user''"
  "content_of (user_message (JStr s)) = s" "content_of (user_message (JArr vs)) = []"
  by (simp_all add: user_message_def is_map_def role_of_def content_of_def str_field_def)

lemma demo_first:
  "go_slice demo_nested 1 42 = Some ''\"files\":[{\"a\":1},{\"a\":2},{\"a\":3},{\"a\":4}]''"
  "go_slice demo_nested 9 42 = Some ''[{\"a\":1},{\"a\":2},{\"a\":3},{\"a\":4}]''"
  "go_slice demo_nested 43 67 = Some ''\"data\":[{\"a\":1},{\"a\":2}]''"
  by (simp_all add: go_slice_def demo_nested_def)

lemma demo_table:
  "SerializeToTOON (te_unm demo_env) (te_showv demo_env) s =
     Some (''items[4]{a}:'' @ [CHR 0x0A] @ ''  1'' @ [CHR 0x0A] @ ''  2'' @ [CHR 0x0A] @ ''  3'' @ [CHR 0x0A] @ ''  4'' @ [CHR 0x0A])"
  by code_simp

lemma demo_matches:
  "te_fenced demo_env demo_nested = []" "te_nested demo_env demo_nested = [(1, 42, 9, 42), (43, 67, 50, 67)]"
  "te_fenced demo_env demo_fenced = [(demo_fenced, ''[{\"a\":1},{\"a\":2}]'')]"
  "te_fenced demo_env [] = []" "te_nested demo_env [] = []"
  by (simp_all add: demo_env_def demo_nested_def demo_fenced_def)

theorem nested_pass_panics_witness:
  "CompressJSONBlocks demo_env [user_message (JStr demo_nested)] False = None"
proof -
  have "StrIndex ''\"files\":[{\"a\":1},{\"a\":2},{\"a\":3},{\"a\":4}]'' '':'' = Some 7" by simp
  then show ?thesis
    using nested_pass_panics [OF _ _ _ _ _ _ demo_table, of "user_message (JStr demo_nested)"]
      demo_first demo_matches
    by (simp add: nested_replacement_def demo_nested_def TrimSpace_def TrimLeft_def TrimRight_def is_space_def)
qed

theorem compress_erases_parts_witness:
  "\<exists>fs' before'. CompressJSONBlocks demo_env [user_message (JStr demo_fenced), user_message (JArr [JStr ''image''])] False
       = Some (before' @ [JObj fs'], CompressionMethodFenced)
    \<and> map_of fs' ''content'' = Some (JStr [])"
proof -
  have "te_nested demo_env s = []" if "s \<noteq> demo_nested" for s using that by (simp add: demo_env_def)
  moreover have "fst (fenced_loop (te_unm demo_env) (te_showv demo_env) demo_fenced
      [(demo_fenced, ''[{\"a\":1},{\"a\":2}]'')] False) \<noteq> demo_nested"
    by code_simp
  moreover have "snd (fenced_loop (te_unm demo_env) (te_showv demo_env) demo_fenced
      [(demo_fenced, ''[{\"a\":1},{\"a\":2}]'')] False)"
    by code_simp
  ultimately have "\<exists>before'. compress_loop demo_env False [user_message (JStr demo_fenced)] (False, False, False)
      = Some (before', True, False, False)"
    by (auto simp: compress_message_def demo_matches split: prod.splits)
  then show ?thesis
    using compress_erases_parts [of demo_env False "[user_message (JStr demo_fenced)]" _ "(True, False, False)"
        "[(''role'', JStr ''user''), (''content'', JArr [JStr ''image''])]" "[JStr ''image'']"]
    by (auto simp: demo_matches compression_of_def user_message_def role_of_def str_field_def)
qed

end
