(* ===== verification/Dsl.thy ===== *)
theory Dsl
  imports GoStrings
begin

text \<open>
  \<open>internal/router/dsl.go\<close> and \<open>confidence.go\<close>: the size guardrail, the keyword fast-pass and the task
  categories. A compiled pattern is a predicate on strings. The default patterns are any_keyword between
  word boundaries, which is defined here; the script classes Han and Arabic and the token
  count are parameters. A route is its string, "" for no route.
\<close>

section \<open>Keywords between word boundaries\<close>

definition word_char :: "char \<Rightarrow> bool" where
  "word_char c \<longleftrightarrow> (let n = of_char c :: nat in
     48 \<le> n \<and> n \<le> 57 \<or> 65 \<le> n \<and> n \<le> 90 \<or> n = 95 \<or> 97 \<le> n \<and> n \<le> 122)"

text \<open>The word boundary of a pattern at a position: exactly one of the bytes around it belongs to a word.\<close>

definition boundary :: "char option \<Rightarrow> char option \<Rightarrow> bool" where
  "boundary a b \<longleftrightarrow> (case a of None \<Rightarrow> False | Some c \<Rightarrow> word_char c) \<noteq> (case b of None \<Rightarrow> False | Some c \<Rightarrow> word_char c)"

definition head :: "string \<Rightarrow> char option" where
  "head s = (case s of [] \<Rightarrow> None | c # _ \<Rightarrow> Some c)"

definition last_of :: "string \<Rightarrow> char option \<Rightarrow> char option" where
  "last_of kw prev = (if kw = [] then prev else Some (last kw))"

definition match_here :: "string \<Rightarrow> char option \<Rightarrow> string \<Rightarrow> bool" where
  "match_here kw prev s \<longleftrightarrow> HasPrefix s kw \<and> boundary prev (head s)
     \<and> boundary (last_of kw prev) (head (drop (length kw) s))"

fun match_from :: "string \<Rightarrow> char option \<Rightarrow> string \<Rightarrow> bool" where
  "match_from kw prev [] = match_here kw prev []"
| "match_from kw prev (c # cs) = (match_here kw prev (c # cs) \<or> match_from kw (Some c) cs)"

text \<open>A keyword between two boundaries matches somewhere in the string; an alternative matches when one of them does.\<close>

definition word_match :: "string \<Rightarrow> string \<Rightarrow> bool" where
  "word_match kw s = match_from kw None s"

type_synonym pattern = "string \<Rightarrow> bool"

definition any_keyword :: "string list \<Rightarrow> pattern" where
  "any_keyword kws = (\<lambda>s. list_ex (\<lambda>kw. word_match kw s) kws)"

section \<open>The fast-pass\<close>

type_synonym route = string

definition RouteLocal :: route where "RouteLocal = ''local''"
definition RouteFrontier :: route where "RouteFrontier = ''frontier''"
definition RouteFusion :: route where "RouteFusion = ''fusion''"

definition DefaultFormattingPatterns :: "pattern list" where
  "DefaultFormattingPatterns = [any_keyword
     [''css'', ''format'', ''docstring'', ''lint'', ''typo'', ''boilerplate'', ''debug'', ''fix bug'', ''git commit'',
      ''sql query'', ''parse json'', ''validate input'', ''regex'', ''api endpoint'', ''test'', ''optimize'', ''readme'']]"

definition DefaultFusionPatterns :: "pattern list" where
  "DefaultFusionPatterns = [any_keyword [''architectural design'', ''system architecture'']]"

definition DefaultLocalPatterns :: "pattern list" where
  "DefaultLocalPatterns = [any_keyword
     [''refactor'', ''security scan'', ''generate tests'', ''explain this code'', ''performance analysis'']]"

definition Guardrail :: "(string \<Rightarrow> int) \<Rightarrow> string \<Rightarrow> int \<Rightarrow> route option" where
  "Guardrail count prompt maxTokens =
     (if maxTokens \<le> 0 then None
      else if maxTokens < count prompt then Some RouteFrontier
      else None)"

definition DSL :: "string \<Rightarrow> pattern list \<Rightarrow> pattern list \<Rightarrow> pattern list \<Rightarrow> pattern list \<Rightarrow> (route \<times> string) option" where
  "DSL prompt fusion formatting localp unicode =
     (let l = ToLower prompt in
      if list_ex (\<lambda>re. re l) fusion then Some (RouteFusion, ''fusion'')
      else if list_ex (\<lambda>re. re l) formatting then Some (RouteLocal, ''formatting'')
      else if list_ex (\<lambda>re. re l) localp then Some (RouteLocal, ''local'')
      else if list_ex (\<lambda>re. re prompt) unicode then Some (RouteLocal, ''unicode'')
      else None)"

section \<open>Categories\<close>

definition CategoryOther :: string where "CategoryOther = ''other''"

definition categoryKeywords :: "(string \<times> string list) list" where
  "categoryKeywords = [
     (''architecture'', [
      ''architecture'', ''architectural'', ''system design'', ''design pattern'', ''microservice'',
      ''scalability'', ''distributed system'', ''high-level design'']),
     (''debugging'', [
      ''debug'', ''bug'', ''stack trace'', ''stacktrace'', ''traceback'', ''exception'', ''panic'',
      ''segfault'', ''crash'', ''error message'', ''why does'', ''not working'', ''fails'', ''failing'',
      ''broken'']),
     (''css'', [
      ''css'', ''tailwind'', ''flexbox'', ''stylesheet'', ''styling'', ''responsive'', ''media query'',
      ''padding'', ''margin'', ''layout'', ''scss'', ''sass'']),
     (''testing'', [
      ''test'', ''unit test'', ''integration test'', ''unit-test'', ''integration-test'',
      ''generate tests'', ''test case'', ''mock'', ''fixture'', ''coverage'', ''benchmark'', ''assert'',
      ''pytest'', ''jest'']),
     (''security'', [
      ''security scan'', ''vulnerability'', ''injection'', ''xss'', ''csrf'', ''sanitize'',
      ''auth check'', ''owasp'', ''cve'', ''exploit'', ''pen test'', ''sast'', ''hardening'']),
     (''data'', [
      ''sql query'', ''database'', ''migration'', ''schema'', ''query optimization'', ''parse json'',
      ''data model'', ''etl'', ''analytics'', ''pipeline'']),
     (''refactoring'', [
      ''refactor'', ''re-factor'', ''re-factoring'', ''restructure'', ''extract method'', ''rename'',
      ''clean up'', ''cleanup'', ''simplify'', ''deduplicate'', ''move method'', ''reorganize'']),
     (''boilerplate'', [
      ''boilerplate'', ''scaffold'', ''template'', ''getter'', ''setter'', ''crud'', ''skeleton'',
      ''stub'', ''starter'']),
     (''documentation'', [
      ''docstring'', ''documentation'', ''document '', ''readme'', ''comment'', ''explain'',
      ''javadoc'', ''godoc'', ''changelog'']),
     (''devops'', [
      ''kubernetes'', ''k8s'', ''docker'', ''dockerfile'', ''container'', ''ci/cd'', ''github action'',
      ''gitlab ci'', ''jenkins'', ''helm'', ''terraform'', ''ansible'', ''puppet'', ''chef'', ''vault'',
      ''argocd'', ''flux'', ''istio'', ''envoy'', ''ingress'', ''service mesh'', ''deploy'',
      ''deployment'', ''rollback'', ''canary'', ''blue-green'']),
     (''conversation'', [
      ''continue'', ''keep going'', ''same topic'', ''follow up'', ''previous'', ''earlier'',
      ''as before'', ''still on'', ''building on'', ''extending''])]"

text \<open>The compiled table: one pattern per keyword, in the order of the groups.\<close>

definition categoryPatterns :: "(string \<times> string) list" where
  "categoryPatterns = concat (map (\<lambda>(c, kws). map (\<lambda>kw. (c, kw)) kws) categoryKeywords)"

definition Categorize :: "string \<Rightarrow> string" where
  "Categorize prompt =
     (case List.find (\<lambda>(c, kw). word_match kw (ToLower prompt)) categoryPatterns of
        Some (c, kw) \<Rightarrow> c
      | None \<Rightarrow> CategoryOther)"

section \<open>Lemmas\<close>

text \<open>A match, stated on the text: the keyword with a boundary on each side.\<close>

lemma match_from_iff:
  "match_from kw prev s \<longleftrightarrow> (\<exists>a b. s = a @ kw @ b \<and> boundary (last_of a prev) (head (kw @ b))
     \<and> boundary (last_of kw (last_of a prev)) (head b))"
proof (induction s arbitrary: prev)
  case Nil
  then show ?case by (auto simp: match_here_def last_of_def HasPrefix_iff)
next
  case (Cons c cs)
  have here: "match_here kw prev (c # cs) \<longleftrightarrow> (\<exists>b. c # cs = kw @ b \<and> boundary prev (head (kw @ b))
      \<and> boundary (last_of kw prev) (head b))"
    by (auto simp: match_here_def HasPrefix_iff)
  show ?case
  proof
    assume "match_from kw prev (c # cs)"
    then consider "match_here kw prev (c # cs)" | "match_from kw (Some c) cs" by auto
    then show "\<exists>a b. c # cs = a @ kw @ b \<and> boundary (last_of a prev) (head (kw @ b))
        \<and> boundary (last_of kw (last_of a prev)) (head b)"
    proof cases
      case 1
      with here obtain b where "c # cs = [] @ kw @ b" "boundary (last_of [] prev) (head (kw @ b))"
          "boundary (last_of kw (last_of [] prev)) (head b)"
        by (auto simp: last_of_def)
      then show ?thesis by blast
    next
      case 2
      with Cons.IH obtain a b where "cs = a @ kw @ b" "boundary (last_of a (Some c)) (head (kw @ b))"
          "boundary (last_of kw (last_of a (Some c))) (head b)"
        by blast
      moreover have "last_of (c # a) prev = last_of a (Some c)" by (simp add: last_of_def)
      ultimately have "c # cs = (c # a) @ kw @ b \<and> boundary (last_of (c # a) prev) (head (kw @ b))
          \<and> boundary (last_of kw (last_of (c # a) prev)) (head b)"
        by simp
      then show ?thesis by blast
    qed
  next
    assume "\<exists>a b. c # cs = a @ kw @ b \<and> boundary (last_of a prev) (head (kw @ b))
        \<and> boundary (last_of kw (last_of a prev)) (head b)"
    then obtain a b where ab: "c # cs = a @ kw @ b" "boundary (last_of a prev) (head (kw @ b))"
        "boundary (last_of kw (last_of a prev)) (head b)"
      by blast
    show "match_from kw prev (c # cs)"
    proof (cases a)
      case Nil
      with ab have "match_here kw prev (c # cs)" unfolding here by (auto simp: last_of_def)
      then show ?thesis by simp
    next
      case (Cons d a')
      then have "last_of a prev = last_of a' (Some c)" "cs = a' @ kw @ b"
        using ab(1) by (auto simp: last_of_def)
      with ab Cons.IH show ?thesis by auto
    qed
  qed
qed

lemma word_match_iff:
  "word_match kw s \<longleftrightarrow> (\<exists>a b. s = a @ kw @ b \<and> boundary (last_of a None) (head (kw @ b))
     \<and> boundary (last_of kw (last_of a None)) (head b))"
  by (simp add: word_match_def match_from_iff)

lemma DSL_routes: "DSL p fu fo lo un = Some (r, why) \<Longrightarrow> r \<in> {RouteLocal, RouteFusion}"
  by (auto simp: DSL_def Let_def split: if_splits)

lemma routes_distinct [simp]:
  "RouteLocal \<noteq> RouteFrontier" "RouteLocal \<noteq> RouteFusion" "RouteFrontier \<noteq> RouteFusion"
  "RouteFrontier \<noteq> RouteLocal" "RouteFusion \<noteq> RouteLocal" "RouteFusion \<noteq> RouteFrontier"
  by (simp_all add: RouteLocal_def RouteFrontier_def RouteFusion_def)

end
