(* ===== verification/GoSort.thy ===== *)
theory GoSort
  imports Prelude "HOL-Library.Multiset"
begin

text \<open>
  \<open>sort.SliceStable\<close>: the list is sorted by a comparison function and equal elements keep their order.
  For a strict weak order the result is determined; an insertion sort computes it.
\<close>

fun insert_by :: "('a \<Rightarrow> 'a \<Rightarrow> bool) \<Rightarrow> 'a \<Rightarrow> 'a list \<Rightarrow> 'a list" where
  "insert_by lt x [] = [x]"
| "insert_by lt x (y # ys) = (if lt y x then y # insert_by lt x ys else x # y # ys)"

definition sort_stable :: "('a \<Rightarrow> 'a \<Rightarrow> bool) \<Rightarrow> 'a list \<Rightarrow> 'a list" where
  "sort_stable lt xs = foldr (insert_by lt) xs []"

text \<open>What a comparison function has to satisfy.\<close>

locale strict_weak =
  fixes lt :: "'a \<Rightarrow> 'a \<Rightarrow> bool"
  assumes asym: "lt x y \<Longrightarrow> \<not> lt y x"
    and negtrans: "lt x z \<Longrightarrow> lt x y \<or> lt y z"
begin

lemma le_trans: "\<not> lt y x \<Longrightarrow> \<not> lt z y \<Longrightarrow> \<not> lt z x"
  using negtrans by blast

lemma insert_by_sorted:
  "sorted_wrt (\<lambda>a b. \<not> lt b a) ys \<Longrightarrow> sorted_wrt (\<lambda>a b. \<not> lt b a) (insert_by lt x ys)"
proof (induction ys)
  case (Cons y ys)
  have set: "set (insert_by lt x ys) = insert x (set ys)" for x ys
    by (induction ys) auto
  show ?case
  proof (cases "lt y x")
    case True
    with Cons asym show ?thesis by (auto simp: set)
  next
    case False
    with Cons.prems le_trans show ?thesis by auto
  qed
qed simp

lemma sort_stable_sorted: "sorted_wrt (\<lambda>a b. \<not> lt b a) (sort_stable lt xs)"
  unfolding sort_stable_def by (induction xs) (simp_all add: insert_by_sorted)

text \<open>The first element of a sorted list is not after any other.\<close>

lemma hd_minimal:
  assumes "sort_stable lt xs = y # ys" "x \<in> set (y # ys)"
  shows "\<not> lt x y"
  using assms sort_stable_sorted [of xs] asym by auto

end

lemma set_insert_by [simp]: "set (insert_by lt x ys) = insert x (set ys)"
  by (induction ys) auto

lemma set_sort_stable [simp]: "set (sort_stable lt xs) = set xs"
  unfolding sort_stable_def by (induction xs) auto

lemma length_insert_by [simp]: "length (insert_by lt x ys) = Suc (length ys)"
  by (induction ys) auto

lemma length_sort_stable [simp]: "length (sort_stable lt xs) = length xs"
  unfolding sort_stable_def by (induction xs) auto

lemma sort_stable_Nil [simp]: "sort_stable lt [] = []"
  by (simp add: sort_stable_def)

lemma sort_stable_Nil_iff [simp]: "sort_stable lt xs = [] \<longleftrightarrow> xs = []"
  by (metis length_0_conv length_sort_stable)

lemma distinct_insert_by: "distinct (insert_by lt x ys) \<longleftrightarrow> x \<notin> set ys \<and> distinct ys"
  by (induction ys) auto

lemma distinct_sort_stable [simp]: "distinct (sort_stable lt xs) \<longleftrightarrow> distinct xs"
  unfolding sort_stable_def by (induction xs) (auto simp: distinct_insert_by set_sort_stable [unfolded sort_stable_def])

text \<open>
  \<open>sort.Slice\<close> may reorder equal elements: all that is known of it is that it permutes the list and, for
  a strict weak order, sorts it.
\<close>

locale unstable_sort =
  fixes srt :: "('a \<Rightarrow> 'a \<Rightarrow> bool) \<Rightarrow> 'a list \<Rightarrow> 'a list"
  assumes srt_mset: "mset (srt lt xs) = mset xs"
    and srt_sorted: "strict_weak lt \<Longrightarrow> sorted_wrt (\<lambda>a b. \<not> lt b a) (srt lt xs)"
begin

lemma srt_set [simp]: "set (srt lt xs) = set xs"
  using srt_mset by (metis set_mset_mset)

lemma srt_distinct [simp]: "distinct (srt lt xs) \<longleftrightarrow> distinct xs"
  using srt_mset by (metis mset_eq_imp_distinct_iff)

end

lemma mset_insert_by [simp]: "mset (insert_by lt x ys) = add_mset x (mset ys)"
  by (induction ys) auto

lemma mset_sort_stable: "mset (sort_stable lt xs) = mset xs"
  unfolding sort_stable_def by (induction xs) simp_all

interpretation stable: unstable_sort sort_stable
  by unfold_locales (fact mset_sort_stable, fact strict_weak.sort_stable_sorted)

end
