(* ===== verification/Promoter.thy ===== *)
theory Promoter
  imports Dsl GoSort
begin

text \<open>
  \<open>internal/router/promoter.go\<close>: the promotion of word sequences that the small model keeps routing the
  same way. Parameters: \<open>compile\<close> for \<open>regexp.Compile\<close>, \<open>srt\<close> for \<open>sort.Slice\<close>, and the orders in which Go
  happens to iterate over its two maps. What is written to the database is a result.
\<close>

section \<open>State\<close>

record promoted =
  pp_Pattern :: string
  pp_Route :: route
  pp_Samples :: nat
  pp_Confidence :: real
  pp_re :: "pattern option"

record decision_record =
  dr_prompt :: string
  dr_route :: route
  dr_stamp :: nanos

record promoter =
  pm_minSamples :: int
  pm_confidence :: real
  pm_interval :: nanos
  pm_decisions :: "decision_record list"
  pm_promoted :: "promoted list"
  pm_total :: "64 word"
  pm_lastRecompute :: "nanos option"
  pm_db :: bool

definition maxDecisionHistory :: nat where "maxDecisionHistory = 10000"
definition DefaultPromotionMinSamples :: int where "DefaultPromotionMinSamples = 20"
definition DefaultPromotionConfidence :: real where "DefaultPromotionConfidence = 0.90"
definition DefaultPromotionInterval :: nanos where "DefaultPromotionInterval = hour"

definition NewPatternPromoter :: "bool \<Rightarrow> int \<Rightarrow> real \<Rightarrow> nanos \<Rightarrow> promoter" where
  "NewPatternPromoter db minSamples confidence interval =
     \<lparr>pm_minSamples = (if minSamples \<le> 0 then DefaultPromotionMinSamples else minSamples),
      pm_confidence = (if confidence \<le> 0 then DefaultPromotionConfidence else confidence),
      pm_interval = (if interval \<le> 0 then DefaultPromotionInterval else interval),
      pm_decisions = [], pm_promoted = [], pm_total = 0, pm_lastRecompute = None, pm_db = db\<rparr>"

text \<open>The rows of the database: one whose pattern does not compile is skipped.\<close>

definition loadPersisted :: "(string \<Rightarrow> pattern option) \<Rightarrow> promoter \<Rightarrow> (string \<times> route \<times> nat \<times> real) list \<Rightarrow> promoter" where
  "loadPersisted compile p rows =
     (if \<not> pm_db p then p
      else p\<lparr>pm_promoted := List.map_filter (\<lambda>(pat, r, n, c).
          map_option (\<lambda>re. \<lparr>pp_Pattern = pat, pp_Route = r, pp_Samples = n, pp_Confidence = c, pp_re = Some re\<rparr>)
            (compile pat)) rows\<rparr>)"

definition RecordDecision :: "promoter option \<Rightarrow> string \<Rightarrow> route \<Rightarrow> nanos \<Rightarrow> promoter option" where
  "RecordDecision p prompt route now =
     map_option (\<lambda>p.
       let ds = pm_decisions p @ [\<lparr>dr_prompt = ToLower prompt, dr_route = route, dr_stamp = now\<rparr>]
       in p\<lparr>pm_decisions := (if maxDecisionHistory < length ds then drop (length ds div 2) ds else ds)\<rparr>) p"

definition PromoterMatch :: "promoter option \<Rightarrow> string \<Rightarrow> (route \<times> string) option" where
  "PromoterMatch p prompt =
     (case p of
        None \<Rightarrow> None
      | Some p \<Rightarrow>
          map_option (\<lambda>pp. (pp_Route pp, pp_Pattern pp))
            (List.find (\<lambda>pp. case pp_re pp of None \<Rightarrow> False | Some re \<Rightarrow> re (ToLower prompt)) (pm_promoted p)))"

definition IncPromotedTotal :: "promoter option \<Rightarrow> promoter option" where
  "IncPromotedTotal p = map_option (\<lambda>p. p\<lparr>pm_total := pm_total p + 1\<rparr>) p"

definition ShouldRecompute :: "promoter option \<Rightarrow> nanos \<Rightarrow> bool" where
  "ShouldRecompute p now =
     (case p of
        None \<Rightarrow> False
      | Some p \<Rightarrow> if pm_interval p \<le> 0 then False
          else case pm_lastRecompute p of None \<Rightarrow> True | Some t \<Rightarrow> pm_interval p \<le> now - t)"

section \<open>Word sequences\<close>

definition token_char :: "char \<Rightarrow> bool" where
  "token_char c \<longleftrightarrow> word_char c \<or> c = CHR ''-''"

text \<open>\<open>tokenize\<close>: the word being built is kept reversed.\<close>

fun tokenize_loop :: "string \<Rightarrow> string \<Rightarrow> string list" where
  "tokenize_loop [] b = (if b = [] then [] else [rev b])"
| "tokenize_loop (r # rs) b =
     (if token_char r then tokenize_loop rs (lower r # b)
      else if b \<noteq> [] then rev b # tokenize_loop rs []
      else tokenize_loop rs [])"

definition tokenize :: "string \<Rightarrow> string list" where
  "tokenize s = tokenize_loop s []"

definition ngramToRegex :: "string \<Rightarrow> string" where
  "ngramToRegex gram = ''(?i)'' @ [CHR 0x5C] @ ''b'' @ gram @ [CHR 0x5C] @ ''b''"

definition grams_of_size :: "string list \<Rightarrow> nat \<Rightarrow> string list" where
  "grams_of_size words n = map (\<lambda>i. Join '' '' (take n (drop i words))) [0..<length words + 1 - n]"

text \<open>Each sequence of one to three words counts once per prompt.\<close>

definition prompt_grams :: "string \<Rightarrow> string list" where
  "prompt_grams prompt =
     (let words = tokenize prompt
      in remdups (grams_of_size words 1 @ grams_of_size words 2 @ grams_of_size words 3))"

section \<open>Counting\<close>

record ngram_stat =
  ng_counts :: "route \<rightharpoonup> nat"
  ng_total :: nat

definition no_stat :: ngram_stat where "no_stat = \<lparr>ng_counts = Map.empty, ng_total = 0\<rparr>"

definition count_of :: "ngram_stat \<Rightarrow> route \<Rightarrow> nat" where
  "count_of st r = (case ng_counts st r of None \<Rightarrow> 0 | Some n \<Rightarrow> n)"

definition bump :: "route \<Rightarrow> string \<Rightarrow> (string \<rightharpoonup> ngram_stat) \<Rightarrow> string \<rightharpoonup> ngram_stat" where
  "bump r gram stats =
     (let st = (case stats gram of None \<Rightarrow> no_stat | Some st \<Rightarrow> st)
      in stats(gram \<mapsto> st\<lparr>ng_counts := (ng_counts st)(r \<mapsto> count_of st r + 1), ng_total := ng_total st + 1\<rparr>))"

definition count_decision :: "decision_record \<Rightarrow> (string \<rightharpoonup> ngram_stat) \<Rightarrow> string \<rightharpoonup> ngram_stat" where
  "count_decision d stats = foldl (\<lambda>m g. bump (dr_route d) g m) stats (prompt_grams (dr_prompt d))"

definition gram_stats :: "decision_record list \<Rightarrow> string \<rightharpoonup> ngram_stat" where
  "gram_stats ds = foldl (\<lambda>m d. count_decision d m) Map.empty ds"

text \<open>The loop over the counts, in the order \<open>rs\<close>.\<close>

definition dominant :: "ngram_stat \<Rightarrow> route list \<Rightarrow> route \<times> nat" where
  "dominant st rs =
     foldl (\<lambda>(r0, n0) r. if n0 < count_of st r then (r, count_of st r) else (r0, n0)) ([], 0) rs"

definition promotable ::
  "nat \<Rightarrow> real \<Rightarrow> (string \<rightharpoonup> ngram_stat) \<Rightarrow> (string \<Rightarrow> route list) \<Rightarrow> string \<Rightarrow> promoted option" where
  "promotable minSamples confidence stats rs gram =
     (case stats gram of
        None \<Rightarrow> None
      | Some st \<Rightarrow>
          if ng_total st < minSamples then None
          else case dominant st (rs gram) of (r, n) \<Rightarrow>
            if r \<noteq> RouteLocal \<and> r \<noteq> RouteFusion then None
            else
              let conf = real n / real (ng_total st) in
              if conf < confidence then None
              else if length gram \<le> 2 then None
              else Some \<lparr>pp_Pattern = ngramToRegex gram, pp_Route = r, pp_Samples = ng_total st,
                         pp_Confidence = conf, pp_re = None\<rparr>)"

definition more_confident :: "promoted \<Rightarrow> promoted \<Rightarrow> bool" where
  "more_confident a b \<longleftrightarrow>
     (if pp_Confidence a \<noteq> pp_Confidence b then pp_Confidence b < pp_Confidence a
      else pp_Samples b < pp_Samples a)"

definition promoted_key :: "promoted \<Rightarrow> string" where
  "promoted_key pp = pp_Route pp @ '':'' @ pp_Pattern pp"

fun dedup_loop :: "string list \<Rightarrow> promoted list \<Rightarrow> promoted list" where
  "dedup_loop seen [] = []"
| "dedup_loop seen (pp # pps) =
     (if promoted_key pp \<in> set seen then dedup_loop seen pps
      else pp # dedup_loop (promoted_key pp # seen) pps)"

type_synonym promoted_sorter = "(promoted \<Rightarrow> promoted \<Rightarrow> bool) \<Rightarrow> promoted list \<Rightarrow> promoted list"

definition extractPromotableNGrams ::
  "promoted_sorter \<Rightarrow> string list \<Rightarrow> (string \<Rightarrow> route list) \<Rightarrow> decision_record list \<Rightarrow> int \<Rightarrow> real \<Rightarrow> promoted list" where
  "extractPromotableNGrams srt ks rs decisions minSamples confidence =
     (if minSamples \<le> 0 \<or> confidence \<le> 0 \<or> decisions = [] then []
      else
        let result = List.map_filter (promotable (nat minSamples) confidence (gram_stats decisions) rs) ks
        in dedup_loop [] (srt more_confident result))"

text \<open>\<open>Recompute\<close>; the second result is what is persisted.\<close>

definition Recompute ::
  "promoted_sorter \<Rightarrow> (string \<Rightarrow> pattern option) \<Rightarrow> string list \<Rightarrow> (string \<Rightarrow> route list) \<Rightarrow> promoter option \<Rightarrow> nanos
     \<Rightarrow> promoter option \<times> promoted list option" where
  "Recompute srt compile ks rs p now =
     (case p of
        None \<Rightarrow> (None, None)
      | Some p \<Rightarrow>
          let candidates = extractPromotableNGrams srt ks rs (pm_decisions p) (pm_minSamples p) (pm_confidence p);
              candidates = map (\<lambda>pp. case compile (pp_Pattern pp) of None \<Rightarrow> pp | Some re \<Rightarrow> pp\<lparr>pp_re := Some re\<rparr>) candidates;
              candidates = srt more_confident candidates
          in (Some (p\<lparr>pm_promoted := candidates, pm_lastRecompute := Some now\<rparr>),
              if pm_db p then Some candidates else None))"

section \<open>What is counted\<close>

definition occurrences :: "decision_record list \<Rightarrow> string \<Rightarrow> nat" where
  "occurrences ds g = length (filter (\<lambda>d. g \<in> set (prompt_grams (dr_prompt d))) ds)"

definition agreeing :: "decision_record list \<Rightarrow> string \<Rightarrow> route \<Rightarrow> nat" where
  "agreeing ds g r = length (filter (\<lambda>d. g \<in> set (prompt_grams (dr_prompt d)) \<and> dr_route d = r) ds)"

definition stat_at :: "(string \<rightharpoonup> ngram_stat) \<Rightarrow> string \<Rightarrow> ngram_stat" where
  "stat_at m g = (case m g of None \<Rightarrow> no_stat | Some st \<Rightarrow> st)"

lemma bump_at:
  "ng_total (stat_at (bump r g m) h) = ng_total (stat_at m h) + (if h = g then 1 else 0)"
  "count_of (stat_at (bump r g m) h) q = count_of (stat_at m h) q + (if h = g \<and> q = r then 1 else 0)"
  "dom (bump r g m) = insert g (dom m)"
  by (auto simp: bump_def stat_at_def count_of_def Let_def split: option.splits)

lemma bumps_at:
  "distinct gs \<Longrightarrow> ng_total (stat_at (foldl (\<lambda>m g. bump r g m) m gs) h) = ng_total (stat_at m h) + (if h \<in> set gs then 1 else 0)"
  "distinct gs \<Longrightarrow> count_of (stat_at (foldl (\<lambda>m g. bump r g m) m gs) h) q
     = count_of (stat_at m h) q + (if h \<in> set gs \<and> q = r then 1 else 0)"
  "dom (foldl (\<lambda>m g. bump r g m) m gs) = set gs \<union> dom m"
  by (induction gs arbitrary: m) (auto simp: bump_at)

lemma count_decision_at:
  "ng_total (stat_at (count_decision d m) h) = ng_total (stat_at m h) + (if h \<in> set (prompt_grams (dr_prompt d)) then 1 else 0)"
  "count_of (stat_at (count_decision d m) h) q = count_of (stat_at m h) q
     + (if h \<in> set (prompt_grams (dr_prompt d)) \<and> q = dr_route d then 1 else 0)"
  "dom (count_decision d m) = set (prompt_grams (dr_prompt d)) \<union> dom m"
  by (simp_all add: count_decision_def bumps_at prompt_grams_def Let_def)

lemma gram_stats_snoc: "gram_stats (ds @ [d]) = count_decision d (gram_stats ds)"
  by (simp add: gram_stats_def)

text \<open>The counters are the occurrences.\<close>

lemma gram_stats_at:
  "ng_total (stat_at (gram_stats ds) g) = occurrences ds g"
  "count_of (stat_at (gram_stats ds) g) r = agreeing ds g r"
  "g \<in> dom (gram_stats ds) \<longleftrightarrow> 0 < occurrences ds g"
proof (induction ds rule: rev_induct)
  case Nil
  { case 1 show ?case by (simp add: gram_stats_def stat_at_def no_stat_def occurrences_def) }
  { case 2 show ?case by (simp add: gram_stats_def stat_at_def no_stat_def agreeing_def count_of_def) }
  { case 3 show ?case by (simp add: gram_stats_def occurrences_def) }
next
  case (snoc d ds)
  { case 1 show ?case using snoc(1) by (simp add: gram_stats_snoc count_decision_at occurrences_def) }
  { case 2 show ?case using snoc(2) by (auto simp: gram_stats_snoc count_decision_at agreeing_def) }
  { case 3 show ?case using snoc(3) by (auto simp: gram_stats_snoc count_decision_at occurrences_def) }
qed

lemma agreeing_disjoint: "r \<noteq> q \<Longrightarrow> agreeing ds g r + agreeing ds g q \<le> occurrences ds g"
  unfolding agreeing_def occurrences_def by (induction ds) auto

lemma dominant_step:
  assumes "\<forall>q. q \<noteq> r \<longrightarrow> count_of st q < count_of st r" "n0 < count_of st r \<or> (r0, n0) = (r, count_of st r)"
    "r \<in> set rs \<or> (r0, n0) = (r, count_of st r)"
  shows "foldl (\<lambda>(r0, n0) r. if n0 < count_of st r then (r, count_of st r) else (r0, n0)) (r0, n0) rs = (r, count_of st r)"
  using assms(2,3)
proof (induction rs arbitrary: r0 n0)
  case (Cons q rs)
  show ?case
  proof (cases "q = r")
    case True
    with Cons show ?thesis by (auto split: if_splits)
  next
    case False
    then have "count_of st q < count_of st r" using assms(1) by simp
    with False Cons show ?thesis by auto
  qed
qed auto

lemma dominant_majority:
  assumes "\<forall>q. q \<noteq> r \<longrightarrow> count_of st q < count_of st r" "0 < count_of st r" "r \<in> set rs"
  shows "dominant st rs = (r, count_of st r)"
  unfolding dominant_def using dominant_step [OF assms(1), of 0 "[]" rs] assms(2,3) by simp

lemma dominant_inv:
  "n0 = count_of st r0 \<or> n0 = 0 \<Longrightarrow>
   foldl (\<lambda>(r0, n0) r. if n0 < count_of st r then (r, count_of st r) else (r0, n0)) (r0, n0) rs = (r, n) \<Longrightarrow>
   n = count_of st r \<or> n = 0"
proof (induction rs arbitrary: r0 n0)
  case (Cons q rs)
  show ?case
  proof (cases "n0 < count_of st q")
    case True
    with Cons.prems show ?thesis using Cons.IH [of "count_of st q" q] by simp
  next
    case False
    with Cons.prems show ?thesis using Cons.IH [of n0 r0] by simp
  qed
qed simp

lemma dominant_counted: "dominant st rs = (r, n) \<Longrightarrow> n = count_of st r \<or> n = 0"
  unfolding dominant_def by (rule dominant_inv) simp_all

interpretation mc: strict_weak more_confident
  by unfold_locales (auto simp: more_confident_def split: if_splits)

section \<open>The promoted set\<close>

definition promoted_as :: "decision_record list \<Rightarrow> string \<Rightarrow> route \<Rightarrow> promoted" where
  "promoted_as ds g r =
     \<lparr>pp_Pattern = ngramToRegex g, pp_Route = r, pp_Samples = occurrences ds g,
      pp_Confidence = real (agreeing ds g r) / real (occurrences ds g), pp_re = None\<rparr>"

text \<open>What deserves promotion.\<close>

definition deserving :: "decision_record list \<Rightarrow> nat \<Rightarrow> real \<Rightarrow> string \<Rightarrow> route \<Rightarrow> bool" where
  "deserving ds n c g r \<longleftrightarrow> r \<in> {RouteLocal, RouteFusion} \<and> 2 < length g \<and> n \<le> occurrences ds g
     \<and> c * real (occurrences ds g) \<le> real (agreeing ds g r)"

lemma promotable_iff:
  assumes c: "1 / 2 < c" and n: "0 < n"
    and rs: "\<And>st. gram_stats ds g = Some st \<Longrightarrow> set (rs g) = dom (ng_counts st)"
  shows "promotable n c (gram_stats ds) rs g = Some pp \<longleftrightarrow> (\<exists>r. deserving ds n c g r \<and> pp = promoted_as ds g r)"
proof (cases "gram_stats ds g")
  case None
  then have "occurrences ds g = 0" using gram_stats_at(3) [where g = g and ds = ds] by (auto simp: domIff)
  with None n show ?thesis by (simp add: promotable_def deserving_def)
next
  case (Some st)
  then have st: "ng_total st = occurrences ds g" "\<And>r. count_of st r = agreeing ds g r" "0 < occurrences ds g"
    using gram_stats_at(1,2) [where g = g and ds = ds] gram_stats_at(3) [where g = g and ds = ds] by (auto simp: stat_at_def)
  have dom: "dominant st (rs g) = (r, agreeing ds g r)"
    if "c * real (occurrences ds g) \<le> real (agreeing ds g r)" for r
  proof -
    have half: "real (occurrences ds g) < 2 * real (agreeing ds g r)"
    proof -
      have "1 / 2 * real (occurrences ds g) < c * real (occurrences ds g)" using c st(3) by simp
      with that show ?thesis by simp
    qed
    have "agreeing ds g q < agreeing ds g r" if "q \<noteq> r" for q
      using agreeing_disjoint [OF that, of ds g] half by linarith
    moreover have "r \<in> set (rs g)"
    proof -
      have "0 < agreeing ds g r" using half st(3) by linarith
      then have "count_of st r \<noteq> 0" by (simp add: st(2))
      then show ?thesis by (auto simp: rs [OF Some] count_of_def split: option.splits)
    qed
    ultimately show ?thesis using dominant_majority [of r st "rs g"] half by (simp add: st(2))
  qed
  obtain r m where d: "dominant st (rs g) = (r, m)" by (cases "dominant st (rs g)")
  have m: "m = agreeing ds g r \<or> m = 0" using dominant_counted [OF d] by (simp add: st(2))
  have conf: "\<not> real m / real (occurrences ds g) < c \<longleftrightarrow> c * real (occurrences ds g) \<le> real m"
    using st(3) by (simp add: not_less pos_le_divide_eq)
  show ?thesis
  proof
    assume "promotable n c (gram_stats ds) rs g = Some pp"
    then have p: "n \<le> occurrences ds g" "r \<in> {RouteLocal, RouteFusion}" "c * real (occurrences ds g) \<le> real m"
        "2 < length g" "pp = \<lparr>pp_Pattern = ngramToRegex g, pp_Route = r, pp_Samples = occurrences ds g,
           pp_Confidence = real m / real (occurrences ds g), pp_re = None\<rparr>"
      using Some d conf st(1) by (auto simp: promotable_def Let_def split: if_splits)
    have "0 < c * real (occurrences ds g)" using c st(3) by simp
    with p(3) m have "m = agreeing ds g r" by auto
    with p show "\<exists>r. deserving ds n c g r \<and> pp = promoted_as ds g r"
      by (auto simp: deserving_def promoted_as_def)
  next
    assume "\<exists>r. deserving ds n c g r \<and> pp = promoted_as ds g r"
    then obtain q where q: "deserving ds n c g q" "pp = promoted_as ds g q" by blast
    then have "dominant st (rs g) = (q, agreeing ds g q)" by (intro dom) (simp add: deserving_def)
    with q Some st(1,3) show "promotable n c (gram_stats ds) rs g = Some pp"
      by (auto simp: promotable_def deserving_def promoted_as_def Let_def pos_divide_less_eq)
  qed
qed

lemma ngramToRegex_inj: "ngramToRegex g = ngramToRegex h \<Longrightarrow> g = h"
  by (simp add: ngramToRegex_def)

lemma dedup_distinct:
  "distinct (map promoted_key pps) \<Longrightarrow>
   (\<forall>pp\<in>set pps. promoted_key pp \<notin> set seen) \<Longrightarrow> dedup_loop seen pps = pps"
proof (induction pps arbitrary: seen)
  case (Cons pp pps)
  then have "\<forall>qq\<in>set pps. promoted_key qq \<notin> set (promoted_key pp # seen)" by (auto simp: image_iff)
  with Cons show ?case by simp
qed simp

lemma promoted_key_inj:
  "r \<in> {RouteLocal, RouteFusion} \<Longrightarrow> q \<in> {RouteLocal, RouteFusion} \<Longrightarrow> r @ '':'' @ a = q @ '':'' @ b \<Longrightarrow> r = q \<and> a = b"
  by (auto simp: RouteLocal_def RouteFusion_def)

lemma set_map_filter: "set (List.map_filter f xs) = {y. \<exists>x\<in>set xs. f x = Some y}"
  by (induction xs) (auto simp: map_filter_simps split: option.split)

lemma promoter_exact:
  fixes srt :: promoted_sorter
  assumes srt: "unstable_sort srt" and c: "1 / 2 < c" and n: "0 < n" and ks: "distinct ks" "set ks = dom (gram_stats ds)"
    and rs: "\<And>g st. gram_stats ds g = Some st \<Longrightarrow> set (rs g) = dom (ng_counts st)"
  shows "set (extractPromotableNGrams srt ks rs ds n c) = {promoted_as ds g r |g r. deserving ds (nat n) c g r}"
proof -
  let ?f = "promotable (nat n) c (gram_stats ds) rs"
  define res where "res = List.map_filter ?f ks"
  have iff: "?f g = Some pp \<longleftrightarrow> (\<exists>r. deserving ds (nat n) c g r \<and> pp = promoted_as ds g r)" for g pp
    using promotable_iff [OF c _ rs, of "nat n" ds] n by simp
  have res: "set res = {promoted_as ds g r |g r. deserving ds (nat n) c g r}"
  proof -
    have "g \<in> set ks" if "deserving ds (nat n) c g r" for g r
    proof -
      have "0 < nat n" using n by simp
      with that have "0 < occurrences ds g" unfolding deserving_def by linarith
      then show ?thesis unfolding ks(2) using gram_stats_at(3) [where g = g and ds = ds] by simp
    qed
    then show ?thesis unfolding res_def set_map_filter iff by blast
  qed
  have "distinct (map promoted_key res)"
    using ks(1) unfolding res_def
  proof (induction ks)
    case (Cons g ks)
    show ?case
    proof (cases "?f g")
      case None
      with Cons show ?thesis by (simp add: map_filter_simps)
    next
      case (Some pp)
      have "promoted_key pp \<noteq> promoted_key qq"
        if qq: "qq \<in> set (List.map_filter ?f ks)" for qq
      proof
        assume eq: "promoted_key pp = promoted_key qq"
        obtain h r q where h: "h \<in> set ks" "pp = promoted_as ds g r" "deserving ds (nat n) c g r"
            "qq = promoted_as ds h q" "deserving ds (nat n) c h q"
          using qq Some unfolding set_map_filter iff by blast
        then have "ngramToRegex g = ngramToRegex h"
          using promoted_key_inj [of r q "ngramToRegex g" "ngramToRegex h"] eq by (auto simp: deserving_def promoted_as_def promoted_key_def)
        with h(1) Cons.prems show False using ngramToRegex_inj by auto
      qed
      with Cons Some show ?thesis by (auto simp: map_filter_simps)
    qed
  qed (simp add: map_filter_simps)
  then have "distinct (map promoted_key (srt more_confident res))"
    using unstable_sort.srt_mset [OF srt, of more_confident res]
    by (metis distinct_count_atmost_1 mset_map mset_eq_imp_distinct_iff)
  then have "dedup_loop [] (srt more_confident res) = srt more_confident res" by (simp add: dedup_distinct)
  moreover have "extractPromotableNGrams srt ks rs ds n c =
      (if ds = [] then [] else dedup_loop [] (srt more_confident res))"
    using c n by (simp add: extractPromotableNGrams_def res_def)
  moreover have "res = []" if "ds = []"
    using res that n by (auto simp: deserving_def occurrences_def)
  ultimately show ?thesis using unstable_sort.srt_set [OF srt, of more_confident res] res by auto
qed

text \<open>A word sequence is made of word characters, hyphens and single blanks.\<close>

definition gram_text :: "string \<Rightarrow> bool" where
  "gram_text g \<longleftrightarrow> (\<forall>c\<in>set g. token_char c \<or> c = CHR '' '')"

lemma of_char_lower:
  "(of_char (lower c) :: nat) = (if 65 \<le> (of_char c :: nat) \<and> (of_char c :: nat) \<le> 90 then of_char c + 32 else of_char c)"
  by (simp add: lower_def Let_def)

lemma token_lower: "token_char c \<Longrightarrow> token_char (lower c)"
proof -
  have "word_char c \<Longrightarrow> word_char (lower c)" by (simp add: word_char_def of_char_lower Let_def)
  moreover have "lower (CHR ''-'') = CHR ''-''" by (simp add: lower_def)
  ultimately show "token_char c \<Longrightarrow> token_char (lower c)" by (auto simp: token_char_def)
qed

lemma tokenize_text: "\<forall>c\<in>set b. token_char c \<Longrightarrow> w \<in> set (tokenize_loop s b) \<Longrightarrow> \<forall>c\<in>set w. token_char c"
proof (induction s b rule: tokenize_loop.induct)
  case (1 b)
  then show ?case by (cases "b = []") auto
next
  case (2 r rs b)
  show ?case
  proof (cases "token_char r")
    case True
    then have "\<forall>c\<in>set (lower r # b). token_char c" using 2(4) token_lower by simp
    with 2(1) True 2(5) show ?thesis by simp
  next
    case False
    show ?thesis
    proof (cases "b = []")
      case True
      then have "w \<in> set (tokenize_loop rs [])" using 2(5) False by simp
      then show ?thesis using 2(3) [OF False] True by simp
    next
      case ne: False
      then have "w = rev b \<or> w \<in> set (tokenize_loop rs [])" using 2(5) False by simp
      then show ?thesis
      proof
        assume "w = rev b"
        then show ?thesis using 2(4) by simp
      next
        assume "w \<in> set (tokenize_loop rs [])"
        then show ?thesis using 2(2) [OF False ne] by simp
      qed
    qed
  qed
qed

lemma prompt_grams_text: "g \<in> set (prompt_grams p) \<Longrightarrow> gram_text g"
proof -
  assume "g \<in> set (prompt_grams p)"
  then obtain n i where g: "g = Join '' '' (take n (drop i (tokenize p)))"
    by (auto simp: prompt_grams_def grams_of_size_def Let_def)
  have words: "token_char c" if "w \<in> set (take n (drop i (tokenize p)))" "c \<in> set w" for w c
  proof -
    have "w \<in> set (tokenize p)" using that(1) by (metis in_set_takeD in_set_dropD)
    then show ?thesis using tokenize_text [of "[]" w p] that(2) by (simp add: tokenize_def)
  qed
  show "gram_text g" unfolding gram_text_def
  proof
    fix c
    assume "c \<in> set g"
    then have "c \<in> set '' '' \<or> (\<exists>w\<in>set (take n (drop i (tokenize p))). c \<in> set w)"
      using set_Join [of "'' ''" "take n (drop i (tokenize p))"] unfolding g by blast
    then show "token_char c \<or> c = CHR '' ''" using words by auto
  qed
qed

lemma deserving_text: "deserving ds n c g r \<Longrightarrow> 0 < n \<Longrightarrow> gram_text g"
proof -
  assume "deserving ds n c g r" "0 < n"
  then have "filter (\<lambda>d. g \<in> set (prompt_grams (dr_prompt d))) ds \<noteq> []"
    by (auto simp: deserving_def occurrences_def)
  then show ?thesis using prompt_grams_text by (auto simp: filter_empty_conv)
qed

lemma find_sorted_best:
  assumes "sorted_wrt R xs" "List.find P xs = Some x" "y \<in> set xs" "P y" "\<And>x. R x x"
  shows "R x y"
  using assms(1-4) by (induction xs) (auto split: if_splits simp: assms(5))

lemma RecordDecision_bound:
  "length (pm_decisions p) \<le> maxDecisionHistory \<Longrightarrow>
   length (pm_decisions (the (RecordDecision (Some p) prompt route now))) \<le> maxDecisionHistory"
  by (auto simp: RecordDecision_def Let_def maxDecisionHistory_def)

text \<open>A sequence is found in a text only where its words are separated by exactly one blank.\<close>

lemma promoted_misses_its_source:
  "''write test'' \<in> set (prompt_grams ''write, test'') \<and> \<not> word_match ''write test'' ''write, test''"
  by code_simp

section \<open>Properties\<close>

text \<open>
  What is promoted and what it answers. After a recomputation, whatever order Go's maps and sorts
  choose, a prompt is answered by a promoted pattern exactly when it contains, between word
  boundaries, a sequence of words that occurs in at least the required number of recorded prompts
  and whose required share was routed to the same of local or fusion; and the answer is the route of
  a matching sequence whose share is the highest of all that match. (For a required share above one
  half.)
\<close>

theorem promoter_match_best:
  fixes srt :: promoted_sorter
  assumes srt: "unstable_sort srt"
    and compile: "\<And>g. gram_text g \<Longrightarrow> compile (ngramToRegex g) = Some (word_match g)"
    and pos: "1 / 2 < pm_confidence p" "0 < pm_minSamples p"
    and ks: "distinct ks" "set ks = dom (gram_stats (pm_decisions p))"
    and rs: "\<And>g st. gram_stats (pm_decisions p) g = Some st \<Longrightarrow> set (rs g) = dom (ng_counts st)"
  shows "(case PromoterMatch (fst (Recompute srt compile ks rs (Some p) now)) prompt of
      None \<Rightarrow> \<forall>g r. deserving (pm_decisions p) (nat (pm_minSamples p)) (pm_confidence p) g r \<longrightarrow>
                 \<not> word_match g (ToLower prompt)
    | Some (r, pat) \<Rightarrow>
        \<exists>g. deserving (pm_decisions p) (nat (pm_minSamples p)) (pm_confidence p) g r \<and> pat = ngramToRegex g
          \<and> word_match g (ToLower prompt)
          \<and> (\<forall>h q. deserving (pm_decisions p) (nat (pm_minSamples p)) (pm_confidence p) h q \<and> word_match h (ToLower prompt) \<longrightarrow>
               pp_Confidence (promoted_as (pm_decisions p) h q) \<le> pp_Confidence (promoted_as (pm_decisions p) g r)))"
proof -
  let ?D = "deserving (pm_decisions p) (nat (pm_minSamples p)) (pm_confidence p)" and ?P = "promoted_as (pm_decisions p)"
  define with_re where "with_re pp = (case compile (pp_Pattern pp) of None \<Rightarrow> pp | Some re \<Rightarrow> pp\<lparr>pp_re := Some re\<rparr>)"
    for pp :: promoted
  define final where "final = srt more_confident (map with_re
      (extractPromotableNGrams srt ks rs (pm_decisions p) (pm_minSamples p) (pm_confidence p)))"
  have rec: "pm_promoted (the (fst (Recompute srt compile ks rs (Some p) now))) = final"
      "fst (Recompute srt compile ks rs (Some p) now) \<noteq> None"
    by (simp_all add: Recompute_def Let_def final_def with_re_def [abs_def])
  have re: "with_re (?P g r) = (?P g r)\<lparr>pp_re := Some (word_match g)\<rparr>" if "?D g r" for g r
    using compile [OF deserving_text [OF that]] pos(2) by (simp add: with_re_def promoted_as_def)
  have "set final = with_re ` {?P g r |g r. ?D g r}"
    using promoter_exact [OF srt pos ks rs] unstable_sort.srt_set [OF srt] by (simp add: final_def)
  then have set: "set final = {(?P g r)\<lparr>pp_re := Some (word_match g)\<rparr> |g r. ?D g r}"
    using re by (auto simp: image_iff) metis+
  have sorted: "sorted_wrt (\<lambda>a b. pp_Confidence b \<le> pp_Confidence a) final"
    unfolding final_def
    by (rule sorted_wrt_mono_rel [OF _ unstable_sort.srt_sorted [OF srt mc.strict_weak_axioms]])
      (auto simp: more_confident_def split: if_splits)
  let ?hit = "\<lambda>pp. case pp_re pp of None \<Rightarrow> False | Some re \<Rightarrow> re (ToLower prompt)"
  have match: "PromoterMatch (fst (Recompute srt compile ks rs (Some p) now)) prompt =
      map_option (\<lambda>pp. (pp_Route pp, pp_Pattern pp)) (List.find ?hit final)"
    using rec by (auto simp: PromoterMatch_def)
  show ?thesis
  proof (cases "List.find ?hit final")
    case None
    have "\<not> word_match g (ToLower prompt)" if "?D g r" for g r
    proof -
      have "(?P g r)\<lparr>pp_re := Some (word_match g)\<rparr> \<in> set final" using set that by blast
      with None show ?thesis by (auto simp: find_None_iff)
    qed
    with None match show ?thesis by simp
  next
    case (Some pp)
    then have "pp \<in> set final" "?hit pp" by (auto simp: find_Some_iff)
    then obtain g r where g: "pp = (?P g r)\<lparr>pp_re := Some (word_match g)\<rparr>" "?D g r" "word_match g (ToLower prompt)"
      unfolding set by auto
    have best: "pp_Confidence (?P h q) \<le> pp_Confidence (?P g r)" if "?D h q" "word_match h (ToLower prompt)" for h q
    proof -
      have "(?P h q)\<lparr>pp_re := Some (word_match h)\<rparr> \<in> set final" using set that(1) by blast
      from find_sorted_best [OF sorted Some this] that(2) show ?thesis by (simp add: g(1))
    qed
    have "pp_Route pp = r" "pp_Pattern pp = ngramToRegex g" by (simp_all add: g(1) promoted_as_def)
    with match Some g(2,3) best show ?thesis by auto
  qed
qed

definition read_regex :: "string \<Rightarrow> pattern option" where
  "read_regex s = Some (word_match (drop 6 (take (length s - 2) s)))"

definition demo_promoter :: promoter where
  "demo_promoter = (NewPatternPromoter False 2 1 0)\<lparr>pm_decisions :=
     [\<lparr>dr_prompt = ''fix css'', dr_route = ''local'', dr_stamp = 0\<rparr>, \<lparr>dr_prompt = ''fix css'', dr_route = ''local'', dr_stamp = 1\<rparr>]\<rparr>"

lemma demo_stats:
  "gram_stats (pm_decisions demo_promoter) =
     (let st = \<lparr>ng_counts = [''local'' \<mapsto> 2], ng_total = 2\<rparr> in [''fix'' \<mapsto> st, ''css'' \<mapsto> st, ''fix css'' \<mapsto> st])"
proof -
  have "prompt_grams ''fix css'' = [''fix'', ''css'', ''fix css'']" by code_simp
  then show ?thesis
    by (simp add: demo_promoter_def NewPatternPromoter_def gram_stats_def count_decision_def bump_def no_stat_def
        count_of_def Let_def fun_eq_iff)
qed

theorem promoter_match_best_witness:
  "PromoterMatch (fst (Recompute sort_stable read_regex [''fix'', ''css'', ''fix css''] (\<lambda>_. [''local'']) (Some demo_promoter) 5)) ''Fix it''
     \<noteq> None"
proof -
  have "prompt_grams ''fix css'' = [''fix'', ''css'', ''fix css'']" by code_simp
  then have d: "deserving (pm_decisions demo_promoter) (nat (pm_minSamples demo_promoter)) (pm_confidence demo_promoter) ''fix'' ''local''"
    by (simp add: deserving_def occurrences_def agreeing_def demo_promoter_def NewPatternPromoter_def RouteLocal_def)
  have w: "word_match ''fix'' (ToLower ''Fix it'')" by code_simp
  have "read_regex (ngramToRegex g) = Some (word_match g)" for g
    by (simp add: read_regex_def ngramToRegex_def)
  moreover have "1 / 2 < pm_confidence demo_promoter" "0 < pm_minSamples demo_promoter"
    by (simp_all add: demo_promoter_def NewPatternPromoter_def)
  moreover have "set [''fix'', ''css'', ''fix css''] = dom (gram_stats (pm_decisions demo_promoter))"
    by (auto simp: demo_stats Let_def split: if_splits)
  moreover have "set [''local''] = dom (ng_counts st)" if "gram_stats (pm_decisions demo_promoter) g = Some st" for g st
    using that by (auto simp: demo_stats Let_def split: if_splits)
  ultimately show ?thesis
    using promoter_match_best [OF stable.unstable_sort_axioms, of read_regex demo_promoter
        "[''fix'', ''css'', ''fix css'']" "\<lambda>_. [''local'']", where prompt = "''Fix it''" and now = 5] d w
    by (auto split: option.splits)
qed

end
