(* ===== verification/Slm.thy ===== *)
theory Slm
  imports Dsl JText
begin

text \<open>
  \<open>internal/router/slm.go\<close>: the routing model's client. The HTTP round trip is the parameter \<open>post\<close> (from
  the system prompt and the prompt to an answer), \<open>json.Unmarshal\<close> of the two shapes the client
  decodes are \<open>unm_body\<close> (the message content) and \<open>unm_route\<close> (the route field), \<open>None\<close> for an error.
\<close>

section \<open>Confidence and the system prompt\<close>

definition NeutralConfidence :: real where "NeutralConfidence = 0.5"
definition DefaultConfidenceFloor :: real where "DefaultConfidenceFloor = 0.4"
definition DefaultConfidenceCeiling :: real where "DefaultConfidenceCeiling = 0.85"

text \<open>The static prompt, and which note is appended to it.\<close>

datatype bias = NoBias | NegativeBias | PositiveBias | FusionBias

record slm_client =
  sc_floor :: real
  sc_ceiling :: real

definition floor_of :: "slm_client \<Rightarrow> real" where
  "floor_of c = (if sc_floor c \<le> 0 then DefaultConfidenceFloor else sc_floor c)"

definition ceiling_of :: "slm_client \<Rightarrow> real" where
  "ceiling_of c = (if sc_ceiling c \<le> 0 then DefaultConfidenceCeiling else sc_ceiling c)"

definition systemPromptFor :: "slm_client \<Rightarrow> real \<Rightarrow> bias" where
  "systemPromptFor c confidence =
     (if confidence < floor_of c then NegativeBias
      else if ceiling_of c < confidence then PositiveBias
      else NoBias)"

definition systemPromptForComparative :: "slm_client \<Rightarrow> real \<Rightarrow> real \<Rightarrow> bias" where
  "systemPromptForComparative c localConf frontierConf =
     (if localConf < floor_of c \<and> frontierConf < floor_of c then FusionBias
      else if localConf < floor_of c then NegativeBias
      else if ceiling_of c < localConf then PositiveBias
      else NoBias)"

section \<open>Finding the decision in the answer\<close>

definition fence :: string where "fence = ''```''"

text \<open>One opener: \<open>None\<close> is the \<open>continue\<close> of the loop.\<close>

definition fenced_with :: "string \<Rightarrow> string \<Rightarrow> string option" where
  "fenced_with content opener =
     (case StrIndex (ToLower content) opener of
        None \<Rightarrow> None
      | Some idx \<Rightarrow>
          let rest = drop (idx + length opener) content;
              rest = (if HasPrefix rest [CHR 0x0D, CHR 0x0A] then drop 2 rest
                      else if HasPrefix rest [CHR 0x0A] then drop 1 rest else rest)
          in map_option (\<lambda>e. TrimSpace (take e rest)) (StrIndex rest fence))"

definition extractFencedJSON :: "string \<Rightarrow> string" where
  "extractFencedJSON content =
     (case fenced_with content (fence @ ''json'') of
        Some s \<Rightarrow> s
      | None \<Rightarrow> (case fenced_with content fence of Some s \<Rightarrow> s | None \<Rightarrow> []))"

text \<open>The loop of \<open>extractFirstJSONObject\<close>; it returns how many bytes it has read when it returns.\<close>

fun object_loop :: "string \<Rightarrow> nat \<Rightarrow> int \<Rightarrow> bool \<Rightarrow> bool \<Rightarrow> nat option" where
  "object_loop [] i depth inString escaped = None"
| "object_loop (c # cs) i depth inString escaped =
     (if escaped then object_loop cs (i + 1) depth inString False
      else if inString then
        (if c = CHR 0x5C then object_loop cs (i + 1) depth inString True
         else if c = CHR 0x22 then object_loop cs (i + 1) depth False escaped
         else object_loop cs (i + 1) depth inString escaped)
      else if c = CHR 0x22 then object_loop cs (i + 1) depth True escaped
      else if c = CHR ''{'' then object_loop cs (i + 1) (depth + 1) inString escaped
      else if c = CHR ''}'' then
        (if depth - 1 = 0 then Some (i + 1) else object_loop cs (i + 1) (depth - 1) inString escaped)
      else object_loop cs (i + 1) depth inString escaped)"

definition extractFirstJSONObject :: "string \<Rightarrow> string" where
  "extractFirstJSONObject content =
     (let rest = dropWhile (\<lambda>c. c \<noteq> CHR ''{'') content in
      case object_loop rest 0 0 False False of None \<Rightarrow> [] | Some n \<Rightarrow> take n rest)"

definition parseSLMDecision :: "(string \<Rightarrow> string option) \<Rightarrow> string \<Rightarrow> string option" where
  "parseSLMDecision unm_route content =
     (let content = TrimSpace content in
      case unm_route content of
        Some d \<Rightarrow> Some d
      | None \<Rightarrow>
          (let fenced = extractFencedJSON content in
           case (if fenced \<noteq> [] then unm_route fenced else None) of
             Some d \<Rightarrow> Some d
           | None \<Rightarrow>
               (let obj = extractFirstJSONObject content in
                if obj \<noteq> [] then unm_route obj else None)))"

section \<open>The call\<close>

datatype http_answer = TransportError string | Answer nat string

datatype slm_error = ErrTransport string | ErrStatus nat string | ErrDecode | ErrEmpty | ErrParse

record slm_http =
  sh_post :: "bias \<Rightarrow> string \<Rightarrow> http_answer"
  sh_unm_body :: "string \<Rightarrow> string option"
  sh_unm_route :: "string \<Rightarrow> string option"

text \<open>The result is the route and the error, as the Go function returns both.\<close>

definition slm_decide :: "slm_http \<Rightarrow> string \<Rightarrow> bias \<Rightarrow> route \<times> slm_error option" where
  "slm_decide H prompt system =
     (case sh_post H system prompt of
        TransportError e \<Rightarrow> (RouteFrontier, Some (ErrTransport e))
      | Answer status body \<Rightarrow>
          if status \<noteq> 200 then (RouteFrontier, Some (ErrStatus status body))
          else case sh_unm_body H body of
            None \<Rightarrow> (RouteFrontier, Some ErrDecode)
          | Some content \<Rightarrow>
              if TrimSpace content = [] then (RouteFrontier, Some ErrEmpty)
              else case parseSLMDecision (sh_unm_route H) (TrimSpace content) of
                None \<Rightarrow> (RouteFrontier, Some ErrParse)
              | Some d \<Rightarrow>
                  let r = ToLower d in
                  (if r \<noteq> RouteLocal \<and> r \<noteq> RouteFusion then RouteFrontier else r, None))"

definition DecideWithConfidence :: "slm_client \<Rightarrow> slm_http \<Rightarrow> string \<Rightarrow> real \<Rightarrow> route \<times> slm_error option" where
  "DecideWithConfidence c H prompt confidence = slm_decide H prompt (systemPromptFor c confidence)"

definition Decide :: "slm_client \<Rightarrow> slm_http \<Rightarrow> string \<Rightarrow> route \<times> slm_error option" where
  "Decide c H prompt = DecideWithConfidence c H prompt NeutralConfidence"

definition DecideWithComparativeConfidence ::
  "slm_client \<Rightarrow> slm_http \<Rightarrow> string \<Rightarrow> real \<Rightarrow> real \<Rightarrow> route \<times> slm_error option" where
  "DecideWithComparativeConfidence c H prompt localConf frontierConf =
     slm_decide H prompt (systemPromptForComparative c localConf frontierConf)"

section \<open>Lemmas\<close>

lemma slm_decide_routes: "fst (slm_decide H prompt b) \<in> {RouteLocal, RouteFrontier, RouteFusion}"
  by (auto simp: slm_decide_def Let_def split: http_answer.splits option.splits)

lemma slm_decide_error: "snd (slm_decide H prompt b) \<noteq> None \<Longrightarrow> fst (slm_decide H prompt b) = RouteFrontier"
  by (auto simp: slm_decide_def Let_def split: http_answer.splits option.splits if_splits)

text \<open>The scanner over a string literal and over a text.\<close>

lemma object_quoted:
  "list_all q_ok qs \<Longrightarrow>
   object_loop (concat (map q_text qs) @ CHR 0x22 # rest) i d True False
     = object_loop rest (i + length (concat (map q_text qs)) + 1) d False False"
proof (induction qs arbitrary: i)
  case (Cons q qs)
  then show ?case by (cases q) (simp_all add: Cons.IH)
qed simp

definition passes :: "jtext \<Rightarrow> bool" where
  "passes t \<longleftrightarrow> (\<forall>rest i d. 0 < d \<longrightarrow>
     object_loop (t_text t @ rest) i d False False = object_loop rest (i + length (t_text t)) d False False)"

lemma passes_list:
  "\<forall>t\<in>set ts. passes t \<Longrightarrow> 0 < d \<Longrightarrow>
     object_loop (concat (map t_text ts) @ rest) i d False False
       = object_loop rest (i + length (concat (map t_text ts))) d False False"
  by (induction ts arbitrary: i) (simp_all add: passes_def ac_simps)

lemma passes_text: "t_ok t \<Longrightarrow> passes t"
proof (induction t)
  case (Plain c)
  then show ?case by (simp add: passes_def)
next
  case (Quoted qs)
  then show ?case by (simp add: passes_def object_quoted)
next
  case (Group b ts)
  then have ts: "\<forall>t\<in>set ts. passes t" by (simp add: list_all_iff)
  show ?case unfolding passes_def
  proof (intro allI impI)
    fix rest i and d :: int
    assume "0 < d"
    with passes_list [OF ts, of "d + 1"] passes_list [OF ts, of d]
    show "object_loop (t_text (Group b ts) @ rest) i d False False
        = object_loop rest (i + length (t_text (Group b ts))) d False False"
      by simp
  qed
qed

text \<open>The first object of a text is found exactly, whatever stands around it.\<close>

lemma first_object:
  assumes "list_all t_ok ts" "CHR ''{'' \<notin> set pre"
  shows "extractFirstJSONObject (pre @ t_text (Group True ts) @ post) = t_text (Group True ts)"
proof -
  have "\<forall>t\<in>set ts. passes t" using assms(1) passes_text by (simp add: list_all_iff)
  note p = passes_list [OF this, of 1]
  have "dropWhile (\<lambda>c. c \<noteq> CHR ''{'') (pre @ t_text (Group True ts) @ post) = t_text (Group True ts) @ post"
    using assms(2) by (subst dropWhile_append2) auto
  then show ?thesis by (simp add: extractFirstJSONObject_def p)
qed

lemma dropWhile_front: "x \<notin> {c. P c} \<Longrightarrow> dropWhile P (pre @ x # post) = dropWhile P pre @ x # post"
  by (induction pre) auto

lemma TrimSpace_around:
  assumes "a \<noteq> []" "\<not> is_space (hd a)" "\<not> is_space (last a)"
  shows "TrimSpace (pre @ a @ post) = TrimLeft pre @ a @ TrimRight post"
proof -
  obtain x xs where a: "a = x # xs" using assms(1) by (cases a) auto
  obtain ys y where b: "a = ys @ [y]" using assms(1) by (cases a rule: rev_cases) auto
  have "TrimLeft (pre @ a @ post) = TrimLeft pre @ a @ post"
    using assms(2) dropWhile_front [of x is_space pre "xs @ post"] by (simp add: TrimLeft_def a)
  moreover have "TrimRight (q @ a @ post) = q @ a @ TrimRight post" for q
    using assms(3) dropWhile_front [of y is_space "rev post" "rev (q @ ys)"] by (simp add: TrimRight_def b)
  ultimately show ?thesis by (simp add: TrimSpace_def)
qed

section \<open>Properties\<close>

text \<open>
  The decision survives the model's chatter. If the answer is prose without an opening brace, then a
  JSON object, then anything, and it holds no code fence and is not itself JSON, the route is the one
  the object names, however nested the object is and whatever its strings hold; a route that is
  neither local nor fusion, and every failure of the call, is frontier.
\<close>

theorem slm_finds_decision:
  assumes "list_all t_ok ts" "CHR ''{'' \<notin> set pre"
    and "content = pre @ t_text (Group True ts) @ post"
    and "\<not> Contains (ToLower (TrimSpace content)) fence" "sh_unm_route H (TrimSpace content) = None"
    and "sh_post H system prompt = Answer 200 body" "sh_unm_body H body = Some content"
    and "sh_unm_route H (t_text (Group True ts)) = Some d"
  shows "slm_decide H prompt system =
    (if ToLower d = RouteLocal then RouteLocal else if ToLower d = RouteFusion then RouteFusion else RouteFrontier, None)
   \<and> (\<forall>system' prompt'. snd (slm_decide H prompt' system') \<noteq> None \<longrightarrow> fst (slm_decide H prompt' system') = RouteFrontier)"
proof -
  let ?a = "t_text (Group True ts)"
  have around: "TrimSpace content = TrimLeft pre @ ?a @ TrimRight post"
    unfolding assms(3) by (rule TrimSpace_around) (simp_all add: is_space_def)
  then have again: "TrimSpace (TrimSpace content) = TrimSpace content"
  proof -
    have "TrimSpace (TrimLeft pre @ ?a @ TrimRight post) = TrimLeft (TrimLeft pre) @ ?a @ TrimRight (TrimRight post)"
      by (rule TrimSpace_around) (simp_all add: is_space_def)
    moreover have "TrimLeft (TrimLeft pre) = TrimLeft pre" "TrimRight (TrimRight post) = TrimRight post"
      by (simp_all add: TrimLeft_def TrimRight_def)
    ultimately show ?thesis by (simp add: around)
  qed
  have "CHR ''{'' \<notin> set (TrimLeft pre)" using assms(2) by (auto simp: TrimLeft_def dest: set_dropWhileD)
  then have obj: "extractFirstJSONObject (TrimSpace content) = ?a"
    unfolding around by (rule first_object [OF assms(1)])
  have none: "StrIndex (ToLower (TrimSpace content)) fence = None" using assms(4) by (simp add: Contains_def)
  have "\<not> Contains (ToLower (TrimSpace content)) (fence @ ''json'')"
  proof
    assume "Contains (ToLower (TrimSpace content)) (fence @ ''json'')"
    then obtain a b where "ToLower (TrimSpace content) = a @ fence @ ''json'' @ b" by (auto simp: Contains_iff)
    with assms(4) show False by (metis Contains_append)
  qed
  then have "extractFencedJSON (TrimSpace content) = []"
    using none by (simp add: extractFencedJSON_def fenced_with_def Contains_def)
  then have "parseSLMDecision (sh_unm_route H) (TrimSpace content) = Some d"
    using assms(5,8) obj by (simp add: parseSLMDecision_def again)
  moreover have "TrimSpace content \<noteq> []" by (simp add: around)
  ultimately have "slm_decide H prompt system =
      (if ToLower d = RouteLocal then RouteLocal else if ToLower d = RouteFusion then RouteFusion else RouteFrontier, None)"
    using assms(6,7) by (auto simp: slm_decide_def Let_def)
  with slm_decide_error show ?thesis by blast
qed

text \<open>An answer that wraps the decision in prose; the object's text holds braces in a string.\<close>

definition chatter :: string where "chatter = '' Sure: {\"why\":\"a } b\",\"route\":\"LOCAL\"} ok''"

definition demo_http :: slm_http where
  "demo_http = \<lparr>sh_post = (\<lambda>_ _. Answer 200 chatter), sh_unm_body = Some,
     sh_unm_route = (\<lambda>s. if s = ''{\"why\":\"a } b\",\"route\":\"LOCAL\"}'' then Some ''LOCAL'' else None)\<rparr>"

theorem slm_finds_decision_witness: "slm_decide demo_http ''fix it'' NoBias = (RouteLocal, None)"
proof -
  let ?ts = "[Quoted (map QChar ''why''), Plain (CHR '':''), Quoted (map QChar ''a } b''), Plain (CHR '',''),
      Quoted (map QChar ''route''), Plain (CHR '':''), Quoted (map QChar ''LOCAL'')]"
  have "\<not> Contains (ToLower (TrimSpace chatter)) fence" by code_simp
  moreover have "TrimSpace chatter = ''Sure: {\"why\":\"a } b\",\"route\":\"LOCAL\"} ok''" by code_simp
  moreover have "ToLower ''LOCAL'' = RouteLocal" by code_simp
  ultimately show ?thesis
    using slm_finds_decision [of ?ts "'' Sure: ''" chatter "'' ok''" demo_http NoBias "''fix it''" chatter "''LOCAL''"]
    by (simp add: demo_http_def) (simp add: chatter_def)
qed

end
