(* ===== verification/Planner.thy ===== *)
theory Planner
  imports Slm SlmCache BudgetGuard Promoter
begin

text \<open>
  \<open>internal/router/planner.go\<close>: the routing pipeline over the components it calls: the guardrail and
  keyword rules (\<open>Dsl\<close>), the spend guard (\<open>BudgetGuard\<close>), the promoted patterns (\<open>Promoter\<close>), the decision
  cache (\<open>SlmCache\<close>) and the routing model, here any implementation of its interface. What one plan
  changes of its components is returned; \<open>None\<close> is the panic of a method call on a nil interface.
\<close>

section \<open>Decisions\<close>

datatype source =
  SourceGuardrail | SourceDSL | SourceSLM | SourceSLMError | SourceEscalation | SourceSLMEscalation
  | SourceBudgetDownTier | SourceDSLPromoted

definition TraceReason :: "source \<Rightarrow> string" where
  "TraceReason s = (case s of
     SourceGuardrail \<Rightarrow> ''guardrail'' | SourceDSL \<Rightarrow> ''dsl'' | SourceSLM \<Rightarrow> ''slm'' | SourceSLMError \<Rightarrow> ''slm-error''
   | SourceEscalation \<Rightarrow> ''slm-no-client'' | SourceSLMEscalation \<Rightarrow> ''slm-low-confidence''
   | SourceBudgetDownTier \<Rightarrow> ''budget-down-tier'' | SourceDSLPromoted \<Rightarrow> ''dsl-promoted'')"

record decision =
  de_Route :: route
  de_Source :: source
  de_Reason :: string
  de_Confidence :: real
  de_TaskType :: string
  de_EstimatedTokens :: int
  de_BudgetSource :: string
  de_BudgetTokens :: int
  de_SLMError :: string
  de_CacheHit :: bool
  de_CacheHitKind :: "hit_kind option"

text \<open>
  The model behind the planner: nil, one that takes the local confidence, or one that also takes the
  frontier's. An answer is a route or the text of an error. The store answers with values and
  perhaps an error.
\<close>

datatype decider =
    NoClient
  | PlainClient "string \<Rightarrow> string + route" "string \<Rightarrow> real \<Rightarrow> string + route"
  | ComparativeClient "string \<Rightarrow> string + route" "string \<Rightarrow> real \<Rightarrow> real \<Rightarrow> string + route"

record confidence_store =
  cf_Local :: "string \<Rightarrow> real option"
  cf_Comparative :: "string \<Rightarrow> real \<times> real \<times> bool"

record planner =
  pl_SLM :: decider
  pl_Confidence :: "confidence_store option"
  pl_Formatting :: "pattern list"
  pl_Fusion :: "pattern list"
  pl_Local :: "pattern list"
  pl_Unicode :: "pattern list"
  pl_Cache :: "slm option"
  pl_Threshold :: real
  pl_ErrorHook :: bool
  pl_Budget :: "guard option"
  pl_CostPer1K :: real
  pl_Promoter :: "promoter option"
  pl_TokenHint :: bool

record plan_request =
  rq_Prompt :: string
  rq_Budget :: int
  rq_BudgetSource :: string
  rq_Conversation :: string

text \<open>What the surroundings decide: the tokenizer, the default script patterns, the clock, the cache's parameters.\<close>

record plan_env =
  pe_count :: "string \<Rightarrow> int"
  pe_unicode :: "pattern list"
  pe_now :: nanos
  pe_srt :: sorter
  pe_get :: "nanos \<times> nanos \<times> real list option \<times> string list"
  pe_set :: "nanos \<times> nanos \<times> real list option"

datatype plan_event = ConfidenceError string | CacheEvent slm_event | AskedModel string

type_synonym plan_result = "(planner \<times> decision \<times> plan_event list) option"

section \<open>Stages\<close>

definition estimateFrontierCost :: "int \<Rightarrow> real \<Rightarrow> usd" where
  "estimateFrontierCost tokens costPer1K =
     (if costPer1K \<le> 0 then real_of_int tokens / 1000000
      else real_of_int tokens * costPer1K / 1000)"

text \<open>The fields every decision copies from the request.\<close>

definition decided :: "plan_env \<Rightarrow> plan_request \<Rightarrow> route \<Rightarrow> source \<Rightarrow> string \<Rightarrow> decision" where
  "decided E req r s why =
     \<lparr>de_Route = r, de_Source = s, de_Reason = why, de_Confidence = NeutralConfidence, de_TaskType = [],
      de_EstimatedTokens = pe_count E (rq_Prompt req), de_BudgetSource = rq_BudgetSource req,
      de_BudgetTokens = rq_Budget req, de_SLMError = [], de_CacheHit = False, de_CacheHitKind = None\<rparr>"

definition routing_text :: "plan_request \<Rightarrow> string" where
  "routing_text req =
     (if rq_Conversation req \<noteq> [] then rq_Conversation req @ [CHR 0x0A] @ rq_Prompt req else rq_Prompt req)"

definition slm_prompt :: "plan_env \<Rightarrow> planner \<Rightarrow> plan_request \<Rightarrow> string" where
  "slm_prompt E p req =
     (if pl_TokenHint p
      then ''[tokens: ~'' @ decimal (nat (pe_count E (rq_Prompt req))) @ '']'' @ [CHR 0x0A] @ routing_text req
      else routing_text req)"

definition or_default :: "pattern list \<Rightarrow> pattern list \<Rightarrow> pattern list" where
  "or_default ps d = (if ps = [] then d else ps)"

definition plan_dsl :: "plan_env \<Rightarrow> planner \<Rightarrow> string \<Rightarrow> (route \<times> string) option" where
  "plan_dsl E p text =
     DSL text (or_default (pl_Fusion p) DefaultFusionPatterns) (or_default (pl_Formatting p) DefaultFormattingPatterns)
       (or_default (pl_Local p) DefaultLocalPatterns) (or_default (pl_Unicode p) (pe_unicode E))"

text \<open>The hard override.\<close>

definition escalates :: "planner \<Rightarrow> route \<Rightarrow> real \<Rightarrow> bool" where
  "escalates p r confidence \<longleftrightarrow> 0 < pl_Threshold p \<and> pl_Confidence p \<noteq> None
     \<and> (r = RouteLocal \<or> r = RouteFusion) \<and> confidence < pl_Threshold p"

definition hook :: "planner \<Rightarrow> string \<Rightarrow> plan_event list" where
  "hook p category = (if pl_ErrorHook p then [ConfidenceError category] else [])"

definition cached_confidence :: "planner \<Rightarrow> string \<Rightarrow> real \<times> plan_event list" where
  "cached_confidence p category =
     (case pl_Confidence p of
        None \<Rightarrow> (NeutralConfidence, [])
      | Some cf \<Rightarrow>
          (case cf_Comparative cf category of
             (l, f, failed) \<Rightarrow> if failed then (NeutralConfidence, hook p category) else (l, [])))"

definition plan_hit :: "plan_env \<Rightarrow> planner \<Rightarrow> plan_request \<Rightarrow> route \<Rightarrow> hit_kind \<Rightarrow> decision \<times> plan_event list" where
  "plan_hit E p req cached kind =
     (let category = Categorize (routing_text req) in
      case cached_confidence p category of (confidence, ev) \<Rightarrow>
        ((if escalates p cached confidence
          then (decided E req RouteFrontier SourceSLMEscalation ''low_confidence'')
                 \<lparr>de_Confidence := confidence, de_TaskType := category, de_CacheHit := True, de_CacheHitKind := Some kind\<rparr>
          else (decided E req cached SourceSLM [])
                 \<lparr>de_Confidence := confidence, de_TaskType := category, de_CacheHit := True, de_CacheHitKind := Some kind\<rparr>),
         ev))"

text \<open>Asking the model: the confidence used, its answer and what happened on the way.\<close>

definition ask_model :: "planner \<Rightarrow> string \<Rightarrow> string \<Rightarrow> (real \<times> (string + route) \<times> plan_event list) option" where
  "ask_model p category text =
     (case pl_Confidence p of
        Some cf \<Rightarrow>
          (case pl_SLM p of
             ComparativeClient _ decide \<Rightarrow>
               (case cf_Comparative cf category of
                  (l, f, failed) \<Rightarrow>
                    Some (if failed then NeutralConfidence else l, decide text l f,
                          (if failed then hook p category else []) @ [AskedModel text]))
           | PlainClient _ decide \<Rightarrow>
               (case cf_Local cf category of
                  None \<Rightarrow> Some (NeutralConfidence, decide text NeutralConfidence, hook p category @ [AskedModel text])
                | Some conf \<Rightarrow> Some (conf, decide text conf, [AskedModel text]))
           | NoClient \<Rightarrow> None)
      | None \<Rightarrow>
          (case pl_SLM p of
             ComparativeClient decide _ \<Rightarrow> Some (NeutralConfidence, decide text, [AskedModel text])
           | PlainClient decide _ \<Rightarrow> Some (NeutralConfidence, decide text, [AskedModel text])
           | NoClient \<Rightarrow> None))"

definition cache_put :: "plan_env \<Rightarrow> planner \<Rightarrow> string \<Rightarrow> route \<Rightarrow> planner \<times> plan_event list" where
  "cache_put E p text r =
     (case pl_Cache p of
        None \<Rightarrow> (p, [])
      | Some c \<Rightarrow>
          (case pe_set E of (t0, t1, emb) \<Rightarrow>
          (case SlmSet (pe_srt E) c t0 t1 emb text r of (c, ev) \<Rightarrow>
            (p\<lparr>pl_Cache := Some c\<rparr>, map CacheEvent ev))))"

definition plan_miss :: "plan_env \<Rightarrow> planner \<Rightarrow> plan_request \<Rightarrow> plan_result" where
  "plan_miss E p req =
     (let category = Categorize (routing_text req) in
      case ask_model p category (slm_prompt E p req) of
        None \<Rightarrow> None
      | Some (confidence, Inl e, ev) \<Rightarrow>
          Some (p, (decided E req RouteFrontier SourceSLMError e)
            \<lparr>de_Confidence := confidence, de_TaskType := category, de_SLMError := e\<rparr>, ev)
      | Some (confidence, Inr r, ev) \<Rightarrow>
          if escalates p r confidence
          then Some (p, (decided E req RouteFrontier SourceSLMEscalation ''low_confidence'')
                 \<lparr>de_Confidence := confidence, de_TaskType := category\<rparr>, ev)
          else (case cache_put E p (routing_text req) r of (p, ev') \<Rightarrow>
                 Some (p, (decided E req r SourceSLM [])\<lparr>de_Confidence := confidence, de_TaskType := category\<rparr>, ev @ ev')))"

definition plan_model :: "plan_env \<Rightarrow> planner \<Rightarrow> plan_request \<Rightarrow> plan_result" where
  "plan_model E p req =
     (case pl_Cache p of
        None \<Rightarrow> plan_miss E p req
      | Some c \<Rightarrow>
          (case pe_get E of (t0, t1, emb, ks) \<Rightarrow>
           case SlmGet c t0 t1 emb ks (routing_text req) of
             (c, None, ev) \<Rightarrow>
               map_option (\<lambda>(p, d, ev'). (p, d, map CacheEvent ev @ ev')) (plan_miss E (p\<lparr>pl_Cache := Some c\<rparr>) req)
           | (c, Some (r, kind), ev) \<Rightarrow>
               (case plan_hit E p req r kind of
                  (d, ev') \<Rightarrow> Some (p\<lparr>pl_Cache := Some c\<rparr>, d, map CacheEvent ev @ ev'))))"

definition plan_rules :: "plan_env \<Rightarrow> planner \<Rightarrow> plan_request \<Rightarrow> plan_result" where
  "plan_rules E p req =
     (case PromoterMatch (pl_Promoter p) (routing_text req) of
        Some (r, pat) \<Rightarrow>
          Some (p\<lparr>pl_Promoter := IncPromotedTotal (pl_Promoter p)\<rparr>,
                decided E req r SourceDSLPromoted (''promoted:'' @ pat), [])
      | None \<Rightarrow>
          (case plan_dsl E p (routing_text req) of
             Some (r, why) \<Rightarrow> Some (p, decided E req r SourceDSL why, [])
           | None \<Rightarrow> plan_model E p req))"

text \<open>The budget check may drop expired entries of the guard.\<close>

definition budget_check :: "plan_env \<Rightarrow> planner \<Rightarrow> plan_request \<Rightarrow> planner \<times> bool" where
  "budget_check E p req =
     (case pl_Budget p of
        None \<Rightarrow> (p, False)
      | Some g \<Rightarrow>
          let cost = estimateFrontierCost (pe_count E (rq_Prompt req)) (pl_CostPer1K p) in
          if 0 < cost
          then (case WouldExceed g (pe_now E) cost of (g, b) \<Rightarrow> (p\<lparr>pl_Budget := Some g\<rparr>, b))
          else (p, False))"

definition Plan :: "plan_env \<Rightarrow> planner \<Rightarrow> plan_request \<Rightarrow> plan_result" where
  "Plan E p req =
     (case Guardrail (pe_count E) (rq_Prompt req) (rq_Budget req) of
        Some r \<Rightarrow> Some (p, decided E req r SourceGuardrail ''vram'', [])
      | None \<Rightarrow>
          (case budget_check E p req of
             (p, True) \<Rightarrow> Some (p, decided E req RouteLocal SourceBudgetDownTier ''budget-exhausted'', [])
           | (p, False) \<Rightarrow> plan_rules E p req))"

section \<open>Stage lemmas\<close>

lemma decided_simps [simp]:
  "de_Route (decided E req r s why) = r" "de_Source (decided E req r s why) = s"
  "de_Confidence (decided E req r s why) = NeutralConfidence" "de_Reason (decided E req r s why) = why"
  "de_CacheHit (decided E req r s why) = False" "de_CacheHitKind (decided E req r s why) = None"
  by (simp_all add: decided_def)

text \<open>What every decision of the model stage satisfies, and how often the model was asked.\<close>

definition asked :: "plan_event list \<Rightarrow> string list" where
  "asked ev = concat (map (\<lambda>e. case e of AskedModel t \<Rightarrow> [t] | _ \<Rightarrow> []) ev)"

lemma asked_simps [simp]:
  "asked [] = []" "asked (AskedModel t # ev) = t # asked ev" "asked (CacheEvent c # ev) = asked ev"
  "asked (ConfidenceError s # ev) = asked ev" "asked (ev @ ev') = asked ev @ asked ev'"
  "asked (map CacheEvent cs) = []" "asked (hook p s) = []"
  by (simp_all add: asked_def hook_def comp_def)

definition low :: "planner \<Rightarrow> decision \<Rightarrow> bool" where
  "low p d \<longleftrightarrow> de_Confidence d < pl_Threshold p"

definition hard_override :: "planner \<Rightarrow> bool" where
  "hard_override p \<longleftrightarrow> 0 < pl_Threshold p \<and> pl_Confidence p \<noteq> None"

definition stays_local :: "route \<Rightarrow> bool" where
  "stays_local r \<longleftrightarrow> r = RouteLocal \<or> r = RouteFusion"

text \<open>The contract of the model stage.\<close>

definition model_contract :: "planner \<Rightarrow> string \<Rightarrow> decision \<Rightarrow> plan_event list \<Rightarrow> bool" where
  "model_contract p text d ev \<longleftrightarrow>
     (case de_Source d of
        SourceSLM \<Rightarrow> (hard_override p \<and> stays_local (de_Route d) \<longrightarrow> \<not> low p d)
                     \<and> asked ev = (if de_CacheHit d then [] else [text])
      | SourceSLMEscalation \<Rightarrow> de_Route d = RouteFrontier \<and> hard_override p \<and> low p d
                     \<and> asked ev = (if de_CacheHit d then [] else [text])
      | SourceSLMError \<Rightarrow> de_Route d = RouteFrontier \<and> asked ev = [text]
      | _ \<Rightarrow> False)"

lemma escalates_iff: "escalates p r c \<longleftrightarrow> hard_override p \<and> stays_local r \<and> c < pl_Threshold p"
  by (simp add: escalates_def hard_override_def stays_local_def conj_assoc)

lemma ask_model_asked: "ask_model p cat text = Some (c, a, ev) \<Longrightarrow> asked ev = [text]"
  by (auto simp: ask_model_def split: option.splits decider.splits prod.splits if_splits)

lemma ask_model_nil: "ask_model p cat text = None \<longleftrightarrow> pl_SLM p = NoClient"
  by (auto simp: ask_model_def split: option.splits decider.splits prod.splits if_splits)

lemma model_contract_asked: "asked ev = asked ev' \<Longrightarrow> model_contract p t d ev = model_contract p t d ev'"
  by (simp only: model_contract_def)

lemma asked_cache_put: "cache_put E p text r = (p', ev) \<Longrightarrow> asked ev = []"
  by (auto simp: cache_put_def split: option.splits prod.splits)

lemma plan_miss_contract:
  assumes "plan_miss E p req = Some (p', d, ev)"
  shows "model_contract p (slm_prompt E p req) d ev \<and> de_CacheHit d = False"
proof -
  let ?c = "Categorize (routing_text req)"
  obtain conf ans ev0 where a: "ask_model p ?c (slm_prompt E p req) = Some (conf, ans, ev0)"
    using assms by (cases "ask_model p ?c (slm_prompt E p req)") (auto simp: plan_miss_def)
  note q = ask_model_asked [OF a]
  show ?thesis
  proof (cases ans)
    case (Inl e)
    then show ?thesis using assms a q by (auto simp: plan_miss_def model_contract_def)
  next
    case (Inr r)
    show ?thesis
    proof (cases "escalates p r conf")
      case True
      then show ?thesis using assms a q Inr by (auto simp: plan_miss_def model_contract_def escalates_iff low_def)
    next
      case False
      obtain p1 ev1 where "cache_put E p (routing_text req) r = (p1, ev1)" by fastforce
      then show ?thesis using assms a q Inr False asked_cache_put [of E p "routing_text req" r p1 ev1]
        by (auto simp: plan_miss_def model_contract_def escalates_iff low_def)
    qed
  qed
qed

lemma plan_hit_contract:
  assumes "plan_hit E p req r kind = (d, ev)"
  shows "model_contract p text d ev \<and> de_CacheHit d"
proof -
  obtain conf ev0 where c: "cached_confidence p (Categorize (routing_text req)) = (conf, ev0)" by fastforce
  have "asked ev0 = []"
    using c by (auto simp: cached_confidence_def split: option.splits prod.splits if_splits)
  then show ?thesis
    using assms c by (auto simp: plan_hit_def Let_def model_contract_def escalates_iff low_def split: if_splits)
qed

lemma plan_model_contract:
  assumes "plan_model E p req = Some (p', d, ev)"
  shows "model_contract p (slm_prompt E p req) d ev"
proof (cases "pl_Cache p")
  case None
  then show ?thesis using assms plan_miss_contract by (auto simp: plan_model_def)
next
  case (Some c)
  obtain t0 t1 emb ks where g: "pe_get E = (t0, t1, emb, ks)" by (cases "pe_get E")
  obtain c1 res cev where s: "SlmGet c t0 t1 emb ks (routing_text req) = (c1, res, cev)" by (rule prod_cases3)
  show ?thesis
  proof (cases res)
    case None
    then obtain ev1 where m: "plan_miss E (p\<lparr>pl_Cache := Some c1\<rparr>) req = Some (p', d, ev1)" and e: "ev = map CacheEvent cev @ ev1"
      using assms Some g s by (auto simp: plan_model_def)
    have "model_contract (p\<lparr>pl_Cache := Some c1\<rparr>) (slm_prompt E (p\<lparr>pl_Cache := Some c1\<rparr>) req) d ev1"
      using plan_miss_contract [OF m] by simp
    then show ?thesis using e by (simp add: model_contract_def hard_override_def low_def slm_prompt_def cong: source.case_cong)
  next
    case (Some hk)
    obtain r k where "hk = (r, k)" by fastforce
    moreover obtain d1 ev1 where h: "plan_hit E p req r k = (d1, ev1)" by fastforce
    ultimately have "d = d1" "ev = map CacheEvent cev @ ev1"
      using assms \<open>pl_Cache p = Some c\<close> Some g s by (auto simp: plan_model_def)
    moreover have "asked ev = asked ev1"
      using \<open>ev = _\<close> by simp
    ultimately show ?thesis using plan_hit_contract [OF h] model_contract_asked by blast
  qed
qed

section \<open>The whole pipeline\<close>

definition over_vram :: "plan_env \<Rightarrow> plan_request \<Rightarrow> bool" where
  "over_vram E req \<longleftrightarrow> 0 < rq_Budget req \<and> rq_Budget req < pe_count E (rq_Prompt req)"

definition over_spend :: "plan_env \<Rightarrow> planner \<Rightarrow> plan_request \<Rightarrow> bool" where
  "over_spend E p req \<longleftrightarrow>
     (case pl_Budget p of
        None \<Rightarrow> False
      | Some g \<Rightarrow> let cost = estimateFrontierCost (pe_count E (rq_Prompt req)) (pl_CostPer1K p) in
          0 < cost \<and> 0 < gd_limit g \<and> gd_limit g < rolling g (pe_now E) + cost)"

lemma budget_check_fields [simp]:
  "pl_SLM (fst (budget_check E p req)) = pl_SLM p"
  "pl_Confidence (fst (budget_check E p req)) = pl_Confidence p"
  "pl_Threshold (fst (budget_check E p req)) = pl_Threshold p"
  "pl_TokenHint (fst (budget_check E p req)) = pl_TokenHint p"
  "pl_Cache (fst (budget_check E p req)) = pl_Cache p"
  "pl_Promoter (fst (budget_check E p req)) = pl_Promoter p"
  "pl_Fusion (fst (budget_check E p req)) = pl_Fusion p"
  "pl_Formatting (fst (budget_check E p req)) = pl_Formatting p"
  "pl_Local (fst (budget_check E p req)) = pl_Local p"
  "pl_Unicode (fst (budget_check E p req)) = pl_Unicode p"
  by (simp_all add: budget_check_def Let_def split: option.split prod.split)

lemma budget_check_over:
  assumes "\<forall>g. pl_Budget p = Some g \<longrightarrow> guard_inv t g"
  shows "snd (budget_check E p req) = over_spend E p req"
proof (cases "pl_Budget p")
  case (Some g)
  then have "guard_inv t g" using assms by simp
  then have "snd (WouldExceed g (pe_now E) c) \<longleftrightarrow> 0 < gd_limit g \<and> gd_limit g < rolling g (pe_now E) + c" for c
    by (simp add: WouldExceed_def Let_def spent_evict)
  then show ?thesis using Some by (simp add: budget_check_def over_spend_def Let_def split_beta)
qed (simp add: budget_check_def over_spend_def)

lemma Guardrail_iff: "Guardrail (pe_count E) (rq_Prompt req) (rq_Budget req) = (if over_vram E req then Some RouteFrontier else None)"
  by (simp add: Guardrail_def over_vram_def)

lemma Plan_stages:
  assumes "\<forall>g. pl_Budget p = Some g \<longrightarrow> guard_inv t g"
  shows "Plan E p req =
     (if over_vram E req then Some (p, decided E req RouteFrontier SourceGuardrail ''vram'', [])
      else if over_spend E p req
      then Some (fst (budget_check E p req), decided E req RouteLocal SourceBudgetDownTier ''budget-exhausted'', [])
      else plan_rules E (fst (budget_check E p req)) req)"
  using budget_check_over [OF assms, where E = E and req = req]
  by (cases "budget_check E p req") (simp add: Plan_def Guardrail_iff split: bool.split)

definition by_rule :: "plan_env \<Rightarrow> planner \<Rightarrow> plan_request \<Rightarrow> (route \<times> source \<times> string) option" where
  "by_rule E p req =
     (case PromoterMatch (pl_Promoter p) (routing_text req) of
        Some (r, pat) \<Rightarrow> Some (r, SourceDSLPromoted, ''promoted:'' @ pat)
      | None \<Rightarrow> map_option (\<lambda>(r, why). (r, SourceDSL, why)) (plan_dsl E p (routing_text req)))"

lemma plan_rules_cases:
  assumes "plan_rules E p req = Some (p', d, ev)"
  shows "case by_rule E p req of
     Some (r, s, why) \<Rightarrow> d = decided E req r s why \<and> ev = []
   | None \<Rightarrow> plan_model E p req = Some (p', d, ev)"
  using assms by (auto simp: plan_rules_def by_rule_def split: option.splits)

lemma plan_dsl_budget [simp]: "plan_dsl E (fst (budget_check E p req)) = plan_dsl E p"
  by (rule ext) (simp add: plan_dsl_def)

lemma by_rule_budget [simp]: "by_rule E (fst (budget_check E p req)) req = by_rule E p req"
  by (simp add: by_rule_def split: option.split)


section \<open>The decision cache behind the planner\<close>

definition cache_answers :: "plan_env \<Rightarrow> planner \<Rightarrow> plan_request \<Rightarrow> (route \<times> hit_kind) option" where
  "cache_answers E p req =
     (case pl_Cache p of
        None \<Rightarrow> None
      | Some c \<Rightarrow> (case pe_get E of (t0, t1, emb, ks) \<Rightarrow> fst (snd (SlmGet c t0 t1 emb ks (routing_text req)))))"

lemma plan_miss_None: "plan_miss E p req = None \<longleftrightarrow> pl_SLM p = NoClient"
proof -
  let ?a = "ask_model p (Categorize (routing_text req)) (slm_prompt E p req)"
  have "plan_miss E p req = None \<longleftrightarrow> ?a = None"
    by (simp add: plan_miss_def Let_def split: option.split prod.split sum.split)
  then show ?thesis by (simp only: ask_model_nil)
qed

lemma plan_model_None:
  "plan_model E p req = None \<longleftrightarrow> pl_SLM p = NoClient \<and> cache_answers E p req = None"
  by (simp add: plan_model_def cache_answers_def plan_miss_None split: option.split prod.split)

lemma plan_rules_None:
  "plan_rules E p req = None \<longleftrightarrow> by_rule E p req = None \<and> plan_model E p req = None"
  by (simp add: plan_rules_def by_rule_def split: option.split prod.split)

lemma cache_answers_budget [simp]: "cache_answers E (fst (budget_check E p req)) req = cache_answers E p req"
  by (simp add: cache_answers_def)

text \<open>
  When a plan ends. With a routing model every plan returns a decision; without one, a plan
  panics exactly when no guard, no rule and no cached decision has settled it.
\<close>
theorem plan_panics_iff:
  assumes "\<forall>g. pl_Budget p = Some g \<longrightarrow> guard_inv t g"
  shows "Plan E p req = None \<longleftrightarrow>
     pl_SLM p = NoClient \<and> \<not> over_vram E req \<and> \<not> over_spend E p req \<and> by_rule E p req = None
     \<and> cache_answers E p req = None"
  by (simp add: Plan_stages [OF assms] plan_rules_None plan_model_None) blast

lemma SlmSet_exact_hit:
  "now \<le> t1 + sl_ttl c \<Longrightarrow> exact_hit (fst (SlmSet srt c t0 t1 emb k r)) now k = Some r"
  using SlmSet_fst [of srt c t0 t1 emb k r] by (auto simp: exact_hit_def put_entry_def)

lemma plan_miss_caches:
  assumes "plan_miss E p req = Some (p', d, ev)" "de_Source d = SourceSLM" "pl_Cache p = Some c"
  shows "\<exists>c'. p' = p\<lparr>pl_Cache := Some c'\<rparr> \<and>
     (\<forall>now\<le>fst (snd (pe_set E)) + sl_ttl c. exact_hit c' now (routing_text req) = Some (de_Route d))"
proof -
  let ?c = "Categorize (routing_text req)"
  obtain conf ans ev0 where a: "ask_model p ?c (slm_prompt E p req) = Some (conf, ans, ev0)"
    using assms by (cases "ask_model p ?c (slm_prompt E p req)") (auto simp: plan_miss_def)
  obtain r where r: "ans = Inr r" using assms a by (cases ans) (auto simp: plan_miss_def Let_def)
  have e: "\<not> escalates p r conf" using assms a r by (auto simp: plan_miss_def Let_def)
  obtain t0 t1 emb where t: "pe_set E = (t0, t1, emb)" by (cases "pe_set E")
  obtain c' cev where c': "SlmSet (pe_srt E) c t0 t1 emb (routing_text req) r = (c', cev)" by fastforce
  have "exact_hit c' now (routing_text req) = Some r" if "now \<le> t1 + sl_ttl c" for now
    using SlmSet_exact_hit [OF that] c' by (metis fst_conv)
  moreover have "p' = p\<lparr>pl_Cache := Some c'\<rparr>" "de_Route d = r"
    using assms a r e t c' by (auto simp: plan_miss_def Let_def cache_put_def)
  ultimately show ?thesis using t by auto
qed

lemma plan_model_caches:
  assumes "plan_model E p req = Some (p', d, ev)" "de_Source d = SourceSLM" "\<not> de_CacheHit d" "pl_Cache p = Some c"
  shows "\<exists>c'. p' = p\<lparr>pl_Cache := Some c'\<rparr> \<and>
     (\<forall>now\<le>fst (snd (pe_set E)) + sl_ttl c. exact_hit c' now (routing_text req) = Some (de_Route d))"
proof -
  obtain t0 t1 emb ks where g: "pe_get E = (t0, t1, emb, ks)" by (cases "pe_get E")
  obtain c1 res cev where s: "SlmGet c t0 t1 emb ks (routing_text req) = (c1, res, cev)" by (rule prod_cases3)
  have ttl: "sl_ttl c1 = sl_ttl c" using s by (metis SlmGet_fields fst_conv)
  have "res = None"
  proof (rule ccontr)
    assume "res \<noteq> None"
    then obtain r k where hk: "res = Some (r, k)" by auto
    obtain d1 ev1 where h: "plan_hit E p req r k = (d1, ev1)" by fastforce
    have "d = d1" using assms g s hk h by (auto simp: plan_model_def)
    then show False using plan_hit_contract [OF h] assms(3) by blast
  qed
  then obtain ev1 where "plan_miss E (p\<lparr>pl_Cache := Some c1\<rparr>) req = Some (p', d, ev1)"
    using assms g s by (auto simp: plan_model_def)
  then show ?thesis using plan_miss_caches assms(2) ttl by fastforce
qed

lemma plan_model_hit:
  assumes "pl_Cache p = Some c" "exact_hit c (fst (pe_get E)) (routing_text req) = Some r"
  shows "plan_model E p req = (case plan_hit E p req r CacheHitExact of (d, ev) \<Rightarrow> Some (p, d, ev))"
  using assms by (cases "pe_get E") (simp add: plan_model_def SlmGet_def split: prod.split)

lemma Plan_to_model:
  assumes "Plan E p req = Some (p', d, ev)" "de_Source d = SourceSLM"
  shows "\<not> over_vram E req \<and> \<not> snd (budget_check E p req) \<and> by_rule E p req = None
    \<and> plan_model E (fst (budget_check E p req)) req = Some (p', d, ev)"
proof -
  let ?q = "fst (budget_check E p req)"
  have g: "\<not> over_vram E req" using assms by (auto simp: Plan_def Guardrail_iff)
  moreover have b: "\<not> snd (budget_check E p req)"
    using assms g by (auto simp: Plan_def Guardrail_iff split: prod.splits bool.splits)
  ultimately have r: "plan_rules E ?q req = Some (p', d, ev)"
    using assms by (cases "budget_check E p req") (auto simp: Plan_def Guardrail_iff)
  have "by_rule E p req = None"
    using plan_rules_cases [OF r] assms(2)
    by (auto simp: by_rule_def split: option.splits)
  then show ?thesis using g b plan_rules_cases [OF r] by simp
qed

lemma Plan_from_model:
  "\<not> over_vram E req \<Longrightarrow> \<not> snd (budget_check E p req) \<Longrightarrow> by_rule E p req = None \<Longrightarrow>
   Plan E p req = plan_model E (fst (budget_check E p req)) req"
  using by_rule_budget [of E p req]
  by (cases "budget_check E p req") (auto simp: Plan_def Guardrail_iff plan_rules_def by_rule_def split: option.splits)


section \<open>Examples\<close>

definition demo_env :: "nanos \<Rightarrow> plan_env" where
  "demo_env now = \<lparr>pe_count = (\<lambda>s. int (length s)), pe_unicode = [\<lambda>_. False], pe_now = now, pe_srt = isort,
     pe_get = (now, now, None, []), pe_set = (now, now, None)\<rparr>"

text \<open>A planner that knows no keyword and whose model answers \<open>local\<close>.\<close>

definition demo_planner :: planner where
  "demo_planner = \<lparr>pl_SLM = PlainClient (\<lambda>_. Inr RouteLocal) (\<lambda>_ _. Inr RouteLocal), pl_Confidence = None,
     pl_Formatting = [\<lambda>_. False], pl_Fusion = [\<lambda>_. False], pl_Local = [\<lambda>_. False], pl_Unicode = [],
     pl_Cache = Some (NewSLMCache 10 4), pl_Threshold = 0.3, pl_ErrorHook = False,
     pl_Budget = Some (NewGuard 1), pl_CostPer1K = 1, pl_Promoter = None, pl_TokenHint = False\<rparr>"

lemma demo_ttl: "sl_ttl (NewSLMCache 10 4) = 10"
  by (simp add: NewSLMCache_def NewSLMCacheWithEmbedder_def)

definition demo_request :: "string \<Rightarrow> plan_request" where
  "demo_request s = \<lparr>rq_Prompt = s, rq_Budget = 5, rq_BudgetSource = [], rq_Conversation = []\<rparr>"

lemma demo_plan:
  "\<exists>p1 d1. Plan (demo_env 0) demo_planner (demo_request ''hi'') = Some (p1, d1, [AskedModel ''hi''])
     \<and> de_Source d1 = SourceSLM \<and> \<not> de_CacheHit d1 \<and> de_Route d1 = RouteLocal \<and> pl_Budget p1 = Some (NewGuard 1)
     \<and> pl_CostPer1K p1 = 1 \<and> pl_Threshold p1 = 0.3"
  by (simp add: Plan_def Guardrail_def demo_env_def demo_planner_def demo_request_def budget_check_def Let_def
      estimateFrontierCost_def WouldExceed_def evictLocked_def NewGuard_def limitLimit_def currentSpentLocked_def
      plan_rules_def PromoterMatch_def plan_dsl_def or_default_def DSL_def routing_text_def plan_model_def
      NewSLMCache_def NewSLMCacheWithEmbedder_def SlmGet_def exact_hit_def plan_miss_def ask_model_def
      slm_prompt_def escalates_def cache_put_def SlmSet_def make_room_def full_def put_entry_def
      dispatchEvictions_def)


text \<open>With the guard's limit exhausted, a keyword prompt is decided by the guard, not by its rule.\<close>

definition broke_planner :: planner where
  "broke_planner = demo_planner\<lparr>pl_Budget := Some (NewGuard 0.001), pl_Fusion := [\<lambda>_. True]\<rparr>"


theorem plan_panics_iff_witness:
  "Plan (demo_env 0) (demo_planner\<lparr>pl_SLM := NoClient\<rparr>) (demo_request ''hi'') = None"
proof -
  let ?p = "demo_planner\<lparr>pl_SLM := NoClient\<rparr>"
  have inv: "\<forall>g. pl_Budget ?p = Some g \<longrightarrow> guard_inv 0 g"
    by (simp add: demo_planner_def inv_NewGuard)
  have "\<not> over_spend (demo_env 0) ?p (demo_request ''hi'')" "\<not> over_vram (demo_env 0) (demo_request ''hi'')"
    by (simp_all add: over_spend_def demo_env_def demo_request_def demo_planner_def
        estimateFrontierCost_def NewGuard_def limitLimit_def rolling_def Let_def over_vram_def)
  moreover have "by_rule (demo_env 0) ?p (demo_request ''hi'') = None"
    by (simp add: by_rule_def PromoterMatch_def plan_dsl_def or_default_def DSL_def demo_env_def demo_request_def demo_planner_def)
  moreover have "cache_answers (demo_env 0) ?p (demo_request ''hi'') = None"
    by (simp add: cache_answers_def demo_env_def demo_request_def demo_planner_def NewSLMCache_def
        NewSLMCacheWithEmbedder_def SlmGet_def exact_hit_def Let_def)
  ultimately show ?thesis using plan_panics_iff [OF inv] by (simp add: demo_planner_def)
qed

end
