(* ===== verification/FrontierHealth.thy ===== *)
theory FrontierHealth
  imports Prelude
begin

text \<open>
  \<open>internal/health/frontier.go\<close>: the circuits of the frontier providers, driven by probes. A probe's
  result is recorded under the mutex, so the record of a probe is one step; the goroutines of
  \<open>probeAll\<close> give one step for each provider, in any order. What the HTTP client answered is the
  input of a step.
\<close>

section \<open>State\<close>

record circuit_state =
  fs_healthy :: bool
  fs_failureCount :: "32 word"

record frontier_health =
  fh_threshold :: "32 word"
  fh_states :: "string \<rightharpoonup> circuit_state"
  fh_onTrip :: bool
  fh_onRecovery :: bool

datatype frontier_event = Tripped string | Recovered string | Probed string bool

definition DefaultFrontierBreakerThreshold :: int where "DefaultFrontierBreakerThreshold = 3"

definition fresh_circuit :: circuit_state where
  "fresh_circuit = \<lparr>fs_healthy = True, fs_failureCount = 0\<rparr>"

text \<open>Of a target the circuits only see its name; the threshold is narrowed to \<open>int32\<close>.\<close>

definition NewFrontierHealth :: "string list \<Rightarrow> int \<Rightarrow> frontier_health" where
  "NewFrontierHealth targets breakerThreshold =
     \<lparr>fh_threshold = word_of_int (if breakerThreshold \<le> 0 then DefaultFrontierBreakerThreshold else breakerThreshold),
      fh_states = foldl (\<lambda>m t. m(t \<mapsto> fresh_circuit)) Map.empty targets,
      fh_onTrip = False, fh_onRecovery = False\<rparr>"

definition FrontierSetTripCallback :: "frontier_health \<Rightarrow> bool \<Rightarrow> frontier_health" where
  "FrontierSetTripCallback fh cb = fh\<lparr>fh_onTrip := cb\<rparr>"

definition FrontierSetRecoveryCallback :: "frontier_health \<Rightarrow> bool \<Rightarrow> frontier_health" where
  "FrontierSetRecoveryCallback fh cb = fh\<lparr>fh_onRecovery := cb\<rparr>"

section \<open>Reading\<close>

definition IsHealthy :: "frontier_health option \<Rightarrow> string \<Rightarrow> bool" where
  "IsHealthy fh name =
     (case fh of
        None \<Rightarrow> True
      | Some fh \<Rightarrow> (case fh_states fh name of None \<Rightarrow> True | Some st \<Rightarrow> fs_healthy st))"

text \<open>Go visits the map in some order \<open>ks\<close>.\<close>

definition UnhealthyProviders :: "string list \<Rightarrow> frontier_health option \<Rightarrow> string list" where
  "UnhealthyProviders ks fh =
     (case fh of
        None \<Rightarrow> []
      | Some fh \<Rightarrow> filter (\<lambda>k. case fh_states fh k of None \<Rightarrow> False | Some st \<Rightarrow> \<not> fs_healthy st) ks)"

definition States :: "string list \<Rightarrow> frontier_health option \<Rightarrow> (string \<times> bool \<times> int) list" where
  "States ks fh =
     (case fh of
        None \<Rightarrow> []
      | Some fh \<Rightarrow> List.map_filter (\<lambda>k. map_option (\<lambda>st. (k, fs_healthy st, sint (fs_failureCount st))) (fh_states fh k)) ks)"

section \<open>Recording\<close>

definition recordFailure :: "frontier_health \<Rightarrow> string \<Rightarrow> circuit_state \<Rightarrow> circuit_state \<times> frontier_event list" where
  "recordFailure fh name st =
     (let count = fs_failureCount st + 1;
          st = st\<lparr>fs_failureCount := count\<rparr>
      in if fh_threshold fh \<le>s count then
           if fs_healthy st then (st\<lparr>fs_healthy := False\<rparr>, if fh_onTrip fh then [Tripped name] else [])
           else (st, [])
         else (st, []))"

definition recordSuccess :: "frontier_health \<Rightarrow> string \<Rightarrow> circuit_state \<Rightarrow> circuit_state \<times> frontier_event list" where
  "recordSuccess fh name st =
     (st\<lparr>fs_healthy := True, fs_failureCount := 0\<rparr>,
      if \<not> fs_healthy st \<and> fh_onRecovery fh then [Recovered name] else [])"

datatype probe_answer = RequestError | DialError | Status nat

definition probeOne :: "frontier_health \<Rightarrow> string \<Rightarrow> probe_answer \<Rightarrow> circuit_state \<Rightarrow> circuit_state \<times> frontier_event list \<times> bool" where
  "probeOne fh name a st =
     (case a of
        RequestError \<Rightarrow> (case recordFailure fh name st of (st, ev) \<Rightarrow> (st, ev, False))
      | DialError \<Rightarrow> (case recordFailure fh name st of (st, ev) \<Rightarrow> (st, ev, False))
      | Status code \<Rightarrow>
          if 500 \<le> code then (case recordFailure fh name st of (st, ev) \<Rightarrow> (st, ev, False))
          else (case recordSuccess fh name st of (st, ev) \<Rightarrow> (st, ev, True)))"

definition probe_step :: "bool \<Rightarrow> frontier_health \<Rightarrow> string \<times> probe_answer \<Rightarrow> frontier_health \<times> frontier_event list" where
  "probe_step onProbe fh p =
     (case p of (name, a) \<Rightarrow>
       (case fh_states fh name of
          None \<Rightarrow> (fh, [])
        | Some st \<Rightarrow>
            (case probeOne fh name a st of (st, ev, ok) \<Rightarrow>
              (fh\<lparr>fh_states := (fh_states fh)(name \<mapsto> st)\<rparr>, ev @ (if onProbe then [Probed name ok] else [])))))"

definition probe_run :: "bool \<Rightarrow> frontier_health \<Rightarrow> (string \<times> probe_answer) list \<Rightarrow> frontier_health" where
  "probe_run onProbe fh ps = foldl (\<lambda>fh p. fst (probe_step onProbe fh p)) fh ps"

section \<open>The circuit as a function of the history\<close>

definition failed_probe :: "probe_answer \<Rightarrow> bool" where
  "failed_probe a \<longleftrightarrow> (case a of Status code \<Rightarrow> 500 \<le> code | _ \<Rightarrow> True)"

text \<open>The failures of a provider since its last success.\<close>

definition fails_since :: "string \<Rightarrow> (string \<times> probe_answer) list \<Rightarrow> nat" where
  "fails_since name ps = length (takeWhile failed_probe (rev (map snd (filter (\<lambda>p. fst p = name) ps))))"

lemma fails_since_snoc:
  "fails_since name (ps @ [(n, a)]) =
     (if n = name then if failed_probe a then fails_since name ps + 1 else 0 else fails_since name ps)"
  by (simp add: fails_since_def)

lemma fails_since_Nil [simp]: "fails_since name [] = 0"
  by (simp add: fails_since_def)

text \<open>The counter is exact while the circuit is closed; once open it may wrap around.\<close>

definition circuit_tracks :: "int \<Rightarrow> nat \<Rightarrow> circuit_state \<Rightarrow> bool" where
  "circuit_tracks thr k st \<longleftrightarrow>
     (fs_healthy st \<longleftrightarrow> int k < thr) \<and> (fs_healthy st \<longrightarrow> fs_failureCount st = word_of_nat k)"

lemma sint_small:
  assumes "0 \<le> k" "k < 2 ^ 31"
  shows "sint (word_of_int k :: 32 word) = k"
proof -
  have "(word_of_int k :: 32 word) = of_nat (nat k)"
    using assms by simp
  then show ?thesis using assms sint_of_nat_32 [of "nat k"] by simp
qed

lemma tracks_probe:
  assumes "circuit_tracks thr k st" "fh_threshold fh = word_of_int thr" "0 < thr" "thr < 2 ^ 31"
  shows "circuit_tracks thr (if failed_probe a then k + 1 else 0) (fst (probeOne fh name a st))"
proof (cases "failed_probe a")
  case False
  then show ?thesis using assms
    by (auto simp: failed_probe_def probeOne_def recordSuccess_def circuit_tracks_def split: probe_answer.splits)
next
  case True
  have p: "fst (probeOne fh name a st) = fst (recordFailure fh name st)"
    using True by (auto simp: failed_probe_def probeOne_def split: probe_answer.splits prod.splits)
  have thr: "sint (fh_threshold fh) = thr" using assms(2-4) sint_small [of thr] by simp
  show ?thesis
  proof (cases "fs_healthy st")
    case False
    then show ?thesis using True p assms(1) by (auto simp: recordFailure_def circuit_tracks_def Let_def)
  next
    case h: True
    then have k: "int k < thr" "fs_failureCount st = word_of_nat k"
      using assms(1) by (auto simp: circuit_tracks_def)
    have c: "sint (word_of_nat k + 1 :: 32 word) = int k + 1" if "int k + 1 < 2 ^ 31"
    proof -
      have "(word_of_nat k + 1 :: 32 word) = word_of_int (int k + 1)" by simp
      then show ?thesis using sint_small [of "int k + 1"] that by simp
    qed
    have "int k + 1 < 2 ^ 31" using k assms(4) by linarith
    then have "fh_threshold fh \<le>s word_of_nat k + 1 \<longleftrightarrow> thr \<le> int k + 1"
      using c thr by (simp add: word_sle_eq)
    then show ?thesis using True p h k by (auto simp: recordFailure_def circuit_tracks_def Let_def)
  qed
qed

lemma probe_step_state:
  "fh_states (fst (probe_step onProbe fh (n, a))) name =
     (if n = name then map_option (\<lambda>st. fst (probeOne fh n a st)) (fh_states fh n) else fh_states fh name)"
  "fh_threshold (fst (probe_step onProbe fh (n, a))) = fh_threshold fh"
  by (auto simp: probe_step_def split: option.splits prod.splits)

lemma New_states: "fh_states (NewFrontierHealth targets n) name = (if name \<in> set targets then Some fresh_circuit else None)"
proof -
  have "foldl (\<lambda>m t. m(t \<mapsto> fresh_circuit)) m ts name = (if name \<in> set ts then Some fresh_circuit else m name)" for m ts
    by (induction ts arbitrary: m) auto
  then show ?thesis by (simp add: NewFrontierHealth_def)
qed

definition frontier_threshold :: "int \<Rightarrow> int" where
  "frontier_threshold n = (if n \<le> 0 then DefaultFrontierBreakerThreshold else n)"

lemma probe_run_tracks:
  assumes "n < 2 ^ 31"
  shows "fh_threshold (probe_run cb (NewFrontierHealth targets n) ps) = word_of_int (frontier_threshold n)
    \<and> (case fh_states (probe_run cb (NewFrontierHealth targets n) ps) name of
         None \<Rightarrow> name \<notin> set targets
       | Some st \<Rightarrow> name \<in> set targets \<and> circuit_tracks (frontier_threshold n) (fails_since name ps) st)"
proof (induction ps rule: rev_induct)
  case Nil
  have "circuit_tracks (frontier_threshold n) 0 fresh_circuit"
    by (simp add: circuit_tracks_def fresh_circuit_def frontier_threshold_def DefaultFrontierBreakerThreshold_def)
  then show ?case by (simp add: probe_run_def New_states) (simp add: NewFrontierHealth_def frontier_threshold_def)
next
  case (snoc p ps)
  obtain m a where p: "p = (m, a)" by fastforce
  let ?fh = "probe_run cb (NewFrontierHealth targets n) ps"
  have run: "probe_run cb (NewFrontierHealth targets n) (ps @ [(m, a)]) = fst (probe_step cb ?fh (m, a))"
    by (simp add: probe_run_def)
  have b: "0 < frontier_threshold n" "frontier_threshold n < 2 ^ 31"
    using assms by (auto simp: frontier_threshold_def DefaultFrontierBreakerThreshold_def)
  have thr: "fh_threshold ?fh = word_of_int (frontier_threshold n)" using snoc by blast
  show ?case
  proof (cases "fh_states ?fh name")
    case None
    then show ?thesis using snoc thr by (auto simp: p run probe_step_state)
  next
    case (Some st)
    then have "name \<in> set targets" "circuit_tracks (frontier_threshold n) (fails_since name ps) st"
      using snoc by auto
    then show ?thesis
      using Some thr tracks_probe [OF _ thr b, where name = name and a = a]
      by (auto simp: p run probe_step_state fails_since_snoc simp del: One_nat_def)
  qed
qed

text \<open>
  A circuit is exactly its history: a registered provider is unhealthy when and only when its
  probes have failed as often as the threshold since its last success.
\<close>

lemma IsHealthy_history:
  assumes "n < 2 ^ 31"
  shows "IsHealthy (Some (probe_run cb (NewFrontierHealth targets n) ps)) name
    \<longleftrightarrow> (name \<in> set targets \<longrightarrow> int (fails_since name ps) < frontier_threshold n)"
  using probe_run_tracks [OF assms, where cb = cb and targets = targets and ps = ps and name = name]
  by (auto simp: IsHealthy_def circuit_tracks_def split: option.splits)

end
