(* ===== verification/Selector.thy ===== *)
theory Selector
  imports FrontierHealth GoStrings GoSort
begin

text \<open>
  \<open>internal/router/selector.go\<close>: the choice between several frontier providers from their measured
  latency, cost and error rate, and the cache of those measurements. The health check is the interface
  of the code, any predicate on names; \<open>FrontierHealth\<close> provides it.
\<close>

section \<open>Scores\<close>

record provider_stats =
  ps_Name :: string
  ps_P50 :: "64 word"
  ps_P95 :: "64 word"
  ps_AvgCost :: usd
  ps_SampleCount :: int
  ps_ErrorRate :: real

definition no_stats :: provider_stats where
  "no_stats = \<lparr>ps_Name = [], ps_P50 = 0, ps_P95 = 0, ps_AvgCost = 0, ps_SampleCount = 0, ps_ErrorRate = 0\<rparr>"

definition DefaultSelectorMinSamples :: int where "DefaultSelectorMinSamples = 5"
definition DefaultSelectorMaxErrorRate :: real where "DefaultSelectorMaxErrorRate = 0.3"
definition DefaultSelectorWindow :: nanos where "DefaultSelectorWindow = hour"
definition DefaultSelectorRefreshInterval :: nanos where "DefaultSelectorRefreshInterval = 60 * second"
definition DefaultSelectorTailWeight :: real where "DefaultSelectorTailWeight = 0"
definition selectorEpsilon :: real where "selectorEpsilon = 1 / 10 ^ 9"

record selector =
  se_MinSamples :: int
  se_MaxErrorRate :: real
  se_TailWeight :: real
  se_Health :: "(string \<Rightarrow> bool) option"

definition NewProviderSelector :: selector where
  "NewProviderSelector =
     \<lparr>se_MinSamples = DefaultSelectorMinSamples, se_MaxErrorRate = DefaultSelectorMaxErrorRate,
      se_TailWeight = DefaultSelectorTailWeight, se_Health = None\<rparr>"

definition effective_latency :: "provider_stats \<Rightarrow> real \<Rightarrow> real" where
  "effective_latency p tailWeight =
     (let p50 = real_of_int (sint (ps_P50 p));
          tail = real_of_int (sint (ps_P95 p - ps_P50 p));
          tail = (if tail < 0 then 0 else tail)
      in p50 + tailWeight * tail)"

definition providerScore :: "provider_stats \<Rightarrow> real \<Rightarrow> real" where
  "providerScore p tailWeight = 1 / (effective_latency p tailWeight * (ps_AvgCost p + selectorEpsilon))"

section \<open>Selection\<close>

definition min_samples :: "selector \<Rightarrow> int" where
  "min_samples s = (if se_MinSamples s \<le> 0 then DefaultSelectorMinSamples else se_MinSamples s)"

definition max_error :: "selector \<Rightarrow> real" where
  "max_error s = (if se_MaxErrorRate s < 0 then DefaultSelectorMaxErrorRate else se_MaxErrorRate s)"

definition tail_weight :: "selector \<Rightarrow> real" where
  "tail_weight s = (if se_TailWeight s < 0 then DefaultSelectorTailWeight else se_TailWeight s)"

text \<open>The loop's filter, in the order of its tests.\<close>

definition keep_provider :: "selector \<Rightarrow> provider_stats \<Rightarrow> bool" where
  "keep_provider s p =
     (if ps_SampleCount p < min_samples s then False
      else if max_error s < ps_ErrorRate p then False
      else if ps_P50 p \<le>s 0 then False
      else case se_Health s of None \<Rightarrow> True | Some healthy \<Rightarrow> healthy (ps_Name p))"

definition better_provider :: "real \<Rightarrow> provider_stats \<Rightarrow> provider_stats \<Rightarrow> bool" where
  "better_provider w a b \<longleftrightarrow>
     (if providerScore a w \<noteq> providerScore b w then providerScore b w < providerScore a w
      else bytes_less (ps_Name a) (ps_Name b))"

definition SelectFrontier :: "selector \<Rightarrow> provider_stats list \<Rightarrow> string \<times> provider_stats" where
  "SelectFrontier s stats =
     (case sort_stable (better_provider (tail_weight s)) (filter (keep_provider s) stats) of
        [] \<Rightarrow> ([], no_stats)
      | winner # _ \<Rightarrow> (ps_Name winner, winner))"

section \<open>The cache of measurements\<close>

text \<open>The source answers with rows or an error; \<open>None\<close> is no source.\<close>

record stats_cache =
  sc_selector :: selector
  sc_source :: bool
  sc_window :: nanos
  sc_refresh :: nanos
  sc_stats :: "provider_stats list"
  sc_lastError :: "string option"
  sc_updated :: "nanos option"

definition ErrSelectorDisabled :: string where
  "ErrSelectorDisabled = ''router: provider selector disabled (no source)''"

definition NewProviderStatsCache :: "selector option \<Rightarrow> bool \<Rightarrow> nanos \<Rightarrow> nanos \<Rightarrow> stats_cache" where
  "NewProviderStatsCache sel source window refresh =
     \<lparr>sc_selector = (case sel of None \<Rightarrow> NewProviderSelector | Some s \<Rightarrow> s), sc_source = source,
      sc_window = (if window \<le> 0 then DefaultSelectorWindow else window),
      sc_refresh = (if refresh \<le> 0 then DefaultSelectorRefreshInterval else refresh),
      sc_stats = [], sc_lastError = None, sc_updated = None\<rparr>"

text \<open>\<open>answer since\<close> is the source's answer for the window starting at \<open>since\<close>.\<close>

definition Refresh :: "stats_cache \<Rightarrow> nanos \<Rightarrow> (nanos \<Rightarrow> string + provider_stats list) \<Rightarrow> nanos \<Rightarrow> stats_cache \<times> string option" where
  "Refresh c t0 answer t1 =
     (if \<not> sc_source c then (c\<lparr>sc_lastError := Some ErrSelectorDisabled\<rparr>, Some ErrSelectorDisabled)
      else case answer (t0 - sc_window c) of
        Inl e \<Rightarrow> (c\<lparr>sc_lastError := Some e\<rparr>, Some e)
      | Inr stats \<Rightarrow> (c\<lparr>sc_stats := stats, sc_lastError := None, sc_updated := Some t1\<rparr>, None))"

definition Snapshot :: "stats_cache \<Rightarrow> provider_stats list" where
  "Snapshot c = sc_stats c"

definition LastError :: "stats_cache \<Rightarrow> string option" where "LastError c = sc_lastError c"
definition LastUpdated :: "stats_cache \<Rightarrow> nanos option" where "LastUpdated c = sc_updated c"

definition CacheSelectFrontier :: "stats_cache \<Rightarrow> string \<times> provider_stats" where
  "CacheSelectFrontier c = SelectFrontier (sc_selector c) (Snapshot c)"

text \<open>\<open>Run\<close>: the first refresh at once, then one for each tick.\<close>

definition RunRefresh :: "stats_cache \<Rightarrow> (nanos \<times> (nanos \<Rightarrow> string + provider_stats list) \<times> nanos) list \<Rightarrow> stats_cache" where
  "RunRefresh c ticks =
     (if \<not> sc_source c then c else foldl (\<lambda>c (t0, answer, t1). fst (Refresh c t0 answer t1)) c ticks)"

section \<open>The order of the providers\<close>

text \<open>What the score means for non-negative costs: latency times cost.\<close>

definition burden :: "selector \<Rightarrow> provider_stats \<Rightarrow> real" where
  "burden s p = effective_latency p (tail_weight s) * (ps_AvgCost p + selectorEpsilon)"

lemma tail_weight_nonneg: "0 \<le> tail_weight s"
  by (simp add: tail_weight_def DefaultSelectorTailWeight_def)

lemma keep_latency: "keep_provider s p \<Longrightarrow> 0 < sint (ps_P50 p)"
  by (auto simp: keep_provider_def word_sle_eq split: if_splits)

lemma effective_pos:
  assumes "0 < sint (ps_P50 p)" "0 \<le> w"
  shows "0 < effective_latency p w"
proof -
  have "0 < real_of_int (sint (ps_P50 p))" using assms(1) by (simp only: of_int_0_less_iff)
  moreover have "0 \<le> w * x" if "0 \<le> x" for x :: real using assms(2) that by simp
  ultimately show ?thesis
    unfolding effective_latency_def Let_def by (intro add_pos_nonneg) simp_all
qed

lemma burden_pos: "keep_provider s p \<Longrightarrow> 0 \<le> ps_AvgCost p \<Longrightarrow> 0 < burden s p"
  using effective_pos [OF keep_latency tail_weight_nonneg]
  by (auto simp: burden_def selectorEpsilon_def intro!: mult_pos_pos)

lemma score_burden: "providerScore p (tail_weight s) = 1 / burden s p"
  by (simp only: providerScore_def burden_def)

lemma score_less:
  assumes "0 < burden s p" "0 < burden s q"
  shows "providerScore p (tail_weight s) < providerScore q (tail_weight s) \<longleftrightarrow> burden s q < burden s p"
    and "providerScore p (tail_weight s) = providerScore q (tail_weight s) \<longleftrightarrow> burden s q = burden s p"
  using assms by (auto simp: score_burden field_simps)

lemma better_strict_weak: "strict_weak (better_provider w)"
proof
  fix x y :: provider_stats
  assume "better_provider w x y"
  then show "\<not> better_provider w y x"
    using bytes_less_asym by (auto simp: better_provider_def split: if_splits)
next
  fix x y z :: provider_stats
  assume xz: "better_provider w x z"
  let ?s = "\<lambda>p. providerScore p w"
  show "better_provider w x y \<or> better_provider w y z"
  proof (cases "?s x = ?s y \<and> ?s y = ?s z")
    case True
    then have "bytes_less (ps_Name x) (ps_Name z)" using xz by (simp add: better_provider_def)
    then have "bytes_less (ps_Name x) (ps_Name y) \<or> bytes_less (ps_Name y) (ps_Name z)"
      using bytes_less_total bytes_less_trans by metis
    then show ?thesis using True by (simp add: better_provider_def)
  next
    case False
    then show ?thesis using xz by (auto simp: better_provider_def split: if_splits)
  qed
qed

interpretation prov: strict_weak "better_provider w" for w
  by (rule better_strict_weak)

lemma SelectFrontier_none: "(\<forall>p\<in>set stats. \<not> keep_provider s p) \<Longrightarrow> SelectFrontier s stats = ([], no_stats)"
  by (simp add: SelectFrontier_def filter_False)

lemma SelectFrontier_some:
  assumes "p \<in> set stats" "keep_provider s p"
  shows "\<exists>w. SelectFrontier s stats = (ps_Name w, w) \<and> w \<in> set stats \<and> keep_provider s w
    \<and> (\<forall>q\<in>set stats. keep_provider s q \<longrightarrow> \<not> better_provider (tail_weight s) q w)"
proof -
  let ?xs = "filter (keep_provider s) stats"
  have "?xs \<noteq> []" using assms by (auto simp: filter_empty_conv)
  then obtain w ws where s: "sort_stable (better_provider (tail_weight s)) ?xs = w # ws"
    by (metis list.exhaust sort_stable_Nil_iff)
  then have "set ?xs = set (w # ws)" by (metis set_sort_stable)
  then show ?thesis using s prov.hd_minimal [OF s] by (auto simp: SelectFrontier_def)
qed

section \<open>Failover\<close>

text \<open>A provider's circuit after a history of probes, and what makes a provider eligible.\<close>

definition open_circuit :: "string list \<Rightarrow> int \<Rightarrow> (string \<times> probe_answer) list \<Rightarrow> string \<Rightarrow> bool" where
  "open_circuit targets n probes name \<longleftrightarrow>
     name \<in> set targets \<and> frontier_threshold n \<le> int (fails_since name probes)"

definition eligible :: "selector \<Rightarrow> (string \<Rightarrow> bool) \<Rightarrow> provider_stats \<Rightarrow> bool" where
  "eligible s down p \<longleftrightarrow> min_samples s \<le> ps_SampleCount p \<and> ps_ErrorRate p \<le> max_error s
     \<and> 0 < sint (ps_P50 p) \<and> \<not> down (ps_Name p)"

lemma keep_eligible:
  assumes "se_Health s = Some (IsHealthy (Some (probe_run cb (NewFrontierHealth targets n) probes)))" "n < 2 ^ 31"
  shows "keep_provider s p = eligible s (open_circuit targets n probes) p"
  using assms IsHealthy_history [OF assms(2), where cb = cb and targets = targets and ps = probes]
  by (auto simp: keep_provider_def eligible_def open_circuit_def word_sle_eq)

lemma better_total:
  assumes "\<not> better_provider w a b" "\<not> better_provider w b a"
  shows "ps_Name a = ps_Name b"
proof (cases "providerScore a w = providerScore b w")
  case True
  then show ?thesis using assms bytes_less_total by (auto simp: better_provider_def)
next
  case False
  then show ?thesis using assms by (simp add: better_provider_def)
qed

lemma SelectFrontier_perm:
  assumes "mset stats' = mset stats" "distinct (map ps_Name stats)"
  shows "SelectFrontier s stats' = SelectFrontier s stats"
proof (cases "\<exists>p\<in>set stats. keep_provider s p")
  case False
  then show ?thesis using mset_eq_setD [OF assms(1)] by (simp add: SelectFrontier_none)
next
  case True
  have set: "set stats' = set stats" using assms(1) by (rule mset_eq_setD)
  obtain p where p: "p \<in> set stats" "keep_provider s p" using True by blast
  obtain w where w: "SelectFrontier s stats = (ps_Name w, w)" "w \<in> set stats" "keep_provider s w"
    "\<forall>q\<in>set stats. keep_provider s q \<longrightarrow> \<not> better_provider (tail_weight s) q w"
    using SelectFrontier_some [OF p] by blast
  obtain w' where w': "SelectFrontier s stats' = (ps_Name w', w')" "w' \<in> set stats" "keep_provider s w'"
    "\<forall>q\<in>set stats. keep_provider s q \<longrightarrow> \<not> better_provider (tail_weight s) q w'"
    using SelectFrontier_some [of p stats' s] p unfolding set by blast
  have "ps_Name w = ps_Name w'"
    using w(2,3,4) w'(2,3,4) by (intro better_total [of "tail_weight s"]) blast+
  then have "w = w'" using w(2) w'(2) assms(2) by (auto simp: distinct_map inj_on_def)
  then show ?thesis using w(1) w'(1) by simp
qed

lemma better_burden:
  assumes "keep_provider s p" "keep_provider s q" "0 \<le> ps_AvgCost p" "0 \<le> ps_AvgCost q"
  shows "better_provider (tail_weight s) q p \<longleftrightarrow>
    burden s q < burden s p \<or> burden s q = burden s p \<and> bytes_less (ps_Name q) (ps_Name p)"
  using score_less [OF burden_pos [OF assms(1,3)] burden_pos [OF assms(2,4)]]
    score_less [OF burden_pos [OF assms(2,4)] burden_pos [OF assms(1,3)]]
  by (auto simp: better_provider_def)

text \<open>
  C16: Failover. Whatever probes the health poller has seen, the selector never chooses a provider
  whose last probes failed as often as the threshold, nor one with too few samples, too many errors
  or no latency. Among the others it chooses one of least latency times cost, the first name
  deciding ties; it chooses none exactly when there is none. With distinct names the choice does
  not depend on the order of the measurements.
\<close>
theorem frontier_failover:
  assumes "se_Health s = Some (IsHealthy (Some (probe_run cb (NewFrontierHealth targets n) probes)))" "n < 2 ^ 31"
    and "\<forall>p\<in>set stats. 0 \<le> ps_AvgCost p" "distinct (map ps_Name stats)"
  shows "(case SelectFrontier s stats of (name, w) \<Rightarrow>
      if \<exists>p\<in>set stats. eligible s (open_circuit targets n probes) p
      then name = ps_Name w \<and> w \<in> set stats \<and> eligible s (open_circuit targets n probes) w
        \<and> (\<forall>q\<in>set stats. eligible s (open_circuit targets n probes) q \<longrightarrow>
             burden s w < burden s q \<or> burden s w = burden s q \<and> \<not> bytes_less (ps_Name q) (ps_Name w))
      else name = [] \<and> w = no_stats)
    \<and> (\<forall>stats'. mset stats' = mset stats \<longrightarrow> SelectFrontier s stats' = SelectFrontier s stats)"
proof (intro conjI allI impI)
  note keep = keep_eligible [OF assms(1,2), symmetric]
  show "case SelectFrontier s stats of (name, w) \<Rightarrow>
      if \<exists>p\<in>set stats. eligible s (open_circuit targets n probes) p
      then name = ps_Name w \<and> w \<in> set stats \<and> eligible s (open_circuit targets n probes) w
        \<and> (\<forall>q\<in>set stats. eligible s (open_circuit targets n probes) q \<longrightarrow>
             burden s w < burden s q \<or> burden s w = burden s q \<and> \<not> bytes_less (ps_Name q) (ps_Name w))
      else name = [] \<and> w = no_stats"
  proof (cases "\<exists>p\<in>set stats. keep_provider s p")
    case False
    then show ?thesis by (simp add: keep SelectFrontier_none)
  next
    case True
    then obtain w where w: "SelectFrontier s stats = (ps_Name w, w)" "w \<in> set stats" "keep_provider s w"
      "\<forall>q\<in>set stats. keep_provider s q \<longrightarrow> \<not> better_provider (tail_weight s) q w"
      using SelectFrontier_some by metis
    have "burden s w < burden s q \<or> burden s w = burden s q \<and> \<not> bytes_less (ps_Name q) (ps_Name w)"
      if "q \<in> set stats" "keep_provider s q" for q
      using w that assms(3) better_burden [OF w(3) that(2)] by force
    then show ?thesis using w(1-3) True by (simp add: keep)
  qed
qed (rule SelectFrontier_perm [OF _ assms(4)])

text \<open>The cheaper provider has failed three probes in a row; the other one is chosen.\<close>

definition demo_stats_of :: "string \<Rightarrow> real \<Rightarrow> provider_stats" where
  "demo_stats_of name cost =
     \<lparr>ps_Name = name, ps_P50 = 100, ps_P95 = 200, ps_AvgCost = cost, ps_SampleCount = 9, ps_ErrorRate = 0\<rparr>"

definition demo_probes :: "(string \<times> probe_answer) list" where
  "demo_probes = [(''a'', Status 503), (''b'', Status 200), (''a'', DialError), (''a'', Status 500)]"

definition demo_selector :: selector where
  "demo_selector = NewProviderSelector
     \<lparr>se_Health := Some (IsHealthy (Some (probe_run False (NewFrontierHealth [''a'', ''b''] 3) demo_probes)))\<rparr>"

lemma demo_circuits: "open_circuit [''a'', ''b''] 3 demo_probes name \<longleftrightarrow> name = ''a''"
  by (simp add: open_circuit_def frontier_threshold_def fails_since_def demo_probes_def failed_probe_def) auto

theorem frontier_failover_witness:
  "fst (SelectFrontier demo_selector [demo_stats_of ''a'' 1, demo_stats_of ''b'' 2]) = ''b''"
proof -
  let ?stats = "[demo_stats_of ''a'' 1, demo_stats_of ''b'' 2]"
  have h: "se_Health demo_selector
      = Some (IsHealthy (Some (probe_run False (NewFrontierHealth [''a'', ''b''] 3) demo_probes)))"
    by (simp add: demo_selector_def)
  have e: "eligible demo_selector (open_circuit [''a'', ''b''] 3 demo_probes) (demo_stats_of nm c) \<longleftrightarrow> nm \<noteq> ''a''" for nm c
    by (simp add: eligible_def demo_circuits demo_stats_of_def demo_selector_def NewProviderSelector_def
        min_samples_def max_error_def DefaultSelectorMinSamples_def DefaultSelectorMaxErrorRate_def)
  have "\<exists>p\<in>set ?stats. eligible demo_selector (open_circuit [''a'', ''b''] 3 demo_probes) p"
    by (simp add: e)
  moreover obtain nm w where "SelectFrontier demo_selector ?stats = (nm, w)" by fastforce
  moreover have "\<forall>p\<in>set ?stats. 0 \<le> ps_AvgCost p" "distinct (map ps_Name ?stats)"
    by (simp_all add: demo_stats_of_def)
  ultimately have "nm = ps_Name w" "w \<in> set ?stats"
    "eligible demo_selector (open_circuit [''a'', ''b''] 3 demo_probes) w"
    "SelectFrontier demo_selector ?stats = (nm, w)"
    using frontier_failover [OF h, where stats = ?stats] by simp_all
  then show ?thesis by (auto simp: e) (simp add: demo_stats_of_def)
qed

text \<open>What the cache serves: the rows of the last query that did not fail.\<close>

lemma stats_cache_last_good:
  assumes "sc_source c"
  shows "Snapshot (RunRefresh c ticks) = (case List.find (\<lambda>r. \<not> isl r)
      (rev (map (\<lambda>(t0, answer, t1). answer (t0 - sc_window c)) ticks)) of
        None \<Rightarrow> Snapshot c | Some r \<Rightarrow> projr r)
    \<and> sc_window (RunRefresh c ticks) = sc_window c \<and> sc_source (RunRefresh c ticks)"
proof (induction ticks rule: rev_induct)
  case Nil
  then show ?case using assms by (simp add: RunRefresh_def)
next
  case (snoc x ticks)
  obtain t0 answer t1 where x: "x = (t0, answer, t1)" by (rule prod_cases3)
  have "RunRefresh c (ticks @ [x]) = fst (Refresh (RunRefresh c ticks) t0 answer t1)"
    using assms by (simp add: RunRefresh_def x)
  then show ?case using snoc by (auto simp: x Refresh_def Snapshot_def split: sum.split)
qed

end
