(* ===== verification/Cascade.thy ===== *)
theory Cascade
  imports Coalescer GoStrings Messages
begin

text \<open>
  \<open>internal/upstream/cascade.go\<close>: the ordered list of model endpoints tried in turn, what makes a
  failure retryable, the validation of an answer, what is written to the client, and the timeout of an
  attempt. An attempt's HTTP exchange is an input: the request failed, the transport failed, or a reply
  with status, \<open>Retry-After\<close>, body and perhaps a read error. JSON encoding and decoding, SHA-256, the
  BPE tokenizer and the parsing of HTTP dates are parameters; identical requests go through the
  coalescer of its own theory.
\<close>

section \<open>Data\<close>

record cascade_step =
  st_Name :: string
  st_URL :: string
  st_APIKey :: string
  st_Model :: string
  st_AuthHeaders :: "(string \<times> string list) list option"

record tool_call =
  tc_ID :: string
  tc_Type :: string
  tc_Name :: string
  tc_Arguments :: string

record assistant_message =
  am_Content :: string
  am_ToolCalls :: "tool_call list"

text \<open>A tagged failure with its retry flag, metric reason and message, any other error, or one that wraps another.\<close>

datatype cascade_err = Tagged bool string string | Untagged string | Wrapped string cascade_err

text \<open>\<open>errors.As\<close> for a tagged failure.\<close>

primrec tag_of :: "cascade_err \<Rightarrow> (bool \<times> string) option" where
  "tag_of (Tagged retry reason msg) = Some (retry, reason)"
| "tag_of (Untagged msg) = None"
| "tag_of (Wrapped msg e) = tag_of e"

type_synonym fetched = "assistant_message \<times> string \<times> string"

record cascade =
  ca_Steps :: "cascade_step list"
  ca_Timeout :: nanos
  ca_MaxResponseBytes :: int
  ca_TimeoutFloor :: nanos
  ca_TimeoutCeiling :: nanos
  ca_TimeoutPer1kTokens :: nanos
  ca_Coalescer :: "(assistant_message, cascade_err) coalescer option"

record cascade_result =
  cc_RouteAttempted :: string
  cc_Attempts :: nat
  cc_ServedBy :: string
  cc_Succeeded :: bool
  cc_LocalStepFailed :: bool
  cc_ToolCalls :: "tool_call list"
  cc_FallbackReason :: string
  cc_FallbackLatency :: real
  cc_FallbackRoute :: string

definition no_result :: cascade_result where
  "no_result = \<lparr>cc_RouteAttempted = [], cc_Attempts = 0, cc_ServedBy = [], cc_Succeeded = False,
     cc_LocalStepFailed = False, cc_ToolCalls = [], cc_FallbackReason = [], cc_FallbackLatency = 0, cc_FallbackRoute = []\<rparr>"

lemma no_result_fields [simp]:
  "cc_Attempts no_result = 0" "cc_ServedBy no_result = []" "\<not> cc_Succeeded no_result"
  "\<not> cc_LocalStepFailed no_result" "cc_FallbackRoute no_result = []"
  by (simp_all add: no_result_def)

definition HasToolCalls :: "assistant_message \<Rightarrow> bool" where
  "HasToolCalls m \<longleftrightarrow> am_ToolCalls m \<noteq> []"

definition cascadeDefaultTimeout :: nanos where "cascadeDefaultTimeout = 30 * second"
definition cascadeDefaultFloor :: nanos where "cascadeDefaultFloor = 5 * second"
definition cascadeDefaultCeiling :: nanos where "cascadeDefaultCeiling = 120 * second"
definition defaultMaxResponseBytes :: int where "defaultMaxResponseBytes = 64 * 2 ^ 20"

section \<open>The timeout of an attempt\<close>

definition MaxAccurateEncodeLen :: nat where "MaxAccurateEncodeLen = 8192"

definition text_parts :: "jval list \<Rightarrow> string list" where
  "text_parts parts = List.map_filter (\<lambda>p. case p of
     JObj m \<Rightarrow> (case map_of m ''text'' of Some (JStr t) \<Rightarrow> Some t | _ \<Rightarrow> None) | _ \<Rightarrow> None) parts"

text \<open>The texts of one message, none for one that is no object (and then no separator either).\<close>

definition message_texts :: "jval \<Rightarrow> string list option" where
  "message_texts m =
     (case m of
        JObj f \<Rightarrow> Some (case map_of f ''content'' of
            Some (JStr s) \<Rightarrow> [s] | Some (JArr parts) \<Rightarrow> text_parts parts | _ \<Rightarrow> [])
      | _ \<Rightarrow> None)"

definition prompt_bytes :: "jval list \<Rightarrow> nat" where
  "prompt_bytes msgs = sum_list (List.map_filter (\<lambda>m. map_option (\<lambda>ts. sum_list (map length ts) + 1) (message_texts m)) msgs)"

definition prompt_text :: "jval list \<Rightarrow> string" where
  "prompt_text msgs = concat (List.map_filter (\<lambda>m. map_option (\<lambda>ts. concat ts @ '' '') (message_texts m)) msgs)"

text \<open>\<open>sprint\<close> is the length of \<open>fmt.Sprint(payload)\<close>, \<open>count\<close> is \<open>CountTokens\<close>.\<close>

definition estimatePromptTokens :: "(fields \<Rightarrow> nat) \<Rightarrow> (string \<Rightarrow> nat) \<Rightarrow> fields \<Rightarrow> nat" where
  "estimatePromptTokens sprint count payload =
     (case map_of payload ''messages'' of
        Some (JArr (m # ms)) \<Rightarrow>
          (let total = prompt_bytes (m # ms)
           in if MaxAccurateEncodeLen < total then total div 4 else count (prompt_text (m # ms)))
      | _ \<Rightarrow> sprint payload div 4)"

definition effectiveTimeout :: "cascade \<Rightarrow> nat \<Rightarrow> nanos" where
  "effectiveTimeout c tokens =
     (if ca_TimeoutPer1kTokens c \<le> 0 then (if ca_Timeout c \<le> 0 then cascadeDefaultTimeout else ca_Timeout c)
      else
        let lo = (if ca_TimeoutFloor c \<le> 0 then cascadeDefaultFloor else ca_TimeoutFloor c);
            hi = (if ca_TimeoutCeiling c \<le> 0 \<or> ca_TimeoutCeiling c < lo then cascadeDefaultCeiling
                        else ca_TimeoutCeiling c);
            computed = wrap64 (lo + go_div (wrap64 (ca_TimeoutPer1kTokens c * int tokens)) 1000);
            computed = (if computed < lo then lo else computed)
        in if hi < computed then hi else computed)"

section \<open>Failures\<close>

definition ShouldRetry :: "nat \<Rightarrow> cascade_err option \<Rightarrow> bool" where
  "ShouldRetry statusCode err \<longleftrightarrow> err \<noteq> None \<or> statusCode \<in> {408, 429, 500, 502, 503, 504}"

definition classifyFailure :: "cascade_err \<Rightarrow> bool" where
  "classifyFailure e = (case tag_of e of Some (retry, _) \<Rightarrow> retry | None \<Rightarrow> True)"

definition CascadeFallbackReason :: "cascade_err option \<Rightarrow> string" where
  "CascadeFallbackReason e =
     (case e of
        None \<Rightarrow> ''unknown''
      | Some e \<Rightarrow>
          (case tag_of e of
             Some (_, reason) \<Rightarrow> if reason = [] then ''unknown'' else reason
           | None \<Rightarrow> ''unknown''))"

definition truncateSuffix :: string where "truncateSuffix = ''...(truncated)''"

definition truncateForLog :: "string \<Rightarrow> nat \<Rightarrow> string" where
  "truncateForLog b mx =
     (if mx \<le> length truncateSuffix then []
      else if length b \<le> mx then b
      else take (mx - length truncateSuffix) b @ truncateSuffix)"

definition joinStepNames :: "cascade_step list \<Rightarrow> string" where
  "joinStepNames steps = Join ''->'' (map st_Name steps)"

section \<open>One answer\<close>

record cascade_lib =
  cl_marshal :: "string \<Rightarrow> string + string"
  cl_sha256hex :: "string \<Rightarrow> string"
  cl_unmarshal :: "string \<Rightarrow> string + string \<times> assistant_message list"
  cl_raw :: "string \<Rightarrow> string option"
  cl_date :: "string \<Rightarrow> nanos option"

text \<open>The loop over the tool calls: the first that is incomplete or whose arguments are no JSON fails.\<close>

fun check_calls :: "cascade_lib \<Rightarrow> nat \<Rightarrow> tool_call list \<Rightarrow> cascade_err option" where
  "check_calls L i [] = None"
| "check_calls L i (tc # tcs) =
     (if tc_ID tc = [] \<or> tc_Type tc = [] \<or> tc_Name tc = []
      then Some (Tagged True ''malformed_toolcall'' (''tool_call['' @ decimal i @ ''] missing required fields''))
      else case (if tc_Arguments tc \<noteq> [] then cl_raw L (tc_Arguments tc) else None) of
        Some e \<Rightarrow> Some (Tagged True ''malformed_toolcall''
                     (''tool_call['' @ decimal i @ ''].arguments not valid JSON: '' @ e))
      | None \<Rightarrow> check_calls L (Suc i) tcs)"

definition extractAssistantMessage :: "cascade_lib \<Rightarrow> string \<Rightarrow> cascade_err + assistant_message \<times> string" where
  "extractAssistantMessage L body =
     (case cl_unmarshal L body of
        Inl e \<Rightarrow> Inl (Tagged True ''malformed_response'' (''decode: '' @ e))
      | Inr (model, []) \<Rightarrow> Inl (Tagged True ''malformed_response'' ''empty choices'')
      | Inr (model, msg # _) \<Rightarrow>
          (case check_calls L 0 (am_ToolCalls msg) of Some e \<Rightarrow> Inl e | None \<Rightarrow> Inr (msg, model)))"

definition parseRetryAfter :: "(string \<Rightarrow> nanos option) \<Rightarrow> string \<Rightarrow> nanos \<Rightarrow> nanos" where
  "parseRetryAfter date value now =
     (let v = TrimSpace value;
          by_date = (case date v of None \<Rightarrow> 0 | Some t \<Rightarrow> if t - now < 0 then 0 else t - now)
      in if v = [] then 0
         else case Atoi v of
           Some secs \<Rightarrow> if 0 \<le> secs then wrap64 (secs * second) else by_date
         | None \<Rightarrow> by_date)"

text \<open>The headers of an attempt, name and values, in the order they are written.\<close>

definition header_set :: "string \<Rightarrow> string \<Rightarrow> (string \<rightharpoonup> string list) \<Rightarrow> string \<rightharpoonup> string list" where
  "header_set k v h = h(k \<mapsto> [v])"

definition header_add :: "string \<Rightarrow> string \<Rightarrow> (string \<rightharpoonup> string list) \<Rightarrow> string \<rightharpoonup> string list" where
  "header_add k v h = h(k \<mapsto> (case h k of None \<Rightarrow> [] | Some vs \<Rightarrow> vs) @ [v])"

definition request_headers :: "(string \<Rightarrow> string) \<Rightarrow> cascade_step \<Rightarrow> string \<Rightarrow> string \<rightharpoonup> string list" where
  "request_headers canon step traceparent =
     (let h = header_set (canon ''Content-Type'') ''application/json'' Map.empty;
          h = (if st_APIKey step \<noteq> [] then header_set (canon ''Authorization'') (''Bearer '' @ st_APIKey step) h else h);
          h = (case st_AuthHeaders step of None \<Rightarrow> h
               | Some kvs \<Rightarrow> foldl (\<lambda>h (k, vs). foldl (\<lambda>h v. header_add (canon k) v h) h vs) h kvs)
      in if traceparent \<noteq> [] then header_set (canon ''traceparent'') traceparent h else h)"

datatype exchange = RequestFailed string | TransportFailed bool string | Reply nat string string "string option"

text \<open>The result and how long the attempt sleeps on a \<open>Retry-After\<close>.\<close>

definition doFetchCascadeStep ::
  "cascade_lib \<Rightarrow> cascade \<Rightarrow> cascade_step \<Rightarrow> nanos \<Rightarrow> exchange \<Rightarrow> (cascade_err + fetched) \<times> nanos" where
  "doFetchCascadeStep L c step now x =
     (case x of
        RequestFailed e \<Rightarrow> (Inl (Tagged False [] (''build request: '' @ e)), 0)
      | TransportFailed deadline e \<Rightarrow>
          (Inl (Tagged True (if deadline then ''timeout'' else ''transport_error'') (''transport: '' @ e)), 0)
      | Reply status retryAfter stream readErr \<Rightarrow>
          (let maxBytes = (if ca_MaxResponseBytes c \<le> 0 then defaultMaxResponseBytes else ca_MaxResponseBytes c);
               respBody = take (nat maxBytes) stream;
               status_line = ''status '' @ decimal status @ '': '' @ truncateForLog respBody 200
           in case readErr of
                Some e \<Rightarrow> (Inl (Tagged True ''transport_error'' (''body read: '' @ e)), 0)
              | None \<Rightarrow>
                  if status = 429 then
                    (let delay = parseRetryAfter (cl_date L) retryAfter now
                     in (Inl (Tagged True ''rate_limited'' status_line), if 0 < delay then delay else 0))
                  else if ShouldRetry status None then (Inl (Tagged True ''http_error'' status_line), 0)
                  else if status = 404 \<and> st_Name step = ''local''
                  then (Inl (Tagged True ''model_unavailable''
                         (''local model not found (404): '' @ truncateForLog respBody 200)), 0)
                  else if status \<noteq> 200 then (Inl (Tagged False [] status_line), 0)
                  else case extractAssistantMessage L respBody of
                    Inl e \<Rightarrow> (Inl e, 0)
                  | Inr (msg, model) \<Rightarrow> (Inr (msg, model, respBody), 0)))"

text \<open>What an attempt takes from outside: its exchange and the instants at which the clock is read.\<close>

record attempt =
  at_exchange :: exchange
  at_now :: nanos
  at_clock :: "nanos \<times> nanos \<times> nanos"
  at_elapsed :: nanos

definition FlightKeyMethod :: string where "FlightKeyMethod = ''POST''"

definition as_flight :: "cascade_err + fetched \<Rightarrow> (assistant_message, cascade_err) coalesceResult" where
  "as_flight r =
     (case r of
        Inl e \<Rightarrow> \<lparr>cr_msg = \<lparr>am_Content = [], am_ToolCalls = []\<rparr>, cr_model = [], cr_respBody = [], cr_err = Some e\<rparr>
      | Inr (msg, model, body) \<Rightarrow> \<lparr>cr_msg = msg, cr_model = model, cr_respBody = body, cr_err = None\<rparr>)"

definition of_flight :: "(assistant_message, cascade_err) coalesceResult \<Rightarrow> cascade_err + fetched" where
  "of_flight r = (case cr_err r of Some e \<Rightarrow> Inl e | None \<Rightarrow> Inr (cr_msg r, cr_model r, cr_respBody r))"

text \<open>The last result says whether the endpoint was contacted.\<close>

definition fetchCascadeStep ::
  "cascade_lib \<Rightarrow> cascade \<Rightarrow> cascade_step \<Rightarrow> attempt \<Rightarrow> cascade \<times> (cascade_err + fetched) \<times> bool" where
  "fetchCascadeStep L c step a =
     (case cl_marshal L (st_Model step) of
        Inl e \<Rightarrow> (c, Inl (Tagged False [] (''marshal: '' @ e)), False)
      | Inr json \<Rightarrow>
          (let direct = fst (doFetchCascadeStep L c step (at_now a) (at_exchange a))
           in case ca_Coalescer c of
                None \<Rightarrow> (c, direct, True)
              | Some co \<Rightarrow>
                  (case at_clock a of (t0, t1, t2) \<Rightarrow>
                     case Do co t0 t1 t2 (FlightKey (cl_sha256hex L) FlightKeyMethod (st_Model step) json) (as_flight direct) of
                       (co, r, hit) \<Rightarrow> (c\<lparr>ca_Coalescer := Some co\<rparr>, of_flight r, \<not> hit))))"

section \<open>The responses\<close>

record sse_chunk =
  ck_id :: string
  ck_created :: int
  ck_model :: string
  ck_content :: "string option"
  ck_calls :: "(nat \<times> tool_call) list option"
  ck_finish :: string

text \<open>What reaches the client, in order: status with content type and server, one chunk, the end marker, raw bytes.\<close>

datatype wire = Head nat "string option" string | Chunk sse_chunk | DoneMarker | Flushed | Bytes string

text \<open>Which write fails, if one does; \<open>flusher\<close> tells whether the writer can flush.\<close>

datatype write_fault = NoFault | ChunkFault | DoneFault

definition ErrSSEPartialWrite :: cascade_err where
  "ErrSSEPartialWrite = Untagged ''cascade: SSE partial write after headers committed''"

definition sse_of :: "string \<Rightarrow> string \<Rightarrow> assistant_message \<Rightarrow> int \<Rightarrow> sse_chunk" where
  "sse_of stepName servedModel msg created =
     \<lparr>ck_id = ''chatcmpl-cascade-'' @ stepName, ck_created = created,
      ck_model = (if servedModel = [] then stepName else servedModel),
      ck_content = (if HasToolCalls msg \<and> am_Content msg = [] then None else Some (am_Content msg)),
      ck_calls = (if HasToolCalls msg then Some (enumerate 0 (am_ToolCalls msg)) else None),
      ck_finish = (if HasToolCalls msg then ''tool_calls'' else ''stop'')\<rparr>"

definition writeSSEResponse ::
  "write_fault \<Rightarrow> bool \<Rightarrow> int \<Rightarrow> string \<Rightarrow> string \<Rightarrow> assistant_message \<Rightarrow> wire list \<times> cascade_err option" where
  "writeSSEResponse fault flusher created stepName servedModel msg =
     (let h = Head 200 (Some ''text/event-stream'') stepName; c = Chunk (sse_of stepName servedModel msg created)
      in case fault of
           ChunkFault \<Rightarrow> ([h], Some ErrSSEPartialWrite)
         | DoneFault \<Rightarrow> ([h, c], Some ErrSSEPartialWrite)
         | NoFault \<Rightarrow> ([h, c, DoneMarker] @ (if flusher then [Flushed] else []), None))"

section \<open>The cascade\<close>

text \<open>What both loops record of a failed step; the elapsed time is in seconds.\<close>

definition tried :: "cascade_step list \<Rightarrow> nat \<Rightarrow> cascade_result \<Rightarrow> cascade_result" where
  "tried steps i res = res\<lparr>cc_Attempts := i + 1, cc_RouteAttempted := joinStepNames (take (i + 1) steps)\<rparr>"

definition fell_back :: "cascade_step \<Rightarrow> nanos \<Rightarrow> cascade_err \<Rightarrow> cascade_result \<Rightarrow> cascade_result" where
  "fell_back step elapsed e res =
     (if classifyFailure e
      then res\<lparr>cc_FallbackReason := CascadeFallbackReason (Some e),
               cc_FallbackLatency := real_of_int elapsed / real_of_int second, cc_FallbackRoute := st_Name step\<rparr>
      else res)"

record client =
  wr_fault :: write_fault
  wr_flusher :: bool
  wr_created :: int

text \<open>
  The loop of \<open>Run\<close> from step \<open>i\<close> on; \<open>steps\<close> are all steps, \<open>W i\<close> is attempt \<open>i\<close>. The result is the
  cascade with its coalescer, the outcome, the error, what was written and which steps were contacted.
\<close>

type_synonym run_result = "cascade \<times> cascade_result \<times> cascade_err option \<times> wire list \<times> nat list"

function run_loop ::
  "cascade_lib \<Rightarrow> client \<Rightarrow> (nat \<Rightarrow> attempt) \<Rightarrow> cascade_step list \<Rightarrow> nat \<Rightarrow> cascade \<Rightarrow> cascade_result \<Rightarrow> cascade_err option
     \<Rightarrow> nat list \<Rightarrow> run_result" where
  "run_loop L wr W steps i c res lastErr seen =
     (if i < length steps then
        (let step = steps ! i; res = tried steps i res;
             (c, r, contacted) = fetchCascadeStep L c step (W i);
             seen = seen @ (if contacted then [i] else [])
         in case r of
              Inr (msg, servedModel, _) \<Rightarrow>
                (case writeSSEResponse (wr_fault wr) (wr_flusher wr) (wr_created wr) (st_Name step) servedModel msg of
                   (out, werr) \<Rightarrow>
                     (c, res\<lparr>cc_Succeeded := True, cc_ServedBy := st_Name step, cc_ToolCalls := am_ToolCalls msg\<rparr>, werr, out, seen))
            | Inl e \<Rightarrow>
                (let res = (if st_Name step = ''local'' \<and> classifyFailure e then res\<lparr>cc_LocalStepFailed := True\<rparr> else res);
                     res = fell_back step (at_elapsed (W i)) e res
                 in if \<not> classifyFailure e then (c, res, Some e, [], seen)
                    else run_loop L wr W steps (i + 1) c res (Some e) seen))
      else (c, res\<lparr>cc_FallbackReason := CascadeFallbackReason lastErr\<rparr>,
            Some (Wrapped (''cascade: all '' @ decimal (length steps) @ '' steps failed; last error'')
              (case lastErr of Some e \<Rightarrow> e | None \<Rightarrow> Untagged ''cascade: no steps attempted'')),
            [], seen))"
  by pat_completeness auto

termination
  by (relation "measure (\<lambda>(L, wr, W, steps, i, _). length steps - i)") auto

declare run_loop.simps [simp del]

definition Run :: "cascade_lib \<Rightarrow> client \<Rightarrow> (nat \<Rightarrow> attempt) \<Rightarrow> cascade \<Rightarrow> run_result" where
  "Run L wr W c =
     (if ca_Steps c = [] then (c, no_result, Some (Untagged ''cascade: no steps configured''), [], [])
      else run_loop L wr W (ca_Steps c) 0 c no_result None [])"

text \<open>\<open>RunBuffered\<close>: the validated body as it came. \<open>bodyFault\<close> is the failure of its write.\<close>

function buffered_loop ::
  "cascade_lib \<Rightarrow> cascade_err option \<Rightarrow> (nat \<Rightarrow> attempt) \<Rightarrow> cascade_step list \<Rightarrow> nat \<Rightarrow> cascade \<Rightarrow> cascade_result
     \<Rightarrow> cascade_err option \<Rightarrow> nat list \<Rightarrow> run_result" where
  "buffered_loop L bodyFault W steps i c res lastErr seen =
     (if i < length steps then
        (let step = steps ! i; res = tried steps i res;
             (c, r, contacted) = fetchCascadeStep L c step (W i);
             seen = seen @ (if contacted then [i] else [])
         in case r of
              Inr (_, _, rawBody) \<Rightarrow>
                (c, res\<lparr>cc_Succeeded := True, cc_ServedBy := st_Name step\<rparr>, bodyFault,
                 [Head 200 (Some ''application/json'') (st_Name step)] @ (if bodyFault = None then [Bytes rawBody] else []), seen)
            | Inl e \<Rightarrow>
                (let res = fell_back step (at_elapsed (W i)) e res
                 in if \<not> classifyFailure e
                    then (c, res\<lparr>cc_ServedBy := st_Name step\<rparr>, Some e, [Head 200 None (st_Name step)], seen)
                    else buffered_loop L bodyFault W steps (i + 1) c res (Some e) seen))
      else (c, res\<lparr>cc_FallbackReason := CascadeFallbackReason lastErr, cc_ServedBy := st_Name (last steps)\<rparr>,
            Some (Wrapped (''frontier cascade: all '' @ decimal (length steps) @ '' providers failed; last error'')
              (case lastErr of Some e \<Rightarrow> e | None \<Rightarrow> Untagged ''cascade: no steps attempted'')),
            [Head 200 None (st_Name (last steps))], seen))"
  by pat_completeness auto

termination
  by (relation "measure (\<lambda>(L, f, W, steps, i, _). length steps - i)") auto

declare buffered_loop.simps [simp del]

definition RunBuffered :: "cascade_lib \<Rightarrow> cascade_err option \<Rightarrow> (nat \<Rightarrow> attempt) \<Rightarrow> cascade \<Rightarrow> run_result" where
  "RunBuffered L bodyFault W c =
     (if ca_Steps c = [] then (c, no_result, Some (Untagged ''cascade: no steps configured''), [], [])
      else buffered_loop L bodyFault W (ca_Steps c) 0 c no_result None [])"

section \<open>The local cascade\<close>

record cascade_config =
  cg_LocalURL :: string
  cg_LocalModel :: string
  cg_FrontierURL :: string
  cg_FrontierModel :: string
  cg_FrontierKey :: string
  cg_ZAIURL :: string
  cg_ZAIModel :: string
  cg_ZAIKey :: string
  cg_Timeout :: nanos
  cg_TimeoutFloor :: nanos
  cg_TimeoutCeiling :: nanos
  cg_TimeoutPer1kTokens :: nanos
  cg_MaxResponseBytes :: int
  cg_SkipLocal :: bool

definition trim_slashes :: "string \<Rightarrow> string" where
  "trim_slashes s = rev (dropWhile (\<lambda>c. c = CHR ''/'') (rev s))"

definition BuildLocalCascade :: "cascade_config \<Rightarrow> cascade" where
  "BuildLocalCascade cfg =
     \<lparr>ca_Steps =
        (if cg_SkipLocal cfg then [] else
          [\<lparr>st_Name = ''local'', st_URL = trim_slashes (cg_LocalURL cfg) @ ''/v1/chat/completions'', st_APIKey = [],
            st_Model = cg_LocalModel cfg, st_AuthHeaders = None\<rparr>]) @
        (if cg_FrontierKey cfg = [] then [] else
          [\<lparr>st_Name = ''frontier'', st_URL = cg_FrontierURL cfg, st_APIKey = cg_FrontierKey cfg,
            st_Model = cg_FrontierModel cfg, st_AuthHeaders = None\<rparr>]) @
        (if cg_ZAIKey cfg = [] then [] else
          [\<lparr>st_Name = ''zai'', st_URL = cg_ZAIURL cfg, st_APIKey = cg_ZAIKey cfg,
            st_Model = cg_ZAIModel cfg, st_AuthHeaders = None\<rparr>]),
      ca_Timeout = cg_Timeout cfg, ca_MaxResponseBytes = cg_MaxResponseBytes cfg,
      ca_TimeoutFloor = cg_TimeoutFloor cfg, ca_TimeoutCeiling = cg_TimeoutCeiling cfg,
      ca_TimeoutPer1kTokens = cg_TimeoutPer1kTokens cfg, ca_Coalescer = None\<rparr>"

section \<open>The first decisive attempt\<close>

definition moves_on :: "cascade_err + fetched \<Rightarrow> bool" where
  "moves_on r \<longleftrightarrow> (case r of Inl e \<Rightarrow> classifyFailure e | Inr _ \<Rightarrow> False)"

text \<open>Without a coalescer an attempt depends on nothing but its own exchange.\<close>

definition outcome :: "cascade_lib \<Rightarrow> cascade \<Rightarrow> cascade_step \<Rightarrow> attempt \<Rightarrow> cascade_err + fetched" where
  "outcome L c step a = fst (snd (fetchCascadeStep L c step a))"

lemma fetch_direct:
  "ca_Coalescer c = None \<Longrightarrow> \<exists>b. fetchCascadeStep L c step a = (c, outcome L c step a, b)"
  by (auto simp: outcome_def fetchCascadeStep_def split: sum.split)

definition decisive :: "cascade_lib \<Rightarrow> cascade \<Rightarrow> (nat \<Rightarrow> attempt) \<Rightarrow> cascade_step list \<Rightarrow> nat \<Rightarrow> nat option" where
  "decisive L c W steps i = List.find (\<lambda>j. \<not> moves_on (outcome L c (steps ! j) (W j))) [i..<length steps]"

lemma decisive_step:
  "i < length steps \<Longrightarrow> decisive L c W steps i =
     (if moves_on (outcome L c (steps ! i) (W i)) then decisive L c W steps (i + 1) else Some i)"
  by (simp add: decisive_def upt_conv_Cons)

lemma decisive_end: "\<not> i < length steps \<Longrightarrow> decisive L c W steps i = None"
  by (simp add: decisive_def)

lemma decisive_ge: "decisive L c W steps i = Some k \<Longrightarrow> i \<le> k \<and> k < length steps"
  by (auto simp: decisive_def find_Some_iff)

text \<open>What the loop leaves in its result, as a function of the decisive attempt.\<close>

definition local_in :: "cascade_step list \<Rightarrow> nat \<Rightarrow> nat \<Rightarrow> bool" where
  "local_in steps i k \<longleftrightarrow> (\<exists>j\<in>{i..<k}. st_Name (steps ! j) = ''local'')"

lemma local_in_step: "i < k \<Longrightarrow> local_in steps i k \<longleftrightarrow> st_Name (steps ! i) = ''local'' \<or> local_in steps (i + 1) k"
proof -
  assume "i < k"
  then have "{i..<k} = insert i {i + 1..<k}" by auto
  then show ?thesis by (simp add: local_in_def)
qed

definition run_spec :: "cascade_lib \<Rightarrow> client \<Rightarrow> (nat \<Rightarrow> attempt) \<Rightarrow> cascade_step list \<Rightarrow> nat \<Rightarrow> cascade \<Rightarrow> cascade_result \<Rightarrow> run_result \<Rightarrow> bool" where
  "run_spec L wr W steps i c res out \<longleftrightarrow>
     (case out of (c', r, err, wires, seen) \<Rightarrow> c' = c \<and>
       (case decisive L c W steps i of
          Some k \<Rightarrow>
            cc_Attempts r = k + 1 \<and> cc_RouteAttempted r = joinStepNames (take (k + 1) steps)
            \<and> cc_FallbackRoute r = (if k = i then cc_FallbackRoute res else st_Name (steps ! (k - 1)))
            \<and> (cc_LocalStepFailed r \<longleftrightarrow> cc_LocalStepFailed res \<or> local_in steps i k)
            \<and> (case outcome L c (steps ! k) (W k) of
                 Inr (msg, model, body) \<Rightarrow> cc_Succeeded r \<and> cc_ServedBy r = st_Name (steps ! k) \<and> cc_ToolCalls r = am_ToolCalls msg
                   \<and> (wires, err) = writeSSEResponse (wr_fault wr) (wr_flusher wr) (wr_created wr) (st_Name (steps ! k)) model msg
               | Inl e \<Rightarrow> cc_Succeeded r = cc_Succeeded res \<and> cc_ServedBy r = cc_ServedBy res \<and> err = Some e \<and> wires = [])
        | None \<Rightarrow>
            err \<noteq> None \<and> wires = [] \<and> cc_Succeeded r = cc_Succeeded res \<and> cc_ServedBy r = cc_ServedBy res
            \<and> cc_Attempts r = (if i < length steps then length steps else cc_Attempts res)
            \<and> (cc_LocalStepFailed r \<longleftrightarrow> cc_LocalStepFailed res \<or> local_in steps i (length steps))))"

lemma fell_back_fields [simp]:
  "cc_LocalStepFailed (fell_back s t e r) = cc_LocalStepFailed r" "cc_Succeeded (fell_back s t e r) = cc_Succeeded r"
  "cc_ServedBy (fell_back s t e r) = cc_ServedBy r" "cc_Attempts (fell_back s t e r) = cc_Attempts r"
  "cc_RouteAttempted (fell_back s t e r) = cc_RouteAttempted r"
  "cc_FallbackRoute (fell_back s t e r) = (if classifyFailure e then st_Name s else cc_FallbackRoute r)"
  by (simp_all add: fell_back_def)

lemma tried_fields [simp]:
  "cc_LocalStepFailed (tried ss i r) = cc_LocalStepFailed r" "cc_Succeeded (tried ss i r) = cc_Succeeded r"
  "cc_ServedBy (tried ss i r) = cc_ServedBy r" "cc_Attempts (tried ss i r) = i + 1"
  "cc_RouteAttempted (tried ss i r) = joinStepNames (take (i + 1) ss)" "cc_FallbackRoute (tried ss i r) = cc_FallbackRoute r"
  by (simp_all add: tried_def)

lemma run_loop_spec:
  assumes "ca_Coalescer c = None"
  shows "run_spec L wr W steps i c res (run_loop L wr W steps i c res lastErr seen)"
proof (induction "length steps - i" arbitrary: i res lastErr seen)
  case 0
  then show ?case
    by (subst run_loop.simps) (auto simp: run_spec_def decisive_end local_in_def)
next
  case (Suc n)
  then have i: "i < length steps" by simp
  let ?o = "outcome L c (steps ! i) (W i)"
  obtain b where f: "fetchCascadeStep L c (steps ! i) (W i) = (c, ?o, b)"
    using fetch_direct [OF assms] by blast
  show ?case
  proof (cases ?o)
    case (Inr m)
    obtain msg model body where m: "m = (msg, model, body)" by (rule prod_cases3)
    have d: "decisive L c W steps i = Some i" using i Inr by (simp add: decisive_step moves_on_def)
    show ?thesis
      by (subst run_loop.simps)
        (simp add: i f Inr m Let_def run_spec_def d local_in_def split: prod.split)
  next
    case (Inl e)
    show ?thesis
    proof (cases "classifyFailure e")
      case False
      have d: "decisive L c W steps i = Some i" using i Inl False by (simp add: decisive_step moves_on_def)
      show ?thesis
        by (subst run_loop.simps) (simp add: i f Inl False Let_def run_spec_def d local_in_def)
    next
      case True
      have d: "decisive L c W steps i = decisive L c W steps (i + 1)"
        using i Inl True by (simp add: decisive_step moves_on_def)
      define res' where "res' = fell_back (steps ! i) (at_elapsed (W i)) e
        (if st_Name (steps ! i) = ''local'' then (tried steps i res)\<lparr>cc_LocalStepFailed := True\<rparr> else tried steps i res)"
      have IH: "run_spec L wr W steps (i + 1) c res' (run_loop L wr W steps (i + 1) c res' (Some e) s)" for s
        using Suc.hyps(1) [of "i + 1"] Suc.hyps(2) by simp
      have step: "run_loop L wr W steps i c res lastErr seen
          = run_loop L wr W steps (i + 1) c res' (Some e) (seen @ (if b then [i] else []))"
        by (subst run_loop.simps) (simp add: i f Inl True Let_def res'_def)
      obtain c' r err wires sn where out: "run_loop L wr W steps i c res lastErr seen = (c', r, err, wires, sn)"
        by (metis prod_cases5)
      have new: "cc_LocalStepFailed res' \<longleftrightarrow> cc_LocalStepFailed res \<or> st_Name (steps ! i) = ''local''"
        "cc_FallbackRoute res' = st_Name (steps ! i)" "cc_Succeeded res' = cc_Succeeded res"
        "cc_ServedBy res' = cc_ServedBy res" "cc_Attempts res' = i + 1"
        using True by (simp_all add: res'_def)
      have spec: "run_spec L wr W steps (i + 1) c res' (c', r, err, wires, sn)"
        using IH step out by simp
      show ?thesis
      proof (cases "decisive L c W steps (i + 1)")
        case None
        have "c' = c" "err \<noteq> None" "wires = []" "cc_Succeeded r = cc_Succeeded res" "cc_ServedBy r = cc_ServedBy res"
          "cc_Attempts r = (if i + 1 < length steps then length steps else i + 1)"
          "cc_LocalStepFailed r \<longleftrightarrow> cc_LocalStepFailed res' \<or> local_in steps (i + 1) (length steps)"
          using spec by (simp_all only: run_spec_def None new prod.case option.case simp_thms)
        moreover have "(if i + 1 < length steps then length steps else i + 1) = length steps" using i by simp
        ultimately show ?thesis
          unfolding out run_spec_def d None prod.case option.case using i new(1) local_in_step [OF i] by simp
      next
        case (Some k)
        then have k: "i < k" using decisive_ge by fastforce
        have "c' = c" "cc_Attempts r = k + 1" "cc_RouteAttempted r = joinStepNames (take (k + 1) steps)"
          "cc_FallbackRoute r = (if k = i + 1 then st_Name (steps ! i) else st_Name (steps ! (k - 1)))"
          "cc_LocalStepFailed r \<longleftrightarrow> cc_LocalStepFailed res' \<or> local_in steps (i + 1) k"
          "case outcome L c (steps ! k) (W k) of
             Inr (msg, model, body) \<Rightarrow> cc_Succeeded r \<and> cc_ServedBy r = st_Name (steps ! k) \<and> cc_ToolCalls r = am_ToolCalls msg
               \<and> (wires, err) = writeSSEResponse (wr_fault wr) (wr_flusher wr) (wr_created wr) (st_Name (steps ! k)) model msg
           | Inl e \<Rightarrow> cc_Succeeded r = cc_Succeeded res \<and> cc_ServedBy r = cc_ServedBy res \<and> err = Some e \<and> wires = []"
          using spec by (simp_all only: run_spec_def Some new prod.case option.case)
        then show ?thesis
          unfolding out run_spec_def d Some prod.case option.case
          using k new(1) local_in_step [OF k] by auto
      qed
    qed
  qed
qed

section \<open>Buffered answers\<close>

lemma buffered_wires:
  "buffered_loop L bf W steps i c res lastErr seen = (c', r, err, wires, sn) \<Longrightarrow> \<not> cc_Succeeded res \<Longrightarrow>
   if cc_Succeeded r then \<exists>k<length steps. \<exists>rest. wires = Head 200 (Some ''application/json'') (st_Name (steps ! k)) # rest
   else err \<noteq> None \<and> (\<exists>srv. wires = [Head 200 None srv])"
proof (induction "length steps - i" arbitrary: i c res lastErr seen)
  case 0
  then show ?case using buffered_loop.simps [of L bf W steps i c res lastErr seen] by auto
next
  case (Suc n)
  then have i: "i < length steps" by simp
  obtain c1 o1 b where f: "fetchCascadeStep L c (steps ! i) (W i) = (c1, o1, b)" by (rule prod_cases3)
  show ?case
  proof (cases o1)
    case (Inr m)
    obtain msg model body where m: "m = (msg, model, body)" by (rule prod_cases3)
    show ?thesis using Suc.prems i buffered_loop.simps [of L bf W steps i c res lastErr seen]
      by (auto simp: f Inr m Let_def)
  next
    case (Inl e)
    show ?thesis
    proof (cases "classifyFailure e")
      case False
      then show ?thesis using Suc.prems buffered_loop.simps [of L bf W steps i c res lastErr seen]
        by (auto simp: i f Inl Let_def)
    next
      case True
      have "buffered_loop L bf W steps (i + 1) c1 (fell_back (steps ! i) (at_elapsed (W i)) e (tried steps i res)) (Some e)
          (seen @ (if b then [i] else [])) = (c', r, err, wires, sn)"
        using Suc.prems(1) buffered_loop.simps [of L bf W steps i c res lastErr seen]
        by (simp add: i f Inl True Let_def)
      moreover have "n = length steps - (i + 1)" using Suc.hyps(2) by simp
      ultimately show ?thesis using Suc.hyps(1) Suc.prems(2) by simp
    qed
  qed
qed

lemma run_wires:
  "run_loop L wr W steps i c res lastErr seen = (c', r, err, wires, sn) \<Longrightarrow> \<not> cc_Succeeded res \<Longrightarrow>
   \<not> cc_Succeeded r \<Longrightarrow> err \<noteq> None \<and> wires = []"
proof (induction "length steps - i" arbitrary: i c res lastErr seen)
  case 0
  then show ?case using run_loop.simps [of L wr W steps i c res lastErr seen] by auto
next
  case (Suc n)
  then have i: "i < length steps" by simp
  obtain c1 o1 b where f: "fetchCascadeStep L c (steps ! i) (W i) = (c1, o1, b)" by (rule prod_cases3)
  show ?case
  proof (cases o1)
    case (Inr m)
    obtain msg model body where m: "m = (msg, model, body)" by (rule prod_cases3)
    show ?thesis using Suc.prems run_loop.simps [of L wr W steps i c res lastErr seen]
      by (auto simp: i f Inr m Let_def split: prod.splits)
  next
    case (Inl e)
    show ?thesis
    proof (cases "classifyFailure e")
      case False
      then show ?thesis using Suc.prems run_loop.simps [of L wr W steps i c res lastErr seen]
        by (auto simp: i f Inl Let_def)
    next
      case True
      let ?res = "if st_Name (steps ! i) = ''local'' then (tried steps i res)\<lparr>cc_LocalStepFailed := True\<rparr> else tried steps i res"
      have "run_loop L wr W steps (i + 1) c1 (fell_back (steps ! i) (at_elapsed (W i)) e ?res) (Some e)
          (seen @ (if b then [i] else [])) = (c', r, err, wires, sn)"
        using Suc.prems(1) run_loop.simps [of L wr W steps i c res lastErr seen]
        by (simp add: i f Inl True Let_def)
      moreover have "n = length steps - (i + 1)" using Suc.hyps(2) by simp
      ultimately show ?thesis using Suc.hyps(1) Suc.prems(2,3) by simp
    qed
  qed
qed

section \<open>What an answer must be\<close>

definition complete_call :: "cascade_lib \<Rightarrow> tool_call \<Rightarrow> bool" where
  "complete_call L tc \<longleftrightarrow> tc_ID tc \<noteq> [] \<and> tc_Type tc \<noteq> [] \<and> tc_Name tc \<noteq> []
     \<and> (tc_Arguments tc = [] \<or> cl_raw L (tc_Arguments tc) = None)"

lemma check_calls_None: "check_calls L i tcs = None \<longleftrightarrow> (\<forall>tc\<in>set tcs. complete_call L tc)"
  by (induction L i tcs rule: check_calls.induct) (auto simp: complete_call_def split: option.splits)

lemma classify_simps [simp]: "classifyFailure (Tagged retry reason msg) = retry" "classifyFailure (Untagged msg)"
  by (simp_all add: classifyFailure_def)

lemma check_calls_Some: "check_calls L i tcs = Some e \<Longrightarrow> classifyFailure e"
  by (induction L i tcs rule: check_calls.induct) (auto split: option.splits if_splits)

lemma extract_Inl: "extractAssistantMessage L body = Inl e \<Longrightarrow> classifyFailure e"
  by (auto simp: extractAssistantMessage_def split: sum.splits list.splits option.splits dest: check_calls_Some)

lemma extract_Inr:
  "extractAssistantMessage L body = Inr (msg, model) \<longleftrightarrow>
     (\<exists>ms. cl_unmarshal L body = Inr (model, msg # ms)) \<and> (\<forall>tc\<in>set (am_ToolCalls msg). complete_call L tc)"
  using check_calls_None [of L 0 "am_ToolCalls msg"]
  by (auto simp: extractAssistantMessage_def split: sum.splits list.splits option.splits)

definition body_limit :: "cascade \<Rightarrow> nat" where
  "body_limit c = nat (if ca_MaxResponseBytes c \<le> 0 then defaultMaxResponseBytes else ca_MaxResponseBytes c)"

definition transient :: "cascade_step \<Rightarrow> exchange \<Rightarrow> bool" where
  "transient step x \<longleftrightarrow>
     (case x of
        RequestFailed _ \<Rightarrow> False
      | TransportFailed _ _ \<Rightarrow> True
      | Reply status _ _ (Some _) \<Rightarrow> True
      | Reply status _ _ None \<Rightarrow> status \<in> {200, 408, 429, 500, 502, 503, 504} \<or> status = 404 \<and> st_Name step = ''local'')"

section \<open>Properties\<close>

text \<open>
  Which attempts end a cascade. An attempt is served exactly when it is a readable reply with
  status 200 whose first choice has only complete tool calls with JSON arguments. A failure falls
  back exactly when it is a transport error or timeout, an unreadable body, status 408, 429, 500,
  502, 503 or 504, a 404 of the local step, or a 200 that fails validation; every other status,
  also 501 or 529, ends the cascade.
\<close>
theorem cascade_attempt_classified:
  "case fst (doFetchCascadeStep L c step now x) of
     Inr (msg, model, body) \<Rightarrow> \<exists>ra stream ms. x = Reply 200 ra stream None \<and> body = take (body_limit c) stream
       \<and> cl_unmarshal L body = Inr (model, msg # ms) \<and> list_all (complete_call L) (am_ToolCalls msg)
   | Inl e \<Rightarrow> (classifyFailure e = transient step x)
       \<and> \<not> (\<exists>ra stream msg model. x = Reply 200 ra stream None \<and>
            extractAssistantMessage L (take (body_limit c) stream) = Inr (msg, model))"
proof (cases x)
  case (Reply status ra stream readErr)
  have lim: "take (nat (if ca_MaxResponseBytes c \<le> 0 then defaultMaxResponseBytes else ca_MaxResponseBytes c)) stream
      = take (body_limit c) stream" by (simp add: body_limit_def)
  show ?thesis
  proof (cases readErr)
    case (Some e)
    then show ?thesis by (simp add: Reply doFetchCascadeStep_def Let_def transient_def)
  next
    case None
    show ?thesis
    proof (cases "status = 200")
      case False
      then show ?thesis
        by (auto simp: Reply None doFetchCascadeStep_def Let_def transient_def ShouldRetry_def)
    next
      case True
      have d: "fst (doFetchCascadeStep L c step now (Reply 200 ra stream None)) = (case extractAssistantMessage L (take (body_limit c) stream) of
          Inl e \<Rightarrow> Inl e | Inr (msg, model) \<Rightarrow> Inr (msg, model, take (body_limit c) stream))"
        by (simp add: doFetchCascadeStep_def Let_def ShouldRetry_def lim split del: if_split split: sum.split prod.split)
      show ?thesis
      proof (cases "extractAssistantMessage L (take (body_limit c) stream)")
        case (Inl e)
        then show ?thesis using extract_Inl [OF Inl] by (simp add: d Reply None True transient_def)
      next
        case (Inr mm)
        obtain msg model where "mm = (msg, model)" by fastforce
        then show ?thesis using Inr extract_Inr [of L "take (body_limit c) stream" msg model]
          by (simp add: d Reply None True list_all_iff)
      qed
    qed
  qed
qed (simp_all add: doFetchCascadeStep_def transient_def)

text \<open>
  C6: What a cascade does. Without a coalescer the first attempt that is served or fails for good
  decides: the route attempted names the steps up to it, a served answer is written once as an event
  stream with the name of its step, an error that is not retryable is returned with nothing written;
  when no attempt decides, an error is returned and nothing written. The local step counts as failed
  exactly when it is one of the steps that fell back.
\<close>
theorem cascade_run_exact:
  assumes "ca_Steps c \<noteq> []" "ca_Coalescer c = None"
    and "Run L wr W c = (c', r, err, wires, seen)"
  shows "case decisive L c W (ca_Steps c) 0 of
      Some k \<Rightarrow>
        cc_Attempts r = k + 1 \<and> cc_RouteAttempted r = joinStepNames (take (k + 1) (ca_Steps c))
        \<and> cc_FallbackRoute r = (if k = 0 then [] else st_Name (ca_Steps c ! (k - 1)))
        \<and> (cc_LocalStepFailed r \<longleftrightarrow> local_in (ca_Steps c) 0 k)
        \<and> (case outcome L c (ca_Steps c ! k) (W k) of
             Inr (msg, model, body) \<Rightarrow> cc_Succeeded r \<and> cc_ServedBy r = st_Name (ca_Steps c ! k) \<and> cc_ToolCalls r = am_ToolCalls msg
               \<and> (wires, err) = writeSSEResponse (wr_fault wr) (wr_flusher wr) (wr_created wr) (st_Name (ca_Steps c ! k)) model msg
           | Inl e \<Rightarrow> \<not> cc_Succeeded r \<and> cc_ServedBy r = [] \<and> err = Some e \<and> wires = [])
    | None \<Rightarrow>
        err \<noteq> None \<and> wires = [] \<and> \<not> cc_Succeeded r \<and> cc_ServedBy r = [] \<and> cc_Attempts r = length (ca_Steps c)
        \<and> (cc_LocalStepFailed r \<longleftrightarrow> local_in (ca_Steps c) 0 (length (ca_Steps c)))"
proof -
  have "run_spec L wr W (ca_Steps c) 0 c no_result (c', r, err, wires, seen)"
    using run_loop_spec [OF assms(2), of L wr W "ca_Steps c" 0 no_result None "[]"] assms(1,3) by (simp add: Run_def)
  then show ?thesis
    using assms(1) by (simp add: run_spec_def cong: option.case_cong sum.case_cong if_cong split del: if_split)
qed

text \<open>
  How a failed cascade leaves the response. When no attempt was served, \<open>Run\<close> has written
  nothing, so the caller can still answer with an error status; \<open>RunBuffered\<close> has always committed
  an empty response with status 200.
\<close>
theorem buffered_failure_answers_200:
  assumes "ca_Steps c \<noteq> []"
    and "Run L wr W c = (c1, r1, err1, wires1, seen1)" "\<not> cc_Succeeded r1"
    and "RunBuffered L bf W c = (c2, r2, err2, wires2, seen2)" "\<not> cc_Succeeded r2"
  shows "err1 \<noteq> None \<and> wires1 = [] \<and> err2 \<noteq> None \<and> (\<exists>srv. wires2 = [Head 200 None srv])"
proof -
  show ?thesis
    using run_wires [of L wr W "ca_Steps c" 0 c no_result None "[]"]
      buffered_wires [of L bf W "ca_Steps c" 0 c no_result None "[]"] assms
    by (simp add: Run_def RunBuffered_def)
qed

text \<open>
  The timeout of an attempt with adaptive scaling. It is positive and never above the ceiling in
  use; it is not below the floor unless the floor exceeds that ceiling; and as long as the product
  of rate and tokens fits 63 bits, a longer prompt never gets less time.
\<close>
theorem adaptive_timeout_bounds:
  assumes "0 < ca_TimeoutPer1kTokens c"
    and "lo = (if ca_TimeoutFloor c \<le> 0 then cascadeDefaultFloor else ca_TimeoutFloor c)"
    and "hi = (if ca_TimeoutCeiling c \<le> 0 \<or> ca_TimeoutCeiling c < lo then cascadeDefaultCeiling else ca_TimeoutCeiling c)"
  shows "0 < effectiveTimeout c tokens \<and> effectiveTimeout c tokens \<le> hi \<and> (lo \<le> hi \<longrightarrow> lo \<le> effectiveTimeout c tokens)
    \<and> (tokens \<le> tokens' \<and> lo + ca_TimeoutPer1kTokens c * int tokens' < 2 ^ 63 \<longrightarrow>
         effectiveTimeout c tokens \<le> effectiveTimeout c tokens')"
proof -
  let ?r = "ca_TimeoutPer1kTokens c"
  define raw where "raw t = wrap64 (lo + go_div (wrap64 (?r * int t)) 1000)" for t
  have eq: "effectiveTimeout c t = min hi (max lo (raw t))" for t
    using assms(1)
    unfolding effectiveTimeout_def Let_def assms(2) [symmetric] assms(3) [symmetric] raw_def [symmetric]
    by auto
  have pos: "0 < lo" "0 < hi"
    using assms(2,3) by (auto simp: cascadeDefaultFloor_def cascadeDefaultCeiling_def)
  have exact: "raw t = lo + ?r * int t div 1000" if "lo + ?r * int t < 2 ^ 63" for t
  proof -
    have n: "0 \<le> ?r * int t" using assms(1) by simp
    have w: "wrap64 (?r * int t) = ?r * int t" using n that pos by (intro wrap64_id) linarith+
    have "0 \<le> ?r * int t div 1000" "?r * int t div 1000 \<le> ?r * int t"
      using n by simp_all
    then show ?thesis using n w that pos by (simp add: raw_def wrap64_id)
  qed
  have "raw tokens \<le> raw tokens'" if "tokens \<le> tokens'" "lo + ?r * int tokens' < 2 ^ 63"
  proof -
    have m: "?r * int tokens \<le> ?r * int tokens'" using that(1) assms(1) by (intro mult_left_mono) simp_all
    then have "lo + ?r * int tokens < 2 ^ 63" using that(2) by linarith
    then show ?thesis using exact that(2) m by (simp add: zdiv_mono1)
  qed
  then show ?thesis using pos by (auto simp: eq)
qed

text \<open>
  A coalescer can take the fallback away. When two steps name the same model, their flight keys
  agree, because the key holds the method, the model and the body but not the endpoint. A retryable
  failure of the first is stored like a result, so within the TTL the second endpoint is never
  contacted, whatever it would answer, and the cascade fails.
\<close>
theorem same_model_fallback_blocked:
  assumes "ca_Steps c = [s1, s2]" "st_Model s2 = st_Model s1" "ca_Coalescer c = Some co"
    and "cl_marshal L (st_Model s1) = Inr json" "at_clock (W 0) = (t0, t1, t2)"
    and "Do_lookup co t0 (FlightKey (cl_sha256hex L) FlightKeyMethod (st_Model s1) json) = None"
    and "fst (doFetchCascadeStep L c s1 (at_now (W 0)) (at_exchange (W 0))) = Inl e" "classifyFailure e"
    and "fst (at_clock (W 1)) < t2 + co_ttl co"
  shows "case Run L wr W c of (c', r, err, wires, seen) \<Rightarrow>
    seen = [0] \<and> cc_Attempts r = 2 \<and> \<not> cc_Succeeded r \<and> err \<noteq> None \<and> wires = []"
proof -
  let ?k = "FlightKey (cl_sha256hex L) FlightKeyMethod (st_Model s1) json"
  let ?co = "Do_flight co t1 t2 ?k (as_flight (Inl e))"
  let ?c = "c\<lparr>ca_Coalescer := Some ?co\<rparr>"
  have f0: "fetchCascadeStep L c s1 (W 0) = (?c, Inl e, True)"
    using assms(3-7) by (simp add: fetchCascadeStep_def Do_def as_flight_def of_flight_def)
  obtain u0 u1 u2 where u: "at_clock (W 1) = (u0, u1, u2)" by (rule prod_cases3)
  have "Do_lookup ?co u0 ?k = Some (as_flight (Inl e))"
    using assms(9) u by (simp add: Do_lookup_def Do_flight_def Let_def evictExpiredLocked_def evictOldestLocked_def
        split: prod.split list.split)
  then have f1: "fetchCascadeStep L ?c s2 (W 1) = (?c, Inl e, False)"
    using assms(2,4) u by (simp add: fetchCascadeStep_def Do_def as_flight_def of_flight_def)
  have two: "run_loop L wr W [s1, s2] (Suc (Suc 0)) d res le sn
      = (d, res\<lparr>cc_FallbackReason := CascadeFallbackReason le\<rparr>,
          Some (Wrapped (''cascade: all '' @ decimal 2 @ '' steps failed; last error'')
              (case le of Some e \<Rightarrow> e | None \<Rightarrow> Untagged ''cascade: no steps attempted'')), [], sn)" for d res le sn
    by (subst run_loop.simps) (simp add: numeral_2_eq_2)
  have one: "run_loop L wr W [s1, s2] (Suc 0) ?c res le sn =
      (let res1 = tried [s1, s2] 1 res;
           res2 = fell_back s2 (at_elapsed (W 1)) e (if st_Name s2 = ''local'' then res1\<lparr>cc_LocalStepFailed := True\<rparr> else res1)
       in run_loop L wr W [s1, s2] (Suc (Suc 0)) ?c res2 (Some e) sn)" for res le sn
    using f1 assms(8) by (subst run_loop.simps) (simp add: Let_def)
  show ?thesis
    using f0 assms(1,8) one two
    by (simp add: Run_def run_loop.simps [of L wr W "[s1, s2]" 0 c] Let_def)
qed

section \<open>Examples\<close>

definition good_message :: assistant_message where
  "good_message = \<lparr>am_Content = ''ok'', am_ToolCalls = []\<rparr>"

definition demo_lib :: cascade_lib where
  "demo_lib = \<lparr>cl_marshal = Inr, cl_sha256hex = (\<lambda>s. s), cl_unmarshal = (\<lambda>b. Inr (''m'', [good_message])),
     cl_raw = (\<lambda>_. None), cl_date = (\<lambda>_. None)\<rparr>"

definition demo_cascade :: "(assistant_message, cascade_err) coalescer option \<Rightarrow> cascade" where
  "demo_cascade co = (BuildLocalCascade
     \<lparr>cg_LocalURL = ''http://l/'', cg_LocalModel = ''m'', cg_FrontierURL = ''http://f'', cg_FrontierModel = ''m'',
      cg_FrontierKey = ''k'', cg_ZAIURL = [], cg_ZAIModel = [], cg_ZAIKey = [], cg_Timeout = 0, cg_TimeoutFloor = 0,
      cg_TimeoutCeiling = 0, cg_TimeoutPer1kTokens = 1500, cg_MaxResponseBytes = 0, cg_SkipLocal = False\<rparr>)\<lparr>ca_Coalescer := co\<rparr>"

definition demo_attempts :: "exchange list \<Rightarrow> nat \<Rightarrow> attempt" where
  "demo_attempts xs i = \<lparr>at_exchange = xs ! i, at_now = 0, at_clock = (0, 0, 0), at_elapsed = 5\<rparr>"

definition demo_client :: client where
  "demo_client = \<lparr>wr_fault = NoFault, wr_flusher = True, wr_created = 0\<rparr>"

definition local_step :: cascade_step where
  "local_step = \<lparr>st_Name = ''local'', st_URL = ''http://l/v1/chat/completions'', st_APIKey = [], st_Model = ''m'', st_AuthHeaders = None\<rparr>"

definition frontier_step :: cascade_step where
  "frontier_step = \<lparr>st_Name = ''frontier'', st_URL = ''http://f'', st_APIKey = ''k'', st_Model = ''m'', st_AuthHeaders = None\<rparr>"

lemma demo_cascade_fields [simp]:
  "ca_Steps (demo_cascade co) = [local_step, frontier_step]" "ca_Coalescer (demo_cascade co) = co"
  "ca_MaxResponseBytes (demo_cascade co) = 0"
  "ca_TimeoutPer1kTokens (demo_cascade co) = 1500" "ca_TimeoutFloor (demo_cascade co) = 0" "ca_TimeoutCeiling (demo_cascade co) = 0"
  by (simp_all add: demo_cascade_def BuildLocalCascade_def trim_slashes_def local_step_def frontier_step_def)

text \<open>The local model times out, the frontier answers.\<close>

definition timed_out_then_good :: "nat \<Rightarrow> attempt" where
  "timed_out_then_good = demo_attempts [TransportFailed True ''t'', Reply 200 [] ''{}'' None]"

lemma demo_outcomes:
  "outcome demo_lib (demo_cascade None) local_step (timed_out_then_good 0) = Inl (Tagged True ''timeout'' ''transport: t'')"
  "outcome demo_lib (demo_cascade None) frontier_step (timed_out_then_good 1) = Inr (good_message, ''m'', ''{}'')"
  "outcome demo_lib (demo_cascade None) frontier_step (timed_out_then_good (Suc 0)) = Inr (good_message, ''m'', ''{}'')"
  by (simp_all add: outcome_def fetchCascadeStep_def demo_lib_def timed_out_then_good_def demo_attempts_def
      doFetchCascadeStep_def ShouldRetry_def extractAssistantMessage_def good_message_def defaultMaxResponseBytes_def)

lemma demo_decisive: "decisive demo_lib (demo_cascade None) timed_out_then_good [local_step, frontier_step] 0 = Some 1"
  by (simp add: decisive_step demo_outcomes moves_on_def)

theorem cascade_run_exact_witness:
  "\<exists>c' r err wires seen. Run demo_lib demo_client timed_out_then_good (demo_cascade None) = (c', r, err, wires, seen)
     \<and> cc_RouteAttempted r = ''local->frontier'' \<and> cc_ServedBy r = ''frontier'' \<and> cc_LocalStepFailed r \<and> err = None \<and> length wires = 4"
proof -
  obtain c' r err wires seen where run: "Run demo_lib demo_client timed_out_then_good (demo_cascade None) = (c', r, err, wires, seen)"
    by (metis prod_cases5)
  have "ca_Steps (demo_cascade None) \<noteq> []" by simp
  from cascade_run_exact [OF this demo_cascade_fields(2) run]
  have "cc_RouteAttempted r = joinStepNames [local_step, frontier_step]" "cc_ServedBy r = ''frontier''"
    "cc_LocalStepFailed r \<longleftrightarrow> local_in [local_step, frontier_step] 0 1"
    "(wires, err) = writeSSEResponse NoFault True 0 ''frontier'' ''m'' good_message"
    by (simp_all add: demo_decisive demo_outcomes demo_client_def) (simp_all add: frontier_step_def)
  then show ?thesis using run
    by (auto simp: joinStepNames_def Join_def local_in_def local_step_def frontier_step_def writeSSEResponse_def)
qed

text \<open>The only attempt is refused for good: a status 401.\<close>

definition refused :: "nat \<Rightarrow> attempt" where
  "refused = demo_attempts [Reply 401 [] ''no'' None]"

lemma refused_fetch:
  "fetchCascadeStep demo_lib (demo_cascade None) local_step (refused 0)
     = (demo_cascade None, Inl (Tagged False [] (''status '' @ decimal 401 @ '': no'')), True)"
  by (simp add: fetchCascadeStep_def demo_lib_def refused_def demo_attempts_def doFetchCascadeStep_def ShouldRetry_def
      truncateForLog_def truncateSuffix_def defaultMaxResponseBytes_def)

theorem buffered_failure_answers_200_witness:
  "\<exists>c1 r1 err1 seen1 c2 r2 err2 wires2 seen2.
     Run demo_lib demo_client refused (demo_cascade None) = (c1, r1, err1, [], seen1)
     \<and> RunBuffered demo_lib None refused (demo_cascade None) = (c2, r2, err2, wires2, seen2)
     \<and> err1 \<noteq> None \<and> err2 \<noteq> None \<and> (\<exists>srv. wires2 = [Head 200 None srv])"
proof -
  obtain c1 r1 err1 wires1 seen1 where 1: "Run demo_lib demo_client refused (demo_cascade None) = (c1, r1, err1, wires1, seen1)"
    by (metis prod_cases5)
  obtain c2 r2 err2 wires2 seen2 where 2: "RunBuffered demo_lib None refused (demo_cascade None) = (c2, r2, err2, wires2, seen2)"
    by (metis prod_cases5)
  have "\<not> cc_Succeeded (fst (snd (Run demo_lib demo_client refused (demo_cascade None))))"
    by (simp add: Run_def) (subst run_loop.simps, simp add: refused_fetch Let_def)
  moreover have "\<not> cc_Succeeded (fst (snd (RunBuffered demo_lib None refused (demo_cascade None))))"
    by (simp add: RunBuffered_def) (subst buffered_loop.simps, simp add: refused_fetch Let_def)
  ultimately show ?thesis
    using buffered_failure_answers_200 [OF _ 1 _ 2] 1 2 by simp
qed

theorem adaptive_timeout_bounds_witness:
  "cascadeDefaultFloor \<le> effectiveTimeout (demo_cascade None) 2000
     \<and> effectiveTimeout (demo_cascade None) 2000 \<le> effectiveTimeout (demo_cascade None) 4000"
proof -
  have "(0::int) < ca_TimeoutPer1kTokens (demo_cascade None)" by simp
  from adaptive_timeout_bounds [OF this refl refl, where tokens = "2000" and tokens' = "4000"]
  show ?thesis by (simp add: cascadeDefaultFloor_def cascadeDefaultCeiling_def)
qed

text \<open>A misconfigured ceiling falls back to two minutes, below a floor of three.\<close>

lemma floor_not_respected:
  "effectiveTimeout (demo_cascade None \<lparr>ca_TimeoutFloor := 180 * second\<rparr>) 0 = 120 * second"
  by (simp add: effectiveTimeout_def Let_def cascadeDefaultCeiling_def wrap64_id)

text \<open>The authentication headers of a step do not replace the bearer token: they come second.\<close>

lemma auth_headers_do_not_override:
  "request_headers (\<lambda>k. k) (frontier_step\<lparr>st_AuthHeaders := Some [(''Authorization'', [''Basic x''])]\<rparr>) [] ''Authorization''
     = Some [''Bearer k'', ''Basic x'']"
  by (simp add: request_headers_def frontier_step_def header_set_def header_add_def Let_def)

theorem same_model_fallback_blocked_witness:
  "case Run demo_lib demo_client timed_out_then_good (demo_cascade (Some (NewCoalescer 5 0))) of (c', r, err, wires, seen) \<Rightarrow>
     seen = [0] \<and> cc_Attempts r = 2 \<and> \<not> cc_Succeeded r \<and> err \<noteq> None \<and> wires = []"
proof (rule same_model_fallback_blocked [where json = "''m''" and ?t0.0 = "0" and ?t1.0 = "0" and ?t2.0 = "0"])
  show "fst (doFetchCascadeStep demo_lib (demo_cascade (Some (NewCoalescer 5 0))) local_step (at_now (timed_out_then_good 0))
      (at_exchange (timed_out_then_good 0))) = Inl (Tagged True ''timeout'' ''transport: t'')"
    by (simp add: doFetchCascadeStep_def timed_out_then_good_def demo_attempts_def)
qed (auto simp: local_step_def frontier_step_def demo_lib_def timed_out_then_good_def demo_attempts_def NewCoalescer_def Do_lookup_def)

end
