(* ===== verification/BufPool.thy ===== *)
theory BufPool
  imports Prelude
begin

text \<open>
  \<open>internal/ioutils/limited.go\<close>: limited reads and the pool of response buffers, with the memory they
  share. A \<open>bytes.Buffer\<close> is an array and a length; its \<open>Bytes()\<close> is a slice of that array, so what a
  slice reads as depends on what was written to the array since. The memory is the list of the
  arrays, an array's capacity is its length. \<open>sync.Pool\<close> may hand out any of its buffers or none.
\<close>

section \<open>Memory\<close>

record buffer =
  bf_arr :: nat
  bf_len :: nat

record bufpool =
  bp_mem :: "string list"
  bp_pool :: "buffer list"
  bp_max :: int
  bp_truncated :: "64 word"

definition defaultPoolBufferMaxBytes :: int where "defaultPoolBufferMaxBytes = 2 ^ 20"

definition start_pool :: bufpool where
  "start_pool = \<lparr>bp_mem = [], bp_pool = [], bp_max = defaultPoolBufferMaxBytes, bp_truncated = 0\<rparr>"

definition SetPoolBufferMaxBytes :: "bufpool \<Rightarrow> int \<Rightarrow> bufpool" where
  "SetPoolBufferMaxBytes p n = p\<lparr>bp_max := n\<rparr>"

definition PoolBufferMaxBytes :: "bufpool \<Rightarrow> int" where "PoolBufferMaxBytes p = bp_max p"

definition IncrementReadTruncationCounter :: "bufpool \<Rightarrow> bufpool" where
  "IncrementReadTruncationCounter p = p\<lparr>bp_truncated := bp_truncated p + 1\<rparr>"

definition ReadAllTruncatedCounter :: "bufpool \<Rightarrow> 64 word" where
  "ReadAllTruncatedCounter p = bp_truncated p"

text \<open>A slice is an array and a length; this is its content now.\<close>

definition content :: "string list \<Rightarrow> buffer \<Rightarrow> string" where
  "content mem s = take (bf_len s) (mem ! bf_arr s)"

section \<open>Reading\<close>

text \<open>
  A reader is the chunks it would deliver to a large enough destination; a limited one delivers the
  first \<open>n\<close> bytes of them.
\<close>

fun limited :: "nat \<Rightarrow> string list \<Rightarrow> string list" where
  "limited n [] = []"
| "limited n (c # cs) = (if n = 0 then [] else take n c # limited (n - length c) cs)"

text \<open>
  \<open>bytes.Buffer.ReadFrom\<close>: before every read, also the one that finds the end, at least 512 bytes are
  free, in the same array or in a new one with a copy; \<open>grow\<close> is the allocator's choice of capacity.
\<close>

definition minRead :: nat where "minRead = 512"

definition make_free :: "(nat \<Rightarrow> nat) \<Rightarrow> string list \<Rightarrow> buffer \<Rightarrow> string list \<times> buffer" where
  "make_free grow mem b =
     (let cap = length (mem ! bf_arr b); n = max (bf_len b + minRead) (grow cap)
      in if bf_len b + minRead \<le> cap then (mem, b)
         else (mem @ [content mem b @ replicate (n - length (content mem b)) (CHR 0x00)], b\<lparr>bf_arr := length mem\<rparr>))"

definition write_at :: "nat \<Rightarrow> string \<Rightarrow> string \<Rightarrow> string" where
  "write_at i c s = take i s @ c @ drop (i + length c) s"

function read_from :: "(nat \<Rightarrow> nat) \<Rightarrow> string list \<Rightarrow> buffer \<Rightarrow> string list \<Rightarrow> string list \<times> buffer" where
  "read_from grow mem b cs =
     (case make_free grow mem b of (mem, b) \<Rightarrow>
       (case cs of
          [] \<Rightarrow> (mem, b)
        | c # cs \<Rightarrow>
            (let m = min (length c) (max minRead (length (mem ! bf_arr b) - bf_len b));
                 mem = mem[bf_arr b := write_at (bf_len b) (take m c) (mem ! bf_arr b)];
                 b = b\<lparr>bf_len := bf_len b + m\<rparr>
             in read_from grow mem b (if m < length c then drop m c # cs else cs))))"
  by pat_completeness auto

termination
proof (relation "measure (\<lambda>(grow, mem, b, cs). sum_list (map length cs) + length cs)")
qed (auto simp: minRead_def Let_def min_def)

declare read_from.simps [simp del]

section \<open>The pool\<close>

definition GetBuffer :: "bufpool \<Rightarrow> nat option \<Rightarrow> bufpool \<times> buffer" where
  "GetBuffer p pick =
     (case pick of
        Some i \<Rightarrow>
          if i < length (bp_pool p)
          then (p\<lparr>bp_pool := take i (bp_pool p) @ drop (Suc i) (bp_pool p)\<rparr>, bp_pool p ! i)
          else (p\<lparr>bp_mem := bp_mem p @ [[]]\<rparr>, \<lparr>bf_arr = length (bp_mem p), bf_len = 0\<rparr>)
      | None \<Rightarrow> (p\<lparr>bp_mem := bp_mem p @ [[]]\<rparr>, \<lparr>bf_arr = length (bp_mem p), bf_len = 0\<rparr>))"

definition PutBuffer :: "bufpool \<Rightarrow> buffer option \<Rightarrow> bufpool" where
  "PutBuffer p b =
     (case b of
        None \<Rightarrow> p
      | Some b \<Rightarrow>
          if bp_max p \<le> 0 then p
          else if bp_max p < int (length (bp_mem p ! bf_arr b)) then p
          else p\<lparr>bp_pool := bp_pool p @ [b\<lparr>bf_len := 0\<rparr>]\<rparr>)"

definition note_truncation :: "bufpool \<Rightarrow> nat \<Rightarrow> int \<Rightarrow> bufpool" where
  "note_truncation p n maxBytes = (if maxBytes \<le> int n then IncrementReadTruncationCounter p else p)"

definition ReadAllLimited :: "bufpool \<Rightarrow> int \<Rightarrow> string list \<Rightarrow> bufpool \<times> string" where
  "ReadAllLimited p maxBytes chunks =
     (let body = concat (limited (nat maxBytes) chunks) in (note_truncation p (length body) maxBytes, body))"

definition ReadAllLimitedPooled :: "(nat \<Rightarrow> nat) \<Rightarrow> bufpool \<Rightarrow> nat option \<Rightarrow> int \<Rightarrow> string list \<Rightarrow> bufpool \<times> buffer" where
  "ReadAllLimitedPooled grow p pick maxBytes chunks =
     (case GetBuffer p pick of (p, b) \<Rightarrow>
       (case read_from grow (bp_mem p) b (limited (nat maxBytes) chunks) of (mem, b) \<Rightarrow>
         (note_truncation (p\<lparr>bp_mem := mem\<rparr>) (bf_len b) maxBytes, b)))"

text \<open>
  What \<open>doFetchCascadeStep\<close> does with it: the slice is taken, the buffer goes back to the pool when the
  function returns, and the slice is the result.
\<close>

definition fetch_body :: "(nat \<Rightarrow> nat) \<Rightarrow> bufpool \<Rightarrow> nat option \<Rightarrow> int \<Rightarrow> string list \<Rightarrow> bufpool \<times> buffer" where
  "fetch_body grow p pick maxBytes chunks =
     (case ReadAllLimitedPooled grow p pick maxBytes chunks of (p, b) \<Rightarrow> (PutBuffer p (Some b), b))"

section \<open>What reading writes\<close>

definition buf_ok :: "string list \<Rightarrow> buffer \<Rightarrow> bool" where
  "buf_ok mem b \<longleftrightarrow> bf_arr b < length mem \<and> bf_len b \<le> length (mem ! bf_arr b)"

text \<open>Memory only grows, and of the old arrays only those of the set \<open>A\<close> change.\<close>

definition writes_only :: "nat set \<Rightarrow> string list \<Rightarrow> string list \<Rightarrow> bool" where
  "writes_only A mem mem' \<longleftrightarrow> length mem \<le> length mem' \<and> (\<forall>i<length mem. i \<notin> A \<longrightarrow> mem' ! i = mem ! i)"

lemma make_free_ok:
  assumes "buf_ok mem b" "make_free grow mem b = (mem', b')"
  shows "buf_ok mem' b' \<and> bf_len b' = bf_len b \<and> content mem' b' = content mem b
    \<and> bf_len b + minRead \<le> length (mem' ! bf_arr b') \<and> writes_only {} mem mem'
    \<and> (bf_arr b' = bf_arr b \<or> length mem \<le> bf_arr b')"
  using assms by (auto simp: make_free_def Let_def buf_ok_def content_def writes_only_def nth_append split: if_splits)

lemma content_write:
  assumes "buf_ok mem b" "bf_len b + length c \<le> length (mem ! bf_arr b)"
  shows "buf_ok (mem[bf_arr b := write_at (bf_len b) c (mem ! bf_arr b)]) (b\<lparr>bf_len := bf_len b + length c\<rparr>)"
    and "content (mem[bf_arr b := write_at (bf_len b) c (mem ! bf_arr b)]) (b\<lparr>bf_len := bf_len b + length c\<rparr>)
      = content mem b @ c"
  using assms by (auto simp: buf_ok_def content_def write_at_def)

lemma read_from_ok:
  "buf_ok mem b \<Longrightarrow> read_from grow mem b cs = (mem', b') \<Longrightarrow>
   buf_ok mem' b' \<and> content mem' b' = content mem b @ concat cs \<and> bf_len b' = bf_len b + length (concat cs)
   \<and> bf_len b' + minRead \<le> length (mem' ! bf_arr b')
   \<and> writes_only {bf_arr b} mem mem' \<and> (bf_arr b' = bf_arr b \<or> length mem \<le> bf_arr b')"
proof (induction grow mem b cs arbitrary: mem' b' rule: read_from.induct)
  case (1 grow mem b cs)
  obtain mem1 b1 where f: "make_free grow mem b = (mem1, b1)" by fastforce
  note free = make_free_ok [OF 1(2) f]
  show ?case
  proof (cases cs)
    case Nil
    then have "mem' = mem1" "b' = b1" using 1(3) f by (simp_all add: read_from.simps [of grow mem b])
    then show ?thesis using free Nil by (auto simp: writes_only_def)
  next
    case (Cons c cs')
    define m where "m = min (length c) (max minRead (length (mem1 ! bf_arr b1) - bf_len b1))"
    define mem2 where "mem2 = mem1[bf_arr b1 := write_at (bf_len b1) (take m c) (mem1 ! bf_arr b1)]"
    define b2 where "b2 = b1\<lparr>bf_len := bf_len b1 + m\<rparr>"
    define rest where "rest = (if m < length c then drop m c # cs' else cs')"
    have rec: "read_from grow mem2 b2 rest = (mem', b')"
      using 1(3) f Cons
      by (simp add: read_from.simps [of grow mem b] Let_def m_def mem2_def b2_def rest_def cong: if_cong split del: if_split)
    have len: "length (take m c) = m" by (simp add: m_def)
    have fits: "bf_len b1 + length (take m c) \<le> length (mem1 ! bf_arr b1)"
      using free by (auto simp: m_def)
    have ok1: "buf_ok mem1 b1" using free by blast
    have ok2: "buf_ok mem2 b2" "content mem2 b2 = content mem1 b1 @ take m c"
      using content_write [OF ok1 fits] by (simp_all only: len mem2_def b2_def)
    have IH: "buf_ok mem' b' \<and> content mem' b' = content mem2 b2 @ concat rest \<and> bf_len b' = bf_len b2 + length (concat rest)
       \<and> bf_len b' + minRead \<le> length (mem' ! bf_arr b')
       \<and> writes_only {bf_arr b2} mem2 mem' \<and> (bf_arr b' = bf_arr b2 \<or> length mem2 \<le> bf_arr b')"
      using 1(1) [OF f [symmetric] Cons m_def mem2_def b2_def] ok2(1) rec by (simp add: rest_def)
    have all: "take m c @ concat rest = concat cs" by (auto simp: Cons rest_def)
    then have l: "m + length (concat rest) = length (concat cs)" using len by (metis length_append)
    have "bf_arr b2 = bf_arr b1" "bf_len b2 = bf_len b + m" "length mem2 = length mem1"
      using free by (simp_all add: b2_def mem2_def)
    moreover have "mem2 ! i = mem1 ! i" if "i \<noteq> bf_arr b1" for i using that by (simp add: mem2_def)
    ultimately show ?thesis
      using IH free ok2(2) all l by (auto simp: writes_only_def)
  qed
qed

lemma concat_limited: "concat (limited n cs) = take n (concat cs)"
  by (induction n cs rule: limited.induct) auto

section \<open>The life of a response body\<close>

text \<open>The pool's buffers are empty, distinct and live.\<close>

definition pool_ok :: "bufpool \<Rightarrow> bool" where
  "pool_ok p \<longleftrightarrow> (\<forall>b\<in>set (bp_pool p). bf_len b = 0 \<and> bf_arr b < length (bp_mem p))"

lemma Get_ok:
  assumes "pool_ok p" "GetBuffer p pick = (p1, b)"
  shows "buf_ok (bp_mem p1) b \<and> bf_len b = 0 \<and> pool_ok p1 \<and> writes_only {} (bp_mem p) (bp_mem p1)
    \<and> bp_max p1 = bp_max p \<and> (b \<in> set (bp_pool p) \<or> bf_arr b = length (bp_mem p)) \<and> set (bp_pool p1) \<subseteq> set (bp_pool p)"
  using assms set_take_subset [of _ "bp_pool p"] set_drop_subset [of _ "bp_pool p"]
  by (auto simp: GetBuffer_def pool_ok_def buf_ok_def writes_only_def nth_append less_Suc_eq split: option.splits if_splits)
    (blast | fastforce)+

lemma fetch_ok:
  assumes "pool_ok p" "fetch_body grow p pick maxBytes chunks = (p', s)"
  shows "\<exists>p1 b. GetBuffer p pick = (p1, b)
    \<and> content (bp_mem p') s = take (nat maxBytes) (concat chunks)
    \<and> bf_len s + minRead \<le> length (bp_mem p' ! bf_arr s) \<and> buf_ok (bp_mem p') s
    \<and> writes_only {bf_arr b} (bp_mem p1) (bp_mem p') \<and> pool_ok p' \<and> bp_max p' = bp_max p
    \<and> bp_pool p' = bp_pool p1 @ (if 0 < bp_max p \<and> int (length (bp_mem p' ! bf_arr s)) \<le> bp_max p then [s\<lparr>bf_len := 0\<rparr>] else [])"
proof -
  obtain p1 b where g: "GetBuffer p pick = (p1, b)" by fastforce
  obtain mem s1 where r: "read_from grow (bp_mem p1) b (limited (nat maxBytes) chunks) = (mem, s1)" by fastforce
  note G = Get_ok [OF assms(1) g]
  have R: "buf_ok mem s1 \<and> content mem s1 = content (bp_mem p1) b @ concat (limited (nat maxBytes) chunks)
     \<and> bf_len s1 + minRead \<le> length (mem ! bf_arr s1) \<and> writes_only {bf_arr b} (bp_mem p1) mem"
    using read_from_ok [OF _ r] G by blast
  have c: "content (bp_mem p1) b = []" using G by (simp add: content_def)
  have s: "s = s1" "bp_mem p' = mem" "bp_max p' = bp_max p"
    "bp_pool p' = bp_pool p1 @ (if 0 < bp_max p \<and> int (length (mem ! bf_arr s1)) \<le> bp_max p then [s1\<lparr>bf_len := 0\<rparr>] else [])"
    using assms(2) g r G
    by (auto simp: fetch_body_def ReadAllLimitedPooled_def PutBuffer_def note_truncation_def IncrementReadTruncationCounter_def)
  have "pool_ok p'"
    using G R s unfolding pool_ok_def writes_only_def buf_ok_def by (fastforce split: if_splits)
  then show ?thesis using g R c s by (simp add: concat_limited)
qed

text \<open>\<open>n\<close> further responses, whatever buffers the pool hands out for them.\<close>

fun fetch_run :: "bufpool \<Rightarrow> ((nat \<Rightarrow> nat) \<times> nat option \<times> int \<times> string list) list \<Rightarrow> bufpool" where
  "fetch_run p [] = p"
| "fetch_run p ((grow, pick, maxBytes, chunks) # rs) = fetch_run (fst (fetch_body grow p pick maxBytes chunks)) rs"

text \<open>A slice whose array is no longer in the pool keeps its content.\<close>

lemma fetch_keeps:
  assumes "pool_ok p" "bp_max p \<le> 0" "bf_arr s < length (bp_mem p)" "\<forall>b\<in>set (bp_pool p). bf_arr b \<noteq> bf_arr s"
    and "fetch_body grow p pick maxBytes chunks = (p', s')"
  shows "content (bp_mem p') s = content (bp_mem p) s \<and> pool_ok p' \<and> bp_max p' = bp_max p
    \<and> bf_arr s < length (bp_mem p') \<and> (\<forall>b\<in>set (bp_pool p'). bf_arr b \<noteq> bf_arr s)"
proof -
  obtain p1 b where F: "GetBuffer p pick = (p1, b)" "writes_only {bf_arr b} (bp_mem p1) (bp_mem p')" "pool_ok p'"
    "bp_max p' = bp_max p" "bp_pool p' = bp_pool p1"
    using fetch_ok [OF assms(1,5)] assms(2) by auto
  have G: "writes_only {} (bp_mem p) (bp_mem p1)" "b \<in> set (bp_pool p) \<or> bf_arr b = length (bp_mem p)"
    "set (bp_pool p1) \<subseteq> set (bp_pool p)"
    using Get_ok [OF assms(1) F(1)] by blast+
  have "bf_arr b \<noteq> bf_arr s" using G(2) assms(3,4) by auto
  then have "bp_mem p' ! bf_arr s = bp_mem p ! bf_arr s" "bf_arr s < length (bp_mem p')"
    using F(2) G(1) assms(3) by (auto simp: writes_only_def)
  then show ?thesis using F G(3) assms(4) by (auto simp: content_def)
qed

lemma fetch_run_keeps:
  "pool_ok p \<Longrightarrow> bp_max p \<le> 0 \<Longrightarrow> bf_arr s < length (bp_mem p) \<Longrightarrow> \<forall>b\<in>set (bp_pool p). bf_arr b \<noteq> bf_arr s \<Longrightarrow>
   content (bp_mem (fetch_run p rs)) s = content (bp_mem p) s"
proof (induction p rs rule: fetch_run.induct)
  case (2 p grow pick maxBytes chunks rs)
  obtain p' s' where f: "fetch_body grow p pick maxBytes chunks = (p', s')" by fastforce
  show ?case using 2 fetch_keeps [OF 2(2-5) f] f by simp
qed simp

text \<open>One chunk read into an empty buffer with room for it.\<close>

lemma read_one:
  assumes "bf_arr s < length mem" "length c \<le> length (mem ! bf_arr s)" "bf_len s + minRead \<le> length (mem ! bf_arr s)"
  shows "fst (read_from grow mem (s\<lparr>bf_len := 0\<rparr>) [c]) ! bf_arr s = write_at 0 c (mem ! bf_arr s)"
proof -
  let ?b = "s\<lparr>bf_len := 0\<rparr>" and ?mem = "mem[bf_arr s := write_at 0 c (mem ! bf_arr s)]"
  have free: "make_free grow mem ?b = (mem, ?b)" using assms(3) by (simp add: make_free_def Let_def)
  have m: "min (length c) (max minRead (length (mem ! bf_arr s))) = length c" using assms(2) by simp
  have "read_from grow mem ?b [c] = read_from grow ?mem (?b\<lparr>bf_len := length c\<rparr>) []"
    by (simp add: read_from.simps [of grow mem] free m)
  also have "\<dots> = make_free grow ?mem (?b\<lparr>bf_len := length c\<rparr>)"
    by (simp add: read_from.simps [of grow ?mem] split: prod.split)
  finally show ?thesis
    using assms(1) by (simp add: make_free_def Let_def nth_append)
qed

section \<open>Properties\<close>

text \<open>
  A pooled response body is not the caller's own. When the function returns, its body reads as the
  limited response. With pooling disabled it reads so after any further responses. With pooling
  enabled, the buffer is back in the pool before the body is used, and when the next response takes
  that buffer, the earlier body reads as the bytes of the later one, of another request.
\<close>
theorem pooled_body_overwritten:
  assumes "pool_ok p" "fetch_body grow p pick maxBytes chunks = (p1, s)"
  shows "content (bp_mem p1) s = take (nat maxBytes) (concat chunks)
    \<and> (bp_max p \<le> 0 \<and> bp_pool p = [] \<longrightarrow>
         content (bp_mem (fetch_run p1 rs)) s = take (nat maxBytes) (concat chunks))
    \<and> (0 < bp_max p \<and> int (length (bp_mem p1 ! bf_arr s)) \<le> bp_max p
         \<and> c \<noteq> [] \<and> length c \<le> bf_len s + minRead \<and> bf_len s \<le> length c \<and> length c \<le> nat maxBytes
         \<longrightarrow> (\<exists>pick'. content (bp_mem (fst (fetch_body grow p1 pick' maxBytes [c]))) s = take (bf_len s) c))"
proof (intro conjI impI)
  obtain q b where F: "GetBuffer p pick = (q, b)" "content (bp_mem p1) s = take (nat maxBytes) (concat chunks)"
    "bf_len s + minRead \<le> length (bp_mem p1 ! bf_arr s)" "buf_ok (bp_mem p1) s" "pool_ok p1" "bp_max p1 = bp_max p"
    "bp_pool p1 = bp_pool q @ (if 0 < bp_max p \<and> int (length (bp_mem p1 ! bf_arr s)) \<le> bp_max p then [s\<lparr>bf_len := 0\<rparr>] else [])"
    using fetch_ok [OF assms] by blast
  show "content (bp_mem p1) s = take (nat maxBytes) (concat chunks)" by (fact F(2))
  show "content (bp_mem (fetch_run p1 rs)) s = take (nat maxBytes) (concat chunks)" if "bp_max p \<le> 0 \<and> bp_pool p = []"
  proof -
    have "bp_pool p1 = []" using F(7) Get_ok [OF assms(1) F(1)] that by auto
    then show ?thesis using fetch_run_keeps [of p1 s rs] F that by (simp add: buf_ok_def)
  qed
  show "\<exists>pick'. content (bp_mem (fst (fetch_body grow p1 pick' maxBytes [c]))) s = take (bf_len s) c"
    if h: "0 < bp_max p \<and> int (length (bp_mem p1 ! bf_arr s)) \<le> bp_max p
         \<and> c \<noteq> [] \<and> length c \<le> bf_len s + minRead \<and> bf_len s \<le> length c \<and> length c \<le> nat maxBytes"
  proof -
    let ?b = "s\<lparr>bf_len := 0\<rparr>" and ?n = "length (bp_pool q)"
    have pool: "bp_pool p1 = bp_pool q @ [?b]" using F(7) h by simp
    have get: "GetBuffer p1 (Some ?n) = (p1\<lparr>bp_pool := bp_pool q\<rparr>, ?b)" by (simp add: GetBuffer_def pool)
    have cap: "length c \<le> length (bp_mem p1 ! bf_arr s)" using F(3) h by linarith
    have arr: "bf_arr s < length (bp_mem p1)" using F(4) by (simp add: buf_ok_def)
    have lim: "limited (nat maxBytes) [c] = [c]" using h by (cases "nat maxBytes") auto
    have "bp_mem (fst (fetch_body grow p1 (Some ?n) maxBytes [c])) ! bf_arr s
        = write_at 0 c (bp_mem p1 ! bf_arr s)"
      using read_one [OF arr cap] F(3)
      by (simp add: fetch_body_def ReadAllLimitedPooled_def get lim PutBuffer_def note_truncation_def
          IncrementReadTruncationCounter_def split_beta del: limited.simps)
    moreover have "take (bf_len s) (write_at 0 c (bp_mem p1 ! bf_arr s)) = take (bf_len s) c"
      using h by (simp add: write_at_def)
    ultimately have "content (bp_mem (fst (fetch_body grow p1 (Some ?n) maxBytes [c]))) s = take (bf_len s) c"
      by (simp add: content_def)
    then show ?thesis by blast
  qed
qed

text \<open>A first request reads \<open>secret\<close>, a second one \<open>public\<close>; then the first body reads \<open>public\<close>.\<close>

lemma demo_fetch:
  "\<exists>p1 s. fetch_body (\<lambda>n. n) start_pool None 100 [''secret''] = (p1, s) \<and> length (bp_mem p1 ! bf_arr s) = 518 \<and> bf_len s = 6"
proof -
  let ?a = "replicate 512 (CHR 0x00)" and ?b = "\<lparr>bf_arr = Suc 0, bf_len = 6\<rparr> :: buffer"
  let ?w = "write_at 0 ''secret'' ?a"
  have w: "length ?w = 512" by (simp add: write_at_def)
  have six: "Suc (Suc (Suc (Suc (Suc (Suc 0))))) = 6" by simp
  have 1: "make_free (\<lambda>n. n) [[]] \<lparr>bf_arr = 0, bf_len = 0\<rparr> = ([[], ?a], \<lparr>bf_arr = 1, bf_len = 0\<rparr>)"
    by (simp add: make_free_def content_def minRead_def Let_def)
  have 2: "read_from (\<lambda>n. n) [[]] \<lparr>bf_arr = 0, bf_len = 0\<rparr> [''secret''] = make_free (\<lambda>n. n) [[], ?w] ?b"
    by (simp add: read_from.simps [of _ "[[]]"] read_from.simps [of _ "[[], _]"] 1 minRead_def Let_def six
        split: prod.split)
  have 3: "make_free (\<lambda>n. n) [[], ?w] ?b = ([[], ?w, content [[], ?w] ?b @ replicate 512 (CHR 0x00)], \<lparr>bf_arr = 2, bf_len = 6\<rparr>)"
    using w by (simp add: make_free_def content_def minRead_def Let_def)
  have "length (content [[], ?w] ?b @ replicate 512 (CHR 0x00)) = 518" using w by (simp add: content_def)
  then show ?thesis
    by (simp add: fetch_body_def ReadAllLimitedPooled_def GetBuffer_def start_pool_def 2 3 PutBuffer_def
        note_truncation_def defaultPoolBufferMaxBytes_def)
qed

theorem pooled_body_overwritten_witness:
  "\<exists>p1 s pick'. fetch_body (\<lambda>n. n) start_pool None 100 [''secret''] = (p1, s)
     \<and> content (bp_mem p1) s = ''secret''
     \<and> content (bp_mem (fst (fetch_body (\<lambda>n. n) p1 pick' 100 [''public'']))) s = ''public''"
proof -
  obtain p1 s where f: "fetch_body (\<lambda>n. n) start_pool None 100 [''secret''] = (p1, s)"
    "length (bp_mem p1 ! bf_arr s) = 518" "bf_len s = 6"
    using demo_fetch by blast
  have ok: "pool_ok start_pool" "bp_max start_pool = 2 ^ 20"
    by (simp_all add: start_pool_def pool_ok_def defaultPoolBufferMaxBytes_def)
  show ?thesis
    using pooled_body_overwritten [OF ok(1) f(1), where c = "''public''" and rs = "[]"] f ok(2)
    by (auto simp: minRead_def)
qed

end
