(* ===== verification/UpStream.thy ===== *)
theory UpStream
  imports GoStrings
begin

text \<open>
  \<open>internal/upstream/upstream.go\<close>, the single dispatch: header filtering, the line-by-line event stream
  with its validation and truncation signal, and the buffered fetch. The HTTP exchange is an input;
  the client's connection is a writer that may fail from some write on.
\<close>

section \<open>The client's connection\<close>

type_synonym headers = "string \<rightharpoonup> string list"

text \<open>
  Headers set after the status was committed do not travel; a second \<open>WriteHeader\<close> has no effect;
  the first body write commits 200. \<open>rw_left\<close> is the number of writes that still succeed,
  \<open>None\<close> for a connection that does not fail; \<open>rw_gone\<close> tells whether a failure is the client's abort.
\<close>

record writer =
  rw_header :: headers
  rw_committed :: "(nat \<times> headers) option"
  rw_out :: string
  rw_left :: "nat option"
  rw_flusher :: bool
  rw_gone :: bool

definition set_header :: "writer \<Rightarrow> string \<Rightarrow> string \<Rightarrow> writer" where
  "set_header w k v = w\<lparr>rw_header := (rw_header w)(k \<mapsto> [v])\<rparr>"

definition WriteHeader :: "writer \<Rightarrow> nat \<Rightarrow> writer" where
  "WriteHeader w code = (if rw_committed w = None then w\<lparr>rw_committed := Some (code, rw_header w)\<rparr> else w)"

definition Write :: "writer \<Rightarrow> string \<Rightarrow> writer \<times> bool" where
  "Write w s =
     (let w = WriteHeader w 200 in
      case rw_left w of
        None \<Rightarrow> (w\<lparr>rw_out := rw_out w @ s\<rparr>, True)
      | Some 0 \<Rightarrow> (w, False)
      | Some (Suc n) \<Rightarrow> (w\<lparr>rw_out := rw_out w @ s, rw_left := Some n\<rparr>, True))"

section \<open>Headers\<close>

definition headerAllowed :: "string \<Rightarrow> bool" where
  "headerAllowed name \<longleftrightarrow>
     name \<in> {''Content-Type'', ''Cache-Control'', ''Retry-After''} \<or> HasPrefix (ToLower name) ''x-nexus-''"

text \<open>The loop over the map adds the values of every allowed key, in any order.\<close>

definition copyAllowedHeaders :: "headers \<Rightarrow> headers \<Rightarrow> headers" where
  "copyAllowedHeaders dst src =
     (\<lambda>k. if headerAllowed k \<and> src k \<noteq> None \<and> the (src k) \<noteq> []
          then Some ((case dst k of None \<Rightarrow> [] | Some vs \<Rightarrow> vs) @ the (src k)) else dst k)"

definition header_get :: "headers \<Rightarrow> string \<Rightarrow> string" where
  "header_get h k = (case h k of Some (v # _) \<Rightarrow> v | _ \<Rightarrow> [])"

section \<open>The exchange\<close>

text \<open>
  An I/O error is its text and whether its chain holds \<open>EPIPE\<close> or \<open>ECONNRESET\<close>. A body is its bytes and
  the read error that ends it, \<open>None\<close> for a clean end.
\<close>

type_synonym io_error = "string \<times> bool"

record reply =
  rp_Status :: nat
  rp_Headers :: headers
  rp_Body :: string
  rp_Err :: "io_error option"

datatype roundtrip = MarshalFailed string | BuildFailed string | DoFailed io_error | Answered reply

datatype up_error =
    UpMarshal string | UpBuild string | UpDo io_error | ErrUpstreamContentTypeMismatch | ErrUpstreamTruncated
  | NoFlusher | UpRead io_error | UpReadResponse "io_error option" | UpInvalidJSON nat | UpWrite bool | ErrClientAbort

text \<open>The chain is searched: an error of the upstream connection passes for the client's as well.\<close>

definition IsClientAbort :: "up_error option \<Rightarrow> bool" where
  "IsClientAbort e =
     (case e of
        Some (UpDo x) \<Rightarrow> snd x
      | Some (UpRead x) \<Rightarrow> snd x
      | Some (UpReadResponse (Some x)) \<Rightarrow> snd x
      | Some (UpWrite gone) \<Rightarrow> gone
      | Some ErrClientAbort \<Rightarrow> True
      | _ \<Rightarrow> False)"

definition NL :: char where "NL = CHR 0x0A"

definition sseDoneMarker :: string where "sseDoneMarker = ''data: [DONE]''"
definition done_frame :: string where "done_frame = sseDoneMarker @ [NL, NL]"

definition truncation_event :: string where
  "truncation_event = ''data: {\"error\":{\"message\":\"upstream stream truncated\",\"type\":\"upstream_truncated\"}}'' @ [NL, NL]"

section \<open>Event stream\<close>

definition isSSEDoneLine :: "string \<Rightarrow> bool" where
  "isSSEDoneLine line \<longleftrightarrow> TrimSpace line = sseDoneMarker"

definition isSSEDataLine :: "string \<Rightarrow> bool" where
  "isSSEDataLine line =
     (let trimmed = TrimSpace line in
      if trimmed = sseDoneMarker then False else HasPrefix trimmed ''data: '' \<and> 6 < length trimmed)"

text \<open>\<open>valid\<close> is \<open>json.Valid\<close>.\<close>

definition validSSELineJSON :: "(string \<Rightarrow> bool) \<Rightarrow> string \<Rightarrow> bool" where
  "validSSELineJSON valid line =
     (let trimmed = TrimSpace line in
      if \<not> HasPrefix trimmed ''data: '' then True else valid (drop 6 trimmed))"

definition malformed :: "(string \<Rightarrow> bool) \<Rightarrow> string \<Rightarrow> bool" where
  "malformed valid line \<longleftrightarrow> \<not> isSSEDoneLine line \<and> isSSEDataLine line \<and> \<not> validSSELineJSON valid line"

definition emitTruncationTerminator :: "writer \<Rightarrow> writer \<times> up_error option" where
  "emitTruncationTerminator w =
     (case Write (set_header w ''X-Nexus-Truncated'' ''true'') truncation_event of
        (w, False) \<Rightarrow> (w, Some (UpWrite (rw_gone w)))
      | (w, True) \<Rightarrow>
          (case Write w done_frame of
             (w, False) \<Rightarrow> (w, Some (UpWrite (rw_gone w)))
           | (w, True) \<Rightarrow> (w, Some ErrUpstreamTruncated)))"

text \<open>One line: the loop ends with a result, or goes on with the flag that the end marker was seen.\<close>

definition forward :: "(string \<Rightarrow> bool) \<Rightarrow> writer \<Rightarrow> bool \<Rightarrow> string \<Rightarrow> writer \<times> (up_error option + bool)" where
  "forward valid w seenDone line =
     (if malformed valid line then
        (if \<not> seenDone then
           (case Write w done_frame of
              (w, False) \<Rightarrow> (w, Inl (Some (UpWrite (rw_gone w))))
            | (w, True) \<Rightarrow> (w, Inl None))
         else (w, Inl None))
      else (case Write w line of
              (w, False) \<Rightarrow> (w, Inl (Some (UpWrite (rw_gone w))))
            | (w, True) \<Rightarrow> (w, Inr (seenDone \<or> isSSEDoneLine line))))"

text \<open>The end of the body: what was read of the last line has been forwarded.\<close>

definition stream_end :: "writer \<Rightarrow> io_error option \<Rightarrow> bool \<Rightarrow> bool \<Rightarrow> writer \<times> up_error option" where
  "stream_end w err wroteAny seenDone =
     (case err of
        None \<Rightarrow> (w, None)
      | Some e \<Rightarrow>
          if seenDone then (w, None)
          else if wroteAny then emitTruncationTerminator w
          else (w, Some (UpRead e)))"

text \<open>The complete lines, then the unterminated rest with the end of the body.\<close>

fun stream_loop ::
  "(string \<Rightarrow> bool) \<Rightarrow> writer \<Rightarrow> string list \<Rightarrow> string \<Rightarrow> io_error option \<Rightarrow> bool \<Rightarrow> bool \<Rightarrow> writer \<times> up_error option" where
  "stream_loop valid w (l # ls) rest err wroteAny seenDone =
     (case forward valid w seenDone l of
        (w, Inl r) \<Rightarrow> (w, r)
      | (w, Inr seenDone) \<Rightarrow> stream_loop valid w ls rest err True seenDone)"
| "stream_loop valid w [] rest err wroteAny seenDone =
     (if rest = [] then stream_end w err wroteAny seenDone
      else case forward valid w seenDone rest of
        (w, Inl r) \<Rightarrow> (w, r)
      | (w, Inr seenDone) \<Rightarrow> stream_end w err True seenDone)"

text \<open>\<open>ReadBytes('\n')\<close> until the end: the terminated lines with their newline, and the rest.\<close>

fun read_lines :: "string \<Rightarrow> string list \<times> string" where
  "read_lines [] = ([], [])"
| "read_lines (c # cs) =
     (case read_lines cs of (ls, rest) \<Rightarrow>
        if c = NL then ([c] # ls, rest)
        else case ls of
          [] \<Rightarrow> ([], c # rest)
        | l # ls' \<Rightarrow> ((c # l) # ls', rest))"

definition StreamWithContext :: "(string \<Rightarrow> bool) \<Rightarrow> writer \<Rightarrow> roundtrip \<Rightarrow> writer \<times> up_error option" where
  "StreamWithContext valid w x =
     (case x of
        MarshalFailed e \<Rightarrow> (w, Some (UpMarshal e))
      | BuildFailed e \<Rightarrow> (w, Some (UpBuild e))
      | DoFailed e \<Rightarrow> (w, Some (UpDo e))
      | Answered r \<Rightarrow>
          (let ct = header_get (rp_Headers r) ''Content-Type'' in
           if rp_Status r = 200 \<and> ct \<noteq> ''text/event-stream'' \<and> ct \<noteq> ''application/json''
           then (w, Some ErrUpstreamContentTypeMismatch)
           else
             let w = WriteHeader (w\<lparr>rw_header := copyAllowedHeaders (rw_header w) (rp_Headers r)\<rparr>) (rp_Status r) in
             if \<not> rw_flusher w then (w, Some NoFlusher)
             else case read_lines (rp_Body r) of (ls, rest) \<Rightarrow>
               stream_loop valid w ls rest (rp_Err r) False False))"

section \<open>Buffered fetch\<close>

definition DefaultMaxUpstreamResponseBytes :: int where "DefaultMaxUpstreamResponseBytes = 10 * 2 ^ 20"

text \<open>\<open>is_object\<close> tells whether \<open>json.Unmarshal\<close> reads the body into a map.\<close>

definition BufferedFetchWithContext :: "(string \<Rightarrow> bool) \<Rightarrow> int \<Rightarrow> writer \<Rightarrow> roundtrip \<Rightarrow> writer \<times> up_error option" where
  "BufferedFetchWithContext is_object maxResponseBytes w x =
     (case x of
        MarshalFailed e \<Rightarrow> (w, Some (UpMarshal e))
      | BuildFailed e \<Rightarrow> (w, Some (UpBuild e))
      | DoFailed e \<Rightarrow> (w, Some (UpDo e))
      | Answered r \<Rightarrow>
          (let respBody = take (nat maxResponseBytes) (rp_Body r);
               err = (if length (rp_Body r) < nat maxResponseBytes then rp_Err r else None);
               ct = TrimSpace (header_get (rp_Headers r) ''Content-Type'')
           in if err \<noteq> None \<or> maxResponseBytes \<le> int (length respBody)
              then (WriteHeader w (rp_Status r), Some (UpReadResponse err))
              else if rp_Status r = 200 \<and> ct \<noteq> ''application/json'' \<and> ct \<noteq> ''text/event-stream''
              then (w, Some ErrUpstreamContentTypeMismatch)
              else if \<not> is_object respBody then (w, Some (UpInvalidJSON (rp_Status r)))
              else
                let w = w\<lparr>rw_header := copyAllowedHeaders (rw_header w) (rp_Headers r)\<rparr>;
                    w = WriteHeader (set_header w ''Content-Type'' ''application/json'') (rp_Status r)
                in case Write w respBody of
                     (w, True) \<Rightarrow> (w, None)
                   | (w, False) \<Rightarrow> (w, Some (UpWrite (rw_gone w)))))"

section \<open>Lemmas\<close>

lemma read_lines_concat: "read_lines s = (ls, rest) \<Longrightarrow> concat ls @ rest = s"
  by (induction s arbitrary: ls rest) (auto split: prod.splits if_splits list.splits)

definition committed_writer :: "writer \<Rightarrow> bool" where
  "committed_writer w \<longleftrightarrow> rw_committed w \<noteq> None \<and> rw_left w = None"

lemma Write_ok: "committed_writer w \<Longrightarrow> Write w s = (w\<lparr>rw_out := rw_out w @ s\<rparr>, True)"
  by (auto simp: committed_writer_def Write_def WriteHeader_def Let_def)

lemma committed_out [simp]: "committed_writer (w\<lparr>rw_out := s\<rparr>) = committed_writer w"
  by (simp add: committed_writer_def)

lemma committed_header [simp]: "committed_writer (set_header w k v) = committed_writer w"
  by (simp add: committed_writer_def set_header_def)

lemma forward_ok:
  "committed_writer w \<Longrightarrow> forward valid w seen line =
     (if malformed valid line then (w\<lparr>rw_out := rw_out w @ (if seen then [] else done_frame)\<rparr>, Inl None)
      else (w\<lparr>rw_out := rw_out w @ line\<rparr>, Inr (seen \<or> isSSEDoneLine line)))"
  by (simp add: forward_def Write_ok)

section \<open>What a client sees of a stream\<close>

definition stream_units :: "string \<Rightarrow> string list" where
  "stream_units body = (case read_lines body of (ls, rest) \<Rightarrow> ls @ (if rest = [] then [] else [rest]))"

lemma stream_units_concat: "concat (stream_units body) = body"
  by (cases "read_lines body") (use read_lines_concat in \<open>auto simp: stream_units_def\<close>)

text \<open>The bytes and the error, from the units still to come and the two flags of the loop.\<close>

definition stream_tail :: "(string \<Rightarrow> bool) \<Rightarrow> string list \<Rightarrow> io_error option \<Rightarrow> bool \<Rightarrow> bool \<Rightarrow> string \<times> up_error option" where
  "stream_tail valid us err wroteAny seenDone =
     (let good = takeWhile (\<lambda>u. \<not> malformed valid u) us; seen = (seenDone \<or> list_ex isSSEDoneLine good) in
      if length good < length us then (concat good @ (if seen then [] else done_frame), None)
      else case err of
        None \<Rightarrow> (concat us, None)
      | Some e \<Rightarrow>
          if seen then (concat us, None)
          else if wroteAny \<or> us \<noteq> [] then (concat us @ truncation_event @ done_frame, Some ErrUpstreamTruncated)
          else ([], Some (UpRead e)))"

lemma stream_tail_Cons:
  "stream_tail valid (u # us) err wroteAny seenDone =
     (if malformed valid u then (if seenDone then [] else done_frame, None)
      else (case stream_tail valid us err True (seenDone \<or> isSSEDoneLine u) of (s, r) \<Rightarrow> (u @ s, r)))"
  by (auto simp: stream_tail_def Let_def split: option.split)

lemma truncation_ok:
  assumes "committed_writer w"
  shows "rw_out (fst (emitTruncationTerminator w)) = rw_out w @ truncation_event @ done_frame
    \<and> rw_committed (fst (emitTruncationTerminator w)) = rw_committed w
    \<and> snd (emitTruncationTerminator w) = Some ErrUpstreamTruncated"
proof -
  have "committed_writer (set_header w k v)" for k v using assms by simp
  then show ?thesis by (simp add: emitTruncationTerminator_def Write_ok) (simp add: set_header_def)
qed

lemma stream_end_ok:
  assumes "committed_writer w"
  shows "rw_out (fst (stream_end w err any seen)) = rw_out w @ fst (stream_tail valid [] err any seen)
    \<and> rw_committed (fst (stream_end w err any seen)) = rw_committed w
    \<and> snd (stream_end w err any seen) = snd (stream_tail valid [] err any seen)"
  using truncation_ok [OF assms] by (auto simp: stream_end_def stream_tail_def Let_def split: option.split)

lemma stream_loop_ok:
  "committed_writer w \<Longrightarrow>
   rw_out (fst (stream_loop valid w ls rest err any seen)) = rw_out w @ fst (stream_tail valid (ls @ (if rest = [] then [] else [rest])) err any seen)
   \<and> rw_committed (fst (stream_loop valid w ls rest err any seen)) = rw_committed w
   \<and> snd (stream_loop valid w ls rest err any seen) = snd (stream_tail valid (ls @ (if rest = [] then [] else [rest])) err any seen)"
proof (induction ls arbitrary: w any seen)
  case Nil
  show ?case
  proof (cases "rest = []")
    case True
    then show ?thesis using stream_end_ok [OF Nil] by simp
  next
    case False
    let ?w = "w\<lparr>rw_out := rw_out w @ rest\<rparr>"
    have "committed_writer ?w" using Nil by simp
    note e = stream_end_ok [OF this, of err True "seen \<or> isSSEDoneLine rest" valid]
    show ?thesis
    proof (cases "malformed valid rest")
      case True
      then show ?thesis using False Nil by (simp add: forward_ok stream_tail_Cons)
    next
      case good: False
      then show ?thesis using False Nil e by (simp add: forward_ok stream_tail_Cons split_beta)
    qed
  qed
next
  case (Cons l ls)
  let ?w = "w\<lparr>rw_out := rw_out w @ l\<rparr>"
  have "committed_writer ?w" using Cons.prems by simp
  note e = Cons.IH [OF this, of True "seen \<or> isSSEDoneLine l"]
  show ?case
  proof (cases "malformed valid l")
    case True
    then show ?thesis using Cons.prems by (simp add: forward_ok stream_tail_Cons)
  next
    case False
    then show ?thesis using Cons.prems e by (simp add: forward_ok stream_tail_Cons split_beta)
  qed
qed

definition stream_type :: "reply \<Rightarrow> bool" where
  "stream_type r \<longleftrightarrow> rp_Status r = 200 \<longrightarrow>
     header_get (rp_Headers r) ''Content-Type'' \<in> {''text/event-stream'', ''application/json''}"

lemma stream_answered:
  assumes "rw_left w = None" "rw_flusher w" "stream_type r" "StreamWithContext valid w (Answered r) = (w', e)"
  shows "rw_committed w' = (if rw_committed w = None
      then Some (rp_Status r, copyAllowedHeaders (rw_header w) (rp_Headers r)) else rw_committed w)"
    "rw_out w' = rw_out w @ fst (stream_tail valid (stream_units (rp_Body r)) (rp_Err r) False False)"
    "e = snd (stream_tail valid (stream_units (rp_Body r)) (rp_Err r) False False)"
proof -
  obtain ls rest where l: "read_lines (rp_Body r) = (ls, rest)" by fastforce
  define v where "v = WriteHeader (w\<lparr>rw_header := copyAllowedHeaders (rw_header w) (rp_Headers r)\<rparr>) (rp_Status r)"
  have v: "committed_writer v" "rw_out v = rw_out w" "rw_flusher v"
    "rw_committed v = (if rw_committed w = None
      then Some (rp_Status r, copyAllowedHeaders (rw_header w) (rp_Headers r)) else rw_committed w)"
    using assms(1,2) by (simp_all add: v_def WriteHeader_def committed_writer_def)
  have s: "StreamWithContext valid w (Answered r) = stream_loop valid v ls rest (rp_Err r) False False"
    using assms(3) v(3) l by (auto simp: StreamWithContext_def stream_type_def Let_def v_def)
  have u: "stream_units (rp_Body r) = ls @ (if rest = [] then [] else [rest])" by (simp add: stream_units_def l)
  note ok = stream_loop_ok [OF v(1), of valid ls rest "rp_Err r" False False, folded u s, unfolded assms(4)]
  show "rw_committed w' = (if rw_committed w = None
      then Some (rp_Status r, copyAllowedHeaders (rw_header w) (rp_Headers r)) else rw_committed w)"
    "rw_out w' = rw_out w @ fst (stream_tail valid (stream_units (rp_Body r)) (rp_Err r) False False)"
    "e = snd (stream_tail valid (stream_units (rp_Body r)) (rp_Err r) False False)"
    using ok v(2,4) by simp_all
qed

lemma stream_units_ne:
  assumes "x \<in> set (stream_units s)"
  shows "x \<noteq> []"
proof -
  have ne: "x \<noteq> []" if "read_lines s = (ls, rest)" "x \<in> set ls" for s ls rest
    using that by (induction s arbitrary: ls rest) (auto split: prod.splits if_splits list.splits)
  obtain ls rest where l: "read_lines s = (ls, rest)" by fastforce
  then show ?thesis using assms ne [OF l] by (auto simp: stream_units_def split: if_splits)
qed

lemma Write_left: "rw_left w = None \<Longrightarrow> Write w s = ((WriteHeader w 200)\<lparr>rw_out := rw_out w @ s\<rparr>, True)"
  by (simp add: Write_def WriteHeader_def Let_def)

lemma forward_left: "rw_left w = None \<Longrightarrow> rw_left (fst (forward valid w seen l)) = None"
  by (simp add: forward_def Write_left WriteHeader_def)

lemma end_left: "rw_left w = None \<Longrightarrow> rw_left (fst (stream_end w err any seen)) = None"
  by (simp add: stream_end_def emitTruncationTerminator_def Write_left WriteHeader_def set_header_def split: option.split)

lemma loop_left: "rw_left w = None \<Longrightarrow> rw_left (fst (stream_loop valid w ls rest err any seen)) = None"
proof (induction ls arbitrary: w any seen)
  case Nil
  show ?case using forward_left [OF Nil, of valid seen rest] end_left [OF Nil]
    by (auto split: prod.split sum.split dest: end_left)
next
  case (Cons l ls)
  show ?case using forward_left [OF Cons.prems, of valid seen l] Cons.IH
    by (auto split: prod.split sum.split)
qed

lemma stream_left: "rw_left w = None \<Longrightarrow> rw_left (fst (StreamWithContext valid w x)) = None"
  by (auto simp: StreamWithContext_def WriteHeader_def Let_def loop_left split: roundtrip.split prod.split)


definition demo_writer :: writer where
  "demo_writer = \<lparr>rw_header = Map.empty, rw_committed = None, rw_out = [], rw_left = None, rw_flusher = True, rw_gone = False\<rparr>"

definition demo_cut :: reply where
  "demo_cut = \<lparr>rp_Status = 200, rp_Headers = [''Content-Type'' \<mapsto> [''text/event-stream'']],
     rp_Body = ''ok'' @ [NL] @ ''hal'', rp_Err = Some (''unexpected EOF'', False)\<rparr>"


end
