(* ===== verification/Similarity.thy ===== *)
theory Similarity
  imports GoStrings Complex_Main
begin

text \<open>
  \<open>internal/upstream/similarity.go\<close> and the counters of \<open>upstream.go\<close> it records into: how alike two
  panel answers are. Floating point numbers are reals; the embedder is a parameter, its health and
  what it returns for a text.
\<close>

section \<open>Counters\<close>

record fusion_metrics =
  fm_panics :: "64 word"
  fm_semanticTotal :: "64 word"
  fm_semanticSum :: real
  fm_semanticCount :: "64 word"
  fm_jaccardTotal :: "64 word"
  fm_clientAborts :: "64 word"

definition IncPanelPanics :: "fusion_metrics \<Rightarrow> fusion_metrics" where
  "IncPanelPanics m = m\<lparr>fm_panics := fm_panics m + 1\<rparr>"

definition PanelPanicsTotal :: "fusion_metrics \<Rightarrow> 64 word" where "PanelPanicsTotal m = fm_panics m"

definition RecordSemanticSimilarity :: "fusion_metrics \<Rightarrow> real \<Rightarrow> fusion_metrics" where
  "RecordSemanticSimilarity m score =
     m\<lparr>fm_semanticTotal := fm_semanticTotal m + 1, fm_semanticCount := fm_semanticCount m + 1,
       fm_semanticSum := fm_semanticSum m + score\<rparr>"

definition SemanticSimilarityTotal :: "fusion_metrics \<Rightarrow> 64 word" where
  "SemanticSimilarityTotal m = fm_semanticTotal m"

definition SemanticSimilarityAvg :: "fusion_metrics \<Rightarrow> real" where
  "SemanticSimilarityAvg m =
     (if fm_semanticCount m = 0 then 0 else fm_semanticSum m / real (unat (fm_semanticCount m)))"

definition RecordJaccardSimilarity :: "fusion_metrics \<Rightarrow> fusion_metrics" where
  "RecordJaccardSimilarity m = m\<lparr>fm_jaccardTotal := fm_jaccardTotal m + 1\<rparr>"

definition JaccardSimilarityTotal :: "fusion_metrics \<Rightarrow> 64 word" where
  "JaccardSimilarityTotal m = fm_jaccardTotal m"

definition IncFusionClientAbort :: "fusion_metrics \<Rightarrow> fusion_metrics" where
  "IncFusionClientAbort m = m\<lparr>fm_clientAborts := fm_clientAborts m + 1\<rparr>"

definition FusionClientAbortTotal :: "fusion_metrics \<Rightarrow> 64 word" where
  "FusionClientAbortTotal m = fm_clientAborts m"

section \<open>Tokens\<close>

text \<open>\<open>strings.Fields\<close>: the runs between white space.\<close>

fun space_runs :: "string \<Rightarrow> string list" where
  "space_runs [] = [[]]"
| "space_runs (c # cs) =
     (if is_space c then [] # space_runs cs
      else case space_runs cs of [] \<Rightarrow> [[c]] | t # ts \<Rightarrow> (c # t) # ts)"

definition Fields :: "string \<Rightarrow> string list" where
  "Fields s = filter (\<lambda>t. t \<noteq> []) (space_runs s)"

text \<open>\<open>strings.Trim\<close> and \<open>strings.ReplaceAll\<close> of a non-empty substring.\<close>

definition TrimSet :: "string \<Rightarrow> string \<Rightarrow> string" where
  "TrimSet cutset s = rev (dropWhile (\<lambda>c. c \<in> set cutset) (rev (dropWhile (\<lambda>c. c \<in> set cutset) s)))"

fun replace_all :: "string \<Rightarrow> string \<Rightarrow> string \<Rightarrow> string" where
  "replace_all old new [] = []"
| "replace_all old new (c # cs) =
     (if HasPrefix (c # cs) old then new @ replace_all old new (drop (length old - 1) cs)
      else c # replace_all old new cs)"

definition cutset :: string where
  "cutset = ''.,;:!?()[]{}'' @ [CHR 0x22, CHR 0x27]"

definition normalizeToken :: "string \<Rightarrow> string" where
  "normalizeToken tok =
     (let tok = ToLower tok;
          tok = TrimSpace tok;
          tok = TrimSet cutset tok;
          tok = replace_all [CHR 0x5C, CHR 0x22] [CHR 0x22] tok;
          tok = replace_all [CHR 0x5C, CHR ''n''] '' '' tok
      in replace_all [CHR 0x5C, CHR 0x5C] [CHR 0x5C] tok)"

definition tokenSet :: "string \<Rightarrow> string set" where
  "tokenSet s = set (filter (\<lambda>t. t \<noteq> []) (map normalizeToken (Fields s)))"

section \<open>Similarity\<close>

definition SimilarityRatio :: "string \<Rightarrow> string \<Rightarrow> real" where
  "SimilarityRatio a b =
     (if a = [] \<and> b = [] then 1
      else if a = [] \<or> b = [] then 0
      else
        let setA = tokenSet a; setB = tokenSet b in
        if card setA = 0 \<and> card setB = 0 then 1
        else
          let (smaller, larger) = (if card setB < card setA then (setB, setA) else (setA, setB));
              inter = card (Set.filter (\<lambda>k. k \<in> larger) smaller);
              union = card setA + card setB - inter
          in if union = 0 then 1 else real inter / real union)"

definition cosineSimilarityClamped :: "real list \<Rightarrow> real list \<Rightarrow> real" where
  "cosineSimilarityClamped a b =
     (let n = min (length a) (length b); a = take n a; b = take n b;
          dot = sum_list (map2 (*) a b);
          na = sum_list (map (\<lambda>x. x * x) a);
          nb = sum_list (map (\<lambda>x. x * x) b)
      in if na = 0 \<or> nb = 0 then 0
         else let result = dot / (sqrt na * sqrt nb)
              in if 1 < result then 1 else if result < 0 then 0 else result)"

record embedder =
  em_healthy :: bool
  em_embed :: "string \<Rightarrow> real list option"

definition SemanticSimilarityRatio :: "string \<Rightarrow> string \<Rightarrow> embedder option \<Rightarrow> real" where
  "SemanticSimilarityRatio a b embedder =
     (if a = [] \<and> b = [] then 1
      else if a = [] \<or> b = [] then 0
      else case embedder of
        None \<Rightarrow> SimilarityRatio a b
      | Some em \<Rightarrow>
          if \<not> em_healthy em then SimilarityRatio a b
          else case em_embed em a of
            None \<Rightarrow> SimilarityRatio a b
          | Some vecA \<Rightarrow>
              (case em_embed em b of
                 None \<Rightarrow> SimilarityRatio a b
               | Some vecB \<Rightarrow> cosineSimilarityClamped vecA vecB))"

record sim_config =
  sm_Mode :: string
  sm_Embedder :: "embedder option"

definition SimilarityModeSemantic :: string where "SimilarityModeSemantic = ''semantic''"

definition ComputeSimilarity :: "sim_config \<Rightarrow> fusion_metrics \<Rightarrow> string \<Rightarrow> string \<Rightarrow> fusion_metrics \<times> real" where
  "ComputeSimilarity c m a b =
     (if sm_Mode c = SimilarityModeSemantic
      then let score = SemanticSimilarityRatio a b (sm_Embedder c) in (RecordSemanticSimilarity m score, score)
      else (RecordJaccardSimilarity m, SimilarityRatio a b))"

section \<open>Lemmas\<close>

lemma finite_tokenSet [simp]: "finite (tokenSet s)"
  by (simp add: tokenSet_def)

text \<open>The loop over the smaller set counts the common tokens, so the ratio is that of the two cardinalities.\<close>

lemma SimilarityRatio_jaccard:
  "a \<noteq> [] \<Longrightarrow> b \<noteq> [] \<Longrightarrow> SimilarityRatio a b =
     (if tokenSet a \<union> tokenSet b = {} then 1
      else real (card (tokenSet a \<inter> tokenSet b)) / real (card (tokenSet a \<union> tokenSet b)))"
proof -
  assume "a \<noteq> []" "b \<noteq> []"
  let ?A = "tokenSet a" and ?B = "tokenSet b"
  have f: "{k \<in> X. k \<in> Y} = X \<inter> Y" for X Y :: "string set" by auto
  have e: "card (?A \<union> ?B) = 0 \<longleftrightarrow> ?A \<union> ?B = {}" "card ?A = 0 \<and> card ?B = 0 \<longleftrightarrow> ?A \<union> ?B = {}" by simp_all
  have "?B \<inter> ?A = ?A \<inter> ?B" by (rule Int_commute)
  moreover have "card ?A + card ?B - card (?A \<inter> ?B) = card (?A \<union> ?B)"
    using card_Un_Int [of ?A ?B] by simp
  moreover have "(if card ?B < card ?A then (?B, ?A) else (?A, ?B)) \<in> {(?A, ?B), (?B, ?A)}" by simp
  ultimately show ?thesis
    using \<open>a \<noteq> []\<close> \<open>b \<noteq> []\<close> unfolding SimilarityRatio_def Let_def e
    by (cases "card ?B < card ?A") (simp_all only: if_True if_False prod.case Set.filter_eq f e refl, simp_all)
qed

lemma SimilarityRatio_sym: "SimilarityRatio a b = SimilarityRatio b a"
proof (cases "a = [] \<or> b = []")
  case True
  then show ?thesis by (auto simp: SimilarityRatio_def)
next
  case False
  then show ?thesis by (simp add: SimilarityRatio_jaccard Un_commute Int_commute)
qed

lemma SimilarityRatio_range: "0 \<le> SimilarityRatio a b \<and> SimilarityRatio a b \<le> 1"
proof (cases "a = [] \<or> b = []")
  case True
  then show ?thesis by (auto simp: SimilarityRatio_def)
next
  case False
  have "card (tokenSet a \<inter> tokenSet b) \<le> card (tokenSet a \<union> tokenSet b)" by (intro card_mono) auto
  then have "real (card (tokenSet a \<inter> tokenSet b)) / real (card (tokenSet a \<union> tokenSet b)) \<le> 1"
    by (intro divide_le_eq_1 [THEN iffD2]) auto
  then show ?thesis using False by (simp add: SimilarityRatio_jaccard)
qed

lemma SimilarityRatio_self: "SimilarityRatio a a = 1"
  by (cases "a = []") (simp_all add: SimilarityRatio_jaccard, simp add: SimilarityRatio_def)

lemma SimilarityRatio_1_iff:
  "SimilarityRatio a b = 1 \<longleftrightarrow> (a = [] \<longleftrightarrow> b = []) \<and> tokenSet a = tokenSet b"
proof (cases "a = [] \<or> b = []")
  case True
  then show ?thesis by (auto simp: SimilarityRatio_def)
next
  case False
  let ?A = "tokenSet a" and ?B = "tokenSet b"
  have "card (?A \<inter> ?B) = card (?A \<union> ?B) \<longleftrightarrow> ?A = ?B"
    using card_subset_eq [of "?A \<union> ?B" "?A \<inter> ?B"] by auto
  then show ?thesis using False by (auto simp: SimilarityRatio_jaccard divide_eq_1_iff)
qed

lemma clamped_range: "0 \<le> cosineSimilarityClamped a b \<and> cosineSimilarityClamped a b \<le> 1"
  by (simp add: cosineSimilarityClamped_def Let_def)

lemma ComputeSimilarity_range:
  "0 \<le> snd (ComputeSimilarity c m a b) \<and> snd (ComputeSimilarity c m a b) \<le> 1"
  using SimilarityRatio_range [of a b] clamped_range
  by (auto simp: ComputeSimilarity_def SemanticSimilarityRatio_def Let_def split: option.split)

end
