(* ===== verification/Fusion.thy ===== *)
theory Fusion
  imports UpStream Similarity Cascade ArbiterCache
begin

text \<open>
  \<open>internal/upstream/upstream.go\<close>, the fusion panel: the fetch of one member, the buffered panel with its
  cache of syntheses, and the progressive panel. The HTTP exchanges of the two members and the order
  in which they end are inputs; the arbiter is a function from the synthesis prompt to its exchange,
  and the prompts it got are part of the state. JSON and SHA-256 are parameters. Cancelling a member
  whose result is already there and the log lines have no counterpart.
\<close>

section \<open>Members\<close>

record panel_chunk =
  pc_source :: string
  pc_created :: "int option"
  pc_model :: "string option"
  pc_content :: "string option"
  pc_calls :: "(nat \<times> tool_call) list option"
  pc_finish :: string

record fusion_lib =
  fl_decode :: "string \<Rightarrow> string + assistant_message list"
  fl_texts :: "string \<Rightarrow> string list option"
  fl_valid :: "string \<Rightarrow> bool"
  fl_is_object :: "string \<Rightarrow> bool"
  fl_chunk :: "panel_chunk \<Rightarrow> string + string"
  fl_completion :: "string \<Rightarrow> string \<Rightarrow> string + string"
  fl_sha :: "string \<Rightarrow> string"
  fl_hex :: "string \<Rightarrow> string"
  fl_maxResponseBytes :: int

text \<open>What \<open>FetchPanel\<close> sends: the client's body with its own model and no streaming.\<close>

definition panel_payload :: "string \<Rightarrow> (string \<rightharpoonup> jval) \<Rightarrow> (string \<rightharpoonup> jval)" where
  "panel_payload modelName body = body(''model'' \<mapsto> JStr modelName, ''stream'' \<mapsto> JBool False)"

definition FetchPanel :: "fusion_lib \<Rightarrow> string \<Rightarrow> roundtrip \<Rightarrow> string + assistant_message" where
  "FetchPanel L modelName x =
     (case x of
        MarshalFailed e \<Rightarrow> Inl (''fusion: marshal: '' @ e)
      | BuildFailed e \<Rightarrow> Inl (''fusion: build request: '' @ e)
      | DoFailed e \<Rightarrow> Inl (''fusion: do: '' @ fst e)
      | Answered r \<Rightarrow>
          (let limit = nat (fl_maxResponseBytes L);
               respBody = take limit (rp_Body r);
               err = (if length (rp_Body r) < limit then rp_Err r else None);
               truncated = (fl_maxResponseBytes L \<le> int (length respBody));
               ct = TrimSpace (header_get (rp_Headers r) ''Content-Type'')
           in if err \<noteq> None \<or> truncated then
                Inl (''fusion: read response: '' @ (case err of
                  Some e \<Rightarrow> fst e | None \<Rightarrow> ''fusion: response truncated at max response bytes''))
              else if rp_Status r \<noteq> 200 then
                Inl (''fusion: '' @ modelName @ '' status '' @ decimal (rp_Status r) @ '': '' @ truncateForLog respBody 200)
              else if ct \<noteq> ''application/json'' \<and> ct \<noteq> ''text/event-stream'' then
                Inl ''upstream: content-type mismatch''
              else case fl_decode L respBody of
                Inl e \<Rightarrow> Inl (''fusion: decode: '' @ e)
              | Inr [] \<Rightarrow> Inl (''fusion: '' @ modelName @ '' returned empty choice'')
              | Inr (msg # _) \<Rightarrow> Inr msg))"

record panel_result =
  pr_Source :: string
  pr_Content :: string
  pr_ToolCalls :: "tool_call list"
  pr_Err :: "string option"

definition ErrStr :: "panel_result \<Rightarrow> string" where
  "ErrStr p = (case pr_Err p of None \<Rightarrow> [] | Some e \<Rightarrow> e)"

text \<open>A member's goroutine: a panic is recovered and counted.\<close>

datatype member = Fetched roundtrip | Panicked string

definition member_result :: "fusion_lib \<Rightarrow> string \<Rightarrow> string \<Rightarrow> member \<Rightarrow> panel_result" where
  "member_result L source modelName x =
     (case x of
        Panicked v \<Rightarrow> \<lparr>pr_Source = source, pr_Content = [], pr_ToolCalls = [], pr_Err = Some (''panic: '' @ v)\<rparr>
      | Fetched y \<Rightarrow>
          (case FetchPanel L modelName y of
             Inl e \<Rightarrow> \<lparr>pr_Source = source, pr_Content = [], pr_ToolCalls = [], pr_Err = Some e\<rparr>
           | Inr msg \<Rightarrow> \<lparr>pr_Source = source, pr_Content = am_Content msg, pr_ToolCalls = am_ToolCalls msg, pr_Err = None\<rparr>))"

definition member_metrics :: "member \<Rightarrow> fusion_metrics \<Rightarrow> fusion_metrics" where
  "member_metrics x m = (case x of Panicked _ \<Rightarrow> IncPanelPanics m | Fetched _ \<Rightarrow> m)"

definition degraded_local :: panel_result where
  "degraded_local = \<lparr>pr_Source = ''local'', pr_Content = [], pr_ToolCalls = [], pr_Err = Some ''ollama unavailable (degraded)''\<rparr>"

record panel_req =
  pq_localModel :: string
  pq_frontierModel :: string
  pq_arbiterModel :: string
  pq_body :: "string \<rightharpoonup> jval"
  pq_latestPrompt :: string
  pq_skipLocal :: bool
  pq_arbiterCacheTTL :: nanos
  pq_simCfg :: sim_config
  pq_local :: member
  pq_frontier :: member
  pq_localFirst :: bool
  pq_now :: nanos

text \<open>The two results in the order they came through the channel.\<close>

definition panel_members :: "fusion_lib \<Rightarrow> panel_req \<Rightarrow> fusion_metrics \<Rightarrow> fusion_metrics \<times> panel_result \<times> panel_result" where
  "panel_members L q m =
     (let f = member_result L ''frontier'' (pq_frontierModel q) (pq_frontier q);
          l = member_result L ''local'' (pq_localModel q) (pq_local q)
      in if pq_skipLocal q then (member_metrics (pq_frontier q) m, degraded_local, f)
         else (member_metrics (pq_frontier q) (member_metrics (pq_local q) m),
               if pq_localFirst q then (l, f) else (f, l)))"

definition wants_stream :: "(string \<rightharpoonup> jval) \<Rightarrow> bool" where
  "wants_stream body \<longleftrightarrow> body ''stream'' \<noteq> Some (JBool False)"

section \<open>The synthesis prompt\<close>

definition formatCandidate :: "panel_result \<Rightarrow> string" where
  "formatCandidate r =
     (case pr_Err r of Some e \<Rightarrow> ''['' @ pr_Source r @ '' failed: '' @ e @ '']'' | None \<Rightarrow> pr_Content r)"

definition SynthesisPrompt :: "string \<Rightarrow> panel_result \<Rightarrow> panel_result \<Rightarrow> string" where
  "SynthesisPrompt userPrompt c1 c2 =
     ''You are a Master Synthesis Arbiter AI. Synthesize the strongest final answer from these candidates.'' @ [NL, NL] @
     ''User Prompt: '' @ userPrompt @ [NL, NL] @
     ''Candidate 1 (Local Model - Fast execution):'' @ [NL] @ formatCandidate c1 @ [NL, NL] @
     ''Candidate 2 (Frontier Model - Deep reasoning):'' @ [NL] @ formatCandidate c2"

section \<open>Writing\<close>

datatype panel_err =
    BothFailed string string | Speculative up_error | Chunking string | Completing string | SSEFraming
  | ArbiterStream up_error | ArbiterFetch up_error | EmptySynthesis | Writing up_error

text \<open>A write error, \<open>ErrClientAbort\<close> for one of the client's connection.\<close>

definition abort_or :: "writer \<Rightarrow> up_error" where
  "abort_or w = (if IsClientAbort (Some (UpWrite (rw_gone w))) then ErrClientAbort else UpWrite (rw_gone w))"

text \<open>The writes of one frame stop at the first that fails.\<close>

fun write_all :: "writer \<Rightarrow> string list \<Rightarrow> writer \<times> up_error option" where
  "write_all w [] = (w, None)"
| "write_all w (s # ss) =
     (case Write w s of (w, True) \<Rightarrow> write_all w ss | (w, False) \<Rightarrow> (w, Some (abort_or w)))"

definition writeSSEDone :: "writer \<Rightarrow> writer \<times> up_error option" where
  "writeSSEDone w = write_all w [done_frame]"

definition speculative_chunk :: "panel_result \<Rightarrow> panel_chunk" where
  "speculative_chunk r =
     \<lparr>pc_source = pr_Source r, pc_created = None, pc_model = None,
      pc_content = (if pr_ToolCalls r \<noteq> [] \<and> pr_Content r = [] then None else Some (pr_Content r)),
      pc_calls = (if pr_ToolCalls r \<noteq> [] then Some (enumerate 0 (pr_ToolCalls r)) else None),
      pc_finish = (if pr_ToolCalls r \<noteq> [] then ''tool_calls'' else ''stop'')\<rparr>"

definition streamPanelResultAsSSE :: "fusion_lib \<Rightarrow> writer \<Rightarrow> panel_result \<Rightarrow> writer \<times> panel_err option" where
  "streamPanelResultAsSSE L w r =
     (if pr_Err r \<noteq> None then (w, None)
      else case fl_chunk L (speculative_chunk r) of
        Inl e \<Rightarrow> (w, Some (Chunking e))
      | Inr b \<Rightarrow> apsnd (map_option Writing) (write_all w [''data: '', b, [NL, NL]]))"

definition cached_chunk :: "int \<Rightarrow> string \<Rightarrow> panel_chunk" where
  "cached_chunk created content =
     \<lparr>pc_source = ''arbiter-cached'', pc_created = Some created, pc_model = Some ''arbiter'',
      pc_content = Some content, pc_calls = None, pc_finish = ''stop''\<rparr>"

definition streamCachedArbiterSynthesis :: "fusion_lib \<Rightarrow> int \<Rightarrow> writer \<Rightarrow> string \<Rightarrow> writer \<times> panel_err option" where
  "streamCachedArbiterSynthesis L created w content =
     (if Contains content (NL # ''data:'') then (w, Some SSEFraming)
      else case fl_chunk L (cached_chunk created content) of
        Inl e \<Rightarrow> (w, Some (Chunking e))
      | Inr b \<Rightarrow>
          (let w = set_header w ''Content-Type'' ''text/event-stream'';
               w = set_header w ''Cache-Control'' ''no-cache'';
               w = WriteHeader w 200
           in case write_all w [''data: '', b, [NL, NL]] of
                (w, Some e) \<Rightarrow> (w, Some (Writing e))
              | (w, None) \<Rightarrow> apsnd (map_option Writing) (writeSSEDone w)))"

definition writeCachedArbiterJSON :: "fusion_lib \<Rightarrow> writer \<Rightarrow> string \<Rightarrow> string \<Rightarrow> writer \<times> panel_err option" where
  "writeCachedArbiterJSON L w synthesis modelName =
     (case fl_completion L modelName synthesis of
        Inl e \<Rightarrow> (w, Some (Completing e))
      | Inr b \<Rightarrow>
          (case Write (WriteHeader (set_header w ''Content-Type'' ''application/json'') 200) b of
             (w, True) \<Rightarrow> (w, None)
           | (w, False) \<Rightarrow> (w, Some (Writing (UpWrite (rw_gone w))))))"

section \<open>The panels\<close>

record panel_state =
  ps_w :: writer
  ps_cache :: "arbiter option"
  ps_metrics :: fusion_metrics
  ps_asked :: "string list"

record panel_outcome =
  po_ArbiterSkipped :: bool
  po_Source :: string
  po_Similarity :: real
  po_ArbiterCacheHit :: bool
  po_SkipReason :: string
  po_ArbiterCacheKeyHex :: string
  po_ArbiterSynthesis :: string

definition no_outcome :: panel_outcome where
  "no_outcome = \<lparr>po_ArbiterSkipped = False, po_Source = [], po_Similarity = 0, po_ArbiterCacheHit = False,
     po_SkipReason = [], po_ArbiterCacheKeyHex = [], po_ArbiterSynthesis = []\<rparr>"

definition bufferResponseWriter :: writer where
  "bufferResponseWriter = \<lparr>rw_header = Map.empty, rw_committed = None, rw_out = [], rw_left = None,
     rw_flusher = True, rw_gone = False\<rparr>"

definition progressive_header :: "bool \<Rightarrow> panel_state \<Rightarrow> panel_state" where
  "progressive_header isFusion s =
     (if isFusion then s\<lparr>ps_w := set_header (ps_w s) ''X-Nexus-Fusion-Progressive'' ''true''\<rparr> else s)"

definition caching :: "panel_state \<Rightarrow> panel_req \<Rightarrow> bool" where
  "caching s q \<longleftrightarrow> ps_cache s \<noteq> None \<and> 0 < pq_arbiterCacheTTL q"

text \<open>The lookup refreshes the recency of what it finds.\<close>

definition look_cache :: "fusion_lib \<Rightarrow> panel_req \<Rightarrow> panel_state \<Rightarrow> string \<Rightarrow> string \<Rightarrow> panel_state \<times> string option" where
  "look_cache L q s c1 c2 =
     (if caching s q
      then (case ArbGet (fl_sha L) (ps_cache s) (pq_now q) c1 c2 of (c, r) \<Rightarrow> (s\<lparr>ps_cache := c\<rparr>, r))
      else (s, None))"

text \<open>The first choice of the arbiter's buffered answer, empty if there is none.\<close>

definition synthesis_of :: "fusion_lib \<Rightarrow> string \<Rightarrow> string" where
  "synthesis_of L buf = (case fl_texts L buf of Some (t # _) \<Rightarrow> t | _ \<Rightarrow> [])"

definition Panel ::
  "fusion_lib \<Rightarrow> panel_req \<Rightarrow> (string \<Rightarrow> roundtrip) \<Rightarrow> bool \<Rightarrow> panel_state \<Rightarrow> panel_state \<times> panel_outcome \<times> bool \<times> panel_err option" where
  "Panel L q arb isFusion s =
     (case panel_members L q (ps_metrics s) of (m, r1, r2) \<Rightarrow>
        (let s = s\<lparr>ps_metrics := m\<rparr>;
             synth = SynthesisPrompt (pq_latestPrompt q) r1 r2
         in case look_cache L q s (pr_Content r1) (pr_Content r2) of
              (s, Some cached) \<Rightarrow>
                (case ComputeSimilarity (pq_simCfg q) (ps_metrics s) (pr_Content r1) (pr_Content r2) of (m, sim) \<Rightarrow>
                   (let out = no_outcome\<lparr>po_ArbiterCacheHit := True, po_ArbiterSkipped := True, po_Similarity := sim,
                          po_SkipReason := ''cache_hit''\<rparr>;
                        s = progressive_header isFusion (s\<lparr>ps_metrics := m\<rparr>)
                    in case (if wants_stream (pq_body q) then streamCachedArbiterSynthesis L (pq_now q) (ps_w s) cached
                             else writeCachedArbiterJSON L (ps_w s) cached (pq_arbiterModel q)) of
                         (w, e) \<Rightarrow> (s\<lparr>ps_w := w\<rparr>, out, True, e)))
            | (s, None) \<Rightarrow>
                (let s = s\<lparr>ps_asked := ps_asked s @ [synth]\<rparr> in
                 if wants_stream (pq_body q) then
                   (let s = progressive_header isFusion s in
                    case StreamWithContext (fl_valid L) (ps_w s) (arb synth) of
                      (w, Some e) \<Rightarrow> (s\<lparr>ps_w := w\<rparr>, no_outcome, False, Some (ArbiterStream e))
                    | (w, None) \<Rightarrow>
                        (case writeSSEDone w of (w, e) \<Rightarrow> (s\<lparr>ps_w := w\<rparr>, no_outcome, False, map_option Writing e)))
                 else
                   case BufferedFetchWithContext (fl_is_object L) (fl_maxResponseBytes L) bufferResponseWriter (arb synth) of
                     (buf, Some e) \<Rightarrow> (s, no_outcome, False, Some (ArbiterFetch e))
                   | (buf, None) \<Rightarrow>
                       (let synthesis = synthesis_of L (rw_out buf) in
                        if synthesis = [] then (s, no_outcome, False, Some EmptySynthesis)
                        else
                          let out = (if caching s q
                                then no_outcome\<lparr>po_ArbiterCacheKeyHex := fl_hex L (cacheKey (fl_sha L) (pr_Content r1) (pr_Content r2)),
                                       po_ArbiterSynthesis := synthesis\<rparr>
                                else no_outcome);
                              s = (if caching s q
                                then s\<lparr>ps_cache := fst (ArbSet (fl_sha L) (ps_cache s) (pq_now q) (pr_Content r1) (pr_Content r2)
                                                     synthesis (pq_arbiterCacheTTL q))\<rparr>
                                else s);
                              s = progressive_header isFusion s
                          in case writeCachedArbiterJSON L (ps_w s) synthesis (pq_arbiterModel q) of
                               (w, e) \<Rightarrow> (s\<lparr>ps_w := w\<rparr>, out, False, e)))))"

definition clamp_threshold :: "real \<Rightarrow> real" where
  "clamp_threshold t = (if t < 0 then 0 else if 1 < t then 1 else t)"

text \<open>The member that is streamed: the one that did not fail, else the first, else the one with tool calls.\<close>

definition pick_winner :: "panel_result \<Rightarrow> panel_result \<Rightarrow> panel_result" where
  "pick_winner r1 r2 =
     (if pr_Err r1 \<noteq> None then r2
      else if pr_ToolCalls r2 \<noteq> [] \<and> pr_ToolCalls r1 = [] then r2 else r1)"

definition sse_headers :: "writer \<Rightarrow> writer" where
  "sse_headers w =
     (let w = set_header w ''Content-Type'' ''text/event-stream'';
          w = set_header w ''Cache-Control'' ''no-cache'';
          w = set_header w ''X-Nexus-Fusion-Progressive'' ''true''
      in WriteHeader w 200)"

text \<open>The end of a response without arbiter.\<close>

definition finish_skipped :: "panel_state \<Rightarrow> panel_outcome \<Rightarrow> string \<Rightarrow> panel_state \<times> panel_outcome \<times> panel_err option" where
  "finish_skipped s out reason =
     (case writeSSEDone (ps_w s) of (w, e) \<Rightarrow>
        (s\<lparr>ps_w := w\<rparr>, out\<lparr>po_ArbiterSkipped := True, po_SkipReason := reason\<rparr>, map_option Writing e))"

text \<open>The arbiter after a disagreement: from the cache, or streamed through.\<close>

definition append_synthesis ::
  "fusion_lib \<Rightarrow> panel_req \<Rightarrow> (string \<Rightarrow> roundtrip) \<Rightarrow> panel_result \<Rightarrow> panel_result \<Rightarrow> panel_state \<Rightarrow> panel_outcome
     \<Rightarrow> panel_state \<times> panel_outcome \<times> panel_err option" where
  "append_synthesis L q arb r1 r2 s out =
     (let synth = SynthesisPrompt (pq_latestPrompt q) r1 r2 in
      case look_cache L q s (pr_Content r1) (pr_Content r2) of
        (s, Some cached) \<Rightarrow>
          (let out = out\<lparr>po_ArbiterCacheHit := True\<rparr> in
           case streamCachedArbiterSynthesis L (pq_now q) (ps_w s) cached of
             (w, Some (Writing ErrClientAbort)) \<Rightarrow>
               (s\<lparr>ps_w := w, ps_metrics := IncFusionClientAbort (ps_metrics s)\<rparr>, out, None)
           | (w, e) \<Rightarrow> (s\<lparr>ps_w := w\<rparr>, out, e))
      | (s, None) \<Rightarrow>
          (let s = s\<lparr>ps_asked := ps_asked s @ [synth]\<rparr> in
           case StreamWithContext (fl_valid L) (ps_w s) (arb synth) of
             (w, Some e) \<Rightarrow>
               if IsClientAbort (Some e)
               then (s\<lparr>ps_w := w, ps_metrics := IncFusionClientAbort (ps_metrics s)\<rparr>, out, None)
               else (s\<lparr>ps_w := w\<rparr>, out, Some (ArbiterStream e))
           | (w, None) \<Rightarrow>
               (case writeSSEDone w of (w, e) \<Rightarrow> (s\<lparr>ps_w := w\<rparr>, out, map_option Writing e))))"

definition PanelStreaming ::
  "fusion_lib \<Rightarrow> panel_req \<Rightarrow> (string \<Rightarrow> roundtrip) \<Rightarrow> real \<Rightarrow> panel_state \<Rightarrow> panel_state \<times> panel_outcome \<times> panel_err option" where
  "PanelStreaming L q arb agreementThreshold s =
     (if \<not> wants_stream (pq_body q) then
        (case Panel L q arb True s of
           (s, _, _, Some e) \<Rightarrow> (s, no_outcome, Some e)
         | (s, p, cacheHit, None) \<Rightarrow>
             (s, no_outcome\<lparr>po_ArbiterCacheHit := cacheHit, po_ArbiterSkipped := po_ArbiterSkipped p,
                po_SkipReason := po_SkipReason p, po_ArbiterCacheKeyHex := po_ArbiterCacheKeyHex p,
                po_ArbiterSynthesis := po_ArbiterSynthesis p\<rparr>, None))
      else
        case panel_members L q (ps_metrics s) of (m, r1, r2) \<Rightarrow>
          (let s = s\<lparr>ps_metrics := m\<rparr> in
           if pr_Err r1 \<noteq> None \<and> pr_Err r2 \<noteq> None then (s, no_outcome, Some (BothFailed (ErrStr r1) (ErrStr r2)))
           else
             let winner = pick_winner r1 r2;
                 out = no_outcome\<lparr>po_Source := pr_Source winner\<rparr>
             in case streamPanelResultAsSSE L (sse_headers (ps_w s)) winner of
                  (w, Some (Writing ErrClientAbort)) \<Rightarrow>
                    (s\<lparr>ps_w := w, ps_metrics := IncFusionClientAbort (ps_metrics s)\<rparr>, out, None)
                | (w, Some (Writing e)) \<Rightarrow> (s\<lparr>ps_w := w\<rparr>, out, Some (Speculative e))
                | (w, Some e) \<Rightarrow> (s\<lparr>ps_w := w\<rparr>, out, Some e)
                | (w, None) \<Rightarrow>
                    (let s = s\<lparr>ps_w := w\<rparr> in
                     if pr_ToolCalls winner \<noteq> [] then finish_skipped s out ''tool_calls''
                     else if pr_Err r1 \<noteq> None \<or> pr_Err r2 \<noteq> None then finish_skipped s out ''one_member''
                     else
                       case ComputeSimilarity (pq_simCfg q) (ps_metrics s) (pr_Content r1) (pr_Content r2) of (m, sim) \<Rightarrow>
                         (let s = s\<lparr>ps_metrics := m\<rparr>; out = out\<lparr>po_Similarity := sim\<rparr> in
                          if clamp_threshold agreementThreshold \<le> sim then finish_skipped s out ''agreement''
                          else append_synthesis L q arb r1 r2 s out))))"

section \<open>Lemmas\<close>

definition frame :: "string \<Rightarrow> string" where "frame b = ''data: '' @ b @ [NL, NL]"

lemma write_all_ok: "committed_writer w \<Longrightarrow> write_all w ss = (w\<lparr>rw_out := rw_out w @ concat ss\<rparr>, None)"
  by (induction ss arbitrary: w) (simp_all add: Write_ok)

lemma write_frame: "committed_writer w \<Longrightarrow> write_all w [''data: '', b, [NL, NL]] = (w\<lparr>rw_out := rw_out w @ frame b\<rparr>, None)"
  unfolding write_all_ok by (simp add: frame_def)

lemma writeSSEDone_ok: "committed_writer w \<Longrightarrow> writeSSEDone w = (w\<lparr>rw_out := rw_out w @ done_frame\<rparr>, None)"
  unfolding writeSSEDone_def write_all_ok by simp

lemma sse_headers_ok:
  assumes "rw_left w = None"
  shows "committed_writer (sse_headers w)" "rw_out (sse_headers w) = rw_out w" "rw_flusher (sse_headers w) = rw_flusher w"
    "rw_committed (sse_headers w) = (if rw_committed w = None then Some (200, (rw_header w)(''Content-Type'' \<mapsto> [''text/event-stream''],
       ''Cache-Control'' \<mapsto> [''no-cache''], ''X-Nexus-Fusion-Progressive'' \<mapsto> [''true''])) else rw_committed w)"
  using assms by (simp_all add: sse_headers_def Let_def WriteHeader_def set_header_def committed_writer_def)

lemma speculative_ok:
  "committed_writer w \<Longrightarrow> pr_Err r = None \<Longrightarrow> fl_chunk L = (\<lambda>c. Inr (ch c)) \<Longrightarrow>
   streamPanelResultAsSSE L w r = (w\<lparr>rw_out := rw_out w @ frame (ch (speculative_chunk r))\<rparr>, None)"
  by (simp add: streamPanelResultAsSSE_def write_frame del: write_all.simps)

lemma finish_skipped_ok:
  "committed_writer (ps_w s) \<Longrightarrow> finish_skipped s out reason =
     (s\<lparr>ps_w := (ps_w s)\<lparr>rw_out := rw_out (ps_w s) @ done_frame\<rparr>\<rparr>, out\<lparr>po_ArbiterSkipped := True, po_SkipReason := reason\<rparr>, None)"
  by (simp add: finish_skipped_def writeSSEDone_ok)

text \<open>Over a committed response a stream only appends.\<close>

definition extends :: "writer \<Rightarrow> writer \<Rightarrow> bool" where
  "extends w w' \<longleftrightarrow> rw_committed w' = rw_committed w \<and> (\<exists>r. rw_out w' = rw_out w @ r)"

lemma extends_refl [simp]: "extends w w"
  by (simp add: extends_def)

lemma extends_trans: "extends u v \<Longrightarrow> extends v w \<Longrightarrow> extends u w"
  by (auto simp: extends_def)

lemma extends_committed: "extends v w \<Longrightarrow> rw_committed w = rw_committed v"
  by (simp add: extends_def)

lemma Write_extends: "rw_committed w \<noteq> None \<Longrightarrow> extends w (fst (Write w s))"
  by (auto simp: Write_def WriteHeader_def extends_def Let_def split: option.split nat.split)

lemma write_all_extends: "rw_committed w \<noteq> None \<Longrightarrow> extends w (fst (write_all w ss))"
proof (induction ss arbitrary: w)
  case (Cons s ss)
  obtain v ok where v: "Write w s = (v, ok)" by fastforce
  with Write_extends [OF Cons.prems, of s] have "extends w v" by simp
  moreover from this have "extends v (fst (write_all v ss))"
    using Cons.prems by (intro Cons.IH) (simp add: extends_def)
  ultimately show ?case by (auto simp: v split: bool.split intro: extends_trans)
qed simp

lemma cached_extends:
  assumes "rw_committed w \<noteq> None"
  shows "extends w (fst (streamCachedArbiterSynthesis L created w content))"
proof -
  let ?w = "WriteHeader (set_header (set_header w ''Content-Type'' ''text/event-stream'') ''Cache-Control'' ''no-cache'') 200"
  have w: "extends w ?w" "rw_committed ?w \<noteq> None"
    using assms by (simp_all add: extends_def WriteHeader_def set_header_def)
  have "extends w (fst (write_all ?w ss))" for ss using write_all_extends [OF w(2)] w(1) by (rule extends_trans [rotated])
  moreover have "extends w (fst (writeSSEDone v))" if "extends w v" for v
    using that write_all_extends [of v "[done_frame]"] assms extends_trans [of w v]
    by (simp add: writeSSEDone_def extends_committed del: write_all.simps)
  ultimately show ?thesis
    by (auto simp: streamCachedArbiterSynthesis_def Let_def split: sum.split prod.split option.split
        simp del: write_all.simps) (metis fst_conv)+
qed

lemma stream_extends:
  assumes "committed_writer w"
  shows "extends w (fst (StreamWithContext valid w x))"
proof (cases "\<exists>r. x = Answered r \<and> stream_type r \<and> rw_flusher w")
  case True
  then obtain r where r: "x = Answered r" "stream_type r" "rw_flusher w" by blast
  show ?thesis
    using stream_answered [OF _ r(3,2) prod.collapse [symmetric], of valid] assms
    unfolding r(1) by (simp add: extends_def committed_writer_def)
next
  case False
  then show ?thesis using assms
    by (auto simp: StreamWithContext_def stream_type_def Let_def extends_def WriteHeader_def committed_writer_def split: roundtrip.split)
qed


lemma append_extends:
  assumes "committed_writer (ps_w s)"
  shows "extends (ps_w s) (ps_w (fst (append_synthesis L q arb r1 r2 s out)))
    \<and> ps_asked (fst (append_synthesis L q arb r1 r2 s out)) = ps_asked s @
        (if snd (look_cache L q s (pr_Content r1) (pr_Content r2)) = None then [SynthesisPrompt (pq_latestPrompt q) r1 r2] else [])
    \<and> po_ArbiterSkipped (fst (snd (append_synthesis L q arb r1 r2 s out))) = po_ArbiterSkipped out
    \<and> po_Source (fst (snd (append_synthesis L q arb r1 r2 s out))) = po_Source out"
proof -
  obtain t c where c: "look_cache L q s (pr_Content r1) (pr_Content r2) = (t, c)" by fastforce
  have t: "ps_w t = ps_w s" "ps_asked t = ps_asked s"
    using c by (auto simp: look_cache_def split: if_splits prod.splits)
  have n: "rw_committed (ps_w s) \<noteq> None" using assms by (simp add: committed_writer_def)
  show ?thesis
  proof (cases c)
    case (Some cached)
    obtain w e where w: "streamCachedArbiterSynthesis L (pq_now q) (ps_w s) cached = (w, e)" by fastforce
    with cached_extends [OF n, of L "pq_now q" cached] have "extends (ps_w s) w" by simp
    then show ?thesis
      by (auto simp: append_synthesis_def c Some t w Let_def split: option.split panel_err.split up_error.split)
  next
    case None
    obtain w e where w: "StreamWithContext (fl_valid L) (ps_w s) (arb (SynthesisPrompt (pq_latestPrompt q) r1 r2)) = (w, e)" by fastforce
    then have x: "extends (ps_w s) w" using stream_extends [OF assms] by (metis fst_conv)
    obtain v e' where v: "writeSSEDone w = (v, e')" by fastforce
    with write_all_extends [of w "[done_frame]"] x n have "extends (ps_w s) v"
      by (metis extends_committed extends_trans fst_conv writeSSEDone_def)
    with x show ?thesis
      by (auto simp: append_synthesis_def c None t w v Let_def split: option.split)
  qed
qed

section \<open>Properties\<close>

definition panel_sim :: "panel_req \<Rightarrow> panel_result \<Rightarrow> panel_result \<Rightarrow> real" where
  "panel_sim q r1 r2 =
     (if sm_Mode (pq_simCfg q) = SimilarityModeSemantic
      then SemanticSimilarityRatio (pr_Content r1) (pr_Content r2) (sm_Embedder (pq_simCfg q))
      else SimilarityRatio (pr_Content r1) (pr_Content r2))"

lemma panel_sim_eq [simp]: "snd (ComputeSimilarity (pq_simCfg q) m (pr_Content r1) (pr_Content r2)) = panel_sim q r1 r2"
  by (simp add: ComputeSimilarity_def panel_sim_def Let_def)

definition first_reason :: "panel_req \<Rightarrow> real \<Rightarrow> panel_result \<Rightarrow> panel_result \<Rightarrow> string option" where
  "first_reason q t r1 r2 =
     (if pr_ToolCalls (pick_winner r1 r2) \<noteq> [] then Some ''tool_calls''
      else if pr_Err r1 \<noteq> None \<or> pr_Err r2 \<noteq> None then Some ''one_member''
      else if clamp_threshold t \<le> panel_sim q r1 r2 then Some ''agreement'' else None)"

lemma look_cache_result:
  "snd (look_cache L q (s\<lparr>ps_metrics := m, ps_w := w\<rparr>) a b) = snd (look_cache L q s a b)"
  by (simp add: look_cache_def caching_def split: prod.split)

lemma look_cache_metrics: "snd (look_cache L q (s\<lparr>ps_metrics := m\<rparr>) a b) = snd (look_cache L q s a b)"
  by (simp add: look_cache_def caching_def split: prod.split)

lemma look_cache_w: "snd (look_cache L q (s\<lparr>ps_w := w\<rparr>) a b) = snd (look_cache L q s a b)"
  by (simp add: look_cache_def caching_def split: prod.split)

definition clean :: "panel_result \<Rightarrow> bool" where
  "clean r \<longleftrightarrow> pr_Err r = None \<or> pr_Content r = [] \<and> pr_ToolCalls r = []"

lemma clean_member: "clean (member_result L src model y)" "clean degraded_local"
  by (simp_all add: clean_def member_result_def degraded_local_def split: member.split sum.split)

lemma members_failed:
  assumes "panel_members L q m0 = (m, r1, r2)"
  shows "clean r1" "clean r2"
  using assms by (cases "pq_skipLocal q"; cases "pq_localFirst q"; simp add: panel_members_def Let_def; metis clean_member)+

lemma winner_ok:
  assumes "panel_members L q m0 = (m, r1, r2)" "\<not> (pr_Err r1 \<noteq> None \<and> pr_Err r2 \<noteq> None)"
  shows "pr_Err (pick_winner r1 r2) = None"
    "pr_ToolCalls (pick_winner r1 r2) = [] \<longleftrightarrow> (\<forall>r\<in>{r1, r2}. pr_Err r \<noteq> None \<or> pr_ToolCalls r = [])"
proof -
  have f: "pr_Err r1 \<noteq> None \<Longrightarrow> pr_ToolCalls r1 = []" "pr_Err r2 \<noteq> None \<Longrightarrow> pr_ToolCalls r2 = []"
    using members_failed [OF assms(1)] by (auto simp: clean_def)
  show "pr_Err (pick_winner r1 r2) = None"
    using f assms(2) by (cases "pr_Err r1"; cases "pr_Err r2") (simp_all add: pick_winner_def)
  show "pr_ToolCalls (pick_winner r1 r2) = [] \<longleftrightarrow> (\<forall>r\<in>{r1, r2}. pr_Err r \<noteq> None \<or> pr_ToolCalls r = [])"
    using f assms(2) by (cases "pr_Err r1"; cases "pr_Err r2") (auto simp: pick_winner_def)
qed

lemma swap_updates: "s\<lparr>ps_w := v, ps_metrics := n\<rparr> = s\<lparr>ps_metrics := n, ps_w := v\<rparr>"
  by (cases s) simp

text \<open>The progressive panel when at least one member answered: the state after the winner was streamed.\<close>

lemma streaming_start:
  assumes "wants_stream (pq_body q)" "rw_left (ps_w s) = None" "fl_chunk L = (\<lambda>c. Inr (ch c))"
    and "panel_members L q (ps_metrics s) = (m, r1, r2)"
    and "pr_Err (pick_winner r1 r2) = None"
  shows "PanelStreaming L q arb t s =
     (let v = sse_headers (ps_w s);
          w = v\<lparr>rw_out := rw_out v @ frame (ch (speculative_chunk (pick_winner r1 r2)))\<rparr>;
          out = no_outcome\<lparr>po_Source := pr_Source (pick_winner r1 r2)\<rparr>;
          u = s\<lparr>ps_metrics := m, ps_w := w\<rparr>
      in if pr_ToolCalls (pick_winner r1 r2) \<noteq> [] then finish_skipped u out ''tool_calls''
         else if pr_Err r1 \<noteq> None \<or> pr_Err r2 \<noteq> None then finish_skipped u out ''one_member''
         else case ComputeSimilarity (pq_simCfg q) m (pr_Content r1) (pr_Content r2) of (m, sim) \<Rightarrow>
           if clamp_threshold t \<le> sim then finish_skipped (u\<lparr>ps_metrics := m\<rparr>) (out\<lparr>po_Similarity := sim\<rparr>) ''agreement''
           else append_synthesis L q arb r1 r2 (u\<lparr>ps_metrics := m\<rparr>) (out\<lparr>po_Similarity := sim\<rparr>))"
proof -
  have one: "(pr_Err r1 \<noteq> None \<and> pr_Err r2 \<noteq> None) = False"
    using assms(5) by (auto simp: pick_winner_def split: if_splits)
  show ?thesis
    unfolding PanelStreaming_def assms(4) Let_def
    by (simp add: one assms(1) speculative_ok [OF sse_headers_ok(1) [OF assms(2)] assms(5,3)]
        cong: if_cong split del: if_split del: not_None_eq de_Morgan_conj)
qed

text \<open>
  C10: The decision table of progressive fusion. Two failures write nothing and name both; otherwise
  one event with the answer of the winner is written under status 200, the winner being a member that
  did not fail and that has tool calls if such a member exists. The arbiter is skipped exactly when
  the winner has tool calls, a member failed, or the similarity reaches the clamped threshold, and
  then the end marker follows and nothing else; otherwise what follows is only appended, and the
  arbiter is asked, once, exactly when the cache has no synthesis.
\<close>

theorem panel_streaming_decision:
  assumes "wants_stream (pq_body q)" "rw_left (ps_w s) = None" "rw_committed (ps_w s) = None"
    and "fl_chunk L = (\<lambda>c. Inr (ch c))" "panel_members L q (ps_metrics s) = (m, r1, r2)"
    and "PanelStreaming L q arb t s = (s', out, e)"
  shows "if pr_Err r1 \<noteq> None \<and> pr_Err r2 \<noteq> None
    then ps_w s' = ps_w s \<and> ps_asked s' = ps_asked s \<and> e = Some (BothFailed (ErrStr r1) (ErrStr r2))
    else
      pr_Err (pick_winner r1 r2) = None
      \<and> (pr_ToolCalls (pick_winner r1 r2) = [] \<longleftrightarrow> (\<forall>r\<in>{r1, r2}. pr_Err r \<noteq> None \<or> pr_ToolCalls r = []))
      \<and> po_Source out = pr_Source (pick_winner r1 r2)
      \<and> map_option fst (rw_committed (ps_w s')) = Some 200
      \<and> (case first_reason q t r1 r2 of
           Some reason \<Rightarrow> po_ArbiterSkipped out \<and> po_SkipReason out = reason \<and> e = None \<and> ps_asked s' = ps_asked s
             \<and> rw_out (ps_w s') = rw_out (ps_w s) @ frame (ch (speculative_chunk (pick_winner r1 r2))) @ done_frame
         | None \<Rightarrow> \<not> po_ArbiterSkipped out
             \<and> ps_asked s' = ps_asked s @ (if snd (look_cache L q s (pr_Content r1) (pr_Content r2)) = None
                 then [SynthesisPrompt (pq_latestPrompt q) r1 r2] else [])
             \<and> (\<exists>r. rw_out (ps_w s') = rw_out (ps_w s) @ frame (ch (speculative_chunk (pick_winner r1 r2))) @ r))"
proof (cases "pr_Err r1 \<noteq> None \<and> pr_Err r2 \<noteq> None")
  case True
  then show ?thesis using assms(1,5,6) by (auto simp: PanelStreaming_def Let_def)
next
  case False
  note win = winner_ok [OF assms(5) False]
  note h = sse_headers_ok [OF assms(2)]
  define v where "v = (sse_headers (ps_w s))\<lparr>rw_out := rw_out (sse_headers (ps_w s)) @ frame (ch (speculative_chunk (pick_winner r1 r2)))\<rparr>"
  have v: "committed_writer v" "map_option fst (rw_committed v) = Some 200"
    "rw_out v = rw_out (ps_w s) @ frame (ch (speculative_chunk (pick_winner r1 r2)))"
    using h assms(3) by (simp_all add: v_def)
  note run = streaming_start [OF assms(1,2,4,5) win(1), of arb t, unfolded Let_def, folded v_def, unfolded assms(6)]
  show ?thesis
  proof (cases "first_reason q t r1 r2")
    case None
    let ?m = "fst (ComputeSimilarity (pq_simCfg q) m (pr_Content r1) (pr_Content r2))"
    let ?o = "no_outcome\<lparr>po_Source := pr_Source (pick_winner r1 r2), po_Similarity := panel_sim q r1 r2\<rparr>"
    have a: "append_synthesis L q arb r1 r2 (s\<lparr>ps_metrics := ?m, ps_w := v\<rparr>) ?o = (s', out, e)"
      using run None by (simp add: first_reason_def split_beta swap_updates split: if_splits)
    have "committed_writer (ps_w (s\<lparr>ps_metrics := ?m, ps_w := v\<rparr>))" using v(1) by simp
    note x = append_extends [OF this, of L q arb r1 r2 ?o, unfolded a fst_conv snd_conv look_cache_result]
    then obtain r where r: "rw_out (ps_w s') = rw_out v @ r" "rw_committed (ps_w s') = rw_committed v"
      by (auto simp: extends_def)
    have o: "\<not> po_ArbiterSkipped out" "po_Source out = pr_Source (pick_winner r1 r2)"
      "ps_asked s' = ps_asked s @ (if snd (look_cache L q s (pr_Content r1) (pr_Content r2)) = None
         then [SynthesisPrompt (pq_latestPrompt q) r1 r2] else [])"
      using x by (simp_all add: no_outcome_def)
    show ?thesis
      unfolding None option.case r(2) v(2) if_not_P [OF False] using win o r(1) v(3) by simp
  next
    case (Some reason)
    have f: "finish_skipped (s\<lparr>ps_metrics := n, ps_w := v\<rparr>) po x =
        (s\<lparr>ps_metrics := n, ps_w := v\<lparr>rw_out := rw_out v @ done_frame\<rparr>\<rparr>, po\<lparr>po_ArbiterSkipped := True, po_SkipReason := x\<rparr>, None)" for n po x
      using finish_skipped_ok [of "s\<lparr>ps_metrics := n, ps_w := v\<rparr>"] v(1) by simp
    have "\<exists>n x. (s', out, e) = finish_skipped (s\<lparr>ps_metrics := n, ps_w := v\<rparr>)
        (no_outcome\<lparr>po_Source := pr_Source (pick_winner r1 r2), po_Similarity := x\<rparr>) reason"
    proof (cases "pr_ToolCalls (pick_winner r1 r2) \<noteq> [] \<or> pr_Err r1 \<noteq> None \<or> pr_Err r2 \<noteq> None")
      case True
      have "no_outcome\<lparr>po_Source := x\<rparr> = no_outcome\<lparr>po_Source := x, po_Similarity := 0\<rparr>" for x by (simp add: no_outcome_def)
      with True show ?thesis using run Some
        unfolding first_reason_def by (cases "pr_ToolCalls (pick_winner r1 r2) = []") (simp_all, metis+)
    next
      case False
      with run Some show ?thesis
        by (simp add: first_reason_def split_beta swap_updates split: if_splits) blast
    qed
    then show ?thesis unfolding Some option.case if_not_P [OF False] using win v unfolding f by auto
  qed
qed


text \<open>What a stream over a committed response appends, and how it ends.\<close>

definition stream_part :: "(string \<Rightarrow> bool) \<Rightarrow> roundtrip \<Rightarrow> string \<times> up_error option" where
  "stream_part valid x =
     (case x of
        MarshalFailed e \<Rightarrow> ([], Some (UpMarshal e))
      | BuildFailed e \<Rightarrow> ([], Some (UpBuild e))
      | DoFailed e \<Rightarrow> ([], Some (UpDo e))
      | Answered r \<Rightarrow>
          if stream_type r then stream_tail valid (stream_units (rp_Body r)) (rp_Err r) False False
          else ([], Some ErrUpstreamContentTypeMismatch))"

lemma stream_part_ok:
  assumes "committed_writer w" "rw_flusher w"
  shows "rw_out (fst (StreamWithContext valid w x)) = rw_out w @ fst (stream_part valid x)
    \<and> snd (StreamWithContext valid w x) = snd (stream_part valid x) \<and> committed_writer (fst (StreamWithContext valid w x))"
proof -
  have c: "committed_writer (fst (StreamWithContext valid w x))"
    using stream_left [of w] extends_committed [OF stream_extends [OF assms(1)]] assms(1)
    by (simp add: committed_writer_def)
  show ?thesis
  proof (cases "\<exists>r. x = Answered r \<and> stream_type r")
    case True
    then obtain r where r: "x = Answered r" "stream_type r" by blast
    have "rw_left w = None" using assms(1) by (simp add: committed_writer_def)
    from stream_answered [OF this assms(2) r(2) prod.collapse [symmetric], of valid] c show ?thesis
      by (simp add: r stream_part_def)
  next
    case False
    then show ?thesis using assms
      by (auto simp: StreamWithContext_def stream_type_def stream_part_def Let_def split: roundtrip.split)
  qed
qed

text \<open>
  How a disagreement ends. After the first answer the arbiter's stream is appended; if it ended
  without error another end marker follows, also when the arbiter sent its own. If it failed no end
  marker is added, and the failure is reported unless its chain holds a reset or broken pipe: then
  the panel returns no error, whether the connection was the client's or the arbiter's.
\<close>

theorem fusion_arbiter_endings:
  assumes "wants_stream (pq_body q)" "rw_left (ps_w s) = None" "rw_flusher (ps_w s)"
    and "fl_chunk L = (\<lambda>c. Inr (ch c))" "panel_members L q (ps_metrics s) = (m, r1, r2)"
    and "pr_Err (pick_winner r1 r2) = None" "first_reason q t r1 r2 = None"
    and "snd (look_cache L q s (pr_Content r1) (pr_Content r2)) = None"
    and "stream_part (fl_valid L) (arb (SynthesisPrompt (pq_latestPrompt q) r1 r2)) = (text, failure)"
    and "PanelStreaming L q arb t s = (s', out, e)"
  shows "rw_out (ps_w s') = rw_out (ps_w s) @ frame (ch (speculative_chunk (pick_winner r1 r2))) @ text
            @ (if failure = None then done_frame else [])
    \<and> e = (if IsClientAbort failure then None else map_option ArbiterStream failure)"
proof -
  define v where "v = (sse_headers (ps_w s))\<lparr>rw_out := rw_out (sse_headers (ps_w s)) @ frame (ch (speculative_chunk (pick_winner r1 r2)))\<rparr>"
  have v: "committed_writer v" "rw_flusher v" "rw_out v = rw_out (ps_w s) @ frame (ch (speculative_chunk (pick_winner r1 r2)))"
    using sse_headers_ok [OF assms(2)] assms(3) by (simp_all add: v_def)
  let ?u = "s\<lparr>ps_metrics := fst (ComputeSimilarity (pq_simCfg q) m (pr_Content r1) (pr_Content r2)), ps_w := v\<rparr>"
  let ?o = "no_outcome\<lparr>po_Source := pr_Source (pick_winner r1 r2), po_Similarity := panel_sim q r1 r2\<rparr>"
  have a: "append_synthesis L q arb r1 r2 ?u ?o = (s', out, e)"
    using streaming_start [OF assms(1,2,4,5,6), of arb t, unfolded Let_def, folded v_def, unfolded assms(10)] assms(7)
    by (simp add: first_reason_def split_beta swap_updates split: if_splits)
  obtain u where u: "look_cache L q ?u (pr_Content r1) (pr_Content r2) = (u, None)" "ps_w u = v"
    using assms(8) by (cases "look_cache L q ?u (pr_Content r1) (pr_Content r2)")
      (auto simp: look_cache_def caching_def split: if_splits prod.splits)
  obtain w where w: "StreamWithContext (fl_valid L) v (arb (SynthesisPrompt (pq_latestPrompt q) r1 r2)) = (w, failure)"
      "rw_out w = rw_out v @ text" "committed_writer w"
    using stream_part_ok [OF v(1,2), of "fl_valid L" "arb (SynthesisPrompt (pq_latestPrompt q) r1 r2)"] assms(9)
    by (metis fst_conv prod.collapse snd_conv)
  show ?thesis
    using a w v(3) by (cases failure)
      (auto simp: append_synthesis_def u Let_def writeSSEDone_ok IsClientAbort_def split: if_splits)
qed


text \<open>A synthesis that was stored answers the next lookup of the same contents within its TTL.\<close>

lemma stored_is_found:
  assumes "ar_inv c" "ps_cache s = Some c" "now - t0 \<le> ttl"
  shows "snd (ArbGet sha (fst (ArbSet sha (ps_cache s) t0 a b y ttl)) now a b) = Some y"
  using insert_key_facts(2) [OF assms(1), of "cacheKey sha a b"
      "\<lparr>ab_Synthesis = y, ab_CachedAt = t0, ab_TTLDuration = ttl\<rparr>"] assms(2,3)
  by (simp add: ArbSet_def ArbGet_def get_key_def split_beta)

lemma panel_synthesis:
  assumes "\<not> wants_stream (pq_body q)" "panel_members L q (ps_metrics s) = (m, r1, r2)" "caching s q"
    and "Panel L q arb isFusion s = (s', out, False, None)"
  shows "ps_cache s' = fst (ArbSet (fl_sha L) (fst (ArbGet (fl_sha L) (ps_cache s) (pq_now q) (pr_Content r1) (pr_Content r2)))
      (pq_now q) (pr_Content r1) (pr_Content r2) (po_ArbiterSynthesis out) (pq_arbiterCacheTTL q))"
proof -
  obtain c r where g: "ArbGet (fl_sha L) (ps_cache s) (pq_now q) (pr_Content r1) (pr_Content r2) = (c, r)" by fastforce
  have "caching (s\<lparr>ps_metrics := m\<rparr>) q" using assms(3) by (simp add: caching_def)
  then have l: "look_cache L q (s\<lparr>ps_metrics := m\<rparr>) (pr_Content r1) (pr_Content r2) = (s\<lparr>ps_metrics := m, ps_cache := c\<rparr>, r)"
    by (simp add: look_cache_def g)
  have c: "c \<noteq> None" using g assms(3) by (auto simp: ArbGet_def caching_def split: prod.splits)
  have r: "r = None" using assms(1,4) by (cases r) (auto simp: Panel_def assms(2) l Let_def split: prod.splits)
  have k: "caching (s\<lparr>ps_metrics := m, ps_cache := c, ps_asked := x\<rparr>) q" for x using assms(3) c by (simp add: caching_def)
  obtain buf e where b: "BufferedFetchWithContext (fl_is_object L) (fl_maxResponseBytes L) bufferResponseWriter
      (arb (SynthesisPrompt (pq_latestPrompt q) r1 r2)) = (buf, e)" by fastforce
  have e: "e = None" using assms(1,4) by (cases e) (auto simp: Panel_def assms(2) l r b Let_def)
  show ?thesis
    using assms(1,4) unfolding Panel_def assms(2) g
    by (auto simp: l r b e k Let_def progressive_header_def split: if_splits prod.splits)
qed

text \<open>
  The cached synthesis does not depend on the question. Once a buffered fusion stored the synthesis
  of one request, any request within the TTL whose two answers read the same, in particular any
  request for which both members fail as well, is answered with that synthesis, whatever its prompt;
  the arbiter is not asked.
\<close>

theorem synthesis_for_another_prompt:
  assumes "\<not> wants_stream (pq_body q)" "panel_members L q (ps_metrics s) = (m, r1, r2)" "caching s q"
    and "ar_inv (the (ps_cache s))" "Panel L q arb isFusion s = (s1, out, False, None)"
    and "\<not> wants_stream (pq_body q')" "panel_members L q' (ps_metrics s') = (m', r1', r2')" "0 < pq_arbiterCacheTTL q'"
    and "pr_Content r1' = pr_Content r1" "pr_Content r2' = pr_Content r2"
    and "ps_cache s' = ps_cache s1" "pq_now q' - pq_now q \<le> pq_arbiterCacheTTL q"
    and "rw_left (ps_w s') = None" "fl_completion L = (\<lambda>model x. Inr (json model x))"
    and "Panel L q' arb' isFusion' s' = (s2, out', hit, e)"
  shows "hit \<and> po_SkipReason out' = ''cache_hit'' \<and> e = None \<and> ps_asked s2 = ps_asked s'
    \<and> rw_out (ps_w s2) = rw_out (ps_w s') @ json (pq_arbiterModel q') (po_ArbiterSynthesis out)"
proof -
  obtain c where c: "ps_cache s = Some c" using assms(3) by (auto simp: caching_def)
  obtain d r where d: "ArbGet (fl_sha L) (ps_cache s) (pq_now q) (pr_Content r1) (pr_Content r2) = (Some d, r)" "ar_inv d"
  proof -
    have "ar_inv (fst (get_key c n k))" for n k
      using assms(4) c ar_inv_touch [of c k] by (simp add: get_key_def split: option.split)
    then show ?thesis using that c by (cases "get_key c (pq_now q) (cacheKey (fl_sha L) (pr_Content r1) (pr_Content r2))")
      (simp add: ArbGet_def, metis fst_conv)
  qed
  let ?put = "fst (ArbSet (fl_sha L) (Some d) (pq_now q) (pr_Content r1) (pr_Content r2) (po_ArbiterSynthesis out) (pq_arbiterCacheTTL q))"
  have s1: "ps_cache s' = ?put"
    using panel_synthesis [OF assms(1,2,3,5)] d(1) assms(11) by simp
  obtain c' where get: "ArbGet (fl_sha L) ?put (pq_now q') (pr_Content r1) (pr_Content r2) = (c', Some (po_ArbiterSynthesis out))"
    using stored_is_found [OF d(2), of "s\<lparr>ps_cache := Some d\<rparr>" "pq_now q'" "pq_now q" "pq_arbiterCacheTTL q" "fl_sha L"
        "pr_Content r1" "pr_Content r2" "po_ArbiterSynthesis out"] assms(12)
    by (metis (no_types, lifting) panel_state.select_convs(2) panel_state.surjective panel_state.update_convs(2) prod.collapse)
  have "?put \<noteq> None" by (simp add: ArbSet_def split_beta)
  then have l: "look_cache L q' (s'\<lparr>ps_metrics := m'\<rparr>) (pr_Content r1') (pr_Content r2')
      = (s'\<lparr>ps_metrics := m', ps_cache := c'\<rparr>, Some (po_ArbiterSynthesis out))"
    using assms(8,9,10) get by (simp add: look_cache_def caching_def s1)
  have w: "snd (writeCachedArbiterJSON L v x y) = None \<and> rw_out (fst (writeCachedArbiterJSON L v x y)) = rw_out v @ json y x"
    if "rw_left v = None" for v x y
    using that by (simp add: writeCachedArbiterJSON_def assms(14) Write_left WriteHeader_def set_header_def)
  show ?thesis
    using assms(6,13,15) w unfolding Panel_def assms(7)
    by (cases isFusion') (auto simp: l Let_def progressive_header_def set_header_def no_outcome_def split_beta)
qed

text \<open>
  Similarity is a number between 0 and 1, in both modes; the token ratio does not depend on the
  order of the answers, and is 1 exactly when both are empty or neither is and they have the same
  tokens. So a threshold of zero or less skips the arbiter for every pair of answers.
\<close>

theorem similarity_bounds:
  "SimilarityRatio a b = SimilarityRatio b a \<and> 0 \<le> SimilarityRatio a b \<and> SimilarityRatio a b \<le> 1
   \<and> (SimilarityRatio a b = 1 \<longleftrightarrow> (a = [] \<longleftrightarrow> b = []) \<and> tokenSet a = tokenSet b)
   \<and> 0 \<le> snd (ComputeSimilarity c m a b) \<and> snd (ComputeSimilarity c m a b) \<le> 1
   \<and> clamp_threshold (min t 0) \<le> snd (ComputeSimilarity c m a b)"
  using SimilarityRatio_sym [of a b] SimilarityRatio_range [of a b] SimilarityRatio_1_iff [of a b] ComputeSimilarity_range [of c m a b]
  by (simp add: clamp_threshold_def)


section \<open>Instances\<close>

definition demo_lib :: fusion_lib where
  "demo_lib = \<lparr>fl_decode = (\<lambda>b. Inr [\<lparr>am_Content = b, am_ToolCalls = []\<rparr>]), fl_texts = (\<lambda>b. Some [b]),
     fl_valid = (\<lambda>_. False), fl_is_object = (\<lambda>_. True),
     fl_chunk = (\<lambda>c. Inr (pc_source c @ (case pc_content c of None \<Rightarrow> [] | Some x \<Rightarrow> x))),
     fl_completion = (\<lambda>m x. Inr x), fl_sha = (\<lambda>x. x), fl_hex = (\<lambda>x. x), fl_maxResponseBytes = 100\<rparr>"

definition demo_reply :: "string \<Rightarrow> roundtrip" where
  "demo_reply b = Answered \<lparr>rp_Status = 200, rp_Headers = [''Content-Type'' \<mapsto> [''application/json'']], rp_Body = b, rp_Err = None\<rparr>"

definition demo_down :: roundtrip where "demo_down = DoFailed (''reset'', True)"

definition demo_req :: "bool \<Rightarrow> string \<Rightarrow> nanos \<Rightarrow> roundtrip \<Rightarrow> roundtrip \<Rightarrow> panel_req" where
  "demo_req streaming prompt now l f = \<lparr>pq_localModel = ''l'', pq_frontierModel = ''f'', pq_arbiterModel = ''a'',
     pq_body = [''stream'' \<mapsto> JBool streaming], pq_latestPrompt = prompt, pq_skipLocal = False, pq_arbiterCacheTTL = 10,
     pq_simCfg = \<lparr>sm_Mode = ''jaccard'', sm_Embedder = None\<rparr>, pq_local = Fetched l, pq_frontier = Fetched f,
     pq_localFirst = True, pq_now = now\<rparr>"

definition demo_state :: "arbiter option \<Rightarrow> panel_state" where
  "demo_state c = \<lparr>ps_w = bufferResponseWriter, ps_cache = c,
     ps_metrics = \<lparr>fm_panics = 0, fm_semanticTotal = 0, fm_semanticSum = 0, fm_semanticCount = 0, fm_jaccardTotal = 0, fm_clientAborts = 0\<rparr>,
     ps_asked = []\<rparr>"

definition demo_result :: "string \<Rightarrow> string option \<Rightarrow> string \<Rightarrow> panel_result" where
  "demo_result src err content = \<lparr>pr_Source = src, pr_Content = content, pr_ToolCalls = [], pr_Err = err\<rparr>"

lemma demo_fetch_ok:
  "length b < 100 \<Longrightarrow> member_result demo_lib src model (Fetched (demo_reply b)) = demo_result src None b"
  "member_result demo_lib src model (Fetched demo_down) = demo_result src (Some ''fusion: do: reset'') []"
  by (simp_all add: member_result_def FetchPanel_def demo_lib_def demo_reply_def demo_down_def demo_result_def header_get_def
      TrimSpace_def TrimLeft_def TrimRight_def is_space_def Let_def)

lemma demo_members:
  "panel_members demo_lib (demo_req st p now l f) m =
     (m, member_result demo_lib ''local'' ''l'' (Fetched l), member_result demo_lib ''frontier'' ''f'' (Fetched f))"
  by (simp add: panel_members_def demo_req_def member_metrics_def Let_def)

lemma demo_wants [simp]: "wants_stream (pq_body (demo_req st p now l f)) = st"
  by (simp add: wants_stream_def demo_req_def)

lemma demo_state_simps [simp]:
  "rw_left (ps_w (demo_state c)) = None" "rw_committed (ps_w (demo_state c)) = None" "rw_flusher (ps_w (demo_state c))"
  "rw_out (ps_w (demo_state c)) = []" "ps_cache (demo_state c) = c"
  by (simp_all add: demo_state_def bufferResponseWriter_def)

lemma demo_chunk: "fl_chunk demo_lib = (\<lambda>c. Inr (pc_source c @ (case pc_content c of None \<Rightarrow> [] | Some x \<Rightarrow> x)))"
  by (simp add: demo_lib_def)

theorem panel_streaming_decision_witness:
  "rw_out (ps_w (fst (PanelStreaming demo_lib (demo_req True ''q'' 0 demo_down (demo_reply ''hi'')) (\<lambda>_. demo_down) 1 (demo_state None))))
     = frame ''frontierhi'' @ done_frame"
proof -
  let ?q = "demo_req True ''q'' 0 demo_down (demo_reply ''hi'')"
  obtain s' out e where run: "PanelStreaming demo_lib ?q (\<lambda>_. demo_down) 1 (demo_state None) = (s', out, e)"
    by (cases "PanelStreaming demo_lib ?q (\<lambda>_. demo_down) 1 (demo_state None)") auto
  show ?thesis
    using panel_streaming_decision [OF _ _ _ demo_chunk demo_members run]
    by (simp add: run demo_fetch_ok first_reason_def pick_winner_def demo_result_def speculative_chunk_def)
qed

lemma demo_tokens: "tokenSet ''yes'' = {''yes''}" "tokenSet ''no'' = {''no''}"
  by (simp_all add: tokenSet_def Fields_def is_space_def normalizeToken_def ToLower_def lower_def TrimSpace_def TrimLeft_def
      TrimRight_def TrimSet_def cutset_def)

theorem fusion_arbiter_endings_witness:
  "rw_out (ps_w (fst (PanelStreaming demo_lib (demo_req True ''q'' 0 (demo_reply ''yes'') (demo_reply ''no'')) (\<lambda>_. demo_down) 1 (demo_state None))))
     = frame ''localyes''
   \<and> snd (snd (PanelStreaming demo_lib (demo_req True ''q'' 0 (demo_reply ''yes'') (demo_reply ''no'')) (\<lambda>_. demo_down) 1 (demo_state None))) = None"
proof -
  let ?q = "demo_req True ''q'' 0 (demo_reply ''yes'') (demo_reply ''no'')"
  obtain s' out e where run: "PanelStreaming demo_lib ?q (\<lambda>_. demo_down) 1 (demo_state None) = (s', out, e)"
    by (cases "PanelStreaming demo_lib ?q (\<lambda>_. demo_down) 1 (demo_state None)") auto
  have sim: "panel_sim ?q (demo_result ''local'' None ''yes'') (demo_result ''frontier'' None ''no'') = 0"
    by (simp add: panel_sim_def demo_req_def demo_result_def SimilarityModeSemantic_def SimilarityRatio_jaccard demo_tokens)
  have win: "pick_winner (demo_result ''local'' None ''yes'') (demo_result ''frontier'' None ''no'') = demo_result ''local'' None ''yes''"
    by (simp add: pick_winner_def demo_result_def)
  have no: "first_reason ?q 1 (demo_result ''local'' None ''yes'') (demo_result ''frontier'' None ''no'') = None"
    using sim by (simp add: first_reason_def win clamp_threshold_def) (simp add: demo_result_def)
  have look: "snd (look_cache demo_lib ?q (demo_state None) a b) = None" for a b
    by (simp add: look_cache_def caching_def)
  have part: "stream_part v demo_down = ([], Some (UpDo (''reset'', True)))" for v
    by (simp add: stream_part_def demo_down_def)
  show ?thesis
    using fusion_arbiter_endings [where L = demo_lib and q = ?q and s = "demo_state None" and t = 1, OF _ _ _ demo_chunk demo_members _ _ look part run]
      no win
    by (simp add: run demo_fetch_ok IsClientAbort_def) (simp add: speculative_chunk_def demo_result_def)
qed

lemma first_synthesis:
  "Panel demo_lib (demo_req False ''A'' 0 demo_down demo_down) (\<lambda>_. demo_reply ''ans'') False (demo_state (Some (NewArbiterCache 10 2)))
     = (fst (Panel demo_lib (demo_req False ''A'' 0 demo_down demo_down) (\<lambda>_. demo_reply ''ans'') False (demo_state (Some (NewArbiterCache 10 2)))),
        no_outcome\<lparr>po_ArbiterCacheKeyHex := ''|SAME|'', po_ArbiterSynthesis := ''ans''\<rparr>, False, None)"
proof -
  let ?q = "demo_req False ''A'' 0 demo_down demo_down"
  let ?s = "demo_state (Some (NewArbiterCache 10 2))"
  have c: "look_cache demo_lib ?q ?s a b = (?s, None)" for a b
    by (simp add: look_cache_def caching_def ArbGet_def get_key_def NewArbiterCache_def demo_state_def demo_req_def)
  have b: "BufferedFetchWithContext (fl_is_object demo_lib) (fl_maxResponseBytes demo_lib) bufferResponseWriter (demo_reply ''ans'')
      = (fst (BufferedFetchWithContext (fl_is_object demo_lib) (fl_maxResponseBytes demo_lib) bufferResponseWriter (demo_reply ''ans'')), None)
    \<and> rw_out (fst (BufferedFetchWithContext (fl_is_object demo_lib) (fl_maxResponseBytes demo_lib) bufferResponseWriter (demo_reply ''ans''))) = ''ans''"
    by (simp add: BufferedFetchWithContext_def demo_lib_def demo_reply_def Let_def header_get_def TrimSpace_def TrimLeft_def TrimRight_def
        is_space_def Write_def WriteHeader_def set_header_def bufferResponseWriter_def)
  then obtain buf where b: "BufferedFetchWithContext (fl_is_object demo_lib) (fl_maxResponseBytes demo_lib) bufferResponseWriter (demo_reply ''ans'')
      = (buf, None)" "rw_out buf = ''ans''" by auto
  have k: "caching (?s\<lparr>ps_asked := x\<rparr>) ?q" for x
    by (simp add: caching_def demo_req_def demo_state_def)
  show ?thesis
    unfolding Panel_def demo_members
    by (simp add: c k b synthesis_of_def demo_fetch_ok Let_def progressive_header_def split_beta)
      (simp add: demo_lib_def writeCachedArbiterJSON_def Write_def WriteHeader_def set_header_def cacheKey_def demo_result_def demo_state_def
        bufferResponseWriter_def Let_def)
qed

theorem synthesis_for_another_prompt_witness:
  "rw_out (ps_w (fst (Panel demo_lib (demo_req False ''B'' 5 demo_down demo_down) (\<lambda>_. demo_reply ''other'') False
      (demo_state (ps_cache (fst (Panel demo_lib (demo_req False ''A'' 0 demo_down demo_down) (\<lambda>_. demo_reply ''ans'') False
         (demo_state (Some (NewArbiterCache 10 2)))))))))) = ''ans''"
proof -
  let ?q = "demo_req False ''A'' 0 demo_down demo_down" and ?p = "demo_req False ''B'' 5 demo_down demo_down"
  let ?s = "demo_state (Some (NewArbiterCache 10 2))"
  let ?t = "demo_state (ps_cache (fst (Panel demo_lib ?q (\<lambda>_. demo_reply ''ans'') False ?s)))"
  obtain s2 out hit e where run: "Panel demo_lib ?p (\<lambda>_. demo_reply ''other'') False ?t = (s2, out, hit, e)"
    by (cases "Panel demo_lib ?p (\<lambda>_. demo_reply ''other'') False ?t") auto
  have j: "fl_completion demo_lib = (\<lambda>model x. Inr ((\<lambda>_ x. x) model x))" by (simp add: demo_lib_def)
  have q: "caching ?s ?q" "0 < pq_arbiterCacheTTL ?p" "pq_now ?p - pq_now ?q \<le> pq_arbiterCacheTTL ?q"
    by (simp_all add: caching_def demo_req_def)
  show ?thesis
    using synthesis_for_another_prompt [OF _ demo_members q(1) _ first_synthesis _ demo_members q(2) refl refl _ q(3) _ j run]
      ar_inv_New
    by (simp add: run)
qed

end
