(* ===== verification/RagText.thy ===== *)
theory RagText
  imports GoStrings Complex_Main
begin

text \<open>
  The text side of \<open>internal/rag\<close>: the file filter of \<open>filter.go\<close>, and of \<open>rag.go\<close> the tokenizer, the
  splitting of a file into overlapping chunks, the block that is injected into a prompt, and the
  cosine of two vectors. The token counter, \<open>filepath.Ext\<close> and \<open>filepath.Match\<close> are parameters,
  floating point numbers are reals.
\<close>

section \<open>Examples\<close>

record example =
  ex_Filename :: string
  ex_Dir :: string
  ex_Content :: string
  ex_Embedding :: "real list"
  ex_ChunkIndex :: nat

definition CosineSimilarity :: "real list \<Rightarrow> real list \<Rightarrow> real" where
  "CosineSimilarity a b =
     (let n = min (length a) (length b); a = take n a; b = take n b;
          dot = sum_list (map2 (*) a b);
          na = sum_list (map (\<lambda>x. x * x) a);
          nb = sum_list (map (\<lambda>x. x * x) b)
      in if na = 0 \<or> nb = 0 then 0
         else let result = dot / (sqrt na * sqrt nb)
              in if 1 < result then 1 else if result < -1 then -1 else result)"

section \<open>Tokens\<close>

definition word_char :: "char \<Rightarrow> bool" where
  "word_char c \<longleftrightarrow>
     (let n = of_char c :: nat in
      97 \<le> n \<and> n \<le> 122 \<or> 65 \<le> n \<and> n \<le> 90 \<or> 48 \<le> n \<and> n \<le> 57 \<or> c = CHR ''_'')
      \<or> c = CHR ''$'' \<or> c = CHR ''@'' \<or> c = CHR ''#''"

fun token_loop :: "string \<Rightarrow> string list \<Rightarrow> string \<Rightarrow> string list" where
  "token_loop current tokens [] = (if current = [] then tokens else tokens @ [current])"
| "token_loop current tokens (c # cs) =
     (if word_char c then token_loop (current @ [c]) tokens cs
      else if current = [] then token_loop [] tokens cs
      else token_loop [] (tokens @ [current]) cs)"

definition rag_tokenize :: "string \<Rightarrow> string list" where
  "rag_tokenize text = map ToLower (token_loop [] [] text)"

section \<open>Chunks\<close>

abbreviation newline :: char where "newline \<equiv> CHR 0x0A"

fun block_loop :: "string list \<Rightarrow> string list \<Rightarrow> string list \<Rightarrow> string list" where
  "block_loop blocks current [] = (if current = [] then blocks else blocks @ [Join [newline] current])"
| "block_loop blocks current (line # ls) =
     (if TrimSpace line = [] then
        (if current \<noteq> [] then block_loop (blocks @ [Join [newline] current]) [] ls
         else block_loop blocks current ls)
      else block_loop blocks (current @ [line]) ls)"

definition splitByBlankLines :: "string \<Rightarrow> string list" where
  "splitByBlankLines content = block_loop [] [] (SplitOn newline content)"

record chunk =
  ch_Content :: string
  ch_Index :: nat

text \<open>The overlap is collected from the last part backwards: the list is the reversed parts.\<close>

fun overlap_loop :: "(string \<Rightarrow> nat) \<Rightarrow> nat \<Rightarrow> string list \<Rightarrow> string list \<Rightarrow> nat \<Rightarrow> string list \<times> nat" where
  "overlap_loop count limit [] overlap overlapSum = (overlap, overlapSum)"
| "overlap_loop count limit (p # ps) overlap overlapSum =
     (if limit < overlapSum + count p \<and> overlap \<noteq> [] then (overlap, overlapSum)
      else overlap_loop count limit ps (p # overlap) (overlapSum + count p))"

fun chunk_loop ::
  "(string \<Rightarrow> nat) \<Rightarrow> nat \<Rightarrow> string list \<Rightarrow> string list \<Rightarrow> nat \<Rightarrow> nat \<Rightarrow> chunk list \<Rightarrow> chunk list" where
  "chunk_loop count maxTokens [] parts tokens idx chunks =
     (if parts \<noteq> [] then chunks @ [\<lparr>ch_Content = concat parts, ch_Index = idx\<rparr>] else chunks)"
| "chunk_loop count maxTokens (bText # bs) parts tokens idx chunks =
     (let bTokens = count bText in
      if 0 < tokens \<and> maxTokens < tokens + bTokens then
        (case overlap_loop count (maxTokens div 4) (rev parts) [] 0 of (overlap, overlapSum) \<Rightarrow>
           chunk_loop count maxTokens bs (overlap @ [bText]) (overlapSum + bTokens) (idx + 1)
             (chunks @ [\<lparr>ch_Content = concat parts, ch_Index = idx\<rparr>]))
      else chunk_loop count maxTokens bs (parts @ [bText]) (tokens + bTokens) idx chunks)"

text \<open>The texts of the blocks with the separator in front of every block but the first.\<close>

definition block_texts :: "string list \<Rightarrow> string list" where
  "block_texts blocks = (case blocks of [] \<Rightarrow> [] | b # bs \<Rightarrow> b # map (\<lambda>b. [newline, newline] @ b) bs)"

definition chunkFile :: "(string \<Rightarrow> nat) \<Rightarrow> string \<Rightarrow> int \<Rightarrow> chunk list" where
  "chunkFile count content maxTokens =
     (let whole = [\<lparr>ch_Content = content, ch_Index = 0\<rparr>] in
      if maxTokens \<le> 0 then whole
      else if int (count content) \<le> maxTokens then whole
      else
        let chunks = chunk_loop count (nat maxTokens) (block_texts (splitByBlankLines content)) [] 0 0 []
        in if length chunks \<le> 1 then whole else chunks)"

section \<open>The injected block\<close>

definition FormatInjection :: "example \<Rightarrow> string" where
  "FormatInjection ex =
     (let label = (if 0 < ex_ChunkIndex ex then ex_Filename ex @ ''#chunk'' @ decimal (ex_ChunkIndex ex) else ex_Filename ex)
      in [newline, newline] @
         ''[PROXY RETRIEVAL CONTEXT]: Here is a highly relevant, validated few-shot example from the local codebase ('' @
         label @ ''):'' @ [newline] @ ''```'' @ [newline] @ ex_Content ex @ [newline] @ ''```'' @ [newline] @
         ''Analyze its architecture and apply its patterns if relevant to this task.'')"

definition FormatInjectionMulti :: "example list \<Rightarrow> string" where
  "FormatInjectionMulti examples = concat (map FormatInjection examples)"

section \<open>The file filter\<close>

record file_filter =
  ff_extensions :: "string set option"
  ff_excludePatterns :: "string list"

definition norm_extension :: "string \<Rightarrow> string option" where
  "norm_extension ext =
     (let ext = TrimSpace ext in
      if ext = [] then None
      else Some (ToLower (if HasPrefix ext ''.'' then ext else ''.'' @ ext)))"

definition NewFileFilter :: "string list \<Rightarrow> string list \<Rightarrow> file_filter" where
  "NewFileFilter extensions excludePatterns =
     \<lparr>ff_extensions = (if 0 < length extensions then Some (set (List.map_filter norm_extension extensions)) else None),
      ff_excludePatterns = filter (\<lambda>p. p \<noteq> []) (map TrimSpace excludePatterns)\<rparr>"

text \<open>\<open>ext\<close> and \<open>glob\<close> are \<open>filepath.Ext\<close> and \<open>filepath.Match\<close>, a bad pattern matching nothing.\<close>

definition ShouldIndex ::
  "(string \<Rightarrow> string) \<Rightarrow> (string \<Rightarrow> string \<Rightarrow> bool) \<Rightarrow> file_filter option \<Rightarrow> string \<Rightarrow> bool" where
  "ShouldIndex ext glob f name =
     (case f of
        None \<Rightarrow> True
      | Some f \<Rightarrow>
          (let e = ToLower (ext name); exts = (case ff_extensions f of None \<Rightarrow> {} | Some s \<Rightarrow> s) in
           if exts \<noteq> {} \<and> (e = [] \<or> e \<notin> exts) then False
           else \<not> list_ex (\<lambda>pattern. glob pattern name) (ff_excludePatterns f)))"

definition ParseCommaSeparated :: "string \<Rightarrow> string list" where
  "ParseCommaSeparated s =
     (if TrimSpace s = [] then [] else filter (\<lambda>p. p \<noteq> []) (map TrimSpace (SplitOn (CHR '','') s)))"

section \<open>Lemmas\<close>

lemma cosine_range: "-1 \<le> CosineSimilarity a b \<and> CosineSimilarity a b \<le> 1"
  by (simp add: CosineSimilarity_def Let_def)

text \<open>The overlap is a suffix of the parts, not empty unless they are; it fits the limit or is one part.\<close>

lemma overlap_loop_ok:
  assumes "overlap_loop count limit ps ov n = (ov', s)" "n = sum_list (map count ov)"
    and "sum_list (map count ov) \<le> limit \<or> length ov \<le> 1"
  shows "\<exists>taken r. ps = taken @ r \<and> ov' = rev taken @ ov \<and> s = sum_list (map count ov')
    \<and> (ps @ ov \<noteq> [] \<longrightarrow> ov' \<noteq> []) \<and> (s \<le> limit \<or> length ov' \<le> 1)"
  using assms
proof (induction ps arbitrary: ov n)
  case (Cons p ps)
  show ?case
  proof (cases "limit < sum_list (map count ov) + count p \<and> ov \<noteq> []")
    case True
    then have "ov' = ov \<and> s = n" using Cons.prems(1,2) by auto
    then show ?thesis using Cons.prems(2,3) True by (intro exI [of _ "[]"] exI [of _ "p # ps"]) auto
  next
    case False
    have "overlap_loop count limit ps (p # ov) (n + count p) = (ov', s)"
      using Cons.prems(1,2) False by auto
    from Cons.IH [OF this] False Cons.prems(2) obtain t r where
        "ps = t @ r" "ov' = rev t @ p # ov" "s = sum_list (map count ov')" "s \<le> limit \<or> length ov' \<le> 1"
      by (auto simp: add.commute)
    then show ?thesis by (intro exI [of _ "p # t"] exI [of _ r]) simp
  qed
qed auto

text \<open>
  A file's parts cut into runs \<open>news\<close>, a chunk being its run behind an overlap: a suffix of the chunk
  before, never empty after the first, within a quarter of the limit or a single part. A chunk is over
  the limit only if it adds one part, or what precedes its last part has no tokens.
\<close>

definition linked :: "(string \<Rightarrow> nat) \<Rightarrow> nat \<Rightarrow> string list \<Rightarrow> string list \<Rightarrow> string list \<Rightarrow> bool" where
  "linked count m prev c n \<longleftrightarrow>
     (\<exists>ov. n \<noteq> [] \<and> c = ov @ n \<and> (\<exists>r. prev = r @ ov) \<and> (prev \<noteq> [] \<longrightarrow> ov \<noteq> [])
        \<and> (sum_list (map count ov) \<le> m div 4 \<or> length ov \<le> 1)
        \<and> (sum_list (map count c) \<le> m \<or> sum_list (map count (butlast c)) = 0 \<or> n = [last n]))"

fun chained :: "(string \<Rightarrow> nat) \<Rightarrow> nat \<Rightarrow> string list \<Rightarrow> string list list \<Rightarrow> string list list \<Rightarrow> bool" where
  "chained count m prev [] [] = True"
| "chained count m prev (c # cs) (n # ns) = (linked count m prev c n \<and> chained count m c cs ns)"
| "chained count m prev _ _ = False"

definition numbered :: "nat \<Rightarrow> string list list \<Rightarrow> chunk list" where
  "numbered i css = map (\<lambda>(i, c). \<lparr>ch_Content = concat c, ch_Index = i\<rparr>) (enumerate i css)"

lemma numbered_simps [simp]:
  "numbered i [] = []" "numbered i (c # cs) = \<lparr>ch_Content = concat c, ch_Index = i\<rparr> # numbered (Suc i) cs"
  by (simp_all add: numbered_def)

lemma chunk_loop_ok:
  assumes "n \<noteq> []" "\<exists>r. prev = r @ ov" "prev \<noteq> [] \<longrightarrow> ov \<noteq> []" "sum_list (map count ov) \<le> m div 4 \<or> length ov \<le> 1"
    and "sum_list (map count (ov @ n)) \<le> m \<or> sum_list (map count (butlast (ov @ n))) = 0 \<or> n = [last n]"
    and "tokens = sum_list (map count (ov @ n))"
  shows "\<exists>css news. chunk_loop count m bs (ov @ n) tokens idx chunks = chunks @ numbered idx css
    \<and> chained count m prev css news \<and> concat news = n @ bs"
  using assms
proof (induction bs arbitrary: prev ov n tokens idx chunks)
  case Nil
  have "linked count m prev (ov @ n) n" unfolding linked_def using Nil by blast
  then show ?case using Nil(1)
    by (intro exI [of _ "[ov @ n]"] exI [of _ "[n]"]) simp
next
  case (Cons b bs)
  let ?c = "chunks @ [\<lparr>ch_Content = concat (ov @ n), ch_Index = idx\<rparr>]"
  show ?case
  proof (cases "0 < tokens \<and> m < tokens + count b")
    case True
    obtain ov' s where o: "overlap_loop count (m div 4) (rev (ov @ n)) [] 0 = (ov', s)" by fastforce
    have "\<exists>t r. rev (ov @ n) = t @ r \<and> ov' = rev t @ [] \<and> s = sum_list (map count ov')
        \<and> (rev (ov @ n) @ [] \<noteq> [] \<longrightarrow> ov' \<noteq> []) \<and> (s \<le> m div 4 \<or> length ov' \<le> 1)"
      by (rule overlap_loop_ok [OF o]) simp_all
    then obtain t r where t0: "rev (ov @ n) = t @ r" "ov' = rev t @ []" "s = sum_list (map count ov')"
        "rev (ov @ n) @ [] \<noteq> [] \<longrightarrow> ov' \<noteq> []" "s \<le> m div 4 \<or> length ov' \<le> 1" by blast
    have "rev (ov @ n) @ [] \<noteq> []" using Cons.prems(1) by simp
    with t0(4) have "ov' \<noteq> []" by blast
    with t0 have t: "rev (ov @ n) = t @ r" "ov' = rev t" "s = sum_list (map count ov')" "ov' \<noteq> []" "s \<le> m div 4 \<or> length ov' \<le> 1"
      by simp_all
    have "ov @ n = rev r @ ov'" using t(1,2) by (metis rev_append rev_rev_ident)
    then have "\<exists>r. ov @ n = r @ ov'" by blast
    then have "\<exists>css news. chunk_loop count m bs (ov' @ [b]) (s + count b) (idx + 1) ?c = ?c @ numbered (idx + 1) css
      \<and> chained count m (ov @ n) css news \<and> concat news = [b] @ bs"
      using t(3-5) by (intro Cons.IH) auto
    then obtain css news where r: "chunk_loop count m bs (ov' @ [b]) (s + count b) (idx + 1) ?c = ?c @ numbered (idx + 1) css"
      "chained count m (ov @ n) css news" "concat news = [b] @ bs" by blast
    have "linked count m prev (ov @ n) n" unfolding linked_def using Cons.prems by blast
    with r o True show ?thesis
      by (intro exI [of _ "(ov @ n) # css"] exI [of _ "n # news"]) (simp add: Let_def)
  next
    case False
    have "sum_list (map count (ov @ n @ [b])) \<le> m \<or> sum_list (map count (butlast (ov @ n @ [b]))) = 0"
      using False Cons.prems(6) by (auto simp: butlast_append)
    then have "\<exists>css news. chunk_loop count m bs (ov @ n @ [b]) (tokens + count b) idx chunks = chunks @ numbered idx css
      \<and> chained count m prev css news \<and> concat news = (n @ [b]) @ bs"
      using Cons.prems by (intro Cons.IH) auto
    then show ?thesis using False by (auto simp: Let_def)
  qed
qed

section \<open>Properties\<close>


end
