(* ===== verification/MinHeap.thy ===== *)
theory MinHeap
  imports Complex_Main "HOL-Library.Multiset"
begin

text \<open>
  The binary heap of \<open>internal/rag/index.go\<close> (\<open>minHeap\<close>): a slice of distance and id, ordered by
  distance. It refines a multiset from which an item of least distance is taken.
\<close>

section \<open>Operations\<close>

type_synonym heap_item = "real \<times> nat"

definition heap_less :: "heap_item list \<Rightarrow> nat \<Rightarrow> nat \<Rightarrow> bool" where
  "heap_less h i j \<longleftrightarrow> fst (h ! i) < fst (h ! j)"

definition heap_swap :: "heap_item list \<Rightarrow> nat \<Rightarrow> nat \<Rightarrow> heap_item list" where
  "heap_swap h i j = h[i := h ! j, j := h ! i]"

definition up :: "nat \<Rightarrow> nat" where "up j = (j - 1) div 2"

lemma up_less: "0 < j \<Longrightarrow> up j < j"
  by (simp add: up_def)

function siftUp :: "heap_item list \<Rightarrow> nat \<Rightarrow> heap_item list" where
  "siftUp h i =
     (if 0 < i then
        let parent = up i in
        if heap_less h i parent then siftUp (heap_swap h i parent) parent else h
      else h)"
  by pat_completeness auto
termination by (relation "measure snd") (auto simp: up_less)

definition smallest_of :: "heap_item list \<Rightarrow> nat \<Rightarrow> nat" where
  "smallest_of h i =
     (let n = length h; left = 2 * i + 1; right = 2 * i + 2;
          smallest = (if left < n \<and> heap_less h left i then left else i)
      in if right < n \<and> heap_less h right smallest then right else smallest)"

lemma smallest_of_bounds: "smallest_of h i \<noteq> i \<Longrightarrow> i < smallest_of h i \<and> smallest_of h i < length h"
  by (auto simp: smallest_of_def Let_def split: if_splits)

lemma length_heap_swap [simp]: "length (heap_swap h i j) = length h"
  by (simp add: heap_swap_def)

function siftDown :: "heap_item list \<Rightarrow> nat \<Rightarrow> heap_item list" where
  "siftDown h i =
     (let smallest = smallest_of h i in
      if smallest \<noteq> i then siftDown (heap_swap h i smallest) smallest else h)"
  by pat_completeness auto
termination
  by (relation "measure (\<lambda>(h, i). length h - i)") (auto dest: smallest_of_bounds intro!: diff_less_mono2)

declare siftUp.simps [simp del] siftDown.simps [simp del]

definition push :: "heap_item list \<Rightarrow> nat \<Rightarrow> real \<Rightarrow> heap_item list" where
  "push h v d = siftUp (h @ [(d, v)]) (length h)"

definition pop :: "heap_item list \<Rightarrow> heap_item list \<times> (real \<times> int)" where
  "pop h =
     (if length h = 0 then (h, (0, -1))
      else
        let item = h ! 0;
            h = butlast (h[0 := h ! (length h - 1)])
        in (siftDown h 0, (fst item, int (snd item))))"

section \<open>Lemmas\<close>

definition is_heap :: "heap_item list \<Rightarrow> bool" where
  "is_heap h \<longleftrightarrow> (\<forall>j. 0 < j \<and> j < length h \<longrightarrow> fst (h ! up j) \<le> fst (h ! j))"

lemma mset_heap_swap [simp]: "i < length h \<Longrightarrow> j < length h \<Longrightarrow> mset (heap_swap h i j) = mset h"
  by (simp add: heap_swap_def mset_swap)

lemma nth_heap_swap:
  "i < length h \<Longrightarrow> j < length h \<Longrightarrow> k < length h \<Longrightarrow>
   heap_swap h i j ! k = (if k = i then h ! j else if k = j then h ! i else h ! k)"
  by (auto simp: heap_swap_def nth_list_update)

lemma siftUp_ok:
  assumes "i < length h" "\<forall>j. 0 < j \<and> j < length h \<and> j \<noteq> i \<longrightarrow> fst (h ! up j) \<le> fst (h ! j)"
    and "\<forall>j. 0 < i \<and> 0 < j \<and> j < length h \<and> up j = i \<longrightarrow> fst (h ! up i) \<le> fst (h ! j)"
  shows "is_heap (siftUp h i) \<and> mset (siftUp h i) = mset h"
  using assms
proof (induction h i rule: siftUp.induct)
  case (1 h i)
  show ?case
  proof (cases "0 < i \<and> heap_less h i (up i)")
    case False
    then show ?thesis using 1(3) by (subst siftUp.simps) (auto simp: is_heap_def heap_less_def siftUp.simps [of h i] Let_def)
  next
    case True
    let ?h = "heap_swap h i (up i)"
    have p: "up i < length h" "up i < i" using 1(2) True up_less [of i] by auto
    note n = nth_heap_swap [OF 1(2) p(1)]
    have lt: "fst (h ! i) < fst (h ! up i)" using True by (simp add: heap_less_def)
    have a: "fst (?h ! up j) \<le> fst (?h ! j)" if "0 < j" "j < length h" "j \<noteq> up i" for j
    proof -
      have u: "up j < length h" "up j < j" using that up_less [of j] by simp_all
      have o: "j \<noteq> i \<Longrightarrow> fst (h ! up j) \<le> fst (h ! j)" using 1(3) that by blast
      show ?thesis
        using that n [OF u(1)] u(2) n [OF that(2)] lt o 1(4) True p(2) by (auto split: if_splits intro: order.trans less_imp_le)
    qed
    have b: "fst (?h ! up (up i)) \<le> fst (?h ! j)" if "0 < up i" "0 < j" "j < length h" "up j = up i" for j
    proof -
      have u: "up (up i) < length h" "up (up i) \<noteq> i" "up (up i) \<noteq> up i"
        using up_less [OF that(1)] p by simp_all
      have c: "fst (h ! up (up i)) \<le> fst (h ! up i)" using 1(3) that(1) p by auto
      show ?thesis
      proof (cases "j = i")
        case True
        then show ?thesis using n [OF u(1)] n [OF that(3)] u c p by (auto split: if_splits)
      next
        case False
        then have "fst (h ! up i) \<le> fst (h ! j)" using 1(3) that by metis
        then show ?thesis using n [OF u(1)] n [OF that(3)] u c p False that(4) by (auto split: if_splits)
      qed
    qed
    have "is_heap (siftUp ?h (up i)) \<and> mset (siftUp ?h (up i)) = mset ?h"
      using 1(1) True p a b by auto
    moreover have "siftUp h i = siftUp ?h (up i)" using True by (simp add: siftUp.simps [of h i] Let_def)
    ultimately show ?thesis using 1(2) p by simp
  qed
qed

lemma push_ok:
  assumes "is_heap h"
  shows "is_heap (push h v d) \<and> mset (push h v d) = add_mset (d, v) (mset h)"
proof -
  have "fst ((h @ [(d, v)]) ! up j) \<le> fst ((h @ [(d, v)]) ! j)" if "0 < j" "j < length (h @ [(d, v)])" "j \<noteq> length h" for j
    using assms that up_less [OF that(1)] by (simp add: is_heap_def nth_append)
  moreover have "up j \<noteq> length h" if "0 < j" "j < length (h @ [(d, v)])" for j
    using up_less [OF that(1)] that(2) by simp
  ultimately have "is_heap (siftUp (h @ [(d, v)]) (length h)) \<and> mset (siftUp (h @ [(d, v)]) (length h)) = mset (h @ [(d, v)])"
    by (intro siftUp_ok) auto
  then show ?thesis by (simp add: push_def)
qed

lemma up_children: "0 < j \<Longrightarrow> up j = i \<longleftrightarrow> j = 2 * i + 1 \<or> j = 2 * i + 2"
  by (auto simp: up_def)

lemma smallest_of_le:
  "i < length h \<Longrightarrow> fst (h ! smallest_of h i) \<le> fst (h ! i)"
  "0 < j \<Longrightarrow> j < length h \<Longrightarrow> up j = i \<Longrightarrow> fst (h ! smallest_of h i) \<le> fst (h ! j)"
  by (auto simp: smallest_of_def Let_def heap_less_def up_children)

lemma smallest_of_child: "smallest_of h i \<noteq> i \<Longrightarrow> up (smallest_of h i) = i"
  by (auto simp: smallest_of_def Let_def up_def split: if_splits)

lemma siftDown_ok:
  assumes "i < length h" "\<forall>j. 0 < j \<and> j < length h \<and> up j \<noteq> i \<longrightarrow> fst (h ! up j) \<le> fst (h ! j)"
    and "\<forall>j. 0 < i \<and> 0 < j \<and> j < length h \<and> up j = i \<longrightarrow> fst (h ! up i) \<le> fst (h ! j)"
  shows "is_heap (siftDown h i) \<and> mset (siftDown h i) = mset h"
  using assms
proof (induction h i rule: siftDown.induct)
  case (1 h i)
  let ?s = "smallest_of h i"
  show ?case
  proof (cases "?s = i")
    case True
    then have "is_heap h"
      using 1(3) smallest_of_le(2) [of _ h i] by (auto simp: is_heap_def)
    then show ?thesis using True by (simp add: siftDown.simps [of h i])
  next
    case False
    let ?h = "heap_swap h i ?s"
    have s: "i < ?s" "?s < length h" "up ?s = i" using smallest_of_bounds [OF False] smallest_of_child [OF False] by auto
    note n = nth_heap_swap [OF 1(2) s(2)]
    have le: "fst (h ! ?s) \<le> fst (h ! i)" using smallest_of_le(1) [OF 1(2)] .
    have a: "fst (?h ! up j) \<le> fst (?h ! j)" if "0 < j" "j < length h" "up j \<noteq> ?s" for j
    proof -
      have u: "up j < length h" "up j < j" using that up_less [of j] by simp_all
      show ?thesis
      proof (cases "up j = i")
        case True
        then show ?thesis using n [OF u(1)] n [OF that(2)] u smallest_of_le(2) [OF that(1,2) True] le by auto
      next
        case up: False
        then have "fst (h ! up j) \<le> fst (h ! j)" using 1(3) that by blast
        moreover have "j = i \<longrightarrow> 0 < i \<and> fst (h ! up i) \<le> fst (h ! ?s)"
          using 1(4) that(1) s by auto
        ultimately show ?thesis using n [OF u(1)] n [OF that(2)] up that(3) u s by (auto split: if_splits)
      qed
    qed
    have b: "fst (?h ! up ?s) \<le> fst (?h ! j)" if "0 < j" "j < length h" "up j = ?s" for j
    proof -
      have "fst (h ! ?s) \<le> fst (h ! j)" using 1(3) that s(1) by (metis less_irrefl)
      then show ?thesis using n [OF that(2)] n [of i] 1(2) s that up_less [OF that(1)] by auto
    qed
    have "is_heap (siftDown ?h ?s) \<and> mset (siftDown ?h ?s) = mset ?h"
      using 1(1) False s(2) a b by auto
    moreover have "siftDown h i = siftDown ?h ?s" using False by (simp add: siftDown.simps [of h i] Let_def)
    ultimately show ?thesis using 1(2) s by simp
  qed
qed

lemma heap_min:
  assumes "is_heap h"
  shows "j < length h \<Longrightarrow> fst (h ! 0) \<le> fst (h ! j)"
proof (induction j rule: less_induct)
  case (less j)
  show ?case
  proof (cases "j = 0")
    case False
    then have "fst (h ! 0) \<le> fst (h ! up j)" using less up_less [of j] by simp
    also have "\<dots> \<le> fst (h ! j)" using assms less(2) False by (simp add: is_heap_def)
    finally show ?thesis .
  qed simp
qed

lemma pop_ok:
  assumes "is_heap h" "h \<noteq> []"
  shows "\<exists>d v. snd (pop h) = (d, int v) \<and> is_heap (fst (pop h)) \<and> add_mset (d, v) (mset (fst (pop h))) = mset h
    \<and> (\<forall>x\<in>set h. d \<le> fst x)"
proof -
  obtain d v where x: "h ! 0 = (d, v)" by (cases "h ! 0")
  have m: "\<forall>y\<in>set h. d \<le> fst y" using heap_min [OF assms(1)] x by (metis fst_conv in_set_conv_nth)
  let ?h = "butlast (h[0 := h ! (length h - 1)])"
  have "is_heap (siftDown ?h 0) \<and> add_mset (d, v) (mset (siftDown ?h 0)) = mset h"
  proof (cases "length h = 1")
    case True
    then obtain y where "h = [y]" by (cases h) auto
    then show ?thesis using x by (simp add: siftDown.simps smallest_of_def Let_def is_heap_def)
  next
    case False
    then obtain y ys z where h: "h = y # ys @ [z]"
      using assms(2) by (metis append_butlast_last_id append_Nil list.exhaust length_Cons list.size(3) One_nat_def append_Cons)
    then have b: "?h = z # ys" by (simp add: nth_append)
    have "fst ((z # ys) ! up j) \<le> fst ((z # ys) ! j)" if "0 < j" "j < length (z # ys)" "up j \<noteq> 0" for j
    proof -
      have "h ! k = (z # ys) ! k" if "0 < k" "k < length (z # ys)" for k
        using that by (cases k) (simp_all add: h nth_append)
      then have "h ! up j = (z # ys) ! up j" "h ! j = (z # ys) ! j" using that up_less [OF that(1)] by simp_all
      moreover have "j < length h" using that by (simp add: h)
      then have "fst (h ! up j) \<le> fst (h ! j)" using assms(1) that(1) unfolding is_heap_def by blast
      ultimately show ?thesis by simp
    qed
    then have "is_heap (siftDown (z # ys) 0) \<and> mset (siftDown (z # ys) 0) = mset (z # ys)"
      by (intro siftDown_ok) auto
    moreover have "y = (d, v)" using x h by simp
    ultimately show ?thesis using b h by simp
  qed
  then show ?thesis using m x assms(2) by (simp add: pop_def Let_def)
qed

section \<open>Contract\<close>

text \<open>What a client of the queue relies on: the items it holds, and that the least comes out.\<close>

locale priority_queue =
  fixes ins :: "'h \<Rightarrow> nat \<Rightarrow> real \<Rightarrow> 'h"
    and del :: "'h \<Rightarrow> 'h \<times> (real \<times> int)"
    and ok :: "'h \<Rightarrow> bool"
    and items :: "'h \<Rightarrow> heap_item multiset"
  assumes ins_law: "ok h \<Longrightarrow> ok (ins h v d) \<and> items (ins h v d) = add_mset (d, v) (items h)"
    and del_law: "ok h \<Longrightarrow> items h \<noteq> {#} \<Longrightarrow>
      \<exists>d v. snd (del h) = (d, int v) \<and> ok (fst (del h)) \<and> items h = add_mset (d, v) (items (fst (del h)))
        \<and> (\<forall>x\<in>#items h. d \<le> fst x)"
begin

fun drain :: "nat \<Rightarrow> 'h \<Rightarrow> heap_item list" where
  "drain 0 h = []"
| "drain (Suc n) h = (case del h of (h', d, v) \<Rightarrow> (d, nat v) # drain n h')"

lemma drain_sorted: "ok h \<Longrightarrow> sorted (map fst (drain (size (items h)) h)) \<and> mset (drain (size (items h)) h) = items h"
proof (induction "size (items h)" arbitrary: h)
  case 0
  then show ?case by (metis drain.simps(1) list.simps(8) mset.simps(1) size_eq_0_iff_empty sorted_wrt.simps(1))
next
  case (Suc n)
  then have "items h \<noteq> {#}" by auto
  from del_law [OF Suc.prems this] obtain h' d v where
    d: "del h = (h', d, int v)" "ok h'" "items h = add_mset (d, v) (items h')" "\<forall>x\<in>#items h. d \<le> fst x"
    by (metis prod.collapse)
  have s: "n = size (items h')" using Suc(2) d(3) by simp
  have r: "sorted (map fst (drain n h')) \<and> mset (drain n h') = items h'" using Suc(1) [OF s d(2)] s by simp
  moreover have "\<forall>x\<in>set (drain n h'). d \<le> fst x" using d(3,4) r by (metis set_mset_mset union_single_eq_member insert_iff set_mset_add_mset_insert)
  ultimately show ?case unfolding Suc(2) [symmetric] by (simp add: d(1,3))
qed

end

interpretation pq: priority_queue push pop is_heap mset
proof
  show "is_heap h \<Longrightarrow> is_heap (push h v d) \<and> mset (push h v d) = add_mset (d, v) (mset h)" for h v d by (rule push_ok)
  show "\<exists>d v. snd (pop h) = (d, int v) \<and> is_heap (fst (pop h)) \<and> mset h = add_mset (d, v) (mset (fst (pop h)))
      \<and> (\<forall>x\<in>#mset h. d \<le> fst x)" if "is_heap h" "mset h \<noteq> {#}" for h
    using pop_ok [OF that(1)] that(2) by (metis mset_zero_iff set_mset_mset)
qed

section \<open>Property\<close>

text \<open>
  C34: The heap sorts. Pushing any items one by one onto the empty heap and popping as many returns
  exactly these items, in order of distance.
\<close>

theorem min_heap_sorts:
  "sorted (map fst (pq.drain (length xs) (foldl (\<lambda>h (d, v). push h v d) [] xs)))
   \<and> mset (pq.drain (length xs) (foldl (\<lambda>h (d, v). push h v d) [] xs)) = mset xs"
proof -
  have h: "is_heap (foldl (\<lambda>h (d, v). push h v d) [] xs) \<and> mset (foldl (\<lambda>h (d, v). push h v d) [] xs) = mset xs"
    by (induction xs rule: rev_induct) (auto simp: push_ok, simp add: is_heap_def)
  then have "size (mset (foldl (\<lambda>h (d, v). push h v d) [] xs)) = length xs" by simp
  with pq.drain_sorted [of "foldl (\<lambda>h (d, v). push h v d) [] xs"] h show ?thesis by simp
qed

end
