(* ===== verification/Hnsw.thy ===== *)
theory Hnsw
  imports MinHeap RagText "HOL-Library.Word"
begin

text \<open>
  \<open>internal/rag/index.go\<close>: the layered graph of vectors, its construction, its search, and the bytes it
  is stored as. Nodes live in a store in the order they were added, a pointer is a position in it. The
  random numbers of a seed, the bits of a float, and what the conversion of a NaN to an integer gives
  are parameters; the mutex of every method makes each of them one step.
\<close>

section \<open>Data\<close>

record hnsw_config =
  hc_M :: int
  hc_efConstruction :: int
  hc_efSearch :: int
  hc_layerFactor :: real
  hc_seed :: int

definition DefaultHNSWConfig :: hnsw_config where
  "DefaultHNSWConfig = \<lparr>hc_M = 16, hc_efConstruction = 100, hc_efSearch = 50, hc_layerFactor = 0, hc_seed = 42\<rparr>"

type_synonym neighbor = "nat \<times> real"

record hnswEntry =
  nd_vec :: "real list"
  nd_id :: nat
  nd_layer :: nat
  nd_neigh :: "neighbor list list"

record hnsw =
  hx_cfg :: hnsw_config
  hx_draws :: nat
  hx_nodes :: "hnswEntry list"
  hx_layers :: "nat list list"
  hx_entryPoints :: "nat \<rightharpoonup> nat"
  hx_maxLayer :: nat
  hx_size :: nat

record hnsw_lib =
  hl_rng :: "int \<Rightarrow> nat \<Rightarrow> real"
  hl_nan :: int
  hl_bits :: "real \<Rightarrow> 64 word"
  hl_unbits :: "64 word \<Rightarrow> real"

definition norm_config :: "hnsw_config \<Rightarrow> hnsw_config" where
  "norm_config cfg =
     cfg\<lparr>hc_M := (if hc_M cfg \<le> 0 then 16 else hc_M cfg),
         hc_efConstruction := (if hc_efConstruction cfg \<le> 0 then 100 else hc_efConstruction cfg),
         hc_efSearch := (if hc_efSearch cfg \<le> 0 then 50 else hc_efSearch cfg),
         hc_seed := (if hc_seed cfg = 0 then 42 else hc_seed cfg)\<rparr>"

definition NewHNSWIndex :: "hnsw_config \<Rightarrow> hnsw" where
  "NewHNSWIndex cfg =
     \<lparr>hx_cfg = norm_config cfg, hx_draws = 0, hx_nodes = [], hx_layers = [[]], hx_entryPoints = Map.empty,
      hx_maxLayer = 0, hx_size = 0\<rparr>"

text \<open>The node at a position of a layer.\<close>

definition node_at :: "hnsw \<Rightarrow> nat \<Rightarrow> nat \<Rightarrow> hnswEntry" where
  "node_at h layer i = hx_nodes h ! (hx_layers h ! layer ! i)"

definition Dims :: "hnsw \<Rightarrow> nat" where
  "Dims h = (if hx_size h = 0 \<or> hx_layers h = [] \<or> hd (hx_layers h) = [] then 0 else length (nd_vec (node_at h 0 0)))"

definition distance :: "real list \<Rightarrow> real list \<Rightarrow> real" where
  "distance a b = 1 - CosineSimilarity a b"

section \<open>Search in one layer\<close>

fun explore :: "nat \<Rightarrow> nat \<Rightarrow> heap_item list \<Rightarrow> neighbor list \<Rightarrow> nat set \<Rightarrow> heap_item list \<Rightarrow> nat set \<times> heap_item list" where
  "explore len ef found [] visited pq = (visited, pq)"
| "explore len ef found ((v, d) # ns) visited pq =
     (if len \<le> v \<or> v \<in> visited then explore len ef found ns visited pq
      else explore len ef found ns (insert v visited)
             (if length found < ef \<or> d < fst (last found) then push pq v d else pq))"

lemma mset_siftUp: "i < length h \<Longrightarrow> mset (siftUp h i) = mset h"
proof (induction h i rule: siftUp.induct)
  case (1 h i)
  show ?case
  proof (cases "0 < i \<and> heap_less h i (up i)")
    case True
    then have "up i < length h" using 1(2) up_less [of i] by simp
    then show ?thesis using 1 True by (subst siftUp.simps) (simp add: Let_def)
  qed (auto simp: siftUp.simps [of h i] Let_def)
qed

lemma mset_siftDown: "i < length h \<Longrightarrow> mset (siftDown h i) = mset h"
proof (induction h i rule: siftDown.induct)
  case (1 h i)
  show ?case
  proof (cases "smallest_of h i = i")
    case False
    with smallest_of_bounds [OF this] show ?thesis using 1 by (subst siftDown.simps) (simp add: Let_def)
  qed (simp add: siftDown.simps [of h i] Let_def)
qed

lemma mset_push [simp]: "mset (push h v d) = add_mset (d, v) (mset h)"
  by (simp add: push_def mset_siftUp)

lemma mset_pop:
  assumes "h \<noteq> []"
  shows "snd (pop h) = (fst (h ! 0), int (snd (h ! 0))) \<and> mset h = add_mset (h ! 0) (mset (fst (pop h)))"
proof (cases "length h = 1")
  case True
  then obtain y where "h = [y]" by (cases h) auto
  then show ?thesis by (simp add: pop_def Let_def siftDown.simps smallest_of_def)
next
  case False
  then obtain y ys z where h: "h = y # ys @ [z]"
    using assms by (metis append_butlast_last_id append_Nil list.exhaust length_Cons list.size(3) One_nat_def append_Cons)
  then have "butlast (h[0 := h ! (length h - 1)]) = z # ys" by (simp add: nth_append)
  then show ?thesis using h by (simp add: pop_def Let_def mset_siftDown)
qed

lemma length_push [simp]: "length (push h v d) = Suc (length h)"
  by (metis mset_push size_mset size_add_mset)

lemma length_pop: "(pq', x) = pop pq \<Longrightarrow> pq \<noteq> [] \<Longrightarrow> length pq = Suc (length pq')"
  by (metis fst_conv mset_pop size_mset size_add_mset)

lemma explore_measure:
  "(visited', pq') = explore len ef found ns visited pq \<Longrightarrow>
   length pq' + card ({..<len} - visited') \<le> length pq + card ({..<len} - visited)"
proof (induction len ef found ns visited pq rule: explore.induct)
  case (2 len ef found v d ns visited pq)
  show ?case
  proof (cases "len \<le> v \<or> v \<in> visited")
    case True
    then show ?thesis using 2 by simp
  next
    case False
    let ?q = "if length found < ef \<or> d < fst (last found) then push pq v d else pq"
    have e: "{..<len} - visited = insert v ({..<len} - insert v visited)" using False by auto
    have c: "card ({..<len} - visited) = Suc (card ({..<len} - insert v visited))"
      by (subst e, subst card_insert_disjoint) auto
    have "length pq' + card ({..<len} - visited') \<le> length ?q + card ({..<len} - insert v visited)"
    proof (rule 2(2) [OF False])
      show "(visited', pq') = explore len ef found ns (insert v visited) ?q"
        using 2(3) by (simp only: explore.simps(2) False if_False)
    qed
    also have "\<dots> \<le> length pq + card ({..<len} - visited)" by (simp add: c)
    finally show ?thesis .
  qed
qed simp

text \<open>The loop of \<open>searchLayer\<close> and \<open>searchLayerAtPoint\<close>: best first, by the distance of the edge that was followed.\<close>

function best_first ::
  "hnsw \<Rightarrow> nat \<Rightarrow> nat \<Rightarrow> nat set \<Rightarrow> heap_item list \<Rightarrow> heap_item list \<Rightarrow> heap_item list" where
  "best_first h ef layer visited pq found =
     (if pq = [] then found
      else case pop pq of (pq, d, v) \<Rightarrow>
        if found \<noteq> [] \<and> fst (last found) < d \<and> ef \<le> length found then found
        else
          let found = found @ [(d, nat v)] in
          case explore (length (hx_layers h ! layer)) ef found (nd_neigh (node_at h layer (nat v)) ! layer) visited pq of
            (visited, pq) \<Rightarrow> best_first h ef layer visited pq found)"
  by pat_completeness auto
termination
  by (relation "measure (\<lambda>(h, ef, layer, visited, pq, found). length pq + card ({..<length (hx_layers h ! layer)} - visited))")
    (auto dest!: length_pop explore_measure)

declare best_first.simps [simp del]

definition searchLayerAtPoint :: "hnsw \<Rightarrow> real list \<Rightarrow> nat \<Rightarrow> nat \<Rightarrow> nat \<Rightarrow> nat list" where
  "searchLayerAtPoint h query ep ef layer =
     (let e = hx_nodes h ! ep in
      if length (hx_layers h ! layer) \<le> nd_id e then []
      else map snd (best_first h ef layer {nd_id e} (push [] (nd_id e) (distance query (nd_vec e))) []))"

definition searchLayer :: "hnsw \<Rightarrow> real list \<Rightarrow> nat \<Rightarrow> nat \<Rightarrow> nat list" where
  "searchLayer h query ef layer =
     (if hx_layers h ! layer = [] then []
      else case hx_entryPoints h layer of
        None \<Rightarrow> []
      | Some ep \<Rightarrow> searchLayerAtPoint h query ep ef layer)"

section \<open>Construction\<close>

text \<open>The position of the first greatest, and the selection sort that moves the greatest to the front.\<close>

fun max_at :: "neighbor list \<Rightarrow> nat" where
  "max_at [] = 0"
| "max_at [x] = 0"
| "max_at (x # y # ys) = (let k = max_at (y # ys) in if snd x < snd ((y # ys) ! k) then Suc k else 0)"

function sort_desc :: "neighbor list \<Rightarrow> neighbor list" where
  "sort_desc [] = []"
| "sort_desc (x # xs) =
     (case max_at (x # xs) of
        0 \<Rightarrow> x # sort_desc xs
      | Suc k \<Rightarrow> (xs ! k) # sort_desc (xs[k := x]))"
  by pat_completeness auto
termination by (relation "measure length") auto

definition pruneNeighbors :: "neighbor list \<Rightarrow> nat \<Rightarrow> neighbor list" where
  "pruneNeighbors neigh maxM = (if length neigh \<le> maxM then neigh else take maxM (sort_desc neigh))"

definition upd_neigh :: "nat \<Rightarrow> nat \<Rightarrow> (neighbor list \<Rightarrow> neighbor list) \<Rightarrow> hnsw \<Rightarrow> hnsw" where
  "upd_neigh p layer f h =
     (let e = hx_nodes h ! p in
      h\<lparr>hx_nodes := (hx_nodes h)[p := e\<lparr>nd_neigh := (nd_neigh e)[layer := f (nd_neigh e ! layer)]\<rparr>]\<rparr>)"

definition connect :: "nat \<Rightarrow> nat \<Rightarrow> nat \<Rightarrow> nat \<Rightarrow> hnsw \<Rightarrow> hnsw" where
  "connect p layer m candID h =
     (let c = hx_layers h ! layer ! candID in
      if c = p then h
      else
        let dist = distance (nd_vec (hx_nodes h ! p)) (nd_vec (hx_nodes h ! c));
            h = upd_neigh p layer (\<lambda>ns. ns @ [(candID, dist)]) h;
            dist2 = distance (nd_vec (hx_nodes h ! c)) (nd_vec (hx_nodes h ! p));
            h = upd_neigh c layer (\<lambda>ns. ns @ [(nd_id (hx_nodes h ! p), dist2)]) h
        in if m * 2 < length (nd_neigh (hx_nodes h ! c) ! layer)
           then upd_neigh c layer (\<lambda>ns. pruneNeighbors ns m) h else h)"

definition insertIntoLayer :: "nat \<Rightarrow> nat \<Rightarrow> hnsw \<Rightarrow> hnsw" where
  "insertIntoLayer p layer h =
     (let candidates = searchLayer h (nd_vec (hx_nodes h ! p)) (nat (hc_efConstruction (hx_cfg h))) layer;
          m = nat (if layer = 0 then hc_M (hx_cfg h) * 2 else hc_M (hx_cfg h));
          candidates = (if m < length candidates then take m candidates else candidates);
          h = fold (connect p layer m) candidates h
      in h\<lparr>hx_layers := (hx_layers h)[layer := hx_layers h ! layer @ [p]]\<rparr>)"

text \<open>For a logarithm of a negative number the quotient is a NaN, which converts to \<open>hl_nan\<close>.\<close>

definition drawn_layer :: "hnsw_lib \<Rightarrow> nat \<Rightarrow> real \<Rightarrow> nat" where
  "drawn_layer L sz r =
     (let n = real (sz + 1);
          p = 1 / ln n;
          l = (if 1 - p < 0 then hl_nan L else \<lfloor>ln (1 - r) / ln (1 - p)\<rfloor>);
          l = (if l < 0 then 0 else l);
          maxL = \<lfloor>log 2 n\<rfloor> + 1
      in nat (if maxL < l then maxL else l))"

definition randomLayer :: "hnsw_lib \<Rightarrow> hnsw \<Rightarrow> hnsw \<times> nat" where
  "randomLayer L h =
     (if hx_size h = 0 then (h, 0)
      else
        let r = hl_rng L (hc_seed (hx_cfg h)) (hx_draws h);
            h = h\<lparr>hx_draws := hx_draws h + 1\<rparr>
        in if hc_layerFactor (hx_cfg h) = 0 then (h, drawn_layer L (hx_size h) r)
           else (h, nat \<lfloor>- ln (1 - r) / hc_layerFactor (hx_cfg h)\<rfloor>))"

definition grow_layers :: "nat \<Rightarrow> nat list list \<Rightarrow> nat list list" where
  "grow_layers l layers = layers @ replicate (l + 1 - length layers) []"

definition addImpl :: "hnsw_lib \<Rightarrow> nat \<Rightarrow> real list \<Rightarrow> hnsw \<Rightarrow> hnsw" where
  "addImpl L v vec h =
     (case randomLayer L h of (h, l) \<Rightarrow>
        let p = length (hx_nodes h);
            h = h\<lparr>hx_nodes := hx_nodes h @ [\<lparr>nd_vec = vec, nd_id = v, nd_layer = l, nd_neigh = replicate (l + 1) []\<rparr>],
                  hx_layers := grow_layers l (hx_layers h),
                  hx_entryPoints := (\<lambda>layer. if layer \<le> l \<and> hx_entryPoints h layer = None then Some p else hx_entryPoints h layer),
                  hx_maxLayer := max l (hx_maxLayer h)\<rparr>;
            h = fold (insertIntoLayer p) (rev [0..<l + 1]) h
        in h\<lparr>hx_size := hx_size h + 1\<rparr>)"

section \<open>Search\<close>

text \<open>The selection sort that moves the first least to the front.\<close>

fun min_at :: "(nat \<Rightarrow> real) \<Rightarrow> nat list \<Rightarrow> nat" where
  "min_at d [] = 0"
| "min_at d [x] = 0"
| "min_at d (x # y # ys) = (let k = min_at d (y # ys) in if d ((y # ys) ! k) < d x then Suc k else 0)"

function sort_asc :: "(nat \<Rightarrow> real) \<Rightarrow> nat list \<Rightarrow> nat list" where
  "sort_asc d [] = []"
| "sort_asc d (x # xs) =
     (case min_at d (x # xs) of
        0 \<Rightarrow> x # sort_asc d xs
      | Suc k \<Rightarrow> (xs ! k) # sort_asc d (xs[k := x]))"
  by pat_completeness auto
termination by (relation "measure (\<lambda>(d, xs). length xs)") auto

definition sortByDist :: "hnsw \<Rightarrow> real list \<Rightarrow> nat list \<Rightarrow> nat list" where
  "sortByDist h query ids = sort_asc (\<lambda>i. distance query (nd_vec (node_at h 0 i))) ids"

text \<open>The descent from the top layer to layer 1: the entry point of the next layer.\<close>

fun descend :: "hnsw \<Rightarrow> real list \<Rightarrow> nat \<Rightarrow> nat \<Rightarrow> nat" where
  "descend h query ep 0 = ep"
| "descend h query ep (Suc layer) =
     (case searchLayerAtPoint h query ep (nat (hc_efSearch (hx_cfg h))) (Suc layer) of
        [] \<Rightarrow> descend h query ep layer
      | v # _ \<Rightarrow> descend h query (hx_layers h ! Suc layer ! v) layer)"

definition Search :: "hnsw \<Rightarrow> real list \<Rightarrow> nat \<Rightarrow> nat list" where
  "Search h query k =
     (if hx_size h = 0 then []
      else
        let ep = (case hx_entryPoints h (hx_maxLayer h) of Some ep \<Rightarrow> ep | None \<Rightarrow> the (hx_entryPoints h 0));
            ep = descend h query ep (hx_maxLayer h);
            baseResults = sortByDist h query (searchLayerAtPoint h query ep (nat (hc_efSearch (hx_cfg h))) 0)
        in if k < length baseResults then take k baseResults else baseResults)"

section \<open>Storage\<close>

type_synonym bytes = "8 word list"

text \<open>Little endian.\<close>

fun le_bytes :: "nat \<Rightarrow> nat \<Rightarrow> bytes" where
  "le_bytes 0 n = []"
| "le_bytes (Suc k) n = of_nat (n mod 256) # le_bytes k (n div 256)"

fun of_le :: "bytes \<Rightarrow> nat" where
  "of_le [] = 0"
| "of_le (b # bs) = unat b + 256 * of_le bs"

definition u32 :: "int \<Rightarrow> bytes" where "u32 n = le_bytes 4 (nat (n mod 2 ^ 32))"
definition u64 :: "int \<Rightarrow> bytes" where "u64 n = le_bytes 8 (nat (n mod 2 ^ 64))"

definition entry_bytes :: "hnsw_lib \<Rightarrow> hnswEntry \<Rightarrow> bytes" where
  "entry_bytes L e =
     u32 (int (nd_id e)) @ u32 (int (length (nd_vec e))) @ concat (map (\<lambda>v. u64 (uint (hl_bits L v))) (nd_vec e))"

definition Serialize :: "hnsw_lib \<Rightarrow> hnsw \<Rightarrow> bytes" where
  "Serialize L h =
     (let layer0 = map (\<lambda>p. hx_nodes h ! p) (hx_layers h ! 0) in
      u32 (hc_M (hx_cfg h)) @ u32 (hc_efConstruction (hx_cfg h)) @ u32 (hc_efSearch (hx_cfg h)) @ u64 (hc_seed (hx_cfg h)) @
      u32 (int (length layer0)) @ concat (map (entry_bytes L) layer0))"

datatype hnsw_error = TooShort | TruncatedId nat | TruncatedLen nat | TruncatedVec nat nat nat

definition serializeHeaderSize :: nat where "serializeHeaderSize = 4 + 4 + 4 + 8 + 4"

fun read_floats :: "hnsw_lib \<Rightarrow> nat \<Rightarrow> bytes \<Rightarrow> real list \<times> bytes" where
  "read_floats L 0 r = ([], r)"
| "read_floats L (Suc n) r =
     (case read_floats L n (drop 8 r) of (vs, r') \<Rightarrow> (hl_unbits L (of_nat (of_le (take 8 r))) # vs, r'))"

fun read_entries :: "hnsw_lib \<Rightarrow> nat \<Rightarrow> nat \<Rightarrow> bytes \<Rightarrow> hnsw \<Rightarrow> hnsw_error + hnsw" where
  "read_entries L i 0 r idx = Inr idx"
| "read_entries L i (Suc n) r idx =
     (if length r < 4 then Inl (TruncatedId i)
      else
        let v = of_le (take 4 r); r = drop 4 r in
        if length r < 4 then Inl (TruncatedLen i)
        else
          let vecLen = of_le (take 4 r); r = drop 4 r in
          if length r div 8 < vecLen then Inl (TruncatedVec i vecLen (length r))
          else case read_floats L vecLen r of (vec, r) \<Rightarrow> read_entries L (i + 1) n r (addImpl L v vec idx))"

definition int64_of :: "nat \<Rightarrow> int" where "int64_of n = sint (of_nat n :: 64 word)"

definition DeserializeHNSWIndex :: "hnsw_lib \<Rightarrow> bytes \<Rightarrow> hnsw_config \<Rightarrow> hnsw_error + hnsw" where
  "DeserializeHNSWIndex L data cfg =
     (if length data < serializeHeaderSize then Inl TooShort
      else
        let m = int (of_le (take 4 data));
            efConstruction = int (of_le (take 4 (drop 4 data)));
            efSearch = int (of_le (take 4 (drop 8 data)));
            seed = int64_of (of_le (take 8 (drop 12 data)));
            numEntries = of_le (take 4 (drop 20 data));
            cfg = cfg\<lparr>hc_M := (if hc_M cfg \<le> 0 then m else hc_M cfg)\<rparr>;
            cfg = cfg\<lparr>hc_efConstruction := (if hc_efConstruction cfg \<le> 0 then efConstruction else hc_efConstruction cfg)\<rparr>;
            cfg = cfg\<lparr>hc_efSearch := (if hc_efSearch cfg \<le> 0 then efSearch else hc_efSearch cfg)\<rparr>;
            cfg = cfg\<lparr>hc_seed := (if hc_seed cfg = 0 then seed else hc_seed cfg)\<rparr>
        in read_entries L 0 numEntries (drop 24 data) (NewHNSWIndex cfg))"

section \<open>Pruning\<close>

lemma max_at_ok: "xs \<noteq> [] \<Longrightarrow> max_at xs < length xs \<and> (\<forall>x\<in>set xs. snd x \<le> snd (xs ! max_at xs))"
proof (induction xs rule: max_at.induct)
  case (3 x y ys)
  then show ?case by (auto simp: Let_def)
qed auto

lemma mset_swap_head: "k < length xs \<Longrightarrow> add_mset (xs ! k) (mset (xs[k := x])) = add_mset x (mset xs)"
  by (simp add: mset_update)

lemma sort_desc_ok: "mset (sort_desc xs) = mset xs \<and> sorted_wrt (\<lambda>a b. snd b \<le> snd a) (sort_desc xs)"
proof (induction xs rule: sort_desc.induct)
  case (2 x xs)
  note m = max_at_ok [of "x # xs"]
  show ?case
  proof (cases "max_at (x # xs)")
    case 0
    then have "mset (sort_desc xs) = mset xs \<and> sorted_wrt (\<lambda>a b. snd b \<le> snd a) (sort_desc xs)" using 2(1) by simp
    moreover from this have "set (sort_desc xs) = set xs" by (metis set_mset_mset)
    ultimately show ?thesis using m 0 by simp
  next
    case (Suc k)
    then have r: "mset (sort_desc (xs[k := x])) = mset (xs[k := x]) \<and> sorted_wrt (\<lambda>a b. snd b \<le> snd a) (sort_desc (xs[k := x]))"
      using 2(2) by simp
    have k: "k < length xs" using m Suc by simp
    have s: "set (sort_desc (xs[k := x])) \<subseteq> set (x # xs)" using r set_update_subset_insert [of xs k x] by (metis list.simps(15) set_mset_mset)
    have "\<forall>b\<in>set (sort_desc (xs[k := x])). snd b \<le> snd (xs ! k)" using m Suc s by auto
    then show ?thesis using Suc r mset_swap_head [OF k, of x] by simp
  qed
qed simp

text \<open>
  Pruning keeps the wrong end. When a node has too many neighbours, exactly the limit is kept, the
  kept and the dropped are together the neighbours there were, and every neighbour that is dropped
  is at most as far as every neighbour that is kept.
\<close>

theorem prune_keeps_furthest:
  assumes "maxM < length neigh"
  shows "\<exists>dropped. mset (pruneNeighbors neigh maxM) + mset dropped = mset neigh \<and> length (pruneNeighbors neigh maxM) = maxM
    \<and> (\<forall>a\<in>set (pruneNeighbors neigh maxM). \<forall>b\<in>set dropped. snd b \<le> snd a)"
proof -
  let ?s = "sort_desc neigh"
  have s: "mset ?s = mset neigh" "sorted_wrt (\<lambda>a b. snd b \<le> snd a) ?s" using sort_desc_ok by auto
  have l: "length ?s = length neigh" using s(1) by (metis size_mset)
  have "sorted_wrt (\<lambda>a b. snd b \<le> snd a) (take maxM ?s @ drop maxM ?s)" using s(2) by simp
  then have "\<forall>a\<in>set (take maxM ?s). \<forall>b\<in>set (drop maxM ?s). snd b \<le> snd a" unfolding sorted_wrt_append by blast
  moreover have "mset (take maxM ?s) + mset (drop maxM ?s) = mset neigh" using s(1) by (metis append_take_drop_id mset_append)
  ultimately show ?thesis using assms l by (intro exI [of _ "drop maxM ?s"]) (simp add: pruneNeighbors_def)
qed

theorem prune_keeps_furthest_witness:
  "pruneNeighbors [(0, 1), (1, 3), (2, 2)] 2 = [(1, 3), (2, 2)]
   \<and> (\<exists>dropped. mset (pruneNeighbors [(0, 1), (1, 3), (2, 2)] 2) + mset dropped = mset [(0, 1), (1, 3), (2, 2)]
     \<and> length (pruneNeighbors [(0, 1), (1, 3), (2, 2)] 2) = 2
     \<and> (\<forall>a\<in>set (pruneNeighbors [(0, 1), (1, 3), (2, 2)] 2). \<forall>b\<in>set dropped. snd b \<le> snd a))"
  using prune_keeps_furthest [of 2 "[(0, 1), (1, 3), (2, 2)]"] by (simp add: pruneNeighbors_def Let_def)

section \<open>Soundness of a search\<close>

lemma min_at_ok: "xs \<noteq> [] \<Longrightarrow> min_at d xs < length xs \<and> (\<forall>x\<in>set xs. d (xs ! min_at d xs) \<le> d x)"
proof (induction d xs rule: min_at.induct)
  case (3 d x y ys)
  then show ?case by (auto simp: Let_def)
qed auto

lemma sort_asc_ok: "mset (sort_asc d xs) = mset xs \<and> sorted (map d (sort_asc d xs))"
proof (induction d xs rule: sort_asc.induct)
  case (2 d x xs)
  note m = min_at_ok [of "x # xs" d]
  show ?case
  proof (cases "min_at d (x # xs)")
    case 0
    then have "mset (sort_asc d xs) = mset xs \<and> sorted (map d (sort_asc d xs))" using 2(1) by simp
    moreover from this have "set (sort_asc d xs) = set xs" by (metis set_mset_mset)
    ultimately show ?thesis using m 0 by simp
  next
    case (Suc k)
    then have r: "mset (sort_asc d (xs[k := x])) = mset (xs[k := x]) \<and> sorted (map d (sort_asc d (xs[k := x])))"
      using 2(2) by simp
    have k: "k < length xs" using m Suc by simp
    have s: "set (sort_asc d (xs[k := x])) \<subseteq> set (x # xs)" using r set_update_subset_insert [of xs k x] by (metis list.simps(15) set_mset_mset)
    have "\<forall>b\<in>set (sort_asc d (xs[k := x])). d (xs ! k) \<le> d b" using m Suc s by auto
    then show ?thesis using Suc r mset_swap_head [OF k, of x] by simp
  qed
qed simp

text \<open>Every id is queued at most once, and only ids of the layer are.\<close>

definition queued_ok :: "nat \<Rightarrow> nat set \<Rightarrow> heap_item list \<Rightarrow> heap_item list \<Rightarrow> bool" where
  "queued_ok len visited pq found \<longleftrightarrow>
     distinct (map snd (found @ pq)) \<and> set (map snd (found @ pq)) \<subseteq> visited \<and> visited \<subseteq> {..<len}"

lemma queued_mset: "mset pq = mset pq' \<Longrightarrow> queued_ok len visited pq found = queued_ok len visited pq' found"
proof -
  assume m: "mset pq = mset pq'"
  then have s: "set (map snd (found @ pq)) = set (map snd (found @ pq'))" by (metis mset_append mset_map set_mset_mset)
  have "mset (map snd (found @ pq)) = mset (map snd (found @ pq'))" using m by simp
  then have d: "distinct (map snd (found @ pq)) = distinct (map snd (found @ pq'))" by (rule mset_eq_imp_distinct_iff)
  show ?thesis unfolding queued_ok_def s d ..
qed

lemma explore_ok:
  "explore len ef b ns visited pq = (visited', pq') \<Longrightarrow> queued_ok len visited pq found \<Longrightarrow> queued_ok len visited' pq' found"
proof (induction len ef b ns visited pq rule: explore.induct)
  case (2 len ef b v d ns visited pq)
  show ?case
  proof (cases "len \<le> v \<or> v \<in> visited")
    case True
    then show ?thesis using 2 by simp
  next
    case False
    let ?q = "if length b < ef \<or> d < fst (last b) then push pq v d else pq"
    have "queued_ok len (insert v visited) ((d, v) # pq) found \<and> queued_ok len (insert v visited) pq found"
      using 2(4) False by (auto simp: queued_ok_def)
    moreover have "queued_ok len (insert v visited) (push pq v d) found = queued_ok len (insert v visited) ((d, v) # pq) found"
      by (rule queued_mset) simp
    ultimately have "queued_ok len (insert v visited) ?q found" by simp
    moreover have "explore len ef b ns (insert v visited) ?q = (visited', pq')"
      using 2(3) by (simp only: explore.simps(2) False if_False)
    ultimately show ?thesis using 2(2) [OF False] by blast
  qed
qed simp

lemma best_first_ok:
  "queued_ok (length (hx_layers h ! layer)) visited pq found \<Longrightarrow>
   distinct (map snd (best_first h ef layer visited pq found))
   \<and> set (map snd (best_first h ef layer visited pq found)) \<subseteq> {..<length (hx_layers h ! layer)}"
proof (induction h ef layer visited pq found rule: best_first.induct)
  case (1 h ef layer visited pq found)
  let ?n = "length (hx_layers h ! layer)"
  have fin: "distinct (map snd found) \<and> set (map snd found) \<subseteq> {..<?n}" using 1(2) by (auto simp: queued_ok_def)
  show ?case
  proof (cases "pq = []")
    case True
    then have "best_first h ef layer visited pq found = found" by (subst best_first.simps) simp
    then show ?thesis using fin by simp
  next
    case ne: False
    obtain pq1 d v where p: "pop pq = (pq1, d, int v)" "pq ! 0 = (d, v)" "mset pq = add_mset (d, v) (mset pq1)"
      using mset_pop [OF ne] by (cases "pop pq", cases "pq ! 0") auto
    show ?thesis
    proof (cases "found \<noteq> [] \<and> fst (last found) < d \<and> ef \<le> length found")
      case True
      then have "best_first h ef layer visited pq found = found" using ne by (subst best_first.simps) (simp add: p(1))
      then show ?thesis using fin by simp
    next
      case go: False
      obtain vis2 pq2 where e: "explore ?n ef (found @ [(d, v)]) (nd_neigh (node_at h layer v) ! layer) visited pq1 = (vis2, pq2)" by fastforce
      have "mset pq = mset ((d, v) # pq1)" using p(3) by simp
      then have "queued_ok ?n visited ((d, v) # pq1) found" using 1(2) queued_mset by blast
      then have "queued_ok ?n visited pq1 (found @ [(d, v)])" by (auto simp: queued_ok_def)
      from explore_ok [OF e this] have o: "queued_ok ?n vis2 pq2 (found @ [(d, v)])" .
      have e': "(vis2, pq2) = explore ?n ef (found @ [(d, nat (int v))]) (nd_neigh (node_at h layer (nat (int v))) ! layer) visited pq1"
        using e by simp
      have "distinct (map snd (best_first h ef layer vis2 pq2 (found @ [(d, nat (int v))])))
        \<and> set (map snd (best_first h ef layer vis2 pq2 (found @ [(d, nat (int v))]))) \<subseteq> {..<?n}"
        by (rule 1(1) [OF ne p(1) [symmetric] refl go refl e' ]) (use o in simp)
      then have "distinct (map snd (best_first h ef layer vis2 pq2 (found @ [(d, v)])))
        \<and> set (map snd (best_first h ef layer vis2 pq2 (found @ [(d, v)]))) \<subseteq> {..<?n}" by simp
      moreover have "best_first h ef layer visited pq found = best_first h ef layer vis2 pq2 (found @ [(d, v)])"
        by (subst best_first.simps) (simp only: ne if_False p(1) prod.case go nat_int Let_def e)
      ultimately show ?thesis by simp
    qed
  qed
qed

lemma searchLayerAtPoint_ok:
  "distinct (searchLayerAtPoint h q ep ef layer) \<and> set (searchLayerAtPoint h q ep ef layer) \<subseteq> {..<length (hx_layers h ! layer)}"
proof (cases "length (hx_layers h ! layer) \<le> nd_id (hx_nodes h ! ep)")
  case False
  have "push [] v d = [(d, v)]" for v d by (simp add: push_def siftUp.simps)
  then have "queued_ok (length (hx_layers h ! layer)) {nd_id (hx_nodes h ! ep)}
      (push [] (nd_id (hx_nodes h ! ep)) (distance q (nd_vec (hx_nodes h ! ep)))) []"
    using False by (simp add: queued_ok_def)
  from best_first_ok [OF this, of ef] False show ?thesis by (simp add: searchLayerAtPoint_def Let_def)
qed (simp add: searchLayerAtPoint_def Let_def)

lemma sortByDist_ok: "mset (sortByDist h q ids) = mset ids \<and> sorted (map (\<lambda>i. distance q (nd_vec (node_at h 0 i))) (sortByDist h q ids))"
  using sort_asc_ok by (auto simp: sortByDist_def)

lemma Search_form:
  "Search h query k = [] \<or> (\<exists>ep. Search h query k = take k (sortByDist h query (searchLayerAtPoint h query ep (nat (hc_efSearch (hx_cfg h))) 0)))"
  by (simp add: Search_def Let_def) (metis not_less take_all)

lemma search_in_base: "set (Search h query k) \<subseteq> {..<length (hx_layers h ! 0)}"
proof -
  have "set (sortByDist h query ids) = set ids" for ids using sortByDist_ok by (metis set_mset_mset)
  then show ?thesis using Search_form [of h query k] searchLayerAtPoint_ok [of h query _ _ 0] set_take_subset [of k] by fastforce
qed

text \<open>
  What a search returns, on any index: at most k positions of the base layer, no position twice,
  in order of their distance to the query.
\<close>

theorem hnsw_search_sound:
  "length (Search h query k) \<le> k \<and> distinct (Search h query k) \<and> set (Search h query k) \<subseteq> {..<length (hx_layers h ! 0)}
   \<and> sorted (map (\<lambda>i. distance query (nd_vec (node_at h 0 i))) (Search h query k))"
  using Search_form [of h query k]
proof (elim disjE exE)
  fix ep assume s: "Search h query k = take k (sortByDist h query (searchLayerAtPoint h query ep (nat (hc_efSearch (hx_cfg h))) 0))"
  have "sorted (map (\<lambda>i. distance query (nd_vec (node_at h 0 i))) (Search h query k))"
    unfolding s using sortByDist_ok by (metis sorted_wrt_take take_map)
  moreover have "distinct (Search h query k)"
    unfolding s using sortByDist_ok searchLayerAtPoint_ok by (metis distinct_take mset_eq_imp_distinct_iff)
  ultimately show ?thesis using search_in_base [of h query k] s by simp
qed simp

section \<open>Storage round trip\<close>

lemma of_le_le_bytes: "of_le (le_bytes k n) = n mod 256 ^ k"
proof (induction k arbitrary: n)
  case (Suc k)
  have "unat (of_nat (n mod 256) :: 8 word) = n mod 256" by (simp add: unat_of_nat)
  then show ?case using Suc [of "n div 256"] by (simp add: mod_mult2_eq)
qed simp

lemma length_le_bytes [simp]: "length (le_bytes k n) = k"
  by (induction k arbitrary: n) auto

lemma length_u32 [simp]: "length (u32 n) = 4" and length_u64 [simp]: "length (u64 n) = 8"
  by (simp_all add: u32_def u64_def)

lemma of_le_u32: "0 \<le> n \<Longrightarrow> n < 2 ^ 32 \<Longrightarrow> of_le (u32 n) = nat n"
  by (simp add: u32_def of_le_le_bytes nat_mod_distrib)

lemma of_le_u64: "of_le (u64 n) = nat (n mod 2 ^ 64)"
proof -
  have "nat (n mod 2 ^ 64) < 256 ^ 8" by (simp add: nat_less_iff)
  then show ?thesis unfolding u64_def of_le_le_bytes by simp
qed

lemma of_le_bits: "of_nat (of_le (u64 (uint (w :: 64 word)))) = w"
proof -
  have "uint w mod 2 ^ 64 = uint w" using uint_bounded [of w] by simp
  then show ?thesis by (simp only: of_le_u64) simp
qed

lemma read_floats_ok:
  assumes "\<forall>v\<in>set vec. hl_unbits L (hl_bits L v) = v"
  shows "read_floats L (length vec) (concat (map (\<lambda>v. u64 (uint (hl_bits L v))) vec) @ rest) = (vec, rest)"
  using assms by (induction vec) (simp_all add: of_le_bits)

type_synonym row = "nat \<times> real list"

definition row_bytes :: "hnsw_lib \<Rightarrow> row \<Rightarrow> bytes" where
  "row_bytes L r = u32 (int (fst r)) @ u32 (int (length (snd r))) @ concat (map (\<lambda>v. u64 (uint (hl_bits L v))) (snd r))"

definition storable :: "hnsw_lib \<Rightarrow> row \<Rightarrow> bool" where
  "storable L r \<longleftrightarrow> fst r < 2 ^ 32 \<and> length (snd r) < 2 ^ 32 \<and> (\<forall>v\<in>set (snd r). hl_unbits L (hl_bits L v) = v)"

abbreviation add_rows :: "hnsw_lib \<Rightarrow> row list \<Rightarrow> hnsw \<Rightarrow> hnsw" where
  "add_rows L rows h \<equiv> fold (\<lambda>r. addImpl L (fst r) (snd r)) rows h"

lemma length_floats: "length (concat (map (\<lambda>v. u64 (f v)) vec)) = 8 * length vec"
  by (induction vec) simp_all

lemma read_entries_ok:
  "\<forall>r\<in>set rows. storable L r \<Longrightarrow>
   read_entries L i (length rows) (concat (map (row_bytes L) rows) @ rest) idx = Inr (add_rows L rows idx)"
proof (induction rows arbitrary: i idx)
  case (Cons r rows)
  obtain v vec where r: "r = (v, vec)" by fastforce
  let ?f = "concat (map (\<lambda>v. u64 (uint (hl_bits L v))) vec)" and ?t = "concat (map (row_bytes L) rows) @ rest"
  have n: "of_le (u32 (int v)) = v" "of_le (u32 (int (length vec))) = length vec"
    using Cons.prems r by (simp_all add: storable_def of_le_u32)
  have f: "read_floats L (length vec) (?f @ ?t) = (vec, ?t)" using Cons.prems r by (intro read_floats_ok) (simp add: storable_def)
  have l: "\<not> length (?f @ ?t) div 8 < length vec" by (simp add: length_floats)
  have e: "concat (map (row_bytes L) (r # rows)) @ rest = u32 (int v) @ u32 (int (length vec)) @ ?f @ ?t"
    by (simp add: row_bytes_def r)
  have "read_entries L i (Suc (length rows)) (u32 (int v) @ u32 (int (length vec)) @ ?f @ ?t) idx
      = read_entries L (i + 1) (length rows) ?t (addImpl L v vec idx)"
    using n f l by (simp add: Let_def)
  also have "\<dots> = Inr (add_rows L rows (addImpl L v vec idx))" using Cons by simp
  finally show ?case unfolding e by (simp add: r)
qed simp

text \<open>What construction does to the rows that are stored.\<close>

definition stored_rows :: "hnsw \<Rightarrow> row list" where
  "stored_rows h = map (\<lambda>e. (nd_id e, nd_vec e)) (hx_nodes h)"

lemma upd_neigh_fields:
  "stored_rows (upd_neigh p layer f h) = stored_rows h \<and> hx_layers (upd_neigh p layer f h) = hx_layers h \<and> hx_cfg (upd_neigh p layer f h) = hx_cfg h"
  by (auto simp: upd_neigh_def stored_rows_def Let_def map_update list_update_id intro: nth_equalityI)
    (metis (no_types, lifting) length_map list_update_beyond list_update_id map_update not_less nth_map)

lemma connect_fields:
  "stored_rows (connect p layer m c h) = stored_rows h \<and> hx_layers (connect p layer m c h) = hx_layers h \<and> hx_cfg (connect p layer m c h) = hx_cfg h"
  by (simp add: connect_def Let_def upd_neigh_fields)

lemma fold_connect_fields:
  "stored_rows (fold (connect p layer m) cs h) = stored_rows h \<and> hx_layers (fold (connect p layer m) cs h) = hx_layers h
   \<and> hx_cfg (fold (connect p layer m) cs h) = hx_cfg h"
  by (induction cs arbitrary: h) (simp_all add: connect_fields)

lemma insertIntoLayer_fields:
  "stored_rows (insertIntoLayer p layer h) = stored_rows h \<and> hx_cfg (insertIntoLayer p layer h) = hx_cfg h
   \<and> hx_layers (insertIntoLayer p layer h) = (hx_layers h)[layer := hx_layers h ! layer @ [p]]"
proof -
  have "stored_rows (h\<lparr>hx_layers := x\<rparr>) = stored_rows h" for h x by (simp add: stored_rows_def)
  then show ?thesis by (simp add: insertIntoLayer_def Let_def fold_connect_fields)
qed

lemma fold_insert_fields:
  "stored_rows (fold (insertIntoLayer p) ls h) = stored_rows h \<and> hx_cfg (fold (insertIntoLayer p) ls h) = hx_cfg h
   \<and> length (hx_layers (fold (insertIntoLayer p) ls h)) = length (hx_layers h)"
  by (induction ls arbitrary: h) (simp_all add: insertIntoLayer_fields)

lemma fold_insert_base:
  "0 \<notin> set ls \<Longrightarrow> hx_layers (fold (insertIntoLayer p) ls h) ! 0 = hx_layers h ! 0"
  by (induction ls arbitrary: h) (simp_all add: insertIntoLayer_fields)

lemma addImpl_fields:
  assumes "hx_layers h \<noteq> []"
  shows "stored_rows (addImpl L v vec h) = stored_rows h @ [(v, vec)] \<and> hx_cfg (addImpl L v vec h) = hx_cfg h
    \<and> hx_layers (addImpl L v vec h) \<noteq> [] \<and> hx_layers (addImpl L v vec h) ! 0 = hx_layers h ! 0 @ [length (stored_rows h)]"
proof -
  obtain g l where r: "randomLayer L h = (g, l)" by fastforce
  then have g: "hx_nodes g = hx_nodes h" "hx_layers g = hx_layers h" "hx_cfg g = hx_cfg h"
    by (auto simp: randomLayer_def Let_def split: if_splits)
  define k where "k = g\<lparr>hx_nodes := hx_nodes g @ [\<lparr>nd_vec = vec, nd_id = v, nd_layer = l, nd_neigh = replicate (l + 1) []\<rparr>],
                  hx_layers := grow_layers l (hx_layers g),
                  hx_entryPoints := (\<lambda>layer. if layer \<le> l \<and> hx_entryPoints g layer = None then Some (length (hx_nodes g)) else hx_entryPoints g layer),
                  hx_maxLayer := max l (hx_maxLayer g)\<rparr>"
  have a: "addImpl L v vec h = (fold (insertIntoLayer (length (hx_nodes g))) (rev [0..<l + 1]) k)
      \<lparr>hx_size := hx_size (fold (insertIntoLayer (length (hx_nodes g))) (rev [0..<l + 1]) k) + 1\<rparr>"
    by (simp add: addImpl_def r k_def Let_def del: upt_Suc)
  have k: "stored_rows k = stored_rows h @ [(v, vec)]" "hx_cfg k = hx_cfg h" "hx_layers k \<noteq> []" "hx_layers k ! 0 = hx_layers h ! 0"
    using assms g by (auto simp: k_def stored_rows_def grow_layers_def nth_append)
  have u: "rev [0..<l + 1] = rev [1..<l + 1] @ [0]" by (simp add: upt_conv_Cons del: upt_Suc)
  let ?f = "fold (insertIntoLayer (length (hx_nodes g))) (rev [1..<l + 1]) k"
  have b: "hx_layers ?f ! 0 = hx_layers h ! 0" "hx_layers ?f \<noteq> []"
  proof -
    show "hx_layers ?f ! 0 = hx_layers h ! 0"
      using fold_insert_base [of "rev [1..<l + 1]"] k(4) by (simp del: upt_Suc)
    have "length (hx_layers ?f) = length (hx_layers k)" using fold_insert_fields by blast
    then show "hx_layers ?f \<noteq> []" using k(3) by (metis length_0_conv)
  qed
  have s: "stored_rows (x\<lparr>hx_size := n\<rparr>) = stored_rows x" for x n by (simp add: stored_rows_def)
  show ?thesis
    unfolding a s u
    using b k fold_insert_fields [of _ "rev [1..<l + 1]" k] g(1)
    by (simp add: insertIntoLayer_fields stored_rows_def [of h] del: upt_Suc)
qed

lemma upd_neigh_size [simp]: "hx_size (upd_neigh p layer f h) = hx_size h"
  by (simp add: upd_neigh_def Let_def)

lemma fold_connect_size [simp]: "hx_size (fold (connect p layer m) cs h) = hx_size h"
  by (induction cs arbitrary: h) (simp_all add: connect_def Let_def)

lemma fold_insert_size [simp]: "hx_size (fold (insertIntoLayer p) ls h) = hx_size h"
  by (induction ls arbitrary: h) (simp_all add: insertIntoLayer_def Let_def)

lemma addImpl_size [simp]: "hx_size (addImpl L v vec h) = hx_size h + 1"
  by (auto simp: addImpl_def randomLayer_def Let_def simp del: upt_Suc)

lemma add_rows_fields:
  assumes "hx_layers h \<noteq> []" "hx_layers h ! 0 = [0..<length (stored_rows h)]"
  shows "stored_rows (add_rows L rows h) = stored_rows h @ rows \<and> hx_cfg (add_rows L rows h) = hx_cfg h
    \<and> hx_layers (add_rows L rows h) \<noteq> [] \<and> hx_layers (add_rows L rows h) ! 0 = [0..<length (stored_rows h @ rows)]"
  using assms
proof (induction rows arbitrary: h)
  case (Cons r rows)
  then show ?case using addImpl_fields [of h L "fst r" "snd r"] Cons.IH [of "addImpl L (fst r) (snd r) h"] by simp
qed simp

lemma Serialize_rows:
  assumes "hx_layers h ! 0 = [0..<length (stored_rows h)]"
  shows "Serialize L h = u32 (hc_M (hx_cfg h)) @ u32 (hc_efConstruction (hx_cfg h)) @ u32 (hc_efSearch (hx_cfg h)) @ u64 (hc_seed (hx_cfg h)) @
      u32 (int (length (stored_rows h))) @ concat (map (row_bytes L) (stored_rows h))"
proof -
  have "map (\<lambda>p. hx_nodes h ! p) [0..<length (stored_rows h)] = hx_nodes h" by (simp add: stored_rows_def map_nth)
  moreover have "map (entry_bytes L) (hx_nodes h) = map (row_bytes L) (stored_rows h)"
    by (simp add: stored_rows_def entry_bytes_def row_bytes_def)
  ultimately show ?thesis using assms by (simp add: Serialize_def Let_def) (simp add: stored_rows_def)
qed

text \<open>
  C33: The stored index is the index. For a configuration whose numbers fit the format and rows whose
  ids and lengths do, reading back the bytes of the index built from the rows gives the very same
  index, graph included, when the reader leaves the four stored numbers open.
\<close>

theorem hnsw_storage_roundtrip:
  assumes "0 < hc_M cfg" "hc_M cfg < 2 ^ 32" "0 < hc_efConstruction cfg" "hc_efConstruction cfg < 2 ^ 32"
    and "0 < hc_efSearch cfg" "hc_efSearch cfg < 2 ^ 32" "hc_seed cfg \<noteq> 0" "- (2 ^ 63) \<le> hc_seed cfg" "hc_seed cfg < 2 ^ 63"
    and "length rows < 2 ^ 32" "list_all (storable L) rows"
  shows "DeserializeHNSWIndex L (Serialize L (add_rows L rows (NewHNSWIndex cfg)))
      \<lparr>hc_M = 0, hc_efConstruction = 0, hc_efSearch = 0, hc_layerFactor = hc_layerFactor cfg, hc_seed = 0\<rparr>
    = Inr (add_rows L rows (NewHNSWIndex cfg))"
proof -
  have c: "norm_config cfg = cfg" using assms by (simp add: norm_config_def)
  have n: "hx_layers (NewHNSWIndex cfg) = [[]]" "hx_cfg (NewHNSWIndex cfg) = cfg" "stored_rows (NewHNSWIndex cfg) = []"
    by (simp_all add: NewHNSWIndex_def c stored_rows_def)
  let ?h = "add_rows L rows (NewHNSWIndex cfg)"
  have h: "stored_rows ?h = rows" "hx_cfg ?h = cfg" "hx_layers ?h ! 0 = [0..<length rows]"
    using add_rows_fields [of "NewHNSWIndex cfg" L rows] n by simp_all
  have s: "Serialize L ?h = u32 (hc_M cfg) @ u32 (hc_efConstruction cfg) @ u32 (hc_efSearch cfg) @ u64 (hc_seed cfg) @
      u32 (int (length rows)) @ concat (map (row_bytes L) rows) @ []"
    using Serialize_rows [of ?h L] h by simp
  have seed: "int64_of (of_le (u64 (hc_seed cfg))) = hc_seed cfg"
  proof -
    have "int64_of (of_le (u64 (hc_seed cfg))) = sint (word_of_int (hc_seed cfg) :: 64 word)"
    proof -
      have "(word_of_int (x mod 18446744073709551616) :: 64 word) = word_of_int x" for x
        by (simp add: word_of_int_eq_iff take_bit_eq_mod)
      then show ?thesis by (simp add: int64_of_def of_le_u64 of_nat_nat)
    qed
    also have "\<dots> = hc_seed cfg"
      using assms(8,9) by (simp add: sint_sbintrunc' signed_take_bit_int_eq_self)
    finally show ?thesis .
  qed
  have m: "int (of_le (u32 (hc_M cfg))) = hc_M cfg" "int (of_le (u32 (hc_efConstruction cfg))) = hc_efConstruction cfg"
    "int (of_le (u32 (hc_efSearch cfg))) = hc_efSearch cfg" "of_le (u32 (int (length rows))) = length rows"
    using assms by (simp_all add: of_le_u32)
  have r: "read_entries L 0 (length rows) (concat (map (row_bytes L) rows) @ []) (NewHNSWIndex cfg) = Inr ?h"
    using assms(11) by (intro read_entries_ok) (simp add: list_all_iff)
  have eq: "\<lparr>hc_M = hc_M cfg, hc_efConstruction = hc_efConstruction cfg, hc_efSearch = hc_efSearch cfg,
      hc_layerFactor = hc_layerFactor cfg, hc_seed = hc_seed cfg\<rparr> = cfg" by simp
  show ?thesis
    unfolding DeserializeHNSWIndex_def Let_def s
    using m seed r by (simp add: serializeHeaderSize_def eq)
qed

definition demo_hnsw :: hnsw_lib where
  "demo_hnsw = \<lparr>hl_rng = (\<lambda>_ _. 0), hl_nan = 0, hl_bits = (\<lambda>x. if x = 0 then 0 else 1), hl_unbits = (\<lambda>w. if w = 0 then 0 else 1)\<rparr>"

theorem hnsw_storage_roundtrip_witness:
  "DeserializeHNSWIndex demo_hnsw (Serialize demo_hnsw (add_rows demo_hnsw [(0, [1, 0]), (1, [0, 1])] (NewHNSWIndex DefaultHNSWConfig)))
      \<lparr>hc_M = 0, hc_efConstruction = 0, hc_efSearch = 0, hc_layerFactor = 0, hc_seed = 0\<rparr>
    = Inr (add_rows demo_hnsw [(0, [1, 0]), (1, [0, 1])] (NewHNSWIndex DefaultHNSWConfig))"
  using hnsw_storage_roundtrip [of DefaultHNSWConfig "[(0, [1, 0]), (1, [0, 1])]" demo_hnsw]
  by (simp add: DefaultHNSWConfig_def demo_hnsw_def storable_def)

end
