(* ===== verification/RagStore.thy ===== *)
theory RagStore
  imports Hnsw GoSort "HOL-Library.AList"
begin

text \<open>
  The example store of \<open>internal/rag/rag.go\<close>: indexing a directory, the three retrieval paths, the
  keyword index with its BM25 score, the operations of the persistent store and the watcher on the
  slice, and the life of the graph index beside it. Every critical section is atomic, and a method is
  the sequence of its sections; a snapshot it takes of the slice is an argument of its own. The
  embedder, the token counter, the file system and the order \<open>sort.Slice\<close> leaves equal elements in are
  parameters. \<open>None\<close> as the whole result is a panic.
\<close>

section \<open>State\<close>

datatype embedder = Ollama | OpenAI | Cohere | Cached embedder | OtherEmbedder

record rag_store =
  st_examples :: "example list"
  st_embedder :: embedder
  st_threshold :: real
  st_overrides :: "(string \<rightharpoonup> real) option"
  st_index :: "hnsw option"
  st_indexConfig :: hnsw_config
  st_batchSize :: int
  st_recursive :: bool
  st_chunkTokens :: int
  st_fileFilter :: "file_filter option"
  st_dedupThreshold :: real
  st_dedupCrossDir :: bool
  st_inverted :: "(string \<Rightarrow> (nat \<times> real) list) option"
  st_avgDL :: real
  st_hybridWeight :: real
  st_lastIndexAt :: int
  st_attempts :: nat
  st_hits :: nat
  st_misses :: nat
  st_emptyMisses :: nat
  st_thresholdMisses :: nat
  st_embedErrors :: nat
  st_injectionSkipped :: nat
  st_dedupSkipped :: nat
  st_generation :: int
  st_lastKind :: string

record candidate =
  cd_id :: nat
  cd_semantic :: real
  cd_keyword :: real

type_synonym 'a sorter = "('a \<Rightarrow> 'a \<Rightarrow> bool) \<Rightarrow> 'a list \<Rightarrow> 'a list"

record rag_env =
  re_lib :: hnsw_lib
  re_embed :: "string \<Rightarrow> real list option"
  re_batch :: "string list \<Rightarrow> real list list option"
  re_count :: "string \<Rightarrow> nat"
  re_ext :: "string \<Rightarrow> string"
  re_glob :: "string \<Rightarrow> string \<Rightarrow> bool"
  re_sort :: "candidate sorter"
  re_sort_scored :: "(example \<times> real) sorter"

definition indexThreshold :: nat where "indexThreshold = 50"

definition NewStore :: "embedder \<Rightarrow> real \<Rightarrow> (rag_store \<Rightarrow> rag_store) list \<Rightarrow> rag_store" where
  "NewStore e threshold opts =
     fold (\<lambda>f s. f s) opts
       \<lparr>st_examples = [], st_embedder = e, st_threshold = threshold, st_overrides = None,
        st_index = Some (NewHNSWIndex DefaultHNSWConfig), st_indexConfig = DefaultHNSWConfig, st_batchSize = 0,
        st_recursive = False, st_chunkTokens = 0, st_fileFilter = None, st_dedupThreshold = 0,
        st_dedupCrossDir = False, st_inverted = None, st_avgDL = 0, st_hybridWeight = 0, st_lastIndexAt = 0,
        st_attempts = 0, st_hits = 0, st_misses = 0, st_emptyMisses = 0, st_thresholdMisses = 0, st_embedErrors = 0,
        st_injectionSkipped = 0, st_dedupSkipped = 0, st_generation = 0, st_lastKind = []\<rparr>"

definition WithBatchSize :: "int \<Rightarrow> rag_store \<Rightarrow> rag_store" where "WithBatchSize n s = s\<lparr>st_batchSize := n\<rparr>"
definition WithRecursive :: "bool \<Rightarrow> rag_store \<Rightarrow> rag_store" where "WithRecursive r s = s\<lparr>st_recursive := r\<rparr>"
definition WithChunkTokens :: "int \<Rightarrow> rag_store \<Rightarrow> rag_store" where "WithChunkTokens n s = s\<lparr>st_chunkTokens := n\<rparr>"
definition WithFileFilter :: "file_filter option \<Rightarrow> rag_store \<Rightarrow> rag_store" where "WithFileFilter f s = s\<lparr>st_fileFilter := f\<rparr>"
definition WithDedupThreshold :: "real \<Rightarrow> rag_store \<Rightarrow> rag_store" where "WithDedupThreshold t s = s\<lparr>st_dedupThreshold := t\<rparr>"
definition WithDedupCrossDir :: "bool \<Rightarrow> rag_store \<Rightarrow> rag_store" where "WithDedupCrossDir b s = s\<lparr>st_dedupCrossDir := b\<rparr>"
definition WithHybridWeight :: "real \<Rightarrow> rag_store \<Rightarrow> rag_store" where "WithHybridWeight w s = s\<lparr>st_hybridWeight := w\<rparr>"

section \<open>Thresholds\<close>

text \<open>\<open>filepath.Base\<close>.\<close>

definition path_base :: "string \<Rightarrow> string" where
  "path_base p =
     (if p = [] then ''.''
      else let q = rev (dropWhile (\<lambda>c. c = CHR ''/'') (rev p))
           in if q = [] then ''/'' else last (SplitOn (CHR ''/'') q))"

definition ThresholdFor :: "rag_store \<Rightarrow> string \<Rightarrow> real" where
  "ThresholdFor s dir =
     (case st_overrides s of
        None \<Rightarrow> st_threshold s
      | Some ov \<Rightarrow> (case ov (ToLower (path_base dir)) of Some t \<Rightarrow> t | None \<Rightarrow> st_threshold s))"

definition threshold_prefix :: string where "threshold_prefix = ''NEXUS_RAG_THRESHOLD_''"

text \<open>
  The environment is the list of its \<open>name=value\<close> strings; \<open>getenv\<close>, \<open>strconv.ParseFloat\<close> and
  \<open>strings.ToValidUTF8\<close> are parameters.
\<close>

definition override_step ::
  "(string \<Rightarrow> string) \<Rightarrow> (string \<Rightarrow> real option) \<Rightarrow> (string \<Rightarrow> string) \<Rightarrow> string \<Rightarrow> (string \<rightharpoonup> real) \<Rightarrow> (string \<rightharpoonup> real)" where
  "override_step getenv parse utf8 env overrides =
     (if \<not> HasPrefix env threshold_prefix then overrides
      else case StrIndex env ''='' of
        None \<Rightarrow> overrides
      | Some idx \<Rightarrow>
          (let rawKey = drop (length threshold_prefix) (take idx env) in
           if rawKey = [] then overrides
           else let val = getenv (threshold_prefix @ utf8 rawKey) in
             if val = [] then overrides
             else case parse val of
               None \<Rightarrow> overrides
             | Some t \<Rightarrow> if t < 0 \<or> 1 < t then overrides else overrides(ToLower (utf8 rawKey) \<mapsto> t)))"

definition ParseThresholdOverrides ::
  "(string \<Rightarrow> string) \<Rightarrow> (string \<Rightarrow> real option) \<Rightarrow> (string \<Rightarrow> string) \<Rightarrow> string list \<Rightarrow> (string \<rightharpoonup> real)" where
  "ParseThresholdOverrides getenv parse utf8 environ = fold (override_step getenv parse utf8) environ Map.empty"

section \<open>Keyword index\<close>

text \<open>The entries of a term are an association list from documents to frequencies.\<close>

definition put_term :: "nat \<Rightarrow> string list \<Rightarrow> string \<Rightarrow> (string \<Rightarrow> (nat \<times> real) list) \<Rightarrow> (string \<Rightarrow> (nat \<times> real) list)" where
  "put_term docID tokens term tbl = tbl(term := AList.update docID (real (count_list tokens term)) (tbl term))"

definition average_length :: "example list \<Rightarrow> real" where
  "average_length exs = real (sum_list (map (\<lambda>ex. length (rag_tokenize (ex_Content ex))) exs)) / real (length exs)"

definition updateInvertedIndex :: "nat \<Rightarrow> string \<Rightarrow> rag_store \<Rightarrow> rag_store" where
  "updateInvertedIndex docID content s =
     (let tokens = rag_tokenize content in
      if tokens = [] then s
      else
        let tbl = (case st_inverted s of None \<Rightarrow> (\<lambda>_. []) | Some tbl \<Rightarrow> tbl);
            s = s\<lparr>st_inverted := Some (fold (put_term docID tokens) (remdups tokens) tbl)\<rparr>
        in if st_examples s \<noteq> [] then s\<lparr>st_avgDL := average_length (st_examples s)\<rparr> else s)"

definition rebuild_doc :: "nat \<times> example \<Rightarrow> (string \<Rightarrow> (nat \<times> real) list) \<Rightarrow> (string \<Rightarrow> (nat \<times> real) list)" where
  "rebuild_doc d tbl =
     (let tokens = rag_tokenize (ex_Content (snd d)) in fold (put_term (fst d) tokens) (remdups tokens) tbl)"

definition rebuildInvertedIndex :: "rag_store \<Rightarrow> rag_store" where
  "rebuildInvertedIndex s =
     (if st_examples s = [] then s\<lparr>st_inverted := Some (\<lambda>_. []), st_avgDL := 0\<rparr>
      else s\<lparr>st_inverted := Some (fold rebuild_doc (enumerate 0 (st_examples s)) (\<lambda>_. [])),
             st_avgDL := average_length (st_examples s)\<rparr>)"

definition IDF :: "nat \<Rightarrow> nat \<Rightarrow> real" where
  "IDF N n = (if n = 0 then 0 else ln ((real_of_int (int N - int n) + 0.5) / (real n + 0.5)))"

definition bm25K1 :: real where "bm25K1 = 1.5"
definition bm25B :: real where "bm25B = 0.75"
definition rrfK :: real where "rrfK = 60"

definition term_score :: "(string \<Rightarrow> (nat \<times> real) list) \<Rightarrow> nat \<Rightarrow> nat \<Rightarrow> real \<Rightarrow> real \<Rightarrow> string \<Rightarrow> real" where
  "term_score tbl N docID docLen avgDL term =
     (case map_of (tbl term) docID of
        None \<Rightarrow> 0
      | Some docTF \<Rightarrow>
          (let n = length (filter (\<lambda>(d, w). 0 < w) (tbl term)) in
           IDF N n * (docTF * (bm25K1 + 1) / (docTF + bm25K1 * (1 - bm25B + bm25B * docLen / avgDL)))))"

text \<open>\<open>None\<close> is the index of the document being out of range.\<close>

definition BM25Score :: "rag_store \<Rightarrow> string \<Rightarrow> nat \<Rightarrow> real option" where
  "BM25Score s query docID =
     (case st_inverted s of
        None \<Rightarrow> Some 0
      | Some tbl \<Rightarrow>
          if st_avgDL s = 0 then Some 0
          else
            let tokens = rag_tokenize query; N = length (st_examples s) in
            if tokens = [] then Some 0
            else if N = 0 then Some 0
            else if N \<le> docID then None
            else
              let docLen = real (length (rag_tokenize (ex_Content (st_examples s ! docID))))
              in Some (fold (\<lambda>t score. score + term_score tbl N docID docLen (st_avgDL s) t) tokens 0))"

definition hybridScore :: "real \<Rightarrow> real \<Rightarrow> real \<Rightarrow> nat \<Rightarrow> nat \<Rightarrow> real \<Rightarrow> real" where
  "hybridScore semanticScore keywordScore weight rankSemantic rankKeyword k =
     weight * (1 / (k + real rankSemantic)) + (1 - weight) * (1 / (k + real rankKeyword))"

section \<open>The graph index beside the slice\<close>

definition rebuildIndex :: "hnsw_lib \<Rightarrow> rag_store \<Rightarrow> rag_store" where
  "rebuildIndex L s =
     (if length (st_examples s) < indexThreshold then s\<lparr>st_index := None\<rparr>
      else s\<lparr>st_index := Some (fold (\<lambda>(i, ex) h. addImpl L i (ex_Embedding ex) h) (enumerate 0 (st_examples s))
                                (NewHNSWIndex (st_indexConfig s)))\<rparr>)"

definition maybeRebuildIndex :: "hnsw_lib \<Rightarrow> rag_store \<Rightarrow> rag_store" where
  "maybeRebuildIndex L s =
     (if st_index s \<noteq> None then s
      else if length (st_examples s) < indexThreshold then s
      else rebuildIndex L s)"

definition SerializeIndex :: "hnsw_lib \<Rightarrow> rag_store \<Rightarrow> rag_store \<times> bytes option" where
  "SerializeIndex L s =
     (let s = (if st_index s = None \<and> indexThreshold \<le> length (st_examples s) then rebuildIndex L s else s)
      in (s, map_option (Serialize L) (st_index s)))"

definition restoreIndex :: "hnsw_lib \<Rightarrow> bytes \<Rightarrow> rag_store \<Rightarrow> hnsw_error + rag_store" where
  "restoreIndex L blob s =
     (case DeserializeHNSWIndex L blob (st_indexConfig s) of
        Inl e \<Rightarrow> Inl e
      | Inr idx \<Rightarrow> Inr (s\<lparr>st_index := Some idx\<rparr>))"

datatype index_mode = ModeNone | ModeBruteForce | ModeHNSW

definition IndexMode :: "rag_store \<Rightarrow> index_mode" where
  "IndexMode s =
     (let n = length (st_examples s);
          indexed = (case st_index s of None \<Rightarrow> False | Some h \<Rightarrow> n \<le> hx_size h)
      in if n = 0 then ModeNone
         else if n < indexThreshold \<or> \<not> indexed then ModeBruteForce
         else ModeHNSW)"

section \<open>Operations on the slice\<close>

definition markIndexed :: "int option \<Rightarrow> int \<Rightarrow> rag_store \<Rightarrow> rag_store" where
  "markIndexed stamp now s = s\<lparr>st_lastIndexAt := (case stamp of None \<Rightarrow> now | Some t \<Rightarrow> t)\<rparr>"

definition Add :: "hnsw_lib \<Rightarrow> int \<Rightarrow> string \<Rightarrow> string \<Rightarrow> real list \<Rightarrow> rag_store \<Rightarrow> rag_store" where
  "Add L now filename content embedding s =
     (let v = length (st_examples s);
          s = s\<lparr>st_examples := st_examples s @
                  [\<lparr>ex_Filename = filename, ex_Dir = [], ex_Content = content, ex_Embedding = embedding, ex_ChunkIndex = 0\<rparr>]\<rparr>;
          s = s\<lparr>st_index := map_option (addImpl L v embedding) (st_index s)\<rparr>;
          s = updateInvertedIndex v content s
      in markIndexed (Some now) now s)"

definition replace :: "hnsw_lib \<Rightarrow> example list \<Rightarrow> rag_store \<Rightarrow> rag_store" where
  "replace L exs s = rebuildInvertedIndex (rebuildIndex L (s\<lparr>st_examples := exs\<rparr>))"

definition same_key :: "example \<Rightarrow> example \<Rightarrow> bool" where
  "same_key ex e \<longleftrightarrow> ex_Filename e = ex_Filename ex \<and> ex_ChunkIndex e = ex_ChunkIndex ex"

fun put_example :: "example \<Rightarrow> example list \<Rightarrow> example list" where
  "put_example ex [] = [ex]"
| "put_example ex (e # es) = (if same_key ex e then ex # es else e # put_example ex es)"

definition upsertExample :: "example \<Rightarrow> rag_store \<Rightarrow> rag_store" where
  "upsertExample ex s =
     s\<lparr>st_examples := put_example ex (st_examples s), st_index := None, st_generation := st_generation s + 1\<rparr>"

definition removeExample :: "string \<Rightarrow> rag_store \<Rightarrow> rag_store" where
  "removeExample filename s =
     s\<lparr>st_examples := filter (\<lambda>ex. ex_Filename ex \<noteq> filename) (st_examples s), st_index := None,
       st_generation := st_generation s + 1\<rparr>"

definition moveExample :: "string \<Rightarrow> string \<Rightarrow> rag_store \<Rightarrow> rag_store" where
  "moveExample src dst s =
     s\<lparr>st_examples := map (\<lambda>ex. if ex_Filename ex = src then ex\<lparr>ex_Filename := dst\<rparr> else ex) (st_examples s),
       st_index := None, st_generation := st_generation s + 1\<rparr>"

fun dup_scan :: "rag_store \<Rightarrow> string \<Rightarrow> real list \<Rightarrow> example list \<Rightarrow> bool" where
  "dup_scan s newDir emb [] = False"
| "dup_scan s newDir emb (ex # exs) =
     (if \<not> st_dedupCrossDir s \<and> ex_Dir ex \<noteq> newDir then dup_scan s newDir emb exs
      else if ex_Embedding ex = [] then dup_scan s newDir emb exs
      else if st_dedupThreshold s \<le> CosineSimilarity emb (ex_Embedding ex) then True
      else dup_scan s newDir emb exs)"

definition isDuplicate :: "string \<Rightarrow> real list \<Rightarrow> rag_store \<Rightarrow> rag_store \<times> bool" where
  "isDuplicate newDir emb s =
     (if st_dedupThreshold s \<le> 0 \<or> emb = [] then (s, False)
      else if dup_scan s newDir emb (st_examples s) then (s\<lparr>st_dedupSkipped := st_dedupSkipped s + 1\<rparr>, True)
      else (s, False))"

definition IncInjectionSkippedSizeLimit :: "rag_store \<Rightarrow> rag_store" where
  "IncInjectionSkippedSizeLimit s = s\<lparr>st_injectionSkipped := st_injectionSkipped s + 1\<rparr>"

fun embedderKind :: "embedder \<Rightarrow> string" where
  "embedderKind Ollama = ''ollama''"
| "embedderKind OpenAI = ''openai''"
| "embedderKind Cohere = ''cohere''"
| "embedderKind (Cached inner) = embedderKind inner"
| "embedderKind OtherEmbedder = []"

text \<open>The delegation to the embedder's breaker aside.\<close>

definition RecordBreakerSuccess :: "rag_store \<Rightarrow> rag_store" where
  "RecordBreakerSuccess s = s\<lparr>st_lastKind := embedderKind (st_embedder s)\<rparr>"

record store_stats =
  sx_LastIndexAt :: "int option"
  sx_RetrievalAttempts :: nat
  sx_RetrievalHits :: nat
  sx_RetrievalMisses :: nat
  sx_EmptyStoreMisses :: nat
  sx_ThresholdMisses :: nat
  sx_EmbedErrors :: nat
  sx_CacheHits :: nat
  sx_CacheMisses :: nat
  sx_InjectionSkippedSizeLimit :: nat
  sx_IndexGeneration :: int
  sx_DedupSkipped :: nat

text \<open>\<open>cacheStats\<close> are the counters of an \<open>EmbedCache\<close>, zero for any other embedder.\<close>

definition Stats :: "int \<times> int \<Rightarrow> rag_store \<Rightarrow> store_stats" where
  "Stats cacheStats s =
     (let (cacheHits, cacheMisses) = (case st_embedder s of Cached _ \<Rightarrow> cacheStats | _ \<Rightarrow> (0, 0)) in
      \<lparr>sx_LastIndexAt = (if 0 < st_lastIndexAt s then Some (st_lastIndexAt s) else None),
       sx_RetrievalAttempts = st_attempts s, sx_RetrievalHits = st_hits s, sx_RetrievalMisses = st_misses s,
       sx_EmptyStoreMisses = st_emptyMisses s, sx_ThresholdMisses = st_thresholdMisses s,
       sx_EmbedErrors = st_embedErrors s, sx_CacheHits = (if 0 < cacheHits then nat cacheHits else 0),
       sx_CacheMisses = (if 0 < cacheMisses then nat cacheMisses else 0),
       sx_InjectionSkippedSizeLimit = st_injectionSkipped s, sx_IndexGeneration = st_generation s,
       sx_DedupSkipped = st_dedupSkipped s\<rparr>)"

section \<open>Retrieval\<close>

datatype index_path = PathNone | PathHNSW | PathBruteForce | PathHybrid | PathKeyword

record answer =
  an_example :: "example option"
  an_score :: real
  an_path :: index_path
  an_failed :: bool

definition attempt :: "rag_store \<Rightarrow> rag_store" where
  "attempt s = s\<lparr>st_attempts := st_attempts s + 1\<rparr>"

definition hit :: "rag_store \<Rightarrow> rag_store" where "hit s = s\<lparr>st_hits := st_hits s + 1\<rparr>"

definition empty_miss :: "rag_store \<Rightarrow> rag_store" where
  "empty_miss s = s\<lparr>st_misses := st_misses s + 1, st_emptyMisses := st_emptyMisses s + 1\<rparr>"

definition threshold_miss :: "rag_store \<Rightarrow> rag_store" where
  "threshold_miss s = s\<lparr>st_misses := st_misses s + 1, st_thresholdMisses := st_thresholdMisses s + 1\<rparr>"

definition embed_miss :: "rag_store \<Rightarrow> rag_store" where
  "embed_miss s = s\<lparr>st_misses := st_misses s + 1, st_embedErrors := st_embedErrors s + 1\<rparr>"

text \<open>The scan for the best score, over the candidates of the graph or over every position.\<close>

fun scan_best :: "real list \<Rightarrow> example list \<Rightarrow> nat list \<Rightarrow> nat option \<Rightarrow> real \<Rightarrow> nat option \<times> real" where
  "scan_best q exs [] best bestScore = (best, bestScore)"
| "scan_best q exs (i # ids) best bestScore =
     (if length exs \<le> i then scan_best q exs ids best bestScore
      else let score = CosineSimilarity q (ex_Embedding (exs ! i))
           in if bestScore < score then scan_best q exs ids (Some i) score else scan_best q exs ids best bestScore)"

definition decide :: "rag_store \<Rightarrow> example option \<Rightarrow> real \<Rightarrow> index_path \<Rightarrow> rag_store \<times> answer" where
  "decide s best score path =
     (case best of
        Some ex \<Rightarrow>
          if ThresholdFor s (ex_Dir ex) < score
          then (hit s, \<lparr>an_example = Some ex, an_score = score, an_path = path, an_failed = False\<rparr>)
          else (threshold_miss s, \<lparr>an_example = None, an_score = score, an_path = path, an_failed = False\<rparr>)
      | None \<Rightarrow> (threshold_miss s, \<lparr>an_example = None, an_score = score, an_path = path, an_failed = False\<rparr>))"

text \<open>The graph index when it is to be used, for a store of \<open>n\<close> examples.\<close>

definition usable_index :: "rag_store \<Rightarrow> nat \<Rightarrow> hnsw option" where
  "usable_index s n =
     (case st_index s of
        None \<Rightarrow> None
      | Some h \<Rightarrow> if indexThreshold \<le> n \<and> n \<le> hx_size h then Some h else None)"

fun score_candidates :: "rag_store \<Rightarrow> string \<Rightarrow> real list \<Rightarrow> example list \<Rightarrow> nat list \<Rightarrow> candidate list option" where
  "score_candidates s prompt q exs [] = Some []"
| "score_candidates s prompt q exs (i # ids) =
     (if length exs \<le> i then score_candidates s prompt q exs ids
      else case BM25Score s prompt i of
        None \<Rightarrow> None
      | Some keyword \<Rightarrow>
          map_option (\<lambda>cs. \<lparr>cd_id = i, cd_semantic = CosineSimilarity q (ex_Embedding (exs ! i)), cd_keyword = keyword\<rparr> # cs)
            (score_candidates s prompt q exs ids))"

definition by_semantic :: "candidate \<Rightarrow> candidate \<Rightarrow> bool" where "by_semantic a b \<longleftrightarrow> cd_semantic b < cd_semantic a"
definition by_keyword :: "candidate \<Rightarrow> candidate \<Rightarrow> bool" where "by_keyword a b \<longleftrightarrow> cd_keyword b < cd_keyword a"

fun rrf_scan :: "real \<Rightarrow> nat list \<Rightarrow> nat list \<Rightarrow> nat \<Rightarrow> nat \<Rightarrow> real \<Rightarrow> nat" where
  "rrf_scan weight (rs # sem) (rk # kw) i bestIdx bestScore =
     (let rrf = hybridScore 0 0 weight rs rk rrfK in
      if bestScore < rrf then rrf_scan weight sem kw (i + 1) i rrf else rrf_scan weight sem kw (i + 1) bestIdx bestScore)"
| "rrf_scan weight _ _ i bestIdx bestScore = bestIdx"

definition hybrid_path :: "real \<Rightarrow> hnsw option \<Rightarrow> index_path" where
  "hybrid_path weight idx =
     (if 1 \<le> weight then PathKeyword
      else if weight \<le> 0 then (if idx = None then PathBruteForce else PathHNSW)
      else PathHybrid)"

text \<open>\<open>exs\<close> is the slice as the caller saw it, \<open>s\<close> the store now.\<close>

definition retrieveHybrid ::
  "rag_env \<Rightarrow> rag_store \<Rightarrow> string \<Rightarrow> real list \<Rightarrow> example list \<Rightarrow> hnsw option \<Rightarrow> real \<Rightarrow> (rag_store \<times> answer) option" where
  "retrieveHybrid E s prompt q exs idx weight =
     (let candidateIDs = (case idx of Some h \<Rightarrow> Search h q 20 | None \<Rightarrow> [0..<length exs]) in
      case score_candidates s prompt q exs candidateIDs of
        None \<Rightarrow> None
      | Some candidates \<Rightarrow>
          if candidates = [] then
            Some (threshold_miss s, \<lparr>an_example = None, an_score = 0, an_path = PathHybrid, an_failed = False\<rparr>)
          else
            let candidates = re_sort E by_semantic candidates;
                semanticRanks = map Suc [0..<length candidates];
                candidates = re_sort E by_keyword candidates;
                keywordRanks = map Suc [0..<length candidates];
                bestIdx = rrf_scan weight semanticRanks keywordRanks 0 0 (-1);
                best = exs ! cd_id (candidates ! bestIdx)
            in Some (decide s (Some best) (CosineSimilarity q (ex_Embedding best)) (hybrid_path weight idx)))"

definition no_answer :: "bool \<Rightarrow> answer" where
  "no_answer failed = \<lparr>an_example = None, an_score = 0, an_path = PathNone, an_failed = failed\<rparr>"

definition search_plain :: "rag_store \<Rightarrow> real list \<Rightarrow> hnsw option \<Rightarrow> rag_store \<times> answer" where
  "search_plain s q idx =
     (let exs = st_examples s;
          (ids, path) = (case idx of Some h \<Rightarrow> (Search h q 10, PathHNSW) | None \<Rightarrow> ([0..<length exs], PathBruteForce));
          (best, bestScore) = scan_best q exs ids None (-1)
      in decide s (map_option (\<lambda>i. exs ! i) best) bestScore path)"

definition Retrieve :: "rag_env \<Rightarrow> rag_store \<Rightarrow> string \<Rightarrow> (rag_store \<times> answer) option" where
  "Retrieve E s prompt =
     (let s = attempt s; n = length (st_examples s) in
      if n = 0 then Some (empty_miss s, no_answer False)
      else if prompt = [] then Some (threshold_miss s, no_answer False)
      else case re_embed E prompt of
        None \<Rightarrow> Some (embed_miss s, no_answer True)
      | Some q \<Rightarrow>
          (let s = maybeRebuildIndex (re_lib E) s; idx = usable_index s n in
           if 0 < st_hybridWeight s then retrieveHybrid E s prompt q (st_examples s) idx (st_hybridWeight s)
           else Some (search_plain s q idx)))"

record topk_answer =
  tk_examples :: "example list"
  tk_scores :: "real list"
  tk_path :: index_path
  tk_failed :: bool

definition no_topk :: "bool \<Rightarrow> topk_answer" where
  "no_topk failed = \<lparr>tk_examples = [], tk_scores = [], tk_path = PathNone, tk_failed = failed\<rparr>"

fun above_threshold :: "rag_store \<Rightarrow> real list \<Rightarrow> example list \<Rightarrow> nat list \<Rightarrow> (example \<times> real) list" where
  "above_threshold s q exs [] = []"
| "above_threshold s q exs (i # ids) =
     (if length exs \<le> i then above_threshold s q exs ids
      else let score = CosineSimilarity q (ex_Embedding (exs ! i))
           in if ThresholdFor s (ex_Dir (exs ! i)) < score then (exs ! i, score) # above_threshold s q exs ids
              else above_threshold s q exs ids)"

definition by_score :: "example \<times> real \<Rightarrow> example \<times> real \<Rightarrow> bool" where "by_score a b \<longleftrightarrow> snd b < snd a"

definition search_topk :: "rag_env \<Rightarrow> rag_store \<Rightarrow> real list \<Rightarrow> nat \<Rightarrow> hnsw option \<Rightarrow> rag_store \<times> topk_answer" where
  "search_topk E s q k idx =
     (let exs = st_examples s;
          (ids, path) = (case idx of Some h \<Rightarrow> (Search h q (max k 10), PathHNSW) | None \<Rightarrow> ([0..<length exs], PathBruteForce));
          candidates = re_sort_scored E by_score (above_threshold s q exs ids);
          candidates = (if k < length candidates then take k candidates else candidates)
      in if candidates = [] then (threshold_miss s, (no_topk False)\<lparr>tk_path := path\<rparr>)
         else (hit s, \<lparr>tk_examples = map fst candidates, tk_scores = map snd candidates, tk_path = path, tk_failed = False\<rparr>))"

definition RetrieveTopK :: "rag_env \<Rightarrow> rag_store \<Rightarrow> string \<Rightarrow> int \<Rightarrow> rag_store \<times> topk_answer" where
  "RetrieveTopK E s prompt k =
     (if k \<le> 0 then (s, no_topk False)
      else
        let s = attempt s; n = length (st_examples s) in
        if n = 0 then (empty_miss s, no_topk False)
        else if prompt = [] then (threshold_miss s, no_topk False)
        else case re_embed E prompt of
          None \<Rightarrow> (embed_miss s, no_topk True)
        | Some q \<Rightarrow>
            (let s = maybeRebuildIndex (re_lib E) s in search_topk E s q (nat k) (usable_index s n)))"

section \<open>Indexing a directory\<close>

text \<open>
  What the file system answers for an entry of the directory or of the walk: whether it is a directory
  or a symbolic link, the resolved path, the content, the path relative to the root and its directory;
  \<open>None\<close> for a failed call. A walk calls back with an error for what it could not read.
\<close>

record dir_entry =
  de_walkErr :: bool
  de_isDir :: bool
  de_symlink :: bool
  de_name :: string
  de_resolved :: "string option"
  de_content :: "string option"
  de_rel :: "(string \<times> string) option"

record collectedFile =
  cf_relPath :: string
  cf_dir :: string
  cf_content :: string

definition verifyInsideDir :: "string \<Rightarrow> string \<Rightarrow> bool" where
  "verifyInsideDir baseDir resolvedPath \<longleftrightarrow> HasPrefix resolvedPath (baseDir @ ''/'') \<or> resolvedPath = baseDir"

definition readable :: "string \<Rightarrow> dir_entry \<Rightarrow> string option" where
  "readable safeDir d =
     (case de_resolved d of
        None \<Rightarrow> None
      | Some p \<Rightarrow> if \<not> verifyInsideDir safeDir p then None else de_content d)"

definition collect_walk :: "string \<Rightarrow> dir_entry \<Rightarrow> collectedFile option" where
  "collect_walk safeDir d =
     (if de_walkErr d then None
      else if de_isDir d then None
      else if de_symlink d then None
      else case readable safeDir d of
        None \<Rightarrow> None
      | Some c \<Rightarrow>
          (case de_rel d of
             None \<Rightarrow> None
           | Some (rel, parent) \<Rightarrow>
               Some \<lparr>cf_relPath = rel, cf_dir = (if parent = ''.'' then [] else parent), cf_content = c\<rparr>))"

definition collect_flat :: "string \<Rightarrow> dir_entry \<Rightarrow> collectedFile option" where
  "collect_flat safeDir d =
     (if de_isDir d then None
      else if de_symlink d then None
      else map_option (\<lambda>c. \<lparr>cf_relPath = de_name d, cf_dir = safeDir, cf_content = c\<rparr>) (readable safeDir d))"

datatype dir_state = Missing bool | Unresolved | Unreadable | Listing string "dir_entry list"
datatype index_error = CreateFailed | ResolveFailed | ReadFailed

definition collectIndexFiles :: "bool \<Rightarrow> dir_state \<Rightarrow> index_error + collectedFile list" where
  "collectIndexFiles recursive d =
     (case d of
        Listing safeDir ds \<Rightarrow>
          Inr (List.map_filter (if recursive then collect_walk safeDir else collect_flat safeDir) ds)
      | Unreadable \<Rightarrow> Inl ReadFailed
      | _ \<Rightarrow> Inl ResolveFailed)"

definition file_chunks :: "rag_env \<Rightarrow> rag_store \<Rightarrow> collectedFile \<Rightarrow> (collectedFile \<times> chunk) list" where
  "file_chunks E s fi = map (\<lambda>c. (fi, c)) (chunkFile (re_count E) (cf_content fi) (st_chunkTokens s))"

definition chunk_example :: "collectedFile \<times> chunk \<Rightarrow> real list \<Rightarrow> example" where
  "chunk_example fc emb =
     \<lparr>ex_Filename = cf_relPath (fst fc), ex_Dir = cf_dir (fst fc), ex_Content = ch_Content (snd fc),
      ex_Embedding = emb, ex_ChunkIndex = ch_Index (snd fc)\<rparr>"

text \<open>One batch; fewer vectors than texts make the index into them panic.\<close>

definition index_batch :: "rag_env \<Rightarrow> int \<Rightarrow> collectedFile list \<Rightarrow> rag_store \<Rightarrow> rag_store option" where
  "index_batch E now batch s =
     (let chunks = concat (map (file_chunks E s) batch) in
      case re_batch E (map (\<lambda>fc. ch_Content (snd fc)) chunks) of
        None \<Rightarrow> Some (s\<lparr>st_index := None\<rparr>)
      | Some embs \<Rightarrow>
          if length embs < length chunks then None
          else Some (markIndexed (Some now) now (s\<lparr>st_examples := st_examples s @ map2 chunk_example chunks embs\<rparr>)))"

function batch_loop :: "rag_env \<Rightarrow> int \<Rightarrow> nat \<Rightarrow> collectedFile list \<Rightarrow> rag_store \<Rightarrow> rag_store option" where
  "batch_loop E now sz files s =
     (if files = [] \<or> sz = 0 then Some s
      else case index_batch E now (take sz files) s of
        None \<Rightarrow> None
      | Some s \<Rightarrow> batch_loop E now sz (drop sz files) s)"
  by pat_completeness auto
termination by (relation "measure (\<lambda>(E, now, sz, files, s). length files)") auto

declare batch_loop.simps [simp del]

definition index_chunk :: "rag_env \<Rightarrow> collectedFile \<times> chunk \<Rightarrow> rag_store \<Rightarrow> rag_store" where
  "index_chunk E fc s =
     (case re_embed E (ch_Content (snd fc)) of
        None \<Rightarrow> s
      | Some emb \<Rightarrow> s\<lparr>st_examples := st_examples s @ [chunk_example fc emb]\<rparr>)"

definition index_file :: "rag_env \<Rightarrow> int \<Rightarrow> collectedFile \<Rightarrow> rag_store \<Rightarrow> rag_store" where
  "index_file E now fi s = markIndexed (Some now) now (fold (index_chunk E) (file_chunks E s fi) s)"

definition IndexDir :: "rag_env \<Rightarrow> int \<Rightarrow> dir_state \<Rightarrow> rag_store \<Rightarrow> (rag_store \<times> index_error option) option" where
  "IndexDir E now d s =
     (case d of
        Missing created \<Rightarrow> Some (s, if created then None else Some CreateFailed)
      | _ \<Rightarrow>
          (case collectIndexFiles (st_recursive s) d of
             Inl e \<Rightarrow> Some (s, Some e)
           | Inr files \<Rightarrow>
               (let validFiles = (case st_fileFilter s of
                      None \<Rightarrow> files
                    | Some f \<Rightarrow> filter (\<lambda>fi. ShouldIndex (re_ext E) (re_glob E) (Some f) (cf_relPath fi)) files)
                in case (if 0 < st_batchSize s \<and> validFiles \<noteq> []
                         then batch_loop E now (nat (st_batchSize s)) validFiles s
                         else Some (fold (index_file E now) validFiles s)) of
                     None \<Rightarrow> None
                   | Some s \<Rightarrow> Some (maybeRebuildIndex (re_lib E) s, None))))"

section \<open>The scan for the best score\<close>

definition cos_to :: "real list \<Rightarrow> example list \<Rightarrow> nat \<Rightarrow> real" where
  "cos_to q exs i = CosineSimilarity q (ex_Embedding (exs ! i))"

text \<open>\<open>i\<close> is the first of the positions whose score no other exceeds.\<close>

definition first_best :: "(nat \<Rightarrow> real) \<Rightarrow> nat \<Rightarrow> nat \<Rightarrow> bool" where
  "first_best f n i \<longleftrightarrow> i < n \<and> (\<forall>j<n. f j \<le> f i) \<and> (\<forall>j<i. f j < f i)"

lemma scan_best_upto:
  assumes "k \<le> length exs"
    and "(best = None \<and> b = -1 \<and> (\<forall>j<k. cos_to q exs j = -1)) \<or> (\<exists>i. best = Some i \<and> b = cos_to q exs i \<and> first_best (cos_to q exs) k i)"
  shows "(\<exists>i. scan_best q exs [k..<length exs] best b = (Some i, cos_to q exs i) \<and> first_best (cos_to q exs) (length exs) i)
    \<or> (scan_best q exs [k..<length exs] best b = (None, -1) \<and> (\<forall>j<length exs. cos_to q exs j = -1))"
  using assms
proof (induction "length exs - k" arbitrary: k best b)
  case 0
  then show ?case by auto
next
  case (Suc m)
  have k: "k < length exs" using Suc.hyps(2) by simp
  have lo: "-1 \<le> cos_to q exs k" using cosine_range by (simp add: cos_to_def)
  define best' b' where "best' = (if b < cos_to q exs k then Some k else best)" and "b' = (if b < cos_to q exs k then cos_to q exs k else b)"
  have step: "scan_best q exs [k..<length exs] best b = scan_best q exs [Suc k..<length exs] best' b'"
    using k by (simp add: upt_conv_Cons best'_def b'_def cos_to_def Let_def)
  have "(best' = None \<and> b' = -1 \<and> (\<forall>j<Suc k. cos_to q exs j = -1)) \<or> (\<exists>i. best' = Some i \<and> b' = cos_to q exs i \<and> first_best (cos_to q exs) (Suc k) i)"
    using Suc.prems(2)
  proof (elim disjE exE conjE)
    assume a: "best = None" "b = -1" "\<forall>j<k. cos_to q exs j = -1"
    show ?thesis
    proof (cases "b < cos_to q exs k")
      case True
      then have "first_best (cos_to q exs) (Suc k) k" using a by (auto simp: first_best_def less_Suc_eq)
      with True show ?thesis by (simp add: best'_def b'_def)
    next
      case False
      then have "cos_to q exs k = -1" using lo a by simp
      with False a show ?thesis by (auto simp: best'_def b'_def less_Suc_eq)
    qed
  next
    fix i assume a: "best = Some i" "b = cos_to q exs i" "first_best (cos_to q exs) k i"
    show ?thesis
    proof (cases "b < cos_to q exs k")
      case True
      then have "first_best (cos_to q exs) (Suc k) k" using a by (force simp: first_best_def less_Suc_eq)
      with True show ?thesis by (simp add: best'_def b'_def)
    next
      case False
      then have "first_best (cos_to q exs) (Suc k) i" using a by (auto simp: first_best_def less_Suc_eq)
      with False a show ?thesis by (simp add: best'_def b'_def)
    qed
  qed
  then show ?case unfolding step using Suc.hyps k by (intro Suc.hyps(1)) auto
qed

lemma scan_best_all:
  "(\<exists>i. scan_best q exs [0..<length exs] None (-1) = (Some i, cos_to q exs i) \<and> first_best (cos_to q exs) (length exs) i)
    \<or> (scan_best q exs [0..<length exs] None (-1) = (None, -1) \<and> (\<forall>j<length exs. cos_to q exs j = -1))"
  by (rule scan_best_upto) simp_all

lemma scan_best_sound:
  assumes "scan_best q exs ids best b = (Some i, m)" "\<forall>j. best = Some j \<longrightarrow> j < length exs \<and> b = cos_to q exs j"
  shows "i < length exs \<and> m = cos_to q exs i"
  using assms
proof (induction ids arbitrary: best b)
  case (Cons k ids)
  have "scan_best q exs ids (if k < length exs \<and> b < cos_to q exs k then Some k else best)
      (if k < length exs \<and> b < cos_to q exs k then cos_to q exs k else b) = (Some i, m)"
    using Cons.prems(1) by (auto simp: Let_def cos_to_def split: if_splits)
  then show ?case by (rule Cons.IH) (use Cons.prems(2) in auto)
qed simp

section \<open>What the sections change\<close>

lemmas counter_defs = attempt_def hit_def empty_miss_def threshold_miss_def embed_miss_def

lemma ThresholdFor_cong:
  "st_overrides s = st_overrides s' \<Longrightarrow> st_threshold s = st_threshold s' \<Longrightarrow> ThresholdFor s = ThresholdFor s'"
  by (rule ext) (simp add: ThresholdFor_def split: option.split)

lemma ThresholdFor_simps [simp]:
  "ThresholdFor (attempt s) = ThresholdFor s" "ThresholdFor (hit s) = ThresholdFor s"
  "ThresholdFor (threshold_miss s) = ThresholdFor s" "ThresholdFor (maybeRebuildIndex L s) = ThresholdFor s"
  by (rule ThresholdFor_cong; simp add: counter_defs maybeRebuildIndex_def rebuildIndex_def)+

lemma sections_keep [simp]:
  "st_examples (attempt s) = st_examples s" "st_examples (hit s) = st_examples s"
  "st_examples (threshold_miss s) = st_examples s" "st_examples (empty_miss s) = st_examples s"
  "st_examples (embed_miss s) = st_examples s" "st_examples (maybeRebuildIndex L s) = st_examples s"
  "st_index (attempt s) = st_index s" "st_index (hit s) = st_index s"
  "st_index (threshold_miss s) = st_index s" "st_index (empty_miss s) = st_index s" "st_index (embed_miss s) = st_index s"
  "st_hybridWeight (attempt s) = st_hybridWeight s" "st_hybridWeight (maybeRebuildIndex L s) = st_hybridWeight s"
  by (simp_all add: counter_defs maybeRebuildIndex_def rebuildIndex_def)

lemma decide_keeps:
  "st_examples (fst (decide s best score path)) = st_examples s \<and> st_index (fst (decide s best score path)) = st_index s
   \<and> an_path (snd (decide s best score path)) = path \<and> \<not> an_failed (snd (decide s best score path))
   \<and> an_score (snd (decide s best score path)) = score
   \<and> an_example (snd (decide s best score path)) = (case best of None \<Rightarrow> None | Some ex \<Rightarrow> if ThresholdFor s (ex_Dir ex) < score then Some ex else None)"
  by (simp add: decide_def split: option.split)

section \<open>Exactness of the linear scan\<close>

text \<open>
  What a semantic retrieval answers when the graph index is not used: the first example of the
  highest cosine similarity, provided that similarity is strictly above the threshold of that
  example's own directory; another example that clears the threshold of its directory does not
  count. Only if every example is exactly opposite to the prompt is there no best one.
\<close>

theorem retrieve_scan_exact:
  assumes "st_examples s \<noteq> []" "prompt \<noteq> []" "re_embed E prompt = Some q" "st_hybridWeight s \<le> 0"
    and "usable_index (maybeRebuildIndex (re_lib E) (attempt s)) (length (st_examples s)) = None"
  shows "\<exists>s' a. Retrieve E s prompt = Some (s', a) \<and> an_path a = PathBruteForce \<and> \<not> an_failed a \<and>
    ((\<exists>i. first_best (cos_to q (st_examples s)) (length (st_examples s)) i \<and> an_score a = cos_to q (st_examples s) i
        \<and> an_example a = (if ThresholdFor s (ex_Dir (st_examples s ! i)) < cos_to q (st_examples s) i then Some (st_examples s ! i) else None))
     \<or> ((\<forall>i<length (st_examples s). cos_to q (st_examples s) i = -1) \<and> an_score a = -1 \<and> an_example a = None))"
proof -
  let ?t = "maybeRebuildIndex (re_lib E) (attempt s)"
  have r: "Retrieve E s prompt = Some (search_plain ?t q None)"
    using assms by (simp add: Retrieve_def Let_def)
  obtain best m where b: "scan_best q (st_examples s) [0..<length (st_examples s)] None (-1) = (best, m)" by fastforce
  have p: "search_plain ?t q None = decide ?t (map_option (\<lambda>i. st_examples s ! i) best) m PathBruteForce"
    using b by (simp add: search_plain_def Let_def)
  have d: "an_path (snd (search_plain ?t q None)) = PathBruteForce" "\<not> an_failed (snd (search_plain ?t q None))"
    "an_score (snd (search_plain ?t q None)) = m"
    "an_example (snd (search_plain ?t q None)) = (case best of None \<Rightarrow> None
       | Some i \<Rightarrow> if ThresholdFor s (ex_Dir (st_examples s ! i)) < m then Some (st_examples s ! i) else None)"
    unfolding p using decide_keeps [of ?t "map_option (\<lambda>i. st_examples s ! i) best" m PathBruteForce]
    by (simp_all split: option.split)
  from scan_best_all [of q "st_examples s"] show ?thesis
  proof (elim disjE exE conjE)
    fix i assume "scan_best q (st_examples s) [0..<length (st_examples s)] None (-1) = (Some i, cos_to q (st_examples s) i)"
      "first_best (cos_to q (st_examples s)) (length (st_examples s)) i"
    with b d r show ?thesis by (intro exI [of _ "fst (search_plain ?t q None)"] exI [of _ "snd (search_plain ?t q None)"]) auto
  next
    assume "scan_best q (st_examples s) [0..<length (st_examples s)] None (-1) = (None, -1)"
      "\<forall>j<length (st_examples s). cos_to q (st_examples s) j = -1"
    with b d r show ?thesis by (intro exI [of _ "fst (search_plain ?t q None)"] exI [of _ "snd (search_plain ?t q None)"]) auto
  qed
qed

definition demo_ex :: "string \<Rightarrow> real list \<Rightarrow> example" where
  "demo_ex n v = \<lparr>ex_Filename = n, ex_Dir = [], ex_Content = n, ex_Embedding = v, ex_ChunkIndex = 0\<rparr>"

definition demo_env :: rag_env where
  "demo_env = \<lparr>re_lib = demo_hnsw, re_embed = (\<lambda>t. Some [1, 0]), re_batch = (\<lambda>ts. Some (map (\<lambda>t. [1, 0]) ts)), re_count = length,
     re_ext = (\<lambda>_. []), re_glob = (\<lambda>_ _. False), re_sort = sort_stable, re_sort_scored = sort_stable\<rparr>"

definition demo_store :: "rag_store" where
  "demo_store = (NewStore Ollama 0.5 [])\<lparr>st_examples := [demo_ex ''a'' [0, 1], demo_ex ''b'' [1, 0]]\<rparr>"

lemma demo_store_scan: "usable_index (maybeRebuildIndex L (attempt demo_store)) (length (st_examples demo_store)) = None"
  by (simp add: demo_store_def NewStore_def attempt_def maybeRebuildIndex_def usable_index_def indexThreshold_def)

theorem retrieve_scan_exact_witness:
  "\<exists>s' a. Retrieve demo_env demo_store ''b'' = Some (s', a) \<and> an_path a = PathBruteForce \<and> \<not> an_failed a \<and>
    ((\<exists>i. first_best (cos_to [1, 0] (st_examples demo_store)) (length (st_examples demo_store)) i \<and> an_score a = cos_to [1, 0] (st_examples demo_store) i
        \<and> an_example a = (if ThresholdFor demo_store (ex_Dir (st_examples demo_store ! i)) < cos_to [1, 0] (st_examples demo_store) i
                          then Some (st_examples demo_store ! i) else None))
     \<or> ((\<forall>i<length (st_examples demo_store). cos_to [1, 0] (st_examples demo_store) i = -1) \<and> an_score a = -1 \<and> an_example a = None))"
  by (rule retrieve_scan_exact [of demo_store "''b''" demo_env "[1, 0]"])
    (use demo_store_scan in \<open>simp_all add: demo_store_def NewStore_def demo_env_def\<close>)

section \<open>Soundness of every path\<close>

lemma score_candidates_ok:
  assumes "length exs \<le> length (st_examples s)"
  shows "\<exists>cs. score_candidates s prompt q exs ids = Some cs \<and>
    (\<forall>c\<in>set cs. cd_id c < length exs \<and> BM25Score s prompt (cd_id c) = Some (cd_keyword c)) \<and>
    map cd_id cs = filter (\<lambda>i. i < length exs) ids"
proof (induction ids)
  case (Cons i ids)
  then obtain cs where cs: "score_candidates s prompt q exs ids = Some cs"
    "\<forall>c\<in>set cs. cd_id c < length exs \<and> BM25Score s prompt (cd_id c) = Some (cd_keyword c)"
    "map cd_id cs = filter (\<lambda>i. i < length exs) ids" by blast
  have "\<exists>k. BM25Score s prompt i = Some k" if "i < length exs"
    using that assms by (auto simp: BM25Score_def Let_def split: option.split)
  then show ?case using cs by (cases "i < length exs") auto
qed simp

lemma rrf_scan_bound: "bestIdx < n \<Longrightarrow> i + length sem \<le> n \<Longrightarrow> rrf_scan w sem kw i bestIdx best < n"
  by (induction w sem kw i bestIdx best rule: rrf_scan.induct) (auto simp: Let_def)

text \<open>Both rank lists are the positions after the second sort, so the first position has the best score.\<close>

lemma rrf_scan_keeps:
  "list_all (\<lambda>r. b \<ge> 1 / (60 + real r)) sem \<Longrightarrow> rrf_scan w sem sem i bestIdx b = bestIdx"
proof (induction sem arbitrary: i)
  case (Cons r sem)
  have "hybridScore 0 0 w r r rrfK = 1 / (60 + real r)" by (simp add: hybridScore_def rrfK_def ring_distribs(2) [symmetric] del: times_divide_eq_right)
  with Cons show ?case by (simp add: Let_def)
qed simp

lemma rrf_scan_first: "rrf_scan w (map Suc [0..<n]) (map Suc [0..<n]) 0 0 (-1) = 0"
proof (cases n)
  case (Suc m)
  have l: "map Suc [0..<n] = 1 # map Suc [1..<n]" using Suc by (simp add: upt_conv_Cons del: upt_Suc)
  have h: "hybridScore 0 0 w 1 1 rrfK = 1 / 61" by (simp add: hybridScore_def rrfK_def field_simps)
  have "list_all (\<lambda>r. 1 / 61 \<ge> 1 / (60 + real r)) (map Suc [1..<n])"
    by (auto simp: list_all_iff field_simps)
  then have "rrf_scan w (map Suc [1..<n]) (map Suc [1..<n]) (0 + 1) 0 (1 / 61) = 0" by (rule rrf_scan_keeps)
  then show ?thesis unfolding l rrf_scan.simps Let_def h by simp
qed simp

lemma keyword_weak: "strict_weak by_keyword"
  by unfold_locales (auto simp: by_keyword_def)

lemma semantic_weak: "strict_weak by_semantic"
  by unfold_locales (auto simp: by_semantic_def)

lemma score_weak: "strict_weak by_score"
  by unfold_locales (auto simp: by_score_def)

text \<open>What the hybrid path picks: a candidate with the highest keyword score.\<close>

lemma retrieveHybrid_pick:
  assumes srt: "unstable_sort (re_sort E)" and n: "length exs \<le> length (st_examples s)"
  shows "(\<exists>c ans. retrieveHybrid E s prompt q exs idx w = Some ans
        \<and> c < length exs \<and> c \<in> set (case idx of Some h \<Rightarrow> Search h q 20 | None \<Rightarrow> [0..<length exs])
        \<and> (\<exists>k. BM25Score s prompt c = Some k \<and>
             (\<forall>d\<in>set (case idx of Some h \<Rightarrow> Search h q 20 | None \<Rightarrow> [0..<length exs]). d < length exs \<longrightarrow> the (BM25Score s prompt d) \<le> k))
        \<and> ans = decide s (Some (exs ! c)) (cos_to q exs c) (hybrid_path w idx))
    \<or> (filter (\<lambda>i. i < length exs) (case idx of Some h \<Rightarrow> Search h q 20 | None \<Rightarrow> [0..<length exs]) = []
        \<and> retrieveHybrid E s prompt q exs idx w
          = Some (threshold_miss s, \<lparr>an_example = None, an_score = 0, an_path = PathHybrid, an_failed = False\<rparr>))"
proof -
  let ?ids = "case idx of Some h \<Rightarrow> Search h q 20 | None \<Rightarrow> [0..<length exs]"
  obtain cs where cs: "score_candidates s prompt q exs ?ids = Some cs"
    "\<forall>c\<in>set cs. cd_id c < length exs \<and> BM25Score s prompt (cd_id c) = Some (cd_keyword c)"
    "map cd_id cs = filter (\<lambda>i. i < length exs) ?ids"
    using score_candidates_ok [OF n] by blast
  show ?thesis
  proof (cases "cs = []")
    case True
    with cs have "filter (\<lambda>i. i < length exs) ?ids = []" by simp
    moreover have "retrieveHybrid E s prompt q exs idx w
          = Some (threshold_miss s, \<lparr>an_example = None, an_score = 0, an_path = PathHybrid, an_failed = False\<rparr>)"
      using cs(1) True by (simp add: retrieveHybrid_def Let_def)
    ultimately show ?thesis by blast
  next
    case False
    let ?l = "re_sort E by_keyword (re_sort E by_semantic cs)"
    have set: "set ?l = set cs" using unstable_sort.srt_set [OF srt] by simp
    have len: "length ?l = length cs" "length (re_sort E by_semantic cs) = length cs"
      using unstable_sort.srt_mset [OF srt] by (metis size_mset)+
    obtain c l where l: "?l = c # l" using False set by (cases ?l) auto
    have sorted: "sorted_wrt (\<lambda>a b. \<not> by_keyword b a) ?l" by (rule unstable_sort.srt_sorted [OF srt keyword_weak])
    have top: "cd_keyword d \<le> cd_keyword c" if "d \<in> set cs" for d
      using that set sorted unfolding l by (force simp: by_keyword_def)
    have c: "c \<in> set cs" using set l by auto
    have ids: "set ?ids \<inter> {i. i < length exs} = cd_id ` set cs" using arg_cong [OF cs(3), of set] by auto
    have "retrieveHybrid E s prompt q exs idx w = Some (decide s (Some (exs ! cd_id c)) (cos_to q exs (cd_id c)) (hybrid_path w idx))"
      using cs(1) False len rrf_scan_first [of w "length cs"] l
      by (simp add: retrieveHybrid_def Let_def cos_to_def del: map_Suc_upt)
    moreover have "\<forall>d\<in>set ?ids. d < length exs \<longrightarrow> the (BM25Score s prompt d) \<le> cd_keyword c"
    proof (intro ballI impI)
      fix d assume "d \<in> set ?ids" "d < length exs"
      then obtain e where "e \<in> set cs" "d = cd_id e" using ids by blast
      with cs(2) top show "the (BM25Score s prompt d) \<le> cd_keyword c" by simp
    qed
    moreover have "cd_id c \<in> set ?ids" "cd_id c < length exs" using ids c by blast+
    ultimately show ?thesis using cs(2) c by blast
  qed
qed



lemma BM25Score_cong:
  "st_examples s = st_examples s' \<Longrightarrow> st_inverted s = st_inverted s' \<Longrightarrow> st_avgDL s = st_avgDL s' \<Longrightarrow> BM25Score s = BM25Score s'"
  by (intro ext) (simp add: BM25Score_def Let_def split: option.split)

lemma BM25Score_simps [simp]: "BM25Score (maybeRebuildIndex L (attempt s)) = BM25Score s"
  by (rule BM25Score_cong) (simp_all add: attempt_def maybeRebuildIndex_def rebuildIndex_def)

text \<open>
  The weight of the hybrid retrieval has no effect. For every weight above zero, however small, the
  example considered is one with the highest keyword score, and its cosine similarity is then held
  against its threshold: the ranks that the weight blends are both taken after the second sort.
\<close>

theorem hybrid_is_keyword_only:
  assumes srt: "unstable_sort (re_sort E)" and s: "st_examples s \<noteq> []" "prompt \<noteq> []" "re_embed E prompt = Some q"
    and w: "0 < st_hybridWeight s" and idx: "usable_index (maybeRebuildIndex (re_lib E) (attempt s)) (length (st_examples s)) = None"
  shows "\<exists>s' a c k. Retrieve E s prompt = Some (s', a) \<and> c < length (st_examples s) \<and> BM25Score s prompt c = Some k
    \<and> (\<forall>d<length (st_examples s). the (BM25Score s prompt d) \<le> k) \<and> an_score a = cos_to q (st_examples s) c
    \<and> an_example a = (if ThresholdFor s (ex_Dir (st_examples s ! c)) < cos_to q (st_examples s) c then Some (st_examples s ! c) else None)"
proof -
  let ?t = "maybeRebuildIndex (re_lib E) (attempt s)" and ?exs = "st_examples s"
  have r: "Retrieve E s prompt = retrieveHybrid E ?t prompt q ?exs None (st_hybridWeight s)"
    using s w idx by (simp add: Retrieve_def Let_def)
  have "length ?exs \<le> length (st_examples ?t)" by simp
  from retrieveHybrid_pick [OF srt this, of prompt q None "st_hybridWeight s"] s(1) obtain c ans k where
    c: "retrieveHybrid E ?t prompt q ?exs None (st_hybridWeight s) = Some ans" "c < length ?exs" "BM25Score s prompt c = Some k"
      "\<forall>d<length ?exs. the (BM25Score s prompt d) \<le> k"
      "ans = decide ?t (Some (?exs ! c)) (cos_to q ?exs c) (hybrid_path (st_hybridWeight s) None)"
    by auto
  show ?thesis
    using c r decide_keeps [of ?t "Some (?exs ! c)" "cos_to q ?exs c" "hybrid_path (st_hybridWeight s) None"]
    by (intro exI [of _ "fst ans"] exI [of _ "snd ans"] exI [of _ c] exI [of _ k]) simp
qed

definition demo_hybrid :: rag_store where "demo_hybrid = demo_store\<lparr>st_hybridWeight := 1 / 1000\<rparr>"

theorem hybrid_is_keyword_only_witness:
  "\<exists>s' a c k. Retrieve demo_env demo_hybrid ''b'' = Some (s', a) \<and> c < length (st_examples demo_hybrid) \<and> BM25Score demo_hybrid ''b'' c = Some k
    \<and> (\<forall>d<length (st_examples demo_hybrid). the (BM25Score demo_hybrid ''b'' d) \<le> k) \<and> an_score a = cos_to [1, 0] (st_examples demo_hybrid) c
    \<and> an_example a = (if ThresholdFor demo_hybrid (ex_Dir (st_examples demo_hybrid ! c)) < cos_to [1, 0] (st_examples demo_hybrid) c
                      then Some (st_examples demo_hybrid ! c) else None)"
  by (rule hybrid_is_keyword_only [of demo_env demo_hybrid "''b''" "[1, 0]"])
    (simp_all add: demo_hybrid_def demo_store_def NewStore_def demo_env_def stable.unstable_sort_axioms
      attempt_def maybeRebuildIndex_def usable_index_def indexThreshold_def)

section \<open>The graph mirrors the slice\<close>

definition index_ok :: "example list \<Rightarrow> hnsw \<Rightarrow> bool" where
  "index_ok exs h \<longleftrightarrow> hx_layers h \<noteq> [] \<and> hx_layers h ! 0 = [0..<length (stored_rows h)] \<and> hx_size h = length (stored_rows h)
     \<and> sorted_wrt (<) (map fst (stored_rows h)) \<and> (\<forall>r\<in>set (stored_rows h). fst r < length exs \<and> snd r = ex_Embedding (exs ! fst r))"

lemma index_ok_new [simp]: "index_ok exs (NewHNSWIndex cfg)"
  by (simp add: index_ok_def NewHNSWIndex_def stored_rows_def)

lemma index_ok_append: "index_ok exs h \<Longrightarrow> index_ok (exs @ ys) h"
  by (auto simp: index_ok_def nth_append)

lemma index_ok_add:
  assumes "index_ok exs h" "ex_Embedding ex = emb"
  shows "index_ok (exs @ [ex]) (addImpl L (length exs) emb h)"
proof -
  have l: "hx_layers h \<noteq> []" using assms by (simp add: index_ok_def)
  from addImpl_fields [OF l, of L "length exs" emb] assms show ?thesis
    by (auto simp: index_ok_def nth_append sorted_wrt_append)
qed

lemma index_ok_rebuild:
  "index_ok exs (fold (\<lambda>(i, ex) h. addImpl L i (ex_Embedding ex) h) (enumerate 0 exs) (NewHNSWIndex cfg))"
proof (induction exs rule: rev_induct)
  case (snoc ex exs)
  then show ?case using index_ok_add [OF snoc refl] by (simp add: enumerate_append_eq)
qed simp

lemma full_index_rows:
  assumes "index_ok exs h" "length exs \<le> hx_size h"
  shows "stored_rows h = enumerate 0 (map ex_Embedding exs)"
proof -
  let ?ks = "map fst (stored_rows h)"
  have s: "sorted ?ks" "distinct ?ks" using assms(1) by (simp_all add: index_ok_def strict_sorted_iff)
  have sub: "set ?ks \<subseteq> {..<length exs}" using assms(1) by (auto simp: index_ok_def)
  have "length exs \<le> card (set ?ks)" using assms s(2) by (simp add: distinct_card index_ok_def del: set_map)
  then have "set ?ks = {..<length exs}" using sub by (metis card_lessThan card_seteq finite_lessThan)
  then have "set ?ks = set [0..<length exs]" by auto
  then have ks: "?ks = [0..<length exs]"
    by (intro sorted_distinct_set_unique s) simp_all
  then have len: "length (stored_rows h) = length exs" by (metis length_map length_upt minus_nat.diff_0)
  show ?thesis
  proof (rule nth_equalityI)
    fix i assume i: "i < length (stored_rows h)"
    have "fst (stored_rows h ! i) = i" using arg_cong [OF ks, of "\<lambda>xs. xs ! i"] i len by simp
    moreover have "snd (stored_rows h ! i) = ex_Embedding (exs ! fst (stored_rows h ! i))"
      using assms(1) i by (simp add: index_ok_def)
    ultimately show "stored_rows h ! i = enumerate 0 (map ex_Embedding exs) ! i"
      using i len by (simp add: nth_enumerate_eq prod_eq_iff)
  qed (simp add: len)
qed

section \<open>The store over its life\<close>

definition balanced :: "rag_store \<Rightarrow> bool" where
  "balanced s \<longleftrightarrow> st_attempts s = st_hits s + st_misses s
     \<and> st_misses s = st_emptyMisses s + st_thresholdMisses s + st_embedErrors s"

definition rag_inv :: "rag_store \<Rightarrow> bool" where
  "rag_inv s \<longleftrightarrow> (\<forall>h. st_index s = Some h \<longrightarrow> index_ok (st_examples s) h) \<and> balanced s"

lemma rag_inv_cong:
  assumes "rag_inv s" "st_index s' = st_index s" "st_examples s' = st_examples s"
    "st_attempts s' = st_attempts s" "st_hits s' = st_hits s" "st_misses s' = st_misses s" "st_emptyMisses s' = st_emptyMisses s"
    "st_thresholdMisses s' = st_thresholdMisses s" "st_embedErrors s' = st_embedErrors s"
  shows "rag_inv s'"
  using assms by (simp add: rag_inv_def balanced_def)

lemma rag_inv_dropped: "rag_inv s \<Longrightarrow> rag_inv (s\<lparr>st_examples := exs, st_index := None, st_generation := g\<rparr>)"
  by (simp add: rag_inv_def balanced_def)

lemma rag_inv_append: "rag_inv s \<Longrightarrow> rag_inv (s\<lparr>st_examples := st_examples s @ ys\<rparr>)"
  by (simp add: rag_inv_def balanced_def index_ok_append)

lemma rag_inv_mark [simp]: "rag_inv (markIndexed stamp now s) = rag_inv s"
  by (simp add: rag_inv_def balanced_def markIndexed_def)

lemma rag_inv_rebuild: "balanced s \<Longrightarrow> rag_inv (rebuildIndex L s)"
  by (auto simp: rag_inv_def balanced_def rebuildIndex_def index_ok_rebuild)

lemma rag_inv_maybe: "rag_inv s \<Longrightarrow> rag_inv (maybeRebuildIndex L s)"
  unfolding maybeRebuildIndex_def using rag_inv_rebuild [of s L] by (simp add: rag_inv_def)

lemma rag_inv_counted:
  "rag_inv s \<Longrightarrow> rag_inv (hit (attempt s))" "rag_inv s \<Longrightarrow> rag_inv (empty_miss (attempt s))"
  "rag_inv s \<Longrightarrow> rag_inv (threshold_miss (attempt s))" "rag_inv s \<Longrightarrow> rag_inv (embed_miss (attempt s))"
  by (simp_all add: rag_inv_def balanced_def counter_defs)

lemma maybe_attempt: "maybeRebuildIndex L (attempt s) = attempt (maybeRebuildIndex L s)"
  by (simp add: maybeRebuildIndex_def rebuildIndex_def attempt_def)

lemma rag_inv_decide: "rag_inv s \<Longrightarrow> rag_inv (fst (decide (attempt s) best score path))"
  by (simp add: decide_def rag_inv_counted split: option.split)

lemma retrieveHybrid_state:
  "retrieveHybrid E s prompt q exs idx w = Some (s', a) \<Longrightarrow> s' = threshold_miss s \<or> (\<exists>b m p. s' = fst (decide s b m p))"
  by (auto simp: retrieveHybrid_def Let_def split: option.splits if_splits) (metis fst_conv)+

lemma search_plain_state: "\<exists>b m p. fst (search_plain s q idx) = fst (decide s b m p)"
  by (auto simp: search_plain_def Let_def split: option.split prod.split)

lemma rag_inv_retrieve:
  assumes "rag_inv s" "Retrieve E s prompt = Some (s', a)"
  shows "rag_inv s'"
proof (cases "st_examples s = [] \<or> prompt = [] \<or> re_embed E prompt = None")
  case True
  then show ?thesis using assms by (auto simp: Retrieve_def Let_def rag_inv_counted split: if_splits)
next
  case False
  then obtain q where q: "re_embed E prompt = Some q" by auto
  let ?t = "maybeRebuildIndex (re_lib E) s"
  have i: "rag_inv ?t" by (rule rag_inv_maybe [OF assms(1)])
  let ?idx = "usable_index (attempt ?t) (length (st_examples s))"
  have "retrieveHybrid E (attempt ?t) prompt q (st_examples s) ?idx (st_hybridWeight s) = Some (s', a) \<or> s' = fst (search_plain (attempt ?t) q ?idx)"
    using assms(2) False q by (auto simp: Retrieve_def Let_def maybe_attempt split: if_splits)
  then have "s' = threshold_miss (attempt ?t) \<or> (\<exists>b m p. s' = fst (decide (attempt ?t) b m p))"
    using retrieveHybrid_state search_plain_state by metis
  then show ?thesis using i rag_inv_counted(3) rag_inv_decide by blast
qed

lemma rag_inv_topk:
  assumes "rag_inv s"
  shows "rag_inv (fst (RetrieveTopK E s prompt k))"
proof -
  have t: "rag_inv (fst (search_topk E (attempt t) q m idx))" if "rag_inv t" for t q m idx
    using rag_inv_counted [OF that] by (simp add: search_topk_def Let_def split: option.split prod.split)
  show ?thesis using assms rag_inv_counted [OF assms] t [OF rag_inv_maybe [OF assms]]
    by (simp add: RetrieveTopK_def Let_def maybe_attempt split: option.split)
qed

lemma rag_inv_add: "rag_inv s \<Longrightarrow> rag_inv (Add L now filename content emb s)"
proof -
  assume i: "rag_inv s"
  let ?ex = "\<lparr>ex_Filename = filename, ex_Dir = [], ex_Content = content, ex_Embedding = emb, ex_ChunkIndex = 0\<rparr>"
  have "rag_inv (s\<lparr>st_examples := st_examples s @ [?ex], st_index := map_option (addImpl L (length (st_examples s)) emb) (st_index s)\<rparr>)"
    using i index_ok_add [of "st_examples s" _ ?ex emb L] by (auto simp: rag_inv_def balanced_def)
  then show ?thesis
    unfolding Add_def Let_def rag_inv_mark updateInvertedIndex_def by (rule rag_inv_cong) simp_all
qed

lemma rag_inv_replace: "rag_inv s \<Longrightarrow> rag_inv (replace L exs s)"
proof -
  assume "rag_inv s"
  then have "rag_inv (rebuildIndex L (s\<lparr>st_examples := exs\<rparr>))"
    by (intro rag_inv_rebuild) (simp add: rag_inv_def balanced_def)
  then show ?thesis unfolding replace_def rebuildInvertedIndex_def by (rule rag_inv_cong) simp_all
qed

lemma rag_inv_batch: "rag_inv s \<Longrightarrow> index_batch E now batch s = Some s' \<Longrightarrow> rag_inv s'"
  by (auto simp: index_batch_def Let_def rag_inv_append split: option.splits if_splits)
    (simp add: rag_inv_def balanced_def)

lemma rag_inv_batches: "rag_inv s \<Longrightarrow> batch_loop E now sz files s = Some s' \<Longrightarrow> rag_inv s'"
proof (induction E now sz files s rule: batch_loop.induct)
  case (1 E now sz files s)
  show ?case
  proof (cases "files = [] \<or> sz = 0")
    case False
    then obtain t where t: "index_batch E now (take sz files) s = Some t"
      using 1(3) by (subst (asm) batch_loop.simps) (auto split: option.splits)
    with False 1(3) have "batch_loop E now sz (drop sz files) t = Some s'" by (subst (asm) batch_loop.simps) simp
    from 1(1) [OF False t rag_inv_batch [OF 1(2) t] this] show ?thesis .
  qed (use 1 in \<open>simp add: batch_loop.simps [of E now sz files s]\<close>)
qed

lemma rag_inv_file: "rag_inv s \<Longrightarrow> rag_inv (index_file E now fi s)"
proof -
  have "rag_inv t \<Longrightarrow> rag_inv (fold (index_chunk E) cs t)" for cs t
    by (induction cs arbitrary: t) (simp_all add: index_chunk_def rag_inv_append split: option.split)
  then show "rag_inv s \<Longrightarrow> rag_inv (index_file E now fi s)" by (simp add: index_file_def)
qed

lemma rag_inv_index:
  assumes "rag_inv s" "IndexDir E now d s = Some (s', err)"
  shows "rag_inv s'"
proof -
  have "rag_inv t \<Longrightarrow> rag_inv (fold (index_file E now) fs t)" for fs t
    by (induction fs arbitrary: t) (simp_all add: rag_inv_file)
  then show ?thesis
    using assms rag_inv_batches [OF assms(1)] rag_inv_maybe
    by (auto simp: IndexDir_def Let_def split: dir_state.splits sum.splits option.splits if_splits)
qed

definition store_options :: "(rag_store \<Rightarrow> rag_store) set" where
  "store_options = range WithBatchSize \<union> range WithRecursive \<union> range WithChunkTokens \<union> range WithFileFilter
     \<union> range WithDedupThreshold \<union> range WithDedupCrossDir \<union> range WithHybridWeight"

lemmas option_defs = WithBatchSize_def WithRecursive_def WithChunkTokens_def WithFileFilter_def WithDedupThreshold_def
  WithDedupCrossDir_def WithHybridWeight_def

lemma option_keeps:
  assumes "f \<in> store_options"
  shows "st_index (f s) = st_index s \<and> st_examples (f s) = st_examples s \<and> rag_inv (f s) = rag_inv s"
proof -
  have "rag_inv (s\<lparr>st_batchSize := a\<rparr>) = rag_inv s" "rag_inv (s\<lparr>st_recursive := b\<rparr>) = rag_inv s"
    "rag_inv (s\<lparr>st_chunkTokens := c\<rparr>) = rag_inv s" "rag_inv (s\<lparr>st_fileFilter := e\<rparr>) = rag_inv s"
    "rag_inv (s\<lparr>st_dedupThreshold := g\<rparr>) = rag_inv s" "rag_inv (s\<lparr>st_dedupCrossDir := h\<rparr>) = rag_inv s"
    "rag_inv (s\<lparr>st_hybridWeight := i\<rparr>) = rag_inv s" for a b c e g h i
    by (simp_all add: rag_inv_def balanced_def)
  with assms show ?thesis by (auto simp: store_options_def option_defs)
qed

lemma options_keep:
  "set opts \<subseteq> store_options \<Longrightarrow> st_index (fold (\<lambda>f s. f s) opts s) = st_index s
     \<and> st_examples (fold (\<lambda>f s. f s) opts s) = st_examples s \<and> rag_inv (fold (\<lambda>f s. f s) opts s) = rag_inv s"
  by (induction opts arbitrary: s) (simp_all add: option_keeps)

lemma rag_inv_new:
  assumes o: "set opts \<subseteq> store_options"
  shows "rag_inv (NewStore e t opts)"
proof -
  show ?thesis unfolding NewStore_def options_keep [OF o, THEN conjunct2, THEN conjunct2] by (simp add: rag_inv_def balanced_def)
qed

text \<open>The stores a sequence of operations can lead to; the file system, the embedder and the rows of the
  database behind \<open>replace\<close> answer anything.\<close>

inductive rag_reach :: "rag_env \<Rightarrow> rag_store \<Rightarrow> bool" for E :: rag_env where
  new: "set opts \<subseteq> store_options \<Longrightarrow> rag_reach E (NewStore e t opts)"
| add: "rag_reach E s \<Longrightarrow> rag_reach E (Add (re_lib E) now filename content emb s)"
| replace: "rag_reach E s \<Longrightarrow> rag_reach E (replace (re_lib E) exs s)"
| upsert: "rag_reach E s \<Longrightarrow> rag_reach E (upsertExample ex s)"
| remove: "rag_reach E s \<Longrightarrow> rag_reach E (removeExample filename s)"
| move: "rag_reach E s \<Longrightarrow> rag_reach E (moveExample src dst s)"
| duplicate: "rag_reach E s \<Longrightarrow> rag_reach E (fst (isDuplicate dir emb s))"
| skipped: "rag_reach E s \<Longrightarrow> rag_reach E (IncInjectionSkippedSizeLimit s)"
| success: "rag_reach E s \<Longrightarrow> rag_reach E (RecordBreakerSuccess s)"
| serialize: "rag_reach E s \<Longrightarrow> rag_reach E (fst (SerializeIndex (re_lib E) s))"
| index: "rag_reach E s \<Longrightarrow> IndexDir E now d s = Some (s', err) \<Longrightarrow> rag_reach E s'"
| retrieve: "rag_reach E s \<Longrightarrow> Retrieve E s prompt = Some (s', a) \<Longrightarrow> rag_reach E s'"
| topk: "rag_reach E s \<Longrightarrow> rag_reach E (fst (RetrieveTopK E s prompt k))"

lemma rag_reach_inv: "rag_reach E s \<Longrightarrow> rag_inv s"
proof (induction rule: rag_reach.induct)
  case (duplicate s dir emb)
  have "rag_inv (s\<lparr>st_dedupSkipped := n\<rparr>) = rag_inv s" for n by (simp add: rag_inv_def balanced_def)
  with duplicate show ?case by (simp add: isDuplicate_def)
next
  case (skipped s)
  then show ?case by (simp add: IncInjectionSkippedSizeLimit_def rag_inv_def balanced_def)
next
  case (success s)
  then show ?case by (simp add: RecordBreakerSuccess_def rag_inv_def balanced_def)
next
  case (serialize s)
  then show ?case using rag_inv_rebuild [of s "re_lib E"] by (auto simp: SerializeIndex_def Let_def rag_inv_def)
qed (auto simp: rag_inv_new rag_inv_add rag_inv_replace upsertExample_def removeExample_def moveExample_def rag_inv_dropped
      intro: rag_inv_index rag_inv_retrieve rag_inv_topk)



section \<open>The best k\<close>

definition clearing :: "rag_store \<Rightarrow> real list \<Rightarrow> (example \<times> real) list" where
  "clearing s q = filter (\<lambda>(ex, c). ThresholdFor s (ex_Dir ex) < c) (map (\<lambda>ex. (ex, CosineSimilarity q (ex_Embedding ex))) (st_examples s))"

lemma above_threshold_all: "above_threshold s q (st_examples s) [0..<length (st_examples s)] = clearing s q"
proof -
  have "above_threshold s q exs ids = filter (\<lambda>(ex, c). ThresholdFor s (ex_Dir ex) < c) (map (\<lambda>i. (exs ! i, CosineSimilarity q (ex_Embedding (exs ! i)))) ids)"
    if "\<forall>i\<in>set ids. i < length exs" for exs ids
    using that by (induction ids) (auto simp: Let_def)
  from this [of "[0..<length (st_examples s)]" "st_examples s"] show ?thesis
    by (simp add: clearing_def) (metis (no_types, lifting) map_map map_nth comp_def map_eq_conv)
qed

text \<open>
  The best k, when the graph is not used: of the examples that are strictly above the threshold of
  their own directory, k with the highest similarity, or all if they are fewer, in descending order;
  nothing left out is better than anything returned.
\<close>

theorem topk_scan_exact:
  assumes srt: "unstable_sort (re_sort_scored E)" and s: "st_examples s \<noteq> []" "prompt \<noteq> []" "re_embed E prompt = Some q" and k: "0 < k"
    and idx: "usable_index (maybeRebuildIndex (re_lib E) (attempt s)) (length (st_examples s)) = None"
  shows "\<exists>s' a rest. RetrieveTopK E s prompt k = (s', a) \<and> tk_path a = PathBruteForce \<and> \<not> tk_failed a
    \<and> mset (zip (tk_examples a) (tk_scores a)) + mset rest = mset (clearing s q)
    \<and> length (tk_examples a) = min (nat k) (length (clearing s q)) \<and> length (tk_scores a) = length (tk_examples a)
    \<and> sorted_wrt (\<ge>) (tk_scores a) \<and> list_all (\<lambda>r. list_all (\<lambda>c. snd r \<le> c) (tk_scores a)) rest"
proof -
  let ?t = "maybeRebuildIndex (re_lib E) (attempt s)" and ?l = "re_sort_scored E by_score (clearing s q)"
  have cl: "above_threshold ?t q (st_examples s) [0..<length (st_examples s)] = clearing s q"
    using above_threshold_all [of ?t q] by (simp add: clearing_def)
  have m: "mset ?l = mset (clearing s q)" by (rule unstable_sort.srt_mset [OF srt])
  have so: "sorted_wrt (\<lambda>a b. snd b \<le> snd a) ?l"
    using unstable_sort.srt_sorted [OF srt score_weak, of "clearing s q"] by (simp add: by_score_def not_less)
  define cs where "cs = take (nat k) ?l"
  have r: "RetrieveTopK E s prompt k = (if cs = [] then (threshold_miss ?t, (no_topk False)\<lparr>tk_path := PathBruteForce\<rparr>)
      else (hit ?t, \<lparr>tk_examples = map fst cs, tk_scores = map snd cs, tk_path = PathBruteForce, tk_failed = False\<rparr>))"
    using s k idx cl by (simp add: RetrieveTopK_def search_topk_def Let_def cs_def)
  have "mset cs + mset (drop (nat k) ?l) = mset (clearing s q)"
    unfolding cs_def m [symmetric] by (metis append_take_drop_id mset_append)
  moreover have "length cs = min (nat k) (length (clearing s q))"
    using m by (metis cs_def length_take min.commute size_mset)
  moreover have "sorted_wrt (\<ge>) (map snd cs)" "\<forall>r\<in>set (drop (nat k) ?l). \<forall>c\<in>set (map snd cs). snd r \<le> c"
  proof -
    have "sorted_wrt (\<lambda>a b. snd b \<le> snd a) (cs @ drop (nat k) ?l)" using so by (simp add: cs_def)
    then show "sorted_wrt (\<ge>) (map snd cs)" "\<forall>r\<in>set (drop (nat k) ?l). \<forall>c\<in>set (map snd cs). snd r \<le> c"
      by (auto simp: sorted_wrt_append sorted_wrt_map)
  qed
  ultimately show ?thesis unfolding r
    by (cases "cs = []")
      (auto simp: no_topk_def zip_map_fst_snd list_all_iff intro!: exI [of _ "drop (nat k) ?l"])
qed

theorem topk_scan_exact_witness:
  "\<exists>s' a rest. RetrieveTopK demo_env demo_store ''b'' 3 = (s', a) \<and> tk_path a = PathBruteForce \<and> \<not> tk_failed a
    \<and> mset (zip (tk_examples a) (tk_scores a)) + mset rest = mset (clearing demo_store [1, 0])
    \<and> length (tk_examples a) = min (nat 3) (length (clearing demo_store [1, 0])) \<and> length (tk_scores a) = length (tk_examples a)
    \<and> sorted_wrt (\<ge>) (tk_scores a) \<and> list_all (\<lambda>r. list_all (\<lambda>c. snd r \<le> c) (tk_scores a)) rest"
  by (rule topk_scan_exact)
    (use demo_store_scan in \<open>simp_all add: demo_store_def NewStore_def demo_env_def stable.unstable_sort_axioms\<close>)

section \<open>A freshly indexed store\<close>

definition fresh :: "rag_store \<Rightarrow> bool" where
  "fresh s \<longleftrightarrow> st_inverted s = None \<and> (\<exists>h. st_index s = Some h \<and> hx_size h = 0)"

lemma fresh_batches:
  "fresh s \<Longrightarrow> \<forall>ts. re_batch E ts \<noteq> None \<Longrightarrow> batch_loop E now sz files s = Some s' \<Longrightarrow> fresh s'"
proof (induction E now sz files s rule: batch_loop.induct)
  case (1 E now sz files s)
  show ?case
  proof (cases "files = [] \<or> sz = 0")
    case False
    then obtain t where t: "index_batch E now (take sz files) s = Some t"
      using 1(4) by (subst (asm) batch_loop.simps) (auto split: option.splits)
    moreover obtain embs where "re_batch E (map (\<lambda>fc. ch_Content (snd fc)) (concat (map (file_chunks E s) (take sz files)))) = Some embs"
      using 1(3) by blast
    ultimately have "fresh t" using 1(2)
      by (auto simp: index_batch_def Let_def fresh_def markIndexed_def split: option.splits if_splits)
    moreover have "batch_loop E now sz (drop sz files) t = Some s'" using False 1(4) t by (subst (asm) batch_loop.simps) simp
    ultimately show ?thesis using 1(1) [OF False t _ 1(3)] by blast
  qed (use 1 in \<open>simp add: batch_loop.simps [of E now sz files s]\<close>)
qed

lemma fresh_files: "fresh s \<Longrightarrow> fresh (fold (index_file E now) fs s)"
proof -
  have "fresh t \<Longrightarrow> fresh (fold (index_chunk E) cs t)" for cs t
    by (induction cs arbitrary: t) (simp_all add: index_chunk_def fresh_def split: option.split)
  then have "fresh t \<Longrightarrow> fresh (index_file E now fi t)" for fi t by (simp add: index_file_def markIndexed_def fresh_def)
  then show "fresh s \<Longrightarrow> fresh (fold (index_file E now) fs s)" by (induction fs arbitrary: s) simp_all
qed

lemma fresh_index:
  assumes "fresh s" "\<forall>ts. re_batch E ts \<noteq> None" "IndexDir E now d s = Some (s', err)"
  shows "fresh s'"
proof -
  have "fresh t \<Longrightarrow> fresh (maybeRebuildIndex (re_lib E) t)" for t by (auto simp: fresh_def maybeRebuildIndex_def)
  then show ?thesis
    using assms fresh_batches [OF assms(1,2)] fresh_files
    by (auto simp: IndexDir_def Let_def split: dir_state.splits sum.splits option.splits if_splits)
qed

text \<open>
  A store that has indexed a directory, of any size, never uses the graph and has no keyword scores:
  the empty graph of the constructor counts as present, so it is never built, and indexing does not
  fill the keyword index. Retrieval stays a linear scan, and the hybrid path ranks by scores that are
  all zero.
\<close>

theorem indexed_store_has_no_indexes:
  assumes "set opts \<subseteq> store_options" "\<forall>ts. re_batch E ts \<noteq> None" "IndexDir E now d (NewStore e t opts) = Some (s, err)"
  shows "IndexMode s \<noteq> ModeHNSW \<and> usable_index (maybeRebuildIndex (re_lib E) (attempt s)) (length (st_examples s)) = None
    \<and> (\<forall>query docID. BM25Score s query docID = Some 0)"
proof -
  have "fresh (NewStore e t opts)"
  proof -
    have "st_inverted (fold (\<lambda>f s. f s) opts s0) = st_inverted s0" for s0
      using assms(1) by (induction opts arbitrary: s0) (auto simp: store_options_def option_defs)
    then show ?thesis using options_keep [OF assms(1)] by (simp add: NewStore_def fresh_def NewHNSWIndex_def)
  qed
  from fresh_index [OF this assms(2,3)] show ?thesis
    by (auto simp: fresh_def IndexMode_def Let_def usable_index_def indexThreshold_def BM25Score_def attempt_def maybeRebuildIndex_def)
qed

definition demo_entry :: dir_entry where
  "demo_entry = \<lparr>de_walkErr = False, de_isDir = False, de_symlink = False, de_name = ''a.go'', de_resolved = Some ''/d/a.go'',
     de_content = Some ''x'', de_rel = Some (''a.go'', ''.'')\<rparr>"

definition demo_dir :: dir_state where "demo_dir = Listing ''/d'' (replicate 1000 demo_entry)"

theorem indexed_store_has_no_indexes_witness:
  "\<exists>s. IndexDir demo_env 1 demo_dir (NewStore Ollama 0.5 []) = Some (s, None) \<and>
    IndexMode s \<noteq> ModeHNSW \<and> usable_index (maybeRebuildIndex (re_lib demo_env) (attempt s)) (length (st_examples s)) = None
    \<and> (\<forall>query docID. BM25Score s query docID = Some 0)"
proof -
  have "\<exists>s. IndexDir demo_env 1 demo_dir (NewStore Ollama 0.5 []) = Some (s, None)"
    by (simp add: IndexDir_def demo_dir_def collectIndexFiles_def NewStore_def Let_def)
  then obtain s where s: "IndexDir demo_env 1 demo_dir (NewStore Ollama 0.5 []) = Some (s, None)" by blast
  have "\<forall>ts. re_batch demo_env ts \<noteq> None" by (simp add: demo_env_def)
  from indexed_store_has_no_indexes [OF _ this s] s show ?thesis by auto
qed

end
