(* ===== verification/EmbedCache.thy ===== *)
theory EmbedCache
  imports CacheSpec
begin

text \<open>
  \<open>EmbedCache\<close> of \<open>internal/rag/rag.go\<close>: the embedding cache with an expiry and with calls that share
  one load. A call is cut at its lock operations and at its channel operations, so that overlapping
  calls are sequences of sections: the lookup, the end of a load, the receive of a waiter, a waiter
  giving up. List elements are pointers and live in a heap, since the code can leave two elements of
  one key in the list; vectors are values. The wrapped embedder's answer is an argument, \<open>None\<close> an
  error.
\<close>

section \<open>State\<close>

type_synonym reply = "real list option"

record embed_entry =
  ee_key :: string
  ee_vec :: "real list"
  ee_expire :: nanos

text \<open>A channel of capacity one; nothing ever closes the \<open>done\<close> channel beside it.\<close>

record slot =
  sl_buffer :: "reply option"
  sl_closed :: bool

record embed_cache =
  ec_max :: int
  ec_ttl :: nanos
  ec_waitTimeout :: nanos
  ec_lru :: "nat list"
  ec_index :: "string \<rightharpoonup> nat"
  ec_elems :: "embed_entry list"
  ec_loading :: "string \<rightharpoonup> nat"
  ec_slots :: "slot list"
  ec_hits :: int
  ec_misses :: int
  ec_hitCount :: int

definition NewEmbedCache :: "int \<Rightarrow> nanos \<Rightarrow> nanos \<Rightarrow> embed_cache" where
  "NewEmbedCache mx ttl waitTimeout =
     \<lparr>ec_max = mx, ec_ttl = ttl, ec_waitTimeout = waitTimeout, ec_lru = [], ec_index = Map.empty, ec_elems = [],
      ec_loading = Map.empty, ec_slots = [], ec_hits = 0, ec_misses = 0, ec_hitCount = 0\<rparr>"

text \<open>\<open>container/list\<close>: an element that is not in the list is left alone.\<close>

definition list_front :: "nat \<Rightarrow> nat list \<Rightarrow> nat list" where
  "list_front el l = (if el \<in> set l then el # remove1 el l else l)"

definition passthrough :: "embed_cache \<Rightarrow> bool" where
  "passthrough c \<longleftrightarrow> ec_max c \<le> 0 \<or> ec_ttl c \<le> 0"

definition count_hit :: "int \<Rightarrow> embed_cache \<Rightarrow> embed_cache" where
  "count_hit n c = c\<lparr>ec_hits := ec_hits c + n, ec_hitCount := ec_hitCount c + n\<rparr>"

section \<open>The sections of Embed\<close>

datatype lookup_result = CacheHit "real list" | WaitFor nat | LoadInto nat

text \<open>An expired element is removed from both structures.\<close>

definition drop_entry :: "string \<Rightarrow> nat \<Rightarrow> embed_cache \<Rightarrow> embed_cache" where
  "drop_entry key el c = c\<lparr>ec_lru := remove1 el (ec_lru c), ec_index := (ec_index c)(key := None)\<rparr>"

definition start_load :: "string \<Rightarrow> embed_cache \<Rightarrow> embed_cache \<times> lookup_result" where
  "start_load key c =
     (case ec_loading c key of
        Some slot \<Rightarrow> (c, WaitFor slot)
      | None \<Rightarrow>
          (c\<lparr>ec_slots := ec_slots c @ [\<lparr>sl_buffer = None, sl_closed = False\<rparr>],
             ec_loading := (ec_loading c)(key \<mapsto> length (ec_slots c))\<rparr>, LoadInto (length (ec_slots c))))"

definition embed_lookup :: "nanos \<Rightarrow> string \<Rightarrow> embed_cache \<Rightarrow> embed_cache \<times> lookup_result" where
  "embed_lookup now key c =
     (case ec_index c key of
        Some el \<Rightarrow>
          (if now < ee_expire (ec_elems c ! el)
           then (count_hit 1 (c\<lparr>ec_lru := list_front el (ec_lru c)\<rparr>), CacheHit (ee_vec (ec_elems c ! el)))
           else start_load key (drop_entry key el c))
      | None \<Rightarrow> start_load key c)"

definition push_front :: "embed_entry \<Rightarrow> embed_cache \<Rightarrow> embed_cache" where
  "push_front ent c =
     (let el = length (ec_elems c);
          c = c\<lparr>ec_elems := ec_elems c @ [ent], ec_lru := el # ec_lru c, ec_index := (ec_index c)(ee_key ent \<mapsto> el)\<rparr>
      in if ec_max c < int (length (ec_lru c)) then
           let oldest = last (ec_lru c)
           in c\<lparr>ec_index := (ec_index c)(ee_key (ec_elems c ! oldest) := None), ec_lru := remove1 oldest (ec_lru c)\<rparr>
         else c)"

definition broadcast :: "nat \<Rightarrow> reply \<Rightarrow> embed_cache \<Rightarrow> embed_cache" where
  "broadcast slot r c = c\<lparr>ec_slots := (ec_slots c)[slot := \<lparr>sl_buffer = Some r, sl_closed = True\<rparr>]\<rparr>"

text \<open>The end of a load: \<open>now1\<close> is the instant of the second check, \<open>now2\<close> the one the expiry counts from.\<close>

definition embed_finish :: "nanos \<Rightarrow> nanos \<Rightarrow> string \<Rightarrow> nat \<Rightarrow> reply \<Rightarrow> embed_cache \<Rightarrow> embed_cache \<times> reply" where
  "embed_finish now1 now2 key slot r c =
     (let c = c\<lparr>ec_loading := (ec_loading c)(key := None)\<rparr> in
      case r of
        None \<Rightarrow> (broadcast slot None (c\<lparr>ec_misses := ec_misses c + 1\<rparr>), None)
      | Some vec \<Rightarrow>
          (let c = (case ec_index c key of
                      None \<Rightarrow> c
                    | Some el \<Rightarrow>
                        if now1 < ee_expire (ec_elems c ! el)
                        then c\<lparr>ec_lru := list_front el (ec_lru c), ec_hits := ec_hits c + 1\<rparr>
                        else drop_entry key el c);
               c = (if ec_index c key = None
                    then push_front \<lparr>ee_key = key, ee_vec = vec, ee_expire = now2 + ec_ttl c\<rparr> (c\<lparr>ec_misses := ec_misses c + 1\<rparr>)
                    else c)
           in (broadcast slot (Some vec) c, Some vec)))"

text \<open>
  The receive of a waiter, possible once there is something to receive. From a closed channel that has
  been drained Go receives the zero value, a nil vector without an error.
\<close>

definition embed_receive :: "nat \<Rightarrow> embed_cache \<Rightarrow> (embed_cache \<times> reply) option" where
  "embed_receive slot c =
     (let s = ec_slots c ! slot in
      case sl_buffer s of
        Some r \<Rightarrow>
          (let c = c\<lparr>ec_slots := (ec_slots c)[slot := s\<lparr>sl_buffer := None\<rparr>]\<rparr> in
           Some (case r of None \<Rightarrow> (c, None) | Some vec \<Rightarrow> (count_hit 1 c, Some vec)))
      | None \<Rightarrow> if sl_closed s then Some (count_hit 1 c, Some []) else None)"

text \<open>A waiter whose timer or context fires; after a timeout it calls the embedder itself.\<close>

definition embed_give_up :: "string \<Rightarrow> embed_cache \<Rightarrow> embed_cache" where
  "embed_give_up key c = c\<lparr>ec_loading := (ec_loading c)(key := None)\<rparr>"

text \<open>A call that no other call overlaps, at the instants \<open>now\<close>, \<open>now1\<close> and \<open>now2\<close>.\<close>

definition EmbedAlone :: "(string \<Rightarrow> reply) \<Rightarrow> nanos \<Rightarrow> nanos \<Rightarrow> nanos \<Rightarrow> string \<Rightarrow> embed_cache \<Rightarrow> embed_cache \<times> reply option" where
  "EmbedAlone inner now now1 now2 text c =
     (if passthrough c then (c, Some (inner text))
      else case embed_lookup now text c of
        (c, CacheHit vec) \<Rightarrow> (c, Some (Some vec))
      | (c, LoadInto slot) \<Rightarrow> (case embed_finish now1 now2 text slot (inner text) c of (c, r) \<Rightarrow> (c, Some r))
      | (c, WaitFor slot) \<Rightarrow> (case embed_receive slot c of None \<Rightarrow> (c, None) | Some (c, r) \<Rightarrow> (c, Some r)))"

section \<open>EmbedBatch\<close>

fun cached_texts :: "nanos \<Rightarrow> string list \<Rightarrow> embed_cache \<Rightarrow> embed_cache \<times> real list option list" where
  "cached_texts now [] c = (c, [])"
| "cached_texts now (t # ts) c =
     (let (c, r) = (case ec_index c t of
            Some el \<Rightarrow> if now < ee_expire (ec_elems c ! el)
                       then (c\<lparr>ec_lru := list_front el (ec_lru c)\<rparr>, Some (ee_vec (ec_elems c ! el)))
                       else (drop_entry t el c, None)
          | None \<Rightarrow> (c, None));
          (c, rs) = cached_texts now ts c
      in (c, r # rs))"

definition missing_texts :: "string list \<Rightarrow> real list option list \<Rightarrow> string list" where
  "missing_texts ts rs = map fst (filter (\<lambda>(t, r). r = None) (zip ts rs))"

text \<open>Filling the gaps; running out of vectors is the panic of an index out of range.\<close>

fun fill_texts :: "nanos \<Rightarrow> string list \<Rightarrow> real list option list \<Rightarrow> real list list \<Rightarrow> embed_cache \<Rightarrow> (embed_cache \<times> real list list) option" where
  "fill_texts now (t # ts) (Some v # rs) vs c = map_option (\<lambda>(c, out). (c, v # out)) (fill_texts now ts rs vs c)"
| "fill_texts now (t # ts) (None # rs) [] c = None"
| "fill_texts now (t # ts) (None # rs) (v # vs) c =
     map_option (\<lambda>(c, out). (c, v # out))
       (fill_texts now ts rs vs (push_front \<lparr>ee_key = t, ee_vec = v, ee_expire = now + ec_ttl c\<rparr> c))"
| "fill_texts now _ _ vs c = Some (c, [])"

datatype batch_reply = BatchVectors "real list list" | BatchFailed | BatchPanics

definition EmbedBatchCached :: "(string list \<Rightarrow> real list list option) \<Rightarrow> nanos \<Rightarrow> string list \<Rightarrow> embed_cache \<Rightarrow> embed_cache \<times> batch_reply" where
  "EmbedBatchCached batch now texts c =
     (if passthrough c then (c, case batch texts of None \<Rightarrow> BatchFailed | Some vs \<Rightarrow> BatchVectors vs)
      else
        let (c, rs) = cached_texts now texts c; uncached = missing_texts texts rs in
        if uncached = [] then (count_hit (int (length texts)) c, BatchVectors (map the rs))
        else case batch uncached of
          None \<Rightarrow> (c\<lparr>ec_misses := ec_misses c + int (length uncached)\<rparr>, BatchFailed)
        | Some vs \<Rightarrow>
            (case fill_texts now texts rs vs c of
               None \<Rightarrow> (c, BatchPanics)
             | Some (c, out) \<Rightarrow> (c\<lparr>ec_misses := ec_misses c + int (length uncached)\<rparr>, BatchVectors out)))"

definition EmbedCacheStats :: "embed_cache \<Rightarrow> int \<times> int" where "EmbedCacheStats c = (ec_hits c, ec_misses c)"
definition HitCount :: "embed_cache \<Rightarrow> int" where "HitCount c = ec_hitCount c"

section \<open>Waiters\<close>

fun receive_all :: "nat \<Rightarrow> nat \<Rightarrow> embed_cache \<Rightarrow> (embed_cache \<times> reply list) option" where
  "receive_all 0 slot c = Some (c, [])"
| "receive_all (Suc n) slot c =
     (case embed_receive slot c of
        None \<Rightarrow> None
      | Some (c, r) \<Rightarrow> map_option (\<lambda>(c, rs). (c, r # rs)) (receive_all n slot c))"

lemma push_front_fields [simp]:
  "ec_slots (push_front e c) = ec_slots c" "ec_max (push_front e c) = ec_max c" "ec_ttl (push_front e c) = ec_ttl c"
  "ec_loading (push_front e c) = ec_loading c" "ec_hits (push_front e c) = ec_hits c"
  "ec_elems (push_front e c) = ec_elems c @ [e]"
  by (simp_all add: push_front_def Let_def)

lemma drained_receive:
  "slot < length (ec_slots c) \<Longrightarrow> ec_slots c ! slot = \<lparr>sl_buffer = None, sl_closed = True\<rparr> \<Longrightarrow>
   receive_all n slot c = Some (count_hit (int n) c, replicate n (Some []))"
proof (induction n arbitrary: c)
  case (Suc n)
  have "embed_receive slot c = Some (count_hit 1 c, Some [])" using Suc.prems by (simp add: embed_receive_def)
  moreover have "count_hit (int n) (count_hit 1 c) = count_hit (int (Suc n)) c" by (simp add: count_hit_def algebra_simps)
  ultimately show ?case using Suc.IH [of "count_hit 1 c"] Suc.prems by (simp add: count_hit_def)
qed (simp add: count_hit_def)

lemma embed_finish_slots:
  "ec_slots (fst (embed_finish now1 now2 key slot r c)) = (ec_slots c)[slot := \<lparr>sl_buffer = Some r, sl_closed = True\<rparr>]"
  by (auto simp: embed_finish_def broadcast_def Let_def drop_entry_def split: option.split)

text \<open>
  C30: Calls that share one load do not share its result. However many callers wait for a load, the
  first to receive gets the outcome; every other one gets an empty vector, no error, and a counted hit,
  also when the load failed.
\<close>

theorem embed_waiters_get_nothing:
  assumes "slot < length (ec_slots c)" "embed_finish now1 now2 key slot r c = (c', r')"
  shows "\<exists>c''. receive_all (Suc n) slot c' = Some (c'', r # replicate n (Some []))
    \<and> ec_hits c'' = ec_hits c' + int n + (if r = None then 0 else 1)"
proof -
  have s: "ec_slots c' = (ec_slots c)[slot := \<lparr>sl_buffer = Some r, sl_closed = True\<rparr>]"
    using embed_finish_slots [of now1 now2 key slot r c] assms(2) by simp
  define d where "d = c'\<lparr>ec_slots := (ec_slots c')[slot := \<lparr>sl_buffer = None, sl_closed = True\<rparr>]\<rparr>"
  have one: "embed_receive slot c' = Some (case r of None \<Rightarrow> (d, None) | Some vec \<Rightarrow> (count_hit 1 d, Some vec))"
    using assms(1) by (simp add: embed_receive_def s d_def Let_def split: option.split)
  have d: "slot < length (ec_slots d)" "ec_slots d ! slot = \<lparr>sl_buffer = None, sl_closed = True\<rparr>"
    "ec_hits d = ec_hits c'" "ec_slots (count_hit 1 d) = ec_slots d" "ec_hits (count_hit 1 d) = ec_hits c' + 1"
    using assms(1) by (simp_all add: d_def s count_hit_def)
  show ?thesis
  proof (cases r)
    case None
    then show ?thesis using one drained_receive [of slot d n] d by (simp add: count_hit_def)
  next
    case (Some v)
    then show ?thesis using one drained_receive [of slot "count_hit 1 d" n] d by (simp add: count_hit_def)
  qed
qed

theorem embed_waiters_get_nothing_witness:
  "(let (c, l) = embed_lookup 0 ''p'' (NewEmbedCache 8 100 0);
        (c', r') = embed_finish 1 1 ''p'' 0 (Some [1, 2]) c
    in l = LoadInto 0 \<and> snd (embed_lookup 0 ''p'' c) = WaitFor 0 \<and>
       (\<exists>c''. receive_all 3 0 c' = Some (c'', [Some [1, 2], Some [], Some []]) \<and> ec_hits c'' = ec_hits c' + int 2 + 1))"
proof -
  let ?c = "fst (embed_lookup 0 ''p'' (NewEmbedCache 8 100 0))"
  obtain c' r' where f: "embed_finish 1 1 ''p'' 0 (Some [1, 2]) ?c = (c', r')" by fastforce
  have "0 < length (ec_slots ?c)" by (simp add: embed_lookup_def NewEmbedCache_def start_load_def)
  from embed_waiters_get_nothing [OF this f, of 2] f show ?thesis
    by (simp add: embed_lookup_def NewEmbedCache_def start_load_def numeral_2_eq_2 numeral_3_eq_3)
qed

section \<open>Calls that do not overlap\<close>

text \<open>No load is under way between them, and what the index points at came from the embedder.\<close>

definition genuine :: "(string \<Rightarrow> reply) \<Rightarrow> embed_cache \<Rightarrow> bool" where
  "genuine inner c \<longleftrightarrow> ec_loading c = Map.empty \<and>
     (\<forall>k el. ec_index c k = Some el \<longrightarrow> el < length (ec_elems c) \<and> inner k = Some (ee_vec (ec_elems c ! el)))"

definition capped :: "embed_cache \<Rightarrow> bool" where
  "capped c \<longleftrightarrow> (0 < ec_max c \<longrightarrow> int (length (ec_lru c)) \<le> ec_max c)"

definition cache_ok :: "(string \<Rightarrow> reply) \<Rightarrow> embed_cache \<Rightarrow> bool" where
  "cache_ok inner c \<longleftrightarrow> genuine inner c \<and> capped c"

lemma cache_ok_new: "cache_ok inner (NewEmbedCache mx ttl w)"
  by (simp add: cache_ok_def genuine_def capped_def NewEmbedCache_def)

lemma length_list_front [simp]: "length (list_front el l) = length l"
  by (simp add: list_front_def length_remove1) (metis Suc_pred length_pos_if_in_set)

lemma cache_ok_cong:
  assumes "cache_ok inner c" "ec_index c' = ec_index c" "ec_elems c' = ec_elems c" "ec_loading c' = ec_loading c"
    "length (ec_lru c') = length (ec_lru c)" "ec_max c' = ec_max c"
  shows "cache_ok inner c'"
  using assms by (simp add: cache_ok_def genuine_def capped_def)

lemma cache_ok_drop: "cache_ok inner c \<Longrightarrow> cache_ok inner (drop_entry key el c)"
  by (auto simp: cache_ok_def genuine_def capped_def drop_entry_def length_remove1)

lemma cache_ok_push:
  assumes "cache_ok inner c" "inner (ee_key e) = Some (ee_vec e)"
  shows "cache_ok inner (push_front e c)"
proof -
  have g: "genuine inner (push_front e c)"
    using assms by (auto simp: cache_ok_def genuine_def push_front_def Let_def nth_append less_Suc_eq split: if_splits)
  have "capped (push_front e c)"
    using assms(1) by (auto simp: cache_ok_def capped_def push_front_def Let_def length_remove1 split: if_splits)
  with g show ?thesis by (simp add: cache_ok_def)
qed

lemma EmbedAlone_ok:
  assumes "cache_ok inner c"
  shows "snd (EmbedAlone inner now now1 now2 txt c) = Some (inner txt) \<and> cache_ok inner (fst (EmbedAlone inner now now1 now2 txt c))"
proof (cases "passthrough c")
  case False
  have miss: "snd (EmbedAlone inner now now1 now2 txt c) = Some (inner txt) \<and> cache_ok inner (fst (EmbedAlone inner now now1 now2 txt c))"
    if l: "embed_lookup now txt c = start_load txt d" and d: "cache_ok inner d" "ec_index d txt = None" for d
  proof -
    let ?s = "length (ec_slots d)"
    have n: "ec_loading d = Map.empty" using d by (simp add: cache_ok_def genuine_def)
    then obtain e where e: "start_load txt d = (e, LoadInto ?s)" "ec_index e = ec_index d" "ec_elems e = ec_elems d"
      "ec_lru e = ec_lru d" "ec_max e = ec_max d" "ec_loading e = [txt \<mapsto> ?s]" "ec_ttl e = ec_ttl d"
      by (simp add: start_load_def)
    define e0 where "e0 = e\<lparr>ec_loading := (ec_loading e)(txt := None)\<rparr>"
    have e0: "cache_ok inner e0" "ec_index e0 txt = None"
    proof -
      show "cache_ok inner e0" by (rule cache_ok_cong [OF d(1)]) (simp_all add: e0_def e n)
      show "ec_index e0 txt = None" using d(2) by (simp add: e0_def e)
    qed
    have b: "cache_ok inner (broadcast s r x) = cache_ok inner x" "cache_ok inner (x\<lparr>ec_misses := m\<rparr>) = cache_ok inner x" for s r x m
      by (simp_all add: broadcast_def cache_ok_def genuine_def capped_def)
    have "snd (embed_finish now1 now2 txt ?s (inner txt) e) = inner txt \<and> cache_ok inner (fst (embed_finish now1 now2 txt ?s (inner txt) e))"
    proof (cases "inner txt")
      case None
      then show ?thesis using e0(1) by (simp add: embed_finish_def Let_def b flip: e0_def)
    next
      case (Some v)
      have "cache_ok inner (push_front \<lparr>ee_key = txt, ee_vec = v, ee_expire = now2 + ec_ttl e0\<rparr> (e0\<lparr>ec_misses := ec_misses e0 + 1\<rparr>))"
        using e0 Some by (intro cache_ok_push) (simp_all add: b)
      then show ?thesis using Some e0(2) by (simp add: embed_finish_def Let_def b flip: e0_def)
    qed
    then show ?thesis using False l e(1)
      by (cases "embed_finish now1 now2 txt ?s (inner txt) e") (simp add: EmbedAlone_def)
  qed
  show ?thesis
  proof (cases "ec_index c txt")
    case None
    then show ?thesis using assms by (intro miss [of c]) (simp_all add: embed_lookup_def)
  next
    case (Some el)
    show ?thesis
    proof (cases "now < ee_expire (ec_elems c ! el)")
      case True
      have "cache_ok inner (count_hit 1 (c\<lparr>ec_lru := list_front el (ec_lru c)\<rparr>))"
        by (rule cache_ok_cong [OF assms]) (simp_all add: count_hit_def)
      then show ?thesis using False Some True assms by (simp add: EmbedAlone_def embed_lookup_def cache_ok_def genuine_def)
    next
      case False
      then show ?thesis using Some assms
        by (intro miss [of "drop_entry txt el c"]) (simp_all add: embed_lookup_def cache_ok_drop, simp add: drop_entry_def)
    qed
  qed
qed (use assms in \<open>simp add: EmbedAlone_def\<close>)

lemma cached_texts_ok:
  "cache_ok inner c \<Longrightarrow> cache_ok inner (fst (cached_texts now ts c)) \<and> length (snd (cached_texts now ts c)) = length ts
    \<and> list_all2 (\<lambda>t r. case r of None \<Rightarrow> True | Some v \<Rightarrow> inner t = Some v) ts (snd (cached_texts now ts c))"
proof (induction ts arbitrary: c)
  case (Cons t ts)
  obtain d r where d: "(case ec_index c t of
            Some el \<Rightarrow> if now < ee_expire (ec_elems c ! el)
                       then (c\<lparr>ec_lru := list_front el (ec_lru c)\<rparr>, Some (ee_vec (ec_elems c ! el)))
                       else (drop_entry t el c, None)
          | None \<Rightarrow> (c, None)) = (d, r)" by fastforce
  have f: "cache_ok inner (c\<lparr>ec_lru := list_front el (ec_lru c)\<rparr>)" for el
    by (rule cache_ok_cong [OF Cons.prems]) simp_all
  have "cache_ok inner d" using d Cons.prems f by (auto simp: cache_ok_drop split: option.splits if_splits)
  moreover have "case r of None \<Rightarrow> True | Some v \<Rightarrow> inner t = Some v"
    using d Cons.prems by (auto simp: cache_ok_def genuine_def split: option.splits if_splits)
  ultimately show ?case using Cons.IH [of d] d by (cases "cached_texts now ts d") (simp add: Let_def)
qed simp

lemma fill_texts_ok:
  assumes "cache_ok inner c" "list_all2 (\<lambda>t r. case r of None \<Rightarrow> True | Some v \<Rightarrow> inner t = Some v) ts rs"
    and "map Some vs = map inner (missing_texts ts rs)"
  shows "\<exists>c' out. fill_texts now ts rs vs c = Some (c', out) \<and> cache_ok inner c' \<and> map Some out = map inner ts"
  using assms
proof (induction now ts rs vs c rule: fill_texts.induct)
  case (1 now t ts v rs vs c)
  then have "\<exists>c' out. fill_texts now ts rs vs c = Some (c', out) \<and> cache_ok inner c' \<and> map Some out = map inner ts"
    by (intro 1(1)) (simp_all add: missing_texts_def)
  with 1 show ?case by force
next
  case (3 now t ts rs v vs c)
  have t: "inner t = Some v" "map Some vs = map inner (missing_texts ts rs)" using 3(4) by (simp_all add: missing_texts_def)
  have "cache_ok inner (push_front \<lparr>ee_key = t, ee_vec = v, ee_expire = now + ec_ttl c\<rparr> c)"
    using 3(2) t by (intro cache_ok_push) simp_all
  then have "\<exists>c' out. fill_texts now ts rs vs (push_front \<lparr>ee_key = t, ee_vec = v, ee_expire = now + ec_ttl c\<rparr> c) = Some (c', out)
      \<and> cache_ok inner c' \<and> map Some out = map inner ts"
    using 3(3) t by (intro 3(1)) simp_all
  with t show ?case by force
qed (simp_all add: missing_texts_def)

text \<open>A batch embedder that answers every text as the single call does, and fails when one of them fails.\<close>

definition batch_of :: "(string \<Rightarrow> reply) \<Rightarrow> string list \<Rightarrow> real list list option" where
  "batch_of inner ts = (if list_ex (\<lambda>t. inner t = None) ts then None else Some (map (\<lambda>t. the (inner t)) ts))"

lemma batch_of_Some: "batch_of inner ts = Some vs \<Longrightarrow> map Some vs = map inner ts"
  by (auto simp: batch_of_def list_ex_iff split: if_splits)

lemma missing_none:
  "list_all2 (\<lambda>t r. case r of None \<Rightarrow> True | Some v \<Rightarrow> inner t = Some v) ts rs \<Longrightarrow> missing_texts ts rs = [] \<Longrightarrow>
   map Some (map the rs) = map inner ts"
  by (induction rule: list_all2_induct) (auto simp: missing_texts_def split: option.splits)

lemma missing_set: "set (missing_texts ts rs) \<subseteq> set ts"
  by (auto simp: missing_texts_def dest: set_zip_leftD)

lemma EmbedBatchCached_ok:
  assumes "cache_ok inner c"
  shows "cache_ok inner (fst (EmbedBatchCached (batch_of inner) now ts c)) \<and>
    (case snd (EmbedBatchCached (batch_of inner) now ts c) of
       BatchVectors out \<Rightarrow> map Some out = map inner ts | BatchFailed \<Rightarrow> \<exists>t\<in>set ts. inner t = None | BatchPanics \<Rightarrow> False)"
proof (cases "passthrough c")
  case True
  then show ?thesis using assms batch_of_Some by (auto simp: EmbedBatchCached_def batch_of_def list_ex_iff split: option.split)
next
  case False
  obtain d rs where d: "cached_texts now ts c = (d, rs)" by fastforce
  have ok: "cache_ok inner d" "list_all2 (\<lambda>t r. case r of None \<Rightarrow> True | Some v \<Rightarrow> inner t = Some v) ts rs"
    using cached_texts_ok [OF assms, of now ts] d by simp_all
  have cnt: "cache_ok inner (count_hit n x) = cache_ok inner x" "cache_ok inner (x\<lparr>ec_misses := m\<rparr>) = cache_ok inner x" for n m x
    by (simp_all add: count_hit_def cache_ok_def genuine_def capped_def)
  show ?thesis
  proof (cases "missing_texts ts rs = []")
    case True
    then show ?thesis using False d ok cnt missing_none [OF ok(2)] by (simp add: EmbedBatchCached_def)
  next
    case miss: False
    show ?thesis
    proof (cases "batch_of inner (missing_texts ts rs)")
      case None
      then have "\<exists>t\<in>set ts. inner t = None"
        using missing_set [of ts rs] by (auto simp: batch_of_def list_ex_iff split: if_splits)
      with None show ?thesis using False d ok cnt miss by (simp add: EmbedBatchCached_def Let_def)
    next
      case (Some vs)
      from fill_texts_ok [OF ok batch_of_Some [OF Some]] obtain c' out where
        "fill_texts now ts rs vs d = Some (c', out)" "cache_ok inner c'" "map Some out = map inner ts" by blast
      with Some show ?thesis using False d cnt miss by (simp add: EmbedBatchCached_def Let_def)
    qed
  qed
qed

datatype embed_op = Single nanos nanos nanos string | Batch nanos "string list"

text \<open>Each call in turn: its texts and, for each text, the answer or the failure.\<close>

fun embed_ops :: "(string \<Rightarrow> reply) \<Rightarrow> embed_op list \<Rightarrow> embed_cache \<Rightarrow> embed_cache \<times> reply list option list" where
  "embed_ops inner [] c = (c, [])"
| "embed_ops inner (Single now now1 now2 t # ops) c =
     (let (c, r) = EmbedAlone inner now now1 now2 t c; (c, rs) = embed_ops inner ops c in (c, map_option (\<lambda>r. [r]) r # rs))"
| "embed_ops inner (Batch now ts # ops) c =
     (let (c, r) = EmbedBatchCached (batch_of inner) now ts c; (c, rs) = embed_ops inner ops c
      in (c, (case r of BatchVectors out \<Rightarrow> Some (map Some out) | BatchFailed \<Rightarrow> Some [None] | BatchPanics \<Rightarrow> None) # rs))"

fun plain_answer :: "(string \<Rightarrow> reply) \<Rightarrow> embed_op \<Rightarrow> reply list option \<Rightarrow> bool" where
  "plain_answer inner (Single now now1 now2 t) r = (r = Some [inner t])"
| "plain_answer inner (Batch now ts) r = (r = Some (map inner ts) \<or> (r = Some [None] \<and> list_ex (\<lambda>t. inner t = None) ts))"

text \<open>
  Without overlap the cache is invisible and bounded: for every capacity and expiry, any sequence
  of single and batch calls at any instants, texts repeated within a batch included, answers exactly as
  the embedder behind it; no call blocks or panics; and the list never holds more than the capacity.
\<close>

theorem embed_cache_sequential:
  "list_all2 (plain_answer inner) ops (snd (embed_ops inner ops (NewEmbedCache mx ttl w)))
   \<and> capped (fst (embed_ops inner ops (NewEmbedCache mx ttl w)))"
proof -
  have "list_all2 (plain_answer inner) ops (snd (embed_ops inner ops c)) \<and> cache_ok inner (fst (embed_ops inner ops c))"
    if "cache_ok inner c" for c
    using that
  proof (induction ops arbitrary: c)
    case (Cons op ops)
    show ?case
    proof (cases op)
      case (Single now now1 now2 t)
      obtain d r where d: "EmbedAlone inner now now1 now2 t c = (d, r)" by fastforce
      obtain e rs where "embed_ops inner ops d = (e, rs)" by fastforce
      then show ?thesis using Single d EmbedAlone_ok [OF Cons.prems, of now now1 now2 t] Cons.IH [of d] by simp
    next
      case (Batch now ts)
      obtain d r where d: "EmbedBatchCached (batch_of inner) now ts c = (d, r)" by fastforce
      obtain e rs where "embed_ops inner ops d = (e, rs)" by fastforce
      then show ?thesis using Batch d EmbedBatchCached_ok [OF Cons.prems, of now ts] Cons.IH [of d]
        by (auto simp: list_ex_iff split: batch_reply.splits)
    qed
  qed simp
  from this [OF cache_ok_new] show ?thesis by (simp add: cache_ok_def)
qed

end
