(* ===== verification/Redact.thy ===== *)
theory Redact
  imports GoStrings
begin

text \<open>
  \<open>internal/handlers/redact.go\<close>: the writer that replaces secrets in a response before it reaches the
  client. A regular expression is a parameter: it cuts a text into pieces, matched or not, which
  together are the text; what \<open>FindAllString\<close> and \<open>ReplaceAllString\<close> answer is read off the cut.
\<close>

section \<open>Patterns\<close>

type_synonym regex = "string \<Rightarrow> (bool \<times> string) list"

record compiledPattern =
  cp_re :: regex
  cp_luhn :: bool

definition regex_ok :: "regex \<Rightarrow> bool" where
  "regex_ok re \<longleftrightarrow> (\<forall>s. concat (map snd (re s)) = s)"

definition RedactedPlaceholder :: string where "RedactedPlaceholder = ''[REDACTED]''"
definition DefaultRedactBufferBytes :: int where "DefaultRedactBufferBytes = 4 * 1024"
definition pemBeginMarker :: string where "pemBeginMarker = ''-----BEGIN''"
definition pemEndMarker :: string where "pemEndMarker = ''-----END''"

definition RedactProfileSecrets :: string where "RedactProfileSecrets = ''secrets''"
definition RedactProfilePII :: string where "RedactProfilePII = ''pii''"
definition RedactProfileCustom :: string where "RedactProfileCustom = ''custom''"

text \<open>The built-in expressions: those for secrets, then card numbers, social security numbers and e-mail addresses.\<close>

record builtin_res =
  br_secrets :: "regex list"
  br_card :: regex
  br_ssn :: regex
  br_email :: regex

definition secretsPatterns :: "builtin_res \<Rightarrow> compiledPattern list" where
  "secretsPatterns B = map (\<lambda>re. \<lparr>cp_re = re, cp_luhn = False\<rparr>) (br_secrets B)"

definition piiPatterns :: "builtin_res \<Rightarrow> compiledPattern list" where
  "piiPatterns B = [\<lparr>cp_re = br_card B, cp_luhn = True\<rparr>, \<lparr>cp_re = br_ssn B, cp_luhn = False\<rparr>, \<lparr>cp_re = br_email B, cp_luhn = False\<rparr>]"

definition PatternsForProfile :: "builtin_res \<Rightarrow> string \<Rightarrow> regex list \<Rightarrow> compiledPattern list" where
  "PatternsForProfile B profile custom =
     (if profile = RedactProfileSecrets then secretsPatterns B
      else if profile = RedactProfilePII then piiPatterns B
      else if profile = RedactProfileCustom then map (\<lambda>re. \<lparr>cp_re = re, cp_luhn = False\<rparr>) custom
      else [])"

definition RedactionEnabled :: "bool \<Rightarrow> string \<Rightarrow> bool" where
  "RedactionEnabled enabled profile \<longleftrightarrow>
     (if \<not> enabled then False else profile \<in> {RedactProfileSecrets, RedactProfilePII, RedactProfileCustom})"

text \<open>\<open>compile\<close> is \<open>regexp.Compile\<close>; the error names the entry.\<close>

fun compile_parts :: "(string \<Rightarrow> regex option) \<Rightarrow> string list \<Rightarrow> string + regex list" where
  "compile_parts compile [] = Inr []"
| "compile_parts compile (p # ps) =
     (let p = TrimSpace p in
      if p = [] then compile_parts compile ps
      else case compile p of
        None \<Rightarrow> Inl p
      | Some re \<Rightarrow> (case compile_parts compile ps of Inl e \<Rightarrow> Inl e | Inr res \<Rightarrow> Inr (re # res)))"

definition compileCustomPatterns :: "(string \<Rightarrow> regex option) \<Rightarrow> string \<Rightarrow> string + regex list" where
  "compileCustomPatterns compile raw = (if raw = [] then Inr [] else compile_parts compile (SplitOn (CHR '','') raw))"

section \<open>The checksum of card numbers\<close>

definition digits_of :: "string \<Rightarrow> nat list" where
  "digits_of s = map (\<lambda>c. of_char c - 48) (filter is_digit s)"

text \<open>From the last digit backwards; \<open>alt\<close> tells whether the digit is doubled.\<close>

fun luhn_loop :: "bool \<Rightarrow> nat list \<Rightarrow> nat \<Rightarrow> nat" where
  "luhn_loop alt [] acc = acc"
| "luhn_loop alt (d # ds) acc =
     (let d = (if alt then (if 9 < d * 2 then d * 2 - 9 else d * 2) else d) in luhn_loop (\<not> alt) ds (acc + d))"

definition luhnValid :: "string \<Rightarrow> bool" where
  "luhnValid s =
     (let digits = digits_of s in
      if length digits < 13 \<or> 19 < length digits then False
      else luhn_loop False (rev digits) 0 mod 10 = 0)"

section \<open>The writer\<close>

datatype inner = InnerWrite string | InnerFlush

record redactor =
  rd_patterns :: "compiledPattern list"
  rd_buf :: string
  rd_max :: int
  rd_subs :: int
  rd_flusher :: bool
  rd_out :: "inner list"

definition NewResponseRedactor :: "bool \<Rightarrow> compiledPattern list \<Rightarrow> int \<Rightarrow> redactor" where
  "NewResponseRedactor flusher patterns bufferBytes =
     \<lparr>rd_patterns = patterns, rd_buf = [], rd_max = (if bufferBytes \<le> 0 then DefaultRedactBufferBytes else bufferBytes),
      rd_subs = 0, rd_flusher = flusher, rd_out = []\<rparr>"

text \<open>A matched piece is replaced, except that a card number has to pass the checksum.\<close>

definition replaced :: "compiledPattern \<Rightarrow> bool \<times> string \<Rightarrow> bool" where
  "replaced cp x \<longleftrightarrow> fst x \<and> (cp_luhn cp \<longrightarrow> luhnValid (snd x))"

definition apply_pattern :: "compiledPattern \<Rightarrow> string \<times> int \<Rightarrow> string \<times> int" where
  "apply_pattern cp ts =
     (let pieces = cp_re cp (fst ts) in
      (concat (map (\<lambda>x. if replaced cp x then RedactedPlaceholder else snd x) pieces),
       snd ts + int (length (filter (replaced cp) pieces))))"

definition inner_flush :: "redactor \<Rightarrow> redactor" where
  "inner_flush r = (if rd_flusher r then r\<lparr>rd_out := rd_out r @ [InnerFlush]\<rparr> else r)"

definition drain :: "redactor \<Rightarrow> redactor" where
  "drain r =
     (if rd_buf r = [] then inner_flush r
      else case fold apply_pattern (rd_patterns r) (rd_buf r, rd_subs r) of
        (result, subs) \<Rightarrow> inner_flush (r\<lparr>rd_buf := [], rd_subs := subs, rd_out := rd_out r @ [InnerWrite result]\<rparr>))"

definition RedactWrite :: "string \<Rightarrow> redactor \<Rightarrow> redactor \<times> int" where
  "RedactWrite b r =
     (let r = r\<lparr>rd_buf := rd_buf r @ b\<rparr> in
      (if rd_max r \<le> int (length (rd_buf r)) then drain r else r, int (length b)))"

definition holdingForMultiline :: "redactor \<Rightarrow> bool" where
  "holdingForMultiline r =
     (if rd_buf r = [] \<or> rd_max r \<le> int (length (rd_buf r)) then False
      else Contains (rd_buf r) pemBeginMarker \<and> \<not> Contains (rd_buf r) pemEndMarker)"

definition RedactFlush :: "redactor \<Rightarrow> redactor" where
  "RedactFlush r = (if holdingForMultiline r then r else drain r)"

definition Substitutions :: "redactor \<Rightarrow> int" where "Substitutions r = rd_subs r"

section \<open>What reaches the client\<close>

datatype write_op = WriteBytes string | FlushNow

fun redact_ops :: "write_op list \<Rightarrow> redactor \<Rightarrow> redactor" where
  "redact_ops [] r = r"
| "redact_ops (WriteBytes b # ops) r = redact_ops ops (fst (RedactWrite b r))"
| "redact_ops (FlushNow # ops) r = redact_ops ops (RedactFlush r)"

fun written :: "write_op list \<Rightarrow> string" where
  "written [] = []"
| "written (WriteBytes b # ops) = b @ written ops"
| "written (FlushNow # ops) = written ops"

fun sent :: "inner list \<Rightarrow> string" where
  "sent [] = []"
| "sent (InnerWrite s # xs) = s @ sent xs"
| "sent (InnerFlush # xs) = sent xs"

definition redacted :: "compiledPattern list \<Rightarrow> string \<Rightarrow> string" where
  "redacted ps s = fst (fold apply_pattern ps (s, 0))"

text \<open>A segment is complete, or could not be held: it ends at a write that filled the buffer or at a
  flush, and a flush only when no key block is open.\<close>

definition segment_ok :: "int \<Rightarrow> string \<Rightarrow> bool" where
  "segment_ok mx s \<longleftrightarrow> s \<noteq> [] \<and> (mx \<le> int (length s) \<or> \<not> (Contains s pemBeginMarker \<and> \<not> Contains s pemEndMarker))"

lemma sent_append [simp]: "sent (xs @ ys) = sent xs @ sent ys"
  by (induction xs rule: sent.induct) simp_all

lemma fold_pattern_text: "fst (fold apply_pattern ps (s, n)) = fst (fold apply_pattern ps (s, m))"
  by (induction ps arbitrary: s n m) (simp_all add: apply_pattern_def Let_def)

lemma drain_facts:
  "sent (rd_out (drain r)) = sent (rd_out r) @ (if rd_buf r = [] then [] else redacted (rd_patterns r) (rd_buf r))
   \<and> rd_buf (drain r) = [] \<and> rd_max (drain r) = rd_max r \<and> rd_patterns (drain r) = rd_patterns r"
proof -
  obtain t n where f: "fold apply_pattern (rd_patterns r) (rd_buf r, rd_subs r) = (t, n)" by fastforce
  then have "t = redacted (rd_patterns r) (rd_buf r)"
    unfolding redacted_def using fold_pattern_text [of "rd_patterns r" "rd_buf r" "rd_subs r" 0] by simp
  then show ?thesis by (simp add: drain_def f inner_flush_def)
qed

lemma redact_ops_split:
  "\<exists>segs. rd_buf r @ written ops = concat segs @ rd_buf (redact_ops ops r)
     \<and> sent (rd_out (redact_ops ops r)) = sent (rd_out r) @ concat (map (redacted (rd_patterns r)) segs)
     \<and> list_all (segment_ok (rd_max r)) segs"
proof (induction ops arbitrary: r)
  case Nil
  show ?case by (intro exI [of _ "[]"]) simp
next
  case (Cons op ops)
  have drained: "\<exists>segs. rd_buf r' @ written ops = concat segs @ rd_buf (redact_ops ops (drain r'))
     \<and> sent (rd_out (redact_ops ops (drain r'))) = sent (rd_out r') @ concat (map (redacted (rd_patterns r')) segs)
     \<and> list_all (segment_ok (rd_max r')) segs"
    if "rd_buf r' = [] \<or> segment_ok (rd_max r') (rd_buf r')" for r'
  proof -
    from Cons.IH [of "drain r'"] drain_facts [of r'] obtain segs where i: "written ops = concat segs @ rd_buf (redact_ops ops (drain r'))"
      "sent (rd_out (redact_ops ops (drain r'))) = sent (rd_out r') @ (if rd_buf r' = [] then [] else redacted (rd_patterns r') (rd_buf r'))
         @ concat (map (redacted (rd_patterns r')) segs)" "list_all (segment_ok (rd_max r')) segs"
      by auto
    show ?thesis using i that by (intro exI [of _ "if rd_buf r' = [] then segs else rd_buf r' # segs"]) auto
  qed
  show ?case
  proof (cases op)
    case (WriteBytes b)
    let ?r = "r\<lparr>rd_buf := rd_buf r @ b\<rparr>"
    show ?thesis
    proof (cases "rd_max r \<le> int (length (rd_buf r @ b))")
      case True
      then have "rd_buf ?r = [] \<or> segment_ok (rd_max ?r) (rd_buf ?r)" by (auto simp: segment_ok_def)
      from drained [OF this] True WriteBytes show ?thesis by (simp add: RedactWrite_def Let_def)
    next
      case False
      then show ?thesis using Cons.IH [of ?r] WriteBytes by (simp add: RedactWrite_def Let_def)
    qed
  next
    case FlushNow
    show ?thesis
    proof (cases "holdingForMultiline r")
      case True
      then show ?thesis using Cons.IH [of r] FlushNow by (simp add: RedactFlush_def)
    next
      case False
      then have "rd_buf r = [] \<or> segment_ok (rd_max r) (rd_buf r)" by (auto simp: holdingForMultiline_def segment_ok_def split: if_splits)
      from drained [OF this] False FlushNow show ?thesis by (simp add: RedactFlush_def)
    qed
  qed
qed


lemma short_writes:
  assumes "list_all (\<lambda>op. op \<noteq> FlushNow) ops" "int (length (rd_buf r) + length (written ops)) < rd_max r"
  shows "rd_out (redact_ops ops r) = rd_out r \<and> rd_buf (redact_ops ops r) = rd_buf r @ written ops"
  using assms
proof (induction ops arbitrary: r)
  case (Cons op ops)
  then obtain b where op: "op = WriteBytes b" by (cases op) auto
  let ?r = "r\<lparr>rd_buf := rd_buf r @ b\<rparr>"
  have "fst (RedactWrite b r) = ?r" using Cons.prems op by (simp add: RedactWrite_def Let_def)
  then show ?case using Cons.IH [of ?r] Cons.prems op by simp
qed simp

text \<open>
  A response that is written without a flush, as the buffered fetch writes it, and stays below the
  buffer size, 4096 bytes by default, does not reach the client at all, while every write reports its
  full length.
\<close>

theorem short_response_lost:
  assumes "list_all (\<lambda>op. op \<noteq> FlushNow) ops" "length (written ops) < 4096"
  shows "rd_out (redact_ops ops (NewResponseRedactor fl ps 0)) = []
    \<and> rd_buf (redact_ops ops (NewResponseRedactor fl ps 0)) = written ops
    \<and> snd (RedactWrite b r) = int (length b)"
  using short_writes [OF assms(1), of "NewResponseRedactor fl ps 0"] assms(2)
  by (simp add: NewResponseRedactor_def DefaultRedactBufferBytes_def RedactWrite_def Let_def)

theorem short_response_lost_witness:
  "rd_out (redact_ops [WriteBytes ''{}''] (NewResponseRedactor True [] 0)) = []
    \<and> rd_buf (redact_ops [WriteBytes ''{}''] (NewResponseRedactor True [] 0)) = written [WriteBytes ''{}'']
    \<and> snd (RedactWrite ''{}'' (NewResponseRedactor True [] 0)) = int (length ''{}'')"
  by (rule short_response_lost) simp_all

section \<open>The checksum\<close>

text \<open>The reference: the digit at place \<open>i\<close> from the right, from 0, counts once if \<open>i\<close> is even, and the digit
  sum of its double if it is odd.\<close>

definition digit_sum :: "nat \<Rightarrow> nat" where "digit_sum n = n div 10 + n mod 10"

definition luhn_sum :: "nat list \<Rightarrow> nat" where
  "luhn_sum ds = (\<Sum>i<length ds. let d = ds ! (length ds - 1 - i) in if even i then d else digit_sum (2 * d))"

definition weight :: "nat \<Rightarrow> nat \<Rightarrow> nat" where
  "weight i d = (if even i then d else digit_sum (2 * d))"

lemma luhn_loop_sum:
  "\<forall>d\<in>set ds. d < 10 \<Longrightarrow> luhn_loop alt ds t = t + (\<Sum>i<length ds. weight (if alt then Suc i else i) (ds ! i))"
proof (induction ds arbitrary: alt t)
  case (Cons d ds)
  have d: "(if alt then (if 9 < d * 2 then d * 2 - 9 else d * 2) else d) = weight (if alt then 1 else 0) d"
  proof -
    have "d < 10" using Cons.prems by simp
    then have "d = 0 \<or> d = 1 \<or> d = 2 \<or> d = 3 \<or> d = 4 \<or> d = 5 \<or> d = 6 \<or> d = 7 \<or> d = 8 \<or> d = 9" by auto
    then show ?thesis by (auto simp: weight_def digit_sum_def)
  qed
  have s: "(\<Sum>i<length (d # ds). weight (if alt then Suc i else i) ((d # ds) ! i))
      = weight (if alt then 1 else 0) d + (\<Sum>i<length ds. weight (if \<not> alt then Suc i else i) (ds ! i))"
    by (simp add: lessThan_Suc_eq_insert_0 sum.reindex del: sum.lessThan_Suc) (simp add: weight_def)
  show ?case using Cons.IH [of "\<not> alt" "t + weight (if alt then 1 else 0) d"] Cons.prems unfolding s luhn_loop.simps Let_def d by simp
qed simp

lemma digits_small: "\<forall>d\<in>set (digits_of s). d < 10"
  by (auto simp: digits_of_def is_digit_def Let_def)

text \<open>
  A match counts as a card number exactly when its digits, 13 to 19 of them whatever is between
  them, satisfy the Luhn checksum.
\<close>

theorem luhn_valid_exact:
  "luhnValid s \<longleftrightarrow> length (digits_of s) \<in> {13..19} \<and> luhn_sum (digits_of s) mod 10 = 0"
proof -
  let ?ds = "digits_of s"
  have "luhn_loop False (rev ?ds) 0 = (\<Sum>i<length ?ds. weight i (rev ?ds ! i))"
    using luhn_loop_sum [of "rev ?ds" False 0] digits_small [of s] by simp
  also have "\<dots> = luhn_sum ?ds"
    unfolding luhn_sum_def by (rule sum.cong) (simp_all add: weight_def rev_nth Let_def)
  finally show ?thesis by (auto simp: luhnValid_def Let_def)
qed

end
