(* ===== verification/Providers.thy ===== *)
theory Providers
  imports Cascade GoSort
begin

text \<open>
  \<open>internal/providers\<close>: the providers read from the environment, their order of priority, the registry
  the handler looks them up in, model aliases (\<open>aliases.go\<close>), and of the adapters (\<open>adapter.go\<close>) what
  the handler uses of them, the request path and the authentication headers. The environment, number
  parsing and upper case are parameters; \<open>None\<close> as a whole result is a panic.
\<close>

section \<open>Providers and the registry\<close>

record provider_config =
  pv_Name :: string
  pv_BaseURL :: string
  pv_Model :: string
  pv_APIKey :: string
  pv_AdapterType :: string
  pv_CostPer1K :: real
  pv_InputCost :: real
  pv_OutputCost :: real
  pv_CacheReadCost :: real
  pv_CacheCreationCost :: real

record provider_registry =
  rg_providers :: "string \<rightharpoonup> provider_config"
  rg_orderedNames :: "string list"

definition NewProviderRegistry :: provider_registry where
  "NewProviderRegistry = \<lparr>rg_providers = Map.empty, rg_orderedNames = []\<rparr>"

definition Register :: "provider_config \<Rightarrow> provider_registry \<Rightarrow> provider_registry option" where
  "Register p r =
     (if pv_Name p = [] then None
      else if rg_providers r (pv_Name p) \<noteq> None then None
      else Some (r\<lparr>rg_providers := (rg_providers r)(pv_Name p \<mapsto> p), rg_orderedNames := rg_orderedNames r @ [pv_Name p]\<rparr>))"

definition ByName :: "provider_registry \<Rightarrow> string \<Rightarrow> provider_config option" where
  "ByName r name = rg_providers r name"

definition All :: "provider_registry \<Rightarrow> provider_config list" where
  "All r = map (\<lambda>name. the (rg_providers r name)) (rg_orderedNames r)"

definition ByModel :: "provider_registry \<Rightarrow> string \<Rightarrow> provider_config option" where
  "ByModel r model = (if model = [] then None else find (\<lambda>p. pv_Model p = model) (All r))"

definition ProviderNames :: "provider_registry \<Rightarrow> string list" where "ProviderNames r = rg_orderedNames r"

definition Len :: "provider_registry \<Rightarrow> nat" where "Len r = card (dom (rg_providers r))"

section \<open>Providers of the environment\<close>

record env_provider =
  ep_Name :: string
  ep_URL :: string
  ep_Model :: string
  ep_APIKey :: string
  ep_Priority :: int
  ep_InputCost :: real
  ep_OutputCost :: real
  ep_CacheReadCost :: real
  ep_CacheCreationCost :: real
  ep_MaxTokens :: int
  ep_Type :: string

text \<open>\<open>NewRegistry\<close> keeps the first provider of every name.\<close>

fun first_of_name :: "string set \<Rightarrow> env_provider list \<Rightarrow> env_provider list" where
  "first_of_name seen [] = []"
| "first_of_name seen (p # ps) =
     (if ep_Name p \<in> seen then first_of_name seen ps else p # first_of_name (insert (ep_Name p) seen) ps)"

definition NewRegistry :: "env_provider list \<Rightarrow> env_provider list" where
  "NewRegistry ps = first_of_name {} ps"

text \<open>\<open>shift_in\<close> is the inner loop of the sort on the reversed prefix.\<close>

fun shift_in :: "env_provider \<Rightarrow> env_provider list \<Rightarrow> env_provider list" where
  "shift_in cur [] = [cur]"
| "shift_in cur (x # xs) = (if ep_Priority cur < ep_Priority x then x # shift_in cur xs else cur # x # xs)"

definition SortByPriority :: "env_provider list \<Rightarrow> env_provider list" where
  "SortByPriority ps = (if length ps \<le> 1 then ps else rev (foldl (\<lambda>acc cur. shift_in cur acc) [] ps))"

definition ToConfig :: "env_provider \<Rightarrow> provider_config" where
  "ToConfig p =
     \<lparr>pv_Name = ep_Name p, pv_BaseURL = trim_slashes (ep_URL p), pv_Model = ep_Model p, pv_APIKey = ep_APIKey p,
      pv_AdapterType = ep_Type p, pv_CostPer1K = ep_InputCost p, pv_InputCost = ep_InputCost p,
      pv_OutputCost = ep_OutputCost p, pv_CacheReadCost = ep_CacheReadCost p, pv_CacheCreationCost = ep_CacheCreationCost p\<rparr>"

definition validAdapterTypes :: "string list" where
  "validAdapterTypes = [''openai'', ''anthropic'', ''azure'', ''gemini'']"

definition IsValidAdapterType :: "string \<Rightarrow> bool" where
  "IsValidAdapterType name \<longleftrightarrow> ToLower (TrimSpace name) \<in> set validAdapterTypes"

record env_lib =
  el_getenv :: "string \<Rightarrow> string"
  el_atoi :: "string \<Rightarrow> int option"
  el_float :: "string \<Rightarrow> real option"
  el_upper :: "string \<Rightarrow> string"

definition env_key :: "env_lib \<Rightarrow> string \<Rightarrow> string \<Rightarrow> string" where
  "env_key L name field = ''NEXUS_PROVIDER_'' @ el_upper L name @ ''_'' @ field"

text \<open>An optional field: its default when it is blank, an error naming the key when it does not parse.\<close>

definition env_field :: "env_lib \<Rightarrow> (string \<Rightarrow> 'a option) \<Rightarrow> 'a \<Rightarrow> string \<Rightarrow> string + 'a" where
  "env_field L parse zero key =
     (let v = TrimSpace (el_getenv L key) in
      if v = [] then Inr zero else case parse v of None \<Rightarrow> Inl key | Some x \<Rightarrow> Inr x)"

definition type_of_env :: "string \<Rightarrow> string option" where
  "type_of_env v = (if IsValidAdapterType v then Some (ToLower v) else None)"

definition and_then :: "string + 'a \<Rightarrow> ('a \<Rightarrow> string + 'b) \<Rightarrow> string + 'b" where
  "and_then x f = (case x of Inl e \<Rightarrow> Inl e | Inr a \<Rightarrow> f a)"

definition loadOneProvider :: "env_lib \<Rightarrow> string \<Rightarrow> string + env_provider" where
  "loadOneProvider L name =
     (let key = env_key L name; url = TrimSpace (el_getenv L (key ''URL'')); model = TrimSpace (el_getenv L (key ''MODEL'')) in
      if url = [] then Inl (key ''URL'')
      else if model = [] then Inl (key ''MODEL'')
      else
        and_then (env_field L (el_atoi L) 0 (key ''PRIORITY'')) (\<lambda>priority.
        and_then (env_field L (el_float L) 0 (key ''INPUT_COST_PER_1K'')) (\<lambda>inCost.
        and_then (env_field L (el_float L) 0 (key ''OUTPUT_COST_PER_1K'')) (\<lambda>outCost.
        and_then (env_field L (el_float L) 0 (key ''CACHE_READ_INPUT_COST_PER_1K'')) (\<lambda>cacheRead.
        and_then (env_field L (el_float L) 0 (key ''CACHE_CREATION_INPUT_COST_PER_1K'')) (\<lambda>cacheCreate.
        and_then (env_field L (el_atoi L) 0 (key ''MAX_TOKENS'')) (\<lambda>maxTok.
        and_then (env_field L type_of_env [] (key ''TYPE'')) (\<lambda>typ.
          Inr \<lparr>ep_Name = name, ep_URL = url, ep_Model = model, ep_APIKey = el_getenv L (key ''API_KEY''), ep_Priority = priority,
               ep_InputCost = inCost, ep_OutputCost = outCost, ep_CacheReadCost = cacheRead, ep_CacheCreationCost = cacheCreate,
               ep_MaxTokens = maxTok, ep_Type = typ\<rparr>))))))))"

fun load_all :: "env_lib \<Rightarrow> string list \<Rightarrow> string + env_provider list" where
  "load_all L [] = Inr []"
| "load_all L (name # names) =
     (case loadOneProvider L name of
        Inl e \<Rightarrow> Inl (name @ '': '' @ e)
      | Inr p \<Rightarrow> (case load_all L names of Inl e \<Rightarrow> Inl e | Inr ps \<Rightarrow> Inr (p # ps)))"

definition LoadFromEnv :: "env_lib \<Rightarrow> string + env_provider list" where
  "LoadFromEnv L =
     (let raw = TrimSpace (el_getenv L ''NEXUS_PROVIDERS'') in
      if raw = [] then Inr []
      else
        let names = filter (\<lambda>n. n \<noteq> []) (map TrimSpace (SplitOn (CHR '','') raw)) in
        if names = [] then Inr []
        else (case load_all L names of Inl e \<Rightarrow> Inl e | Inr ps \<Rightarrow> Inr (NewRegistry ps)))"

fun register_all :: "provider_config list \<Rightarrow> provider_registry \<Rightarrow> provider_registry option" where
  "register_all [] r = Some r"
| "register_all (p # ps) r = (case Register p r of None \<Rightarrow> None | Some r \<Rightarrow> register_all ps r)"

text \<open>One entry of the JSON variable; \<open>Inl\<close> names the missing field.\<close>

definition json_provider :: "provider_config \<Rightarrow> string + provider_config" where
  "json_provider c =
     (if pv_Name c = [] then Inl ''name''
      else if pv_BaseURL c = [] then Inl ''url''
      else if pv_Model c = [] then Inl ''model''
      else Inr (c\<lparr>pv_BaseURL := trim_slashes (pv_BaseURL c), pv_AdapterType := [],
                  pv_InputCost := (if pv_InputCost c = 0 then pv_CostPer1K c else pv_InputCost c)\<rparr>))"

fun json_register :: "provider_config list \<Rightarrow> provider_registry \<Rightarrow> (string + provider_registry) option" where
  "json_register [] r = Some (Inr r)"
| "json_register (c # cs) r =
     (case json_provider c of
        Inl e \<Rightarrow> Some (Inl e)
      | Inr p \<Rightarrow> (case Register p r of None \<Rightarrow> None | Some r \<Rightarrow> json_register cs r))"

definition ParseProvidersFromEnv ::
  "env_lib \<Rightarrow> (string \<Rightarrow> provider_config list option) \<Rightarrow> (string + provider_registry option) option" where
  "ParseProvidersFromEnv L decode =
     (let raw = el_getenv L ''NEXUS_FRONTIER_PROVIDERS'' in
      if raw = [] then Some (Inr None)
      else case decode raw of
        None \<Rightarrow> Some (Inl ''parse JSON'')
      | Some configs \<Rightarrow>
          if configs = [] then Some (Inr None)
          else map_option (map_sum id Some) (json_register configs NewProviderRegistry))"

definition LoadProviderRegistry ::
  "env_lib \<Rightarrow> (string \<Rightarrow> provider_config list option) \<Rightarrow> (string + provider_registry option) option" where
  "LoadProviderRegistry L decode =
     (case LoadFromEnv L of
        Inl e \<Rightarrow> Some (Inl e)
      | Inr ps \<Rightarrow>
          if ps \<noteq> [] then
            if TrimSpace (el_getenv L ''NEXUS_FRONTIER_PROVIDERS'') \<noteq> [] then Some (Inl ''mutually exclusive'')
            else map_option (\<lambda>r. Inr (Some r)) (register_all (map ToConfig (SortByPriority ps)) NewProviderRegistry)
          else ParseProvidersFromEnv L decode)"

section \<open>Adapters\<close>

datatype adapter = OpenAIAdapter | AnthropicAdapter | AzureAdapter | GeminiAdapter

definition NewAdapter :: "string \<Rightarrow> adapter option" where
  "NewAdapter typeName =
     (let name = ToLower (TrimSpace typeName); name = (if name = [] then ''openai'' else name) in
      if name = ''openai'' then Some OpenAIAdapter
      else if name = ''anthropic'' then Some AnthropicAdapter
      else if name = ''azure'' then Some AzureAdapter
      else if name = ''gemini'' then Some GeminiAdapter
      else None)"

definition completions_path :: string where "completions_path = ''/v1/chat/completions''"

definition openAIPath :: "string \<Rightarrow> string" where
  "openAIPath baseURL =
     (let baseURL = trim_slashes baseURL in
      if HasSuffix baseURL completions_path then baseURL else baseURL @ completions_path)"

definition anthropicPath :: "string \<Rightarrow> string" where "anthropicPath baseURL = trim_slashes baseURL @ ''/v1/messages''"
definition azurePath :: "string \<Rightarrow> string" where "azurePath baseURL = baseURL"

definition geminiPath :: "string \<Rightarrow> string" where
  "geminiPath baseURL =
     (if Contains baseURL '':streamGenerateContent'' \<or> Contains baseURL '':generateContent'' then baseURL
      else trim_slashes baseURL @ '':streamGenerateContent'')"

definition RequestPath :: "adapter \<Rightarrow> string \<Rightarrow> string" where
  "RequestPath a = (case a of OpenAIAdapter \<Rightarrow> openAIPath | AnthropicAdapter \<Rightarrow> anthropicPath | AzureAdapter \<Rightarrow> azurePath
     | GeminiAdapter \<Rightarrow> geminiPath)"

definition anthropicAPIVersion :: string where "anthropicAPIVersion = ''2023-06-01''"

definition openAIHeaders :: "string \<Rightarrow> (string \<times> string) list" where
  "openAIHeaders apiKey = (if apiKey \<noteq> [] then [(''Authorization'', ''Bearer '' @ apiKey)] else [])"

definition anthropicHeaders :: "string \<Rightarrow> (string \<times> string) list" where
  "anthropicHeaders apiKey = (if apiKey \<noteq> [] then [(''x-api-key'', apiKey)] else []) @ [(''anthropic-version'', anthropicAPIVersion)]"

definition azureHeaders :: "string \<Rightarrow> (string \<times> string) list" where
  "azureHeaders apiKey = (if apiKey \<noteq> [] then [(''api-key'', apiKey)] else [])"

definition geminiHeaders :: "string \<Rightarrow> (string \<times> string) list" where
  "geminiHeaders apiKey = (if apiKey \<noteq> [] then [(''x-goog-api-key'', apiKey)] else [])"

definition AuthHeaders :: "adapter \<Rightarrow> string \<Rightarrow> (string \<times> string) list" where
  "AuthHeaders a = (case a of OpenAIAdapter \<Rightarrow> openAIHeaders | AnthropicAdapter \<Rightarrow> anthropicHeaders | AzureAdapter \<Rightarrow> azureHeaders
     | GeminiAdapter \<Rightarrow> geminiHeaders)"

section \<open>Aliases\<close>

record alias_target =
  at_ProviderName :: string
  at_Model :: string
  at_BaseURL :: string
  at_APIKey :: string

definition ParseAliasValue :: "string \<Rightarrow> (string \<times> string) option" where
  "ParseAliasValue v =
     (let v = TrimSpace v in
      case StrIndex v ''/'' of
        None \<Rightarrow> None
      | Some idx \<Rightarrow>
          (let provider = TrimSpace (take idx v); model = TrimSpace (drop (idx + 1) v) in
           if provider = [] then None else if model = [] then None else Some (provider, model)))"

definition ResolveAlias :: "(string \<rightharpoonup> string) \<Rightarrow> provider_registry option \<Rightarrow> string \<Rightarrow> alias_target option" where
  "ResolveAlias aliases reg requestedModel =
     (if requestedModel = [] then None
      else case aliases requestedModel of
        None \<Rightarrow> None
      | Some raw \<Rightarrow>
          (case ParseAliasValue raw of
             None \<Rightarrow> None
           | Some (providerName, model) \<Rightarrow>
               (case reg of
                  None \<Rightarrow> None
                | Some r \<Rightarrow>
                    (case ByName r providerName of
                       None \<Rightarrow> None
                     | Some p \<Rightarrow> Some \<lparr>at_ProviderName = providerName, at_Model = model, at_BaseURL = pv_BaseURL p, at_APIKey = pv_APIKey p\<rparr>))))"

definition HasProviderModel :: "provider_registry option \<Rightarrow> string \<Rightarrow> bool" where
  "HasProviderModel reg model =
     (case reg of
        None \<Rightarrow> False
      | Some r \<Rightarrow> if model = [] then False else list_ex (\<lambda>p. pv_Model p = model) (All r))"

section \<open>The order of priority\<close>

lemma shift_in_mset: "mset (shift_in c xs) = add_mset c (mset xs)"
  by (induction xs) auto

lemma shift_in_sorted:
  "sorted_wrt (\<lambda>a b. ep_Priority b \<le> ep_Priority a) xs \<Longrightarrow> sorted_wrt (\<lambda>a b. ep_Priority b \<le> ep_Priority a) (shift_in c xs)"
proof (induction xs)
  case (Cons x xs)
  have "set (shift_in c xs) = insert c (set xs)" using shift_in_mset [of c xs] by (metis set_mset_add_mset_insert set_mset_mset)
  with Cons show ?case by auto
qed simp

lemma shift_in_filter:
  "sorted_wrt (\<lambda>a b. ep_Priority b \<le> ep_Priority a) xs \<Longrightarrow>
   filter (\<lambda>x. k = ep_Priority x) (shift_in c xs) = (if k = ep_Priority c then [c] else []) @ filter (\<lambda>x. k = ep_Priority x) xs"
  by (induction xs) (auto simp: filter_empty_conv)

lemma sort_loop:
  assumes "sorted_wrt (\<lambda>a b. ep_Priority b \<le> ep_Priority a) acc"
  shows "sorted_wrt (\<lambda>a b. ep_Priority b \<le> ep_Priority a) (foldl (\<lambda>acc cur. shift_in cur acc) acc ps)
    \<and> mset (foldl (\<lambda>acc cur. shift_in cur acc) acc ps) = mset acc + mset ps
    \<and> filter (\<lambda>x. k = ep_Priority x) (rev (foldl (\<lambda>acc cur. shift_in cur acc) acc ps))
        = filter (\<lambda>x. k = ep_Priority x) (rev acc) @ filter (\<lambda>x. k = ep_Priority x) ps"
  using assms
proof (induction ps arbitrary: acc)
  case (Cons p ps)
  have "filter (\<lambda>x. k = ep_Priority x) (rev (shift_in p acc)) = filter (\<lambda>x. k = ep_Priority x) (rev acc) @ (if k = ep_Priority p then [p] else [])"
    using shift_in_filter [OF Cons.prems, of k p] by (auto simp flip: rev_filter)
  then show ?case using Cons.IH [OF shift_in_sorted [OF Cons.prems, of p]] shift_in_mset [of p acc] by auto
qed simp

lemma SortByPriority_sort_key: "SortByPriority ps = sort_key ep_Priority ps"
proof (cases "length ps \<le> 1")
  case True
  then show ?thesis by (cases ps) (auto simp: SortByPriority_def)
next
  case False
  let ?s = "rev (foldl (\<lambda>acc cur. shift_in cur acc) [] ps)"
  have "sorted_wrt (\<lambda>a b. ep_Priority b \<le> ep_Priority a) (foldl (\<lambda>acc cur. shift_in cur acc) [] ps)"
    "mset ?s = mset ps" "\<And>k. filter (\<lambda>x. k = ep_Priority x) ?s = filter (\<lambda>x. k = ep_Priority x) ps"
    using sort_loop [of "[]"] by auto
  moreover from this(1) have "sorted (map ep_Priority ?s)" by (simp add: sorted_wrt_map sorted_wrt_rev)
  ultimately have "sort_key ep_Priority ps = ?s" by (intro properties_for_sort_key)
  then show ?thesis using False by (simp add: SortByPriority_def)
qed

section \<open>Loading\<close>

lemma register_all_ok:
  assumes "\<forall>p\<in>set ps. pv_Name p \<noteq> []" "distinct (map pv_Name ps)" "\<forall>p\<in>set ps. rg_providers r (pv_Name p) = None"
    and "\<forall>n\<in>set (rg_orderedNames r). rg_providers r n \<noteq> None"
  shows "\<exists>r'. register_all ps r = Some r' \<and> All r' = All r @ ps \<and> rg_orderedNames r' = rg_orderedNames r @ map pv_Name ps
    \<and> (\<forall>n. rg_providers r' n = (case find (\<lambda>p. pv_Name p = n) ps of Some p \<Rightarrow> Some p | None \<Rightarrow> rg_providers r n))"
  using assms
proof (induction ps arbitrary: r)
  case (Cons p ps)
  let ?r = "r\<lparr>rg_providers := (rg_providers r)(pv_Name p \<mapsto> p), rg_orderedNames := rg_orderedNames r @ [pv_Name p]\<rparr>"
  have reg: "Register p r = Some ?r" using Cons.prems by (simp add: Register_def)
  have fresh: "pv_Name q \<noteq> pv_Name p" if "q \<in> set ps" for q using Cons.prems(2) that by (metis distinct.simps(2) image_eqI list.simps(9) list.set_map)
  have h1: "\<forall>q\<in>set ps. pv_Name q \<noteq> []" using Cons.prems(1) by simp
  have h2: "distinct (map pv_Name ps)" using Cons.prems(2) by simp
  have h3: "\<forall>q\<in>set ps. rg_providers ?r (pv_Name q) = None" using Cons.prems(3) fresh by simp
  have h4: "\<forall>n\<in>set (rg_orderedNames ?r). rg_providers ?r n \<noteq> None" using Cons.prems(4) by simp
  obtain r' where r': "register_all ps ?r = Some r'" "All r' = All ?r @ ps" "rg_orderedNames r' = rg_orderedNames ?r @ map pv_Name ps"
    "\<forall>n. rg_providers r' n = (case find (\<lambda>p. pv_Name p = n) ps of Some p \<Rightarrow> Some p | None \<Rightarrow> rg_providers ?r n)"
    using Cons.IH [OF h1 h2 h3 h4] by blast
  have new: "pv_Name p \<notin> set (rg_orderedNames r)" using Cons.prems(3,4) by auto
  have "All ?r = All r @ [p]" using new by (simp add: All_def)
  moreover have nf: "find (\<lambda>q. pv_Name q = pv_Name p) ps = None" using fresh by (auto simp: find_None_iff)
  moreover have "rg_providers r' n = (case find (\<lambda>q. pv_Name q = n) (p # ps) of Some q \<Rightarrow> Some q | None \<Rightarrow> rg_providers r n)" for n
    using r'(4) nf by (cases "pv_Name p = n") (simp_all split: option.split)
  ultimately show ?case using r'(1-3) reg by (intro exI [of _ r']) simp
qed simp

lemma first_of_name_in: "p \<in> set (first_of_name seen ps) \<Longrightarrow> ep_Name p \<notin> seen \<and> p \<in> set ps"
  by (induction seen ps rule: first_of_name.induct) (simp_all split: if_splits, blast)

lemma first_of_name_distinct: "distinct (map ep_Name (first_of_name seen ps))"
proof (induction seen ps rule: first_of_name.induct)
  case (2 seen p ps)
  have "ep_Name p \<notin> ep_Name ` set (first_of_name (insert (ep_Name p) seen) ps)"
    using first_of_name_in [of _ "insert (ep_Name p) seen" ps] by (metis imageE insertI1)
  with 2 show ?case by simp
qed simp

lemma load_all_names: "load_all L names = Inr ps \<Longrightarrow> map ep_Name ps = names"
proof (induction names arbitrary: ps)
  case (Cons n names)
  have "loadOneProvider L n = Inr p \<Longrightarrow> ep_Name p = n" for p
    by (auto simp: loadOneProvider_def Let_def and_then_def split: if_splits sum.splits)
  with Cons show ?case by (auto split: sum.splits)
qed simp

lemma LoadFromEnv_names:
  assumes "LoadFromEnv L = Inr ps"
  shows "distinct (map ep_Name ps) \<and> (\<forall>p\<in>set ps. ep_Name p \<noteq> [])"
proof (cases "ps = []")
  case False
  then obtain names qs where q: "load_all L (filter (\<lambda>n. n \<noteq> []) names) = Inr qs" "ps = NewRegistry qs"
    using assms by (auto simp: LoadFromEnv_def Let_def split: if_splits sum.splits)
  have "ep_Name p \<in> set (filter (\<lambda>n. n \<noteq> []) names)" if "p \<in> set qs" for p
    using that load_all_names [OF q(1)] by (metis image_eqI list.set_map)
  then have "\<forall>p\<in>set (first_of_name {} qs). ep_Name p \<noteq> []" using first_of_name_in [of _ "{}" qs] by (metis (mono_tags) mem_Collect_eq set_filter)
  then show ?thesis using first_of_name_distinct [of "{}" qs] q(2) by (simp add: NewRegistry_def)
qed simp

text \<open>
  The providers of the environment: if they are read without an error, loading the registry does
  not panic, and the registry lists exactly them, in the order of their priority, those of equal
  priority in the order they were named; looking up a name finds the provider of that name.
\<close>

theorem registry_in_priority_order:
  assumes "LoadFromEnv L = Inr ps" "ps \<noteq> []" "TrimSpace (el_getenv L ''NEXUS_FRONTIER_PROVIDERS'') = []"
  shows "\<exists>r. LoadProviderRegistry L decode = Some (Inr (Some r)) \<and> All r = map ToConfig (sort_key ep_Priority ps)
    \<and> Len r = length ps \<and> (\<forall>n. ByName r n = find (\<lambda>p. pv_Name p = n) (All r))"
proof -
  let ?qs = "map ToConfig (SortByPriority ps)"
  have n: "distinct (map ep_Name ps)" "\<forall>p\<in>set ps. ep_Name p \<noteq> []" using LoadFromEnv_names [OF assms(1)] by auto
  have names: "map pv_Name ?qs = map ep_Name (SortByPriority ps)" by (simp add: ToConfig_def)
  have m: "mset (SortByPriority ps) = mset ps" by (simp add: SortByPriority_sort_key)
  then have "mset (map ep_Name (SortByPriority ps)) = mset (map ep_Name ps)" by simp
  then have d: "distinct (map pv_Name ?qs)" unfolding names using n(1) by (metis mset_eq_imp_distinct_iff)
  have e: "\<forall>q\<in>set ?qs. pv_Name q \<noteq> []" using n(2) m by (auto simp: ToConfig_def dest: mset_eq_setD)
  have z: "All NewProviderRegistry = []" "rg_providers NewProviderRegistry = Map.empty" "rg_orderedNames NewProviderRegistry = []"
    by (simp_all add: NewProviderRegistry_def All_def)
  obtain r where r0: "register_all ?qs NewProviderRegistry = Some r" "All r = All NewProviderRegistry @ ?qs"
      "\<forall>n. rg_providers r n = (case find (\<lambda>p. pv_Name p = n) ?qs of Some p \<Rightarrow> Some p | None \<Rightarrow> rg_providers NewProviderRegistry n)"
    using register_all_ok [of ?qs NewProviderRegistry] d e z by auto
  have r: "register_all ?qs NewProviderRegistry = Some r" "All r = ?qs" "\<forall>n. rg_providers r n = find (\<lambda>p. pv_Name p = n) ?qs"
    using r0 z by (auto split: option.splits)
  have "dom (rg_providers r) = set (map pv_Name ?qs)"
    using r(3) by (auto simp: dom_def find_None_iff image_iff)
  then have "Len r = length ?qs" unfolding Len_def using d by (metis distinct_card length_map)
  also have "\<dots> = length ps" using m by (metis length_map size_mset)
  finally have "Len r = length ps" .
  then show ?thesis using r assms by (intro exI [of _ r]) (simp add: LoadProviderRegistry_def ByName_def SortByPriority_sort_key)
qed

definition demo_envs :: env_lib where
  "demo_envs = \<lparr>el_getenv = (\<lambda>k. if k = ''NEXUS_PROVIDERS'' then ''a,b''
      else if k = ''NEXUS_PROVIDER_a_URL'' \<or> k = ''NEXUS_PROVIDER_b_URL'' then ''u''
      else if k = ''NEXUS_PROVIDER_a_MODEL'' \<or> k = ''NEXUS_PROVIDER_b_MODEL'' then ''m''
      else if k = ''NEXUS_PROVIDER_a_PRIORITY'' then ''2'' else []),
     el_atoi = (\<lambda>s. Some 2), el_float = (\<lambda>s. None), el_upper = (\<lambda>s. s)\<rparr>"

definition demo_provider :: "string \<Rightarrow> int \<Rightarrow> env_provider" where
  "demo_provider name prio =
     \<lparr>ep_Name = name, ep_URL = ''u'', ep_Model = ''m'', ep_APIKey = [], ep_Priority = prio, ep_InputCost = 0, ep_OutputCost = 0,
      ep_CacheReadCost = 0, ep_CacheCreationCost = 0, ep_MaxTokens = 0, ep_Type = []\<rparr>"

lemma demo_envs_load: "LoadFromEnv demo_envs = Inr [demo_provider ''a'' 2, demo_provider ''b'' 0]"
  by code_simp

lemma registry_in_priority_order_witness:
  "\<exists>r. LoadProviderRegistry demo_envs (\<lambda>_. None) = Some (Inr (Some r)) \<and> All r = map ToConfig [demo_provider ''b'' 0, demo_provider ''a'' 2]"
proof -
  have "TrimSpace (el_getenv demo_envs ''NEXUS_FRONTIER_PROVIDERS'') = []" by code_simp
  moreover have "sort_key ep_Priority [demo_provider ''a'' 2, demo_provider ''b'' 0] = [demo_provider ''b'' 0, demo_provider ''a'' 2]"
    by (simp add: demo_provider_def)
  ultimately show ?thesis using registry_in_priority_order [OF demo_envs_load, of "\<lambda>_. None"] by auto
qed

end
