(* ===== verification/ChatText.thy ===== *)
theory ChatText
  imports UpStream Redact Providers Planner
begin

text \<open>
  The pure helpers of the chat handler: of \<open>internal/handlers/chat.go\<close> the capture of the response, the
  detection of file edits in it, the error envelope, the request id, the cost estimates and the
  telemetry row; the header values of \<open>sanitize.go\<close>; the debug helpers of \<open>debug.go\<close>; the recovery from
  panics of \<open>recover.go\<close>; and the token helpers of \<open>internal/telemetry/recorder.go\<close>.
\<close>

section \<open>Runes\<close>

text \<open>The width of the UTF-8 sequence a string begins with, 0 for an invalid one.\<close>

definition byte_in :: "nat \<Rightarrow> nat \<Rightarrow> char \<Rightarrow> bool" where
  "byte_in lo hi c \<longleftrightarrow> lo \<le> of_char c \<and> of_char c \<le> hi"

fun tail_ok :: "(nat \<times> nat) list \<Rightarrow> string \<Rightarrow> bool" where
  "tail_ok [] cs = True"
| "tail_ok (_ # _) [] = False"
| "tail_ok ((lo, hi) # rs) (c # cs) = (byte_in lo hi c \<and> tail_ok rs cs)"

definition rune_width :: "string \<Rightarrow> nat" where
  "rune_width s =
     (case s of
        [] \<Rightarrow> 0
      | c # cs \<Rightarrow>
          (let k = (0x80, 0xBF) in
           if byte_in 0 0x7F c then 1
           else if byte_in 0xC2 0xDF c \<and> tail_ok [k] cs then 2
           else if byte_in 0xE0 0xE0 c \<and> tail_ok [(0xA0, 0xBF), k] cs then 3
           else if (byte_in 0xE1 0xEC c \<or> byte_in 0xEE 0xEF c) \<and> tail_ok [k, k] cs then 3
           else if byte_in 0xED 0xED c \<and> tail_ok [(0x80, 0x9F), k] cs then 3
           else if byte_in 0xF0 0xF0 c \<and> tail_ok [(0x90, 0xBF), k, k] cs then 4
           else if byte_in 0xF1 0xF3 c \<and> tail_ok [k, k, k] cs then 4
           else if byte_in 0xF4 0xF4 c \<and> tail_ok [(0x80, 0x8F), k, k] cs then 4
           else 0))"

definition RuneError :: string where "RuneError = [CHR 0xEF, CHR 0xBF, CHR 0xBD]"

text \<open>The loop \<open>range s\<close>; every rune as the bytes \<open>WriteRune\<close> writes for it.\<close>

function runes :: "string \<Rightarrow> string list" where
  "runes [] = []"
| "runes (c # cs) =
     (let n = rune_width (c # cs) in
      if n = 0 then RuneError # runes cs else take n (c # cs) # runes (drop (n - 1) cs))"
  by pat_completeness auto

termination
  by (relation "measure length") auto

declare runes.simps [simp del]

section \<open>Header values\<close>

definition MaxHeaderValue :: nat where "MaxHeaderValue = 128"

definition is_control :: "char \<Rightarrow> bool" where "is_control c \<longleftrightarrow> of_char c < (0x20 :: nat)"

definition isCleanHeaderValue :: "string \<Rightarrow> bool" where
  "isCleanHeaderValue s =
     (if s = [] then True
      else if of_char (hd s) \<le> (0x20 :: nat) \<or> of_char (last s) \<le> (0x20 :: nat) then False
      else list_all (\<lambda>c. \<not> is_control c) s)"

definition clean_rune :: "string \<Rightarrow> string" where
  "clean_rune r =
     (if r = [CHR 0x0A] \<or> r = [CHR 0x0D] then []
      else if length r = 1 \<and> is_control (hd r) then '' ''
      else r)"

definition SanitizeHeaderValue :: "string \<Rightarrow> string" where
  "SanitizeHeaderValue s =
     (if s = [] then []
      else if isCleanHeaderValue s \<and> length (runes s) \<le> MaxHeaderValue then TrimSpace s
      else
        let out = TrimSpace (concat (map clean_rune (runes s))); r = runes out in
        if MaxHeaderValue < length r
        then concat (take MaxHeaderValue r) @ ''...(+'' @ decimal (length r - MaxHeaderValue) @ '')''
        else out)"

section \<open>Request ids and addresses\<close>

definition requestIDMaxLen :: nat where "requestIDMaxLen = 128"

definition id_char :: "char \<Rightarrow> bool" where
  "id_char c \<longleftrightarrow> byte_in 97 122 c \<or> byte_in 65 90 c \<or> byte_in 48 57 c \<or> c \<in> set ''._:-''"

definition sanitizeRequestID :: "string \<Rightarrow> string" where
  "sanitizeRequestID s = take requestIDMaxLen (filter id_char s)"

text \<open>\<open>random\<close> is the hex form of the eight random bytes, if they could be read.\<close>

definition requestID :: "string \<Rightarrow> string option \<Rightarrow> string" where
  "requestID header random =
     (if header \<noteq> [] \<and> sanitizeRequestID header \<noteq> [] then sanitizeRequestID header
      else case random of None \<Rightarrow> ''req-unknown'' | Some h \<Rightarrow> ''req-'' @ h)"

text \<open>\<open>split\<close> is \<open>net.SplitHostPort\<close>, its host or an error.\<close>

definition stripPort :: "(string \<Rightarrow> string option) \<Rightarrow> string \<Rightarrow> string" where
  "stripPort split addr = (case split addr of Some host \<Rightarrow> host | None \<Rightarrow> addr)"

section \<open>The error envelope\<close>

definition ErrTypeInvalidRequest :: string where "ErrTypeInvalidRequest = ''invalid_request_error''"
definition ErrTypeMethodNotAllowed :: string where "ErrTypeMethodNotAllowed = ''method_not_allowed''"
definition ErrTypeRequestTooLarge :: string where "ErrTypeRequestTooLarge = ''request_too_large''"
definition ErrTypeRateLimitExceeded :: string where "ErrTypeRateLimitExceeded = ''rate_limit_exceeded''"
definition ErrTypeBudgetExceeded :: string where "ErrTypeBudgetExceeded = ''budget_exceeded''"
definition ErrTypeUpstreamError :: string where "ErrTypeUpstreamError = ''upstream_error''"
definition ErrTypeServerError :: string where "ErrTypeServerError = ''server_error''"
definition ErrTypeLocalCapacityError :: string where "ErrTypeLocalCapacityError = ''local_capacity_exceeded''"

definition StatusText :: "nat \<Rightarrow> string" where
  "StatusText n =
     (if n = 400 then ''Bad Request'' else if n = 405 then ''Method Not Allowed''
      else if n = 413 then ''Request Entity Too Large'' else if n = 429 then ''Too Many Requests''
      else if n = 500 then ''Internal Server Error'' else if n = 502 then ''Bad Gateway''
      else if n = 503 then ''Service Unavailable'' else [])"

record error_body =
  eb_message :: string
  eb_type :: string
  eb_code :: string

text \<open>\<open>encode\<close> is the JSON encoder with its final newline.\<close>

definition writeJSONError :: "(error_body \<Rightarrow> string) \<Rightarrow> writer \<Rightarrow> nat \<Rightarrow> string \<Rightarrow> string \<Rightarrow> writer" where
  "writeJSONError encode w status errorType message =
     (let errorType = (if errorType = [] then ErrTypeServerError else errorType);
          w = WriteHeader (set_header w ''Content-Type'' ''application/json'') status
      in fst (Write w (encode \<lparr>eb_message = message, eb_type = errorType, eb_code = StatusText status\<rparr>)))"

section \<open>Capturing the response\<close>

definition DefaultObservedCap :: int where "DefaultObservedCap = 256 * 1024"

record captureWriter =
  cw_cap :: int
  cw_buf :: string
  cw_overflow :: bool

definition newCaptureWriter :: "int \<Rightarrow> captureWriter" where
  "newCaptureWriter capBytes =
     \<lparr>cw_cap = (if capBytes \<le> 0 then DefaultObservedCap else capBytes), cw_buf = [], cw_overflow = False\<rparr>"

text \<open>What goes on to the inner writer is the argument itself.\<close>

definition CaptureWrite :: "captureWriter \<Rightarrow> string \<Rightarrow> captureWriter" where
  "CaptureWrite c b =
     (if \<not> cw_overflow c \<and> int (length (cw_buf c) + length b) \<le> cw_cap c then c\<lparr>cw_buf := cw_buf c @ b\<rparr>
      else if \<not> cw_overflow c then c\<lparr>cw_overflow := True\<rparr>
      else c)"

definition CaptureBuffer :: "captureWriter \<Rightarrow> string" where "CaptureBuffer c = cw_buf c"

definition effectiveFusionTimeout :: "nanos \<Rightarrow> nanos \<Rightarrow> nanos" where
  "effectiveFusionTimeout specific fallback = (if 0 < specific then specific else fallback)"

definition containsSystemWith :: "jval list \<Rightarrow> string \<Rightarrow> bool" where
  "containsSystemWith msgs needle =
     (if needle = [] then False
      else list_ex (\<lambda>m. is_map m \<and> role_of m = ''system'' \<and> Contains (content_of m) needle) msgs)"

definition stepNames :: "cascade_step list \<Rightarrow> string list" where "stepNames steps = map st_Name steps"

section \<open>File edits in a response\<close>

definition qualityEditNames :: "string list" where
  "qualityEditNames = [''write_file'', ''edit_file'', ''apply_patch'', ''create_file'', ''patch_file'', ''update_file'',
     ''write'', ''edit'', ''patch'']"

definition pathFields :: "string list" where "pathFields = [''path'', ''filePath'', ''file_path'', ''filepath'']"

definition joinBars :: "string list \<Rightarrow> string" where "joinBars parts = Join ''|'' parts"

fun stripJSONEscapes :: "string \<Rightarrow> string" where
  "stripJSONEscapes [] = []"
| "stripJSONEscapes [c] = [c]"
| "stripJSONEscapes (c # d # cs) =
     (if c = CHR 0x5C \<and> d \<in> {CHR 0x22, CHR 0x5C, CHR ''/''} then d # stripJSONEscapes cs
      else c # stripJSONEscapes (d # cs))"

definition quote :: string where "quote = [CHR 0x22]"

text \<open>The class \<open>\s\<close> of a pattern.\<close>

definition re_space :: "char \<Rightarrow> bool" where
  "re_space c \<longleftrightarrow> c \<in> {CHR '' '', CHR 0x09, CHR 0x0A, CHR 0x0C, CHR 0x0D}"

text \<open>A literal at the beginning of a string, and a field name in quotes with its colon; what follows.\<close>

definition eat :: "string \<Rightarrow> string \<Rightarrow> string option" where
  "eat t s = (if HasPrefix s t then Some (drop (length t) s) else None)"

definition eat_colon :: "string \<Rightarrow> string option" where
  "eat_colon s = map_option (dropWhile re_space) (eat '':'' (dropWhile re_space s))"

fun eat_any :: "string list \<Rightarrow> string \<Rightarrow> string option" where
  "eat_any [] s = None"
| "eat_any (t # ts) s =
     (case eat (quote @ t @ quote) s of Some r \<Rightarrow> Some r | None \<Rightarrow> eat_any ts s)"

text \<open>\<open>qualityEditNameRe\<close> anchored at the beginning: what follows the match.\<close>

definition edit_name_here :: "string \<Rightarrow> string option" where
  "edit_name_here s =
     Option.bind (Option.bind (eat (quote @ ''name'' @ quote) s) eat_colon) (eat_any qualityEditNames)"

text \<open>\<open>qualityPathRe\<close> anchored at the beginning: the value, not empty and closed by a quote.\<close>

definition path_here :: "string \<Rightarrow> string option" where
  "path_here s =
     (case Option.bind (Option.bind (eat_any pathFields s) eat_colon) (eat quote) of
        None \<Rightarrow> None
      | Some v \<Rightarrow>
          (let p = takeWhile (\<lambda>c. c \<noteq> CHR 0x22) v in
           if p = [] \<or> length p = length v then None else Some p))"

fun first_path :: "string \<Rightarrow> string option" where
  "first_path [] = None"
| "first_path (c # cs) = (case path_here (c # cs) of Some p \<Rightarrow> Some p | None \<Rightarrow> first_path cs)"

definition firstPath :: "string \<Rightarrow> string" where
  "firstPath window = (case first_path window of Some p \<Rightarrow> p | None \<Rightarrow> [])"

definition qualityPathWindowBytes :: nat where "qualityPathWindowBytes = 4 * 1024"

text \<open>The windows of the matches, which do not overlap; \<open>skip\<close> counts what is left of the last one.\<close>

fun edit_windows :: "nat \<Rightarrow> string \<Rightarrow> string list" where
  "edit_windows skip [] = []"
| "edit_windows (Suc skip) (c # cs) = edit_windows skip cs"
| "edit_windows 0 (c # cs) =
     (case edit_name_here (c # cs) of
        Some r \<Rightarrow> take qualityPathWindowBytes (c # cs) # edit_windows (length cs - length r) cs
      | None \<Rightarrow> edit_windows 0 cs)"

fun new_paths :: "string list \<Rightarrow> string list \<Rightarrow> string list" where
  "new_paths seen [] = []"
| "new_paths seen (window # ws) =
     (let path = firstPath window in
      if path = [] \<or> path \<in> set seen then new_paths seen ws else path # new_paths (path # seen) ws)"

definition emitDetectedEdits :: "string \<Rightarrow> string list" where
  "emitDetectedEdits body = (if body = [] then [] else new_paths [] (edit_windows 0 (stripJSONEscapes body)))"

section \<open>Telemetry\<close>

text \<open>Milliseconds are \<open>real\<close> where the code has a \<open>float64\<close>.\<close>

definition ComputeTPS :: "int \<Rightarrow> int \<Rightarrow> real \<Rightarrow> real" where
  "ComputeTPS outputTokens ttftMs totalMs =
     (if outputTokens \<le> 0 \<or> totalMs \<le> 0 then 0
      else let genMs = totalMs - real_of_int ttftMs in
        if genMs \<le> 0 then 0 else real_of_int outputTokens * 1000 / genMs)"

definition millis :: "nanos \<Rightarrow> int" where "millis d = go_div d 1000000"
definition float_ms :: "nanos \<Rightarrow> real" where "float_ms d = real_of_int (go_div d 1000) / 1000"

record telemetry_row =
  tr_RequestID :: string
  tr_Model :: string
  tr_Route :: string
  tr_InputTokens :: int
  tr_OutputTokens :: int
  tr_TTFTMs :: int
  tr_TotalLatencyMs :: real
  tr_TPS :: real
  tr_Streaming :: bool
  tr_FusionArbiterSkipped :: bool
  tr_FusionJaccardSimilarity :: real
  tr_ToolCallCount :: nat
  tr_Error :: string
  tr_RouteSource :: "source option"
  tr_RouteReason :: string
  tr_SLMConfidence :: real
  tr_SLMTaskType :: string

text \<open>
  The time to first token: \<open>firstWrite\<close> is the instant of the first write, if there was one. \<open>elapsed\<close>
  is the time since the start, \<open>inputTokens\<close> what the tokenizer counts in the prompt.
\<close>

definition ttft :: "bool \<Rightarrow> nanos \<Rightarrow> nanos option \<Rightarrow> int" where
  "ttft streaming started firstWrite =
     (case firstWrite of
        None \<Rightarrow> 0
      | Some t \<Rightarrow> if streaming then (let ms = millis (t - started) in if ms < 0 then 0 else ms) else 0)"

definition buildRecord ::
  "string \<Rightarrow> nanos \<Rightarrow> nanos \<Rightarrow> nanos option \<Rightarrow> nat \<Rightarrow> bool \<Rightarrow> route \<Rightarrow> string \<Rightarrow> int \<Rightarrow> string option \<Rightarrow> bool \<Rightarrow> real \<Rightarrow> nat
     \<Rightarrow> decision \<Rightarrow> telemetry_row" where
  "buildRecord reqID started elapsed firstWrite bytesOut streaming r model inputTokens upErr arbiterSkipped similarity toolCalls d =
     (let totalMs = float_ms elapsed; ttftMs = ttft streaming started firstWrite; outputTokens = int (bytesOut div 4)
      in \<lparr>tr_RequestID = reqID, tr_Model = model, tr_Route = r, tr_InputTokens = inputTokens,
          tr_OutputTokens = outputTokens, tr_TTFTMs = ttftMs, tr_TotalLatencyMs = totalMs,
          tr_TPS = ComputeTPS outputTokens ttftMs totalMs, tr_Streaming = streaming,
          tr_FusionArbiterSkipped = arbiterSkipped, tr_FusionJaccardSimilarity = similarity, tr_ToolCallCount = toolCalls,
          tr_Error = (case upErr of None \<Rightarrow> [] | Some e \<Rightarrow> e),
          tr_RouteSource = Some (de_Source d), tr_RouteReason = de_Reason d, tr_SLMConfidence = de_Confidence d,
          tr_SLMTaskType = de_TaskType d\<rparr>)"

section \<open>Costs\<close>

definition totalTokenSavings :: "int \<Rightarrow> int \<Rightarrow> int" where
  "totalTokenSavings preChars postChars = (if preChars \<le> postChars then 0 else go_div (preChars - postChars) 4)"

record costEstimateResult =
  ce_Total :: real
  ce_InputCost :: real
  ce_OutputCost :: real

definition no_cost :: costEstimateResult where
  "no_cost = \<lparr>ce_Total = 0, ce_InputCost = 0, ce_OutputCost = 0\<rparr>"

definition token_cost :: "real \<Rightarrow> int \<Rightarrow> real" where
  "token_cost rate tokens = (if 0 < rate \<and> 0 < tokens then real_of_int tokens * rate / 1000 else 0)"

definition frontierCostEstimate ::
  "route \<Rightarrow> string \<Rightarrow> int \<Rightarrow> int \<Rightarrow> real \<Rightarrow> bool \<Rightarrow> provider_registry option \<Rightarrow> costEstimateResult" where
  "frontierCostEstimate r model inputTokens outputTokens costPer1K useOutputTokens registry =
     (if r \<noteq> RouteFrontier then no_cost
      else if costPer1K \<le> 0 \<and> inputTokens \<le> 0 then no_cost
      else if \<not> useOutputTokens then
        (if costPer1K \<le> 0 \<or> inputTokens \<le> 0 then no_cost
         else let total = real_of_int inputTokens * costPer1K / 1000
              in \<lparr>ce_Total = total, ce_InputCost = total, ce_OutputCost = 0\<rparr>)
      else
        let p = Option.bind registry (\<lambda>reg. ByModel reg model);
            inputRate = (case p of None \<Rightarrow> costPer1K | Some p \<Rightarrow> if 0 < pv_InputCost p then pv_InputCost p else costPer1K);
            outputRate = (case p of None \<Rightarrow> 0 | Some p \<Rightarrow> pv_OutputCost p);
            inCost = token_cost inputRate inputTokens; outCost = token_cost outputRate outputTokens
        in \<lparr>ce_Total = inCost + outCost, ce_InputCost = inCost, ce_OutputCost = outCost\<rparr>)"

definition baselineCostEstimate :: "int \<Rightarrow> real \<Rightarrow> real" where
  "baselineCostEstimate totalTokens baselineRatePer1K =
     (if baselineRatePer1K \<le> 0 \<or> totalTokens \<le> 0 then 0 else real_of_int totalTokens * baselineRatePer1K / 1000)"

text \<open>\<open>FormatFloat(c, 'f', 2, 64)\<close> of a value in the unit interval: to nearest, ties to even.\<close>

definition to_nearest :: "real \<Rightarrow> nat" where
  "to_nearest x =
     (let n = nat \<lfloor>x\<rfloor>; f = x - of_nat n in
      if f < 1 / 2 then n else if 1 / 2 < f then n + 1 else if even n then n else n + 1)"

definition two_digits :: "nat \<Rightarrow> string" where
  "two_digits n = (if n < 10 then ''0'' @ decimal n else decimal n)"

definition formatConfidence :: "real \<Rightarrow> string" where
  "formatConfidence c =
     (let c = (if c < 0 then 0 else c); c = (if 1 < c then 1 else c) in
      if c = 0 then ''0.00''
      else let n = to_nearest (c * 100) in decimal (n div 100) @ ''.'' @ two_digits (n mod 100))"

section \<open>Debug output\<close>

definition MaskAPIKey :: "string \<Rightarrow> string" where
  "MaskAPIKey key =
     (if key = [] then [] else if length key \<le> 8 then ''****''
      else take 3 key @ ''...'' @ drop (length key - 4) key)"

definition TruncateForDebug :: "string \<Rightarrow> int \<Rightarrow> string \<times> bool" where
  "TruncateForDebug s n =
     (if n \<le> 0 \<or> int (length s) \<le> n then (s, False)
      else (take (nat n) s @ ''...(truncated, total='' @ decimal (length s) @ '')'', True))"

definition RedactedHeaders :: "headers option \<Rightarrow> headers option" where
  "RedactedHeaders h =
     map_option (\<lambda>h k. map_option (\<lambda>vs. if ToLower k = ''authorization'' then map (\<lambda>_. ''Bearer ****'') vs else vs) (h k)) h"

section \<open>Recovery from panics\<close>

text \<open>
  The patterns as segmentations; \<open>pr_bearer\<close> and \<open>pr_url\<close> are whole replacements, the first keeps its
  group.
\<close>

record panic_res =
  pr_bearer :: "string \<Rightarrow> string"
  pr_apiKey :: regex
  pr_awsKey :: regex
  pr_awsSecret :: regex
  pr_url :: "string \<Rightarrow> string"
  pr_generic :: regex

definition mask_assignment :: "string \<Rightarrow> string" where
  "mask_assignment s =
     (case (case StrIndex s '':'' of Some i \<Rightarrow> Some i | None \<Rightarrow> StrIndex s ''='') of
        None \<Rightarrow> ''****'' | Some i \<Rightarrow> take (i + 1) s @ ''****'')"

definition replace_matches :: "regex \<Rightarrow> string \<Rightarrow> string" where
  "replace_matches re s = concat (map (\<lambda>x. if fst x then mask_assignment (snd x) else snd x) (re s))"

definition redactPanicValue :: "panic_res \<Rightarrow> string \<Rightarrow> string \<times> bool" where
  "redactPanicValue P raw =
     (let s = pr_bearer P raw;
          s = replace_matches (pr_generic P) s;
          s = replace_matches (pr_apiKey P) s;
          s = replace_matches (pr_awsKey P) s;
          s = replace_matches (pr_awsSecret P) s;
          s = pr_url P s;
          s = replace_matches (pr_generic P) s
      in (s, s \<noteq> raw))"

text \<open>
  The value of a panic is its text. \<open>w\<close> is the response when the handler ends; the results are the
  response, what is logged with the flag of a redaction, and the count of failed writes.
\<close>

definition panic_frame :: string where
  "panic_frame = ''data: {\"error\":{\"message\":\"internal server error\",\"type\":\"internal_error\"}}'' @ [NL, NL]"

definition panic_envelope :: string where
  "panic_envelope = ''{\"error\":{\"message\":\"internal server error\",\"type\":\"internal_error\"}}'' @ [NL]"

definition Recover :: "panic_res \<Rightarrow> string option \<Rightarrow> writer \<Rightarrow> writer \<times> (string \<times> bool) option \<times> nat" where
  "Recover P rv w =
     (case rv of
        None \<Rightarrow> (w, None, 0)
      | Some raw \<Rightarrow>
          (let logged = Some (redactPanicValue P raw) in
           if rw_committed w \<noteq> None \<and> rw_flusher w then
             (case Write w panic_frame of (w, ok1) \<Rightarrow>
              case Write w done_frame of (w, ok2) \<Rightarrow> (w, logged, (if ok1 then 0 else 1) + (if ok2 then 0 else 1)))
           else
             (fst (Write (WriteHeader (set_header w ''Content-Type'' ''application/json'') 500) panic_envelope), logged, 0)))"

definition routePattern :: "string \<Rightarrow> string \<Rightarrow> string" where
  "routePattern pattern path = (if pattern \<noteq> [] then pattern else path)"

section \<open>Header values are safe\<close>

lemma tail_ok_high:
  "tail_ok rs cs \<Longrightarrow> \<forall>p\<in>set rs. 0x80 \<le> fst p \<Longrightarrow> \<forall>c\<in>set (take (length rs) cs). 0x80 \<le> (of_char c :: nat)"
  by (induction rs cs rule: tail_ok.induct) (auto simp: byte_in_def)

lemma wide_rune:
  assumes "byte_in lo hi c" "0x80 \<le> lo" "tail_ok rs cs" "\<forall>p\<in>set rs. 0x80 \<le> fst p"
  shows "\<forall>x\<in>set (take (Suc (length rs)) (c # cs)). 0x80 \<le> (of_char x :: nat)"
  using assms(1,2) tail_ok_high [OF assms(3,4)] by (auto simp: byte_in_def)

definition wide :: "char \<Rightarrow> string \<Rightarrow> nat \<Rightarrow> bool" where
  "wide c cs n \<longleftrightarrow> n \<le> 4 \<and> (n \<le> 1 \<or> (\<forall>x\<in>set (take n (c # cs)). 0x80 \<le> (of_char x :: nat)))"

lemma wideI:
  assumes "byte_in lo hi c \<and> tail_ok rs cs" "0x80 \<le> lo" "\<forall>p\<in>set rs. 0x80 \<le> fst p" "length rs \<le> 3" "n = Suc (length rs)"
  shows "wide c cs n"
  unfolding wide_def assms(5) using wide_rune [of lo hi c rs cs] assms by (intro conjI disjI2) simp_all

lemma rune_width_wide: "wide c cs (rune_width (c # cs))"
proof -
  have step: "(a \<Longrightarrow> wide c cs x) \<Longrightarrow> (\<not> a \<Longrightarrow> wide c cs y) \<Longrightarrow> wide c cs (if a then x else y)" for a x y by simp
  have low: "n \<le> 1 \<Longrightarrow> wide c cs n" for n by (simp add: wide_def)
  show ?thesis unfolding rune_width_def Let_def list.case
    apply (rule step, simp add: low)
    apply (rule step, erule wideI, simp, simp, simp, simp)
    apply (rule step, erule wideI, simp, simp, simp, simp)
    apply (rule step, unfold conj_disj_distribR, erule disjE, erule wideI, simp, simp, simp, simp, erule wideI, simp, simp, simp, simp)
    apply (rule step, erule wideI, simp, simp, simp, simp)
    apply (rule step, erule wideI, simp, simp, simp, simp)
    apply (rule step, erule wideI, simp, simp, simp, simp)
    apply (rule step, erule wideI, simp, simp, simp, simp)
    apply (simp add: low)
    done
qed

lemma runes_Cons:
  "runes (c # cs) =
     (if rune_width (c # cs) = 0 then RuneError # runes cs
      else take (rune_width (c # cs)) (c # cs) # runes (drop (rune_width (c # cs) - 1) cs))"
  by (simp add: runes.simps Let_def)

lemma rune_shape:
  "r \<in> set (runes s) \<Longrightarrow> length r \<le> 4 \<and> (length r = 1 \<or> (\<forall>x\<in>set r. 0x80 \<le> (of_char x :: nat)))"
proof (induction s rule: runes.induct)
  case (2 c cs)
  let ?n = "rune_width (c # cs)"
  have e: "\<forall>x\<in>set RuneError. 0x80 \<le> (of_char x :: nat)" "length RuneError = 3" by (simp_all add: RuneError_def)
  have "?n \<le> 1 \<Longrightarrow> ?n \<noteq> 0 \<Longrightarrow> length (take ?n (c # cs)) = 1" by (cases ?n) auto
  have w: "?n \<le> 4" "?n \<le> 1 \<or> (\<forall>x\<in>set (take ?n (c # cs)). 0x80 \<le> (of_char x :: nat))" using rune_width_wide [of c cs] by (auto simp: wide_def)
  show ?case
  proof (cases "?n = 0")
    case True
    then show ?thesis using 2 e by (auto simp: runes_Cons)
  next
    case False
    then consider "r = take ?n (c # cs)" | "r \<in> set (runes (drop (?n - 1) cs))" using "2.prems" by (auto simp: runes_Cons)
    then show ?thesis
    proof cases
      case 1
      have "length r \<le> 4" using 1 w(1) by simp
      then show ?thesis using 1 w(2) \<open>?n \<le> 1 \<Longrightarrow> ?n \<noteq> 0 \<Longrightarrow> length (take ?n (c # cs)) = 1\<close> False by blast
    next
      case 2
      then show ?thesis using "2.IH"(2) False by blast
    qed
  qed
qed (simp add: runes.simps)

lemma clean_rune_safe:
  assumes "r \<in> set (runes s)" "x \<in> set (clean_rune r)"
  shows "\<not> is_control x"
proof -
  consider "length r = 1" | "\<forall>y\<in>set r. 0x80 \<le> (of_char y :: nat)" using rune_shape [OF assms(1)] by blast
  then show ?thesis
  proof cases
    case 1
    then obtain y where "r = [y]" by (auto simp: length_Suc_conv)
    then show ?thesis using assms(2) by (auto simp: clean_rune_def is_control_def split: if_splits)
  next
    case 2
    then show ?thesis using assms(2) by (auto simp: clean_rune_def is_control_def split: if_splits dest!: bspec)
  qed
qed

lemma TrimSpace_subset: "set (TrimSpace s) \<subseteq> set s"
  unfolding TrimSpace_def TrimRight_def TrimLeft_def by (auto dest!: set_dropWhileD)

lemma TrimSpace_length: "length (TrimSpace s) \<le> length s"
  unfolding TrimSpace_def TrimRight_def TrimLeft_def
  by (metis (no_types, lifting) length_dropWhile_le length_rev order_trans)

lemma decimal_digits: "x \<in> set (decimal n) \<Longrightarrow> \<not> is_control x"
proof (induction n rule: decimal.induct)
  case (1 n)
  have d: "of_char (char_of (48 + k mod 10) :: char) = (48 + k mod 10 :: nat)" for k :: nat by simp
  from 1 show ?case by (subst (asm) (2) decimal.simps) (auto simp: is_control_def split: if_splits)
qed

lemma runes_length: "\<forall>r\<in>set rs. length r \<le> 4 \<Longrightarrow> length (concat rs) \<le> 4 * length rs"
  by (induction rs) auto

lemma runes_set: "x \<in> set (concat (runes s)) \<Longrightarrow> x \<in> set s \<or> x \<in> set RuneError"
proof (induction s rule: runes.induct)
  case (2 c cs)
  let ?n = "rune_width (c # cs)"
  show ?case
  proof (cases "?n = 0")
    case True
    then show ?thesis using 2 by (auto simp: runes_Cons)
  next
    case False
    then consider "x \<in> set (take ?n (c # cs))" | "x \<in> set (concat (runes (drop (?n - 1) cs)))" using "2.prems" by (auto simp: runes_Cons)
    then show ?thesis
    proof cases
      case 1
      then show ?thesis by (meson in_set_takeD)
    next
      case 2
      then show ?thesis using "2.IH"(2) False by (meson in_set_dropD list.set_intros(2))
    qed
  qed
qed (simp add: runes.simps)

lemma runes_sizes:
  "length (runes s) \<le> length s \<and> length s \<le> length (concat (runes s)) \<and> length (concat (runes s)) \<le> 3 * length s"
proof (induction s rule: runes.induct)
  case (2 c cs)
  let ?n = "rune_width (c # cs)"
  have e: "length RuneError = 3" by (simp add: RuneError_def)
  show ?case
  proof (cases "?n = 0")
    case True
    then show ?thesis using 2 e by (auto simp: runes_Cons)
  next
    case False
    then obtain m where m: "?n = Suc m" by (cases ?n) auto
    then have r: "runes (c # cs) = (c # take m cs) # runes (drop m cs)" by (simp add: runes_Cons)
    have "length (runes (drop m cs)) \<le> length (drop m cs) \<and> length (drop m cs) \<le> length (concat (runes (drop m cs)))
        \<and> length (concat (runes (drop m cs))) \<le> 3 * length (drop m cs)"
      using "2.IH"(2) [OF refl False] m by simp
    then show ?thesis unfolding r by simp linarith
  qed
qed (simp add: runes.simps)

lemma clean_sizes: "length (concat (map clean_rune rs)) \<le> length (concat rs)"
proof (induction rs)
  case (Cons r rs)
  have "length (clean_rune r) \<le> length r" by (simp add: clean_rune_def)
  with Cons show ?case by simp
qed simp

lemma header_value_sets:
  "(\<forall>x\<in>set (SanitizeHeaderValue s). \<not> is_control x) \<and>
   (\<exists>n. n \<le> 3 * length s \<and> length (SanitizeHeaderValue s) \<le> 4 * MaxHeaderValue + 6 + length (decimal n))"
proof -
  have short: "length t \<le> 4 * MaxHeaderValue" if "length (runes t) \<le> MaxHeaderValue" for t
  proof -
    have "length t \<le> length (concat (runes t))" using runes_sizes by blast
    also have "\<dots> \<le> 4 * length (runes t)" using rune_shape by (intro runes_length) blast
    finally show ?thesis using that by simp
  qed
  define out where "out = TrimSpace (concat (map clean_rune (runes s)))"
  let ?r = "runes out"
  have safe: "\<not> is_control x" if "x \<in> set out" for x
    using that TrimSpace_subset clean_rune_safe unfolding out_def by fastforce
  have size: "length ?r \<le> 3 * length s"
    using runes_sizes [of out] TrimSpace_length [of "concat (map clean_rune (runes s))"] clean_sizes [of "runes s"] runes_sizes [of s]
    unfolding out_def by linarith
  have err: "\<not> is_control x" if "x \<in> set RuneError" for x using that by (auto simp: RuneError_def is_control_def)
  have part: "\<not> is_control x" if "x \<in> set (concat (take MaxHeaderValue ?r))" for x
    using that runes_set [of x out] safe err by (auto dest: in_set_takeD)
  have partlen: "length (concat (take MaxHeaderValue ?r)) \<le> 4 * MaxHeaderValue"
  proof -
    have "length (concat (take MaxHeaderValue ?r)) \<le> 4 * length (take MaxHeaderValue ?r)"
      using rune_shape [of _ out] by (intro runes_length) (auto dest: in_set_takeD)
    then show ?thesis by simp
  qed
  have marker: "\<not> is_control x" if "x \<in> set ''...(+''" for x using that by (auto simp: is_control_def)
  consider "s = []" | "s \<noteq> []" "isCleanHeaderValue s" "length (runes s) \<le> MaxHeaderValue"
    | "SanitizeHeaderValue s = out" "length ?r \<le> MaxHeaderValue"
    | "SanitizeHeaderValue s = concat (take MaxHeaderValue ?r) @ ''...(+'' @ decimal (length ?r - MaxHeaderValue) @ '')''"
    unfolding SanitizeHeaderValue_def Let_def out_def [symmetric] by (meson not_le)
  then show ?thesis
  proof cases
    case 1
    then show ?thesis by (simp add: SanitizeHeaderValue_def)
  next
    case 2
    then have e: "SanitizeHeaderValue s = TrimSpace s" by (simp add: SanitizeHeaderValue_def)
    have "\<forall>x\<in>set s. \<not> is_control x" using 2 by (auto simp: isCleanHeaderValue_def list_all_iff split: if_splits)
    then show ?thesis unfolding e using short [OF 2(3)] TrimSpace_length [of s] TrimSpace_subset [of s]
      by (intro conjI exI [of _ 0]) (auto intro: order_trans)
  next
    case 3
    then show ?thesis using safe short [OF 3(2)] by (intro conjI exI [of _ 0]) auto
  next
    case 4
    show ?thesis unfolding 4 using part partlen size decimal_digits
      by (intro conjI exI [of _ "length ?r - MaxHeaderValue"]) (auto simp: is_control_def)
  qed
qed

text \<open>
  A value echoed in a routing header, whatever text the routing model or an attacker put into it,
  holds no control character, so no line break: it cannot add a header; and it is never longer than the
  bound of 128 runes with the note of how many were dropped.
\<close>

theorem header_value_safe:
  "list_all (\<lambda>x. \<not> is_control x) (SanitizeHeaderValue s) \<and>
   (\<exists>n. n \<le> 3 * length s \<and> length (SanitizeHeaderValue s) \<le> 4 * MaxHeaderValue + 6 + length (decimal n))"
  using header_value_sets [of s] by (simp add: list_all_iff)

section \<open>A panic still ends the response\<close>

text \<open>
  When a handler panics, the client still gets a parseable end: with nothing committed a fresh 500
  with the JSON envelope and nothing else; with a stream under way what was sent stays, and an error
  frame and the end marker follow under the status already sent. A response under way on a connection
  that cannot flush gets the envelope appended to its body.
\<close>

theorem panic_still_answered:
  assumes "rw_left w = None" "Recover P (Some raw) w = (w', lg, failures)"
  shows "rw_out w' = rw_out w @ (if rw_committed w \<noteq> None \<and> rw_flusher w then panic_frame @ done_frame else panic_envelope)
    \<and> failures = 0 \<and> lg = Some (redactPanicValue P raw)
    \<and> (case rw_committed w of
         None \<Rightarrow> (\<exists>h. rw_committed w' = Some (500, h) \<and> h ''Content-Type'' = Some [''application/json''])
       | Some c \<Rightarrow> rw_committed w' = Some c)"
  using assms by (auto simp: Recover_def Write_def WriteHeader_def set_header_def Let_def split: option.splits if_splits)

definition demo_panic_res :: panic_res where
  "demo_panic_res = \<lparr>pr_bearer = (\<lambda>s. s), pr_apiKey = (\<lambda>s. [(False, s)]), pr_awsKey = (\<lambda>s. [(False, s)]),
     pr_awsSecret = (\<lambda>s. [(False, s)]), pr_url = (\<lambda>s. s), pr_generic = (\<lambda>s. [(True, s)])\<rparr>"

definition demo_streaming :: writer where
  "demo_streaming = \<lparr>rw_header = Map.empty, rw_committed = Some (200, Map.empty), rw_out = ''data: a'', rw_left = None,
     rw_flusher = True, rw_gone = False\<rparr>"

lemma panic_still_answered_witness:
  "rw_out (fst (Recover demo_panic_res (Some ''token=abc'') demo_streaming)) = ''data: a'' @ panic_frame @ done_frame"
proof -
  obtain w' lg n where r: "Recover demo_panic_res (Some ''token=abc'') demo_streaming = (w', lg, n)" by (metis prod_cases3)
  have "rw_left demo_streaming = None" by (simp add: demo_streaming_def)
  from panic_still_answered [OF this r] show ?thesis using r by (simp add: demo_streaming_def)
qed

end
