(* ===== verification/Chat.thy ===== *)
theory Chat
  imports ChatText Fusion RagStore Toon BudgetGuard Circuit Promoter AuthGate
begin

text \<open>
  The chat handler of \<open>internal/handlers/chat.go\<close>: the rejections before routing, the passes over the
  messages, the routing decision, the three dispatches and the records at the end. It is composed of the
  theories of the parts it calls. The record \<open>chat_deps\<close> is the configuration with the observers that
  are installed, \<open>chat_env\<close> what one request meets: its bytes, the answers of the upstreams, the clock
  readings, JSON and the tokenizer. What the handler tells its observers and which upstream it asks is
  the list \<open>cs_seen\<close>. The client's connection takes every write; a client that goes away is treated in
  the theories of the callees. \<open>None\<close> as the whole result is a panic. Log lines, spans and the fields of
  the debug trace have no counterpart.
\<close>

section \<open>What observers see\<close>

datatype target =
    ToCascade "cascade_step list"
  | ToFailover "cascade_step list"
  | ToStream string string
  | ToBuffered string string
  | ToPanel bool nanos nanos

record rag_event =
  rv_Hit :: bool
  rv_Filename :: string
  rv_MissReason :: string
  rv_Score :: real
  rv_IndexPath :: index_path
  rv_EffectiveThreshold :: real

record judge_sample =
  js_Instruction :: string
  js_Output :: string
  js_LocalModel :: string
  js_Route :: string
  js_RAGInjected :: bool
  js_RAGSimilarity :: real

record metrics_row =
  mr_row :: telemetry_row
  mr_TOONSavingsTokens :: int
  mr_TOONMethod :: compression_method
  mr_RAGInjected :: bool
  mr_RAGFilename :: string
  mr_Cost :: costEstimateResult
  mr_BaselineCost :: real
  mr_Savings :: real
  mr_ArbiterCost :: real
  mr_ArbiterCacheKeyHex :: string
  mr_ArbiterSynthesis :: string
  mr_Tenant :: string

datatype chat_event =
    Dispatched target fields
  | RejectionSeen string
  | MetricsRejected string
  | RecordRejected string
  | AuditSeen string string string
  | MetricsSeen metrics_row
  | RecordSeen telemetry_row
  | JudgeSampled judge_sample
  | EditSeen string
  | RouteSeen decision
  | PlannerSeen plan_event
  | ConfidenceRecorded string route
  | InjectionSeen string
  | RAGSeen rag_event
  | RAGCacheSeen bool
  | CircuitFailure string
  | CircuitRecovery string
  | EmbedderFailure string
  | RAGCircuitTrip string
  | RAGCircuitRecover string
  | CooldownSeen
  | FallbackSeen string real string
  | FusionSeen bool string
  | ArbiterCacheSeen bool
  | PanelPanicSeen
  | TruncationSeen string
  | RedactionSeen string int
  | LatencySeen string real real bool compression_method
  | StagesSeen int int int int int real string
  | BudgetAlert alert

section \<open>Configuration and surroundings\<close>

record chat_deps =
  dp_MaxBodyBytes :: int
  dp_InjectionMode :: injection_mode
  dp_InjectionRoles :: "string list"
  dp_injectionPatterns :: patterns
  dp_ModelAliases :: "string \<rightharpoonup> string"
  dp_ModelAliasesStrict :: bool
  dp_Providers :: "provider_registry option"
  dp_MetaPrompt :: string
  dp_RAGTopK :: int
  dp_RAGMaxInjectionTokens :: int
  dp_TOONUnfenced :: bool
  dp_TOONNotice :: string
  dp_TokenGuardrail :: int
  dp_ContextTurns :: int
  dp_ContextChars :: int
  dp_CostPer1K :: real
  dp_CostUseOutputTokens :: bool
  dp_CostBaseline :: real
  dp_OllamaURL :: string
  dp_LocalModel :: string
  dp_FrontierURL :: string
  dp_FrontierKey :: string
  dp_FrontierModel :: string
  dp_ZAIURL :: string
  dp_ZAIModel :: string
  dp_ZAIKey :: string
  dp_CascadeTimeout :: nanos
  dp_CascadeFloor :: nanos
  dp_CascadeCeiling :: nanos
  dp_CascadePer1k :: nanos
  dp_CascadeMaxBytes :: int
  dp_Progressive :: bool
  dp_AgreementThreshold :: real
  dp_FusionTimeout :: nanos
  dp_FusionLocalTimeout :: nanos
  dp_FusionFrontierTimeout :: nanos
  dp_ArbiterCacheTTL :: nanos
  dp_simCfg :: sim_config
  dp_Failover :: bool
  dp_FailoverMax :: int
  dp_RedactEnabled :: bool
  dp_RedactProfile :: string
  dp_RedactPatterns :: string
  dp_RedactBuffer :: int
  dp_Debug :: bool
  dp_maxObserved :: int
  dp_hasLimiter :: bool
  dp_Judge :: bool
  dp_Quality :: bool
  dp_Metrics :: bool
  dp_Audit :: bool
  dp_Rejections :: bool
  dp_Routes :: bool
  dp_Injections :: bool
  dp_RAGObserver :: bool
  dp_RAGCacheObserver :: bool
  dp_Circuits :: bool
  dp_Fallbacks :: bool
  dp_Fusions :: bool
  dp_ArbiterObserver :: bool
  dp_PanelPanics :: bool
  dp_Truncations :: bool
  dp_Redactions :: bool
  dp_Latencies :: bool
  dp_Stages :: bool

datatype read_result = BodyTooLarge | BodyUnreadable | BodyRead string

datatype chat_err = CascadeErr cascade_err | UpErr up_error | PanelErr panel_err | AcquireErr string

text \<open>
  \<open>ev_since k\<close> is the time since the start at the \<open>k\<close>-th reading of the clock, \<open>ev_split\<close> how a callee
  cuts what it writes into writes and flushes. The budget and its label are what the probe reports.
\<close>

record chat_env =
  ev_method :: string
  ev_requestIDHeader :: string
  ev_random :: "string option"
  ev_remote :: string
  ev_authorization :: string
  ev_tenant :: string
  ev_splitHost :: "string \<Rightarrow> string option"
  ev_sha :: "string \<Rightarrow> string"
  ev_read :: read_result
  ev_decode :: "string \<Rightarrow> jval option"
  ev_encodeError :: "error_body \<Rightarrow> string"
  ev_chars :: "jval list \<Rightarrow> int"
  ev_tokens :: "string \<Rightarrow> int"
  ev_rag :: rag_env
  ev_ragOpen :: bool
  ev_ragKind :: string
  ev_embedHits :: "nat \<times> nat"
  ev_toon :: toon_env
  ev_plan :: plan_env
  ev_vram :: "(int \<times> string) option"
  ev_localHealthy :: bool
  ev_now :: nanos
  ev_started :: nanos
  ev_since :: "nat \<Rightarrow> nanos"
  ev_firstWrite :: nanos
  ev_acquire :: "string option"
  ev_cl :: cascade_lib
  ev_client :: client
  ev_attempts :: "nat \<Rightarrow> attempt"
  ev_wire :: "wire list \<Rightarrow> write_op list"
  ev_fl :: fusion_lib
  ev_local :: member
  ev_frontier :: member
  ev_localFirst :: bool
  ev_arbiter :: "string \<Rightarrow> roundtrip"
  ev_exchange :: "string \<Rightarrow> string \<Rightarrow> fields \<Rightarrow> roundtrip"
  ev_split :: "string \<Rightarrow> write_op list"
  ev_builtin :: builtin_res
  ev_compile :: "string \<Rightarrow> regex option"
  ev_text :: "chat_err \<Rightarrow> string"

section \<open>State\<close>

text \<open>
  The client's response, what the observing writer counted of it, the writers above it, and the shared
  objects the request passes through. The spend guard is the planner's budget: one object is wired to
  both.
\<close>

record chat_state =
  cs_w :: writer
  cs_status :: "nat option"
  cs_bytes :: nat
  cs_wrote :: bool
  cs_redactor :: "redactor option"
  cs_capture :: "captureWriter option"
  cs_rag :: rag_store
  cs_planner :: planner
  cs_cooldown :: "cooldown option"
  cs_coalescer :: "(assistant_message, cascade_err) coalescer option"
  cs_arbiter :: "arbiter option"
  cs_metrics :: fusion_metrics
  cs_seen :: "chat_event list"

definition tell :: "bool \<Rightarrow> chat_event list \<Rightarrow> chat_state \<Rightarrow> chat_state" where
  "tell installed evs st = (if installed then st\<lparr>cs_seen := cs_seen st @ evs\<rparr> else st)"

definition header :: "string \<Rightarrow> string \<Rightarrow> chat_state \<Rightarrow> chat_state" where
  "header k v st = st\<lparr>cs_w := set_header (cs_w st) k v\<rparr>"

section \<open>The writer chain\<close>

text \<open>A callee writes to the observing writer, to the redactor above it, or to the capture above both.\<close>

datatype sink = ToObs | ToRedactor | ToCapture

definition StatusCode :: "chat_state \<Rightarrow> nat" where
  "StatusCode st = (case cs_status st of None \<Rightarrow> 200 | Some s \<Rightarrow> s)"

definition ObsWrite :: "chat_state \<Rightarrow> string \<Rightarrow> chat_state" where
  "ObsWrite st b = st\<lparr>cs_w := fst (Write (cs_w st) b), cs_bytes := cs_bytes st + length b, cs_wrote := True\<rparr>"

definition ObsWriteHeader :: "chat_state \<Rightarrow> nat \<Rightarrow> chat_state" where
  "ObsWriteHeader st code =
     st\<lparr>cs_w := WriteHeader (cs_w st) code, cs_status := (if cs_status st = None then Some code else cs_status st)\<rparr>"

definition inner_bytes :: "inner \<Rightarrow> string option" where
  "inner_bytes x = (case x of InnerWrite b \<Rightarrow> Some b | InnerFlush \<Rightarrow> None)"

definition redact_pass :: "write_op \<Rightarrow> chat_state \<Rightarrow> chat_state" where
  "redact_pass op st =
     (case cs_redactor st of
        None \<Rightarrow> (case op of WriteBytes b \<Rightarrow> ObsWrite st b | FlushNow \<Rightarrow> st)
      | Some r \<Rightarrow>
          (let r' = redact_ops [op] (r\<lparr>rd_out := []\<rparr>)
           in foldl ObsWrite (st\<lparr>cs_redactor := Some r'\<rparr>) (List.map_filter inner_bytes (rd_out r'))))"

definition capture_pass :: "write_op \<Rightarrow> chat_state \<Rightarrow> chat_state" where
  "capture_pass op st =
     (case (cs_capture st, op) of
        (Some c, WriteBytes b) \<Rightarrow> redact_pass op (st\<lparr>cs_capture := Some (CaptureWrite c b)\<rparr>)
      | _ \<Rightarrow> redact_pass op st)"

definition pass :: "sink \<Rightarrow> write_op \<Rightarrow> chat_state \<Rightarrow> chat_state" where
  "pass s op st =
     (case s of
        ToObs \<Rightarrow> (case op of WriteBytes b \<Rightarrow> ObsWrite st b | FlushNow \<Rightarrow> st)
      | ToRedactor \<Rightarrow> redact_pass op st
      | ToCapture \<Rightarrow> capture_pass op st)"

definition passes :: "sink \<Rightarrow> write_op list \<Rightarrow> chat_state \<Rightarrow> chat_state" where
  "passes s ops st = fold (pass s) ops st"

text \<open>
  A callee that works on a writer gets the headers and the status so far, an empty body and a flusher,
  which the observing writer always is.
\<close>

definition sink_writer :: "chat_state \<Rightarrow> writer" where
  "sink_writer st = (cs_w st)\<lparr>rw_out := [], rw_left := None, rw_flusher := True\<rparr>"

definition absorb :: "chat_env \<Rightarrow> sink \<Rightarrow> writer \<Rightarrow> chat_state \<Rightarrow> chat_state" where
  "absorb E s w' st =
     (let st = (case rw_committed w' of
                  None \<Rightarrow> st\<lparr>cs_w := (cs_w st)\<lparr>rw_header := rw_header w'\<rparr>\<rparr>
                | Some (code, h) \<Rightarrow>
                    (ObsWriteHeader (st\<lparr>cs_w := (cs_w st)\<lparr>rw_header := h\<rparr>\<rparr>) code)
                      \<lparr>cs_w := (cs_w (ObsWriteHeader (st\<lparr>cs_w := (cs_w st)\<lparr>rw_header := h\<rparr>\<rparr>) code))\<lparr>rw_header := rw_header w'\<rparr>\<rparr>)
      in if rw_out w' = [] then st else passes s (ev_split E (rw_out w')) st)"

text \<open>What a cascade writes: the headers with the step that served, the status, the body.\<close>

definition head_headers :: "string option \<Rightarrow> string \<Rightarrow> writer \<Rightarrow> writer" where
  "head_headers contentType server w =
     (let w = (case contentType of None \<Rightarrow> w | Some ct \<Rightarrow> set_header w ''Content-Type'' ct)
      in set_header w ''X-Nexus-Cascade-Served-By'' server)"

definition absorb_wire :: "chat_env \<Rightarrow> sink \<Rightarrow> wire list \<Rightarrow> chat_state \<Rightarrow> chat_state" where
  "absorb_wire E s out st =
     (case out of
        Head code ct server # rest \<Rightarrow>
          passes s (if rest = [] then [] else ev_wire E rest)
            (ObsWriteHeader (st\<lparr>cs_w := head_headers ct server (cs_w st)\<rparr>) code)
      | _ \<Rightarrow> st)"

text \<open>An error goes to the client's writer itself, past the observing writer.\<close>

definition error_out :: "chat_env \<Rightarrow> nat \<Rightarrow> string \<Rightarrow> string \<Rightarrow> chat_state \<Rightarrow> chat_state" where
  "error_out E status errorType message st =
     st\<lparr>cs_w := writeJSONError (ev_encodeError E) (cs_w st) status errorType message\<rparr>"

section \<open>Rejections before routing\<close>

definition audit :: "chat_deps \<Rightarrow> string \<Rightarrow> string \<Rightarrow> string \<Rightarrow> chat_state \<Rightarrow> chat_state" where
  "audit D route model res = tell (dp_Audit D) [AuditSeen route model res]"

text \<open>Whom the audit names: the peer's address and the first 16 characters of the key's hash.\<close>

definition audit_identity :: "chat_env \<Rightarrow> string \<times> string" where
  "audit_identity E =
     (let tok = BearerToken (ev_authorization E)
      in (stripPort (ev_splitHost E) (ev_remote E), if tok = [] then [] else take 16 (ev_sha E tok)))"

definition recordRejection :: "chat_deps \<Rightarrow> string \<Rightarrow> chat_state \<Rightarrow> chat_state" where
  "recordRejection D reason st =
     (let st = tell (dp_Metrics D) [MetricsRejected reason] st;
          st = tell True [RecordRejected reason] st;
          st = tell (dp_Rejections D) [RejectionSeen reason] st
      in audit D ''rejected'' [] reason st)"

definition RejectionMethod :: string where "RejectionMethod = ''method''"
definition RejectionBodyTooLarge :: string where "RejectionBodyTooLarge = ''body_too_large''"
definition RejectionBadRequest :: string where "RejectionBadRequest = ''bad_request''"
definition RejectionBudget :: string where "RejectionBudget = ''budget''"

definition reject :: "chat_env \<Rightarrow> chat_deps \<Rightarrow> string \<Rightarrow> nat \<Rightarrow> string \<Rightarrow> string \<Rightarrow> chat_state \<Rightarrow> chat_state" where
  "reject E D reason status errorType message st = error_out E status errorType message (recordRejection D reason st)"

definition DefaultMaxBodyBytes :: int where "DefaultMaxBodyBytes = 2 ^ 20"

definition EffectiveMaxBodyBytes :: "chat_deps \<Rightarrow> int" where
  "EffectiveMaxBodyBytes D = (if 0 < dp_MaxBodyBytes D then dp_MaxBodyBytes D else DefaultMaxBodyBytes)"

definition PromptInjectionIsolated :: "chat_deps \<Rightarrow> bool" where
  "PromptInjectionIsolated D \<longleftrightarrow> dp_InjectionMode D = InjectionModeWarn \<or> dp_InjectionMode D = InjectionModeStrict"

text \<open>\<open>json.Unmarshal\<close> into a map: an object, or null for the nil map.\<close>

definition as_body :: "jval option \<Rightarrow> fields option" where
  "as_body v = (case v of Some (JObj m) \<Rightarrow> Some m | Some JNull \<Rightarrow> Some [] | _ \<Rightarrow> None)"

definition read_request :: "chat_env \<Rightarrow> chat_deps \<Rightarrow> chat_state \<Rightarrow> chat_state + chat_state \<times> fields \<times> jval list" where
  "read_request E D st =
     (if ev_method E \<noteq> ''POST'' then
        Inl (reject E D RejectionMethod 405 ErrTypeMethodNotAllowed ''Only POST is supported on /v1/chat/completions'' st)
      else case ev_read E of
        BodyTooLarge \<Rightarrow>
          Inl (reject E D RejectionBodyTooLarge 413 ErrTypeRequestTooLarge
            (''Request body exceeds NEXUS_MAX_BODY_BYTES ('' @ decimal (nat (EffectiveMaxBodyBytes D)) @ '' bytes)'') st)
      | BodyUnreadable \<Rightarrow> Inl (reject E D RejectionBadRequest 400 ErrTypeInvalidRequest ''Failed to read request body'' st)
      | BodyRead bytes \<Rightarrow>
          (case as_body (ev_decode E bytes) of
             None \<Rightarrow> Inl (reject E D RejectionBadRequest 400 ErrTypeInvalidRequest ''Invalid JSON payload'' st)
           | Some body \<Rightarrow>
               (case map_of body ''messages'' of
                  Some (JArr ms) \<Rightarrow> Inr (st, body, ms)
                | _ \<Rightarrow> Inl (reject E D RejectionBadRequest 400 ErrTypeInvalidRequest ''Invalid or missing messages array'' st))))"

definition injection_gate :: "chat_env \<Rightarrow> chat_deps \<Rightarrow> jval list \<Rightarrow> chat_state \<Rightarrow> chat_state + chat_state" where
  "injection_gate E D messages st =
     (if \<not> PromptInjectionIsolated D then Inr st
      else if DetectSuspiciousRoles (dp_injectionPatterns D) messages (dp_InjectionRoles D) = [] then Inr st
      else
        let strict = (dp_InjectionMode D = InjectionModeStrict);
            st = tell (dp_Injections D) [InjectionSeen (if strict then ''strict'' else ''warn'')] st
        in if strict
           then Inl (reject E D RejectionBadRequest 400 ErrTypeInvalidRequest
                  ''Request rejected: suspicious prompt-injection pattern detected in message'' st)
           else Inr st)"

definition requested_model :: "fields \<Rightarrow> string" where "requested_model body = str_field body ''model''"

definition alias_gate ::
  "chat_env \<Rightarrow> chat_deps \<Rightarrow> fields \<Rightarrow> chat_state \<Rightarrow> chat_state + chat_state \<times> fields \<times> alias_target option" where
  "alias_gate E D body st =
     (let m = requested_model body in
      if m = [] then Inr (st, body, None)
      else case ResolveAlias (dp_ModelAliases D) (dp_Providers D) m of
        Some t \<Rightarrow> Inr (st, set_field body ''model'' (JStr (at_Model t)), Some t)
      | None \<Rightarrow>
          if dp_ModelAliasesStrict D \<and> \<not> HasProviderModel (dp_Providers D) m
          then Inl (reject E D RejectionBadRequest 400 ErrTypeInvalidRequest
                 (''Model '' @ [CHR 0x27] @ m @ [CHR 0x27] @ '' is not a known alias or configured provider model'') st)
          else Inr (st, body, None))"

text \<open>All that may end a request before it is routed, in order.\<close>

definition intake ::
  "chat_env \<Rightarrow> chat_deps \<Rightarrow> chat_state \<Rightarrow> chat_state + chat_state \<times> fields \<times> jval list \<times> alias_target option" where
  "intake E D st =
     (case read_request E D st of
        Inl st \<Rightarrow> Inl st
      | Inr (st, body, messages) \<Rightarrow>
          (case injection_gate E D messages st of
             Inl st \<Rightarrow> Inl st
           | Inr st \<Rightarrow>
               (case alias_gate E D body st of
                  Inl st \<Rightarrow> Inl st
                | Inr (st, body, t) \<Rightarrow> Inr (st, body, messages, t))))"

section \<open>Passes over the messages\<close>

text \<open>The examples kept under the token budget; \<open>any\<close> tells that one was kept.\<close>

fun keep_examples :: "(string \<Rightarrow> int) \<Rightarrow> int \<Rightarrow> bool \<Rightarrow> example list \<Rightarrow> example list" where
  "keep_examples cnt remaining any [] = []"
| "keep_examples cnt remaining any (ex # exs) =
     (let tokens = cnt (ex_Content ex) in
      if remaining < tokens \<and> any then []
      else ex # keep_examples cnt (remaining - tokens) True exs)"

definition rag_miss :: "chat_deps \<Rightarrow> string \<Rightarrow> real \<Rightarrow> index_path \<Rightarrow> real \<Rightarrow> chat_state \<Rightarrow> chat_state" where
  "rag_miss D reason score path threshold =
     tell (dp_RAGObserver D) [RAGSeen \<lparr>rv_Hit = False, rv_Filename = [], rv_MissReason = reason, rv_Score = score,
       rv_IndexPath = path, rv_EffectiveThreshold = threshold\<rparr>]"

definition rag_failed :: "chat_env \<Rightarrow> chat_deps \<Rightarrow> chat_state \<Rightarrow> chat_state" where
  "rag_failed E D st =
     (let st = rag_miss D ''embed_error'' 0 PathNone 0 st in
      if dp_Circuits D \<and> ev_ragOpen E
      then tell True (CircuitFailure ''rag'' #
             (if ev_ragKind E \<noteq> [] then [EmbedderFailure (ev_ragKind E), RAGCircuitTrip (ev_ragKind E)] else [])) st
      else st)"

text \<open>The retrieval worked, whether or not the block fitted.\<close>

definition rag_recovered :: "chat_deps \<Rightarrow> chat_state \<Rightarrow> chat_state" where
  "rag_recovered D st =
     (let st = tell (dp_Circuits D) [CircuitRecovery ''rag''] st;
          st = st\<lparr>cs_rag := RecordBreakerSuccess (cs_rag st)\<rparr>;
          kind = st_lastKind (cs_rag st)
      in tell (dp_Circuits D \<and> kind \<noteq> []) [RAGCircuitRecover kind] st)"

definition inject_block ::
  "chat_deps \<Rightarrow> jval list \<Rightarrow> string \<Rightarrow> example \<Rightarrow> real \<Rightarrow> index_path \<Rightarrow> chat_state \<Rightarrow> chat_state \<times> jval list \<times> bool" where
  "inject_block D messages block ex score path st =
     (case InjectRAGWithLimit messages block (EffectiveMaxBodyBytes D) of
        (messages, True) \<Rightarrow>
          (rag_recovered D (tell (dp_RAGObserver D)
             [RAGSeen \<lparr>rv_Hit = True, rv_Filename = ex_Filename ex, rv_MissReason = [], rv_Score = score, rv_IndexPath = path,
                rv_EffectiveThreshold = ThresholdFor (cs_rag st) (ex_Dir ex)\<rparr>] st), messages, True)
      | (messages, False) \<Rightarrow>
          (rag_recovered D (rag_miss D ''size_limit'' 0 PathNone 0
             (st\<lparr>cs_rag := IncInjectionSkippedSizeLimit (cs_rag st)\<rparr>)), messages, False))"

text \<open>
  The results: the messages, whether a block was injected, the file and the score. On the path of one
  example the score is the outer variable, which an inner declaration shadows: it stays 0.
\<close>

definition rag_topk ::
  "chat_env \<Rightarrow> chat_deps \<Rightarrow> jval list \<Rightarrow> string \<Rightarrow> chat_state \<Rightarrow> chat_state \<times> jval list \<times> bool \<times> string \<times> real" where
  "rag_topk E D messages prompt st =
     (case RetrieveTopK (ev_rag E) (cs_rag st) prompt (dp_RAGTopK D) of (s, a) \<Rightarrow>
        (let st = st\<lparr>cs_rag := s\<rparr> in
         if tk_failed a then (rag_failed E D st, messages, False, [], 0)
         else if tk_examples a \<noteq> [] then
           (let kept = keep_examples (ev_tokens E) (dp_RAGMaxInjectionTokens D) False (tk_examples a);
                ex = hd (tk_examples a); score = hd (tk_scores a)
            in if kept \<noteq> [] then
                 (case inject_block D messages (FormatInjectionMulti kept) ex score (tk_path a) st of
                    (st, messages, injected) \<Rightarrow>
                      (st, messages, injected, if injected then ex_Filename ex else [], if injected then score else 0))
               else (rag_miss D ''token_budget'' 0 PathNone 0 st, messages, False, [], 0))
         else if st_examples s = [] then (rag_miss D ''empty_store'' 0 PathNone 0 st, messages, False, [], 0)
         else (rag_miss D ''threshold'' 0 (tk_path a) (st_threshold s) st, messages, False, [], 0)))"

definition rag_single ::
  "chat_env \<Rightarrow> chat_deps \<Rightarrow> jval list \<Rightarrow> string \<Rightarrow> chat_state \<Rightarrow> (chat_state \<times> jval list \<times> bool \<times> string \<times> real) option" where
  "rag_single E D messages prompt st =
     (case Retrieve (ev_rag E) (cs_rag st) prompt of
        None \<Rightarrow> None
      | Some (s, a) \<Rightarrow>
          (let st = st\<lparr>cs_rag := s\<rparr> in
           if an_failed a then Some (rag_failed E D st, messages, False, [], 0)
           else case an_example a of
             Some ex \<Rightarrow>
               (case inject_block D messages (FormatInjection ex) ex (an_score a) (an_path a) st of
                  (st, messages, injected) \<Rightarrow> Some (st, messages, injected, if injected then ex_Filename ex else [], 0))
           | None \<Rightarrow>
               if st_examples s = [] then Some (rag_miss D ''empty_store'' 0 PathNone 0 st, messages, False, [], 0)
               else Some (rag_miss D ''threshold'' (an_score a) (an_path a) (st_threshold s) st, messages, False, [], 0)))"

definition rag_step ::
  "chat_env \<Rightarrow> chat_deps \<Rightarrow> jval list \<Rightarrow> string \<Rightarrow> chat_state \<Rightarrow> (chat_state \<times> jval list \<times> bool \<times> string \<times> real) option" where
  "rag_step E D messages prompt st =
     map_option (\<lambda>(st, r). (tell (dp_RAGCacheObserver D) [RAGCacheSeen (fst (ev_embedHits E) < snd (ev_embedHits E))] st, r))
       (if 1 < dp_RAGTopK D then Some (rag_topk E D messages prompt st) else rag_single E D messages prompt st)"

text \<open>What the later stages use: the body, the messages, the prompt and what the passes did.\<close>

record prepared =
  pp_body :: fields
  pp_messages :: "jval list"
  pp_prompt :: string
  pp_ragInjected :: bool
  pp_ragFilename :: string
  pp_ragScore :: real
  pp_preChars :: int
  pp_toon :: compression_method

definition prepare :: "chat_env \<Rightarrow> chat_deps \<Rightarrow> fields \<Rightarrow> jval list \<Rightarrow> chat_state \<Rightarrow> (chat_state \<times> prepared) option" where
  "prepare E D body messages st =
     (let messages = (if PromptInjectionIsolated D then ApplyPromptEngineeringIsolated messages (dp_MetaPrompt D)
                      else ApplyPromptEngineering messages (dp_MetaPrompt D))
      in case rag_step E D messages (ExtractLatestUserPrompt messages) st of
           None \<Rightarrow> None
         | Some (st, messages, injected, filename, score) \<Rightarrow>
             (case CompressJSONBlocks (ev_toon E) messages (dp_TOONUnfenced D) of
                None \<Rightarrow> None
              | Some (compressed, compression) \<Rightarrow>
                  (let noted = (if compression = CompressionMethodNone then compressed
                         else if PromptInjectionIsolated D then AppendSystemNoteIsolated compressed (dp_TOONNotice D)
                         else AppendSystemNote compressed (dp_TOONNotice D))
                   in Some (st, \<lparr>pp_body = set_field body ''messages'' (JArr noted), pp_messages = noted,
                        pp_prompt = ExtractLatestUserPrompt noted, pp_ragInjected = injected, pp_ragFilename = filename,
                        pp_ragScore = score, pp_preChars = ev_chars E messages, pp_toon = compression\<rparr>))))"

section \<open>The routing decision\<close>

definition source_name :: "source \<Rightarrow> string" where
  "source_name s = (case s of
     SourceGuardrail \<Rightarrow> ''guardrail'' | SourceDSL \<Rightarrow> ''dsl'' | SourceSLM \<Rightarrow> ''slm'' | SourceSLMError \<Rightarrow> ''slm-error''
   | SourceEscalation \<Rightarrow> ''escalation'' | SourceSLMEscalation \<Rightarrow> ''slm-escalation''
   | SourceBudgetDownTier \<Rightarrow> ''budget-down-tier'' | SourceDSLPromoted \<Rightarrow> ''dsl-promoted'')"

definition plan_request_of :: "chat_env \<Rightarrow> chat_deps \<Rightarrow> prepared \<Rightarrow> plan_request" where
  "plan_request_of E D p =
     (case (case ev_vram E of Some (dyn, label) \<Rightarrow> if 0 < dyn then (dyn, label) else (dp_TokenGuardrail D, ''static-fallback'')
            | None \<Rightarrow> (dp_TokenGuardrail D, ''static-fallback'')) of
        (budget, label) \<Rightarrow>
          \<lparr>rq_Prompt = pp_prompt p, rq_Budget = budget, rq_BudgetSource = label,
           rq_Conversation = BuildConversationContext (pp_messages p) (dp_ContextTurns D) (dp_ContextChars D)\<rparr>)"

text \<open>What is recorded and shown of a decision; \<open>r\<close> is the route with the alias's override.\<close>

definition DefaultSuccessScore :: int where "DefaultSuccessScore = 3"

definition note_decision :: "chat_env \<Rightarrow> chat_deps \<Rightarrow> decision \<Rightarrow> route \<Rightarrow> string \<Rightarrow> chat_state \<Rightarrow> chat_state" where
  "note_decision E D d r prompt st =
     (let p = cs_planner st;
          p = (if de_Source d = SourceSLM \<or> de_Source d = SourceDSL
               then p\<lparr>pl_Promoter := RecordDecision (pl_Promoter p) prompt r (ev_now E)\<rparr> else p);
          st = st\<lparr>cs_planner := p\<rparr>;
          st = tell (pl_Confidence p \<noteq> None \<and> de_Source d = SourceDSL) [ConfidenceRecorded (de_TaskType d) r] st;
          st = header ''X-Nexus-Route'' (SanitizeHeaderValue (de_Route d)) st;
          st = header ''X-Nexus-Route-Source'' (SanitizeHeaderValue (source_name (de_Source d))) st;
          st = header ''X-Nexus-Route-Reason'' (SanitizeHeaderValue (de_Reason d)) st;
          st = header ''X-Nexus-Route-Confidence'' (SanitizeHeaderValue (formatConfidence (de_Confidence d))) st
      in tell (dp_Routes D) [RouteSeen d] st)"

definition route_request ::
  "chat_env \<Rightarrow> chat_deps \<Rightarrow> prepared \<Rightarrow> alias_target option \<Rightarrow> chat_state \<Rightarrow> (chat_state \<times> decision \<times> route) option" where
  "route_request E D p alias st =
     (case Plan (ev_plan E) (cs_planner st) (plan_request_of E D p) of
        None \<Rightarrow> None
      | Some (pl, d, evs) \<Rightarrow>
          (let r = (if alias \<noteq> None then RouteFrontier else de_Route d);
               st = tell True (map PlannerSeen evs) (st\<lparr>cs_planner := pl\<rparr>)
           in Some (note_decision E D d r (pp_prompt p) st, d, r)))"

definition is_streaming :: "fields \<Rightarrow> bool" where
  "is_streaming body \<longleftrightarrow> map_of body ''stream'' \<noteq> Some (JBool False)"

text \<open>The local member is left out when it is unhealthy or cooling down, on the routes that use it.\<close>

definition degrade :: "chat_env \<Rightarrow> route \<Rightarrow> chat_state \<Rightarrow> chat_state \<times> bool" where
  "degrade E r st =
     (let cooling = Active (cs_cooldown st) (ev_now E);
          skipLocal = ((\<not> ev_localHealthy E \<or> cooling) \<and> (r = RouteLocal \<or> r = RouteFusion))
      in if skipLocal then
           (let st = header ''X-Nexus-Degraded'' ''true'' st
            in (if cooling then header ''X-Nexus-Local-Cooldown'' ''true'' st else st, True))
         else (header ''X-Nexus-Degraded'' ''false'' st, False))"

text \<open>The writers above the observing one; an invalid custom pattern panics.\<close>

definition chain_writers :: "chat_env \<Rightarrow> chat_deps \<Rightarrow> chat_state \<Rightarrow> chat_state option" where
  "chain_writers E D st =
     (let st = (if dp_Judge D \<or> dp_Quality D \<or> dp_Debug D
                then st\<lparr>cs_capture := Some (newCaptureWriter (if dp_maxObserved D \<le> 0 then DefaultObservedCap else dp_maxObserved D))\<rparr>
                else st\<lparr>cs_capture := None\<rparr>)
      in if RedactionEnabled (dp_RedactEnabled D) (dp_RedactProfile D) \<and> dp_Redactions D then
           (case compileCustomPatterns (ev_compile E) (dp_RedactPatterns D) of
              Inl e \<Rightarrow> None
            | Inr custom \<Rightarrow>
                Some (st\<lparr>cs_redactor := Some ((NewResponseRedactor True (PatternsForProfile (ev_builtin E) (dp_RedactProfile D) custom) 0)
                  \<lparr>rd_max := (if dp_RedactBuffer D \<le> 0 then DefaultRedactBufferBytes else dp_RedactBuffer D)\<rparr>)\<rparr>))
         else Some (st\<lparr>cs_redactor := None\<rparr>))"

section \<open>The spend guard\<close>

text \<open>The estimate is zero unless a guard is wired and the route reaches the frontier.\<close>

definition dispatch_cost :: "chat_env \<Rightarrow> chat_deps \<Rightarrow> prepared \<Rightarrow> route \<Rightarrow> chat_state \<Rightarrow> usd" where
  "dispatch_cost E D p r st =
     (if pl_Budget (cs_planner st) \<noteq> None \<and> (r = RouteFrontier \<or> r = RouteFusion)
      then real_of_int (ev_tokens E (pp_prompt p)) * dp_CostPer1K D / 1000 else 0)"

definition budget_refuses :: "chat_env \<Rightarrow> usd \<Rightarrow> chat_state \<Rightarrow> chat_state \<times> bool" where
  "budget_refuses E cost st =
     (case pl_Budget (cs_planner st) of
        None \<Rightarrow> (st, False)
      | Some g \<Rightarrow>
          if 0 < cost then
            (case Check g (ev_now E) cost of
               (g, over, alerts) \<Rightarrow>
                 (tell True (map BudgetAlert alerts) (st\<lparr>cs_planner := (cs_planner st)\<lparr>pl_Budget := Some g\<rparr>\<rparr>), over))
          else (st, False))"

definition charge :: "chat_env \<Rightarrow> usd \<Rightarrow> chat_state \<Rightarrow> chat_state" where
  "charge E cost st =
     (case pl_Budget (cs_planner st) of
        None \<Rightarrow> st
      | Some g \<Rightarrow>
          if 0 < cost then
            (case Record g (ev_now E) cost ''frontier'' of
               (g, alerts) \<Rightarrow> tell True (map BudgetAlert alerts) (st\<lparr>cs_planner := (cs_planner st)\<lparr>pl_Budget := Some g\<rparr>\<rparr>))
          else st)"

definition reject_budget :: "chat_env \<Rightarrow> chat_deps \<Rightarrow> chat_state \<Rightarrow> chat_state" where
  "reject_budget E D = reject E D RejectionBudget 429 ErrTypeBudgetExceeded ''Frontier budget exhausted for the rolling 24h window''"

section \<open>Fusion\<close>

text \<open>What a dispatch leaves for the records.\<close>

record served =
  sv_model :: string
  sv_err :: "chat_err option"
  sv_skipped :: bool
  sv_similarity :: real
  sv_keyHex :: string
  sv_synthesis :: string
  sv_toolCalls :: nat

definition nothing_served :: served where
  "nothing_served = \<lparr>sv_model = [], sv_err = None, sv_skipped = False, sv_similarity = 0, sv_keyHex = [], sv_synthesis = [],
     sv_toolCalls = 0\<rparr>"

definition panel_request :: "chat_env \<Rightarrow> chat_deps \<Rightarrow> prepared \<Rightarrow> bool \<Rightarrow> panel_req" where
  "panel_request E D p skipLocal =
     \<lparr>pq_localModel = dp_LocalModel D, pq_frontierModel = dp_FrontierModel D, pq_arbiterModel = dp_FrontierModel D,
      pq_body = map_of (pp_body p), pq_latestPrompt = pp_prompt p, pq_skipLocal = skipLocal,
      pq_arbiterCacheTTL = dp_ArbiterCacheTTL D, pq_simCfg = dp_simCfg D, pq_local = ev_local E, pq_frontier = ev_frontier E,
      pq_localFirst = ev_localFirst E, pq_now = ev_now E\<rparr>"

definition panel_target :: "chat_deps \<Rightarrow> bool \<Rightarrow> target" where
  "panel_target D skipLocal =
     ToPanel skipLocal (effectiveFusionTimeout (dp_FusionLocalTimeout D) (dp_FusionTimeout D))
       (effectiveFusionTimeout (dp_FusionFrontierTimeout D) (dp_FusionTimeout D))"

definition run_panel ::
  "chat_env \<Rightarrow> chat_deps \<Rightarrow> prepared \<Rightarrow> bool \<Rightarrow> chat_state \<Rightarrow> chat_state \<times> panel_outcome \<times> bool \<times> panel_err option" where
  "run_panel E D p skipLocal st =
     (let q = panel_request E D p skipLocal;
          ps = \<lparr>ps_w = sink_writer st, ps_cache = cs_arbiter st, ps_metrics = cs_metrics st, ps_asked = []\<rparr>;
          st = tell True [Dispatched (panel_target D skipLocal) (pp_body p)] st;
          (ps, out, cached, err) =
            (if is_streaming (pp_body p) \<and> dp_Progressive D
             then (case PanelStreaming (ev_fl E) q (ev_arbiter E) (dp_AgreementThreshold D) ps of
                     (ps, out, err) \<Rightarrow> (ps, out, po_ArbiterCacheHit out, err))
             else Panel (ev_fl E) q (ev_arbiter E) False ps)
      in (absorb E ToRedactor (ps_w ps) (st\<lparr>cs_arbiter := ps_cache ps, cs_metrics := ps_metrics ps\<rparr>), out, cached, err))"

definition dispatch_fusion ::
  "chat_env \<Rightarrow> chat_deps \<Rightarrow> prepared \<Rightarrow> bool \<Rightarrow> usd \<Rightarrow> chat_state \<Rightarrow> chat_state \<times> served" where
  "dispatch_fusion E D p skipLocal cost st =
     (case budget_refuses E cost st of
        (st, True) \<Rightarrow> (reject_budget E D st, nothing_served)
      | (st, False) \<Rightarrow>
          (case run_panel E D p skipLocal st of
             (st, out, cached, err) \<Rightarrow>
               (let progressive = (is_streaming (pp_body p) \<and> dp_Progressive D);
                    st = tell (dp_ArbiterObserver D) [ArbiterCacheSeen cached] st;
                    st = tell (dp_Fusions D) [FusionSeen (po_ArbiterSkipped out) (po_SkipReason out)] st;
                    st = (case err of
                            Some e \<Rightarrow>
                              error_out E 502 ErrTypeUpstreamError ''Fusion panel failed; both local and frontier members errored''
                                (tell (dp_PanelPanics D \<and> Contains (ev_text E (PanelErr e)) ''panic:'') [PanelPanicSeen] st)
                          | None \<Rightarrow> charge E cost st);
                    st = tell (dp_Judge D \<and> po_ArbiterSynthesis out \<noteq> [])
                           [JudgeSampled \<lparr>js_Instruction = pp_prompt p, js_Output = po_ArbiterSynthesis out,
                              js_LocalModel = dp_FrontierModel D, js_Route = RouteFusion, js_RAGInjected = False, js_RAGSimilarity = 0\<rparr>] st
                in (st, \<lparr>sv_model = dp_FrontierModel D, sv_err = map_option PanelErr err,
                      sv_skipped = (progressive \<and> po_ArbiterSkipped out),
                      sv_similarity = (if progressive then po_Similarity out else 0),
                      sv_keyHex = po_ArbiterCacheKeyHex out, sv_synthesis = po_ArbiterSynthesis out, sv_toolCalls = 0\<rparr>))))"

section \<open>Local\<close>

definition completions :: "string \<Rightarrow> string" where
  "completions base = trim_slashes base @ ''/v1/chat/completions''"

text \<open>The step of a registered provider; an unknown adapter is a nil interface, and calling it panics.\<close>

definition provider_step :: "provider_config \<Rightarrow> cascade_step option" where
  "provider_step p =
     map_option (\<lambda>a. \<lparr>st_Name = pv_Name p, st_URL = RequestPath a (trim_slashes (pv_BaseURL p)), st_APIKey = pv_APIKey p,
         st_Model = pv_Model p, st_AuthHeaders = Some (map (\<lambda>(k, v). (k, [v])) (AuthHeaders a (pv_APIKey p)))\<rparr>)
       (NewAdapter (pv_AdapterType p))"

definition provider_steps :: "provider_registry \<Rightarrow> cascade_step list option" where
  "provider_steps reg = those (map provider_step (All reg))"

definition registered :: "chat_deps \<Rightarrow> provider_registry option" where
  "registered D = (case dp_Providers D of Some reg \<Rightarrow> if 0 < Len reg then Some reg else None | None \<Rightarrow> None)"

definition EffectiveCascadeMaxResponseBytes :: "chat_deps \<Rightarrow> int" where
  "EffectiveCascadeMaxResponseBytes D = (if 0 < dp_CascadeMaxBytes D then dp_CascadeMaxBytes D else 64 * 2 ^ 20)"

definition cascade_of :: "chat_deps \<Rightarrow> cascade_step list \<Rightarrow> (assistant_message, cascade_err) coalescer option \<Rightarrow> cascade" where
  "cascade_of D steps co =
     \<lparr>ca_Steps = steps, ca_Timeout = dp_CascadeTimeout D, ca_MaxResponseBytes = EffectiveCascadeMaxResponseBytes D,
      ca_TimeoutFloor = dp_CascadeFloor D, ca_TimeoutCeiling = dp_CascadeCeiling D, ca_TimeoutPer1kTokens = dp_CascadePer1k D,
      ca_Coalescer = co\<rparr>"

definition local_step_of :: "chat_deps \<Rightarrow> cascade_step" where
  "local_step_of D =
     \<lparr>st_Name = ''local'', st_URL = completions (dp_OllamaURL D), st_APIKey = [], st_Model = dp_LocalModel D, st_AuthHeaders = None\<rparr>"

definition legacy_config :: "chat_deps \<Rightarrow> bool \<Rightarrow> cascade_config" where
  "legacy_config D skipLocal =
     \<lparr>cg_LocalURL = dp_OllamaURL D, cg_LocalModel = dp_LocalModel D, cg_FrontierURL = dp_FrontierURL D,
      cg_FrontierModel = dp_FrontierModel D, cg_FrontierKey = dp_FrontierKey D, cg_ZAIURL = dp_ZAIURL D, cg_ZAIModel = dp_ZAIModel D,
      cg_ZAIKey = dp_ZAIKey D, cg_Timeout = dp_CascadeTimeout D, cg_TimeoutFloor = dp_CascadeFloor D,
      cg_TimeoutCeiling = dp_CascadeCeiling D, cg_TimeoutPer1kTokens = dp_CascadePer1k D,
      cg_MaxResponseBytes = EffectiveCascadeMaxResponseBytes D, cg_SkipLocal = skipLocal\<rparr>"

definition local_cascade :: "chat_deps \<Rightarrow> bool \<Rightarrow> (assistant_message, cascade_err) coalescer option \<Rightarrow> cascade option" where
  "local_cascade D skipLocal co =
     (case registered D of
        Some reg \<Rightarrow>
          map_option (\<lambda>steps. cascade_of D ((if skipLocal then [] else [local_step_of D]) @ steps) co) (provider_steps reg)
      | None \<Rightarrow> Some ((BuildLocalCascade (legacy_config D skipLocal))\<lparr>ca_Coalescer := co\<rparr>))"

text \<open>What the judge and the quality check get of a completion that went through the capture.\<close>

definition sampled :: "chat_deps \<Rightarrow> prepared \<Rightarrow> string \<Rightarrow> route \<Rightarrow> bool \<Rightarrow> real \<Rightarrow> chat_state \<Rightarrow> chat_state" where
  "sampled D p model r injected similarity st =
     (case cs_capture st of
        None \<Rightarrow> st
      | Some c \<Rightarrow>
          (let st = tell (dp_Judge D)
                 [JudgeSampled \<lparr>js_Instruction = pp_prompt p, js_Output = CaptureBuffer c, js_LocalModel = model, js_Route = r,
                    js_RAGInjected = injected, js_RAGSimilarity = similarity\<rparr>] st
           in tell (dp_Quality D) (map EditSeen (emitDetectedEdits (CaptureBuffer c))) st))"

definition fallback_seen :: "chat_deps \<Rightarrow> cascade_result \<Rightarrow> chat_state \<Rightarrow> chat_state" where
  "fallback_seen D res =
     tell (cc_FallbackReason res \<noteq> [] \<and> dp_Fallbacks D)
       [FallbackSeen (cc_FallbackReason res) (cc_FallbackLatency res) (cc_FallbackRoute res)]"

text \<open>The cooldown's own observer fires inside \<open>RecordFailure\<close>.\<close>

definition arm_cooldown :: "chat_env \<Rightarrow> chat_deps \<Rightarrow> chat_state \<Rightarrow> chat_state" where
  "arm_cooldown E D st =
     (case cs_cooldown st of
        None \<Rightarrow> st
      | Some c \<Rightarrow>
          (case Circuit.RecordFailure (Some c) (ev_now E) of
             (c, fired) \<Rightarrow> tell (dp_Circuits D) [CircuitFailure ''ollama''] (tell fired [CooldownSeen] (st\<lparr>cs_cooldown := c\<rparr>))))"

definition local_streaming :: "chat_env \<Rightarrow> chat_deps \<Rightarrow> prepared \<Rightarrow> cascade \<Rightarrow> chat_state \<Rightarrow> chat_state \<times> served" where
  "local_streaming E D p cas st =
     (let st = tell True [Dispatched (ToCascade (ca_Steps cas)) (pp_body p)] st in
      case Run (ev_cl E) (ev_client E) (ev_attempts E) cas of
        (cas, res, err, out, _) \<Rightarrow>
          (let st = absorb_wire E ToCapture out (st\<lparr>cs_coalescer := ca_Coalescer cas\<rparr>);
               st = fallback_seen D res st;
               st = (if cc_LocalStepFailed res then arm_cooldown E D st else st)
           in case err of
                Some e \<Rightarrow>
                  (error_out E 502 ErrTypeUpstreamError ''Cascade failed; all local and frontier steps errored'' st,
                   nothing_served\<lparr>sv_model := dp_LocalModel D, sv_err := Some (CascadeErr e)\<rparr>)
              | None \<Rightarrow>
                  (if cc_Succeeded res
                   then sampled D p (dp_LocalModel D) RouteLocal (pp_ragInjected p) (pp_ragScore p) st else st,
                   nothing_served\<lparr>sv_model := dp_LocalModel D, sv_toolCalls := length (cc_ToolCalls res)\<rparr>)))"

definition local_buffered :: "chat_env \<Rightarrow> chat_deps \<Rightarrow> prepared \<Rightarrow> bool \<Rightarrow> chat_state \<Rightarrow> chat_state \<times> served" where
  "local_buffered E D p skipLocal st =
     (let url = (if skipLocal then dp_FrontierURL D else completions (dp_OllamaURL D));
          key = (if skipLocal then dp_FrontierKey D else []);
          st = tell True [Dispatched (ToBuffered url key) (pp_body p)] st
      in case BufferedFetchWithContext (fl_is_object (ev_fl E)) (fl_maxResponseBytes (ev_fl E)) (sink_writer st)
                (ev_exchange E url key (pp_body p)) of
           (w', err) \<Rightarrow>
             (let st = absorb E ToCapture w' st in
              case err of
                Some e \<Rightarrow>
                  (let st = error_out E 502 ErrTypeUpstreamError ''Buffered fetch of upstream failed'' st
                   in (if skipLocal then st else arm_cooldown E D st, nothing_served\<lparr>sv_err := Some (UpErr e)\<rparr>))
              | None \<Rightarrow>
                  (sampled D p (dp_LocalModel D) RouteLocal (pp_ragInjected p) (pp_ragScore p) st,
                   nothing_served\<lparr>sv_model := (if skipLocal then dp_FrontierModel D else dp_LocalModel D)\<rparr>)))"

definition dispatch_local :: "chat_env \<Rightarrow> chat_deps \<Rightarrow> prepared \<Rightarrow> bool \<Rightarrow> chat_state \<Rightarrow> (chat_state \<times> served) option" where
  "dispatch_local E D p skipLocal st =
     (case (if dp_hasLimiter D then ev_acquire E else None) of
        Some e \<Rightarrow>
          Some (error_out E 503 ErrTypeLocalCapacityError ''Local route is at capacity; retry or fall back to frontier'' st,
                nothing_served\<lparr>sv_model := dp_LocalModel D, sv_err := Some (AcquireErr e)\<rparr>)
      | None \<Rightarrow>
          (let p = p\<lparr>pp_body := set_field (pp_body p) ''model'' (JStr (dp_LocalModel D))\<rparr> in
           case local_cascade D skipLocal (cs_coalescer st) of
             None \<Rightarrow> None
           | Some cas \<Rightarrow>
               Some (if is_streaming (pp_body p) then local_streaming E D p cas st else local_buffered E D p skipLocal st)))"

section \<open>Frontier\<close>

definition failover_cascade :: "chat_deps \<Rightarrow> provider_registry \<Rightarrow> cascade option" where
  "failover_cascade D reg =
     map_option (\<lambda>steps.
         cascade_of D (if 0 < dp_FailoverMax D \<and> dp_FailoverMax D < int (length steps) then take (nat (dp_FailoverMax D)) steps else steps) None)
       (provider_steps reg)"

definition run_failover :: "chat_env \<Rightarrow> chat_deps \<Rightarrow> prepared \<Rightarrow> usd \<Rightarrow> string \<Rightarrow> cascade \<Rightarrow> chat_state \<Rightarrow> chat_state \<times> served" where
  "run_failover E D p cost model cas st =
     (let st = tell True [Dispatched (ToFailover (ca_Steps cas)) (pp_body p)] st in
      case (if is_streaming (pp_body p) then Run (ev_cl E) (ev_client E) (ev_attempts E) cas
            else RunBuffered (ev_cl E) None (ev_attempts E) cas) of
        (_, res, err, out, _) \<Rightarrow>
          (let st = fallback_seen D res (absorb_wire E ToObs out st) in
           case err of
             Some e \<Rightarrow>
               (error_out E 502 ErrTypeUpstreamError ''Frontier failover exhausted; all providers errored'' st,
                nothing_served\<lparr>sv_model := model, sv_err := Some (CascadeErr e)\<rparr>)
           | None \<Rightarrow> (charge E cost st, nothing_served\<lparr>sv_model := model\<rparr>)))"

definition run_frontier ::
  "chat_env \<Rightarrow> chat_deps \<Rightarrow> prepared \<Rightarrow> route \<Rightarrow> usd \<Rightarrow> string \<Rightarrow> string \<Rightarrow> string \<Rightarrow> chat_state \<Rightarrow> chat_state \<times> served" where
  "run_frontier E D p r cost model url key st =
     (let streaming = is_streaming (pp_body p);
          st = tell True [Dispatched (if streaming then ToStream url key else ToBuffered url key) (pp_body p)] st;
          x = ev_exchange E url key (pp_body p)
      in case (if streaming then StreamWithContext (fl_valid (ev_fl E)) (sink_writer st) x
               else BufferedFetchWithContext (fl_is_object (ev_fl E)) (fl_maxResponseBytes (ev_fl E)) (sink_writer st) x) of
           (w', err) \<Rightarrow>
             (let st = absorb E ToRedactor w' st in
              case err of
                Some ErrUpstreamTruncated \<Rightarrow>
                  (tell (dp_Truncations D) [TruncationSeen r] (header ''X-Nexus-Truncated'' ''true'' st),
                   nothing_served\<lparr>sv_model := model, sv_err := Some (UpErr ErrUpstreamTruncated)\<rparr>)
              | Some e \<Rightarrow>
                  (error_out E 502 ErrTypeUpstreamError ''Frontier upstream call failed'' st,
                   nothing_served\<lparr>sv_model := model, sv_err := Some (UpErr e)\<rparr>)
              | None \<Rightarrow>
                  (sampled D p (dp_FrontierModel D) r False 0 (charge E cost st), nothing_served\<lparr>sv_model := model\<rparr>)))"

text \<open>With failover on and no alias, the first provider's adapter is used before the budget is asked.\<close>

definition dispatch_frontier ::
  "chat_env \<Rightarrow> chat_deps \<Rightarrow> prepared \<Rightarrow> route \<Rightarrow> alias_target option \<Rightarrow> usd \<Rightarrow> chat_state \<Rightarrow> (chat_state \<times> served) option" where
  "dispatch_frontier E D p r alias cost st =
     (let reg = (if dp_Failover D then registered D else None);
          model = (case alias of Some t \<Rightarrow> at_Model t | None \<Rightarrow> dp_FrontierModel D);
          url = (case alias of Some t \<Rightarrow> completions (at_BaseURL t) | None \<Rightarrow> dp_FrontierURL D);
          key = (case alias of Some t \<Rightarrow> at_APIKey t | None \<Rightarrow> dp_FrontierKey D)
      in if alias = None \<and> (case reg of Some g \<Rightarrow> provider_step (hd (All g)) = None | None \<Rightarrow> False) then None
         else
           case budget_refuses E cost st of
             (st, True) \<Rightarrow> Some (reject_budget E D st, nothing_served\<lparr>sv_model := model\<rparr>)
           | (st, False) \<Rightarrow>
               (case reg of
                  Some g \<Rightarrow> map_option (\<lambda>cas. run_failover E D p cost model cas st) (failover_cascade D g)
                | None \<Rightarrow> Some (run_frontier E D p r cost model url key st)))"

definition dispatch ::
  "chat_env \<Rightarrow> chat_deps \<Rightarrow> prepared \<Rightarrow> route \<Rightarrow> alias_target option \<Rightarrow> bool \<Rightarrow> usd \<Rightarrow> chat_state \<Rightarrow> (chat_state \<times> served) option" where
  "dispatch E D p r alias skipLocal cost st =
     (if r = RouteFusion then Some (dispatch_fusion E D p skipLocal cost st)
      else if r = RouteLocal then dispatch_local E D p skipLocal st
      else dispatch_frontier E D p r alias cost st)"

section \<open>The records of a request\<close>

definition metrics_of ::
  "chat_env \<Rightarrow> chat_deps \<Rightarrow> prepared \<Rightarrow> route \<Rightarrow> served \<Rightarrow> telemetry_row \<Rightarrow> nat \<Rightarrow> metrics_row" where
  "metrics_of E D p r sv row bytesOut =
     (let savings = totalTokenSavings (pp_preChars p) (ev_chars E (pp_messages p));
          inputTokens = ev_tokens E (pp_prompt p); outputTokens = int (bytesOut div 4);
          cost = frontierCostEstimate r (sv_model sv) inputTokens outputTokens (dp_CostPer1K D) (dp_CostUseOutputTokens D) (dp_Providers D);
          baseline = baselineCostEstimate (inputTokens + outputTokens) (dp_CostBaseline D);
          saved = baseline - ce_Total cost;
          arbiter = (if r = RouteFusion \<and> \<not> sv_skipped sv
            then ce_Total (frontierCostEstimate RouteFrontier (sv_model sv) inputTokens 0 (dp_CostPer1K D) (dp_CostUseOutputTokens D) (dp_Providers D))
            else 0)
      in \<lparr>mr_row = row, mr_TOONSavingsTokens = savings, mr_TOONMethod = pp_toon p, mr_RAGInjected = pp_ragInjected p,
          mr_RAGFilename = pp_ragFilename p, mr_Cost = cost, mr_BaselineCost = baseline,
          mr_Savings = (if saved < 0 then 0 else saved), mr_ArbiterCost = arbiter,
          mr_ArbiterCacheKeyHex = sv_keyHex sv, mr_ArbiterSynthesis = sv_synthesis sv, mr_Tenant = ev_tenant E\<rparr>)"

definition conclude ::
  "chat_env \<Rightarrow> chat_deps \<Rightarrow> string \<Rightarrow> prepared \<Rightarrow> decision \<Rightarrow> route \<Rightarrow> served \<Rightarrow> chat_state \<Rightarrow> chat_state" where
  "conclude E D reqID p d r sv st =
     (let streaming = is_streaming (pp_body p);
          st = (case cs_redactor st of
                  None \<Rightarrow> st | Some rd \<Rightarrow> tell (dp_Redactions D) [RedactionSeen (dp_RedactProfile D) (Substitutions rd)] st);
          firstWrite = (if cs_wrote st then Some (ev_firstWrite E) else None);
          totalMs = float_ms (ev_since E 5); ttftMs = ttft streaming (ev_started E) firstWrite;
          row = buildRecord reqID (ev_started E) (ev_since E 6) firstWrite (cs_bytes st) streaming r (sv_model sv)
                  (ev_tokens E (pp_prompt p)) (map_option (ev_text E) (sv_err sv)) (sv_skipped sv) (sv_similarity sv) (sv_toolCalls sv) d;
          failed = (sv_err sv \<noteq> None \<or> 400 \<le> StatusCode st);
          st = tell (dp_Metrics D) [MetricsSeen (metrics_of E D p r sv row (cs_bytes st))] st;
          st = tell True [RecordSeen row] st;
          st = audit D r (sv_model sv) (if failed then ''error'' else ''success'') st;
          st = tell (dp_Latencies D) [LatencySeen r (totalMs / 1000) (if 0 < ttftMs then real_of_int ttftMs / 1000 else 0) failed (pp_toon p)] st;
          pe = millis (ev_since E 1); rg = millis (ev_since E 2) - pe; tn = millis (ev_since E 3) - pe - rg;
          sl = millis (ev_since E 4) - pe - rg - tn
      in tell (dp_Stages D) [StagesSeen rg pe tn sl ttftMs (de_Confidence d) (de_TaskType d)] st)"

section \<open>The handler\<close>

definition serve ::
  "chat_env \<Rightarrow> chat_deps \<Rightarrow> fields \<Rightarrow> jval list \<Rightarrow> alias_target option \<Rightarrow> chat_state \<Rightarrow> chat_state option" where
  "serve E D body messages alias st =
     (case prepare E D body messages st of
        None \<Rightarrow> None
      | Some (st, p) \<Rightarrow>
          (case route_request E D p alias st of
             None \<Rightarrow> None
           | Some (st, d, r) \<Rightarrow>
               (case degrade E r st of
                  (st, skipLocal) \<Rightarrow>
                    (let cost = dispatch_cost E D p r st in
                     case chain_writers E D st of
                       None \<Rightarrow> None
                     | Some st \<Rightarrow>
                         map_option (\<lambda>(st, sv). conclude E D (requestID (ev_requestIDHeader E) (ev_random E)) p d r sv st)
                           (dispatch E D p r alias skipLocal cost st)))))"

definition Chat :: "chat_env \<Rightarrow> chat_deps \<Rightarrow> chat_state \<Rightarrow> chat_state option" where
  "Chat E D st =
     (case intake E D st of
        Inl st \<Rightarrow> Some st
      | Inr (st, body, messages, alias) \<Rightarrow> serve E D body messages alias st)"

text \<open>The response of a new request.\<close>

definition fresh_response :: "chat_state \<Rightarrow> bool" where
  "fresh_response st \<longleftrightarrow> rw_committed (cs_w st) = None \<and> rw_out (cs_w st) = [] \<and> rw_left (cs_w st) = None
     \<and> cs_status st = None \<and> cs_bytes st = 0 \<and> cs_redactor st = None \<and> cs_capture st = None \<and> cs_seen st = []"

end
