(* ===== verification/ChatFacts.thy ===== *)
theory ChatFacts
  imports Chat
begin

text \<open>
  What holds of the chat handler: which requests it refuses, how often and where it asks an upstream, what
  the spend guard sees, what redaction, aliases and failover do to each other, and what is recorded. The
  frame lemmas say what each writer and each stage leaves alone.
\<close>

section \<open>Frames\<close>

text \<open>The writers change the response only.\<close>

definition same_rest :: "chat_state \<Rightarrow> chat_state \<Rightarrow> bool" where
  "same_rest st st' \<longleftrightarrow> cs_seen st' = cs_seen st \<and> cs_planner st' = cs_planner st \<and> cs_cooldown st' = cs_cooldown st
     \<and> cs_rag st' = cs_rag st \<and> cs_coalescer st' = cs_coalescer st \<and> cs_arbiter st' = cs_arbiter st \<and> cs_metrics st' = cs_metrics st"

lemma same_rest_refl [simp]: "same_rest st st" by (simp add: same_rest_def)

lemma same_rest_trans: "same_rest a b \<Longrightarrow> same_rest b c \<Longrightarrow> same_rest a c" by (simp add: same_rest_def)

lemma same_rest_ObsWrite [simp]: "same_rest st (ObsWrite st b)" by (simp add: same_rest_def ObsWrite_def)

lemma same_rest_ObsWriteHeader [simp]: "same_rest st (ObsWriteHeader st c)" by (simp add: same_rest_def ObsWriteHeader_def)

lemma same_rest_foldl: "(\<And>st x. same_rest st (f st x)) \<Longrightarrow> same_rest st (foldl f st xs)"
proof (induction xs arbitrary: st)
  case (Cons x xs)
  then show ?case by (auto intro: same_rest_trans)
qed simp

lemma same_rest_redact_pass [simp]: "same_rest st (redact_pass op st)"
proof (cases "cs_redactor st")
  case None
  then show ?thesis by (simp add: redact_pass_def split: write_op.split)
next
  case (Some r)
  have "same_rest st (foldl ObsWrite (st\<lparr>cs_redactor := x\<rparr>) xs)" for x xs
    by (rule same_rest_trans [OF _ same_rest_foldl]) (simp_all add: same_rest_def [of st])
  then show ?thesis using Some by (simp add: redact_pass_def Let_def)
qed

lemma same_rest_capture_pass [simp]: "same_rest st (capture_pass op st)"
proof -
  have "same_rest st (redact_pass op (st\<lparr>cs_capture := x\<rparr>))" for x op
    by (rule same_rest_trans [OF _ same_rest_redact_pass]) (simp add: same_rest_def)
  then show ?thesis by (simp add: capture_pass_def split: option.split write_op.split)
qed

lemma same_rest_passes [simp]: "same_rest st (passes s ops st)"
proof (induction ops arbitrary: st)
  case (Cons op ops)
  have "same_rest st (pass s op st)" by (simp add: pass_def split: sink.split write_op.split)
  then show ?case using Cons by (auto simp: passes_def intro: same_rest_trans)
qed (simp add: passes_def)

lemma same_rest_w: "same_rest st st' \<Longrightarrow> same_rest st (st'\<lparr>cs_w := w\<rparr>)" by (simp add: same_rest_def)

lemma same_rest_absorb [simp]: "same_rest st (absorb E s w' st)"
proof -
  have "same_rest st (st\<lparr>cs_w := w\<rparr>)" for w by (simp add: same_rest_def)
  moreover have "same_rest st (ObsWriteHeader (st\<lparr>cs_w := w\<rparr>) c)" for w c
    by (rule same_rest_trans [OF _ same_rest_ObsWriteHeader]) (simp add: same_rest_def)
  ultimately show ?thesis
    by (auto simp: absorb_def Let_def split: option.split prod.split intro!: same_rest_trans [OF _ same_rest_passes] same_rest_w)
qed

lemma same_rest_absorb_wire [simp]: "same_rest st (absorb_wire E s out st)"
proof -
  have "same_rest st (ObsWriteHeader (st\<lparr>cs_w := w\<rparr>) c)" for w c
    by (rule same_rest_trans [OF _ same_rest_ObsWriteHeader]) (simp add: same_rest_def)
  then show ?thesis by (auto simp: absorb_wire_def split: list.split wire.split intro!: same_rest_trans [OF _ same_rest_passes])
qed

lemma same_rest_error_out [simp]: "same_rest st (error_out E c t m st)" by (simp add: same_rest_def error_out_def)

lemma same_rest_header [simp]: "same_rest st (header k v st)" by (simp add: same_rest_def header_def)

lemma seen_frames [simp]:
  "cs_seen (absorb E s w' st) = cs_seen st" "cs_seen (absorb_wire E s out st) = cs_seen st"
  "cs_seen (error_out E c t m st) = cs_seen st" "cs_seen (header k v st) = cs_seen st"
  "cs_planner (absorb E s w' st) = cs_planner st" "cs_planner (absorb_wire E s out st) = cs_planner st"
  "cs_planner (error_out E c t m st) = cs_planner st" "cs_planner (header k v st) = cs_planner st"
  using same_rest_absorb same_rest_absorb_wire same_rest_error_out same_rest_header unfolding same_rest_def by blast+

lemma tell_frames [simp]:
  "cs_seen (tell b evs st) = cs_seen st @ (if b then evs else [])" "cs_planner (tell b evs st) = cs_planner st"
  "cs_w (tell b evs st) = cs_w st" "cs_status (tell b evs st) = cs_status st" "cs_bytes (tell b evs st) = cs_bytes st"
  "cs_wrote (tell b evs st) = cs_wrote st" "cs_capture (tell b evs st) = cs_capture st"
  "cs_redactor (tell b evs st) = cs_redactor st" "cs_cooldown (tell b evs st) = cs_cooldown st" "cs_rag (tell b evs st) = cs_rag st"
  by (simp_all add: tell_def)

text \<open>The upstream requests among what was seen.\<close>

definition dispatches :: "chat_event list \<Rightarrow> (target \<times> fields) list" where
  "dispatches evs = List.map_filter (\<lambda>e. case e of Dispatched t b \<Rightarrow> Some (t, b) | _ \<Rightarrow> None) evs"

lemma dispatches_simps [simp]:
  "dispatches [] = []" "dispatches (a @ b) = dispatches a @ dispatches b"
  "dispatches (e # es) = (case e of Dispatched t b \<Rightarrow> [(t, b)] | _ \<Rightarrow> []) @ dispatches es"
  by (simp_all add: dispatches_def map_filter_def split: chat_event.split)

lemma dispatches_map [simp]:
  "dispatches (map PlannerSeen xs) = []" "dispatches (map BudgetAlert ys) = []" "dispatches (map EditSeen zs) = []"
  by (induction xs, simp_all) (induction ys, simp_all, induction zs, simp_all)

lemma recordRejection_frames [simp]:
  "cs_seen (recordRejection D reason st) = cs_seen st @ (if dp_Metrics D then [MetricsRejected reason] else []) @ [RecordRejected reason]
     @ (if dp_Rejections D then [RejectionSeen reason] else []) @ (if dp_Audit D then [AuditSeen ''rejected'' [] reason] else [])"
  "cs_planner (recordRejection D reason st) = cs_planner st" "cs_w (recordRejection D reason st) = cs_w st"
  "cs_status (recordRejection D reason st) = cs_status st"
  by (simp_all add: recordRejection_def audit_def)

section \<open>Refused requests\<close>

definition is_record :: "chat_event \<Rightarrow> bool" where
  "is_record e = (case e of RecordRejected _ \<Rightarrow> True | RecordSeen _ \<Rightarrow> True | _ \<Rightarrow> False)"

text \<open>The response, the upstream requests and the record of a refusal.\<close>

definition refused_with :: "chat_env \<Rightarrow> chat_state \<Rightarrow> chat_state \<Rightarrow> nat \<Rightarrow> string \<Rightarrow> string \<Rightarrow> bool" where
  "refused_with E st st' status errorType reason \<longleftrightarrow>
     (\<exists>msg. rw_out (cs_w st') = ev_encodeError E \<lparr>eb_message = msg, eb_type = errorType, eb_code = StatusText status\<rparr>)
     \<and> rw_committed (cs_w st') = Some (status, (rw_header (cs_w st))(''Content-Type'' \<mapsto> [''application/json'']))
     \<and> dispatches (cs_seen st') = [] \<and> cs_planner st' = cs_planner st \<and> cs_rag st' = cs_rag st
     \<and> filter is_record (cs_seen st') = [RecordRejected reason]"

text \<open>The first check that fails: status, type of the error and reason.\<close>

definition turned_away :: "chat_env \<Rightarrow> chat_deps \<Rightarrow> (nat \<times> string \<times> string) option" where
  "turned_away E D =
     (let bad = Some (400, ErrTypeInvalidRequest, RejectionBadRequest) in
      if ev_method E \<noteq> ''POST'' then Some (405, ErrTypeMethodNotAllowed, RejectionMethod)
      else case ev_read E of
        BodyTooLarge \<Rightarrow> Some (413, ErrTypeRequestTooLarge, RejectionBodyTooLarge)
      | BodyUnreadable \<Rightarrow> bad
      | BodyRead b \<Rightarrow>
          (case as_body (ev_decode E b) of
             None \<Rightarrow> bad
           | Some body \<Rightarrow>
               (case map_of body ''messages'' of
                  Some (JArr ms) \<Rightarrow>
                    if dp_InjectionMode D = InjectionModeStrict \<and> DetectSuspiciousRoles (dp_injectionPatterns D) ms (dp_InjectionRoles D) \<noteq> []
                    then bad
                    else if dp_ModelAliasesStrict D \<and> requested_model body \<noteq> []
                      \<and> ResolveAlias (dp_ModelAliases D) (dp_Providers D) (requested_model body) = None
                      \<and> \<not> HasProviderModel (dp_Providers D) (requested_model body)
                    then bad else None
                | _ \<Rightarrow> bad)))"

lemma reject_refused:
  assumes "fresh_response st0" "cs_seen st = [] \<or> (\<exists>m. cs_seen st = [InjectionSeen m])" "cs_w st = cs_w st0"
    "cs_planner st = cs_planner st0" "cs_rag st = cs_rag st0" "errorType \<noteq> []"
  shows "refused_with E st0 (reject E D reason status errorType msg st) status errorType reason"
proof -
  have w: "rw_committed (cs_w st0) = None" "rw_out (cs_w st0) = []" "rw_left (cs_w st0) = None"
    using assms(1) by (simp_all add: fresh_response_def)
  have "cs_rag (reject E D reason status errorType msg st) = cs_rag st"
    by (simp add: reject_def error_out_def recordRejection_def audit_def)
  then show ?thesis using assms(2-6) w
    by (auto simp: refused_with_def reject_def error_out_def writeJSONError_def Let_def Write_def WriteHeader_def set_header_def
        is_record_def)
qed

lemma intake_refusal:
  assumes "fresh_response st"
  shows "case turned_away E D of
      Some (status, errorType, reason) \<Rightarrow> \<exists>st'. intake E D st = Inl st' \<and> refused_with E st st' status errorType reason
    | None \<Rightarrow> \<exists>st' body ms alias. intake E D st = Inr (st', body, ms, alias) \<and> cs_w st' = cs_w st \<and> cs_planner st' = cs_planner st"
proof -
  have r: "refused_with E st (reject E D reason status errorType msg st) status errorType reason" if "errorType \<noteq> []" for reason status errorType msg
    using assms that by (intro reject_refused) (auto simp: fresh_response_def)
  have r2: "refused_with E st (reject E D reason status errorType msg (tell b [InjectionSeen m] st)) status errorType reason"
    if "errorType \<noteq> []" for reason status errorType msg b m
    using assms that by (intro reject_refused) (auto simp: fresh_response_def)
  have t: "ErrTypeMethodNotAllowed \<noteq> []" "ErrTypeRequestTooLarge \<noteq> []" "ErrTypeInvalidRequest \<noteq> []"
    by (simp_all add: ErrTypeMethodNotAllowed_def ErrTypeRequestTooLarge_def ErrTypeInvalidRequest_def)
  show ?thesis
  proof (cases "ev_method E = ''POST''")
    case False
    then show ?thesis using r t by (simp add: turned_away_def intake_def read_request_def Let_def)
  next
    case post: True
    show ?thesis
    proof (cases "ev_read E")
      case (BodyRead b)
      show ?thesis
      proof (cases "as_body (ev_decode E b)")
        case None
        then show ?thesis using post BodyRead r t by (simp add: turned_away_def intake_def read_request_def Let_def)
      next
        case (Some body)
        show ?thesis
        proof (cases "\<exists>ms. map_of body ''messages'' = Some (JArr ms)")
          case False
          then show ?thesis using post BodyRead Some r t
            by (simp add: turned_away_def intake_def read_request_def Let_def split: option.split jval.split)
        next
          case True
          then obtain ms where ms: "map_of body ''messages'' = Some (JArr ms)" by blast
          then have rd: "read_request E D st = Inr (st, body, ms)" using post BodyRead Some by (simp add: read_request_def)
          let ?hits = "DetectSuspiciousRoles (dp_injectionPatterns D) ms (dp_InjectionRoles D)"
          show ?thesis
          proof (cases "dp_InjectionMode D = InjectionModeStrict \<and> ?hits \<noteq> []")
            case True
            then have "turned_away E D = Some (400, ErrTypeInvalidRequest, RejectionBadRequest)"
              using post BodyRead Some ms by (simp add: turned_away_def Let_def)
            moreover have "\<exists>msg b m. intake E D st
                = Inl (reject E D RejectionBadRequest 400 ErrTypeInvalidRequest msg (tell b [InjectionSeen m] st))"
              using True rd by (simp add: intake_def Let_def injection_gate_def PromptInjectionIsolated_def) blast
            ultimately show ?thesis using r2 [OF t(3)] by fastforce
          next
            case False
            have "\<exists>b m. injection_gate E D ms st = Inr (tell b [InjectionSeen m] st)"
            proof (cases "PromptInjectionIsolated D \<and> ?hits \<noteq> []")
              case True
              then show ?thesis using False by (auto simp: injection_gate_def Let_def)
            next
              case no: False
              then have "injection_gate E D ms st = Inr (tell False [InjectionSeen []] st)"
                by (auto simp: injection_gate_def tell_def)
              then show ?thesis by blast
            qed
            then obtain b m where g: "injection_gate E D ms st = Inr (tell b [InjectionSeen m] st)" by blast
            let ?st = "tell b [InjectionSeen m] st"
            let ?m = "requested_model body"
            let ?no = "dp_ModelAliasesStrict D \<and> ?m \<noteq> [] \<and> ResolveAlias (dp_ModelAliases D) (dp_Providers D) ?m = None
                \<and> \<not> HasProviderModel (dp_Providers D) ?m"
            have ta: "turned_away E D = (if ?no then Some (400, ErrTypeInvalidRequest, RejectionBadRequest) else None)"
              using post BodyRead Some ms False unfolding turned_away_def Let_def by auto
            show ?thesis
            proof (cases ?no)
              case True
              then have "\<exists>msg. intake E D st = Inl (reject E D RejectionBadRequest 400 ErrTypeInvalidRequest msg ?st)"
                using rd g by (simp add: intake_def Let_def alias_gate_def) blast
              then show ?thesis using ta True r2 [OF t(3)] by fastforce
            next
              case ok: False
              have "\<exists>body' alias. alias_gate E D body ?st = Inr (?st, body', alias)"
                using ok by (auto simp: alias_gate_def Let_def split: option.split)
              then have "\<exists>body' alias. intake E D st = Inr (?st, body', ms, alias)" using rd g by (auto simp: intake_def)
              then show ?thesis using ta ok by auto
            qed
          qed
        qed
      qed
    qed (use post r t in \<open>simp_all add: turned_away_def intake_def read_request_def Let_def\<close>)
  qed
qed

text \<open>A request arrives with a response nothing has been written to.\<close>

definition open_request :: "chat_state \<Rightarrow> chat_state" where
  "open_request st =
     st\<lparr>cs_w := \<lparr>rw_header = Map.empty, rw_committed = None, rw_out = [], rw_left = None, rw_flusher = True, rw_gone = False\<rparr>,
        cs_status := None, cs_bytes := 0, cs_wrote := False, cs_redactor := None, cs_capture := None, cs_seen := []\<rparr>"

lemma open_request_fresh [simp]: "fresh_response (open_request st)" "cs_seen (open_request st) = []"
  and open_request_planner [simp]: "cs_planner (open_request st) = cs_planner st"
  by (simp_all add: open_request_def fresh_response_def)

text \<open>
  C3: The requests the handler turns away, in the order of its checks: another method, a body over the
  cap or unreadable, no JSON object, no messages array, under strict mode a suspicious message, under
  strict aliases a model nobody serves. Such a request asks no upstream, touches neither the spend guard
  nor the stores, gets exactly one JSON error with its status, and leaves exactly one record; every
  other request goes on to routing with the response untouched.
\<close>

theorem chat_refusals_exact:
  "case turned_away E D of
      Some (status, errorType, reason) \<Rightarrow>
        \<exists>st'. Chat E D (open_request st) = Some st' \<and> refused_with E (open_request st) st' status errorType reason
    | None \<Rightarrow>
        \<exists>st' body ms alias. Chat E D (open_request st) = serve E D body ms alias st' \<and> cs_w st' = cs_w (open_request st) \<and> cs_planner st' = cs_planner st"
proof (cases "turned_away E D")
  case None
  then obtain st' body ms al where "intake E D (open_request st) = Inr (st', body, ms, al)" "cs_w st' = cs_w (open_request st)"
      "cs_planner st' = cs_planner st"
    using intake_refusal [OF open_request_fresh(1), of E D st] by auto
  then show ?thesis using None by (auto simp: Chat_def)
next
  case (Some a)
  then show ?thesis using intake_refusal [OF open_request_fresh(1), of E D st] by (cases a) (auto simp: Chat_def)
qed

section \<open>What the stages tell\<close>

text \<open>Events that are neither an upstream request nor a record.\<close>

definition quiet :: "chat_event list \<Rightarrow> bool" where
  "quiet evs \<longleftrightarrow> dispatches evs = [] \<and> filter is_record evs = []"

definition quietly :: "chat_state \<Rightarrow> chat_state \<Rightarrow> bool" where
  "quietly st st' \<longleftrightarrow> (\<exists>evs. cs_seen st' = cs_seen st @ evs \<and> quiet evs)"

lemma quiet_simps [simp]:
  "quiet []" "quiet (a @ b) \<longleftrightarrow> quiet a \<and> quiet b"
  "quiet (e # es) \<longleftrightarrow> \<not> is_record e \<and> dispatches [e] = [] \<and> quiet es"
  by (auto simp: quiet_def split: chat_event.splits)

lemma quiet_maps [simp]: "quiet (map PlannerSeen xs)" "quiet (map BudgetAlert ys)" "quiet (map EditSeen zs)"
  by (simp_all add: quiet_def is_record_def filter_empty_conv)

lemma quietly_refl [simp]: "quietly st st" by (auto simp: quietly_def)

lemma quietly_trans: "quietly a b \<Longrightarrow> quietly b c \<Longrightarrow> quietly a c" by (auto simp: quietly_def)

lemma quietly_seen: "cs_seen st' = cs_seen st \<Longrightarrow> quietly st st'" by (auto simp: quietly_def)

lemma quietly_tell: "quiet evs \<Longrightarrow> quietly st (tell b evs st)" by (auto simp: quietly_def tell_def)

lemma quietly_tell_after: "quietly st st' \<Longrightarrow> quiet evs \<Longrightarrow> quietly st (tell b evs st')"
  using quietly_trans quietly_tell by blast

lemma quietly_upd: "quietly st st' \<Longrightarrow> cs_seen st'' = cs_seen st' \<Longrightarrow> quietly st st''" by (simp add: quietly_def)

lemma quietly_rag_miss: "quietly st st' \<Longrightarrow> quietly st (rag_miss D r s p t st')"
  by (auto simp: rag_miss_def is_record_def intro: quietly_tell_after)

lemma quietly_rag_failed: "quietly st (rag_failed E D st)"
  by (auto simp: rag_failed_def Let_def is_record_def intro!: quietly_tell_after quietly_rag_miss)

lemma quietly_rag_recovered:
  assumes "quietly st st'"
  shows "quietly st (rag_recovered D st')"
proof -
  have 1: "quietly st (tell (dp_Circuits D) [CircuitRecovery ''rag''] st')"
    using assms by (intro quietly_tell_after) (simp_all add: is_record_def)
  have 2: "quietly st ((tell (dp_Circuits D) [CircuitRecovery ''rag''] st')\<lparr>cs_rag := x\<rparr>)" for x
    by (rule quietly_upd [OF 1]) simp
  show ?thesis unfolding rag_recovered_def Let_def by (intro quietly_tell_after 2) (simp add: is_record_def)
qed

lemma quietly_inject_block: "inject_block D ms block ex score path st = (st', r) \<Longrightarrow> quietly st st'"
  by (auto simp: inject_block_def is_record_def split: prod.splits bool.splits
      intro!: quietly_rag_recovered quietly_tell quietly_rag_miss intro: quietly_seen)

lemma quietly_rag_topk: "rag_topk E D ms prompt st = (st', r) \<Longrightarrow> quietly st st'"
proof -
  obtain s a where a: "RetrieveTopK (ev_rag E) (cs_rag st) prompt (dp_RAGTopK D) = (s, a)" by fastforce
  have base: "quietly st (st\<lparr>cs_rag := s\<rparr>)" by (simp add: quietly_seen)
  assume "rag_topk E D ms prompt st = (st', r)"
  then show ?thesis
    using quietly_trans [OF base quietly_rag_failed, of E D] quietly_rag_miss [OF base]
      quietly_trans [OF base quietly_inject_block]
    by (auto simp: rag_topk_def a Let_def split: if_splits prod.splits)
qed

lemma quietly_rag_single: "rag_single E D ms prompt st = Some (st', r) \<Longrightarrow> quietly st st'"
proof -
  assume r: "rag_single E D ms prompt st = Some (st', r)"
  then obtain s a where a: "Retrieve (ev_rag E) (cs_rag st) prompt = Some (s, a)" by (auto simp: rag_single_def split: option.splits)
  have base: "quietly st (st\<lparr>cs_rag := s\<rparr>)" by (simp add: quietly_seen)
  show ?thesis
    using r quietly_trans [OF base quietly_rag_failed, of E D] quietly_rag_miss [OF base]
      quietly_trans [OF base quietly_inject_block]
    by (auto simp: rag_single_def a Let_def split: if_splits prod.splits option.splits)
qed

lemma quietly_rag_step: "rag_step E D ms prompt st = Some (st', r) \<Longrightarrow> quietly st st'"
  by (cases "1 < dp_RAGTopK D"; cases "rag_topk E D ms prompt st"; cases "rag_single E D ms prompt st")
    (auto simp: rag_step_def is_record_def intro!: quietly_tell_after dest: quietly_rag_topk quietly_rag_single)

lemma quietly_prepare: "prepare E D body ms st = Some (st', p) \<Longrightarrow> quietly st st'"
  by (auto simp: prepare_def Let_def split: option.splits prod.splits dest!: quietly_rag_step)

lemma quietly_header: "quietly st st' \<Longrightarrow> quietly st (header k v st')" by (rule quietly_upd) simp_all

lemma quietly_note_decision: "quietly st st' \<Longrightarrow> quietly st (note_decision E D d r prompt st')"
  unfolding note_decision_def Let_def
  by (intro quietly_tell_after quietly_header) (auto simp: is_record_def intro: quietly_upd)

lemma quietly_route_request: "route_request E D p al st = Some (st', d, r) \<Longrightarrow> quietly st st'"
  by (auto simp: route_request_def Let_def split: option.splits prod.splits
      intro!: quietly_note_decision quietly_tell_after intro: quietly_seen)

lemma quietly_degrade: "degrade E r st = (st', skip) \<Longrightarrow> quietly st st'"
  by (auto simp: degrade_def Let_def split: if_splits intro!: quietly_header)

lemma quietly_chain_writers: "chain_writers E D st = Some st' \<Longrightarrow> quietly st st'"
  by (auto simp: chain_writers_def Let_def split: if_splits sum.splits intro!: quietly_seen)

section \<open>Upstream requests\<close>

text \<open>The upstream requests a stage makes, without a record.\<close>

definition asks :: "chat_state \<Rightarrow> chat_state \<Rightarrow> (target \<times> fields) list \<Rightarrow> bool" where
  "asks st st' ts \<longleftrightarrow> (\<exists>evs. cs_seen st' = cs_seen st @ evs \<and> dispatches evs = ts \<and> filter is_record evs = [])"

lemma asks_quietly: "asks a b ts \<Longrightarrow> quietly b c \<Longrightarrow> asks a c ts"
  unfolding asks_def quietly_def quiet_def by (elim exE conjE) (intro exI conjI, simp, simp_all)

lemma quietly_asks: "quietly a b \<Longrightarrow> asks b c ts \<Longrightarrow> asks a c ts"
  unfolding asks_def quietly_def quiet_def by (elim exE conjE) (intro exI conjI, simp, simp_all)

lemma asks_tell: "asks st (tell True [Dispatched t b] st) [(t, b)]"
  by (auto simp: asks_def is_record_def)

lemma quietly_charge: "quietly st (charge E cost st)"
  by (auto simp: charge_def split: option.split prod.split intro!: quietly_tell_after intro: quietly_seen)

lemma quietly_error_out: "quietly st st' \<Longrightarrow> quietly st (error_out E c t m st')" by (rule quietly_upd) simp_all

lemma quietly_fallback_seen: "quietly st st' \<Longrightarrow> quietly st (fallback_seen D res st')"
  by (auto simp: fallback_seen_def is_record_def intro!: quietly_tell_after)

lemma quietly_arm_cooldown: "quietly st (arm_cooldown E D st)"
  by (auto simp: arm_cooldown_def is_record_def split: option.split prod.split intro!: quietly_tell_after intro: quietly_seen)

lemma quietly_sampled: "quietly st (sampled D p model r yes sim st)"
  by (auto simp: sampled_def Let_def is_record_def split: option.split intro!: quietly_tell_after)

lemma quietly_absorb: "quietly st (absorb E s w st)" by (rule quietly_seen) simp

lemma quietly_absorb_wire: "quietly st (absorb_wire E s out st)" by (rule quietly_seen) simp

lemma run_panel_asks:
  assumes "run_panel E D p skip st = (st', r)"
  shows "asks st st' [(panel_target D skip, pp_body p)]"
proof -
  have s: "cs_seen (st\<lparr>cs_arbiter := x, cs_metrics := y\<rparr>) = cs_seen st" for x y st by simp
  have "cs_seen st' = cs_seen st @ [Dispatched (panel_target D skip) (pp_body p)]"
    using assms by (auto simp: run_panel_def Let_def split: prod.splits)
  then show ?thesis by (auto simp: asks_def is_record_def)
qed

lemma dispatch_fusion_asks:
  assumes "dispatch_fusion E D p skip cost st = (st', sv)" "\<not> snd (budget_refuses E cost st)"
  shows "asks st st' [(panel_target D skip, pp_body p)]"
proof -
  obtain st1 where b: "budget_refuses E cost st = (st1, False)" using assms(2) by (cases "budget_refuses E cost st") auto
  have q1: "quietly st st1" using b
    by (auto simp: budget_refuses_def split: option.splits prod.splits if_splits intro!: quietly_tell_after intro: quietly_seen)
  obtain st2 out cached err where r: "run_panel E D p skip st1 = (st2, out, cached, err)" by (metis prod_cases4)
  let ?a = "tell (dp_Fusions D) [FusionSeen (po_ArbiterSkipped out) (po_SkipReason out)] (tell (dp_ArbiterObserver D) [ArbiterCacheSeen cached] st2)"
  have qa: "quietly st2 ?a" by (intro quietly_tell_after) (simp_all add: is_record_def)
  have qe: "quietly st2 (error_out E c t m (tell b [PanelPanicSeen] ?a))" for c t m b
    using qa by (intro quietly_error_out quietly_tell_after) (simp_all add: is_record_def)
  have qc: "quietly st2 (charge E cost ?a)" using quietly_trans [OF qa quietly_charge] .
  have "quietly st2 st'"
    using assms(1) qe qc by (auto simp: dispatch_fusion_def b r Let_def is_record_def split: option.splits intro!: quietly_tell_after)
  then show ?thesis using quietly_asks [OF q1 asks_quietly [OF run_panel_asks [OF r]]] by blast
qed

lemma local_streaming_asks:
  assumes "local_streaming E D p cas st = (st', sv)"
  shows "asks st st' [(ToCascade (ca_Steps cas), pp_body p)] \<and> cs_planner st' = cs_planner st"
proof -
  let ?st = "tell True [Dispatched (ToCascade (ca_Steps cas)) (pp_body p)] st"
  obtain cas' res err out ks where r: "Run (ev_cl E) (ev_client E) (ev_attempts E) cas = (cas', res, err, out, ks)" by (metis prod_cases5)
  let ?b = "fallback_seen D res (absorb_wire E ToCapture out (?st\<lparr>cs_coalescer := ca_Coalescer cas'\<rparr>))"
  let ?c = "if cc_LocalStepFailed res then arm_cooldown E D ?b else ?b"
  have "quietly ?st (absorb_wire E ToCapture out (?st\<lparr>cs_coalescer := x\<rparr>))" for x by (rule quietly_seen) simp
  then have qb: "quietly ?st ?b" by (rule quietly_fallback_seen)
  have qc: "quietly ?st ?c" using qb quietly_trans [OF qb quietly_arm_cooldown] by simp
  have "quietly ?st st'"
    using assms qc quietly_trans [OF qc quietly_sampled]
    by (auto simp: local_streaming_def Let_def r split: option.splits if_splits intro: quietly_error_out)
  moreover have "cs_planner ?c = cs_planner st"
    by (simp add: arm_cooldown_def fallback_seen_def split: option.split prod.split)
  then have "cs_planner st' = cs_planner st"
    using assms by (auto simp: local_streaming_def Let_def r sampled_def split: option.splits if_splits)
  ultimately show ?thesis using asks_quietly [OF asks_tell] by blast
qed

lemma local_buffered_asks:
  assumes "local_buffered E D p skip st = (st', sv)"
  shows "asks st st' [(if skip then ToBuffered (dp_FrontierURL D) (dp_FrontierKey D) else ToBuffered (completions (dp_OllamaURL D)) [], pp_body p)]
    \<and> cs_planner st' = cs_planner st"
proof -
  let ?url = "if skip then dp_FrontierURL D else completions (dp_OllamaURL D)" and ?key = "if skip then dp_FrontierKey D else []"
  let ?st = "tell True [Dispatched (ToBuffered ?url ?key) (pp_body p)] st"
  obtain w' err where r: "BufferedFetchWithContext (fl_is_object (ev_fl E)) (fl_maxResponseBytes (ev_fl E)) (sink_writer ?st)
      (ev_exchange E ?url ?key (pp_body p)) = (w', err)" by fastforce
  let ?b = "absorb E ToCapture w' ?st"
  have qe: "quietly ?st (error_out E c t m ?b)" for c t m by (intro quietly_error_out quietly_absorb)
  have "quietly ?st st'"
    using assms qe quietly_trans [OF qe quietly_arm_cooldown] quietly_trans [OF quietly_absorb quietly_sampled]
    unfolding local_buffered_def Let_def r prod.case by (auto split: option.splits if_splits)
  moreover have "cs_planner (arm_cooldown E D (error_out E c t m ?b)) = cs_planner st" for c t m
    by (simp add: arm_cooldown_def split: option.split prod.split)
  then have "cs_planner st' = cs_planner st"
    using assms unfolding local_buffered_def Let_def r prod.case by (auto simp: sampled_def Let_def split: option.splits if_splits)
  moreover have "(ToBuffered ?url ?key) = (if skip then ToBuffered (dp_FrontierURL D) (dp_FrontierKey D) else ToBuffered (completions (dp_OllamaURL D)) [])"
    by simp
  ultimately show ?thesis using asks_quietly [OF asks_tell] by metis
qed

lemma run_failover_asks:
  assumes "run_failover E D p cost model cas st = (st', sv)"
  shows "asks st st' [(ToFailover (ca_Steps cas), pp_body p)]"
proof -
  let ?st = "tell True [Dispatched (ToFailover (ca_Steps cas)) (pp_body p)] st"
  obtain c res err out ks where r: "(if is_streaming (pp_body p) then Run (ev_cl E) (ev_client E) (ev_attempts E) cas
      else RunBuffered (ev_cl E) None (ev_attempts E) cas) = (c, res, err, out, ks)" by (metis prod_cases5)
  let ?b = "fallback_seen D res (absorb_wire E ToObs out ?st)"
  have qb: "quietly ?st ?b" by (intro quietly_fallback_seen quietly_absorb_wire)
  have "quietly ?st st'"
    using assms qb quietly_trans [OF qb quietly_charge] unfolding run_failover_def Let_def r prod.case
    by (auto split: option.splits intro: quietly_error_out)
  then show ?thesis using asks_quietly [OF asks_tell] by blast
qed

definition frontier_target :: "prepared \<Rightarrow> string \<Rightarrow> string \<Rightarrow> target" where
  "frontier_target p url key = (if is_streaming (pp_body p) then ToStream url key else ToBuffered url key)"

lemma run_frontier_asks:
  assumes "run_frontier E D p r cost model url key st = (st', sv)"
  shows "asks st st' [(frontier_target p url key, pp_body p)]"
proof -
  let ?st = "tell True [Dispatched (frontier_target p url key) (pp_body p)] st"
  obtain w' err where x: "(if is_streaming (pp_body p) then StreamWithContext (fl_valid (ev_fl E)) (sink_writer ?st) (ev_exchange E url key (pp_body p))
      else BufferedFetchWithContext (fl_is_object (ev_fl E)) (fl_maxResponseBytes (ev_fl E)) (sink_writer ?st) (ev_exchange E url key (pp_body p)))
      = (w', err)" by fastforce
  let ?b = "absorb E ToRedactor w' ?st"
  have qc: "quietly ?st (sampled D p m rr False 0 (charge E cost ?b))" for m rr
    using quietly_trans [OF quietly_absorb quietly_trans [OF quietly_charge quietly_sampled]] .
  have qt: "quietly ?st (tell b [TruncationSeen rr] (header k v ?b))" for b rr k v
    by (intro quietly_tell_after quietly_header quietly_absorb) (simp add: is_record_def)
  have qe: "quietly ?st (error_out E c t m ?b)" for c t m by (intro quietly_error_out quietly_absorb)
  have "quietly ?st st'"
    using assms qc qt qe unfolding run_frontier_def Let_def frontier_target_def [symmetric] x prod.case
    by (auto split: option.splits up_error.splits)
  then show ?thesis using asks_quietly [OF asks_tell] by blast
qed

lemma budget_refuses_quietly: "budget_refuses E cost st = (st', b) \<Longrightarrow> quietly st st'"
  by (auto simp: budget_refuses_def split: option.splits prod.splits if_splits intro!: quietly_tell_after intro: quietly_seen)

text \<open>The one upstream a dispatch asks, as a function of the route and the configuration.\<close>

definition destination ::
  "chat_deps \<Rightarrow> prepared \<Rightarrow> route \<Rightarrow> alias_target option \<Rightarrow> bool \<Rightarrow> (assistant_message, cascade_err) coalescer option \<Rightarrow> (target \<times> fields) option" where
  "destination D p r al skip co =
     (if r = RouteFusion then Some (panel_target D skip, pp_body p)
      else if r = RouteLocal then
        (let body = set_field (pp_body p) ''model'' (JStr (dp_LocalModel D)) in
         if is_streaming body then map_option (\<lambda>cas. (ToCascade (ca_Steps cas), body)) (local_cascade D skip co)
         else Some (if skip then ToBuffered (dp_FrontierURL D) (dp_FrontierKey D) else ToBuffered (completions (dp_OllamaURL D)) [], body))
      else case (if dp_Failover D then registered D else None) of
        Some g \<Rightarrow> map_option (\<lambda>cas. (ToFailover (ca_Steps cas), pp_body p)) (failover_cascade D g)
      | None \<Rightarrow>
          (case al of
             Some t \<Rightarrow> Some (frontier_target p (completions (at_BaseURL t)) (at_APIKey t), pp_body p)
           | None \<Rightarrow> Some (frontier_target p (dp_FrontierURL D) (dp_FrontierKey D), pp_body p)))"

definition no_capacity :: "chat_env \<Rightarrow> chat_deps \<Rightarrow> route \<Rightarrow> bool" where
  "no_capacity E D r \<longleftrightarrow> r = RouteLocal \<and> dp_hasLimiter D \<and> ev_acquire E \<noteq> None"

definition over_budget :: "chat_env \<Rightarrow> route \<Rightarrow> usd \<Rightarrow> chat_state \<Rightarrow> bool" where
  "over_budget E r cost st \<longleftrightarrow> r \<noteq> RouteLocal \<and> snd (budget_refuses E cost st)"

definition refused_budget :: "chat_state \<Rightarrow> chat_state \<Rightarrow> bool" where
  "refused_budget st st' \<longleftrightarrow> (\<exists>evs. cs_seen st' = cs_seen st @ evs \<and> dispatches evs = [] \<and> filter is_record evs = [RecordRejected RejectionBudget])"

lemma reject_budget_seen:
  assumes "quietly st st1"
  shows "refused_budget st (reject_budget E D st1)"
proof -
  obtain evs where "cs_seen st1 = cs_seen st @ evs" "quiet evs" using assms by (auto simp: quietly_def)
  then show ?thesis by (auto simp: refused_budget_def reject_budget_def reject_def quiet_def is_record_def)
qed

lemma dispatch_asks:
  assumes "dispatch E D p r al skip cost st = Some (st', sv)"
  shows "if over_budget E r cost st then refused_budget st st'
    else if no_capacity E D r then asks st st' []
    else \<exists>t. destination D p r al skip (cs_coalescer st) = Some t \<and> asks st st' [t]"
proof -
  have rne: "RouteFusion \<noteq> RouteLocal" by (simp add: RouteFusion_def RouteLocal_def)
  obtain st1 over where b: "budget_refuses E cost st = (st1, over)" by fastforce
  have q1: "quietly st st1" using budget_refuses_quietly [OF b] .
  consider (fusion) "r = RouteFusion" | (local) "r = RouteLocal" | (frontier) "r \<noteq> RouteFusion" "r \<noteq> RouteLocal" by blast
  then show ?thesis
  proof cases
    case fusion
    then have d: "dispatch_fusion E D p skip cost st = (st', sv)" using assms by (simp add: dispatch_def)
    show ?thesis
    proof (cases over)
      case True
      then show ?thesis using fusion rne b d reject_budget_seen [OF q1, of E D] by (simp add: over_budget_def dispatch_fusion_def)
    next
      case False
      then show ?thesis using fusion rne b dispatch_fusion_asks [OF d]
        by (simp add: over_budget_def no_capacity_def destination_def)
    qed
  next
    case local
    let ?p = "p\<lparr>pp_body := set_field (pp_body p) ''model'' (JStr (dp_LocalModel D))\<rparr>"
    have d: "dispatch_local E D p skip st = Some (st', sv)" using assms local rne by (simp add: dispatch_def)
    show ?thesis
    proof (cases "no_capacity E D r")
      case True
      then have "cs_seen st' = cs_seen st" using d local by (auto simp: dispatch_local_def no_capacity_def)
      then show ?thesis using True local by (simp add: over_budget_def asks_def)
    next
      case False
      then have n: "(if dp_hasLimiter D then ev_acquire E else None) = None" using local by (auto simp: no_capacity_def)
      then obtain cas where c: "local_cascade D skip (cs_coalescer st) = Some cas"
        "(if is_streaming (pp_body ?p) then local_streaming E D ?p cas st else local_buffered E D ?p skip st) = (st', sv)"
        using d by (auto simp: dispatch_local_def Let_def split: option.splits)
      show ?thesis
        using False local c local_streaming_asks [of E D ?p cas st] local_buffered_asks [of E D ?p skip st] rne
        by (cases "is_streaming (pp_body ?p)") (auto simp: over_budget_def destination_def Let_def)
    qed
  next
    case frontier
    have d: "dispatch_frontier E D p r al cost st = Some (st', sv)" using assms frontier by (simp add: dispatch_def)
    show ?thesis
    proof (cases over)
      case True
      then show ?thesis using frontier b d reject_budget_seen [OF q1, of E D]
        by (auto simp: over_budget_def dispatch_frontier_def Let_def split: if_splits)
    next
      case False
      note ob = False
      have nb: "\<not> over_budget E r cost st" "\<not> no_capacity E D r" using frontier b False by (simp_all add: over_budget_def no_capacity_def)
      let ?reg = "if dp_Failover D then registered D else None"
      let ?m = "case al of Some t \<Rightarrow> at_Model t | None \<Rightarrow> dp_FrontierModel D"
      show ?thesis
      proof (cases ?reg)
        case None
        have "run_frontier E D p r cost ?m (case al of Some t \<Rightarrow> completions (at_BaseURL t) | None \<Rightarrow> dp_FrontierURL D)
            (case al of Some t \<Rightarrow> at_APIKey t | None \<Rightarrow> dp_FrontierKey D) st1 = (st', sv)"
          using d ob b unfolding dispatch_frontier_def Let_def None by simp
        from run_frontier_asks [OF this] quietly_asks [OF q1] show ?thesis
          using frontier nb None by (cases al) (auto simp: destination_def)
      next
        case (Some g)
        then obtain cas where c: "failover_cascade D g = Some cas" "run_failover E D p cost ?m cas st1 = (st', sv)"
          using d ob b unfolding dispatch_frontier_def Let_def Some by (auto split: if_splits)
        from run_failover_asks [OF c(2)] quietly_asks [OF q1] show ?thesis
          using frontier nb Some c(1) by (auto simp: destination_def)
      qed
    qed
  qed
qed


section \<open>One upstream, one record\<close>

lemma conclude_seen:
  "\<exists>evs row. cs_seen (conclude E D reqID p d r sv st) = cs_seen st @ evs \<and> dispatches evs = [] \<and> filter is_record evs = [RecordSeen row]"
  unfolding conclude_def Let_def audit_def
  by (cases "cs_redactor st") (auto simp: is_record_def)

lemma serve_stages:
  assumes "serve E D body ms al st = Some st'"
  obtains st0 p d r st1 skip st2 st3 sv where
    "prepare E D body ms st = Some (st0, p)" "route_request E D p al st0 = Some (st1, d, r)" "quietly st st2"
    "degrade E r st1 = (st2, skip)" "quietly st st3" "chain_writers E D st2 = Some st3"
    "\<exists>st4. dispatch E D p r al skip (dispatch_cost E D p r st2) st3 = Some (st4, sv)
       \<and> st' = conclude E D (requestID (ev_requestIDHeader E) (ev_random E)) p d r sv st4"
proof -
  obtain st0 p where 1: "prepare E D body ms st = Some (st0, p)" using assms by (auto simp: serve_def split: option.splits)
  then obtain st1 d r where 2: "route_request E D p al st0 = Some (st1, d, r)" using assms by (auto simp: serve_def split: option.splits)
  obtain st2 skip where 3: "degrade E r st1 = (st2, skip)" by fastforce
  then obtain st3 where 4: "chain_writers E D st2 = Some st3" using 1 2 assms by (auto simp: serve_def Let_def split: option.splits)
  have q: "quietly st st2" "quietly st st3"
    using quietly_prepare [OF 1] quietly_route_request [OF 2] quietly_degrade [OF 3] quietly_chain_writers [OF 4] quietly_trans by blast+
  show thesis using that [OF 1 2 q(1) 3 q(2) 4] assms 1 2 3 4 by (auto simp: serve_def Let_def)
qed

definition only_record :: "chat_state \<Rightarrow> bool" where
  "only_record st \<longleftrightarrow> (\<exists>row. filter is_record (cs_seen st) = [RecordSeen row])"

definition two_records :: "chat_state \<Rightarrow> bool" where
  "two_records st \<longleftrightarrow> (\<exists>row. filter is_record (cs_seen st) = [RecordRejected RejectionBudget, RecordSeen row])"

lemma serve_counts:
  assumes "serve E D body ms al st = Some st'" "cs_seen st = [] \<or> (\<exists>m. cs_seen st = [InjectionSeen m])"
  shows "only_record st' \<and> length (dispatches (cs_seen st')) \<le> 1 \<or> two_records st' \<and> dispatches (cs_seen st') = []"
proof -
  from assms(1) obtain p d r skip cost st3 st4 sv where s: "quietly st st3"
      "dispatch E D p r al skip cost st3 = Some (st4, sv)"
      "st' = conclude E D (requestID (ev_requestIDHeader E) (ev_random E)) p d r sv st4"
    by (rule serve_stages) blast
  obtain e3 where e3: "cs_seen st3 = cs_seen st @ e3" "dispatches e3 = []" "filter is_record e3 = []"
    using s(1) by (auto simp: quietly_def quiet_def)
  have z: "dispatches (cs_seen st) = []" "filter is_record (cs_seen st) = []" using assms(2) by (auto simp: is_record_def)
  obtain evs row where c: "cs_seen st' = cs_seen st4 @ evs" "dispatches evs = []" "filter is_record evs = [RecordSeen row]"
    using conclude_seen [of E D _ p d r sv st4] unfolding s(3) by blast
  have "refused_budget st3 st4 \<or> (\<exists>ts. length ts \<le> 1 \<and> asks st3 st4 ts)"
    using dispatch_asks [OF s(2)] by (auto split: if_splits)
  then show ?thesis
  proof
    assume "refused_budget st3 st4"
    then show ?thesis using e3 z c by (auto simp: refused_budget_def two_records_def)
  next
    assume "\<exists>ts. length ts \<le> 1 \<and> asks st3 st4 ts"
    then show ?thesis using e3 z c by (auto simp: asks_def only_record_def)
  qed
qed

text \<open>
  C1: A request asks at most one upstream, be it a cascade, a panel or a single endpoint, and is recorded
  once, but for one case: a request turned away for its budget asks none and is recorded twice, as
  rejected and again as a request that was served.
\<close>

theorem one_upstream_one_record:
  "case Chat E D (open_request st) of
     None \<Rightarrow> turned_away E D = None
   | Some st' \<Rightarrow>
       (if turned_away E D = None
        then only_record st' \<and> length (dispatches (cs_seen st')) \<le> 1 \<or> two_records st' \<and> dispatches (cs_seen st') = []
        else dispatches (cs_seen st') = [] \<and> (\<exists>reason. filter is_record (cs_seen st') = [RecordRejected reason]))"
proof (cases "turned_away E D")
  case (Some x)
  obtain status errorType reason where x: "x = (status, errorType, reason)" by (cases x)
  have "\<exists>st'. intake E D (open_request st) = Inl st' \<and> refused_with E (open_request st) st' status errorType reason"
    using intake_refusal [OF open_request_fresh(1), of E D st] Some x by simp
  then show ?thesis using Some by (auto simp: Chat_def refused_with_def)
next
  case None
  obtain st1 body ms al where i: "intake E D (open_request st) = Inr (st1, body, ms, al)"
    using intake_refusal [OF open_request_fresh(1), of E D st] None by auto
  have s: "cs_seen st1 = [] \<or> (\<exists>m. cs_seen st1 = [InjectionSeen m])"
    using i by (auto simp: intake_def read_request_def injection_gate_def alias_gate_def Let_def tell_def split: if_splits read_result.splits
        option.splits jval.splits sum.splits)
  show ?thesis
  proof (cases "serve E D body ms al st1")
    case n: None
    then show ?thesis using i None by (simp add: Chat_def)
  next
    case r: (Some st')
    then show ?thesis using i None serve_counts [OF r s] by (simp add: Chat_def)
  qed
qed

end
