(* ===== verification/Recorder.thy ===== *)
theory Recorder
  imports GoStrings
begin

text \<open>
  The JSONL recorder of \<open>internal/telemetry/recorder.go\<close>: the queue, the buffer of serialised records,
  the buffered writer on the active file, rotation and eviction. The disk is a parameter that says of
  each system call, counted from the start, whether it fails; a failed write may have written a part.
  The rotated files are listed in the order of their modification times. The background loop is a step
  per event it selects.
\<close>

section \<open>State\<close>

definition bufferedChannelSize :: nat where "bufferedChannelSize = 1024"
definition writeBufferSize :: nat where "writeBufferSize = 16 * 1024"
definition defaultBufferSize :: int where "defaultBufferSize = 64 * 1024"

datatype io_err = ErrClosed | IOErr

record disk =
  dk_write :: "nat \<Rightarrow> nat option"
  dk_fail :: "nat \<Rightarrow> bool"

record rec_config =
  rk_maxBytes :: int
  rk_maxFiles :: int
  rk_bufferSize :: int

text \<open>\<open>rc_pend\<close> and \<open>rc_err\<close> are the buffered writer, \<open>rc_active\<close> the file at the path, if it exists.\<close>

record recorder =
  rc_queue :: "string option list"
  rc_buf :: string
  rc_pend :: string
  rc_err :: "io_err option"
  rc_open :: bool
  rc_active :: "string option"
  rc_rotated :: "string list"
  rc_written :: int
  rc_rotations :: nat
  rc_dropped :: nat
  rc_errors :: nat
  rc_io :: nat
  rc_closed :: bool

definition rec_configured :: "int \<Rightarrow> int \<Rightarrow> int \<Rightarrow> rec_config" where
  "rec_configured maxBytes maxFiles bufferSize =
     \<lparr>rk_maxBytes = maxBytes, rk_maxFiles = (if 0 < maxBytes \<and> maxFiles < 1 then 1 else maxFiles),
      rk_bufferSize = (if bufferSize \<le> 0 then defaultBufferSize else bufferSize)\<rparr>"

text \<open>\<open>existing\<close> is the content the file had.\<close>

definition NewJSONLRecorder :: "string \<Rightarrow> recorder" where
  "NewJSONLRecorder existing =
     \<lparr>rc_queue = [], rc_buf = [], rc_pend = [], rc_err = None, rc_open = True, rc_active = Some existing, rc_rotated = [],
      rc_written = int (length existing), rc_rotations = 0, rc_dropped = 0, rc_errors = 0, rc_io = 0, rc_closed = False\<rparr>"

section \<open>The buffered writer\<close>

text \<open>What \<open>os.File.Write\<close> does: the bytes written and the error.\<close>

definition file_write :: "disk \<Rightarrow> string \<Rightarrow> recorder \<Rightarrow> recorder \<times> nat \<times> io_err option" where
  "file_write E p st =
     (if \<not> rc_open st then (st, 0, Some ErrClosed)
      else case dk_write E (rc_io st) of
        None \<Rightarrow> (st\<lparr>rc_active := map_option (\<lambda>s. s @ p) (rc_active st), rc_io := rc_io st + 1\<rparr>, length p, None)
      | Some n \<Rightarrow>
          (st\<lparr>rc_active := map_option (\<lambda>s. s @ take n p) (rc_active st), rc_io := rc_io st + 1\<rparr>, min n (length p), Some IOErr))"

definition bw_flush :: "disk \<Rightarrow> recorder \<Rightarrow> recorder" where
  "bw_flush E st =
     (if rc_err st \<noteq> None \<or> rc_pend st = [] then st
      else case file_write E (rc_pend st) st of (st', n, e) \<Rightarrow> st'\<lparr>rc_pend := drop n (rc_pend st), rc_err := e\<rparr>)"

text \<open>A write past an empty buffer goes to the file itself, one past a filled buffer fills and flushes it first.\<close>

definition bw_direct :: "disk \<Rightarrow> string \<Rightarrow> recorder \<Rightarrow> recorder" where
  "bw_direct E p st = (case file_write E p st of (st', n, e) \<Rightarrow> st'\<lparr>rc_err := e\<rparr>)"

definition bw_write :: "disk \<Rightarrow> string \<Rightarrow> recorder \<Rightarrow> recorder" where
  "bw_write E p st =
     (let avail = writeBufferSize - length (rc_pend st) in
      if rc_err st \<noteq> None then st
      else if length p \<le> avail then st\<lparr>rc_pend := rc_pend st @ p\<rparr>
      else if rc_pend st = [] then bw_direct E p st
      else let st = bw_flush E (st\<lparr>rc_pend := rc_pend st @ take avail p\<rparr>); p = drop avail p in
        if rc_err st \<noteq> None then st
        else if length p \<le> writeBufferSize then st\<lparr>rc_pend := p\<rparr>
        else bw_direct E p st)"

section \<open>Rotation\<close>

text \<open>The surplus files are removed from the oldest on; a removal that fails leaves its file.\<close>

fun evict_files :: "disk \<Rightarrow> nat \<Rightarrow> nat \<Rightarrow> string list \<Rightarrow> string list" where
  "evict_files E io 0 files = files"
| "evict_files E io (Suc n) [] = []"
| "evict_files E io (Suc n) (f # fs) = (if dk_fail E io then f # evict_files E (io + 1) n fs else evict_files E (io + 1) n fs)"

definition evictExcessRotatedFiles :: "disk \<Rightarrow> rec_config \<Rightarrow> recorder \<Rightarrow> recorder" where
  "evictExcessRotatedFiles E c st =
     (if rk_maxFiles c < 1 \<or> int (length (rc_rotated st)) \<le> rk_maxFiles c then st
      else let surplus = length (rc_rotated st) - nat (rk_maxFiles c)
           in st\<lparr>rc_rotated := evict_files E (rc_io st) surplus (rc_rotated st), rc_io := rc_io st + surplus\<rparr>)"

definition fresh_writer :: "recorder \<Rightarrow> recorder" where
  "fresh_writer st =
     st\<lparr>rc_open := True, rc_pend := [], rc_err := None, rc_active := (case rc_active st of None \<Rightarrow> Some [] | Some s \<Rightarrow> Some s)\<rparr>"

definition tick_io :: "recorder \<Rightarrow> recorder" where "tick_io st = st\<lparr>rc_io := rc_io st + 1\<rparr>"

definition rotate_files :: "disk \<Rightarrow> rec_config \<Rightarrow> recorder \<Rightarrow> recorder" where
  "rotate_files E c st =
     (let renamed = (rc_active st \<noteq> None \<and> \<not> dk_fail E (rc_io st)); st = tick_io st in
      if \<not> renamed then (if dk_fail E (rc_io st) then tick_io st else fresh_writer (tick_io st))
      else
        let st = st\<lparr>rc_rotated := rc_rotated st @ [the (rc_active st)], rc_active := None, rc_rotations := rc_rotations st + 1\<rparr>;
            st = evictExcessRotatedFiles E c st
        in if dk_fail E (rc_io st) then tick_io st else (fresh_writer (tick_io st))\<lparr>rc_written := 0\<rparr>)"

definition rotate_log :: "disk \<Rightarrow> rec_config \<Rightarrow> recorder \<Rightarrow> recorder" where
  "rotate_log E c st =
     (let st = bw_flush E st in
      if rc_err st = Some IOErr then st
      else if rc_open st \<and> dk_fail E (rc_io st) then (tick_io st)\<lparr>rc_open := False\<rparr>
      else rotate_files E c (if rc_open st then (tick_io st)\<lparr>rc_open := False\<rparr> else st))"

section \<open>The loop\<close>

definition newline :: char where "newline = CHR 0x0A"

definition flush_buf :: "disk \<Rightarrow> rec_config \<Rightarrow> recorder \<Rightarrow> recorder" where
  "flush_buf E c st =
     (if rc_buf st = [] then st
      else let b = rc_buf st; st = bw_write E b st in
        if rc_err st \<noteq> None then
          let st = st\<lparr>rc_dropped := rc_dropped st + length (filter (\<lambda>x. x = newline) b), rc_errors := rc_errors st + 1, rc_buf := []\<rparr>
          in if 0 < rk_maxBytes c then rotate_log E c st else st
        else let st = bw_flush E st in
          if rc_err st \<noteq> None then
            let st = st\<lparr>rc_errors := rc_errors st + 1\<rparr>
            in (if 0 < rk_maxBytes c then rotate_log E c st else st)\<lparr>rc_buf := []\<rparr>
          else st\<lparr>rc_written := rc_written st + int (length b), rc_buf := []\<rparr>)"

definition take_record :: "disk \<Rightarrow> rec_config \<Rightarrow> string \<Rightarrow> recorder \<Rightarrow> recorder" where
  "take_record E c b st =
     (let lineLen = int (length b) + 1;
          st = (if 0 < rk_maxBytes c \<and> 0 < rc_written st \<and> rk_maxBytes c < rc_written st + int (length (rc_buf st)) + lineLen
                then rotate_log E c (flush_buf E c st) else st);
          st = (if rk_bufferSize c < int (length (rc_buf st)) + lineLen then flush_buf E c st else st);
          st = st\<lparr>rc_buf := rc_buf st @ b @ [newline]\<rparr>
      in if rk_bufferSize c \<le> int (length (rc_buf st)) then flush_buf E c st else st)"

text \<open>A record that cannot be serialised is skipped.\<close>

definition take_queued :: "disk \<Rightarrow> rec_config \<Rightarrow> string option \<Rightarrow> recorder \<Rightarrow> recorder" where
  "take_queued E c x st = (case x of None \<Rightarrow> st | Some b \<Rightarrow> take_record E c b st)"

definition Record :: "string option \<Rightarrow> recorder \<Rightarrow> recorder" where
  "Record x st =
     (if rc_closed st then st
      else if length (rc_queue st) < bufferedChannelSize then st\<lparr>rc_queue := rc_queue st @ [x]\<rparr>
      else st\<lparr>rc_dropped := rc_dropped st + 1\<rparr>)"

definition consume :: "disk \<Rightarrow> rec_config \<Rightarrow> recorder \<Rightarrow> recorder" where
  "consume E c st = (case rc_queue st of [] \<Rightarrow> st | x # q \<Rightarrow> take_queued E c x (st\<lparr>rc_queue := q\<rparr>))"

definition Close :: "disk \<Rightarrow> rec_config \<Rightarrow> recorder \<Rightarrow> recorder" where
  "Close E c st =
     (if rc_closed st then st
      else let st = fold (take_queued E c) (rc_queue st) (st\<lparr>rc_queue := [], rc_closed := True\<rparr>);
               st = bw_flush E (flush_buf E c st)
           in st\<lparr>rc_open := False\<rparr>)"

text \<open>A timer tick and a \<open>Sync\<close> do the same.\<close>

datatype rec_event = Submit "string option" | Consume | TickOrSync | Stop

definition rec_step :: "disk \<Rightarrow> rec_config \<Rightarrow> rec_event \<Rightarrow> recorder \<Rightarrow> recorder" where
  "rec_step E c ev st =
     (case ev of
        Submit x \<Rightarrow> Record x st
      | Consume \<Rightarrow> if rc_closed st then st else consume E c st
      | TickOrSync \<Rightarrow> if rc_closed st then st else flush_buf E c st
      | Stop \<Rightarrow> Close E c st)"

definition rec_run :: "disk \<Rightarrow> rec_config \<Rightarrow> rec_event list \<Rightarrow> recorder \<Rightarrow> recorder" where
  "rec_run E c evs st = fold (rec_step E c) evs st"

section \<open>A disk that works\<close>

definition reliable :: disk where "reliable = \<lparr>dk_write = \<lambda>_. None, dk_fail = \<lambda>_. False\<rparr>"

lemma reliable_simps [simp]: "dk_write reliable i = None" "dk_fail reliable i = False"
  by (simp_all add: reliable_def)

text \<open>Between two steps the buffered writer is empty and \<open>written\<close> is the size of the active file.\<close>

definition rec_ok :: "recorder \<Rightarrow> bool" where
  "rec_ok st \<longleftrightarrow> rc_err st = None \<and> rc_pend st = [] \<and> rc_open st
     \<and> (\<exists>a. rc_active st = Some a \<and> rc_written st = int (length a))"

definition active_file :: "recorder \<Rightarrow> string" where
  "active_file st = (case rc_active st of None \<Rightarrow> [] | Some a \<Rightarrow> a)"

lemma flush_ok:
  assumes "rec_ok st"
  shows "rec_ok (flush_buf reliable c st)" "rc_buf (flush_buf reliable c st) = []"
    "active_file (flush_buf reliable c st) = active_file st @ rc_buf st"
    "rc_rotated (flush_buf reliable c st) = rc_rotated st" "rc_queue (flush_buf reliable c st) = rc_queue st"
    "rc_closed (flush_buf reliable c st) = rc_closed st" "rc_written (flush_buf reliable c st) = rc_written st + int (length (rc_buf st))"
  using assms
  by (auto simp: rec_ok_def flush_buf_def bw_write_def bw_flush_def bw_direct_def file_write_def Let_def active_file_def)

lemma evict_reliable: "evict_files reliable io n fs = drop n fs"
proof (induction fs arbitrary: io n)
  case Nil
  then show ?case by (cases n) simp_all
next
  case (Cons f fs)
  then show ?case by (cases n) simp_all
qed

lemma rotate_ok:
  assumes "rec_ok st" "1 \<le> rk_maxFiles c"
  shows "rec_ok (rotate_log reliable c st)" "rc_buf (rotate_log reliable c st) = rc_buf st"
    "active_file (rotate_log reliable c st) = []" "rc_written (rotate_log reliable c st) = 0"
    "rc_rotated (rotate_log reliable c st) =
       drop (length (rc_rotated st) + 1 - nat (rk_maxFiles c)) (rc_rotated st @ [active_file st])"
    "rc_queue (rotate_log reliable c st) = rc_queue st" "rc_closed (rotate_log reliable c st) = rc_closed st"
  using assms
  by (auto simp: rec_ok_def rotate_log_def rotate_files_def bw_flush_def tick_io_def fresh_writer_def active_file_def
      evictExcessRotatedFiles_def evict_reliable Let_def)

section \<open>No record is lost, and files are bounded\<close>

text \<open>
  The log of what the loop took, and the queue: \<open>gone\<close> are the evicted files. \<open>L\<close> bounds the lines.
\<close>

definition kept :: "rec_config \<Rightarrow> string \<Rightarrow> recorder \<Rightarrow> bool" where
  "kept c text st \<longleftrightarrow>
     (\<exists>gone. concat gone @ concat (rc_rotated st) @ active_file st @ rc_buf st = text
        \<and> (gone = [] \<or> int (length (rc_rotated st)) = rk_maxFiles c))"

definition file_cap :: "rec_config \<Rightarrow> int \<Rightarrow> int \<Rightarrow> int" where
  "file_cap c existing L = max (max (rk_maxBytes c) existing) (max (rk_bufferSize c) L + L)"

definition capped :: "rec_config \<Rightarrow> int \<Rightarrow> recorder \<Rightarrow> bool" where
  "capped c cap st \<longleftrightarrow>
     (if 0 < rk_maxBytes c
      then list_all (\<lambda>f. int (length f) \<le> cap) (active_file st # rc_rotated st) \<and> int (length (rc_rotated st)) \<le> rk_maxFiles c
      else rc_rotated st = [])"

text \<open>What the next flush may write fits as well.\<close>

definition room :: "rec_config \<Rightarrow> int \<Rightarrow> int \<Rightarrow> recorder \<Rightarrow> bool" where
  "room c cap L st \<longleftrightarrow>
     int (length (rc_buf st)) \<le> max (rk_bufferSize c) L
     \<and> (0 < rk_maxBytes c \<longrightarrow> rc_written st + int (length (rc_buf st)) \<le> cap)"

definition usable :: "rec_config \<Rightarrow> bool" where
  "usable c \<longleftrightarrow> 0 < rk_bufferSize c \<and> (0 < rk_maxBytes c \<longrightarrow> 1 \<le> rk_maxFiles c)"

lemma kept_flush:
  assumes "rec_ok st" "kept c text st"
  shows "kept c text (flush_buf reliable c st)"
  using assms(2) by (simp add: kept_def flush_ok [OF assms(1)])

lemma capped_flush:
  assumes "rec_ok st" "capped c cap st" "room c cap L st"
  shows "capped c cap (flush_buf reliable c st)"
proof -
  have "rc_written st = int (length (active_file st))" using assms(1) by (auto simp: rec_ok_def active_file_def)
  then show ?thesis using assms(2,3) by (auto simp: capped_def room_def flush_ok [OF assms(1)])
qed

lemma kept_rotate:
  assumes "rec_ok st" "kept c text st" "1 \<le> rk_maxFiles c" "int (length (rc_rotated st)) \<le> rk_maxFiles c"
  shows "kept c text (rotate_log reliable c st)"
proof -
  obtain gone where g: "concat gone @ concat (rc_rotated st) @ active_file st @ rc_buf st = text"
    "gone = [] \<or> int (length (rc_rotated st)) = rk_maxFiles c" using assms(2) by (auto simp: kept_def)
  let ?n = "length (rc_rotated st) + 1 - nat (rk_maxFiles c)" and ?fs = "rc_rotated st @ [active_file st]"
  have "concat (gone @ take ?n ?fs) @ concat (drop ?n ?fs) = concat gone @ concat ?fs"
    using concat_append [of "take ?n ?fs" "drop ?n ?fs"] by (simp only: concat_append append_assoc append_take_drop_id)
  moreover have "gone @ take ?n ?fs = [] \<or> int (length (drop ?n ?fs)) = rk_maxFiles c" using assms(3,4) g(2) by auto
  ultimately show ?thesis using g(1) unfolding kept_def
    by (intro exI [of _ "gone @ take ?n ?fs"]) (simp add: rotate_ok [OF assms(1,3)] flip: append_assoc)
qed

lemma capped_rotate:
  assumes "rec_ok st" "capped c cap st" "0 < rk_maxBytes c" "1 \<le> rk_maxFiles c" "0 \<le> cap"
  shows "capped c cap (rotate_log reliable c st)"
  using assms by (auto simp: capped_def rotate_ok list_all_iff dest: in_set_dropD)

text \<open>All of it, for a log \<open>text\<close>.\<close>

definition rec_inv :: "rec_config \<Rightarrow> int \<Rightarrow> int \<Rightarrow> string \<Rightarrow> recorder \<Rightarrow> bool" where
  "rec_inv c cap L text st \<longleftrightarrow> rec_ok st \<and> kept c text st \<and> capped c cap st \<and> room c cap L st"

lemma rec_inv_flush:
  assumes "rec_inv c cap L text st" "usable c"
  shows "rec_inv c cap L text (flush_buf reliable c st)"
proof -
  have ok: "rec_ok st" "kept c text st" "capped c cap st" "room c cap L st" using assms by (auto simp: rec_inv_def)
  have "room c cap L (flush_buf reliable c st)"
    using ok(4) assms(2) by (auto simp: room_def flush_ok [OF ok(1)] usable_def)
  then show ?thesis using ok flush_ok(1) [OF ok(1)] kept_flush capped_flush by (auto simp: rec_inv_def)
qed

lemma rec_inv_rotate:
  assumes "rec_inv c cap L text st" "usable c" "0 < rk_maxBytes c" "0 \<le> cap" "rc_buf st = []"
  shows "rec_inv c cap L text (rotate_log reliable c st)"
proof -
  have ok: "rec_ok st" "kept c text st" "capped c cap st" "room c cap L st" using assms by (auto simp: rec_inv_def)
  have m: "1 \<le> rk_maxFiles c" "int (length (rc_rotated st)) \<le> rk_maxFiles c"
    using assms(2,3) ok(3) by (auto simp: usable_def capped_def)
  show ?thesis
    using ok rotate_ok [OF ok(1) m(1)] kept_rotate [OF ok(1,2) m] capped_rotate [OF ok(1,3) assms(3) m(1) assms(4)] assms
    by (auto simp: rec_inv_def room_def usable_def)
qed

lemma rec_inv_take:
  assumes inv: "rec_inv c (file_cap c ex L) L text st" and c: "usable c" and b: "int (length b) + 1 \<le> L" and ex: "0 \<le> ex"
  shows "rec_inv c (file_cap c ex L) L (text @ b @ [newline]) (take_record reliable c b st)"
proof -
  let ?cap = "file_cap c ex L" and ?l = "int (length b) + 1"
  have cap: "0 \<le> ?cap" using ex by (simp add: file_cap_def)
  define s1 where "s1 = (if 0 < rk_maxBytes c \<and> 0 < rc_written st \<and> rk_maxBytes c < rc_written st + int (length (rc_buf st)) + ?l
    then rotate_log reliable c (flush_buf reliable c st) else st)"
  have ok: "rec_ok st" using inv by (simp add: rec_inv_def)
  have i1: "rec_inv c ?cap L text s1"
  proof (cases "0 < rk_maxBytes c \<and> 0 < rc_written st \<and> rk_maxBytes c < rc_written st + int (length (rc_buf st)) + ?l")
    case True
    then show ?thesis using rec_inv_rotate [OF rec_inv_flush [OF inv c] c _ cap] flush_ok(2) [OF ok] by (simp add: s1_def)
  next
    case False
    then have "s1 = st" unfolding s1_def by (rule if_not_P)
    with inv show ?thesis by simp
  qed
  have w1: "rc_written s1 \<le> 0 \<or> rk_maxBytes c \<le> 0 \<or> rc_written s1 + int (length (rc_buf s1)) + ?l \<le> rk_maxBytes c"
    using rotate_ok(4) [OF flush_ok(1) [OF ok]] c by (auto simp: s1_def usable_def)
  define s2 where "s2 = (if rk_bufferSize c < int (length (rc_buf s1)) + ?l then flush_buf reliable c s1 else s1)"
  have i2: "rec_inv c ?cap L text s2" using i1 rec_inv_flush [OF i1 c] by (simp add: s2_def)
  have ok1: "rec_ok s1" using i1 by (simp add: rec_inv_def)
  have len: "int (length (rc_buf s2)) + ?l \<le> max (rk_bufferSize c) L"
    using b flush_ok(2) [OF ok1, of c] by (auto simp: s2_def)
  have fit: "rc_written s2 + int (length (rc_buf s2)) + ?l \<le> ?cap" if "0 < rk_maxBytes c"
  proof -
    have "int (length (rc_buf s1)) \<le> max (rk_bufferSize c) L" using i1 by (simp add: rec_inv_def room_def)
    moreover have "rc_written s2 + int (length (rc_buf s2)) = rc_written s1 + int (length (rc_buf s1))"
      using flush_ok(2,7) [OF ok1, of c] by (simp add: s2_def)
    ultimately show ?thesis using w1 that b by (auto simp: file_cap_def)
  qed
  define s3 where "s3 = s2\<lparr>rc_buf := rc_buf s2 @ b @ [newline]\<rparr>"
  have i3: "rec_inv c ?cap L (text @ b @ [newline]) s3"
    using i2 len fit unfolding rec_inv_def s3_def
    by (auto simp: rec_ok_def kept_def capped_def room_def active_file_def algebra_simps)
  have "take_record reliable c b st = (if rk_bufferSize c \<le> int (length (rc_buf s3)) then flush_buf reliable c s3 else s3)"
    by (simp only: take_record_def Let_def s1_def s2_def s3_def)
  then show ?thesis using i3 rec_inv_flush [OF i3 c] by simp
qed

section \<open>The log of a run\<close>

text \<open>
  What a run should leave: the queue, the text of the records taken, and whether it was closed. A record
  beyond the queue's capacity is dropped, and so is one that arrives after the end.
\<close>

definition line_of :: "string option \<Rightarrow> string" where
  "line_of x = (case x of None \<Rightarrow> [] | Some b \<Rightarrow> b @ [newline])"

fun log_step :: "rec_event \<Rightarrow> string option list \<times> string \<times> bool \<Rightarrow> string option list \<times> string \<times> bool" where
  "log_step ev (q, text, True) = (q, text, True)"
| "log_step (Submit x) (q, text, False) = (if length q < bufferedChannelSize then (q @ [x], text, False) else (q, text, False))"
| "log_step Consume (q, text, False) = (case q of [] \<Rightarrow> ([], text, False) | x # q \<Rightarrow> (q, text @ line_of x, False))"
| "log_step TickOrSync (q, text, False) = (q, text, False)"
| "log_step Stop (q, text, False) = ([], text @ concat (map line_of q), True)"

definition logged :: "string \<Rightarrow> rec_event list \<Rightarrow> string option list \<times> string \<times> bool" where
  "logged existing evs = fold log_step evs ([], existing, False)"

text \<open>The longest line, with its newline.\<close>

definition longest :: "rec_event list \<Rightarrow> int" where
  "longest evs = fold (\<lambda>ev m. case ev of Submit x \<Rightarrow> max m (int (length (line_of x))) | _ \<Rightarrow> m) evs 1"

lemma longest_grows: "m \<le> fold (\<lambda>ev m. case ev of Submit x \<Rightarrow> max m (int (length (line_of x))) | _ \<Rightarrow> m) evs m"
proof (induction evs arbitrary: m)
  case (Cons ev evs)
  let ?f = "\<lambda>ev m. case ev of Submit x \<Rightarrow> max m (int (length (line_of x))) | _ \<Rightarrow> m"
  have "m \<le> ?f ev m" by (cases ev) auto
  then show ?case using Cons [of "?f ev m"] by simp
qed simp

lemma longest_bounds: "Submit x \<in> set evs \<Longrightarrow> int (length (line_of x)) \<le> longest evs"
proof -
  have "int (length (line_of x)) \<le> fold (\<lambda>ev m. case ev of Submit x \<Rightarrow> max m (int (length (line_of x))) | _ \<Rightarrow> m) evs m"
    if "Submit x \<in> set evs" for m
    using that
  proof (induction evs arbitrary: m)
    case (Cons ev evs)
    then show ?case
      using longest_grows [of "max m (int (length (line_of x)))" evs] by auto
  qed simp
  then show "Submit x \<in> set evs \<Longrightarrow> ?thesis" by (simp add: longest_def)
qed

text \<open>The run follows the log; after the end nothing is buffered.\<close>

definition follows :: "rec_config \<Rightarrow> int \<Rightarrow> int \<Rightarrow> recorder \<Rightarrow> string option list \<times> string \<times> bool \<Rightarrow> bool" where
  "follows c ex L st l \<longleftrightarrow>
     (case l of (q, text, cl) \<Rightarrow>
        rc_queue st = q \<and> rc_closed st = cl \<and> list_all (\<lambda>x. int (length (line_of x)) \<le> L) q
        \<and> rec_inv c (file_cap c ex L) L text (st\<lparr>rc_open := True\<rparr>) \<and> (if cl then rc_buf st = [] else rc_open st))"

lemma rec_inv_queued:
  assumes "rec_inv c (file_cap c ex L) L text st" "usable c" "int (length (line_of x)) \<le> L" "0 \<le> ex"
  shows "rec_inv c (file_cap c ex L) L (text @ line_of x) (take_queued reliable c x st)"
  using assms rec_inv_take [OF assms(1,2) _ assms(4)]
  by (cases x) (auto simp: take_queued_def line_of_def)

lemma rec_inv_irrelevant [simp]:
  "rec_inv c cap L text (st\<lparr>rc_queue := q\<rparr>) = rec_inv c cap L text st"
  "rec_inv c cap L text (st\<lparr>rc_closed := b\<rparr>) = rec_inv c cap L text st"
  "rec_inv c cap L text (st\<lparr>rc_dropped := n\<rparr>) = rec_inv c cap L text st"
  by (simp_all add: rec_inv_def rec_ok_def kept_def capped_def room_def active_file_def)

lemma rec_inv_fold:
  assumes "rec_inv c (file_cap c ex L) L text st" "usable c" "list_all (\<lambda>x. int (length (line_of x)) \<le> L) q" "0 \<le> ex"
  shows "rec_inv c (file_cap c ex L) L (text @ concat (map line_of q)) (fold (take_queued reliable c) q st)"
  using assms(1,3)
proof (induction q arbitrary: st "text")
  case (Cons x q)
  then show ?case using rec_inv_queued [OF Cons.prems(1) assms(2) _ assms(4)] Cons.IH [of "text @ line_of x"] by simp
qed simp

lemma take_frame:
  assumes "rec_ok st" "usable c"
  shows "rc_queue (take_queued reliable c x st) = rc_queue st" "rc_closed (take_queued reliable c x st) = rc_closed st"
    "rec_ok (take_queued reliable c x st)"
proof -
  have m: "1 \<le> rk_maxFiles c" if "0 < rk_maxBytes c" using that assms(2) by (simp add: usable_def)
  have buffered: "rec_ok (s\<lparr>rc_buf := b\<rparr>) = rec_ok s" for s b by (simp add: rec_ok_def)
  note facts = assms(1) flush_ok(1,5,6) rotate_ok(1,6,7) buffered
  show "rc_queue (take_queued reliable c x st) = rc_queue st" "rc_closed (take_queued reliable c x st) = rc_closed st"
    "rec_ok (take_queued reliable c x st)"
    using facts m by (simp_all add: take_queued_def take_record_def Let_def split: option.splits)
qed

lemma fold_frame:
  assumes "rec_ok st" "usable c"
  shows "rc_queue (fold (take_queued reliable c) q st) = rc_queue st" "rc_closed (fold (take_queued reliable c) q st) = rc_closed st"
    "rec_ok (fold (take_queued reliable c) q st)"
  using assms(1) by (induction q arbitrary: st) (simp_all add: take_frame [OF _ assms(2)])

lemma open_id: "rc_open st \<Longrightarrow> st\<lparr>rc_open := True\<rparr> = st"
  by (cases st) simp

lemma follows_step:
  assumes f: "follows c ex L st l" and c: "usable c" and ex: "0 \<le> ex"
    and x: "case ev of Submit x \<Rightarrow> int (length (line_of x)) \<le> L | _ \<Rightarrow> True"
  shows "follows c ex L (rec_step reliable c ev st) (log_step ev l)"
proof -
  obtain q t cl where l: "l = (q, t, cl)" by (cases l)
  show ?thesis
  proof (cases cl)
    case True
    then have "rec_step reliable c ev st = st"
      using f l by (cases ev) (auto simp: follows_def rec_step_def Record_def Close_def)
    then show ?thesis using f l True by simp
  next
    case False
    then have inv: "rec_inv c (file_cap c ex L) L t st" and st: "rc_queue st = q" "\<not> rc_closed st" "rc_open st"
      "list_all (\<lambda>x. int (length (line_of x)) \<le> L) q"
      using f l by (auto simp: follows_def open_id)
    have ok: "rec_ok st" using inv by (simp add: rec_inv_def)
    show ?thesis
    proof (cases ev)
      case (Submit x)
      then show ?thesis using f l False x st inv by (auto simp: follows_def rec_step_def Record_def open_id)
    next
      case Consume
      show ?thesis
      proof (cases q)
        case Nil
        then show ?thesis using f l False Consume st by (simp add: rec_step_def consume_def)
      next
        case (Cons y q')
        let ?s = "st\<lparr>rc_queue := q'\<rparr>"
        have i: "rec_inv c (file_cap c ex L) L t ?s" using inv by simp
        have o: "rec_ok ?s" using ok by (simp add: rec_ok_def)
        have i2: "rec_inv c (file_cap c ex L) L (t @ line_of y) (take_queued reliable c y ?s)"
          using rec_inv_queued [OF i c _ ex] st(4) Cons by simp
        show ?thesis using Consume Cons st l False i2 take_frame [OF o c]
          by (simp add: rec_step_def consume_def follows_def rec_ok_def open_id)
      qed
    next
      case TickOrSync
      have i2: "rec_inv c (file_cap c ex L) L t (flush_buf reliable c st)" using rec_inv_flush [OF inv c] .
      then show ?thesis using TickOrSync st l False flush_ok [OF ok]
        by (simp add: rec_step_def follows_def rec_ok_def open_id)
    next
      case Stop
      let ?s = "st\<lparr>rc_queue := [], rc_closed := True\<rparr>"
      let ?t = "fold (take_queued reliable c) q ?s"
      let ?u = "flush_buf reliable c ?t"
      have i: "rec_inv c (file_cap c ex L) L t ?s" using inv by simp
      have o: "rec_ok ?s" using ok by (simp add: rec_ok_def)
      have i2: "rec_inv c (file_cap c ex L) L (t @ concat (map line_of q)) ?u"
        using rec_inv_flush [OF rec_inv_fold [OF i c st(4) ex] c] .
      have o2: "rec_ok ?u" using i2 by (simp add: rec_inv_def)
      then have "bw_flush reliable ?u = ?u" by (simp add: bw_flush_def rec_ok_def)
      then have "rec_step reliable c Stop st = ?u\<lparr>rc_open := False\<rparr>" using st by (simp add: rec_step_def Close_def)
      then show ?thesis
        using Stop l False i2 flush_ok [OF fold_frame(3) [OF o c]] fold_frame [OF o c] o2
        by (simp add: follows_def rec_ok_def open_id)
    qed
  qed
qed

lemma follows_run:
  assumes "usable c" "0 \<le> ex" "follows c ex L st l" "\<forall>x. Submit x \<in> set evs \<longrightarrow> int (length (line_of x)) \<le> L"
  shows "follows c ex L (rec_run reliable c evs st) (fold log_step evs l)"
  using assms(3,4)
proof (induction evs arbitrary: st l)
  case (Cons ev evs)
  have "follows c ex L (rec_step reliable c ev st) (log_step ev l)"
    using Cons.prems by (intro follows_step [OF _ assms(1,2)]) (auto split: rec_event.splits)
  then show ?case using Cons.IH Cons.prems(2) by (simp add: rec_run_def)
qed (simp add: rec_run_def)

lemma follows_new:
  "follows (rec_configured M F B) (int (length existing)) (longest evs)
     (rec_run reliable (rec_configured M F B) evs (NewJSONLRecorder existing)) (logged existing evs)"
  unfolding logged_def
proof (rule follows_run)
  let ?c = "rec_configured M F B"
  show "usable ?c" by (simp add: usable_def rec_configured_def defaultBufferSize_def)
  have "1 \<le> longest evs" using longest_grows [of 1 evs] by (simp add: longest_def)
  moreover have "kept ?c existing (NewJSONLRecorder existing)"
    unfolding kept_def by (intro exI [of _ "[]"]) (simp add: NewJSONLRecorder_def active_file_def)
  moreover have "rc_open (NewJSONLRecorder existing)" by (simp add: NewJSONLRecorder_def)
  ultimately show "follows ?c (int (length existing)) (longest evs) (NewJSONLRecorder existing) ([], existing, False)"
    by (simp add: follows_def rec_inv_def open_id)
      (auto simp: NewJSONLRecorder_def rec_ok_def capped_def room_def active_file_def file_cap_def rec_configured_def)
  show "\<forall>x. Submit x \<in> set evs \<longrightarrow> int (length (line_of x)) \<le> longest evs" by (simp add: longest_bounds)
qed simp

text \<open>
  C12: On a disk that works, whatever the order of submissions, the loop's steps, ticks and the end: the
  rotated files, the active file and the buffer hold in order exactly the records taken from the queue,
  those that found the queue full left out, except that the oldest files may be gone once the
  configured number is kept; and after the end nothing is left in the queue or the buffer.
\<close>

theorem recorder_exact:
  "let c = rec_configured M F B; st = rec_run reliable c evs (NewJSONLRecorder existing) in
   case logged existing evs of (q, written, ended) \<Rightarrow>
     rc_queue st = q \<and> rc_closed st = ended \<and> kept c written st \<and> (if ended then rc_buf st = [] else rc_open st)"
proof -
  have k: "kept c t (st\<lparr>rc_open := True\<rparr>) = kept c t st" for c t st by (simp add: kept_def active_file_def)
  show ?thesis using follows_new [of M F B existing evs]
    by (cases "logged existing evs") (simp add: follows_def rec_inv_def Let_def k)
qed

text \<open>
  C40: On a disk that works no file grows past the cap, but for what the cap does not see: the buffer that is
  filled while the file is empty, and a longer line. With rotation off there is one file.
\<close>

theorem recorder_files_bounded:
  "let c = rec_configured M F B; st = rec_run reliable c evs (NewJSONLRecorder existing)
   in capped c (file_cap c (int (length existing)) (longest evs)) st"
proof -
  have k: "capped c cap (st\<lparr>rc_open := True\<rparr>) = capped c cap st" for c cap st by (simp add: capped_def active_file_def)
  show ?thesis using follows_new [of M F B existing evs]
    by (cases "logged existing evs") (simp add: follows_def rec_inv_def Let_def k)
qed

text \<open>The cap itself can be passed: three lines of ten bytes, a cap of fifteen, the default buffer.\<close>

lemma cap_passed:
  "active_file (rec_run reliable (rec_configured 15 3 0)
     [Submit (Some ''123456789''), Consume, Submit (Some ''123456789''), Consume, Submit (Some ''123456789''), Consume, TickOrSync]
     (NewJSONLRecorder [])) = concat (replicate 3 (''123456789'' @ [newline]))"
  by (simp add: rec_run_def rec_step_def Record_def consume_def take_queued_def take_record_def flush_buf_def bw_write_def
      bw_flush_def file_write_def active_file_def rec_configured_def NewJSONLRecorder_def Let_def defaultBufferSize_def
      bufferedChannelSize_def writeBufferSize_def numeral_3_eq_3)

section \<open>After a failed write\<close>

text \<open>The buffered writer keeps its error, and rotation begins with a flush of it.\<close>

definition stuck :: "string option \<Rightarrow> string list \<Rightarrow> recorder \<Rightarrow> bool" where
  "stuck a r st \<longleftrightarrow> rc_err st = Some IOErr \<and> rc_active st = a \<and> rc_rotated st = r"

lemma stuck_flush: "stuck a r st \<Longrightarrow> stuck a r (flush_buf E c st)"
  by (auto simp: stuck_def flush_buf_def bw_write_def rotate_log_def bw_flush_def Let_def)

lemma stuck_rotate: "stuck a r st \<Longrightarrow> stuck a r (rotate_log E c st)"
  by (auto simp: stuck_def rotate_log_def bw_flush_def Let_def)

lemma stuck_irrelevant [simp]:
  "stuck a r (st\<lparr>rc_buf := b\<rparr>) = stuck a r st" "stuck a r (st\<lparr>rc_queue := q\<rparr>) = stuck a r st"
  "stuck a r (st\<lparr>rc_closed := cl\<rparr>) = stuck a r st" "stuck a r (st\<lparr>rc_open := op\<rparr>) = stuck a r st"
  "stuck a r (st\<lparr>rc_dropped := n\<rparr>) = stuck a r st"
  by (simp_all add: stuck_def)

lemma stuck_take: "stuck a r st \<Longrightarrow> stuck a r (take_queued E c x st)"
  by (cases x) (simp_all add: take_queued_def take_record_def stuck_flush stuck_rotate Let_def)

lemma stuck_fold: "stuck a r st \<Longrightarrow> stuck a r (fold (take_queued E c) q st)"
  by (induction q arbitrary: st) (simp_all add: stuck_take)

lemma stuck_bw_flush: "stuck a r st \<Longrightarrow> stuck a r (bw_flush E st)"
  by (simp add: stuck_def bw_flush_def)

lemma stuck_step: "stuck a r st \<Longrightarrow> stuck a r (rec_step E c ev st)"
  by (cases ev) (auto simp: rec_step_def Record_def consume_def Close_def Let_def stuck_take stuck_flush stuck_fold stuck_bw_flush
      split: list.splits)

lemma stuck_run: "stuck a r st \<Longrightarrow> stuck a r (rec_run E c evs st)"
  unfolding rec_run_def by (induction evs arbitrary: st) (simp_all add: stuck_step)

text \<open>
  C26: Once one write to the file has failed, nothing is ever written again: whatever the disk does
  later, and whatever is submitted, the active file and the rotated ones stay as they are, since the
  rotation that should recover begins with a flush that returns the old error.
\<close>

theorem recorder_never_recovers:
  assumes "rc_err st = Some IOErr"
  shows "rc_active (rec_run E c evs st) = rc_active st \<and> rc_rotated (rec_run E c evs st) = rc_rotated st
    \<and> rc_err (rec_run E c evs st) = Some IOErr"
  using stuck_run [of "rc_active st" "rc_rotated st" st E c evs] assms by (simp add: stuck_def)

definition failed_once :: disk where "failed_once = \<lparr>dk_write = (\<lambda>i. if i = 0 then Some 1 else None), dk_fail = \<lambda>_. False\<rparr>"

definition after_failure :: recorder where
  "after_failure = rec_run failed_once (rec_configured 1000 3 0) [Submit (Some ''ab''), Consume, TickOrSync] (NewJSONLRecorder [])"

lemma after_failure_state: "rc_err after_failure = Some IOErr \<and> rc_active after_failure = Some ''a''"
  by (simp add: after_failure_def failed_once_def rec_run_def rec_step_def Record_def consume_def take_queued_def take_record_def
      flush_buf_def bw_write_def bw_flush_def file_write_def rotate_log_def rec_configured_def NewJSONLRecorder_def Let_def
      defaultBufferSize_def bufferedChannelSize_def writeBufferSize_def newline_def)

lemma recorder_never_recovers_witness:
  "rc_active (rec_run failed_once (rec_configured 1000 3 0) [Submit (Some ''cd''), Consume, TickOrSync, Stop] after_failure) = Some ''a''"
  using recorder_never_recovers [of after_failure failed_once "rec_configured 1000 3 0"] after_failure_state by simp

end
