(* ===== verification/AuditLog.thy ===== *)
theory AuditLog
  imports GoStrings
begin

text \<open>
  The audit log of \<open>internal/audit\<close>: entries chained by their hashes in a file of one line each. The hash
  (hex SHA-256), the encodings of a payload and of an entry, and the two decoders, one of a line and one
  of all values of a file, are parameters. The file is its bytes; an append may be cut short, and the
  sync after it may fail.
\<close>

section \<open>Entries and hashes\<close>

record payload =
  ap_Timestamp :: int
  ap_RequestID :: string
  ap_ClientIP :: string
  ap_KeyHash :: string
  ap_Route :: string
  ap_Model :: string
  ap_Outcome :: string

record audit_entry = payload +
  ae_PrevHash :: string
  ae_Hash :: string

record audit_lib =
  al_sha :: "string \<Rightarrow> string"
  al_payload :: "payload \<Rightarrow> string"
  al_line :: "audit_entry \<Rightarrow> string"
  al_decode :: "string \<Rightarrow> audit_entry option"
  al_values :: "string \<Rightarrow> audit_entry list option"

definition GenesisHash :: string where "GenesisHash = replicate 64 (CHR ''0'')"
definition keyHashLen :: nat where "keyHashLen = 16"

definition computeHash :: "audit_lib \<Rightarrow> string \<Rightarrow> payload \<Rightarrow> string" where
  "computeHash L prev p = al_sha L (prev @ al_payload L p)"

definition HashCredential :: "audit_lib \<Rightarrow> string \<Rightarrow> string" where
  "HashCredential L credential = (if credential = [] then [] else take keyHashLen (al_sha L credential))"

section \<open>The auditor\<close>

datatype sync_mode = SyncFull | SyncNone

definition ParseSyncMode :: "string \<Rightarrow> sync_mode" where
  "ParseSyncMode s = (if s = ''none'' then SyncNone else SyncFull)"

record auditor =
  au_file :: string
  au_sync :: sync_mode
  au_last :: string

definition lastHash :: "audit_lib \<Rightarrow> string \<Rightarrow> string option" where
  "lastHash L file = map_option (\<lambda>es. if es = [] then [] else ae_Hash (last es)) (al_values L file)"

definition AuditOpen :: "audit_lib \<Rightarrow> sync_mode \<Rightarrow> string \<Rightarrow> auditor option" where
  "AuditOpen L mode file =
     map_option (\<lambda>h. \<lparr>au_file = file, au_sync = mode, au_last = (if h = [] then GenesisHash else h)\<rparr>) (lastHash L file)"

text \<open>An entry under the hash before it.\<close>

definition sealed :: "audit_lib \<Rightarrow> string \<Rightarrow> payload \<Rightarrow> audit_entry" where
  "sealed L prev p = payload.extend p (\<lparr>ae_PrevHash = prev, ae_Hash = computeHash L prev p\<rparr>)"

datatype append_result = Appended | WriteFailed nat | SyncFailed

definition AuditRecord :: "audit_lib \<Rightarrow> append_result \<Rightarrow> payload \<Rightarrow> auditor \<Rightarrow> auditor \<times> bool" where
  "AuditRecord L r p a =
     (let e = sealed L (au_last a) p; line = al_line L e @ [CHR 0x0A];
          wrote = a\<lparr>au_file := au_file a @ line\<rparr>
      in case r of
           WriteFailed n \<Rightarrow> (a\<lparr>au_file := au_file a @ take n line\<rparr>, False)
         | SyncFailed \<Rightarrow> if au_sync a = SyncFull then (wrote, False) else (wrote\<lparr>au_last := ae_Hash e\<rparr>, True)
         | Appended \<Rightarrow> (wrote\<lparr>au_last := ae_Hash e\<rparr>, True))"

section \<open>Reading and verifying\<close>

text \<open>The scanner: lines without their ends, the last one only if it is not empty.\<close>

definition maxLine :: nat where "maxLine = 1024 * 1024"

definition scan_lines :: "string \<Rightarrow> string list" where
  "scan_lines file = (let ps = SplitOn (CHR 0x0A) file in if last ps = [] then butlast ps else ps)"

definition drop_cr :: "string \<Rightarrow> string" where
  "drop_cr s = (if s \<noteq> [] \<and> last s = CHR 0x0D then butlast s else s)"

datatype verdict = Verified | InvalidJSON nat | PrevMismatch nat | HashMismatch nat | TooLong

fun verify_lines :: "audit_lib \<Rightarrow> string \<Rightarrow> nat \<Rightarrow> string list \<Rightarrow> verdict" where
  "verify_lines L prev lineNo [] = Verified"
| "verify_lines L prev lineNo (raw # rest) =
     (if maxLine \<le> length raw then TooLong
      else if drop_cr raw = [] then verify_lines L prev (lineNo + 1) rest
      else case al_decode L (drop_cr raw) of
        None \<Rightarrow> InvalidJSON (lineNo + 1)
      | Some e \<Rightarrow>
          if ae_PrevHash e \<noteq> prev then PrevMismatch (lineNo + 1)
          else if ae_Hash e \<noteq> computeHash L prev (payload.truncate e) then HashMismatch (lineNo + 1)
          else verify_lines L (ae_Hash e) (lineNo + 1) rest)"

definition Verify :: "audit_lib \<Rightarrow> string \<Rightarrow> verdict" where
  "Verify L file = verify_lines L GenesisHash 0 (scan_lines file)"

fun read_lines :: "audit_lib \<Rightarrow> string list \<Rightarrow> audit_entry list option" where
  "read_lines L [] = Some []"
| "read_lines L (raw # rest) =
     (if maxLine \<le> length raw then None
      else if drop_cr raw = [] then read_lines L rest
      else case al_decode L (drop_cr raw) of
        None \<Rightarrow> None
      | Some e \<Rightarrow> map_option ((#) e) (read_lines L rest))"

definition Read :: "audit_lib \<Rightarrow> string \<Rightarrow> audit_entry list option" where
  "Read L file = read_lines L (scan_lines file)"

section \<open>The chain\<close>

text \<open>What the log should hold: the payloads, each under the hash before it.\<close>

fun chain :: "audit_lib \<Rightarrow> string \<Rightarrow> payload list \<Rightarrow> audit_entry list" where
  "chain L prev [] = []"
| "chain L prev (p # ps) = sealed L prev p # chain L (computeHash L prev p) ps"

fun tip :: "string \<Rightarrow> audit_entry list \<Rightarrow> string" where
  "tip prev [] = prev"
| "tip prev (e # es) = tip (ae_Hash e) es"

definition file_of :: "audit_lib \<Rightarrow> audit_entry list \<Rightarrow> string" where
  "file_of L es = concat (map (\<lambda>e. al_line L e @ [CHR 0x0A]) es)"

text \<open>What is asked of the encodings, for the entries at hand.\<close>

definition line_ok :: "audit_lib \<Rightarrow> audit_entry \<Rightarrow> bool" where
  "line_ok L e \<longleftrightarrow> al_decode L (al_line L e) = Some e \<and> al_line L e \<noteq> [] \<and> CHR 0x0A \<notin> set (al_line L e)
     \<and> last (al_line L e) \<noteq> CHR 0x0D \<and> length (al_line L e) < maxLine \<and> ae_Hash e \<noteq> []"

definition codec_ok :: "audit_lib \<Rightarrow> audit_entry list \<Rightarrow> bool" where
  "codec_ok L es \<longleftrightarrow> list_all (line_ok L) es
     \<and> list_all (\<lambda>n. al_values L (file_of L (take n es)) = Some (take n es)) [0..<Suc (length es)]"

lemma sealed_simps [simp]:
  "ae_PrevHash (sealed L prev p) = prev" "ae_Hash (sealed L prev p) = computeHash L prev p"
  "payload.truncate (sealed L prev p) = p"
  by (simp_all add: sealed_def payload.defs)

lemma chain_append: "chain L prev (ps @ qs) = chain L prev ps @ chain L (tip prev (chain L prev ps)) qs"
  by (induction ps arbitrary: prev) simp_all

lemma tip_append: "tip prev (es @ fs) = tip (tip prev es) fs"
  by (induction es arbitrary: prev) simp_all

lemma tip_last: "tip prev es = (if es = [] then prev else ae_Hash (last es))"
  by (induction es arbitrary: prev) auto

lemma file_of_append: "file_of L (es @ fs) = file_of L es @ file_of L fs"
  by (simp add: file_of_def)

lemma SplitOn_line: "c \<notin> set s \<Longrightarrow> SplitOn c (s @ c # t) = s # SplitOn c t"
  by (induction s) auto

lemma scan_file: "list_all (line_ok L) es \<Longrightarrow> scan_lines (file_of L es) = map (al_line L) es"
proof -
  assume "list_all (line_ok L) es"
  then have "SplitOn (CHR 0x0A) (file_of L es) = map (al_line L) es @ [[]]"
    by (induction es) (simp_all add: file_of_def SplitOn_line line_ok_def)
  then show ?thesis by (simp add: scan_lines_def)
qed

lemma line_facts:
  "line_ok L e \<Longrightarrow> drop_cr (al_line L e) = al_line L e" "line_ok L e \<Longrightarrow> al_line L e \<noteq> []"
  "line_ok L e \<Longrightarrow> al_decode L (al_line L e) = Some e" "line_ok L e \<Longrightarrow> \<not> maxLine \<le> length (al_line L e)"
  by (simp_all add: line_ok_def drop_cr_def)

lemma verify_chain:
  assumes "list_all (line_ok L) (chain L prev ps)"
  shows "verify_lines L prev n (map (al_line L) (chain L prev ps) @ rest)
    = verify_lines L (tip prev (chain L prev ps)) (n + length ps) rest"
  using assms
proof (induction ps arbitrary: prev n)
  case (Cons p ps)
  then show ?case by (simp add: line_facts)
qed simp

lemma read_chain: "list_all (line_ok L) es \<Longrightarrow> read_lines L (map (al_line L) es) = Some es"
  by (induction es) (simp_all add: line_facts)

lemma verify_file:
  assumes "list_all (line_ok L) (chain L GenesisHash ps)"
  shows "Verify L (file_of L (chain L GenesisHash ps)) = Verified"
    "Read L (file_of L (chain L GenesisHash ps)) = Some (chain L GenesisHash ps)"
  using verify_chain [OF assms, of 0 "[]"] read_chain [OF assms] by (simp_all add: Verify_def Read_def scan_file [OF assms])

lemma open_tip:
  assumes "codec_ok L (es @ fs)" "\<forall>e\<in>set es. ae_Hash e \<noteq> []"
  shows "AuditOpen L mode (file_of L es) = Some \<lparr>au_file = file_of L es, au_sync = mode, au_last = tip GenesisHash es\<rparr>"
proof -
  have "length es \<in> set [0..<Suc (length (es @ fs))]" by simp
  then have "al_values L (file_of L (take (length es) (es @ fs))) = Some (take (length es) (es @ fs))"
    using assms(1) unfolding codec_ok_def list_all_iff by blast
  then have v: "al_values L (file_of L es) = Some es" by simp
  have "es \<noteq> [] \<Longrightarrow> ae_Hash (last es) \<noteq> []" using assms(2) by simp
  then show ?thesis by (auto simp: AuditOpen_def lastHash_def v tip_last)
qed

section \<open>Runs without a fault\<close>

datatype audit_op = Log payload | Restart sync_mode

fun audit_run :: "audit_lib \<Rightarrow> audit_op list \<Rightarrow> auditor \<Rightarrow> auditor option" where
  "audit_run L [] a = Some a"
| "audit_run L (Log p # ops) a = audit_run L ops (fst (AuditRecord L Appended p a))"
| "audit_run L (Restart mode # ops) a = Option.bind (AuditOpen L mode (au_file a)) (audit_run L ops)"

fun payloads :: "audit_op list \<Rightarrow> payload list" where
  "payloads [] = []"
| "payloads (Log p # ops) = p # payloads ops"
| "payloads (Restart mode # ops) = payloads ops"

lemma audit_run_chain:
  assumes "codec_ok L (chain L GenesisHash (ps @ payloads ops))"
    "au_file a = file_of L (chain L GenesisHash ps)" "au_last a = tip GenesisHash (chain L GenesisHash ps)"
  shows "\<exists>a'. audit_run L ops a = Some a' \<and> au_file a' = file_of L (chain L GenesisHash (ps @ payloads ops))"
  using assms
proof (induction ops arbitrary: a ps)
  case (Cons op ops)
  show ?case
  proof (cases op)
    case (Log p)
    let ?a = "fst (AuditRecord L Appended p a)"
    have "au_file ?a = file_of L (chain L GenesisHash (ps @ [p]))" "au_last ?a = tip GenesisHash (chain L GenesisHash (ps @ [p]))"
      using Cons.prems(2,3) by (simp_all add: AuditRecord_def Let_def chain_append file_of_append tip_append file_of_def)
    then show ?thesis using Cons.IH [of "ps @ [p]" ?a] Cons.prems(1) Log by simp
  next
    case (Restart mode)
    let ?es = "chain L GenesisHash ps" and ?fs = "chain L (tip GenesisHash (chain L GenesisHash ps)) (payloads ops)"
    have c: "codec_ok L (?es @ ?fs)" using Cons.prems(1) Restart by (simp add: chain_append)
    then have "\<forall>e\<in>set ?es. ae_Hash e \<noteq> []" by (auto simp: codec_ok_def list_all_iff line_ok_def)
    from open_tip [OF c this, of mode] have o: "AuditOpen L mode (au_file a) =
      Some \<lparr>au_file = file_of L ?es, au_sync = mode, au_last = tip GenesisHash ?es\<rparr>" using Cons.prems(2) by simp
    show ?thesis using Cons.IH [of ps "\<lparr>au_file = file_of L ?es, au_sync = mode, au_last = tip GenesisHash ?es\<rparr>"] Cons.prems(1) Restart o
      by simp
  qed
qed simp

text \<open>
  C23: A log written without faults verifies, whatever entries are logged and however often the process is
  restarted in between: the file holds the entries in order, chained from the genesis hash, verification
  accepts it and reading returns them.
\<close>

theorem audit_log_verifies:
  assumes "codec_ok L (chain L GenesisHash (payloads ops))"
  shows "\<exists>a. Option.bind (AuditOpen L mode []) (audit_run L ops) = Some a
    \<and> au_file a = file_of L (chain L GenesisHash (payloads ops))
    \<and> Verify L (au_file a) = Verified \<and> Read L (au_file a) = Some (chain L GenesisHash (payloads ops))"
proof -
  let ?es = "chain L GenesisHash (payloads ops)" and ?a = "\<lparr>au_file = [], au_sync = mode, au_last = GenesisHash\<rparr>"
  have "AuditOpen L mode [] = Some ?a" using open_tip [of L "[]" ?es mode] assms by (simp add: file_of_def)
  moreover obtain a where a: "audit_run L ops ?a = Some a" "au_file a = file_of L ?es"
    using audit_run_chain [of L "[]" ops ?a] assms by (auto simp: file_of_def)
  moreover have l: "list_all (line_ok L) ?es" using assms by (simp add: codec_ok_def)
  ultimately show ?thesis using verify_file [OF l] by simp
qed

section \<open>Tampering\<close>

fun linked :: "audit_lib \<Rightarrow> string \<Rightarrow> audit_entry list \<Rightarrow> bool" where
  "linked L prev [] \<longleftrightarrow> True"
| "linked L prev (e # es) \<longleftrightarrow>
     ae_PrevHash e = prev \<and> ae_Hash e = computeHash L prev (payload.truncate e) \<and> linked L (ae_Hash e) es"

lemma linked_append: "linked L prev (es @ fs) \<longleftrightarrow> linked L prev es \<and> linked L (tip prev es) fs"
  by (induction es arbitrary: prev) auto

lemma verify_linked: "verify_lines L prev n ls = Verified \<Longrightarrow> \<exists>es. read_lines L ls = Some es \<and> linked L prev es"
  by (induction L prev n ls rule: verify_lines.induct) (fastforce split: if_splits option.splits)+

text \<open>What is hashed for an entry.\<close>

definition preimage :: "audit_lib \<Rightarrow> audit_entry \<Rightarrow> string" where
  "preimage L e = ae_PrevHash e @ al_payload L (payload.truncate e)"

definition collide :: "audit_lib \<Rightarrow> audit_entry list \<Rightarrow> audit_entry list \<Rightarrow> bool" where
  "collide L es fs \<longleftrightarrow> list_ex (\<lambda>e. list_ex (\<lambda>f. preimage L e \<noteq> preimage L f \<and> al_sha L (preimage L e) = al_sha L (preimage L f)) fs) es"

definition hits_genesis :: "audit_lib \<Rightarrow> audit_entry list \<Rightarrow> bool" where
  "hits_genesis L es \<longleftrightarrow> list_ex (\<lambda>e. al_sha L (preimage L e) = GenesisHash) es"

lemma collide_more:
  "collide L es fs \<Longrightarrow> collide L (es @ [e]) (fs @ [f])" "hits_genesis L (es @ fs) \<Longrightarrow> hits_genesis L (es @ [e] @ fs @ [f])"
  by (auto simp: collide_def hits_genesis_def list_ex_iff)

lemma linked_hash: "linked L prev (es @ [e]) \<Longrightarrow> ae_Hash e = al_sha L (preimage L e) \<and> ae_PrevHash e = tip prev es"
  by (auto simp: linked_append preimage_def computeHash_def)

lemma tip_length:
  assumes "linked L GenesisHash es" "\<And>x. length (al_sha L x) = 64"
  shows "length (tip GenesisHash es) = 64"
  using assms(1) by (cases es rule: rev_cases) (auto simp: tip_append GenesisHash_def linked_append computeHash_def assms(2))

lemma same_tip_same_log:
  assumes "linked L GenesisHash es" "linked L GenesisHash fs" "tip GenesisHash es = tip GenesisHash fs"
    "\<And>x. length (al_sha L x) = 64"
  shows "map (al_payload L \<circ> payload.truncate) es = map (al_payload L \<circ> payload.truncate) fs
    \<or> collide L es fs \<or> hits_genesis L (es @ fs)"
  using assms(1-3)
proof (induction es arbitrary: fs rule: rev_induct)
  case Nil
  then show ?case
  proof (cases fs rule: rev_cases)
    case (snoc fs' f)
    then have "al_sha L (preimage L f) = GenesisHash" using Nil linked_hash [of L GenesisHash fs' f] by (simp add: tip_append)
    then show ?thesis using snoc by (simp add: hits_genesis_def)
  qed simp
next
  case (snoc e es)
  note h = linked_hash [OF snoc.prems(1)]
  show ?case
  proof (cases fs rule: rev_cases)
    case Nil
    then have "al_sha L (preimage L e) = GenesisHash" using snoc.prems h by (simp add: tip_append)
    then show ?thesis by (simp add: hits_genesis_def)
  next
    case s: (snoc fs' f)
    note h' = linked_hash [OF snoc.prems(2) [unfolded s]]
    have eq: "al_sha L (preimage L e) = al_sha L (preimage L f)" using snoc.prems(3) h h' s by (simp add: tip_append)
    show ?thesis
    proof (cases "preimage L e = preimage L f")
      case False
      then show ?thesis using eq s by (simp add: collide_def)
    next
      case True
      have l: "linked L GenesisHash es" "linked L GenesisHash fs'" using snoc.prems s by (auto simp: linked_append)
      have "length (ae_PrevHash e) = length (ae_PrevHash f)" using tip_length [OF l(1) assms(4)] tip_length [OF l(2) assms(4)] h h' by simp
      then have p: "ae_PrevHash e = ae_PrevHash f" "al_payload L (payload.truncate e) = al_payload L (payload.truncate f)"
        using True by (simp_all add: preimage_def)
      have "tip GenesisHash es = tip GenesisHash fs'" using h h' p(1) by simp
      from snoc.IH [OF l this] show ?thesis using p(2) s collide_more [of L es fs' e f] by auto
    qed
  qed
qed

text \<open>
  C22: Two logs that both verify and end in the same hash record the same payloads, in the same order and
  none more or less, unless two of the texts hashed for their entries are a collision of the hash, or
  one of them is a preimage of the genesis hash. So whoever keeps the last hash detects every change.
\<close>

theorem audit_tamper_evident:
  assumes "Verify L f = Verified" "Verify L g = Verified" "Read L f = Some es" "Read L g = Some fs"
    "tip GenesisHash es = tip GenesisHash fs" "\<And>x. length (al_sha L x) = 64"
  shows "map (al_payload L \<circ> payload.truncate) es = map (al_payload L \<circ> payload.truncate) fs
    \<or> collide L es fs \<or> hits_genesis L (es @ fs)"
proof -
  have "linked L GenesisHash es" "linked L GenesisHash fs"
    using verify_linked [of L GenesisHash 0 "scan_lines f"] verify_linked [of L GenesisHash 0 "scan_lines g"] assms(1-4)
    by (auto simp: Verify_def Read_def)
  then show ?thesis using same_tip_same_log assms(5,6) by blast
qed

text \<open>The last hash is needed: every beginning of a log verifies as well.\<close>

lemma truncation_verifies:
  assumes "list_all (line_ok L) (chain L GenesisHash ps)"
  shows "Verify L (file_of L (take k (chain L GenesisHash ps))) = Verified"
proof -
  have "take k (chain L prev ps) = chain L prev (take k ps)" for prev
    by (induction ps arbitrary: prev k) (simp_all add: take_Cons' split: nat.splits)
  moreover have "list_all (line_ok L) (take k (chain L GenesisHash ps))" using assms by (auto simp: list_all_iff dest: in_set_takeD)
  ultimately show ?thesis using verify_chain [of L GenesisHash "take k ps" 0 "[]"] by (simp add: Verify_def scan_file)
qed

text \<open>
  C32: A sync that fails forks the chain: the entry is in the file, but its hash is not remembered, so the next
  entry is chained to the one before, and verification blames it although nobody touched the file.
\<close>

theorem audit_sync_failure_breaks_chain:
  assumes "au_sync a = SyncFull" "au_file a = file_of L (chain L GenesisHash ps)" "au_last a = tip GenesisHash (chain L GenesisHash ps)"
    "list_all (line_ok L) (chain L GenesisHash (ps @ [p]))" "line_ok L (sealed L (au_last a) q)"
    "computeHash L (au_last a) p \<noteq> au_last a"
  shows "Verify L (au_file (fst (AuditRecord L Appended q (fst (AuditRecord L SyncFailed p a))))) = PrevMismatch (length ps + 2)"
proof -
  let ?es = "chain L GenesisHash (ps @ [p])" and ?e = "sealed L (au_last a) q"
  have f: "au_file (fst (AuditRecord L Appended q (fst (AuditRecord L SyncFailed p a)))) = file_of L (?es @ [?e])"
    using assms(1-3) by (simp add: AuditRecord_def Let_def chain_append file_of_append) (simp add: file_of_def)
  have l: "list_all (line_ok L) (?es @ [?e])" using assms(4,5) by simp
  have "tip GenesisHash ?es = computeHash L (au_last a) p" using assms(3) by (simp add: chain_append tip_append)
  then have "verify_lines L (tip GenesisHash ?es) (length ps + 1) [al_line L ?e] = PrevMismatch (length ps + 2)"
    using assms(5,6) by (simp add: line_facts)
  then show ?thesis unfolding f Verify_def scan_file [OF l] using verify_chain [OF assms(4), of 0 "[al_line L ?e]"] by simp
qed

section \<open>A small instance\<close>

text \<open>A line holds the request id and the two hashes; the hash is the last character of its text, filled up.\<close>

definition demo_payload :: "string \<Rightarrow> payload" where
  "demo_payload s = \<lparr>ap_Timestamp = 0, ap_RequestID = s, ap_ClientIP = [], ap_KeyHash = [], ap_Route = [], ap_Model = [], ap_Outcome = []\<rparr>"

definition demo_decode :: "string \<Rightarrow> audit_entry option" where
  "demo_decode s =
     (case SplitOn (CHR '','') s of
        [i, prev, h] \<Rightarrow> Some (payload.extend (demo_payload i) \<lparr>ae_PrevHash = prev, ae_Hash = h\<rparr>)
      | _ \<Rightarrow> None)"

definition demo_audit :: audit_lib where
  "demo_audit = \<lparr>al_sha = (\<lambda>s. (if s = [] then CHR ''x'' else last s) # replicate 63 (CHR ''x'')), al_payload = ap_RequestID,
     al_line = (\<lambda>e. ap_RequestID e @ '','' @ ae_PrevHash e @ '','' @ ae_Hash e), al_decode = demo_decode,
     al_values = (\<lambda>file. those (map demo_decode (scan_lines file)))\<rparr>"

lemma SplitOn_none: "c \<notin> set s \<Longrightarrow> SplitOn c s = [s]"
  by (induction s) auto

lemma demo_line_ok:
  assumes "CHR '','' \<notin> set i" "CHR '','' \<notin> set prev" "CHR '','' \<notin> set h" "CHR 0x0A \<notin> set (i @ prev @ h)" "h \<noteq> []" "last h \<noteq> CHR 0x0D"
    "length (i @ prev @ h) < 1000"
  shows "line_ok demo_audit (payload.extend (demo_payload i) \<lparr>ae_PrevHash = prev, ae_Hash = h\<rparr>)"
  using assms
  by (auto simp: line_ok_def demo_audit_def demo_decode_def demo_payload_def payload.defs maxLine_def SplitOn_line SplitOn_none)

lemma demo_sealed:
  assumes "i \<noteq> []" "CHR '','' \<notin> set (i @ prev)" "CHR 0x0A \<notin> set (i @ prev)" "length (i @ prev) < 900"
  shows "line_ok demo_audit (sealed demo_audit prev (demo_payload i))"
  unfolding sealed_def using assms
  by (intro demo_line_ok) (auto simp: demo_audit_def computeHash_def demo_payload_def)

lemma demo_codec_ok:
  assumes "list_all (line_ok demo_audit) es"
  shows "codec_ok demo_audit es"
proof -
  have "al_values demo_audit (file_of demo_audit fs) = Some fs" if "list_all (line_ok demo_audit) fs" for fs
  proof -
    have "those (map demo_decode (map (al_line demo_audit) fs)) = Some fs"
      using that by (induction fs) (simp_all add: line_ok_def, simp add: demo_audit_def)
    then show ?thesis using scan_file [OF that] by (simp add: demo_audit_def)
  qed
  then show ?thesis using assms by (auto simp: codec_ok_def list_all_iff dest: in_set_takeD)
qed

lemma demo_lines:
  "list_all (line_ok demo_audit) (chain demo_audit GenesisHash [demo_payload ''a'', demo_payload ''b''])"
proof -
  have "line_ok demo_audit (sealed demo_audit GenesisHash (demo_payload ''a''))"
    by (rule demo_sealed) (auto simp: GenesisHash_def)
  moreover have "line_ok demo_audit (sealed demo_audit (computeHash demo_audit GenesisHash (demo_payload ''a'')) (demo_payload ''b''))"
    by (rule demo_sealed) (auto simp: GenesisHash_def computeHash_def demo_audit_def demo_payload_def)
  ultimately show ?thesis by simp
qed

lemma audit_log_verifies_witness:
  "\<exists>a. Option.bind (AuditOpen demo_audit SyncFull []) (audit_run demo_audit [Log (demo_payload ''a''), Restart SyncNone, Log (demo_payload ''b'')]) = Some a
    \<and> Verify demo_audit (au_file a) = Verified"
  using audit_log_verifies [of demo_audit "[Log (demo_payload ''a''), Restart SyncNone, Log (demo_payload ''b'')]" SyncFull]
    demo_codec_ok [OF demo_lines] by auto

lemma audit_tamper_evident_witness:
  "collide demo_audit (chain demo_audit GenesisHash [demo_payload ''a'', demo_payload ''b''])
      (chain demo_audit GenesisHash [demo_payload ''b''])
   \<or> hits_genesis demo_audit (chain demo_audit GenesisHash [demo_payload ''a'', demo_payload ''b''] @ chain demo_audit GenesisHash [demo_payload ''b''])"
proof -
  let ?es = "chain demo_audit GenesisHash [demo_payload ''a'', demo_payload ''b'']" and ?fs = "chain demo_audit GenesisHash [demo_payload ''b'']"
  have "line_ok demo_audit (sealed demo_audit GenesisHash (demo_payload ''b''))" by (rule demo_sealed) (auto simp: GenesisHash_def)
  then have l: "list_all (line_ok demo_audit) ?es" "list_all (line_ok demo_audit) ?fs" using demo_lines by auto
  have "tip GenesisHash ?es = tip GenesisHash ?fs" by (simp add: computeHash_def demo_audit_def demo_payload_def)
  moreover have "length (al_sha demo_audit x) = 64" for x by (simp add: demo_audit_def)
  moreover have "map (al_payload demo_audit \<circ> payload.truncate) ?es \<noteq> map (al_payload demo_audit \<circ> payload.truncate) ?fs" by simp
  ultimately show ?thesis
    using audit_tamper_evident [of demo_audit "file_of demo_audit ?es" "file_of demo_audit ?fs" ?es ?fs]
      verify_file [OF l(1)] verify_file [OF l(2)] by blast
qed

lemma audit_sync_failure_breaks_chain_witness:
  "Verify demo_audit (au_file (fst (AuditRecord demo_audit Appended (demo_payload ''b'') (fst (AuditRecord demo_audit SyncFailed
      (demo_payload ''a'') \<lparr>au_file = [], au_sync = SyncFull, au_last = GenesisHash\<rparr>))))) = PrevMismatch 2"
proof -
  have b: "line_ok demo_audit (sealed demo_audit GenesisHash (demo_payload i))" if "i \<in> {''a'', ''b''}" for i
    using that by (intro demo_sealed) (auto simp: GenesisHash_def)
  have "computeHash demo_audit GenesisHash (demo_payload ''a'') \<noteq> GenesisHash"
  proof
    assume "computeHash demo_audit GenesisHash (demo_payload ''a'') = GenesisHash"
    from arg_cong [OF this, of hd] show False
      by (simp add: computeHash_def demo_audit_def demo_payload_def GenesisHash_def hd_replicate)
  qed
  then show ?thesis
    using audit_sync_failure_breaks_chain [of "\<lparr>au_file = [], au_sync = SyncFull, au_last = GenesisHash\<rparr>" demo_audit "[]" "demo_payload ''a''" "demo_payload ''b''"]
      b [of "''a''"] b [of "''b''"] by (simp add: file_of_def)
qed

end
