(* ===== verification/Jwt.thy ===== *)
theory Jwt
  imports GoStrings "HOL-Library.Word"
begin

text \<open>
  The pluggable authenticators of \<open>internal/auth/authenticator.go\<close> and \<open>jwt.go\<close>: static key, either of
  two, and tokens checked against the keys of a JWKS endpoint, which are fetched at the start, at every
  interval and when a key id is unknown. Base64, the URL parser and the JWT library are parameters, the
  endpoint's replies are data. A reply has its status and its body, if that is read and decodes.
\<close>

section \<open>Static keys\<close>

datatype auth_mode = AuthModeStatic | AuthModeJWT | AuthModeBoth

definition ParseAuthMode :: "string \<Rightarrow> auth_mode" where
  "ParseAuthMode s = (if s = ''jwt'' then AuthModeJWT else if s = ''both'' then AuthModeBoth else AuthModeStatic)"

definition BearerAuthenticate :: "string \<Rightarrow> string \<Rightarrow> bool" where
  "BearerAuthenticate key rawToken \<longleftrightarrow> rawToken = key"

text \<open>The second one is asked, and changes its state, only when the first refuses.\<close>

definition MultiAuthenticate :: "('s \<Rightarrow> 's \<times> bool) \<Rightarrow> ('s \<Rightarrow> 's \<times> bool) \<Rightarrow> 's \<Rightarrow> 's \<times> bool" where
  "MultiAuthenticate primary secondary s =
     (case primary s of (s, True) \<Rightarrow> (s, True) | (s, False) \<Rightarrow> secondary s)"

section \<open>Keys\<close>

record jwk =
  jk_kty :: string
  jk_kid :: string
  jk_n :: string
  jk_e :: string
  jk_crv :: string
  jk_x :: string
  jk_y :: string

datatype curve = P256 | P384 | P521

datatype pubkey = RSAKey nat "64 word" | ECKey curve nat nat

record jwt_config =
  jc_URL :: string
  jc_Issuer :: string
  jc_Audience :: string

text \<open>
  \<open>jl_kid\<close> is the key id of a token that can be parsed, if its header has one of type string;
  \<open>jl_validate\<close> the library's validation under a key: signature by an allowed method, issuer, audience,
  expiry with the leeway.
\<close>

record jwt_lib =
  jl_b64 :: "string \<Rightarrow> string option"
  jl_upper :: "string \<Rightarrow> string"
  jl_scheme :: "string \<Rightarrow> string option"
  jl_kid :: "string \<Rightarrow> string option option"
  jl_alg :: "string \<Rightarrow> string"
  jl_validate :: "jwt_config \<Rightarrow> int \<Rightarrow> pubkey \<Rightarrow> string \<Rightarrow> bool"

definition allowedAlgorithms :: "string list" where "allowedAlgorithms = [''RS256'', ''ES256'']"

definition isAllowedAlgorithm :: "string \<Rightarrow> bool" where
  "isAllowedAlgorithm alg \<longleftrightarrow> list_ex (\<lambda>a. alg = a) allowedAlgorithms"

text \<open>\<open>big.Int.SetBytes\<close>, and the loop over the exponent's bytes in a 64-bit \<open>int\<close>.\<close>

definition big_bytes :: "string \<Rightarrow> nat" where
  "big_bytes s = foldl (\<lambda>n c. n * 256 + of_char c) 0 s"

definition rsa_exponent :: "string \<Rightarrow> 64 word" where
  "rsa_exponent s = foldl (\<lambda>e c. push_bit 8 e + of_nat (of_char c)) 0 s"

definition parseRSAKey :: "jwt_lib \<Rightarrow> jwk \<Rightarrow> pubkey option" where
  "parseRSAKey L k =
     (case jl_b64 L (jk_n k) of
        None \<Rightarrow> None
      | Some nBytes \<Rightarrow>
          (case jl_b64 L (jk_e k) of
             None \<Rightarrow> None
           | Some eBytes \<Rightarrow>
               (let e = rsa_exponent eBytes in if sint e < 3 then None else Some (RSAKey (big_bytes nBytes) e))))"

definition ecCurve :: "string \<Rightarrow> curve option" where
  "ecCurve crv =
     (if crv = ''P-256'' then Some P256 else if crv = ''P-384'' then Some P384 else if crv = ''P-521'' then Some P521 else None)"

definition parseECKey :: "jwt_lib \<Rightarrow> jwk \<Rightarrow> pubkey option" where
  "parseECKey L k =
     (case ecCurve (jk_crv k) of
        None \<Rightarrow> None
      | Some c \<Rightarrow>
          (case jl_b64 L (jk_x k) of
             None \<Rightarrow> None
           | Some x \<Rightarrow> (case jl_b64 L (jk_y k) of None \<Rightarrow> None | Some y \<Rightarrow> Some (ECKey c (big_bytes x) (big_bytes y)))))"

definition parseJWK :: "jwt_lib \<Rightarrow> jwk \<Rightarrow> pubkey option" where
  "parseJWK L k =
     (let kty = jl_upper L (jk_kty k) in
      if kty = ''RSA'' then parseRSAKey L k else if kty = ''EC'' then parseECKey L k else None)"

section \<open>The authenticator\<close>

datatype jwks_reply = NoReply | Reply nat "jwk list option"

record jwt_auth =
  ja_keys :: "string \<rightharpoonup> pubkey"
  ja_fetches :: nat

definition keep_key :: "jwt_lib \<Rightarrow> jwk \<Rightarrow> (string \<rightharpoonup> pubkey) \<Rightarrow> (string \<rightharpoonup> pubkey)" where
  "keep_key L k m = (case parseJWK L k of None \<Rightarrow> m | Some pk \<Rightarrow> m(jk_kid k \<mapsto> pk))"

definition fetchKeys :: "jwt_lib \<Rightarrow> jwks_reply \<Rightarrow> jwt_auth \<Rightarrow> jwt_auth \<times> bool" where
  "fetchKeys L reply a =
     (let a = a\<lparr>ja_fetches := ja_fetches a + 1\<rparr> in
      case reply of
        NoReply \<Rightarrow> (a, False)
      | Reply status body \<Rightarrow>
          if status \<noteq> 200 then (a, False)
          else case body of
            None \<Rightarrow> (a, False)
          | Some ks \<Rightarrow>
              if list_all (\<lambda>k. parseJWK L k = None) ks then (a, False)
              else (a\<lparr>ja_keys := fold (keep_key L) ks Map.empty\<rparr>, True))"

definition NewJWTAuthenticator :: "jwt_lib \<Rightarrow> jwt_config \<Rightarrow> jwks_reply \<Rightarrow> jwt_auth option" where
  "NewJWTAuthenticator L cfg reply =
     (if jc_URL cfg = [] then None
      else if jl_scheme L (jc_URL cfg) \<noteq> Some ''https'' then None
      else case fetchKeys L reply \<lparr>ja_keys = Map.empty, ja_fetches = 0\<rparr> of (a, ok) \<Rightarrow> if ok then Some a else None)"

definition getKey :: "jwt_lib \<Rightarrow> string \<Rightarrow> jwks_reply \<Rightarrow> jwt_auth \<Rightarrow> jwt_auth \<times> pubkey option" where
  "getKey L kid reply a =
     (case ja_keys a kid of
        Some k \<Rightarrow> (a, Some k)
      | None \<Rightarrow> (case fetchKeys L reply a of (a, ok) \<Rightarrow> if ok then (a, ja_keys a kid) else (a, None)))"

definition Authenticate :: "jwt_lib \<Rightarrow> jwt_config \<Rightarrow> int \<Rightarrow> jwks_reply \<Rightarrow> string \<Rightarrow> jwt_auth \<Rightarrow> jwt_auth \<times> bool" where
  "Authenticate L cfg now reply rawToken a =
     (if rawToken = [] then (a, False)
      else case jl_kid L rawToken of
        Some (Some kid) \<Rightarrow>
          if kid = [] then (a, False)
          else (case getKey L kid reply a of
                  (a, None) \<Rightarrow> (a, False)
                | (a, Some key) \<Rightarrow> (a, isAllowedAlgorithm (jl_alg L rawToken) \<and> jl_validate L cfg now key rawToken))
      | _ \<Rightarrow> (a, False))"

text \<open>The background refresh only logs a failure.\<close>

datatype jwt_event = Refresh jwks_reply | Request int jwks_reply string

definition jwt_step :: "jwt_lib \<Rightarrow> jwt_config \<Rightarrow> jwt_event \<Rightarrow> jwt_auth \<Rightarrow> jwt_auth" where
  "jwt_step L cfg ev a =
     (case ev of
        Refresh reply \<Rightarrow> fst (fetchKeys L reply a)
      | Request now reply rawToken \<Rightarrow> fst (Authenticate L cfg now reply rawToken a))"

section \<open>The keys a reply publishes\<close>

text \<open>The last entry of a key id that can be parsed counts.\<close>

definition published :: "jwt_lib \<Rightarrow> jwk list \<Rightarrow> string \<rightharpoonup> pubkey" where
  "published L ks = map_of (rev (List.map_filter (\<lambda>k. map_option (Pair (jk_kid k)) (parseJWK L k)) ks))"

definition usable_reply :: "jwt_lib \<Rightarrow> jwks_reply \<Rightarrow> (string \<rightharpoonup> pubkey) option" where
  "usable_reply L reply =
     (case reply of
        Reply status (Some ks) \<Rightarrow> if status = 200 \<and> list_ex (\<lambda>k. parseJWK L k \<noteq> None) ks then Some (published L ks) else None
      | _ \<Rightarrow> None)"

lemma keep_keys: "fold (keep_key L) ks m = m ++ published L ks"
  by (induction ks arbitrary: m)
    (auto simp: published_def keep_key_def map_filter_simps fun_eq_iff map_add_def split: option.splits)

lemma fetch_published:
  "fetchKeys L reply a =
     (let a = a\<lparr>ja_fetches := ja_fetches a + 1\<rparr> in
      case usable_reply L reply of None \<Rightarrow> (a, False) | Some m \<Rightarrow> (a\<lparr>ja_keys := m\<rparr>, True))"
  by (auto simp: fetchKeys_def usable_reply_def keep_keys list_ex_iff list_all_iff Let_def split: jwks_reply.splits option.splits)

text \<open>An unknown key id makes the endpoint be asked, every time.\<close>

lemma unknown_kid_fetches:
  "ja_keys a kid = None \<Longrightarrow> jl_kid L tok = Some (Some kid) \<Longrightarrow> kid \<noteq> [] \<Longrightarrow> tok \<noteq> [] \<Longrightarrow>
   ja_fetches (fst (Authenticate L cfg now reply tok a)) = ja_fetches a + 1"
  by (auto simp: Authenticate_def getKey_def fetch_published Let_def split: option.splits)

text \<open>
  C24: A token is accepted exactly when it names a key id, the key held under that id, or, if none is, the one
  the endpoint publishes when asked again, validates it, and its algorithm is one of the two allowed.
\<close>

theorem jwt_accepts_exactly:
  "snd (Authenticate L cfg now reply tok a) \<longleftrightarrow>
     tok \<noteq> [] \<and> jl_alg L tok \<in> {''RS256'', ''ES256''}
     \<and> (\<exists>kid k. jl_kid L tok = Some (Some kid) \<and> kid \<noteq> [] \<and> jl_validate L cfg now k tok
         \<and> (case ja_keys a kid of
              Some k' \<Rightarrow> k = k'
            | None \<Rightarrow> Option.bind (usable_reply L reply) (\<lambda>m. m kid) = Some k))"
  by (auto simp: Authenticate_def getKey_def fetch_published isAllowedAlgorithm_def allowedAlgorithms_def Let_def
      split: option.splits)

text \<open>The replies that arrive in a run, and the keys a reply holds.\<close>

definition replies :: "jwt_event list \<Rightarrow> jwks_reply list" where
  "replies evs = map (\<lambda>ev. case ev of Refresh r \<Rightarrow> r | Request _ r _ \<Rightarrow> r) evs"

definition from_reply :: "jwt_lib \<Rightarrow> jwks_reply list \<Rightarrow> (string \<rightharpoonup> pubkey) \<Rightarrow> bool" where
  "from_reply L rs m \<longleftrightarrow> m \<noteq> Map.empty \<and> list_ex (\<lambda>r. usable_reply L r = Some m) rs"

lemma usable_not_empty: "usable_reply L r = Some m \<Longrightarrow> m \<noteq> Map.empty"
proof -
  assume u: "usable_reply L r = Some m"
  then obtain ks k where k: "m = published L ks" "k \<in> set ks" "parseJWK L k \<noteq> None"
    by (auto simp: usable_reply_def list_ex_iff split: jwks_reply.splits option.splits if_splits)
  then obtain pk where "(jk_kid k, pk) \<in> set (List.map_filter (\<lambda>k. map_option (Pair (jk_kid k)) (parseJWK L k)) ks)"
    by (force simp: map_filter_def)
  then have "jk_kid k \<in> fst ` set (List.map_filter (\<lambda>k. map_option (Pair (jk_kid k)) (parseJWK L k)) ks)" by (rule image_eqI [rotated]) simp
  then have "published L ks (jk_kid k) \<noteq> None" by (simp add: published_def map_of_eq_None_iff)
  with k show ?thesis by auto
qed

lemma step_keys:
  "ja_keys (jwt_step L cfg ev a) = ja_keys a \<or> usable_reply L (case ev of Refresh r \<Rightarrow> r | Request _ r _ \<Rightarrow> r) = Some (ja_keys (jwt_step L cfg ev a))"
  by (auto simp: jwt_step_def Authenticate_def getKey_def fetch_published Let_def split: jwt_event.splits option.splits prod.splits if_splits)

lemma run_keys:
  assumes "from_reply L rs (ja_keys a)"
  shows "from_reply L (rs @ replies evs) (ja_keys (fold (jwt_step L cfg) evs a))"
  using assms
proof (induction evs arbitrary: a rs)
  case (Cons ev evs)
  have "from_reply L (rs @ replies [ev]) (ja_keys (jwt_step L cfg ev a))"
    using step_keys [of L cfg ev a] Cons.prems usable_not_empty by (auto simp: from_reply_def replies_def)
  from Cons.IH [OF this] show ?case by (simp add: replies_def)
qed (simp add: replies_def)


section \<open>Exponents\<close>

lemma sint_cases: "sint (w :: 64 word) = (if uint w < 2 ^ 63 then uint w else uint w - 2 ^ 64)"
proof -
  have b: "uint w < 2 ^ 64" "0 \<le> uint w" using uint_lt2p [of w] by simp_all
  show ?thesis
  proof (cases "uint w < 2 ^ 63")
    case True
    with b have "- (2 ^ 63) \<le> uint w" by linarith
    with True show ?thesis by (simp add: sint_uint signed_take_bit_int_eq_self_iff)
  next
    case False
    have "uint w div 2 ^ 63 = 1" by (rule int_div_pos_eq [of _ _ _ "uint w - 2 ^ 63"]) (use False b in simp_all)
    then have "bit (uint w) 63" by (simp add: bit_iff_odd)
    then show ?thesis using False b by (simp add: sint_uint signed_take_bit_eq_take_bit_minus take_bit_int_eq_self_iff)
  qed
qed

lemma unat_below: "unat (w :: 64 word) < 2 ^ 64"
  by (rule order_less_le_trans [OF unsigned_less]) simp

lemma exponent_loop: "unat (foldl (\<lambda>e c. push_bit 8 e + of_nat (of_char c)) (e :: 64 word) s)
    = foldl (\<lambda>n c. n * 256 + of_char c) (unat e) s mod 2 ^ 64"
proof (induction s arbitrary: e)
  case Nil
  then show ?case using unat_below [of e] by simp
next
  case (Cons c s)
  have fold_mod: "foldl (\<lambda>n c. n * 256 + of_char c) (m mod 2 ^ 64) s mod 2 ^ 64 = foldl (\<lambda>n c. n * 256 + of_char c) m s mod 2 ^ 64" for m :: nat
  proof (induction s arbitrary: m)
    case (Cons d s)
    have e: "(m mod 2 ^ 64 * 256 + of_char d) mod 2 ^ 64 = (m * 256 + of_char d) mod 2 ^ 64"
      by (metis mod_mult_left_eq mod_add_left_eq)
    show ?case using Cons [of "m mod 2 ^ 64 * 256 + of_char d"] Cons [of "m * 256 + of_char d"] e by simp
  qed simp
  have "unat (push_bit 8 e + of_nat (of_char c)) = (unat e * 256 + of_char c) mod 2 ^ 64"
    by (simp add: push_bit_eq_mult unat_word_ariths unat_of_nat mod_simps mult.commute)
  then show ?case using Cons [of "push_bit 8 e + of_nat (of_char c)"] fold_mod by simp
qed

text \<open>
  An RSA key is taken exactly when both its numbers decode and the exponent, modulo \<open>2\<^sup>6\<^sup>4\<close> and read as a
  signed number, is at least three: a longer exponent is not refused but wraps around.
\<close>

theorem rsa_key_exact:
  "parseRSAKey L k =
     (case (jl_b64 L (jk_n k), jl_b64 L (jk_e k)) of
        (Some n, Some e) \<Rightarrow>
          (let v = big_bytes e mod 2 ^ 64
           in if 3 \<le> v \<and> v < 2 ^ 63 then Some (RSAKey (big_bytes n) (of_nat v)) else None)
      | _ \<Rightarrow> None)"
proof -
  have u: "unat (rsa_exponent e) = big_bytes e mod 2 ^ 64" for e
    using exponent_loop [of 0 e] by (simp add: rsa_exponent_def big_bytes_def)
  have s: "sint x < 3 \<longleftrightarrow> \<not> (3 \<le> unat x \<and> unat x < 2 ^ 63)" for x :: "64 word"
  proof -
    have u: "uint x = int (unat x)" by simp
    have b: "int (unat x) < 2 ^ 64" using unat_below [of x] by (metis of_nat_less_iff of_nat_numeral of_nat_power)
    have "((if int n < 2 ^ 63 then int n else int n - 2 ^ 64) < 3) = (\<not> (3 \<le> n \<and> n < 2 ^ 63))" if "int n < 2 ^ 64" for n :: nat
      using that by auto
    from this [OF b] show ?thesis unfolding sint_cases u .
  qed
  have key: "(if sint x < 3 then None else Some (RSAKey n x))
    = (if 3 \<le> unat x \<and> unat x < 2 ^ 63 then Some (RSAKey n (of_nat (unat x))) else None)" for x :: "64 word" and n
    unfolding s by simp
  show ?thesis
    unfolding parseRSAKey_def Let_def key u by (cases "jl_b64 L (jk_n k)"; cases "jl_b64 L (jk_e k)") simp_all
qed

end
