(* ===== verification/ServerGate.thy ===== *)
theory ServerGate
  imports AuthGate Jwt
begin

text \<open>
  How \<open>cmd/nexus/server.go\<close> puts the inbound gates in front of the mux: the address allowlist, the
  authentication gate with the authenticator its mode asks for, and which paths are exempt. The keys
  file is its entries or an error. What the mux serves is behind the answer \<open>ToMux\<close>.
\<close>

section \<open>Configuration\<close>

record server_config =
  sc_ProxyAPIKey :: string
  sc_APIKeysFile :: string
  sc_AuthMode :: string
  sc_jwks :: jwt_config
  sc_AllowCIDRs :: "ipnet list"
  sc_AllowStrict :: bool
  sc_StatusPublic :: bool
  sc_DashboardEndpoint :: string
  sc_DashboardPublic :: bool

definition AuthEnabled :: "server_config \<Rightarrow> bool" where
  "AuthEnabled cfg \<longleftrightarrow>
     (if sc_ProxyAPIKey cfg \<noteq> [] \<or> sc_APIKeysFile cfg \<noteq> [] then True
      else (sc_AuthMode cfg = ''jwt'' \<or> sc_AuthMode cfg = ''both'') \<and> jc_URL (sc_jwks cfg) \<noteq> [])"

definition AllowCIDRsConfigured :: "server_config \<Rightarrow> bool" where
  "AllowCIDRsConfigured cfg \<longleftrightarrow> sc_AllowCIDRs cfg \<noteq> []"

definition publicPathExempt :: "server_config \<Rightarrow> string \<Rightarrow> bool" where
  "publicPathExempt cfg path =
     (let dashPath = (if sc_DashboardEndpoint cfg = [] then ''/dashboard'' else sc_DashboardEndpoint cfg) in
      if path \<in> {''/healthz'', ''/metrics'', ''/readyz''} then True
      else if path = ''/status'' then sc_StatusPublic cfg
      else if path = dashPath then sc_DashboardPublic cfg
      else HasPrefix path ''/debug/'')"

definition allowExempt :: "server_config \<Rightarrow> string \<Rightarrow> bool" where
  "allowExempt cfg path = (if sc_AllowStrict cfg then False else path \<in> {''/healthz'', ''/metrics'', ''/readyz''})"

section \<open>Assembly\<close>

text \<open>An error of the constructor is logged, and there is no authenticator.\<close>

definition buildAuthenticator :: "jwt_lib \<Rightarrow> server_config \<Rightarrow> jwks_reply \<Rightarrow> jwt_auth option" where
  "buildAuthenticator L cfg reply =
     (if sc_AuthMode cfg \<noteq> ''jwt'' \<and> sc_AuthMode cfg \<noteq> ''both'' then None
      else if jc_URL (sc_jwks cfg) = [] then None
      else NewJWTAuthenticator L (sc_jwks cfg) reply)"

text \<open>The root handler: the gate with its decision at assembly, or the allowlist before the mux.\<close>

datatype root = Gated gate bool "jwt_auth option" | Listed "allowlist option" bool

definition buildAllowlist :: "server_config \<Rightarrow> ipnet list option \<Rightarrow> allowlist option" where
  "buildAllowlist cfg resolver =
     (if AllowCIDRsConfigured cfg then Some \<lparr>al_cidrs = sc_AllowCIDRs cfg, al_resolver = resolver\<rparr> else None)"

definition rootHandler ::
  "jwt_lib \<Rightarrow> (string \<Rightarrow> string) \<Rightarrow> server_config \<Rightarrow> (string \<times> string) list option \<Rightarrow> authlimiter option \<Rightarrow> ipnet list option
     \<Rightarrow> jwks_reply \<Rightarrow> root option" where
  "rootHandler L sha cfg entries limiter resolver reply =
     (let allow = buildAllowlist cfg resolver in
      if AuthEnabled cfg then
        if sc_APIKeysFile cfg \<noteq> [] then
          map_option (\<lambda>es. let g = NewMultiKeyMiddleware (sc_ProxyAPIKey cfg) (Some (NewCredentialSet sha es)) limiter True
                            in Gated g (GateEnabled g) None) entries
        else
          let authenticator = buildAuthenticator L cfg reply;
              gateKey = (if sc_ProxyAPIKey cfg = [] \<and> authenticator \<noteq> None then ''jwt-gate'' else sc_ProxyAPIKey cfg);
              g = NewMiddlewareWithAuthenticator gateKey (authenticator \<noteq> None) limiter True
          in Some (Gated g (GateEnabled g) authenticator)
      else Some (Listed allow (AllowWrap allow)))"

section \<open>A request\<close>

datatype root_answer = ToMux "string option" | RefusedByGate gate_answer | RefusedByList

definition serve_root ::
  "netlib \<Rightarrow> jwt_lib \<Rightarrow> server_config \<Rightarrow> root \<Rightarrow> request \<Rightarrow> string \<Rightarrow> string \<Rightarrow> int \<Rightarrow> jwks_reply \<Rightarrow> root_answer option" where
  "serve_root N L cfg h req path authorization now reply =
     (case h of
        Gated g wrapped auth \<Rightarrow>
          map_option (\<lambda>(g, answer, events). case answer of Served t \<Rightarrow> ToMux t | _ \<Rightarrow> RefusedByGate answer)
            (gate_serve N (\<lambda>tok. case auth of None \<Rightarrow> False | Some a \<Rightarrow> snd (Jwt.Authenticate L (sc_jwks cfg) now reply tok a))
               wrapped g req authorization (publicPathExempt cfg path) now)
      | Listed allow wrapped \<Rightarrow>
          Some (case allow_handle N wrapped allow (allowExempt cfg path) req of Pass \<Rightarrow> ToMux None | Forbidden \<Rightarrow> RefusedByList))"

section \<open>What the assembly means\<close>

definition rate_limited :: "netlib \<Rightarrow> authlimiter option \<Rightarrow> request \<Rightarrow> int \<Rightarrow> bool" where
  "rate_limited N limiter req now =
     snd (limiter_check (NewGate [] limiter True) (Resolve N (gt_resolver (NewGate [] limiter True)) req) now)"

lemma gate_passes:
  "(\<exists>m' t ev. gate_serve N authn True g req authz exempt now = Some (m', Served t, ev)) \<longleftrightarrow>
     \<not> snd (limiter_check g (Resolve N (gt_resolver g) req) now)
     \<and> (exempt \<or> BearerToken authz \<noteq> [] \<and> snd (check_token authn g (BearerToken authz)) \<noteq> None)"
proof -
  obtain m1 b where chk: "limiter_check g (Resolve N (gt_resolver g) req) now = (m1, b)" by fastforce
  then have "m1 = g \<or> (\<exists>l. m1 = g\<lparr>gt_limiter := l\<rparr>)" by (auto simp: limiter_check_def split: if_splits prod.splits)
  then have ct: "check_token authn m1 token = check_token authn g token" for token by auto
  have nr: "refuse m2 ip md r now \<noteq> Some (m', Served t, ev)" for m2 ip md r m' t ev by (auto simp: refuse_def)
  obtain md res where c: "check_token authn g (BearerToken authz) = (md, res)" by fastforce
  show ?thesis
    by (cases b; cases exempt; cases "BearerToken authz = []"; cases res) (simp_all add: gate_serve_def Let_def chk ct c nr)
qed

lemma limited_gate:
  "snd (limiter_check (NewMiddlewareWithAuthenticator k a limiter True) (Resolve N (gt_resolver (NewMiddlewareWithAuthenticator k a limiter True)) req) now)
     = rate_limited N limiter req now"
  by (auto simp: rate_limited_def limiter_check_def NewMiddlewareWithAuthenticator_def NewGate_def split: prod.splits)

lemma new_gate:
  "snd (check_token authn (NewMiddlewareWithAuthenticator k b limiter obs) tok) = None \<longleftrightarrow> (if b then \<not> authn tok else tok \<noteq> k)"
  "GateEnabled (NewMiddlewareWithAuthenticator k b limiter obs) \<longleftrightarrow> k \<noteq> [] \<or> b"
  by (simp_all add: check_token_def GateEnabled_def has_creds_def NewMiddlewareWithAuthenticator_def NewGate_def)

lemma gate_open: "gate_serve N authn False g req authz exempt now = Some (g, Served None, [])"
  by (simp add: gate_serve_def)

lemma gate_mux:
  "(\<exists>t. serve_root N L cfg (Gated g wrapped auth) req path authz now reply = Some (ToMux t)) \<longleftrightarrow>
     (\<exists>m' t ev. gate_serve N (\<lambda>tok. case auth of None \<Rightarrow> False | Some a \<Rightarrow> snd (Jwt.Authenticate L (sc_jwks cfg) now reply tok a))
        wrapped g req authz (publicPathExempt cfg path) now = Some (m', Served t, ev))"
proof -
  have "(\<exists>t. map_option (\<lambda>(g, answer, events). case answer of Served t \<Rightarrow> ToMux t | _ \<Rightarrow> RefusedByGate answer) x = Some (ToMux t))
    \<longleftrightarrow> (\<exists>m' t ev. x = Some (m', Served t, ev))" for x :: "(gate \<times> gate_answer \<times> gate_event list) option"
  proof (cases x)
    case (Some a)
    obtain m ans ev where "a = (m, ans, ev)" by (cases a)
    with Some show ?thesis by (cases ans) simp_all
  qed simp
  then show ?thesis by (simp add: serve_root_def)
qed

text \<open>
  C5: Who gets through, when no credential file is configured: with an authenticator the holders of a token it
  accepts, otherwise the holders of the static key, unless the path is exempt; the brute-force limiter
  is asked first. So beside an authenticator the static key is of no use, and if the authenticator is
  missing because its first fetch failed and no static key is set, everybody gets through. Without any
  key or authenticator configured the allowlist decides, and otherwise it is not asked.
\<close>

theorem server_gate_exact:
  assumes "sc_APIKeysFile cfg = []" "rootHandler L sha cfg entries limiter resolver reply0 = Some h"
  shows "(\<exists>t. serve_root N L cfg h req path authz now reply = Some (ToMux t)) \<longleftrightarrow>
    (if AuthEnabled cfg then
       case buildAuthenticator L cfg reply0 of
         None \<Rightarrow> sc_ProxyAPIKey cfg = []
           \<or> \<not> rate_limited N limiter req now \<and> (publicPathExempt cfg path \<or> BearerToken authz = sc_ProxyAPIKey cfg)
       | Some a \<Rightarrow> \<not> rate_limited N limiter req now
           \<and> (publicPathExempt cfg path
              \<or> BearerToken authz \<noteq> [] \<and> snd (Jwt.Authenticate L (sc_jwks cfg) now reply (BearerToken authz) a))
     else allowExempt cfg path
       \<or> anyAllowed N \<lparr>al_cidrs = sc_AllowCIDRs cfg, al_resolver = resolver\<rparr> (Resolve N resolver req))"
proof (cases "AuthEnabled cfg")
  case False
  then have "h = Listed (buildAllowlist cfg resolver) (AllowWrap (buildAllowlist cfg resolver))"
    using assms by (simp add: rootHandler_def Let_def)
  then show ?thesis using False
    by (auto simp: serve_root_def allow_handle_def AllowWrap_def ClientIP.AllowEnabled_def buildAllowlist_def AllowCIDRsConfigured_def
        anyAllowed_def split: verdict.splits)
next
  case True
  let ?a = "buildAuthenticator L cfg reply0"
  let ?k = "if sc_ProxyAPIKey cfg = [] \<and> ?a \<noteq> None then ''jwt-gate'' else sc_ProxyAPIKey cfg"
  let ?g = "NewMiddlewareWithAuthenticator ?k (?a \<noteq> None) limiter True"
  have h: "h = Gated ?g (GateEnabled ?g) ?a" using assms True by (simp add: rootHandler_def Let_def)
  show ?thesis
  proof (cases ?a)
    case None
    then show ?thesis using True unfolding h gate_mux new_gate
      by (cases "sc_ProxyAPIKey cfg = []") (auto simp: gate_open gate_passes limited_gate new_gate)
  next
    case (Some a)
    have "GateEnabled ?g" unfolding new_gate using Some by simp
    then show ?thesis using True Some unfolding h gate_mux by (simp add: gate_passes limited_gate new_gate)
  qed
qed

text \<open>
  With authentication enabled the allowlist is not in the chain at all: the gate wraps the bare mux, so
  whatever addresses are listed, every request is answered as if none were.
\<close>

theorem auth_drops_allowlist:
  assumes "AuthEnabled cfg"
  shows "rootHandler L sha (cfg\<lparr>sc_AllowCIDRs := nets, sc_AllowStrict := strict\<rparr>) entries limiter resolver reply0
      = rootHandler L sha cfg entries limiter resolver reply0
    \<and> (case rootHandler L sha cfg entries limiter resolver reply0 of
         None \<Rightarrow> True
       | Some h \<Rightarrow> serve_root N L (cfg\<lparr>sc_AllowCIDRs := nets, sc_AllowStrict := strict\<rparr>) h req path authz now reply
           = serve_root N L cfg h req path authz now reply
           \<and> serve_root N L cfg h req path authz now reply \<noteq> Some RefusedByList)"
proof -
  have b: "buildAuthenticator L (cfg\<lparr>sc_AllowCIDRs := nets, sc_AllowStrict := strict\<rparr>) reply0 = buildAuthenticator L cfg reply0"
    "AuthEnabled (cfg\<lparr>sc_AllowCIDRs := nets, sc_AllowStrict := strict\<rparr>) = AuthEnabled cfg"
    "publicPathExempt (cfg\<lparr>sc_AllowCIDRs := nets, sc_AllowStrict := strict\<rparr>) = publicPathExempt cfg"
    "sc_jwks (cfg\<lparr>sc_AllowCIDRs := nets, sc_AllowStrict := strict\<rparr>) = sc_jwks cfg"
    by (simp_all add: buildAuthenticator_def AuthEnabled_def publicPathExempt_def fun_eq_iff)
  have g: "\<exists>g w a. h = Gated g w a" if "rootHandler L sha cfg entries limiter resolver reply0 = Some h" for h
    using that assms by (auto simp: rootHandler_def Let_def split: if_splits)
  have n: "map_option (\<lambda>(g, answer, events). case answer of Served t \<Rightarrow> ToMux t | _ \<Rightarrow> RefusedByGate answer) x \<noteq> Some RefusedByList"
    for x :: "(gate \<times> gate_answer \<times> gate_event list) option"
  proof (cases x)
    case (Some a)
    obtain m ans ev where "a = (m, ans, ev)" by (cases a)
    with Some show ?thesis by (cases ans) simp_all
  qed simp
  have s: "serve_root N L (cfg\<lparr>sc_AllowCIDRs := nets, sc_AllowStrict := strict\<rparr>) (Gated gt w a) req path authz now reply
      = serve_root N L cfg (Gated gt w a) req path authz now reply"
    "serve_root N L cfg (Gated gt w a) req path authz now reply \<noteq> Some RefusedByList" for gt w a
    using n unfolding serve_root_def b by simp_all
  have "rootHandler L sha (cfg\<lparr>sc_AllowCIDRs := nets, sc_AllowStrict := strict\<rparr>) entries limiter resolver reply0
      = rootHandler L sha cfg entries limiter resolver reply0"
    using assms unfolding rootHandler_def Let_def b by auto
  with g s show ?thesis by (fastforce split: option.splits)
qed

text \<open>
  C31: The gate fails open: in JWT mode without a static key, if the keys cannot be fetched when the server
  starts, the constructor's error is logged, no authenticator and no key are left, and every request
  reaches the mux with no credential at all, although authentication is enabled.
\<close>

theorem jwt_boot_failure_opens_server:
  assumes "sc_ProxyAPIKey cfg = []" "sc_APIKeysFile cfg = []" "sc_AuthMode cfg \<in> {''jwt'', ''both''}" "jc_URL (sc_jwks cfg) \<noteq> []"
    "NewJWTAuthenticator L (sc_jwks cfg) reply0 = None"
  shows "AuthEnabled cfg \<and> (\<exists>h. rootHandler L sha cfg entries limiter resolver reply0 = Some h
    \<and> serve_root N L cfg h req path authz now reply = Some (ToMux None))"
proof -
  have "AuthEnabled cfg" using assms by (auto simp: AuthEnabled_def)
  moreover have "buildAuthenticator L cfg reply0 = None" using assms by (simp add: buildAuthenticator_def)
  ultimately show ?thesis using assms by (auto simp: rootHandler_def new_gate serve_root_def gate_open Let_def)
qed

section \<open>Instances\<close>

definition demo_server :: "string \<Rightarrow> string \<Rightarrow> server_config" where
  "demo_server key mode =
     \<lparr>sc_ProxyAPIKey = key, sc_APIKeysFile = [], sc_AuthMode = mode, sc_jwks = \<lparr>jc_URL = ''u'', jc_Issuer = [], jc_Audience = []\<rparr>,
      sc_AllowCIDRs = [Net4 0 0], sc_AllowStrict = False, sc_StatusPublic = False, sc_DashboardEndpoint = [], sc_DashboardPublic = False\<rparr>"

definition demo_jwt :: jwt_lib where
  "demo_jwt = \<lparr>jl_b64 = Some, jl_upper = id, jl_scheme = (\<lambda>_. Some ''https''), jl_kid = (\<lambda>_. Some (Some ''k'')), jl_alg = (\<lambda>_. ''RS256''),
     jl_validate = (\<lambda>_ _ _ _. False)\<rparr>"

definition demo_request :: request where "demo_request = \<lparr>RemoteAddr = ''p'', XFF = [], XRealIP = []\<rparr>"

definition demo_root :: "string \<Rightarrow> root" where
  "demo_root key = Gated (NewMiddlewareWithAuthenticator key False None True) (key \<noteq> []) None"

lemma demo_assembled: "rootHandler demo_jwt id (demo_server key ''static'') None None None NoReply = Some (demo_root key)" if "key \<noteq> []"
  using that by (simp add: rootHandler_def AuthEnabled_def demo_server_def buildAuthenticator_def demo_root_def new_gate Let_def)

lemma server_gate_exact_witness:
  "\<exists>t. serve_root binlib demo_jwt (demo_server ''k'' ''static'') (demo_root ''k'') demo_request ''/v1'' ''Bearer k'' 0 NoReply = Some (ToMux t)"
proof -
  have t: "BearerToken ''Bearer k'' = ''k''" by code_simp
  have c: "sc_APIKeysFile (demo_server ''k'' ''static'') = []" "AuthEnabled (demo_server ''k'' ''static'')"
    "buildAuthenticator demo_jwt (demo_server ''k'' ''static'') NoReply = None" "sc_ProxyAPIKey (demo_server ''k'' ''static'') = ''k''"
    by (simp_all add: demo_server_def AuthEnabled_def buildAuthenticator_def)
  have "\<not> rate_limited binlib None demo_request 0" by (simp add: rate_limited_def limiter_check_def NewGate_def AuthLimEnabled_def)
  then show ?thesis
    using server_gate_exact [OF c(1) demo_assembled, where N = binlib and req = demo_request and authz = "''Bearer k''" and now = 0 and
        path = "''/v1''" and reply = NoReply] by (simp add: c t)
qed

lemma auth_drops_allowlist_witness:
  "serve_root binlib demo_jwt ((demo_server ''k'' ''static'')\<lparr>sc_AllowCIDRs := [Net4 1 (- 1)], sc_AllowStrict := True\<rparr>) (demo_root ''k'') demo_request
     ''/v1'' ''Bearer k'' 0 NoReply \<noteq> Some RefusedByList"
proof -
  have "AuthEnabled (demo_server ''k'' ''static'')" by (simp add: demo_server_def AuthEnabled_def)
  from auth_drops_allowlist [OF this, where L = demo_jwt and sha = id and nets = "[Net4 1 (- 1)]" and strict = True and entries = None
      and limiter = None and resolver = None and ?reply0.0 = NoReply and N = binlib and req = demo_request and path = "''/v1''"
      and authz = "''Bearer k''" and now = 0 and reply = NoReply]
  show ?thesis by (simp add: demo_assembled)
qed

lemma jwt_boot_failure_opens_server_witness:
  "AuthEnabled (demo_server [] ''jwt'') \<and> (\<exists>h. rootHandler demo_jwt id (demo_server [] ''jwt'') None None None NoReply = Some h
     \<and> serve_root binlib demo_jwt (demo_server [] ''jwt'') h demo_request ''/v1'' [] 0 NoReply = Some (ToMux None))"
  by (rule jwt_boot_failure_opens_server)
    (simp_all add: demo_server_def NewJWTAuthenticator_def fetchKeys_def demo_jwt_def Let_def)

end
