(* ===== verification/LocalHealth.thy ===== *)
theory LocalHealth
  imports FrontierHealth
begin

text \<open>
  \<open>internal/health/health.go\<close>: the poller of the local model. A probe is two HTTP calls whose answers
  are its input; what it records it records under the mutex, so the record is one step. The loop of the
  poller is a step that probes and a step that looks at the breaker and may replace its ticker; other
  goroutines may probe in between. The failure counter is an \<open>int32\<close>, durations and the multiplier are
  \<open>int64\<close>: products wrap around.
\<close>

section \<open>State\<close>

record health =
  hl_pollInterval :: nanos
  hl_threshold :: "32 word"
  hl_probeTimeout :: nanos
  hl_healthy :: bool
  hl_failureCount :: "32 word"
  hl_currentInterval :: nanos

definition DefaultPollInterval :: nanos where "DefaultPollInterval = 30 * second"
definition DefaultBreakerThreshold :: int where "DefaultBreakerThreshold = 3"
definition DefaultProbeTimeout :: nanos where "DefaultProbeTimeout = 5 * second"
definition maxBackoffMultiplier :: int where "maxBackoffMultiplier = 15"

definition NewHealth :: "nanos \<Rightarrow> int \<Rightarrow> nanos \<Rightarrow> health" where
  "NewHealth pollInterval breakerThreshold probeTimeout =
     (let pollInterval = (if pollInterval \<le> 0 then DefaultPollInterval else pollInterval);
          breakerThreshold = (if breakerThreshold \<le> 0 then DefaultBreakerThreshold else breakerThreshold);
          probeTimeout = (if probeTimeout \<le> 0 then DefaultProbeTimeout else probeTimeout)
      in \<lparr>hl_pollInterval = pollInterval, hl_threshold = word_of_int breakerThreshold, hl_probeTimeout = probeTimeout,
          hl_healthy = True, hl_failureCount = 0, hl_currentInterval = pollInterval\<rparr>)"

definition IsLocalHealthy :: "health option \<Rightarrow> bool" where
  "IsLocalHealthy h = (case h of None \<Rightarrow> True | Some h \<Rightarrow> hl_healthy h)"

definition FailureCount :: "health option \<Rightarrow> int" where
  "FailureCount h = (case h of None \<Rightarrow> 0 | Some h \<Rightarrow> sint (hl_failureCount h))"

definition PollingInterval :: "health option \<Rightarrow> nanos" where
  "PollingInterval h = (case h of None \<Rightarrow> 0 | Some h \<Rightarrow> hl_currentInterval h)"

section \<open>Back-off\<close>

text \<open>\<open>int64(1 << tier)\<close> is a shift of a 64-bit integer: the sign bit at 63, nothing from 64 on.\<close>

definition backoff_multiplier :: "int \<Rightarrow> int" where
  "backoff_multiplier count =
     (let tier = (count - 1) div 2;
          tier = (if tier < 0 then 0 else tier);
          multiplier = sint (push_bit (nat tier) (1 :: 64 word))
      in if maxBackoffMultiplier < multiplier then maxBackoffMultiplier else multiplier)"

definition calcBackoffInterval :: "health \<Rightarrow> int \<Rightarrow> nanos" where
  "calcBackoffInterval h count = wrap64 (hl_pollInterval h * backoff_multiplier count)"

section \<open>Recording\<close>

definition HealthRecordFailure :: "health \<Rightarrow> health" where
  "HealthRecordFailure h =
     (let count = hl_failureCount h + 1;
          h = h\<lparr>hl_failureCount := count\<rparr>
      in if hl_threshold h \<le>s count then
           h\<lparr>hl_healthy := False,
             hl_currentInterval := wrap64 (hl_pollInterval h * backoff_multiplier (sint count))\<rparr>
         else h)"

definition HealthRecordSuccess :: "health \<Rightarrow> health" where
  "HealthRecordSuccess h = h\<lparr>hl_healthy := True, hl_failureCount := 0, hl_currentInterval := hl_pollInterval h\<rparr>"

datatype probe_error = ProbeUnreachable | TagsStatus nat | ChatStatus nat | ModelUnavailable nat

definition probe :: "probe_answer \<Rightarrow> probe_answer \<Rightarrow> health \<Rightarrow> health \<times> probe_error option" where
  "probe tags chat h =
     (case tags of
        RequestError \<Rightarrow> (HealthRecordFailure h, Some ProbeUnreachable)
      | DialError \<Rightarrow> (HealthRecordFailure h, Some ProbeUnreachable)
      | Status code \<Rightarrow>
          if 500 \<le> code then (HealthRecordFailure h, Some (TagsStatus code))
          else (case chat of
              RequestError \<Rightarrow> (HealthRecordFailure h, Some ProbeUnreachable)
            | DialError \<Rightarrow> (HealthRecordFailure h, Some ProbeUnreachable)
            | Status code \<Rightarrow>
                if 500 \<le> code then (HealthRecordFailure h, Some (ChatStatus code))
                else if 400 \<le> code then (HealthRecordFailure h, Some (ModelUnavailable code))
                else (HealthRecordSuccess h, None)))"

text \<open>The exported \<open>Probe\<close>; \<open>None\<close> as its error is \<open>ErrDisabled\<close>.\<close>

definition Probe :: "probe_answer \<Rightarrow> probe_answer \<Rightarrow> health option \<Rightarrow> health option \<times> probe_error option option" where
  "Probe tags chat h =
     (case h of None \<Rightarrow> (None, None) | Some h \<Rightarrow> (case probe tags chat h of (h, e) \<Rightarrow> (Some h, Some e)))"

section \<open>The loop\<close>

text \<open>
  The second half of a turn: \<open>healthy\<close> was read before the lock was taken. \<open>NewTicker\<close> panics on an
  interval that is not positive: \<open>None\<close>.
\<close>

definition adjust_ticker :: "bool \<Rightarrow> health \<Rightarrow> nanos \<Rightarrow> nanos option" where
  "adjust_ticker healthy h ticker =
     (if healthy then Some ticker
      else let count = sint (hl_failureCount h) in
        if sint (hl_threshold h) \<le> count then
          let newInterval = calcBackoffInterval h count; curr = hl_currentInterval h in
          if newInterval \<noteq> curr then (if newInterval \<le> 0 then None else Some newInterval)
          else Some ticker
        else Some ticker)"

text \<open>A probe ends, the poller's or another goroutine's; the loop looks, having read \<open>healthy\<close> earlier.\<close>

datatype health_event = ProbeEnds probe_answer probe_answer | LoopLooks bool

fun health_step :: "health_event \<Rightarrow> health \<times> nanos \<Rightarrow> (health \<times> nanos) option" where
  "health_step (ProbeEnds tags chat) (h, ticker) = Some (fst (probe tags chat h), ticker)"
| "health_step (LoopLooks healthy) (h, ticker) = map_option (Pair h) (adjust_ticker healthy h ticker)"

fun health_run :: "health_event list \<Rightarrow> health \<times> nanos \<Rightarrow> (health \<times> nanos) option" where
  "health_run [] st = Some st"
| "health_run (e # es) st = Option.bind (health_step e st) (health_run es)"

definition Run :: "health \<Rightarrow> health \<times> nanos" where
  "Run h = (h, hl_pollInterval h)"

section \<open>Facts\<close>

definition probe_fails :: "probe_answer \<Rightarrow> probe_answer \<Rightarrow> bool" where
  "probe_fails tags chat \<longleftrightarrow> failed_probe tags \<or> (case chat of Status code \<Rightarrow> 400 \<le> code | _ \<Rightarrow> True)"

lemma probe_eq: "fst (probe tags chat h) = (if probe_fails tags chat then HealthRecordFailure h else HealthRecordSuccess h)"
  by (auto simp: probe_def probe_fails_def failed_probe_def split: probe_answer.splits)

lemma probe_error_iff: "snd (probe tags chat h) = None \<longleftrightarrow> \<not> probe_fails tags chat"
  by (auto simp: probe_def probe_fails_def failed_probe_def split: probe_answer.splits)

text \<open>The current interval is always the one the counter calls for.\<close>

definition interval_ok :: "health \<Rightarrow> bool" where
  "interval_ok h \<longleftrightarrow>
     (sint (hl_threshold h) \<le> sint (hl_failureCount h)
        \<longrightarrow> hl_currentInterval h = calcBackoffInterval h (sint (hl_failureCount h)))"

text \<open>The configuration does not change.\<close>

definition same_config :: "health \<Rightarrow> health \<Rightarrow> bool" where
  "same_config h h' \<longleftrightarrow> hl_threshold h' = hl_threshold h \<and> hl_pollInterval h' = hl_pollInterval h"

lemma probe_config: "same_config h (fst (probe tags chat h))"
  by (simp add: same_config_def probe_eq HealthRecordFailure_def HealthRecordSuccess_def Let_def)

lemma probe_interval [inv_intros]:
  assumes "0 < sint (hl_threshold h)" "interval_ok h"
  shows "interval_ok (fst (probe tags chat h))"
  using assms
  by (simp add: probe_eq interval_ok_def HealthRecordFailure_def HealthRecordSuccess_def calcBackoffInterval_def word_sle_eq Let_def)

lemma ticker_stays: "interval_ok h \<Longrightarrow> adjust_ticker b h ticker = Some ticker"
  by (simp add: adjust_ticker_def interval_ok_def Let_def)

lemma run_ticker:
  assumes "0 < sint (hl_threshold h)" "interval_ok h"
  shows "\<exists>h'. health_run es (h, ticker) = Some (h', ticker) \<and> same_config h h' \<and> interval_ok h'"
  using assms
proof (induction es arbitrary: h)
  case Nil
  then show ?case by (simp add: same_config_def)
next
  case (Cons e es)
  show ?case
  proof (cases e)
    case (ProbeEnds tags chat)
    have c: "same_config h (fst (probe tags chat h))" by (rule probe_config)
    then have "0 < sint (hl_threshold (fst (probe tags chat h)))" using Cons.prems by (simp add: same_config_def)
    from Cons.IH [OF this probe_interval [OF Cons.prems]] c ProbeEnds show ?thesis
      by (auto simp: same_config_def)
  next
    case (LoopLooks b)
    with Cons ticker_stays [of h b ticker] show ?thesis by simp
  qed
qed

text \<open>The failures since the last success, from the probes alone.\<close>

definition probes_of :: "health_event list \<Rightarrow> bool list" where
  "probes_of es = concat (map (\<lambda>e. case e of ProbeEnds tags chat \<Rightarrow> [probe_fails tags chat] | _ \<Rightarrow> []) es)"

definition local_fails :: "health_event list \<Rightarrow> nat" where
  "local_fails es = length (takeWhile id (rev (probes_of es)))"

lemma local_fails_snoc:
  "local_fails (es @ [ProbeEnds tags chat]) = (if probe_fails tags chat then Suc (local_fails es) else 0)"
  "local_fails (es @ [LoopLooks b]) = local_fails es" "local_fails [] = 0"
  by (simp_all add: local_fails_def probes_of_def)

lemma run_snoc: "health_run (es @ [e]) st = Option.bind (health_run es st) (health_step e)"
  by (induction es arbitrary: st) (auto split: Option.bind_splits)

definition tracks :: "int \<Rightarrow> nanos \<Rightarrow> nat \<Rightarrow> health \<Rightarrow> bool" where
  "tracks thr poll k h \<longleftrightarrow>
     hl_threshold h = word_of_int thr \<and> hl_pollInterval h = poll \<and> hl_failureCount h = word_of_nat k
     \<and> (hl_healthy h \<longleftrightarrow> int k < thr)
     \<and> hl_currentInterval h = (if int k < thr then poll else wrap64 (poll * backoff_multiplier (int k)))"

lemma tracks_step:
  assumes "tracks thr poll k h" "0 < thr" "thr < 2 ^ 31" "k + 1 < 2 ^ 31"
  shows "tracks thr poll (if probe_fails tags chat then Suc k else 0) (fst (probe tags chat h))"
proof (cases "probe_fails tags chat")
  case False
  with assms show ?thesis by (simp add: probe_eq tracks_def HealthRecordSuccess_def)
next
  case True
  have c: "sint (word_of_nat (Suc k) :: 32 word) = int (Suc k)" using assms(4) by (intro sint_of_nat_32) simp
  have t: "sint (word_of_int thr :: 32 word) = thr" using assms(2,3) by (intro sint_small) simp_all
  have n: "hl_failureCount h + 1 = word_of_nat (Suc k)" using assms(1) by (simp add: tracks_def)
  have s: "sint (hl_failureCount h + 1) = int (Suc k)" unfolding n by (rule c)
  have le: "hl_threshold h \<le>s hl_failureCount h + 1 \<longleftrightarrow> thr \<le> int (Suc k)"
    unfolding word_sle_eq s using assms(1) t by (simp add: tracks_def)
  show ?thesis
  proof (cases "thr \<le> int (Suc k)")
    case le': True
    with assms(1) True le s n show ?thesis
      by (simp add: probe_eq tracks_def HealthRecordFailure_def Let_def del: of_nat_Suc)
  next
    case False
    with assms(1) True le s n show ?thesis
      by (auto simp: probe_eq tracks_def HealthRecordFailure_def Let_def simp del: of_nat_Suc)
  qed
qed

lemma local_fails_le: "local_fails es \<le> length es"
proof -
  have "local_fails es \<le> length (probes_of es)"
    unfolding local_fails_def by (metis length_rev length_takeWhile_le)
  also have "\<dots> \<le> length es" by (induction es) (auto simp: probes_of_def split: health_event.splits)
  finally show ?thesis .
qed

lemma tracks_run:
  assumes "tracks thr poll 0 h" "0 < thr" "thr < 2 ^ 31" "length es < 2 ^ 31" "health_run es (h, ticker) = Some (h', t')"
  shows "tracks thr poll (local_fails es) h'"
  using assms(4,5)
proof (induction es arbitrary: h' t' rule: rev_induct)
  case Nil
  with assms(1) show ?case by (simp add: local_fails_snoc)
next
  case (snoc e es)
  from snoc.prems(2) obtain h1 t1 where r: "health_run es (h, ticker) = Some (h1, t1)" and st: "health_step e (h1, t1) = Some (h', t')"
    by (auto simp: run_snoc bind_eq_Some_conv)
  have tr: "tracks thr poll (local_fails es) h1" using snoc.IH [OF _ r] snoc.prems(1) by simp
  show ?case
  proof (cases e)
    case (ProbeEnds tags chat)
    have "local_fails es + 1 < 2 ^ 31" using local_fails_le [of es] snoc.prems(1) by simp
    from tracks_step [OF tr assms(2,3) this, of tags chat] st ProbeEnds show ?thesis
      by (auto simp: local_fails_snoc)
  next
    case (LoopLooks b)
    with tr st show ?thesis by (auto simp: local_fails_snoc)
  qed
qed

lemma tracks_New:
  "tracks (if n \<le> 0 then DefaultBreakerThreshold else n) (if p \<le> 0 then DefaultPollInterval else p) 0 (NewHealth p n t)"
  by (simp add: tracks_def NewHealth_def DefaultBreakerThreshold_def Let_def)

lemma backoff_multiplier_values:
  assumes "0 < k"
  shows "backoff_multiplier (int k) =
    (if k \<le> 2 then 1 else if k \<le> 4 then 2 else if k \<le> 6 then 4 else if k \<le> 8 then 8
     else if k \<le> 126 then 15 else if k \<le> 128 then - (2 ^ 63) else 0)"
proof -
  let ?t = "(k - 1) div 2"
  have t: "(int k - 1) div 2 = int ?t" using assms by (simp add: of_nat_diff zdiv_int)
  have m: "backoff_multiplier (int k) = min 15 (sint (push_bit ?t (1 :: 64 word)))"
    by (simp add: backoff_multiplier_def t maxBackoffMultiplier_def Let_def min_def)
  consider "k \<le> 8" | "9 \<le> k" "k \<le> 126" | "127 \<le> k" "k \<le> 128" | "129 \<le> k" by linarith
  then show ?thesis
  proof cases
    case 1
    with assms have "k \<in> {1, 2, 3, 4, 5, 6, 7, 8}" by auto
    then show ?thesis by (auto simp: m push_bit_eq_mult)
  next
    case 2
    then have r: "4 \<le> ?t" "?t \<le> 62" by auto
    have "push_bit ?t (1 :: 64 word) = word_of_int (2 ^ ?t)" by (simp add: push_bit_eq_mult)
    moreover have "(2::int) ^ ?t < 2 ^ 63" using r by (intro power_strict_increasing) auto
    moreover have "- (2 ^ 63) \<le> (2::int) ^ ?t" by (rule order_trans [of _ 0]) simp_all
    ultimately have v: "sint (push_bit ?t (1 :: 64 word)) = 2 ^ ?t"
      using wrap64_id [of "2 ^ ?t"] by (simp only: wrap64_def)
    have "(2::int) ^ 4 \<le> 2 ^ ?t" using r by (intro power_increasing) auto
    with v m 2 show ?thesis by simp
  next
    case 3
    then have "?t = 63" by auto
    with m 3 show ?thesis by simp
  next
    case 4
    then have "64 \<le> ?t" by auto
    then have "push_bit ?t (1 :: 64 word) = 0"
      by (intro bit_eqI) (simp add: bit_exp_iff)
    then have "backoff_multiplier (int k) = 0" unfolding m by (simp only:) simp
    with 4 show ?thesis by simp
  qed
qed

text \<open>
  The failure that calls for a longer interval has stored it as the current one already, so the loop,
  which replaces its ticker only when the two differ, never does.
\<close>

lemma poller_never_backs_off:
  assumes "n < 2 ^ 31"
  shows "\<exists>h. health_run es (Run (NewHealth p n t)) = Some (h, if p \<le> 0 then DefaultPollInterval else p)"
proof -
  let ?thr = "if n \<le> 0 then DefaultBreakerThreshold else n"
  have t: "sint (hl_threshold (NewHealth p n t)) = ?thr"
    using assms sint_small [of ?thr] by (simp add: NewHealth_def DefaultBreakerThreshold_def Let_def)
  then have pos: "0 < sint (hl_threshold (NewHealth p n t))" by (simp add: DefaultBreakerThreshold_def)
  have "hl_failureCount (NewHealth p n t) = 0" by (simp add: NewHealth_def Let_def)
  with pos have "interval_ok (NewHealth p n t)" by (simp add: interval_ok_def)
  from run_ticker [OF pos this, of es "hl_pollInterval (NewHealth p n t)"]
  obtain h where "health_run es (Run (NewHealth p n t)) = Some (h, hl_pollInterval (NewHealth p n t))"
    by (auto simp: Run_def)
  moreover have "hl_pollInterval (NewHealth p n t) = (if p \<le> 0 then DefaultPollInterval else p)"
    by (simp add: NewHealth_def Let_def)
  ultimately show ?thesis by simp
qed

section \<open>Properties\<close>



end
