(* ===== verification/Egress.thy ===== *)
theory Egress
  imports ClientIP
begin

text \<open>
  \<open>internal/transport\<close>: the address filter of the outbound client (\<open>egressguard.go\<close>) and how the client
  is built with it (\<open>transport.go\<close>). The resolver's answers and the addresses the dialer tries are data,
  the parsers of addresses are the parameters of \<open>ClientIP\<close>, the environment is a parameter. What
  \<open>net/http\<close> does with the two hooks is a step per redirect and per address tried. Pool sizes, timeouts
  and TLS are not modelled.
\<close>

section \<open>Address classes\<close>

text \<open>\<open>IP.To4\<close>: an IPv4 address, or one mapped into IPv6.\<close>

definition To4 :: "ip \<Rightarrow> 32 word option" where
  "To4 a = (case a of V4 x \<Rightarrow> Some x | V6 w \<Rightarrow> if drop_bit 32 w = 0xFFFF then Some (ucast w) else None)"

definition byte4 :: "nat \<Rightarrow> 32 word \<Rightarrow> 32 word" where
  "byte4 i x = and (drop_bit (24 - 8 * i) x) 0xFF"

definition byte16 :: "nat \<Rightarrow> 128 word \<Rightarrow> 128 word" where
  "byte16 i w = and (drop_bit (120 - 8 * i) w) 0xFF"

definition bytes_of :: "ip \<Rightarrow> 128 word" where
  "bytes_of a = (case a of V4 x \<Rightarrow> ucast x | V6 w \<Rightarrow> w)"

definition IsLoopback :: "ip \<Rightarrow> bool" where
  "IsLoopback a = (case To4 a of Some x \<Rightarrow> byte4 0 x = 127 | None \<Rightarrow> bytes_of a = 1)"

definition IsLinkLocalUnicast :: "ip \<Rightarrow> bool" where
  "IsLinkLocalUnicast a =
     (case To4 a of
        Some x \<Rightarrow> byte4 0 x = 169 \<and> byte4 1 x = 254
      | None \<Rightarrow> byte16 0 (bytes_of a) = 0xFE \<and> and (byte16 1 (bytes_of a)) 0xC0 = 0x80)"

definition IsPrivate :: "ip \<Rightarrow> bool" where
  "IsPrivate a =
     (case To4 a of
        Some x \<Rightarrow> byte4 0 x = 10 \<or> (byte4 0 x = 172 \<and> and (byte4 1 x) 0xF0 = 16) \<or> (byte4 0 x = 192 \<and> byte4 1 x = 168)
      | None \<Rightarrow> and (byte16 0 (bytes_of a)) 0xFE = 0xFC)"

definition IsUnspecified :: "ip \<Rightarrow> bool" where
  "IsUnspecified a = (case To4 a of Some x \<Rightarrow> x = 0 | None \<Rightarrow> bytes_of a = 0)"

text \<open>A nil address counts as private.\<close>

definition isPrivateOrLoopback :: "ip option \<Rightarrow> bool" where
  "isPrivateOrLoopback ip =
     (case ip of
        None \<Rightarrow> True
      | Some a \<Rightarrow>
          if IsLoopback a \<or> IsLinkLocalUnicast a \<or> IsPrivate a \<or> IsUnspecified a then True
          else (case To4 a of Some v4 \<Rightarrow> byte4 0 v4 = 0 | None \<Rightarrow> False))"

section \<open>The guard\<close>

record egress_guard =
  eg_enabled :: bool
  eg_allowedNets :: "ipnet list"
  eg_blocked :: "64 word"
  eg_redirects :: "64 word"
  eg_dials :: "64 word"

definition NewEgressGuard :: "netlib \<Rightarrow> bool \<Rightarrow> string list \<Rightarrow> egress_guard" where
  "NewEgressGuard N enabled allowedCIDRs =
     \<lparr>eg_enabled = enabled,
      eg_allowedNets = List.map_filter (\<lambda>cidr. let cidr = TrimSpace cidr in if cidr = [] then None else ParseCIDR N cidr) allowedCIDRs,
      eg_blocked = 0, eg_redirects = 0, eg_dials = 0\<rparr>"

text \<open>\<open>IPNet.Contains\<close> shortens a mapped address first.\<close>

definition unmapped :: "ip \<Rightarrow> ip" where
  "unmapped a = (case To4 a of Some x \<Rightarrow> V4 x | None \<Rightarrow> a)"

definition isIPBlocked :: "egress_guard \<Rightarrow> ip \<Rightarrow> bool" where
  "isIPBlocked g a =
     (if \<not> eg_enabled g then False
      else if list_ex (\<lambda>n. net_Contains n (unmapped a)) (eg_allowedNets g) then False
      else isPrivateOrLoopback (Some a))"

text \<open>\<open>net.LookupIP\<close> answers the addresses of a name or an error.\<close>

definition isHostBlocked :: "netlib \<Rightarrow> (string \<Rightarrow> ip list option) \<Rightarrow> egress_guard \<Rightarrow> string \<Rightarrow> bool" where
  "isHostBlocked N lookup g host =
     (case ParseIP N host of
        Some a \<Rightarrow> isIPBlocked g a
      | None \<Rightarrow>
          (case lookup host of
             None \<Rightarrow> False
           | Some ips \<Rightarrow> if list_ex (\<lambda>a. \<not> isIPBlocked g a) ips then False else 0 < length ips))"

datatype redirect_answer = Follow | TooManyRedirects | RedirectBlocked

definition CheckRedirect :: "netlib \<Rightarrow> (string \<Rightarrow> ip list option) \<Rightarrow> string \<Rightarrow> nat \<Rightarrow> egress_guard \<Rightarrow> egress_guard \<times> redirect_answer" where
  "CheckRedirect N lookup host via g =
     (if \<not> eg_enabled g then (g, Follow)
      else if 10 \<le> via then (g, TooManyRedirects)
      else if host = [] then (g, Follow)
      else if isHostBlocked N lookup g host then
        (g\<lparr>eg_blocked := eg_blocked g + 1, eg_redirects := eg_redirects g + 1\<rparr>, RedirectBlocked)
      else (g, Follow))"

text \<open>True is \<open>ECONNREFUSED\<close>.\<close>

definition DialControl :: "netlib \<Rightarrow> string \<Rightarrow> egress_guard \<Rightarrow> egress_guard \<times> bool" where
  "DialControl N address g =
     (if \<not> eg_enabled g then (g, False)
      else case SplitHost N address of
        None \<Rightarrow> (g, False)
      | Some host \<Rightarrow>
          (case ParseIP N host of
             None \<Rightarrow> (g, False)
           | Some a \<Rightarrow>
               if isIPBlocked g a then (g\<lparr>eg_blocked := eg_blocked g + 1, eg_dials := eg_dials g + 1\<rparr>, True)
               else (g, False)))"

definition urlHostBlocked :: "netlib \<Rightarrow> (string \<Rightarrow> ip list option) \<Rightarrow> (string \<Rightarrow> string option) \<Rightarrow> egress_guard \<Rightarrow> string \<Rightarrow> bool" where
  "urlHostBlocked N lookup hostname g rawURL =
     (if \<not> eg_enabled g then False
      else case hostname rawURL of None \<Rightarrow> False | Some host \<Rightarrow> if host = [] then False else isHostBlocked N lookup g host)"

fun parse_cidr_parts :: "netlib \<Rightarrow> string list \<Rightarrow> string list \<times> string list" where
  "parse_cidr_parts N [] = ([], [])"
| "parse_cidr_parts N (p # ps) =
     (let p = TrimSpace p; (valid, invalid) = parse_cidr_parts N ps in
      if p = [] then (valid, invalid)
      else if ParseCIDR N p = None then (valid, p # invalid)
      else (p # valid, invalid))"

definition parseAllowedCIDRs :: "netlib \<Rightarrow> string \<Rightarrow> string list \<times> string list" where
  "parseAllowedCIDRs N raw = (if TrimSpace raw = [] then ([], []) else parse_cidr_parts N (SplitOn CHR '','' raw))"

section \<open>The client\<close>

definition parseEnvBool :: "(string \<Rightarrow> string option) \<Rightarrow> string \<Rightarrow> bool \<Rightarrow> bool" where
  "parseEnvBool env key d =
     (case env key of
        None \<Rightarrow> d
      | Some v \<Rightarrow>
          if v = [] then d
          else let v = ToLower (TrimSpace v) in
            if v \<in> {''true'', ''1'', ''yes'', ''on''} then True
            else if v \<in> {''false'', ''0'', ''no'', ''off''} then False
            else d)"

definition loadConfigFromEnv :: "netlib \<Rightarrow> (string \<Rightarrow> string option) \<Rightarrow> egress_guard" where
  "loadConfigFromEnv N env =
     (let egressEnabled = parseEnvBool env ''NEXUS_EGRESS_BLOCK_PRIVATE'' True;
          raw = (case env ''NEXUS_EGRESS_ALLOW'' of None \<Rightarrow> [] | Some v \<Rightarrow> v);
          egressAllow = (if raw \<noteq> [] then fst (parseAllowedCIDRs N raw) else [])
      in NewEgressGuard N egressEnabled egressAllow)"

text \<open>
  The hooks are installed when the guard is there and enabled. The dialer tries the addresses of a name one
  by one, each under the hook; a connection is made at the first that is not refused and answers.
\<close>

record http_client =
  hc_control :: bool
  hc_redirect :: bool
  hc_guard :: "egress_guard option"

definition NewClient :: "egress_guard option \<Rightarrow> http_client" where
  "NewClient g =
     (let on = (case g of None \<Rightarrow> False | Some g \<Rightarrow> eg_enabled g)
      in \<lparr>hc_control = on, hc_redirect = on, hc_guard = g\<rparr>)"

definition control_hook :: "netlib \<Rightarrow> string \<Rightarrow> http_client \<Rightarrow> http_client \<times> bool" where
  "control_hook N address c =
     (case hc_guard c of
        Some g \<Rightarrow>
          if hc_control c then (case DialControl N address g of (g, refused) \<Rightarrow> (c\<lparr>hc_guard := Some g\<rparr>, refused))
          else (c, False)
      | None \<Rightarrow> (c, False))"

fun dial :: "netlib \<Rightarrow> (string \<times> bool) list \<Rightarrow> http_client \<Rightarrow> http_client \<times> string option" where
  "dial N [] c = (c, None)"
| "dial N ((address, answers) # rest) c =
     (case control_hook N address c of
        (c, refused) \<Rightarrow> if \<not> refused \<and> answers then (c, Some address) else dial N rest c)"

definition redirect_hook :: "netlib \<Rightarrow> (string \<Rightarrow> ip list option) \<Rightarrow> string \<Rightarrow> nat \<Rightarrow> http_client \<Rightarrow> http_client \<times> redirect_answer" where
  "redirect_hook N lookup host via c =
     (case hc_guard c of
        Some g \<Rightarrow>
          if hc_redirect c then (case CheckRedirect N lookup host via g of (g, r) \<Rightarrow> (c\<lparr>hc_guard := Some g\<rparr>, r))
          else (c, if 10 \<le> via then TooManyRedirects else Follow)
      | None \<Rightarrow> (c, if 10 \<le> via then TooManyRedirects else Follow))"

text \<open>
  A request with the redirects its answers ask for: for each hop the host, what the name resolves to when
  the redirect is checked, and the addresses the dialer gets when it resolves the name again.
\<close>

record hop =
  hp_host :: string
  hp_lookup :: "ip list option"
  hp_dials :: "(string \<times> bool) list"

fun follow :: "netlib \<Rightarrow> nat \<Rightarrow> hop list \<Rightarrow> http_client \<Rightarrow> http_client \<times> string list" where
  "follow N via [] c = (c, [])"
| "follow N via (h # hs) c =
     (case (if via = 0 then (c, Follow) else redirect_hook N (\<lambda>_. hp_lookup h) (hp_host h) via c) of
        (c, Follow) \<Rightarrow>
          (case dial N (hp_dials h) c of
             (c, None) \<Rightarrow> (c, [])
           | (c, Some address) \<Rightarrow> (case follow N (Suc via) hs c of (c, seen) \<Rightarrow> (c, address # seen)))
      | (c, _) \<Rightarrow> (c, []))"

definition client_do :: "netlib \<Rightarrow> hop list \<Rightarrow> http_client \<Rightarrow> http_client \<times> string list" where
  "client_do N hops c = follow N 0 hops c"

section \<open>Address classes as networks\<close>

lemma and_push_bit: "and x (push_bit k m) = push_bit k (and (drop_bit k x) m)" for x :: "'a::len word"
  by (rule bit_eqI) (auto simp: bit_and_iff bit_push_bit_iff bit_drop_bit_eq)

lemma drop_push_and: "drop_bit k (push_bit k (and (drop_bit k x) m)) = and (drop_bit k x) m" for x :: "'a::len word"
  by (rule bit_eqI) (auto simp: bit_and_iff bit_push_bit_iff bit_drop_bit_eq dest: bit_imp_le_length)

lemma byte_field:
  fixes x m c :: "'a::len word"
  assumes "drop_bit k (push_bit k c) = c"
  shows "and (drop_bit k x) m = c \<longleftrightarrow> and x (push_bit k m) = push_bit k c"
  using assms by (metis and_push_bit drop_push_and)

lemma two_fields:
  fixes x :: "'a::len word"
  assumes "and c1 m1 = c1" "and c2 m2 = c2" "and m1 m2 = 0"
  shows "(and x m1 = c1 \<and> and x m2 = c2) \<longleftrightarrow> and x (or m1 m2) = or c1 c2"
proof
  assume "and x m1 = c1 \<and> and x m2 = c2"
  then show "and x (or m1 m2) = or c1 c2" by (simp add: and.assoc bit.conj_disj_distrib)
next
  assume a: "and x (or m1 m2) = or c1 c2"
  have z: "and c2 m1 = 0" "and c1 m2 = 0"
    using assms by (metis and.assoc and.commute and_zero_eq)+
  have "and (and x (or m1 m2)) m1 = and x m1" "and (and x (or m1 m2)) m2 = and x m2"
    by (rule bit_eqI; auto simp: bit_and_iff bit_or_iff)+
  moreover have "and (or c1 c2) m1 = c1" "and (or c1 c2) m2 = c2"
    using assms z by (simp_all add: and.commute [of "or c1 c2"] bit.conj_disj_distrib) (simp_all add: and.commute)
  ultimately show "and x m1 = c1 \<and> and x m2 = c2" using a by simp
qed

text \<open>The ranges the comments name, in CIDR form.\<close>

definition private_nets :: "ipnet list" where
  "private_nets =
     [Net4 0x00000000 0xFF000000, Net4 0x0A000000 0xFF000000, Net4 0x7F000000 0xFF000000, Net4 0xA9FE0000 0xFFFF0000,
      Net4 0xAC100000 0xFFF00000, Net4 0xC0A80000 0xFFFF0000,
      Net6 0 (- 1), Net6 1 (- 1), Net6 (push_bit 118 0x3FA) (push_bit 118 0x3FF), Net6 (push_bit 120 0xFC) (push_bit 120 0xFE)]"

lemma byte4_range:
  fixes c :: "32 word"
  assumes "drop_bit (24 - 8 * i) (push_bit (24 - 8 * i) c) = c"
  shows "byte4 i x = c \<longleftrightarrow> and x (push_bit (24 - 8 * i) 0xFF) = push_bit (24 - 8 * i) c"
  unfolding byte4_def by (rule byte_field [OF assms])

lemma v4_ranges:
  "byte4 0 x = 0 \<longleftrightarrow> and x 0xFF000000 = 0"
  "byte4 0 x = 10 \<longleftrightarrow> and x 0xFF000000 = 0x0A000000"
  "byte4 0 x = 127 \<longleftrightarrow> and x 0xFF000000 = 0x7F000000"
  "byte4 0 x = 169 \<and> byte4 1 x = 254 \<longleftrightarrow> and x 0xFFFF0000 = 0xA9FE0000"
  "byte4 0 x = 192 \<and> byte4 1 x = 168 \<longleftrightarrow> and x 0xFFFF0000 = 0xC0A80000"
  "byte4 0 x = 172 \<and> and (byte4 1 x) 0xF0 = 16 \<longleftrightarrow> and x 0xFFF00000 = 0xAC100000"
proof -
  have f: "and (byte4 1 x) 0xF0 = 16 \<longleftrightarrow> and x 0xF00000 = 0x100000"
    using byte_field [where k = 16 and c = "16 :: 32 word" and x = x and m = "0xF0"] by (simp add: byte4_def and.assoc)
  show "byte4 0 x = 0 \<longleftrightarrow> and x 0xFF000000 = 0" using byte4_range [of 0 0 x] by simp
  show "byte4 0 x = 10 \<longleftrightarrow> and x 0xFF000000 = 0x0A000000" using byte4_range [of 0 10 x] by simp
  show "byte4 0 x = 127 \<longleftrightarrow> and x 0xFF000000 = 0x7F000000" using byte4_range [of 0 127 x] by simp
  show "byte4 0 x = 169 \<and> byte4 1 x = 254 \<longleftrightarrow> and x 0xFFFF0000 = 0xA9FE0000"
    using byte4_range [of 0 169 x] byte4_range [of 1 254 x] two_fields [where ?c1.0 = "0xA9000000" and ?m1.0 = "0xFF000000" and ?c2.0 = "0xFE0000" and ?m2.0 = "0xFF0000" and x = x]
    by simp
  show "byte4 0 x = 192 \<and> byte4 1 x = 168 \<longleftrightarrow> and x 0xFFFF0000 = 0xC0A80000"
    using byte4_range [of 0 192 x] byte4_range [of 1 168 x] two_fields [where ?c1.0 = "0xC0000000" and ?m1.0 = "0xFF000000" and ?c2.0 = "0xA80000" and ?m2.0 = "0xFF0000" and x = x]
    by simp
  show "byte4 0 x = 172 \<and> and (byte4 1 x) 0xF0 = 16 \<longleftrightarrow> and x 0xFFF00000 = 0xAC100000"
    using byte4_range [of 0 172 x] f two_fields [where ?c1.0 = "0xAC000000" and ?m1.0 = "0xFF000000" and ?c2.0 = "0x100000" and ?m2.0 = "0xF00000" and x = x]
    by simp
qed

lemma v6_ranges:
  "and (byte16 0 w) 0xFE = 0xFC \<longleftrightarrow> and w (push_bit 120 0xFE) = push_bit 120 0xFC"
  "byte16 0 w = 0xFE \<and> and (byte16 1 w) 0xC0 = 0x80 \<longleftrightarrow> and w (push_bit 118 0x3FF) = push_bit 118 0x3FA"
proof -
  show "and (byte16 0 w) 0xFE = 0xFC \<longleftrightarrow> and w (push_bit 120 0xFE) = push_bit 120 0xFC"
    using byte_field [where k = 120 and c = "0xFC :: 128 word" and x = w and m = "0xFE"] by (simp add: byte16_def and.assoc)
  have a: "byte16 0 w = 0xFE \<longleftrightarrow> and w (push_bit 120 0xFF) = push_bit 120 0xFE"
    using byte_field [where k = 120 and c = "0xFE :: 128 word" and x = w and m = "0xFF"] by (simp add: byte16_def)
  have b: "and (byte16 1 w) 0xC0 = 0x80 \<longleftrightarrow> and w (push_bit 112 0xC0) = push_bit 112 0x80"
    using byte_field [where k = 112 and c = "0x80 :: 128 word" and x = w and m = "0xC0"] by (simp add: byte16_def and.assoc)
  show "byte16 0 w = 0xFE \<and> and (byte16 1 w) 0xC0 = 0x80 \<longleftrightarrow> and w (push_bit 118 0x3FF) = push_bit 118 0x3FA"
    unfolding a b
    using two_fields [where ?c1.0 = "push_bit 120 0xFE" and ?m1.0 = "push_bit 120 0xFF" and ?c2.0 = "push_bit 112 0x80 :: 128 word" and ?m2.0 = "push_bit 112 0xC0" and x = w]
    by simp
qed

lemma private_v4:
  "isPrivateOrLoopback (Some a) \<longleftrightarrow> list_ex (\<lambda>n. net_Contains n (V4 x)) private_nets" if "To4 a = Some x"
  using that v4_ranges [of x]
  by (auto simp: isPrivateOrLoopback_def IsLoopback_def IsLinkLocalUnicast_def IsPrivate_def IsUnspecified_def private_nets_def
    byte4_def)

lemma private_v6:
  "isPrivateOrLoopback (Some (V6 w)) \<longleftrightarrow> list_ex (\<lambda>n. net_Contains n (V6 w)) private_nets" if "To4 (V6 w) = None"
proof -
  have "and (push_bit 118 0x3FA) (push_bit 118 0x3FF :: 128 word) = push_bit 118 0x3FA"
    "and (push_bit 120 0xFC) (push_bit 120 0xFE :: 128 word) = push_bit 120 0xFC"
    by simp_all
  then show ?thesis
    using that v6_ranges [of w]
    by (auto simp: isPrivateOrLoopback_def IsLoopback_def IsLinkLocalUnicast_def IsPrivate_def IsUnspecified_def private_nets_def
      bytes_of_def)
qed

lemma private_ranges: "isPrivateOrLoopback (Some a) \<longleftrightarrow> list_ex (\<lambda>n. net_Contains n (unmapped a)) private_nets"
proof (cases "To4 a")
  case (Some x)
  then show ?thesis using private_v4 [OF Some] by (simp add: unmapped_def)
next
  case None
  then obtain w where "a = V6 w" by (cases a) (auto simp: To4_def)
  with None private_v6 [of w] show ?thesis by (simp add: unmapped_def)
qed

section \<open>What the client reaches\<close>

text \<open>The verdict on a dialled address depends on what the hooks never change.\<close>

definition address_blocked :: "netlib \<Rightarrow> egress_guard \<Rightarrow> string \<Rightarrow> bool" where
  "address_blocked N g address =
     (case SplitHost N address of
        None \<Rightarrow> False
      | Some host \<Rightarrow> (case ParseIP N host of None \<Rightarrow> False | Some a \<Rightarrow> isIPBlocked g a))"

definition same_rules :: "egress_guard \<Rightarrow> http_client \<Rightarrow> bool" where
  "same_rules g c \<longleftrightarrow> hc_control c = eg_enabled g \<and> hc_redirect c = eg_enabled g
     \<and> (\<exists>g'. hc_guard c = Some g' \<and> eg_enabled g' = eg_enabled g \<and> eg_allowedNets g' = eg_allowedNets g)"

lemma blocked_same:
  "eg_enabled g' = eg_enabled g \<Longrightarrow> eg_allowedNets g' = eg_allowedNets g \<Longrightarrow> isIPBlocked g' a = isIPBlocked g a"
  by (simp add: isIPBlocked_def)

lemma control_hook_same:
  assumes "same_rules g c" "control_hook N address c = (c', refused)"
  shows "same_rules g c' \<and> refused = address_blocked N g address"
proof -
  obtain g' where g': "hc_guard c = Some g'" "eg_enabled g' = eg_enabled g" "eg_allowedNets g' = eg_allowedNets g"
    using assms(1) by (auto simp: same_rules_def)
  then have b: "isIPBlocked g' a = isIPBlocked g a" for a by (rule_tac blocked_same)
  show ?thesis
    using assms g'
    by (auto simp: control_hook_def DialControl_def same_rules_def address_blocked_def b isIPBlocked_def [of g]
      split: if_splits option.splits prod.splits)
qed

lemma dial_same:
  assumes "same_rules g c" "dial N as c = (c', r)"
  shows "same_rules g c' \<and> (case r of None \<Rightarrow> True | Some address \<Rightarrow> (address, True) \<in> set as \<and> \<not> address_blocked N g address)"
  using assms
proof (induction N as c rule: dial.induct)
  case (2 N address answers rest c)
  obtain c1 refused where h: "control_hook N address c = (c1, refused)" by fastforce
  from control_hook_same [OF "2.prems"(1) h] have s: "same_rules g c1" "refused = address_blocked N g address" by auto
  show ?case
  proof (cases "\<not> refused \<and> answers")
    case True
    with h s "2.prems"(2) show ?thesis by auto
  next
    case False
    with h "2.prems"(2) have "dial N rest c1 = (c', r)" by auto
    from "2.IH" [OF h [symmetric] False s(1) this] show ?thesis by (auto split: option.splits)
  qed
qed auto

lemma redirect_hook_same:
  assumes "same_rules g c" "redirect_hook N look host via c = (c', r)"
  shows "same_rules g c' \<and> (10 \<le> via \<longrightarrow> r \<noteq> Follow)"
  using assms
  by (auto simp: redirect_hook_def CheckRedirect_def same_rules_def split: if_splits option.splits prod.splits)

lemma follow_safe:
  assumes "same_rules g c" "follow N via hops c = (c', seen)"
  shows "list_all (\<lambda>address. \<not> address_blocked N g address) seen \<and> length seen \<le> 10 - via"
  using assms
proof (induction N via hops c arbitrary: c' seen rule: follow.induct)
  case (2 N via h hs c)
  obtain c1 r where hook: "(if via = 0 then (c, Follow) else redirect_hook N (\<lambda>_. hp_lookup h) (hp_host h) via c) = (c1, r)"
    by fastforce
  have s1: "same_rules g c1" using redirect_hook_same [OF "2.prems"(1)] hook "2.prems"(1) by (auto split: if_splits)
  show ?case
  proof (cases "r = Follow")
    case False
    with hook "2.prems"(2) show ?thesis by (cases r) auto
  next
    case True
    have v: "via < 10"
      using redirect_hook_same [OF "2.prems"(1)] hook True by (cases "via = 0") (fastforce simp: not_less [symmetric])+
    obtain c2 d where d: "dial N (hp_dials h) c1 = (c2, d)" by fastforce
    from dial_same [OF s1 d] have s2: "same_rules g c2" by simp
    show ?thesis
    proof (cases d)
      case None
      with hook True d "2.prems"(2) show ?thesis by simp
    next
      case (Some address)
      obtain c3 seen' where f: "follow N (Suc via) hs c2 = (c3, seen')" by fastforce
      have seen: "seen = address # seen'" using hook True d Some f "2.prems"(2) by simp
      from "2.IH" [OF hook [symmetric] True d [symmetric] Some s2 f] dial_same [OF s1 d] Some v
      show ?thesis by (simp add: seen) linarith
    qed
  qed
qed simp

lemma NewClient_same: "same_rules g (NewClient (Some g))"
  by (simp add: same_rules_def NewClient_def Let_def)

section \<open>Properties\<close>


definition loopback_address :: "netlib \<Rightarrow> string \<Rightarrow> bool" where
  "loopback_address N address =
     (case SplitHost N address of
        None \<Rightarrow> False
      | Some host \<Rightarrow> (case ParseIP N host of None \<Rightarrow> False | Some a \<Rightarrow> IsLoopback a))"

text \<open>
  C27: A stock deployment cannot reach its own model. With neither variable of the guard set it is on and its
  list of allowed networks is empty, so a request to a name with nothing but loopback addresses ends
  without a connection, whoever listens there.
\<close>

theorem stock_guard_blocks_local_model:
  assumes "env ''NEXUS_EGRESS_BLOCK_PRIVATE'' = None" "env ''NEXUS_EGRESS_ALLOW'' = None"
    "list_all (\<lambda>d. loopback_address N (fst d)) (hp_dials h)"
  shows "snd (client_do N (h # hops) (NewClient (Some (loadConfigFromEnv N env)))) = []"
proof -
  let ?g = "loadConfigFromEnv N env"
  have g: "eg_enabled ?g" "eg_allowedNets ?g = []"
    using assms(1,2) by (simp_all add: loadConfigFromEnv_def parseEnvBool_def NewEgressGuard_def map_filter_def)
  have b: "address_blocked N ?g address" if "loopback_address N address" for address
    using that g by (auto simp: loopback_address_def address_blocked_def isIPBlocked_def isPrivateOrLoopback_def split: option.splits)
  obtain c' r where d: "dial N (hp_dials h) (NewClient (Some ?g)) = (c', r)" by fastforce
  have "r = None"
  proof (rule ccontr)
    assume "r \<noteq> None"
    then obtain address where "(address, True) \<in> set (hp_dials h)" "\<not> address_blocked N ?g address"
      using dial_same [OF NewClient_same d] by auto
    with assms(3) b show False by (force simp: list_all_iff)
  qed
  with d show ?thesis by (simp add: client_do_def)
qed

theorem stock_guard_blocks_local_model_witness:
  "snd (client_do \<lparr>ParseIP = \<lambda>_. Some (V4 0x7F000001), IPString = \<lambda>_. [], ParseCIDR = \<lambda>_. None, SplitHost = Some\<rparr>
     [\<lparr>hp_host = ''localhost'', hp_lookup = None, hp_dials = [(''127.0.0.1'', True)]\<rparr>]
     (NewClient (Some (loadConfigFromEnv
        \<lparr>ParseIP = \<lambda>_. Some (V4 0x7F000001), IPString = \<lambda>_. [], ParseCIDR = \<lambda>_. None, SplitHost = Some\<rparr> (\<lambda>_. None))))) = []"
  by (rule stock_guard_blocks_local_model) (simp_all add: loopback_address_def IsLoopback_def To4_def byte4_def)

end
