(* ===== verification/Adapters.thy ===== *)
theory Adapters
  imports Providers UpStream
begin

text \<open>
  The translations of the provider adapters (\<open>internal/providers/adapter.go\<close>): a chat request into the
  request of another provider, and the event stream of the provider's answer back into the frames of a chat
  completion. Decoding and encoding of JSON are parameters; a normalizer is given the whole answer and how
  it ends, and its output is the writes into its pipe, whose reader takes them all.
\<close>

section \<open>Requests\<close>

record openai_request =
  or_Model :: string
  or_Messages :: "(string \<times> jval) list"
  or_Stream :: bool
  or_MaxTokens :: int
  or_Temperature :: "real option"
  or_MaxCompletionTokens :: int

fun part_text :: "jval \<Rightarrow> string" where
  "part_text (JObj m) = str_field m ''text''"
| "part_text _ = []"

fun stringContent :: "jval \<Rightarrow> string" where
  "stringContent (JStr s) = s"
| "stringContent (JArr parts) = concat (map part_text parts)"
| "stringContent _ = []"

definition EqualFold :: "string \<Rightarrow> string \<Rightarrow> bool" where "EqualFold s t = (ToLower s = ToLower t)"

datatype anthropic_system = NoSystem | SystemText string | SystemBlocks "(string \<times> bool) list"

record anthropic_request =
  aq_Model :: string
  aq_Messages :: "(string \<times> string) list"
  aq_System :: anthropic_system
  aq_Stream :: bool
  aq_MaxTokens :: int
  aq_Temperature :: "real option"

definition AnthropicCacheMinSystemChars :: "string \<Rightarrow> int" where
  "AnthropicCacheMinSystemChars v =
     (if v = [] then 1024
      else if list_all is_digit v then foldl (\<lambda>n c. wrap64 (wrap64 (n * 10) + int (of_char c - 48))) 0 v
      else 1024)"

text \<open>The loop over the messages: the system texts so far, and the messages so far.\<close>

definition hoist_message :: "string list \<times> (string \<times> string) list \<Rightarrow> string \<times> jval \<Rightarrow> string list \<times> (string \<times> string) list" where
  "hoist_message st m =
     (case (st, m) of ((sys, out), (role, content)) \<Rightarrow>
        let txt = stringContent content in
        if EqualFold role ''system'' then (if txt \<noteq> [] then (sys @ [txt], out) else (sys, out))
        else (sys, out @ [(if role = [] then ''user'' else role, txt)]))"

definition system_field :: "int \<Rightarrow> string list \<Rightarrow> anthropic_system" where
  "system_field cacheMin sysParts =
     (if sysParts = [] then NoSystem
      else let systemText = Join [CHR 0x0A, CHR 0x0A] sysParts in
        if 0 < cacheMin \<and> cacheMin \<le> int (length systemText) then
          SystemBlocks (map (\<lambda>i. (sysParts ! i, i = length sysParts - 1)) [0..<length sysParts])
        else SystemText systemText)"

definition anthropicTransform :: "int \<Rightarrow> (string \<Rightarrow> openai_request option) \<Rightarrow> (anthropic_request \<Rightarrow> string) \<Rightarrow> string \<Rightarrow> string option" where
  "anthropicTransform cacheMin decode encode body =
     (case decode body of
        None \<Rightarrow> None
      | Some req \<Rightarrow>
          (let maxTok = (if or_MaxTokens req = 0 then or_MaxCompletionTokens req else or_MaxTokens req);
               (sysParts, messages) = foldl hoist_message ([], []) (or_Messages req)
           in Some (encode \<lparr>aq_Model = or_Model req, aq_Messages = messages, aq_System = system_field cacheMin sysParts,
                aq_Stream = or_Stream req, aq_MaxTokens = maxTok, aq_Temperature = or_Temperature req\<rparr>)))"

record gemini_request =
  gq_Contents :: "(string \<times> string list) list"
  gq_SystemInstruction :: "string list option"
  gq_GenerationConfig :: "(real option \<times> int option) option"

definition gemini_message :: "string list \<times> (string \<times> string list) list \<Rightarrow> string \<times> jval \<Rightarrow> string list \<times> (string \<times> string list) list" where
  "gemini_message st m =
     (case (st, m) of ((sys, out), (role, content)) \<Rightarrow>
        let txt = stringContent content in
        if EqualFold role ''system'' then (if txt \<noteq> [] then (sys @ [txt], out) else (sys, out))
        else (sys, out @ [(if role = [] then ''user'' else role, [txt])]))"

definition geminiTransform :: "(string \<Rightarrow> openai_request option) \<Rightarrow> (gemini_request \<Rightarrow> string) \<Rightarrow> string \<Rightarrow> string option" where
  "geminiTransform decode encode body =
     (case decode body of
        None \<Rightarrow> None
      | Some req \<Rightarrow>
          (let maxTok = (if or_MaxTokens req = 0 then or_MaxCompletionTokens req else or_MaxTokens req);
               config = (if 0 < maxTok \<or> or_Temperature req \<noteq> None
                 then Some (or_Temperature req, if 0 < maxTok then Some maxTok else None) else None);
               (sysParts, contents) = foldl gemini_message ([], []) (or_Messages req)
           in Some (encode \<lparr>gq_Contents = contents, gq_SystemInstruction = (if sysParts = [] then None else Some sysParts),
                gq_GenerationConfig = config\<rparr>)))"

definition TransformRequest ::
  "int \<Rightarrow> (string \<Rightarrow> openai_request option) \<Rightarrow> (anthropic_request \<Rightarrow> string) \<Rightarrow> (gemini_request \<Rightarrow> string) \<Rightarrow> adapter \<Rightarrow> string \<Rightarrow> string option" where
  "TransformRequest cacheMin decode encA encG a body =
     (case a of
        OpenAIAdapter \<Rightarrow> Some body
      | AnthropicAdapter \<Rightarrow> anthropicTransform cacheMin decode encA body
      | AzureAdapter \<Rightarrow> Some body
      | GeminiAdapter \<Rightarrow> geminiTransform decode encG body)"

section \<open>Frames\<close>

text \<open>A normalizer has the id and the time of its frames; \<open>model\<close> is what the events named last.\<close>

record normalizer =
  nz_chunkID :: string
  nz_created :: string
  nz_model :: string

definition chunk :: "(jval \<Rightarrow> string) \<Rightarrow> normalizer \<Rightarrow> jval \<Rightarrow> string" where
  "chunk marshal n choices =
     ''data: '' @ marshal (JObj [(''choices'', choices), (''created'', JNum (nz_created n)), (''id'', JStr (nz_chunkID n)),
        (''model'', JStr (nz_model n)), (''object'', JStr ''chat.completion.chunk'')]) @ [CHR 0x0A, CHR 0x0A]"

definition contentChunk :: "(jval \<Rightarrow> string) \<Rightarrow> normalizer \<Rightarrow> string \<Rightarrow> string" where
  "contentChunk marshal n txt =
     chunk marshal n (JArr [JObj [(''delta'', JObj [(''content'', JStr txt)]), (''finish_reason'', JNull), (''index'', JNum ''0'')]])"

definition finalChunk :: "(jval \<Rightarrow> string) \<Rightarrow> normalizer \<Rightarrow> string \<Rightarrow> string" where
  "finalChunk marshal n reason =
     chunk marshal n (JArr [JObj [(''delta'', JObj []), (''finish_reason'', JStr reason), (''index'', JNum ''0'')]])"

definition done_frame :: string where "done_frame = ''data: [DONE]'' @ [CHR 0x0A, CHR 0x0A]"

definition trim_eol :: "string \<Rightarrow> string" where
  "trim_eol s = rev (dropWhile (\<lambda>c. c \<in> {CHR 0x0D, CHR 0x0A}) (rev s))"

section \<open>Anthropic\<close>

record anthropic_event =
  ae_Type :: string
  ae_Model :: string
  ae_Delta :: "(string \<times> string \<times> string) option"

definition mapAnthropicStopReason :: "string \<Rightarrow> string" where
  "mapAnthropicStopReason reason =
     (if reason = ''end_turn'' \<or> reason = ''stop_sequence'' then ''stop''
      else if reason = ''max_tokens'' then ''length''
      else if reason = ''tool_use'' then ''tool_calls''
      else ''stop'')"

text \<open>The payload of a line that carries one.\<close>

definition anthropic_payload :: "string \<Rightarrow> string option" where
  "anthropic_payload line =
     (let trimmed = trim_eol line in
      if trimmed = [] \<or> HasPrefix trimmed '':'' \<or> HasPrefix trimmed ''event:'' then None
      else if \<not> HasPrefix trimmed ''data:'' then None
      else let payload = TrimSpace (drop 5 trimmed) in
        if payload = [] \<or> payload = ''[DONE]'' then None else Some payload)"

definition anthropicEvent ::
  "(jval \<Rightarrow> string) \<Rightarrow> anthropic_event \<Rightarrow> normalizer \<times> string \<Rightarrow> (normalizer \<times> string) \<times> string option" where
  "anthropicEvent marshal ev st =
     (case st of (n, finish) \<Rightarrow>
        let n = (if ae_Model ev \<noteq> [] then n\<lparr>nz_model := ae_Model ev\<rparr> else n) in
        if ae_Type ev = ''content_block_delta'' then
          (case ae_Delta ev of
             None \<Rightarrow> ((n, finish), None)
           | Some (ty, txt, _) \<Rightarrow>
               if ty = ''text_delta'' \<and> txt \<noteq> [] then ((n, finish), Some (contentChunk marshal n txt))
               else ((n, finish), None))
        else if ae_Type ev = ''message_delta'' then
          (case ae_Delta ev of
             None \<Rightarrow> ((n, finish), None)
           | Some (_, _, stop) \<Rightarrow>
               ((n, if stop \<noteq> [] then mapAnthropicStopReason stop else finish), None))
        else ((n, finish), None))"

definition anthropicLine ::
  "(jval \<Rightarrow> string) \<Rightarrow> (string \<Rightarrow> anthropic_event option) \<Rightarrow> string \<Rightarrow> normalizer \<times> string \<Rightarrow> (normalizer \<times> string) \<times> string option" where
  "anthropicLine marshal decode line st =
     (case Option.bind (anthropic_payload line) decode of None \<Rightarrow> (st, None) | Some ev \<Rightarrow> anthropicEvent marshal ev st)"

text \<open>The loop over the lines, then the end: the source is exhausted, or failed.\<close>

fun convert_lines :: "('a \<Rightarrow> 's \<Rightarrow> 's \<times> string option) \<Rightarrow> 'a list \<Rightarrow> 's \<Rightarrow> 's \<times> string list" where
  "convert_lines translate [] st = (st, [])"
| "convert_lines translate (l # ls) st =
     (case translate l st of (st, frame) \<Rightarrow>
      (case convert_lines translate ls st of (st, out) \<Rightarrow>
        (st, (case frame of None \<Rightarrow> out | Some f \<Rightarrow> f # out))))"

definition anthropicConvert ::
  "(jval \<Rightarrow> string) \<Rightarrow> (string \<Rightarrow> anthropic_event option) \<Rightarrow> normalizer \<Rightarrow> string \<Rightarrow> bool \<Rightarrow> string list" where
  "anthropicConvert marshal decode n body eof =
     (case convert_lines (anthropicLine marshal decode) (stream_units body) (n, ''stop'') of ((n, finish), out) \<Rightarrow>
        out @ (if eof \<and> out \<noteq> [] then [finalChunk marshal n finish, done_frame] else []))"

section \<open>Gemini\<close>

definition mapFinishReason :: "string \<Rightarrow> string" where
  "mapFinishReason fr =
     (if fr = ''STOP'' then ''stop''
      else if fr = ''MAX_TOKENS'' then ''length''
      else if fr = ''SAFETY'' \<or> fr = ''RECITATION'' \<or> fr = ''BLOCKLIST'' then ''content_filter''
      else ''stop'')"

definition gemini_payload :: "string \<Rightarrow> string option" where
  "gemini_payload line =
     (let trimmed = TrimSpace line in
      if \<not> HasPrefix trimmed ''data:'' then None
      else let trimmed = TrimSpace (drop 5 trimmed) in
        if trimmed = [] \<or> trimmed = ''[DONE]'' then None else Some trimmed)"

text \<open>\<open>candidates[0]\<close>, if it is an object, and \<open>content.parts[0].text\<close> in it.\<close>

definition first_candidate :: "jval \<Rightarrow> fields option" where
  "first_candidate v =
     (case v of
        JObj raw \<Rightarrow> (case map_of raw ''candidates'' of Some (JArr (JObj cand # _)) \<Rightarrow> Some cand | _ \<Rightarrow> None)
      | _ \<Rightarrow> None)"

definition candidate_text :: "fields \<Rightarrow> string" where
  "candidate_text cand =
     (case map_of cand ''content'' of
        Some (JObj content) \<Rightarrow>
          (case map_of content ''parts'' of Some (JArr (JObj part # _)) \<Rightarrow> str_field part ''text'' | _ \<Rightarrow> [])
      | _ \<Rightarrow> [])"

definition geminiEvent :: "(jval \<Rightarrow> string) \<Rightarrow> fields \<Rightarrow> normalizer \<times> string \<Rightarrow> (normalizer \<times> string) \<times> string option" where
  "geminiEvent marshal cand st =
     (case st of (n, finish) \<Rightarrow>
        let finish = (case map_of cand ''finishReason'' of Some (JStr fr) \<Rightarrow> mapFinishReason fr | _ \<Rightarrow> finish);
            txt = candidate_text cand
        in if txt \<noteq> [] then ((n, finish), Some (contentChunk marshal n txt)) else ((n, finish), None))"

definition geminiLine ::
  "(jval \<Rightarrow> string) \<Rightarrow> (string \<Rightarrow> jval option) \<Rightarrow> string \<Rightarrow> normalizer \<times> string \<Rightarrow> (normalizer \<times> string) \<times> string option" where
  "geminiLine marshal unm line st =
     (case Option.bind (Option.bind (gemini_payload line) unm) first_candidate of
        None \<Rightarrow> (st, None)
      | Some cand \<Rightarrow> geminiEvent marshal cand st)"

definition geminiConvert ::
  "(jval \<Rightarrow> string) \<Rightarrow> (string \<Rightarrow> jval option) \<Rightarrow> normalizer \<Rightarrow> string \<Rightarrow> bool \<Rightarrow> string list" where
  "geminiConvert marshal unm n body eof =
     (case convert_lines (geminiLine marshal unm) (stream_units body) (n, ''stop'') of ((n, finish), out) \<Rightarrow>
        out @ (if eof \<and> out \<noteq> [] then [finalChunk marshal n finish @ done_frame] else []))"

section \<open>Azure\<close>

definition azure_message :: string where
  "azure_message = ''Response was filtered due to content policy. The model'' @ [CHR 0x27]
     @ ''s output was blocked by Azure content filtering.''"

definition azure_error :: jval where
  "azure_error = JObj
     [(''error'', JObj [(''code'', JStr ''content_filter''), (''message'', JStr azure_message), (''type'', JStr ''content_filter'')]),
      (''object'', JStr ''error'')]"

definition azure_filtered :: "jval \<Rightarrow> bool" where
  "azure_filtered v =
     (case v of
        JObj fs \<Rightarrow>
          (case map_of fs ''choices'' of
             Some (JArr (JObj choice # _)) \<Rightarrow> str_field choice ''finish_reason'' = ''content_filter''
           | _ \<Rightarrow> False)
      | _ \<Rightarrow> False)"

definition rewriteContentFilter :: "(jval \<Rightarrow> string) \<Rightarrow> (string \<Rightarrow> jval option) \<Rightarrow> string \<Rightarrow> string option" where
  "rewriteContentFilter marshal unm line =
     (let trimmed = trim_eol line in
      if \<not> HasPrefix trimmed ''data: '' then None
      else let payload = drop 6 trimmed in
        if payload = ''[DONE]'' \<or> payload = [] then None
        else case unm payload of
          None \<Rightarrow> None
        | Some v \<Rightarrow>
            if \<not> azure_filtered v then None
            else Some (line @ [CHR 0x0A] @ ''data: '' @ marshal azure_error @ [CHR 0x0A, CHR 0x0A] @ done_frame))"

definition azureConvert :: "(jval \<Rightarrow> string) \<Rightarrow> (string \<Rightarrow> jval option) \<Rightarrow> string \<Rightarrow> string list" where
  "azureConvert marshal unm body =
     map (\<lambda>line. case rewriteContentFilter marshal unm line of Some rewritten \<Rightarrow> rewritten | None \<Rightarrow> line) (stream_units body)"

text \<open>The default and the Azure adapter without its switch hand the answer through.\<close>

definition NormalizeSSE ::
  "(jval \<Rightarrow> string) \<Rightarrow> (string \<Rightarrow> anthropic_event option) \<Rightarrow> (string \<Rightarrow> jval option) \<Rightarrow> bool \<Rightarrow> normalizer \<Rightarrow> adapter \<Rightarrow>
     string \<Rightarrow> bool \<Rightarrow> string list" where
  "NormalizeSSE marshal decode unm azureFilter n a body eof =
     (case a of
        OpenAIAdapter \<Rightarrow> [body]
      | AnthropicAdapter \<Rightarrow> anthropicConvert marshal decode (n\<lparr>nz_model := []\<rparr>) body eof
      | AzureAdapter \<Rightarrow> if \<not> azureFilter then [body] else azureConvert marshal unm body
      | GeminiAdapter \<Rightarrow> geminiConvert marshal unm (n\<lparr>nz_model := []\<rparr>) body eof)"

section \<open>Requests keep the conversation\<close>

text \<open>What the loops compute, message by message.\<close>

definition is_system :: "string \<times> jval \<Rightarrow> bool" where "is_system m = EqualFold (fst m) ''system''"

definition system_texts :: "(string \<times> jval) list \<Rightarrow> string list" where
  "system_texts ms = filter (\<lambda>t. t \<noteq> []) (map (stringContent \<circ> snd) (filter is_system ms))"

definition turns :: "(string \<times> jval) list \<Rightarrow> (string \<times> string) list" where
  "turns ms = map (\<lambda>m. (if fst m = [] then ''user'' else fst m, stringContent (snd m))) (filter (\<lambda>m. \<not> is_system m) ms)"

lemma hoist_messages:
  "foldl hoist_message (sys, out) ms = (sys @ system_texts ms, out @ turns ms)"
  by (induction ms arbitrary: sys out) (auto simp: hoist_message_def system_texts_def turns_def is_system_def Let_def)

lemma gemini_messages:
  "foldl gemini_message (sys, out) ms = (sys @ system_texts ms, out @ map (\<lambda>(r, t). (r, [t])) (turns ms))"
  by (induction ms arbitrary: sys out) (auto simp: gemini_message_def system_texts_def turns_def is_system_def Let_def)

lemma turns_no_system: "list_all (\<lambda>t. \<not> EqualFold (fst t) ''system'') (turns ms)"
  by (auto simp: turns_def list_all_iff is_system_def EqualFold_def ToLower_def lower_def)

section \<open>Streams keep the text\<close>

lemma convert_filter:
  "convert_lines (\<lambda>l st. case f l of None \<Rightarrow> (st, None) | Some e \<Rightarrow> g e st) ls st = convert_lines g (List.map_filter f ls) st"
  by (induction ls arbitrary: st) (auto simp: map_filter_simps split: option.splits prod.splits)

lemma convert_snoc:
  "convert_lines t (ls @ [l]) st =
     (case convert_lines t ls st of (st, out) \<Rightarrow>
      (case t l st of (st, frame) \<Rightarrow> (st, out @ (case frame of None \<Rightarrow> [] | Some f \<Rightarrow> [f]))))"
  by (induction ls arbitrary: st) (auto split: prod.splits option.splits)

text \<open>What an event carries: text, or a reason to stop.\<close>

definition delta_text :: "anthropic_event \<Rightarrow> string" where
  "delta_text ev =
     (case ae_Delta ev of
        Some (ty, txt, _) \<Rightarrow> if ae_Type ev = ''content_block_delta'' \<and> ty = ''text_delta'' then txt else []
      | None \<Rightarrow> [])"

definition stop_reason :: "anthropic_event \<Rightarrow> string" where
  "stop_reason ev =
     (case ae_Delta ev of
        Some (_, _, stop) \<Rightarrow> if ae_Type ev = ''message_delta'' then stop else []
      | None \<Rightarrow> [])"

definition last_given :: "string list \<Rightarrow> string" where "last_given xs = last ([] # filter (\<lambda>x. x \<noteq> []) xs)"

lemma last_given_snoc: "last_given (xs @ [x]) = (if x \<noteq> [] then x else last_given xs)"
  by (simp add: last_given_def)

lemma last_given_Nil [simp]: "last_given [] = []"
  by (simp add: last_given_def)

definition model_at :: "normalizer \<Rightarrow> anthropic_event list \<Rightarrow> normalizer" where
  "model_at n evs = n\<lparr>nz_model := last_given (map ae_Model evs)\<rparr>"

definition reason_after :: "anthropic_event list \<Rightarrow> string" where
  "reason_after evs = mapAnthropicStopReason (last_given (map stop_reason evs))"

definition anthropic_frames :: "(jval \<Rightarrow> string) \<Rightarrow> normalizer \<Rightarrow> anthropic_event list \<Rightarrow> string list" where
  "anthropic_frames marshal n evs =
     map (\<lambda>i. contentChunk marshal (model_at n (take (Suc i) evs)) (delta_text (evs ! i)))
       (filter (\<lambda>i. delta_text (evs ! i) \<noteq> []) [0..<length evs])"

lemma anthropic_frames_snoc:
  "anthropic_frames marshal n (evs @ [ev]) = anthropic_frames marshal n evs
     @ (if delta_text ev \<noteq> [] then [contentChunk marshal (model_at n (evs @ [ev])) (delta_text ev)] else [])"
proof -
  have a: "filter (\<lambda>i. delta_text ((evs @ [ev]) ! i) \<noteq> []) [0..<length evs] = filter (\<lambda>i. delta_text (evs ! i) \<noteq> []) [0..<length evs]"
    by (rule filter_cong) (auto simp: nth_append)
  show ?thesis by (simp add: anthropic_frames_def a) (auto simp: nth_append)
qed

lemma mapAnthropicStopReason_empty [simp]: "mapAnthropicStopReason [] = ''stop''"
  by (simp add: mapAnthropicStopReason_def)

lemma anthropic_events:
  "convert_lines (anthropicEvent marshal) evs (n\<lparr>nz_model := []\<rparr>, ''stop'')
     = ((model_at n evs, reason_after evs), anthropic_frames marshal n evs)"
proof (induction evs rule: rev_induct)
  case Nil
  then show ?case by (simp add: model_at_def reason_after_def anthropic_frames_def)
next
  case (snoc ev evs)
  have m: "model_at n (evs @ [ev]) = (if ae_Model ev \<noteq> [] then (model_at n evs)\<lparr>nz_model := ae_Model ev\<rparr> else model_at n evs)"
    by (simp add: model_at_def last_given_snoc)
  have r: "reason_after (evs @ [ev]) = (if stop_reason ev \<noteq> [] then mapAnthropicStopReason (stop_reason ev) else reason_after evs)"
    by (simp add: reason_after_def last_given_snoc)
  show ?case
    by (simp add: convert_snoc snoc anthropic_frames_snoc)
      (auto simp: anthropicEvent_def m r delta_text_def stop_reason_def Let_def split: option.splits)
qed

definition gemini_frames :: "(jval \<Rightarrow> string) \<Rightarrow> normalizer \<Rightarrow> fields list \<Rightarrow> string list" where
  "gemini_frames marshal n cands =
     map (contentChunk marshal (n\<lparr>nz_model := []\<rparr>)) (filter (\<lambda>t. t \<noteq> []) (map candidate_text cands))"

definition finish_reason :: "fields \<Rightarrow> string option" where
  "finish_reason cand = (case map_of cand ''finishReason'' of Some (JStr fr) \<Rightarrow> Some fr | _ \<Rightarrow> None)"

definition gemini_reason :: "fields list \<Rightarrow> string" where
  "gemini_reason cands = mapFinishReason (last ([] # List.map_filter finish_reason cands))"

lemma gemini_events:
  "convert_lines (geminiEvent marshal) cands (n\<lparr>nz_model := []\<rparr>, ''stop'')
     = ((n\<lparr>nz_model := []\<rparr>, gemini_reason cands), gemini_frames marshal n cands)"
proof (induction cands rule: rev_induct)
  case Nil
  then show ?case by (simp add: gemini_reason_def gemini_frames_def mapFinishReason_def map_filter_simps)
next
  case (snoc c cs)
  have app: "List.map_filter finish_reason (cs @ [c]) = List.map_filter finish_reason cs @ (case finish_reason c of None \<Rightarrow> [] | Some r \<Rightarrow> [r])"
    by (simp add: map_filter_def split: option.splits)
  have r: "gemini_reason (cs @ [c]) = (case finish_reason c of None \<Rightarrow> gemini_reason cs | Some r \<Rightarrow> mapFinishReason r)"
    unfolding gemini_reason_def app by (simp split: option.splits)
  show ?case
    by (simp add: convert_snoc snoc)
      (auto simp: geminiEvent_def r gemini_frames_def finish_reason_def Let_def split: option.splits jval.splits)
qed

text \<open>The events of a whole answer, as the adapter reads its lines.\<close>

definition anthropic_answer :: "(string \<Rightarrow> anthropic_event option) \<Rightarrow> string \<Rightarrow> anthropic_event list" where
  "anthropic_answer decode body = List.map_filter (\<lambda>l. Option.bind (anthropic_payload l) decode) (stream_units body)"

definition gemini_answer :: "(string \<Rightarrow> jval option) \<Rightarrow> string \<Rightarrow> fields list" where
  "gemini_answer unm body =
     List.map_filter (\<lambda>l. Option.bind (Option.bind (gemini_payload l) unm) first_candidate) (stream_units body)"

text \<open>What Azure's filter adds after a line.\<close>

definition filter_notice :: "(jval \<Rightarrow> string) \<Rightarrow> (string \<Rightarrow> jval option) \<Rightarrow> string \<Rightarrow> string" where
  "filter_notice marshal unm line =
     (if HasPrefix (trim_eol line) ''data: '' \<and> drop 6 (trim_eol line) \<notin> {[], ''[DONE]''}
        \<and> (case unm (drop 6 (trim_eol line)) of Some v \<Rightarrow> azure_filtered v | None \<Rightarrow> False)
      then [CHR 0x0A] @ ''data: '' @ marshal azure_error @ [CHR 0x0A, CHR 0x0A] @ done_frame else [])"

section \<open>Properties\<close>

text \<open>
  C20: The translated request is the conversation: its messages are the messages that are not the system's,
  in order, each with its role, "user" if it has none, and the text of its content, and none of them is a
  system message in any spelling; the system texts that are not empty are carried beside them, in order,
  as one text, or for Anthropic from the threshold on as blocks of which the last is marked for caching.
  The limit of tokens is \<open>max_tokens\<close>, or \<open>max_completion_tokens\<close> where that is zero; model, stream and
  temperature are kept, where the other format has them. A body that does not decode is an error.
\<close>

theorem transform_request_exact:
  "TransformRequest cacheMin decode encA encG a body =
     (if a = OpenAIAdapter \<or> a = AzureAdapter then Some body
      else map_option (\<lambda>req.
        let maxTok = (if or_MaxTokens req = 0 then or_MaxCompletionTokens req else or_MaxTokens req);
            sys = system_texts (or_Messages req); ts = turns (or_Messages req)
        in if a = AnthropicAdapter then encA
             \<lparr>aq_Model = or_Model req, aq_Messages = ts,
              aq_System = (if sys = [] then NoSystem
                else if 0 < cacheMin \<and> cacheMin \<le> int (length (Join [CHR 0x0A, CHR 0x0A] sys))
                  then SystemBlocks (map (\<lambda>t. (t, False)) (butlast sys) @ [(last sys, True)])
                else SystemText (Join [CHR 0x0A, CHR 0x0A] sys)),
              aq_Stream = or_Stream req, aq_MaxTokens = maxTok, aq_Temperature = or_Temperature req\<rparr>
           else encG
             \<lparr>gq_Contents = map (\<lambda>(r, t). (r, [t])) ts, gq_SystemInstruction = (if sys = [] then None else Some sys),
              gq_GenerationConfig = (if maxTok \<le> 0 \<and> or_Temperature req = None then None
                else Some (or_Temperature req, if 0 < maxTok then Some maxTok else None))\<rparr>) (decode body))
   \<and> list_all (\<lambda>t. \<not> EqualFold (fst t) ''system'') (turns ms)"
proof -
  have blocks: "map (\<lambda>i. (sys ! i, i = length sys - Suc 0)) [0..<length sys] = map (\<lambda>t. (t, False)) (butlast sys) @ [(last sys, True)]"
    if ne: "sys \<noteq> []" for sys :: "string list"
  proof -
    obtain xs x where s: "sys = xs @ [x]" using ne by (meson rev_exhaust)
    have "map (\<lambda>i. ((xs @ [x]) ! i, i = length xs)) [0..<length xs] = map (\<lambda>t. (t, False)) xs"
      by (rule nth_equalityI) (auto simp: nth_append)
    then show ?thesis by (simp add: s nth_append)
  qed
  show ?thesis
    using turns_no_system
    by (cases a; cases "decode body")
      (simp_all add: TransformRequest_def anthropicTransform_def geminiTransform_def hoist_messages gemini_messages
        system_field_def blocks Let_def)
qed

text \<open>
  C19: What the client of a normalized stream reads. OpenAI's is handed through, and so is Azure's, except
  that with the filter switched on an error frame and an end marker follow each line that reports filtered
  content. Of Anthropic's, each event with text gives one frame, in order, with the model named last; of
  Gemini's, each line whose first candidate has text in its first part. When the source has ended without
  an error and there was at least one such frame, a frame with the last reason to stop and the end marker
  follow; without any text, or after an error, nothing follows at all.
\<close>

theorem normalize_sse_exact:
  "NormalizeSSE marshal decode unm azureFilter n a body eof =
     (case a of
        OpenAIAdapter \<Rightarrow> [body]
      | AzureAdapter \<Rightarrow> if azureFilter then map (\<lambda>l. l @ filter_notice marshal unm l) (stream_units body) else [body]
      | AnthropicAdapter \<Rightarrow>
          (let evs = anthropic_answer decode body; frames = anthropic_frames marshal n evs in
           frames @ (if eof \<and> frames \<noteq> [] then [finalChunk marshal (model_at n evs) (reason_after evs), done_frame] else []))
      | GeminiAdapter \<Rightarrow>
          (let cands = gemini_answer unm body; frames = gemini_frames marshal n cands in
           frames @ (if eof \<and> frames \<noteq> []
             then [finalChunk marshal (n\<lparr>nz_model := []\<rparr>) (gemini_reason cands) @ done_frame] else [])))"
proof (cases a)
  case OpenAIAdapter
  then show ?thesis by (simp add: NormalizeSSE_def)
next
  case AzureAdapter
  have "(case rewriteContentFilter marshal unm l of Some r \<Rightarrow> r | None \<Rightarrow> l) = l @ filter_notice marshal unm l" for l
    by (auto simp: rewriteContentFilter_def filter_notice_def Let_def split: option.splits)
  with AzureAdapter show ?thesis by (simp add: NormalizeSSE_def azureConvert_def)
next
  case AnthropicAdapter
  have "anthropicLine marshal decode
      = (\<lambda>l st. case Option.bind (anthropic_payload l) decode of None \<Rightarrow> (st, None) | Some e \<Rightarrow> anthropicEvent marshal e st)"
    by (intro ext) (simp add: anthropicLine_def)
  with AnthropicAdapter show ?thesis
    by (simp add: NormalizeSSE_def anthropicConvert_def convert_filter anthropic_events anthropic_answer_def Let_def)
next
  case GeminiAdapter
  have "geminiLine marshal unm = (\<lambda>l st. case Option.bind (Option.bind (gemini_payload l) unm) first_candidate of
      None \<Rightarrow> (st, None) | Some e \<Rightarrow> geminiEvent marshal e st)"
    by (intro ext) (simp add: geminiLine_def)
  with GeminiAdapter show ?thesis
    by (simp add: NormalizeSSE_def geminiConvert_def convert_filter gemini_events gemini_answer_def Let_def)
qed

end
