(* ===== verification/WorkQueue.thy ===== *)
theory WorkQueue
  imports Prelude
begin

text \<open>
  The contract of the program's background pools: a buffered channel that takes a job or, when it is full,
  refuses it, and workers that take jobs from it in order. \<open>submit\<close> is \<open>None\<close> when it panics.
\<close>

datatype 'x pool_op = Offer 'x | Serve

locale worker_pool =
  fixes submit :: "'s \<Rightarrow> 'x \<Rightarrow> ('s \<times> bool) option"
    and serve :: "'s \<Rightarrow> ('s \<times> 'x) option"
    and waiting :: "'s \<Rightarrow> 'x list"
    and depth :: "'s \<Rightarrow> nat"
    and live :: "'s \<Rightarrow> bool"
  assumes submit_law: "live s \<Longrightarrow> \<exists>s'. submit s x = Some (s', length (waiting s) < depth s) \<and> live s' \<and> depth s' = depth s
      \<and> waiting s' = (if length (waiting s) < depth s then waiting s @ [x] else waiting s)"
    and serve_empty: "live s \<Longrightarrow> waiting s = [] \<Longrightarrow> serve s = None"
    and serve_law: "live s \<Longrightarrow> waiting s = x # q \<Longrightarrow> \<exists>s'. serve s = Some (s', x) \<and> live s' \<and> depth s' = depth s \<and> waiting s' = q"
begin

text \<open>A history with what was accepted, refused and taken on the way.\<close>

fun pool_run :: "'x pool_op list \<Rightarrow> 's \<Rightarrow> ('s \<times> 'x list \<times> 'x list \<times> 'x list) option" where
  "pool_run [] s = Some (s, [], [], [])"
| "pool_run (Offer x # ops) s =
     (case submit s x of
        None \<Rightarrow> None
      | Some (s, ok) \<Rightarrow>
          map_option (\<lambda>(s, acc, ref, taken). (s, (if ok then x # acc else acc), (if ok then ref else x # ref), taken)) (pool_run ops s))"
| "pool_run (Serve # ops) s =
     (case serve s of
        None \<Rightarrow> pool_run ops s
      | Some (s, x) \<Rightarrow> map_option (\<lambda>(s, acc, ref, taken). (s, acc, ref, x # taken)) (pool_run ops s))"

lemma pool_conserves:
  assumes "live s" "length (waiting s) \<le> depth s"
  shows "\<exists>s' acc ref taken. pool_run ops s = Some (s', acc, ref, taken) \<and> live s' \<and> depth s' = depth s
    \<and> length (waiting s') \<le> depth s' \<and> waiting s @ acc = taken @ waiting s'"
  using assms
proof (induction ops arbitrary: s)
  case Nil
  then show ?case by simp
next
  case (Cons op ops)
  show ?case
  proof (cases op)
    case (Offer x)
    obtain s1 where s1: "submit s x = Some (s1, length (waiting s) < depth s)" "live s1" "depth s1 = depth s"
      "waiting s1 = (if length (waiting s) < depth s then waiting s @ [x] else waiting s)"
      using submit_law [OF Cons.prems(1)] by blast
    with Cons.prems have "length (waiting s1) \<le> depth s1" by auto
    from Cons.IH [OF s1(2) this] obtain s' acc ref taken where
      "pool_run ops s1 = Some (s', acc, ref, taken)" "live s'" "depth s' = depth s1" "length (waiting s') \<le> depth s'"
      "waiting s1 @ acc = taken @ waiting s'" by blast
    with s1 Offer show ?thesis by (auto split: if_splits)
  next
    case Serve
    show ?thesis
    proof (cases "waiting s")
      case Nil
      with Serve serve_empty [OF Cons.prems(1)] have "pool_run (op # ops) s = pool_run ops s" by simp
      with Cons.IH [OF Cons.prems] show ?thesis by simp
    next
      case w: (Cons x q)
      from serve_law [OF Cons.prems(1) w] obtain s1 where
        s1: "serve s = Some (s1, x)" "live s1" "depth s1 = depth s" "waiting s1 = q" by blast
      with w Cons.prems have "length (waiting s1) \<le> depth s1" by simp
      from Cons.IH [OF s1(2) this] obtain s' acc ref taken where
        "pool_run ops s1 = Some (s', acc, ref, taken)" "live s'" "depth s' = depth s1" "length (waiting s') \<le> depth s'"
        "waiting s1 @ acc = taken @ waiting s'" by blast
      with s1 w Serve show ?thesis by auto
    qed
  qed
qed

end

end
