(* ===== verification/Quality.thy ===== *)
theory Quality
  imports WorkQueue GoStrings
begin

text \<open>
  \<open>internal/quality\<close>: the detection of file edits in a response (\<open>detect.go\<close>) and the background verifier
  that runs the check command of the project an edited file belongs to (\<open>quality.go\<close>). The two regular
  expressions, the file system and the outcome of the command are parameters. A submission and the turn of
  a worker are one step each.
\<close>

section \<open>Edits in a response\<close>

record edit_event =
  ee_RequestID :: string
  ee_Path :: string
  ee_ToolName :: string
  ee_Args :: string
  ee_TraceParent :: string
  ee_TraceState :: string

definition pathWindowBytes :: nat where "pathWindowBytes = 4 * 1024"

fun unescape :: "string \<Rightarrow> string" where
  "unescape [] = []"
| "unescape [c] = [c]"
| "unescape (c # d # cs) =
     (if c \<noteq> CHR 0x5C then c # unescape (d # cs)
      else if d \<in> {CHR 0x22, CHR 0x5C, CHR ''/''} then d # unescape cs
      else c # unescape (d # cs))"

definition cleanWindow :: "string \<Rightarrow> string" where
  "cleanWindow window = (if \<not> Contains window [CHR 0x5C] then window else unescape window)"

definition strip_prefix :: "string \<Rightarrow> string \<Rightarrow> string" where
  "strip_prefix s p = (if HasPrefix s p then drop (length p) s else s)"

definition strip_suffix :: "string \<Rightarrow> string \<Rightarrow> string" where
  "strip_suffix s p = (if HasSuffix s p then take (length s - length p) s else s)"

definition stripJSONValue :: "string \<Rightarrow> string" where
  "stripJSONValue s =
     (let s = strip_prefix s ([CHR 0x22] @ ''name'' @ [CHR 0x22]);
          s = strip_prefix s '':'';
          s = TrimSpace s;
          s = strip_suffix s [CHR 0x22]
      in strip_prefix s [CHR 0x22])"

text \<open>
  Of the tool-name expression, where it matches and what its first match is; of the path expression, the
  group of its first match.
\<close>

record edit_regexps =
  rx_tools :: "string \<Rightarrow> nat list"
  rx_tool :: "string \<Rightarrow> string option"
  rx_path :: "string \<Rightarrow> string option"

definition extractPath :: "edit_regexps \<Rightarrow> string \<Rightarrow> string" where
  "extractPath R window = (case rx_path R window of Some p \<Rightarrow> p | None \<Rightarrow> [])"

definition extractToolName :: "edit_regexps \<Rightarrow> string \<Rightarrow> string" where
  "extractToolName R window = (case rx_tool R window of Some m \<Rightarrow> stripJSONValue m | None \<Rightarrow> ''edit'')"

definition found_edit :: "string \<Rightarrow> string \<Rightarrow> edit_event" where
  "found_edit path tool = \<lparr>ee_RequestID = [], ee_Path = path, ee_ToolName = tool, ee_Args = [], ee_TraceParent = [], ee_TraceState = []\<rparr>"

fun detect_loop :: "edit_regexps \<Rightarrow> string \<Rightarrow> nat list \<Rightarrow> string set \<Rightarrow> edit_event list" where
  "detect_loop R cleaned [] seen = []"
| "detect_loop R cleaned (start # idxs) seen =
     (let window = take pathWindowBytes (drop start cleaned); path = extractPath R window in
      if path = [] then detect_loop R cleaned idxs seen
      else if path \<in> seen then detect_loop R cleaned idxs seen
      else found_edit path (extractToolName R window) # detect_loop R cleaned idxs (insert path seen))"

definition DetectEdits :: "edit_regexps \<Rightarrow> string \<Rightarrow> edit_event list" where
  "DetectEdits R body =
     (if body = [] then [] else let cleaned = cleanWindow body in detect_loop R cleaned (rx_tools R cleaned) {})"

section \<open>Projects\<close>

datatype kind = KindUnknown | KindRust | KindTS

definition AllKinds :: "kind list" where "AllKinds = [KindRust, KindTS]"

definition Marker :: "kind \<Rightarrow> string" where
  "Marker k = (case k of KindRust \<Rightarrow> ''Cargo.toml'' | KindTS \<Rightarrow> ''tsconfig.json'' | KindUnknown \<Rightarrow> [])"

record project_hint =
  ph_root :: string
  ph_kind :: kind
  ph_mtime :: int

text \<open>
  The file system as one walk sees it: \<open>filepath.Abs\<close>, \<open>filepath.Dir\<close>, and the modification time of a file
  in a directory, \<open>None\<close> if \<open>os.Stat\<close> fails.
\<close>

record file_system =
  os_Abs :: "string \<Rightarrow> string option"
  os_Dir :: "string \<Rightarrow> string"
  os_Stat :: "string \<Rightarrow> string \<Rightarrow> int option"

type_synonym project_cache = "string \<rightharpoonup> project_hint"

definition hasOtherKindAtRoot :: "file_system \<Rightarrow> string \<Rightarrow> kind \<Rightarrow> bool" where
  "hasOtherKindAtRoot F dir skip =
     list_ex (\<lambda>k. k \<noteq> skip \<and> Marker k \<noteq> [] \<and> os_Stat F dir (Marker k) \<noteq> None) AllKinds"

definition hasAnyManifest :: "file_system \<Rightarrow> string \<Rightarrow> bool" where
  "hasAnyManifest F dir = list_ex (\<lambda>k. Marker k \<noteq> [] \<and> os_Stat F dir (Marker k) \<noteq> None) AllKinds"

text \<open>What the cache answers for a directory; an entry that is out of date is deleted.\<close>

definition cached_project :: "file_system \<Rightarrow> project_cache \<Rightarrow> string \<Rightarrow> project_cache \<times> (string \<times> kind) option" where
  "cached_project F c dir =
     (case c dir of
        None \<Rightarrow> (c, None)
      | Some h \<Rightarrow>
          if ph_root h \<noteq> [] \<and> ph_kind h \<noteq> KindUnknown then
            (if Marker (ph_kind h) = [] then (c, Some (ph_root h, ph_kind h))
             else if os_Stat F (ph_root h) (Marker (ph_kind h)) \<noteq> Some (ph_mtime h) then (c(dir := None), None)
             else if hasOtherKindAtRoot F (ph_root h) (ph_kind h) then (c(dir := None), None)
             else (c, Some (ph_root h, ph_kind h)))
          else if hasAnyManifest F dir then (c(dir := None), None)
          else (c, Some (ph_root h, ph_kind h)))"

fun first_manifest :: "file_system \<Rightarrow> string \<Rightarrow> kind list \<Rightarrow> (kind \<times> int) option" where
  "first_manifest F dir [] = None"
| "first_manifest F dir (k # ks) =
     (if Marker k = [] then first_manifest F dir ks
      else case os_Stat F dir (Marker k) of Some t \<Rightarrow> Some (k, t) | None \<Rightarrow> first_manifest F dir ks)"

fun walk_up :: "file_system \<Rightarrow> nat \<Rightarrow> string \<Rightarrow> project_cache \<Rightarrow> project_cache \<times> string \<times> kind" where
  "walk_up F 0 dir c = (c, [], KindUnknown)"
| "walk_up F (Suc n) dir c =
     (case cached_project F c dir of
        (c, Some (r, k)) \<Rightarrow> (c, r, k)
      | (c, None) \<Rightarrow>
          (case first_manifest F dir AllKinds of
             Some (k, t) \<Rightarrow> (c(dir \<mapsto> \<lparr>ph_root = dir, ph_kind = k, ph_mtime = t\<rparr>), dir, k)
           | None \<Rightarrow>
               let parent = os_Dir F dir in
               if parent = dir then (c(dir \<mapsto> \<lparr>ph_root = [], ph_kind = KindUnknown, ph_mtime = 0\<rparr>), [], KindUnknown)
               else walk_up F n parent c))"

definition maxDepth :: nat where "maxDepth = 32"

definition lookupProject :: "file_system \<Rightarrow> string \<Rightarrow> project_cache \<Rightarrow> project_cache \<times> string \<times> kind" where
  "lookupProject F filePath c =
     (if filePath = [] then (c, [], KindUnknown)
      else let dir = (case os_Abs F filePath of None \<Rightarrow> filePath | Some a \<Rightarrow> os_Dir F a) in walk_up F maxDepth dir c)"

section \<open>The verifier\<close>

record quality_config =
  qc_Concurrency :: int
  qc_QueueDepth :: int
  qc_StderrCap :: int
  qc_DroppedRingSize :: int

definition quality_defaults :: "quality_config \<Rightarrow> quality_config" where
  "quality_defaults c =
     \<lparr>qc_Concurrency = qc_Concurrency c,
      qc_QueueDepth = (if qc_QueueDepth c \<le> 0 then 64 else qc_QueueDepth c),
      qc_StderrCap = (if qc_StderrCap c \<le> 0 then 2 * 1024 else qc_StderrCap c),
      qc_DroppedRingSize = (if qc_DroppedRingSize c \<le> 0 then 256 else qc_DroppedRingSize c)\<rparr>"

record dropped_ring =
  dr_events :: "edit_event list"
  dr_idx :: nat

definition droppedEventArgsCap :: nat where "droppedEventArgsCap = 200"

definition no_edit :: edit_event where "no_edit = found_edit [] []"

definition newDroppedRing :: "nat \<Rightarrow> dropped_ring" where
  "newDroppedRing n = \<lparr>dr_events = replicate n no_edit, dr_idx = 0\<rparr>"

definition capped_args :: "edit_event \<Rightarrow> edit_event" where
  "capped_args e = (if droppedEventArgsCap < length (ee_Args e) then e\<lparr>ee_Args := take droppedEventArgsCap (ee_Args e)\<rparr> else e)"

definition ring_Push :: "edit_event \<Rightarrow> dropped_ring \<Rightarrow> dropped_ring" where
  "ring_Push e r =
     r\<lparr>dr_idx := dr_idx r + 1, dr_events := (dr_events r)[dr_idx r mod length (dr_events r) := capped_args e]\<rparr>"

definition ring_Events :: "dropped_ring \<Rightarrow> edit_event list" where
  "ring_Events r =
     (let count = dr_idx r; n = length (dr_events r) in
      if count = 0 then []
      else let size' = (if n < count then n else count); start = count - size' in
        map (\<lambda>i. dr_events r ! ((start + i) mod n)) [0..<size'])"

text \<open>
  \<open>vf_closed\<close> is the channel a dormant verifier is made with closed; \<open>vf_shut\<close> says that \<open>Close\<close> has closed
  the queue.
\<close>

record verifier =
  vf_cfg :: quality_config
  vf_queue :: "edit_event list"
  vf_closed :: bool
  vf_shut :: bool
  vf_dropped :: "64 word"
  vf_ring :: dropped_ring

definition NewShellVerifier :: "quality_config \<Rightarrow> verifier" where
  "NewShellVerifier cfg =
     (let cfg = quality_defaults cfg in
      \<lparr>vf_cfg = cfg, vf_queue = [], vf_closed = (qc_Concurrency cfg \<le> 0), vf_shut = False, vf_dropped = 0,
       vf_ring = newDroppedRing (nat (qc_DroppedRingSize cfg))\<rparr>)"

definition QualityEnabled :: "verifier option \<Rightarrow> bool" where
  "QualityEnabled v = (case v of None \<Rightarrow> False | Some v \<Rightarrow> 0 < qc_Concurrency (vf_cfg v))"

text \<open>Sending on a closed channel panics: \<open>None\<close>.\<close>

definition QualitySubmit :: "verifier \<Rightarrow> edit_event \<Rightarrow> (verifier \<times> bool) option" where
  "QualitySubmit v e =
     (if \<not> QualityEnabled (Some v) then Some (v, False)
      else if vf_closed v then Some (v, False)
      else if vf_shut v then None
      else if length (vf_queue v) < nat (qc_QueueDepth (vf_cfg v)) then Some (v\<lparr>vf_queue := vf_queue v @ [e]\<rparr>, True)
      else Some (v\<lparr>vf_dropped := vf_dropped v + 1, vf_ring := ring_Push e (vf_ring v)\<rparr>, False))"

definition quality_serve :: "verifier \<Rightarrow> (verifier \<times> edit_event) option" where
  "quality_serve v =
     (case vf_queue v of
        [] \<Rightarrow> None
      | e # q \<Rightarrow> if QualityEnabled (Some v) then Some (v\<lparr>vf_queue := q\<rparr>, e) else None)"

text \<open>\<open>Close\<close> returns when the workers have taken what is left.\<close>

definition QualityClose :: "verifier \<Rightarrow> verifier \<times> edit_event list" where
  "QualityClose v = (v\<lparr>vf_shut := True, vf_queue := []\<rparr>, vf_queue v)"

section \<open>One check\<close>

text \<open>How the command ends: at once, with an exit code, or not as a process; the context may have ended.\<close>

datatype command_end = Succeeded string | ExitError int string string | RunFailed bool string

definition runCheck :: "(string \<Rightarrow> kind \<Rightarrow> command_end) \<Rightarrow> bool \<Rightarrow> string \<Rightarrow> kind \<Rightarrow> int \<times> string \<times> bool" where
  "runCheck exec override repoRoot k =
     (if \<not> override \<and> k = KindUnknown then (- 1, [], True)
      else case exec repoRoot k of
        Succeeded stderr \<Rightarrow> (0, stderr, False)
      | ExitError code stdout stderr \<Rightarrow> (code, if stderr = [] then stdout else stderr, False)
      | RunFailed ctx stderr \<Rightarrow> (- 1, if ctx then [] else stderr, True))"

definition capStderr :: "string \<Rightarrow> int \<Rightarrow> string" where
  "capStderr src cap =
     (if cap \<le> 0 \<or> src = [] then []
      else if int (length src) \<le> cap then src
      else let elided = length src - nat cap in
        ''[... '' @ decimal elided @ '' bytes elided ...]'' @ [CHR 0x0A] @ drop elided src)"

record quality_verdict =
  vd_Event :: edit_event
  vd_Pass :: bool
  vd_ExitCode :: int
  vd_Stderr :: string
  vd_RepoRoot :: string
  vd_Kind :: kind
  vd_Err :: bool

definition Verify ::
  "file_system \<Rightarrow> (string \<Rightarrow> kind \<Rightarrow> command_end) \<Rightarrow> bool \<Rightarrow> quality_config \<Rightarrow> edit_event \<Rightarrow> project_cache \<Rightarrow> project_cache \<times> quality_verdict" where
  "Verify F exec override cfg e c =
     (case lookupProject F (ee_Path e) c of
        (c, repo, k) \<Rightarrow>
          let vv = \<lparr>vd_Event = e, vd_Pass = False, vd_ExitCode = 0, vd_Stderr = [], vd_RepoRoot = repo, vd_Kind = k, vd_Err = False\<rparr>
          in if repo = [] then (c, vv)
             else case runCheck exec override repo k of
               (exitCode, stderr, err) \<Rightarrow>
                 (c, let vv = vv\<lparr>vd_ExitCode := exitCode, vd_Stderr := capStderr stderr (qc_StderrCap cfg)\<rparr>
                     in if err then vv\<lparr>vd_Err := True\<rparr> else vv\<lparr>vd_Pass := (exitCode = 0)\<rparr>))"

section \<open>The queue and the ring\<close>

definition quality_live :: "verifier \<Rightarrow> bool" where
  "quality_live v \<longleftrightarrow> 0 < qc_Concurrency (vf_cfg v) \<and> \<not> vf_closed v \<and> \<not> vf_shut v"

definition quality_depth :: "verifier \<Rightarrow> nat" where
  "quality_depth v = nat (qc_QueueDepth (vf_cfg v))"

interpretation qv: worker_pool QualitySubmit quality_serve vf_queue quality_depth quality_live
  by unfold_locales
    (auto simp: QualitySubmit_def quality_serve_def quality_depth_def quality_live_def QualityEnabled_def)

lemma Submit_ring:
  "QualitySubmit v e = Some (v', ok) \<Longrightarrow> quality_live v \<Longrightarrow>
     vf_ring v' = (if ok then vf_ring v else ring_Push e (vf_ring v)) \<and> vf_dropped v' = (if ok then vf_dropped v else vf_dropped v + 1)
     \<and> quality_live v'"
  by (auto simp: QualitySubmit_def QualityEnabled_def quality_live_def split: if_splits)

lemma serve_ring:
  "quality_serve v = Some (v', e) \<Longrightarrow> quality_live v \<Longrightarrow>
     vf_ring v' = vf_ring v \<and> vf_dropped v' = vf_dropped v \<and> quality_live v'"
  by (auto simp: quality_serve_def quality_live_def split: list.splits if_splits)

lemma run_ring:
  assumes "qv.pool_run ops v = Some (v', acc, ref, taken)" "quality_live v"
  shows "vf_ring v' = foldl (\<lambda>r e. ring_Push e r) (vf_ring v) ref \<and> vf_dropped v' = vf_dropped v + of_nat (length ref)"
  using assms
proof (induction ops v arbitrary: v' acc ref taken rule: qv.pool_run.induct)
  case (2 e ops v)
  obtain v1 ok where s: "QualitySubmit v e = Some (v1, ok)" using "2.prems"(1) by (auto split: option.splits)
  from "2.prems"(1) s obtain acc1 ref1 where r: "qv.pool_run ops v1 = Some (v', acc1, ref1, taken)"
    and ref: "ref = (if ok then ref1 else e # ref1)" by auto
  from Submit_ring [OF s "2.prems"(2)] "2.IH" [OF s refl r] ref show ?case by auto
next
  case (3 ops v)
  show ?case
  proof (cases "quality_serve v")
    case None
    with 3 show ?thesis by auto
  next
    case (Some p)
    obtain v1 e where p: "p = (v1, e)" by fastforce
    with "3.prems"(1) Some obtain taken1 where r: "qv.pool_run ops v1 = Some (v', acc, ref, taken1)" by auto
    from serve_ring [OF Some [unfolded p] "3.prems"(2)] "3.IH"(2) [OF Some p [symmetric] r] show ?thesis by simp
  qed
qed simp

lemma push_all:
  assumes "0 < n"
  shows "dr_idx (foldl (\<lambda>r e. ring_Push e r) (newDroppedRing n) es) = length es
    \<and> length (dr_events (foldl (\<lambda>r e. ring_Push e r) (newDroppedRing n) es)) = n
    \<and> (\<forall>i. i < length es \<and> length es \<le> i + n \<longrightarrow>
          dr_events (foldl (\<lambda>r e. ring_Push e r) (newDroppedRing n) es) ! (i mod n) = capped_args (es ! i))"
proof (induction es rule: rev_induct)
  case Nil
  then show ?case by (simp add: newDroppedRing_def)
next
  case (snoc e es)
  let ?r = "foldl (\<lambda>r e. ring_Push e r) (newDroppedRing n) es"
  have ne: "i mod n \<noteq> length es mod n" if "i < length es" "length es + 1 \<le> i + n" for i
  proof
    assume "i mod n = length es mod n"
    then have "n dvd length es - i" using that(1) by (metis mod_eq_dvd_iff_nat less_imp_le_nat)
    moreover have "0 < length es - i" "length es - i < n" using that by auto
    ultimately show False using nat_dvd_not_less by blast
  qed
  obtain R where R: "?r = R" by simp
  have f: "foldl (\<lambda>r e. ring_Push e r) (newDroppedRing n) (es @ [e]) = ring_Push e R" by (simp add: R)
  have l: "length es mod n < n" using assms(1) by simp
  have h: "dr_idx R = length es" "length (dr_events R) = n"
    "i < length es \<Longrightarrow> length es \<le> i + n \<Longrightarrow> dr_events R ! (i mod n) = capped_args (es ! i)" for i
    using snoc unfolding R by auto
  have "dr_events (ring_Push e R) ! (i mod n) = capped_args ((es @ [e]) ! i)" if "i < length es + 1" "length es + 1 \<le> i + n" for i
  proof (cases "i = length es")
    case True
    with h l show ?thesis by (simp add: ring_Push_def)
  next
    case False
    with that have "i < length es" by simp
    with that ne [of i] h show ?thesis by (simp add: ring_Push_def nth_append)
  qed
  then show ?case unfolding f using h by (simp add: ring_Push_def)
qed

lemma ring_recent:
  assumes "0 < n"
  shows "ring_Events (foldl (\<lambda>r e. ring_Push e r) (newDroppedRing n) es) = map capped_args (drop (length es - n) es)"
proof -
  let ?r = "foldl (\<lambda>r e. ring_Push e r) (newDroppedRing n) es"
  from push_all [OF assms, of es] have p: "dr_idx ?r = length es" "length (dr_events ?r) = n"
    "i < length es \<Longrightarrow> length es \<le> i + n \<Longrightarrow> dr_events ?r ! (i mod n) = capped_args (es ! i)" for i by auto
  show ?thesis
  proof (rule nth_equalityI)
    show "length (ring_Events ?r) = length (map capped_args (drop (length es - n) es))"
      by (simp add: ring_Events_def p Let_def)
  next
    fix i assume "i < length (ring_Events ?r)"
    then have i: "i < min n (length es)" "es \<noteq> []" by (auto simp: ring_Events_def p Let_def split: if_splits)
    have "ring_Events ?r ! i = dr_events ?r ! ((length es - min n (length es) + i) mod n)"
      using i by (auto simp: ring_Events_def p Let_def min_def split: if_splits)
    also have "\<dots> = capped_args (es ! (length es - min n (length es) + i))"
      by (rule p(3)) (use i in auto)
    also have "length es - min n (length es) = length es - n" by simp
    finally show "ring_Events ?r ! i = map capped_args (drop (length es - n) es) ! i"
      using i by auto
  qed
qed

section \<open>The cache of projects\<close>

fun nearest_project :: "file_system \<Rightarrow> nat \<Rightarrow> string \<Rightarrow> string \<times> kind" where
  "nearest_project F 0 dir = ([], KindUnknown)"
| "nearest_project F (Suc n) dir =
     (case first_manifest F dir AllKinds of
        Some (k, _) \<Rightarrow> (dir, k)
      | None \<Rightarrow> if os_Dir F dir = dir then ([], KindUnknown) else nearest_project F n (os_Dir F dir))"

definition project_of :: "file_system \<Rightarrow> string \<Rightarrow> string \<times> kind" where
  "project_of F p =
     (if p = [] then ([], KindUnknown)
      else nearest_project F maxDepth (case os_Abs F p of None \<Rightarrow> p | Some a \<Rightarrow> os_Dir F a))"

definition cache_coherent :: "file_system \<Rightarrow> project_cache \<Rightarrow> bool" where
  "cache_coherent F c \<longleftrightarrow>
     (\<forall>dir h. c dir = Some h \<longrightarrow>
        (dir \<noteq> [] \<and> ph_root h = dir \<and> ph_kind h \<in> {KindRust, KindTS})
        \<or> (ph_root h = [] \<and> ph_kind h = KindUnknown \<and> os_Dir F dir = dir))"

lemma cached_project_right:
  assumes "cache_coherent F c" "cached_project F c dir = (c', r)"
  shows "cache_coherent F c' \<and> (case r of None \<Rightarrow> True | Some p \<Rightarrow> nearest_project F (Suc n) dir = p)"
proof (cases "c dir")
  case None
  with assms show ?thesis by (auto simp: cached_project_def)
next
  case (Some h)
  have del: "cache_coherent F (c(dir := None))" using assms(1) by (auto simp: cache_coherent_def)
  from assms(1) Some consider
      "ph_root h = dir" "dir \<noteq> []" "ph_kind h \<in> {KindRust, KindTS}"
    | "ph_root h = []" "ph_kind h = KindUnknown" "os_Dir F dir = dir"
    by (auto simp: cache_coherent_def)
  then show ?thesis
  proof cases
    case 1
    then show ?thesis using assms Some del
      by (auto simp: cached_project_def hasOtherKindAtRoot_def AllKinds_def Marker_def split: if_splits option.splits)
  next
    case 2
    then show ?thesis using assms Some del
      by (auto simp: cached_project_def hasAnyManifest_def AllKinds_def Marker_def split: if_splits option.splits)
  qed
qed

lemma walk_right:
  assumes "cache_coherent F c" "\<And>d. os_Dir F d \<noteq> []" "dir \<noteq> []"
  shows "cache_coherent F (fst (walk_up F n dir c)) \<and> snd (walk_up F n dir c) = nearest_project F n dir"
  using assms(1,3)
proof (induction n arbitrary: dir c)
  case 0
  then show ?case by simp
next
  case (Suc n)
  obtain c1 r where h: "cached_project F c dir = (c1, r)" by fastforce
  note cr = cached_project_right [OF Suc.prems(1) h, of n]
  show ?case
  proof (cases r)
    case (Some p)
    with h cr show ?thesis by (cases p) auto
  next
    case None
    with cr have c1: "cache_coherent F c1" by simp
    show ?thesis
    proof (cases "first_manifest F dir AllKinds")
      case None
      have up: "os_Dir F dir = dir \<Longrightarrow> cache_coherent F (c1(dir \<mapsto> \<lparr>ph_root = [], ph_kind = KindUnknown, ph_mtime = 0\<rparr>))"
        using c1 by (auto simp: cache_coherent_def)
      show ?thesis
      proof (cases "os_Dir F dir = dir")
        case True
        with h \<open>r = None\<close> None up show ?thesis by (simp add: Let_def del: fun_upd_apply)
      next
        case False
        with h \<open>r = None\<close> None Suc.IH [OF c1 assms(2), of dir] show ?thesis by (simp add: Let_def)
      qed
    next
      case (Some kt)
      obtain k t where kt: "kt = (k, t)" by fastforce
      have "k \<in> {KindRust, KindTS}" using Some kt by (auto simp: AllKinds_def Marker_def split: option.splits)
      then have "cache_coherent F (c1(dir \<mapsto> \<lparr>ph_root = dir, ph_kind = k, ph_mtime = t\<rparr>))"
        using c1 Suc.prems(2) by (auto simp: cache_coherent_def)
      with h \<open>r = None\<close> Some kt show ?thesis by (simp del: fun_upd_apply)
    qed
  qed
qed

lemma lookup_right:
  assumes "cache_coherent F c" "\<And>d. os_Dir F d \<noteq> []"
  shows "cache_coherent F (fst (lookupProject F p c)) \<and> snd (lookupProject F p c) = project_of F p"
  using assms walk_right [OF assms] by (auto simp: lookupProject_def project_of_def Let_def split: option.splits)

text \<open>Lookups one after another, while files come, change and go.\<close>

fun lookups :: "file_system \<Rightarrow> ((string \<Rightarrow> string \<Rightarrow> int option) \<times> string) list \<Rightarrow> project_cache \<Rightarrow> (string \<times> kind) list" where
  "lookups F [] c = []"
| "lookups F ((stat, p) # qs) c =
     (case lookupProject (F\<lparr>os_Stat := stat\<rparr>) p c of (c, r) \<Rightarrow> r # lookups F qs c)"

section \<open>Edits\<close>

text \<open>What a JSON encoder makes of the three characters.\<close>

fun escape :: "string \<Rightarrow> string" where
  "escape [] = []"
| "escape (c # cs) = (if c = CHR 0x22 \<or> c = CHR 0x5C then CHR 0x5C # c # escape cs else c # escape cs)"

lemma unescape_plain: "c \<noteq> CHR 0x5C \<Longrightarrow> unescape (c # cs) = c # unescape cs"
  by (cases cs) simp_all

lemma unescape_pair: "d \<in> {CHR 0x22, CHR 0x5C, CHR ''/''} \<Longrightarrow> unescape (CHR 0x5C # d # cs) = d # unescape cs"
  by simp

lemma unescape_escape: "unescape (escape s) = s"
proof (induction s)
  case (Cons c s)
  show ?case
  proof (cases "c = CHR 0x22 \<or> c = CHR 0x5C")
    case True
    then have "unescape (CHR 0x5C # c # escape s) = c # unescape (escape s)" by (intro unescape_pair) auto
    with True Cons show ?thesis by (simp only: escape.simps if_True)
  next
    case False
    with Cons unescape_plain [of c "escape s"] show ?thesis by (simp only: escape.simps if_False) simp
  qed
qed simp

lemma escape_id: "CHR 0x5C \<notin> set (escape s) \<Longrightarrow> escape s = s"
  by (induction s) (auto split: if_splits)

lemma cleanWindow_escape: "cleanWindow (escape s) = s"
proof (cases "Contains (escape s) [CHR 0x5C]")
  case True
  then show ?thesis by (simp add: cleanWindow_def unescape_escape)
next
  case False
  then have "CHR 0x5C \<notin> set (escape s)" by (metis Contains_iff append_Cons append_Nil split_list)
  from escape_id [OF this] False show ?thesis by (simp only: cleanWindow_def) simp
qed

lemma detect_distinct:
  "distinct (map ee_Path (detect_loop R cleaned idxs seen)) \<and> set (map ee_Path (detect_loop R cleaned idxs seen)) \<inter> (seen \<union> {[]}) = {}"
proof (induction R cleaned idxs seen rule: detect_loop.induct)
  case (2 R cleaned start idxs seen)
  then show ?case by (auto simp: Let_def found_edit_def)
qed simp

lemma capStderr_tail:
  "0 < cap \<Longrightarrow> \<exists>h. capStderr src cap = h @ drop (length src - nat cap) src \<and> (h \<noteq> [] \<longrightarrow> nat cap < length src)"
  by (auto simp: capStderr_def Let_def)

section \<open>Properties\<close>

text \<open>
  C29: The cache of projects is transparent. Over any sequence of lookups, while manifests appear, change and
  disappear between them, each lookup answers what a walk without a cache would find at that moment: the
  first of at most 32 directories upwards that holds a manifest, Cargo.toml before tsconfig.json.
\<close>

theorem project_lookup_exact:
  assumes "\<And>d. os_Dir F d \<noteq> []"
  shows "lookups F qs Map.empty = map (\<lambda>(stat, p). project_of (F\<lparr>os_Stat := stat\<rparr>) p) qs"
proof -
  have "cache_coherent F c \<Longrightarrow> lookups F qs c = map (\<lambda>(stat, p). project_of (F\<lparr>os_Stat := stat\<rparr>) p) qs" for c
  proof (induction qs arbitrary: c)
    case (Cons q qs)
    obtain stat p where q: "q = (stat, p)" by fastforce
    let ?F = "F\<lparr>os_Stat := stat\<rparr>"
    have "cache_coherent ?F c" using Cons.prems by (simp add: cache_coherent_def)
    from lookup_right [OF this, of p] assms
    have r: "cache_coherent ?F (fst (lookupProject ?F p c))" "snd (lookupProject ?F p c) = project_of ?F p" by simp_all
    then have "cache_coherent F (fst (lookupProject ?F p c))" by (simp add: cache_coherent_def)
    from Cons.IH [OF this] r(2) show ?case by (cases "lookupProject ?F p c") (simp add: q)
  qed simp
  then show ?thesis by (simp add: cache_coherent_def)
qed

theorem project_lookup_exact_witness:
  "lookups \<lparr>os_Abs = Some, os_Dir = \<lambda>_. ''/'', os_Stat = \<lambda>_ _. None\<rparr>
     [(\<lambda>_ _. None, ''/a.rs''), (\<lambda>d m. if m = ''Cargo.toml'' then Some 7 else None, ''/a.rs''), (\<lambda>_ _. None, ''/a.rs'')] Map.empty
   = [([], KindUnknown), (''/'', KindRust), ([], KindUnknown)]"
  by (subst project_lookup_exact)
    (simp_all add: project_of_def maxDepth_def AllKinds_def Marker_def numeral_eq_Suc)

text \<open>
  C28: The verifier's queue. For a verifier with workers, whatever is submitted and taken: nothing panics,
  what the workers got, followed by what waits, is what was accepted, in order, never more waits than the
  depth of the queue, what was refused is counted, and the newest refused edits, as many as the ring
  holds, are listed, oldest first, with their arguments cut at 200 bytes. But once the verifier is
  closed, a submission panics.
\<close>

theorem quality_queue_exact:
  assumes "0 < qc_Concurrency cfg" "v = NewShellVerifier cfg" "n = nat (qc_DroppedRingSize (vf_cfg v))"
  shows "\<exists>v' acc ref taken. qv.pool_run ops v = Some (v', acc, ref, taken) \<and> acc = taken @ vf_queue v'
    \<and> length (vf_queue v') \<le> quality_depth v \<and> vf_dropped v' = of_nat (length ref)
    \<and> ring_Events (vf_ring v') = map capped_args (drop (length ref - n) ref)
    \<and> QualitySubmit (fst (QualityClose v')) e = None"
proof -
  have live: "quality_live v" "length (vf_queue v) \<le> quality_depth v" "vf_queue v = []" "vf_dropped v = 0"
    "vf_ring v = newDroppedRing n" "0 < n"
    using assms by (auto simp: quality_live_def NewShellVerifier_def quality_defaults_def Let_def)
  from qv.pool_conserves [OF live(1,2), of ops] live(3) obtain v' acc ref taken where
    r: "qv.pool_run ops v = Some (v', acc, ref, taken)" "quality_live v'" "quality_depth v' = quality_depth v"
    "length (vf_queue v') \<le> quality_depth v'" "acc = taken @ vf_queue v'" by auto
  from run_ring [OF r(1) live(1)] live ring_recent [OF live(6), of ref]
  have "vf_dropped v' = of_nat (length ref)" "ring_Events (vf_ring v') = map capped_args (drop (length ref - n) ref)" by simp_all
  moreover have "QualitySubmit (fst (QualityClose v')) e = None"
    using r(2) by (simp add: QualitySubmit_def QualityClose_def QualityEnabled_def quality_live_def)
  ultimately show ?thesis using r by auto
qed

definition quality_example :: quality_config where
  "quality_example = \<lparr>qc_Concurrency = 1, qc_QueueDepth = 1, qc_StderrCap = 0, qc_DroppedRingSize = 2\<rparr>"

theorem quality_queue_exact_witness:
  "\<exists>v' acc ref taken. qv.pool_run [Offer no_edit, Offer no_edit, Serve] (NewShellVerifier quality_example) = Some (v', acc, ref, taken)
    \<and> acc = taken @ vf_queue v' \<and> length (vf_queue v') \<le> 1 \<and> QualitySubmit (fst (QualityClose v')) no_edit = None"
proof -
  have v: "0 < qc_Concurrency quality_example" "nat (qc_DroppedRingSize (vf_cfg (NewShellVerifier quality_example))) = 2"
    "quality_depth (NewShellVerifier quality_example) = 1"
    by (simp_all add: quality_example_def quality_depth_def NewShellVerifier_def quality_defaults_def Let_def)
  from quality_queue_exact [OF v(1) refl v(2) [symmetric], of "[Offer no_edit, Offer no_edit, Serve]" no_edit]
  show ?thesis unfolding v(3) by blast
qed

end
