(* ===== verification/Spec2Isabelle.thy ===== *)
theory Spec2Isabelle
  imports Circuit Breaker BudgetGuard SpendTracker Limiter Coalescer LruCache AuthLimit SlmCache ArbiterCache
    RateLimit ClientIP Messages AuthGate Toon Promoter Slm Planner
    FrontierHealth Selector Cascade BufPool UpStream Similarity Fusion RagText MinHeap Hnsw RagStore EmbedCache
    Redact Providers ChatText Chat ChatFacts Recorder AuditLog Jwt ServerGate
    LocalHealth Egress Adapters WorkQueue Quality
begin

text \<open>
  A model of the core of nexus-proxy, a gateway in Go between coding agents and language models, and the
  theorems about it. A chat request comes in over HTTP, passes the inbound gates, is rewritten, routed to
  the local model, to a frontier provider or to a panel of both, and its answer is streamed back; caches,
  circuits, budgets and recorders stand around this path. This theory imports the whole development; every
  theory opens with what it models and which of its parts are parameters.

  \<^bold>\<open>The path of a request, and the theories along it\<close>

  \<^item> \<open>ServerGate\<close> (\<open>cmd/nexus/server.go\<close>, \<open>main.go\<close>): which gates stand in front of the mux for a
    configuration. It is composed of \<open>ClientIP\<close> (\<open>internal/ratelimit/clientip.go\<close>, \<open>allowlist.go\<close>: the
    address of a client, the allowlist), \<open>AuthLimit\<close> (\<open>ratelimit/auth.go\<close>: the limiter of failed logins),
    \<open>AuthGate\<close> (\<open>internal/auth/auth.go\<close>, \<open>tenant.go\<close>: the gate of bearer tokens) and \<open>Jwt\<close>
    (\<open>auth/jwt.go\<close>, \<open>authenticator.go\<close>: keys of an endpoint, tokens). \<open>RateLimit\<close>
    (\<open>ratelimit/middleware.go\<close>) is the token bucket of each client.
  \<^item> \<open>Chat\<close> and \<open>ChatText\<close> (\<open>internal/handlers/chat.go\<close>, \<open>sanitize.go\<close>, \<open>debug.go\<close>, \<open>recover.go\<close>):
    the handler, from its refusals to its records, and its pure helpers; \<open>ChatFacts\<close> holds what is proved of
    the handler. Its state \<open>chat_state\<close> is the response so far, what its observers were told and the
    components it holds; the handler's locals are arguments.
  \<^item> The passes over the messages: \<open>Messages\<close> (\<open>internal/middleware/prompt_engine.go\<close>, \<open>injection.go\<close>) and
    \<open>Toon\<close> (\<open>middleware/toon.go\<close>), with \<open>JText\<close> for the scanners of JSON text.
  \<^item> Routing (\<open>internal/router\<close>): \<open>Planner\<close> is the pipeline, over \<open>Dsl\<close> (size guard, keywords, categories),
    \<open>Promoter\<close> (promoted patterns), \<open>SlmCache\<close> (cache of decisions), \<open>Slm\<close> (client of the routing model),
    and \<open>Selector\<close> (choice of the provider) with \<open>FrontierHealth\<close> (\<open>internal/health/frontier.go\<close>).
  \<^item> Upstreams (\<open>internal/upstream\<close>): \<open>UpStream\<close> is the single dispatch, \<open>Cascade\<close> the list of fallbacks with
    its \<open>Coalescer\<close>, \<open>Fusion\<close> the panel with \<open>Similarity\<close> and \<open>ArbiterCache\<close>; \<open>BufPool\<close>
    (\<open>internal/ioutils\<close>) are its buffers. \<open>Providers\<close> and \<open>Adapters\<close> (\<open>internal/providers\<close>) are the
    configured providers and the translations of requests and answers; \<open>Egress\<close> (\<open>internal/transport\<close>) is
    the address filter of the outbound client.
  \<^item> Retrieval (\<open>internal/rag\<close>): \<open>RagText\<close> (files, chunks, cosine), \<open>MinHeap\<close> and \<open>Hnsw\<close> (the graph index),
    \<open>RagStore\<close> (the store over them), \<open>LruCache\<close> and \<open>EmbedCache\<close> (caches of vectors).
  \<^item> Guards and circuits: \<open>BudgetGuard\<close> and \<open>SpendTracker\<close> (\<open>internal/budget\<close>), \<open>Limiter\<close>
    (\<open>internal/concurrencylimit\<close>), \<open>Circuit\<close> (\<open>internal/circuit\<close>), \<open>Breaker\<close> and \<open>LocalHealth\<close>
    (\<open>internal/health\<close>).
  \<^item> Around it: \<open>Redact\<close> (\<open>handlers/redact.go\<close>), \<open>Recorder\<close> (\<open>internal/telemetry\<close>), \<open>AuditLog\<close>
    (\<open>internal/audit\<close>), \<open>Quality\<close> (\<open>internal/quality\<close>).
  \<^item> Shared: \<open>Prelude\<close> (conventions, generic lemmas), \<open>GoStrings\<close> and \<open>GoSort\<close> (what the program uses of
    Go's \<open>strings\<close> and \<open>sort\<close>), \<open>CacheSpec\<close> and \<open>WorkQueue\<close> (contracts).

  \<^bold>\<open>Contracts\<close>

  Where several parts share a contract it is a locale with its consequences, interpreted on the models: the
  caches (\<open>faithful_cache\<close>, \<open>bounded_cache\<close>: a hit is what was stored last, the cap holds) on the decision
  cache, the arbiter's cache and the coalescer; \<open>trip_guard\<close> on the cooldown and the breaker;
  \<open>attempt_guard\<close> on the login limiter; \<open>budget_checker\<close> on the spend guard; \<open>slot_pool\<close> on the limiter;
  \<open>priority_queue\<close> on the heap; \<open>worker_pool\<close> on the verifier's queue; \<open>strict_weak\<close> and \<open>unstable_sort\<close> on
  the orders and the sort the program uses.

  \<^bold>\<open>What is shown\<close>

  \<^item> Exact behaviour of whole operations on every branch, errors included: the handler's refusals and
    destinations, the precedence of a plan, cascades, streams, panels, gates, the redactor, the pollers.
  \<^item> Invariants over every history or interleaving: the limiter's ceiling, the overspend of the guard, the
    coherence of store and graph index, the keys of the authenticator, the queues.
  \<^item> Refinement and equivalence: the recorder against the list of its records, the heap against a multiset, the
    cached lookups against lookups without a cache, the translated requests against the conversation.
  \<^item> Round trips: the stored index, the tables of \<open>Toon\<close>, the audit log.
  \<^item> Defects, each as a theorem about the code as it is: for instance that a failed fetch of keys at the start
    opens the server, that waiters of one embedding get nothing, that the recorder never recovers from a
    failed write, that a failed sync forks the audit log, that a stock deployment refuses its own local model.

  \<^bold>\<open>Conventions, bounds and parameters\<close>

  Instants and durations are integers of nanoseconds, \<open>float64\<close> is a real number without rounding, a string
  is its bytes; counters whose width matters are words. A method under a mutex is one step; what works on
  atomics or lets its lock go is cut into steps that other threads may come between. Go's map order,
  \<open>sort.Slice\<close>, JSON, SHA-256, regular expressions, address and URL parsers, tokenizers, embedders, the
  network and the disk are parameters or data, with the documented behaviour a theorem needs as a named
  hypothesis. A panic is \<open>None\<close> as the whole result. All functions are total: loops over slices recurse on
  lists, the others have a measure; the only bound that stands in for a loop's own end is the code's own, the
  32 directories of the verifier's walk. No fuel is used.

  \<^bold>\<open>Not modelled\<close>

  Configuration loading (\<open>internal/config\<close>), metrics and tracing (\<open>internal/observability\<close>, \<open>metrics\<close>,
  \<open>tracing\<close>), the SQLite stores, secrets, hardware probes and diagnostics (\<open>probe\<close>, \<open>diag\<close>), the subcommands
  and terminal output (\<open>cmd/nexus\<close>), the pages that render the state of other parts, the directory watcher's
  events, the judge, and log lines everywhere: they are input and output, statements for a database, or only
  observe what is modelled.
\<close>

end
